(* ===== verification/Ebi_Prelude.thy ===== *)
theory Ebi_Prelude
  imports Main "HOL-Library.Sublist"
begin

text \<open>
  Shared vocabulary of the development.

  Go strings are byte sequences: \<open>string\<close> is a list of 8-bit characters. The functions of
  package \<^verbatim>\<open>strings\<close> the program calls are given for the ASCII range, where Go takes its
  byte-wise fast path: \<open>to_lower\<close> maps \<open>A\<close>..\<open>Z\<close>, \<open>trim_space\<close> strips the six ASCII
  blanks; bytes above 127 pass through unchanged (Go's Unicode case tables and the blanks
  U+0085 and U+00A0 are outside the model).

  Instants (\<^verbatim>\<open>time.Time\<close>) are nanoseconds since Go's zero time, so that \<open>IsZero\<close> is
  \<open>t = 0\<close>; durations are \<open>int64\<close> nanoseconds and \<open>Time.Sub\<close> saturates as Go's does.
\<close>

section \<open>Collections of facts\<close>

named_theorems str_simps \<open>facts about the string functions\<close>
named_theorems inv_intros \<open>preservation of component invariants\<close>

section \<open>Integers of 64 bits\<close>

definition max_int64 :: int where "max_int64 = 9223372036854775807"

definition min_int64 :: int where "min_int64 = - 9223372036854775808"

text \<open>Two's complement wrap-around of an \<open>int64\<close> result.\<close>

definition wrap64 :: "int \<Rightarrow> int" where
  "wrap64 x = (x + 9223372036854775808) mod 18446744073709551616 - 9223372036854775808"

lemma wrap64_in_range:
  "min_int64 \<le> x \<Longrightarrow> x \<le> max_int64 \<Longrightarrow> wrap64 x = x"
  by (simp add: wrap64_def min_int64_def max_int64_def)

lemma wrap64_bounds: "min_int64 \<le> wrap64 x \<and> wrap64 x \<le> max_int64"
proof -
  have "0 \<le> (x + 9223372036854775808) mod 18446744073709551616"
    by simp
  moreover have "(x + 9223372036854775808) mod 18446744073709551616 < 18446744073709551616"
    by simp
  ultimately show ?thesis
    by (simp add: wrap64_def min_int64_def max_int64_def)
qed

section \<open>Time\<close>

type_synonym time = int
type_synonym duration = int

definition zero_time :: time where "zero_time = 0"

definition nanosecond :: duration where "nanosecond = 1"
definition millisecond :: duration where "millisecond = 1000000"
definition second :: duration where "second = 1000000000"
definition minute :: duration where "minute = 60000000000"
definition hour :: duration where "hour = 3600000000000"

lemmas time_units = nanosecond_def millisecond_def second_def minute_def hour_def

text \<open>\<^verbatim>\<open>t.Sub(u)\<close>: the difference, saturated to the range of \<^verbatim>\<open>time.Duration\<close>.\<close>

definition time_sub :: "time \<Rightarrow> time \<Rightarrow> duration" where
  "time_sub t u = max min_int64 (min max_int64 (t - u))"

lemma time_sub_pos_iff [simp]: "0 < time_sub t u \<longleftrightarrow> u < t"
  by (auto simp: time_sub_def min_int64_def max_int64_def)

lemma time_sub_nonneg [simp]: "0 \<le> time_sub t u \<longleftrightarrow> u \<le> t"
  by (auto simp: time_sub_def min_int64_def max_int64_def)

lemma time_sub_exact:
  "- max_int64 \<le> t - u \<Longrightarrow> t - u \<le> max_int64 \<Longrightarrow> time_sub t u = t - u"
  by (simp add: time_sub_def min_int64_def max_int64_def)

lemma time_sub_gt_iff:
  "0 \<le> d \<Longrightarrow> d < max_int64 \<Longrightarrow> d < time_sub t u \<longleftrightarrow> u + d < t"
  by (auto simp: time_sub_def min_int64_def max_int64_def)

section \<open>Strings\<close>

definition is_space :: "char \<Rightarrow> bool" where
  "is_space c \<longleftrightarrow> c \<in> {CHR 0x09, CHR 0x0A, CHR 0x0B, CHR 0x0C, CHR 0x0D, CHR '' ''}"

definition trim_left :: "string \<Rightarrow> string" where
  "trim_left s = dropWhile is_space s"

definition trim_right :: "string \<Rightarrow> string" where
  "trim_right s = rev (dropWhile is_space (rev s))"

definition trim_space :: "string \<Rightarrow> string" where
  "trim_space s = trim_right (trim_left s)"

definition lower_char :: "char \<Rightarrow> char" where
  "lower_char c =
     (let n = (of_char c :: nat) in if 65 \<le> n \<and> n \<le> 90 then char_of (n + 32) else c)"

definition to_lower :: "string \<Rightarrow> string" where
  "to_lower s = map lower_char s"

fun str_contains :: "string \<Rightarrow> string \<Rightarrow> bool" where
  "str_contains [] pat = (pat = [])"
| "str_contains (c # s) pat = (prefix pat (c # s) \<or> str_contains s pat)"

text \<open>\<^verbatim>\<open>strings.Index\<close> of a one-byte separator.\<close>

fun index_char :: "char \<Rightarrow> string \<Rightarrow> nat option" where
  "index_char a [] = None"
| "index_char a (c # s) = (if c = a then Some 0 else map_option Suc (index_char a s))"

text \<open>\<^verbatim>\<open>strings.SplitN(s, sep, n)\<close> for a one-byte separator and positive \<open>n\<close>.\<close>

fun splitn :: "nat \<Rightarrow> char \<Rightarrow> string \<Rightarrow> string list" where
  "splitn 0 a s = []"
| "splitn (Suc 0) a s = [s]"
| "splitn (Suc (Suc n)) a s =
     (case index_char a s of
        None \<Rightarrow> [s]
      | Some i \<Rightarrow> take i s # splitn (Suc n) a (drop (Suc i) s))"

text \<open>\<^verbatim>\<open>strings.ReplaceAll\<close> of one byte by another.\<close>

definition replace_char :: "char \<Rightarrow> char \<Rightarrow> string \<Rightarrow> string" where
  "replace_char a b s = map (\<lambda>c. if c = a then b else c) s"

text \<open>\<^verbatim>\<open>%d\<close> of a number that is not negative.\<close>

fun decimal :: "nat \<Rightarrow> string" where
  "decimal n = (if n < 10 then [char_of (48 + n)] else decimal (n div 10) @ [char_of (48 + n mod 10)])"

declare decimal.simps [simp del]

subsection \<open>Trimming\<close>

lemma dropWhile_not_head: "dropWhile P xs = x # ys \<Longrightarrow> \<not> P x"
  by (metis dropWhile_eq_Cons_conv)

lemma trim_left_idem [str_simps]: "trim_left (trim_left s) = trim_left s"
  by (simp add: trim_left_def)

lemma trim_right_idem [str_simps]: "trim_right (trim_right s) = trim_right s"
  by (simp add: trim_right_def)

lemma trim_right_Nil [simp]: "trim_right [] = []"
  by (simp add: trim_right_def)

lemma trim_right_prefix: "prefix (trim_right s) s"
proof -
  have "suffix (dropWhile is_space (rev s)) (rev s)"
    by (rule suffix_dropWhile)
  then show ?thesis
    by (simp add: trim_right_def suffix_to_prefix)
qed

lemma trim_right_first:
  assumes "s = [] \<or> \<not> is_space (hd s)"
  shows "trim_right s = [] \<or> \<not> is_space (hd (trim_right s))"
proof (cases "trim_right s")
  case (Cons x xs)
  with trim_right_prefix [of s] obtain zs where "s = (x # xs) @ zs"
    by (auto simp: prefix_def)
  with assms Cons show ?thesis by simp
qed simp

lemma trim_left_first: "trim_left s = [] \<or> \<not> is_space (hd (trim_left s))"
  by (cases "trim_left s") (auto simp: trim_left_def dest: dropWhile_not_head)

lemma trim_left_id: "s = [] \<or> \<not> is_space (hd s) \<Longrightarrow> trim_left s = s"
  by (cases s) (auto simp: trim_left_def)

lemma trim_space_idem [str_simps, simp]: "trim_space (trim_space s) = trim_space s"
proof -
  have "trim_left (trim_right (trim_left s)) = trim_right (trim_left s)"
    by (rule trim_left_id) (rule trim_right_first [OF trim_left_first])
  then show ?thesis by (simp add: trim_space_def trim_right_idem)
qed

lemma trim_space_Nil [simp]: "trim_space [] = []"
  by (simp add: trim_space_def trim_left_def)

lemma trim_right_id: "s = [] \<or> \<not> is_space (last s) \<Longrightarrow> trim_right s = s"
  by (cases s rule: rev_cases) (auto simp: trim_right_def)

lemma trim_space_id:
  "s = [] \<or> (\<not> is_space (hd s) \<and> \<not> is_space (last s)) \<Longrightarrow> trim_space s = s"
  by (auto simp: trim_space_def trim_left_id trim_right_id)

lemma trim_space_no_blank: "\<forall>c\<in>set s. \<not> is_space c \<Longrightarrow> trim_space s = s"
  by (rule trim_space_id) (cases s; auto)

lemma set_trim_space: "set (trim_space s) \<subseteq> set s"
  by (auto simp: trim_space_def trim_right_def trim_left_def dest!: set_dropWhileD)

subsection \<open>Lower case\<close>

lemma lower_char_idem [str_simps, simp]: "lower_char (lower_char c) = lower_char c"
  by (auto simp: lower_char_def Let_def of_char_of)

lemma to_lower_idem [str_simps, simp]: "to_lower (to_lower s) = to_lower s"
  by (simp add: to_lower_def comp_def)

lemma to_lower_Nil [simp]: "to_lower [] = []"
  by (simp add: to_lower_def)

lemma to_lower_append [simp]: "to_lower (s @ t) = to_lower s @ to_lower t"
  by (simp add: to_lower_def)

lemma to_lower_eq_Nil [simp]: "to_lower s = [] \<longleftrightarrow> s = []"
  by (simp add: to_lower_def)

lemma length_to_lower [simp]: "length (to_lower s) = length s"
  by (simp add: to_lower_def)

lemma of_char_lt [simp]: "(of_char c :: nat) < 256"
  by (metis nat_of_char_less_256)

lemma is_space_code: "is_space c \<longleftrightarrow> (of_char c :: nat) \<in> {9, 10, 11, 12, 13, 32}"
proof -
  have eq: "c = d \<longleftrightarrow> (of_char c :: nat) = of_char d" for d :: char
    by (metis char_of_char)
  show ?thesis
    by (simp add: is_space_def eq [of "CHR 0x09"] eq [of "CHR 0x0A"] eq [of "CHR 0x0B"]
        eq [of "CHR 0x0C"] eq [of "CHR 0x0D"] eq [of "CHR '' ''"])
qed

lemma lower_char_code:
  "(of_char (lower_char c) :: nat)
     = (if 65 \<le> (of_char c :: nat) \<and> (of_char c :: nat) \<le> 90 then of_char c + 32 else of_char c)"
  by (auto simp: lower_char_def Let_def)

lemma is_space_lower [simp]: "is_space (lower_char c) = is_space c"
  by (auto simp: is_space_code lower_char_code)

lemma dropWhile_lower:
  "dropWhile is_space (map lower_char t) = map lower_char (dropWhile is_space t)"
  by (induction t) auto

lemma trim_space_lower: "trim_space (to_lower s) = to_lower (trim_space s)"
  by (simp add: trim_space_def trim_left_def trim_right_def to_lower_def dropWhile_lower rev_map)

lemma lower_char_id: "\<not> (65 \<le> (of_char c :: nat) \<and> (of_char c :: nat) \<le> 90) \<Longrightarrow> lower_char c = c"
  by (auto simp: lower_char_def Let_def)

subsection \<open>Trimmed strings and separators\<close>

lemma trim_right_last: "trim_right s = [] \<or> \<not> is_space (last (trim_right s))"
proof (cases "dropWhile is_space (rev s)")
  case (Cons x xs)
  then have "\<not> is_space x" by (rule dropWhile_not_head)
  with Cons show ?thesis by (simp add: trim_right_def)
qed (simp add: trim_right_def)

lemma trim_space_ends:
  assumes "trim_space s = s" and "s \<noteq> []"
  shows "\<not> is_space (hd s)" "\<not> is_space (last s)"
proof -
  have "\<not> is_space (hd (trim_space s))"
    using trim_right_first [OF trim_left_first, of s] assms by (simp add: trim_space_def)
  then show "\<not> is_space (hd s)" using assms by simp
  have "\<not> is_space (last (trim_space s))"
    using trim_right_last [of "trim_left s"] assms by (simp add: trim_space_def)
  then show "\<not> is_space (last s)" using assms by simp
qed

lemma trim_space_join:
  assumes "trim_space a = a" "a \<noteq> []" "trim_space b = b" "b \<noteq> []"
  shows "trim_space (a @ m @ b) = a @ m @ b"
  using trim_space_ends [OF assms(1,2)] trim_space_ends [OF assms(3,4)] assms
  by (intro trim_space_id) simp

lemma index_char_None [simp]: "index_char a s = None \<longleftrightarrow> a \<notin> set s"
  by (induction s) auto

lemma index_char_append: "a \<notin> set xs \<Longrightarrow> index_char a (xs @ a # ys) = Some (length xs)"
  by (induction xs) auto

lemma index_char_SomeD:
  "index_char a s = Some i \<Longrightarrow> i < length s \<and> s ! i = a \<and> a \<notin> set (take i s)"
  by (induction s arbitrary: i) (auto split: if_splits)

lemma lower_char_eq_iff:
  "\<not> (97 \<le> (of_char a :: nat) \<and> (of_char a :: nat) \<le> 122) \<Longrightarrow>
   \<not> (65 \<le> (of_char a :: nat) \<and> (of_char a :: nat) \<le> 90) \<Longrightarrow> lower_char c = a \<longleftrightarrow> c = a"
proof -
  have eq: "x = y \<longleftrightarrow> (of_char x :: nat) = of_char y" for x y :: char
    by (metis char_of_char)
  assume "\<not> (97 \<le> (of_char a :: nat) \<and> (of_char a :: nat) \<le> 122)"
    and "\<not> (65 \<le> (of_char a :: nat) \<and> (of_char a :: nat) \<le> 90)"
  then show ?thesis
    unfolding eq [of "lower_char c" a] eq [of c a] lower_char_code by auto
qed

lemma mem_to_lower:
  assumes "\<not> (97 \<le> (of_char a :: nat) \<and> (of_char a :: nat) \<le> 122)"
    and "\<not> (65 \<le> (of_char a :: nat) \<and> (of_char a :: nat) \<le> 90)"
  shows "a \<in> set (to_lower s) \<longleftrightarrow> a \<in> set s"
proof (induction s)
  case (Cons c s)
  with lower_char_eq_iff [OF assms, of c] show ?case by (auto simp: to_lower_def)
qed simp

text \<open>The numeral of a number gives the number back.\<close>

lemma decimal_value: "foldl (\<lambda>a c. 10 * a + (of_char c - 48)) (0 :: nat) (decimal n) = n"
proof (induction n rule: decimal.induct)
  case (1 n)
  then show ?case by (subst decimal.simps) (simp add: mod_less_divisor)
qed

lemma decimal_inj: "decimal m = decimal n \<longleftrightarrow> m = n"
  by (metis decimal_value)

end
