(* ===== verification/Cooldown.thy ===== *)
theory Cooldown
  imports Ebi_Prelude
begin

text \<open>
  \<^verbatim>\<open>pkg/providers/cooldown.go\<close>: the per-provider cooldown state of the fallback chain.
  The tracker's Go map is a partial function from provider keys to entries, the clock
  \<^verbatim>\<open>nowFunc\<close> is the argument \<open>now\<close> of every operation, and each locked section is one
  function on the tracker. \<^verbatim>\<open>FailureCounts\<close>, a Go map read with its zero default, is a total
  function. The failure reasons (\<^verbatim>\<open>pkg/providers/types.go\<close>) are a datatype, \<open>NoReason\<close> being
  the empty string.
\<close>

section \<open>Data\<close>

datatype failover_reason =
    NoReason
  | FailoverAuth
  | FailoverRateLimit
  | FailoverBilling
  | FailoverTimeout
  | FailoverFormat
  | FailoverContextOverflow
  | FailoverOverloaded
  | FailoverUnknown

record cooldown_entry =
  ErrorCount :: int
  FailureCounts :: "failover_reason \<Rightarrow> int"
  CooldownEnd :: time
  DisabledUntil :: time
  DisabledReason :: failover_reason
  LastFailure :: time

record cooldown_tracker =
  ct_entries :: "string \<rightharpoonup> cooldown_entry"
  failureWindow :: duration

definition defaultFailureWindow :: duration where
  "defaultFailureWindow = 24 * hour"

definition newCooldownTracker :: cooldown_tracker where
  "newCooldownTracker = \<lparr>ct_entries = Map.empty, failureWindow = defaultFailureWindow\<rparr>"

section \<open>Operations\<close>

definition empty_entry :: cooldown_entry where
  "empty_entry = \<lparr>ErrorCount = 0, FailureCounts = (\<lambda>_. 0), CooldownEnd = zero_time,
     DisabledUntil = zero_time, DisabledReason = NoReason, LastFailure = zero_time\<rparr>"

text \<open>\<^verbatim>\<open>getOrCreate\<close>: the entry, and the map with it inserted if it was missing.\<close>

definition getOrCreate :: "cooldown_tracker \<Rightarrow> string \<Rightarrow> cooldown_tracker \<times> cooldown_entry" where
  "getOrCreate ct provider =
     (case ct_entries ct provider of
        None \<Rightarrow> (ct\<lparr>ct_entries := (ct_entries ct)(provider \<mapsto> empty_entry)\<rparr>, empty_entry)
      | Some e \<Rightarrow> (ct, e))"

definition calculateStandardCooldown :: "int \<Rightarrow> duration" where
  "calculateStandardCooldown errorCount =
     (let n = max 1 errorCount;
          e = min (n - 1) 3;
          ms = 60000 * 5 ^ nat e
      in min 3600000 ms * millisecond)"

definition calculateBillingCooldown :: "int \<Rightarrow> duration" where
  "calculateBillingCooldown billingErrorCount =
     (let baseMs = 5 * 60 * 60 * 1000;
          maxMs = 24 * 60 * 60 * 1000;
          n = max 1 billingErrorCount;
          e = min (n - 1) 10;
          raw = baseMs * 2 ^ nat e
      in min maxMs raw * millisecond)"

text \<open>The body of \<^verbatim>\<open>MarkFailure\<close> on one entry, in its three steps.\<close>

definition window_reset :: "duration \<Rightarrow> time \<Rightarrow> cooldown_entry \<Rightarrow> cooldown_entry" where
  "window_reset window now e =
     (if LastFailure e \<noteq> zero_time \<and> time_sub now (LastFailure e) > window
      then e\<lparr>ErrorCount := 0, FailureCounts := (\<lambda>_. 0)\<rparr> else e)"

definition count_failure :: "failover_reason \<Rightarrow> time \<Rightarrow> cooldown_entry \<Rightarrow> cooldown_entry" where
  "count_failure reason now e =
     e\<lparr>ErrorCount := ErrorCount e + 1,
       FailureCounts := (FailureCounts e)(reason := FailureCounts e reason + 1),
       LastFailure := now\<rparr>"

definition set_cooldown :: "failover_reason \<Rightarrow> time \<Rightarrow> cooldown_entry \<Rightarrow> cooldown_entry" where
  "set_cooldown reason now e =
     (if reason = FailoverBilling
      then e\<lparr>DisabledUntil := now + calculateBillingCooldown (FailureCounts e FailoverBilling),
             DisabledReason := FailoverBilling\<rparr>
      else e\<lparr>CooldownEnd := now + calculateStandardCooldown (ErrorCount e)\<rparr>)"

definition markFailure ::
  "cooldown_tracker \<Rightarrow> string \<Rightarrow> failover_reason \<Rightarrow> time \<Rightarrow> cooldown_tracker" where
  "markFailure ct provider reason now =
     (let (ct', e) = getOrCreate ct provider;
          e1 = window_reset (failureWindow ct) now e;
          e2 = count_failure reason now e1;
          e3 = set_cooldown reason now e2
      in ct'\<lparr>ct_entries := (ct_entries ct')(provider \<mapsto> e3)\<rparr>)"

definition markSuccess :: "cooldown_tracker \<Rightarrow> string \<Rightarrow> cooldown_tracker" where
  "markSuccess ct provider =
     (case ct_entries ct provider of
        None \<Rightarrow> ct
      | Some e \<Rightarrow>
          ct\<lparr>ct_entries := (ct_entries ct)(provider \<mapsto>
               e\<lparr>ErrorCount := 0, FailureCounts := (\<lambda>_. 0), CooldownEnd := zero_time,
                 DisabledUntil := zero_time, DisabledReason := NoReason\<rparr>)\<rparr>)"

definition isAvailable :: "cooldown_tracker \<Rightarrow> string \<Rightarrow> time \<Rightarrow> bool" where
  "isAvailable ct provider now =
     (case ct_entries ct provider of
        None \<Rightarrow> True
      | Some e \<Rightarrow>
          if DisabledUntil e \<noteq> zero_time \<and> now < DisabledUntil e then False
          else if CooldownEnd e \<noteq> zero_time \<and> now < CooldownEnd e then False
          else True)"

definition cooldownRemaining :: "cooldown_tracker \<Rightarrow> string \<Rightarrow> time \<Rightarrow> duration" where
  "cooldownRemaining ct provider now =
     (case ct_entries ct provider of
        None \<Rightarrow> 0
      | Some e \<Rightarrow>
          (let r0 = 0;
               r1 = (if DisabledUntil e \<noteq> zero_time \<and> now < DisabledUntil e
                     then (let d = time_sub (DisabledUntil e) now in if d > r0 then d else r0)
                     else r0);
               r2 = (if CooldownEnd e \<noteq> zero_time \<and> now < CooldownEnd e
                     then (let d = time_sub (CooldownEnd e) now in if d > r1 then d else r1)
                     else r1)
           in r2))"

definition errorCount :: "cooldown_tracker \<Rightarrow> string \<Rightarrow> int" where
  "errorCount ct provider =
     (case ct_entries ct provider of None \<Rightarrow> 0 | Some e \<Rightarrow> ErrorCount e)"

definition failureCount :: "cooldown_tracker \<Rightarrow> string \<Rightarrow> failover_reason \<Rightarrow> int" where
  "failureCount ct provider reason =
     (case ct_entries ct provider of None \<Rightarrow> 0 | Some e \<Rightarrow> FailureCounts e reason)"

section \<open>The backoff schedules\<close>

lemma standard_bounds:
  "minute \<le> calculateStandardCooldown n \<and> calculateStandardCooldown n \<le> hour"
proof -
  have "(1::int) \<le> 5 ^ nat (min (max 1 n - 1) 3)" by simp
  then have "(60000::int) \<le> 60000 * 5 ^ nat (min (max 1 n - 1) 3)" by simp
  then show ?thesis
    by (auto simp: calculateStandardCooldown_def Let_def time_units min_def)
qed

lemma billing_bounds:
  "5 * hour \<le> calculateBillingCooldown n \<and> calculateBillingCooldown n \<le> 24 * hour"
proof -
  have "(1::int) \<le> 2 ^ nat (min (max 1 n - 1) 10)" by simp
  then have "(18000000::int) \<le> 18000000 * 2 ^ nat (min (max 1 n - 1) 10)" by simp
  then show ?thesis
    by (auto simp: calculateBillingCooldown_def Let_def time_units min_def)
qed

lemma standard_mono: "m \<le> n \<Longrightarrow> calculateStandardCooldown m \<le> calculateStandardCooldown n"
  unfolding calculateStandardCooldown_def Let_def time_units
  by (intro mult_right_mono min.mono mult_left_mono power_increasing nat_mono) auto

lemma billing_mono: "m \<le> n \<Longrightarrow> calculateBillingCooldown m \<le> calculateBillingCooldown n"
  unfolding calculateBillingCooldown_def Let_def time_units
  by (intro mult_right_mono min.mono mult_left_mono power_increasing nat_mono) auto

lemma standard_capped:
  assumes "4 \<le> n" shows "calculateStandardCooldown n = hour"
proof -
  have "min (max 1 n - 1) 3 = (3::int)" using assms by simp
  then show ?thesis by (simp add: calculateStandardCooldown_def time_units Let_def)
qed

lemma billing_capped:
  assumes "4 \<le> n" shows "calculateBillingCooldown n = 24 * hour"
proof -
  have "nat 3 \<le> nat (min (max 1 n - 1) 10)" using assms by (intro nat_mono) auto
  then have "(2::int) ^ nat 3 \<le> 2 ^ nat (min (max 1 n - 1) 10)"
    by (intro power_increasing) auto
  then show ?thesis by (simp add: calculateBillingCooldown_def time_units Let_def)
qed

section \<open>Reading an entry after an operation\<close>

definition entry_of :: "cooldown_tracker \<Rightarrow> string \<Rightarrow> cooldown_entry" where
  "entry_of ct p = (case ct_entries ct p of None \<Rightarrow> empty_entry | Some e \<Rightarrow> e)"

lemma entry_of_markFailure:
  "entry_of (markFailure ct p r now) q =
     (if q = p then set_cooldown r now (count_failure r now
                      (window_reset (failureWindow ct) now (entry_of ct p)))
      else entry_of ct q)"
  by (auto simp: entry_of_def markFailure_def getOrCreate_def Let_def split: option.splits)

lemma entry_of_markSuccess:
  "entry_of (markSuccess ct p) q =
     (if q = p
      then (entry_of ct p)\<lparr>ErrorCount := 0, FailureCounts := (\<lambda>_. 0), CooldownEnd := zero_time,
                 DisabledUntil := zero_time, DisabledReason := NoReason\<rparr>
      else entry_of ct q)"
  by (auto simp: entry_of_def markSuccess_def empty_entry_def split: option.splits)

lemma window_markFailure [simp]: "failureWindow (markFailure ct p r now) = failureWindow ct"
  by (auto simp: markFailure_def getOrCreate_def Let_def split: option.splits)

lemma window_markSuccess [simp]: "failureWindow (markSuccess ct p) = failureWindow ct"
  by (auto simp: markSuccess_def split: option.splits)

lemma isAvailable_entry:
  "isAvailable ct p t \<longleftrightarrow>
     \<not> (DisabledUntil (entry_of ct p) \<noteq> zero_time \<and> t < DisabledUntil (entry_of ct p)) \<and>
     \<not> (CooldownEnd (entry_of ct p) \<noteq> zero_time \<and> t < CooldownEnd (entry_of ct p))"
  by (auto simp: isAvailable_def entry_of_def empty_entry_def split: option.splits)

lemma cooldownRemaining_entry:
  "cooldownRemaining ct p t =
     (let e = entry_of ct p;
          live = (\<lambda>u. if u \<noteq> zero_time \<and> t < u then time_sub u t else 0)
      in max (live (DisabledUntil e)) (live (CooldownEnd e)))"
  by (auto simp: cooldownRemaining_def entry_of_def empty_entry_def Let_def max_def zero_time_def
      not_less split: option.splits)
    (metis less_le_not_le order.trans time_sub_pos_iff)+

lemmas entry_updates = window_reset_def count_failure_def set_cooldown_def

section \<open>The invariant of reachable trackers\<close>

definition all_reasons :: "failover_reason list" where
  "all_reasons = [NoReason, FailoverAuth, FailoverRateLimit, FailoverBilling, FailoverTimeout,
     FailoverFormat, FailoverContextOverflow, FailoverOverloaded, FailoverUnknown]"

definition total_failures :: "cooldown_entry \<Rightarrow> int" where
  "total_failures e = sum_list (map (FailureCounts e) all_reasons)"

lemma total_failures_count [simp]:
  "total_failures (count_failure r now e) = total_failures e + 1"
  by (cases r) (simp_all add: total_failures_def all_reasons_def count_failure_def)

lemma total_failures_set_cooldown [simp]:
  "total_failures (set_cooldown r now e) = total_failures e"
  by (simp add: total_failures_def set_cooldown_def)

definition entry_inv :: "time \<Rightarrow> cooldown_entry \<Rightarrow> bool" where
  "entry_inv now e \<longleftrightarrow>
     (\<forall>r. 0 \<le> FailureCounts e r) \<and>
     ErrorCount e = total_failures e \<and>
     LastFailure e \<le> now \<and>
     (CooldownEnd e \<noteq> zero_time \<longrightarrow>
        0 < LastFailure e \<and>
        CooldownEnd e \<le> LastFailure e + calculateStandardCooldown (ErrorCount e)) \<and>
     (DisabledUntil e \<noteq> zero_time \<longrightarrow>
        0 < LastFailure e \<and>
        DisabledUntil e \<le> LastFailure e + calculateBillingCooldown (FailureCounts e FailoverBilling))"

definition tracker_inv :: "time \<Rightarrow> cooldown_tracker \<Rightarrow> bool" where
  "tracker_inv now ct \<longleftrightarrow>
     0 < now \<and> failureWindow ct = defaultFailureWindow \<and> (\<forall>p. entry_inv now (entry_of ct p))"

lemma entry_inv_empty: "0 < now \<Longrightarrow> entry_inv now empty_entry"
  by (simp add: entry_inv_def empty_entry_def total_failures_def all_reasons_def zero_time_def)

lemma entry_inv_later: "entry_inv now e \<Longrightarrow> now \<le> later \<Longrightarrow> entry_inv later e"
  by (auto simp: entry_inv_def)

lemma entry_inv_reset:
  assumes inv: "entry_inv now e" and "0 < now"
  defines "e' \<equiv> window_reset defaultFailureWindow now e"
  shows "(\<forall>r. 0 \<le> FailureCounts e' r) \<and> ErrorCount e' = total_failures e'
     \<and> LastFailure e' \<le> now
     \<and> (CooldownEnd e' \<noteq> zero_time \<longrightarrow>
          CooldownEnd e' \<le> now + calculateStandardCooldown (ErrorCount e'))
     \<and> (DisabledUntil e' \<noteq> zero_time \<longrightarrow>
          DisabledUntil e' \<le> now + calculateBillingCooldown (FailureCounts e' FailoverBilling))"
proof (cases "LastFailure e \<noteq> zero_time \<and> time_sub now (LastFailure e) > defaultFailureWindow")
  case True
  then have "LastFailure e + 24 * hour < now"
    by (simp add: defaultFailureWindow_def time_sub_gt_iff time_units max_int64_def)
  moreover have "0 < hour" "hour \<le> 24 * hour" by (simp_all add: time_units)
  moreover note standard_bounds [of "ErrorCount e"] billing_bounds [of "FailureCounts e FailoverBilling"]
    standard_bounds [of 0] billing_bounds [of 0]
  moreover have "0 < minute" "0 < 5 * hour" by (simp_all add: time_units)
  ultimately show ?thesis
    using inv True unfolding e'_def window_reset_def entry_inv_def
    by (auto simp: total_failures_def all_reasons_def)
next
  case False
  then have "e' = e" unfolding e'_def window_reset_def by auto
  then show ?thesis using inv by (auto simp: entry_inv_def)
qed

lemma entry_inv_failure:
  assumes inv: "entry_inv now e" and now: "0 < now"
  shows "entry_inv now (set_cooldown r now (count_failure r now
           (window_reset defaultFailureWindow now e)))"
proof -
  let ?e = "window_reset defaultFailureWindow now e"
  note R = entry_inv_reset [OF inv now]
  have std: "calculateStandardCooldown (ErrorCount ?e) \<le> calculateStandardCooldown (ErrorCount ?e + 1)"
    by (rule standard_mono) simp
  have bil: "calculateBillingCooldown (FailureCounts ?e FailoverBilling)
      \<le> calculateBillingCooldown (FailureCounts ?e FailoverBilling + 1)"
    by (rule billing_mono) simp
  have tot: "total_failures (set_cooldown r now (count_failure r now ?e)) = total_failures ?e + 1"
    by simp
  have cnt: "ErrorCount (set_cooldown r now (count_failure r now ?e)) = ErrorCount ?e + 1"
    by (simp add: set_cooldown_def count_failure_def)
  show ?thesis
    unfolding entry_inv_def tot cnt
    using R std bil now by (auto simp: set_cooldown_def count_failure_def)
qed

lemma tracker_inv_new [inv_intros]: "0 < now \<Longrightarrow> tracker_inv now newCooldownTracker"
  by (simp add: tracker_inv_def newCooldownTracker_def entry_of_def entry_inv_empty)

lemma tracker_inv_later [inv_intros]: "tracker_inv now ct \<Longrightarrow> now \<le> later \<Longrightarrow> tracker_inv later ct"
  by (auto simp: tracker_inv_def intro: entry_inv_later)

lemma tracker_inv_markFailure [inv_intros]:
  "tracker_inv now ct \<Longrightarrow> tracker_inv now (markFailure ct p r now)"
  by (simp add: tracker_inv_def entry_of_markFailure entry_inv_failure)

lemma tracker_inv_markSuccess [inv_intros]:
  "tracker_inv now ct \<Longrightarrow> tracker_inv now (markSuccess ct p)"
  by (auto simp: tracker_inv_def entry_of_markSuccess entry_inv_def total_failures_def
      all_reasons_def zero_time_def)

section \<open>Reachable trackers\<close>

text \<open>
  A run of the tracker: time passes, failures and successes are recorded under the clock's
  current value. Any interleaving of the callers is such a sequence, since every operation
  holds the tracker's lock.
\<close>

inductive reachable_tracker :: "time \<Rightarrow> cooldown_tracker \<Rightarrow> bool" where
  rt_new: "0 < now \<Longrightarrow> reachable_tracker now newCooldownTracker"
| rt_time: "reachable_tracker now ct \<Longrightarrow> now \<le> later \<Longrightarrow> reachable_tracker later ct"
| rt_failure: "reachable_tracker now ct \<Longrightarrow> reachable_tracker now (markFailure ct p r now)"
| rt_success: "reachable_tracker now ct \<Longrightarrow> reachable_tracker now (markSuccess ct p)"

lemma reachable_tracker_inv: "reachable_tracker now ct \<Longrightarrow> tracker_inv now ct"
  by (induction rule: reachable_tracker.induct) (auto intro: inv_intros)

lemma markFailure_never_shortens:
  assumes inv: "tracker_inv now ct" and avail: "isAvailable (markFailure ct p r now) q t"
  shows "isAvailable ct q t"
proof (cases "q = p")
  case False
  with avail show ?thesis by (simp add: isAvailable_entry entry_of_markFailure)
next
  case True
  let ?e = "window_reset defaultFailureWindow now (entry_of ct p)"
  have win: "failureWindow ct = defaultFailureWindow" and now: "0 < now"
    and ei: "entry_inv now (entry_of ct p)" using inv by (auto simp: tracker_inv_def)
  note R = entry_inv_reset [OF ei now]
  have same: "CooldownEnd ?e = CooldownEnd (entry_of ct p)"
    "DisabledUntil ?e = DisabledUntil (entry_of ct p)"
    by (auto simp: window_reset_def)
  have std: "calculateStandardCooldown (ErrorCount ?e) \<le> calculateStandardCooldown (ErrorCount ?e + 1)"
    by (rule standard_mono) simp
  have bil: "calculateBillingCooldown (FailureCounts ?e FailoverBilling)
      \<le> calculateBillingCooldown (FailureCounts ?e FailoverBilling + 1)"
    by (rule billing_mono) simp
  have pos: "0 < calculateStandardCooldown k" "0 < calculateBillingCooldown k" for k
    using standard_bounds [of k] billing_bounds [of k] by (auto simp: time_units)
  have nz: "now + calculateStandardCooldown k \<noteq> zero_time" "now + calculateBillingCooldown k \<noteq> zero_time" for k
    using pos [of k] now by (auto simp: zero_time_def)
  show ?thesis
    using avail R std bil nz True
    unfolding isAvailable_entry entry_of_markFailure win
    by (auto simp: set_cooldown_def count_failure_def same split: if_splits)
qed

section \<open>The interface the fallback chain relies on\<close>

text \<open>
  What \<^verbatim>\<open>FallbackChain\<close> needs of its tracker: a fresh tracker refuses nobody, success clears
  a provider, failure blocks it for a positive time and never frees anybody, and an operation
  on one provider does not touch the others.
\<close>

locale availability =
  fixes fresh :: "'t" and avail :: "'t \<Rightarrow> 'k \<Rightarrow> time \<Rightarrow> bool"
    and fail :: "'t \<Rightarrow> 'k \<Rightarrow> 'r \<Rightarrow> time \<Rightarrow> 't" and succ :: "'t \<Rightarrow> 'k \<Rightarrow> 't"
    and ok :: "time \<Rightarrow> 't \<Rightarrow> bool"
  assumes fresh_ok: "0 < now \<Longrightarrow> ok now fresh"
    and fresh_avail: "avail fresh k t"
    and later_ok: "ok now s \<Longrightarrow> now \<le> t \<Longrightarrow> ok t s"
    and fail_ok: "ok now s \<Longrightarrow> ok now (fail s k r now)"
    and succ_ok: "ok now s \<Longrightarrow> ok now (succ s k)"
    and succ_avail: "avail (succ s k) k t"
    and succ_frame: "k \<noteq> j \<Longrightarrow> avail (succ s k) j t = avail s j t"
    and fail_frame: "k \<noteq> j \<Longrightarrow> avail (fail s k r now) j t = avail s j t"
    and fail_blocks: "ok now s \<Longrightarrow> \<not> avail (fail s k r now) k now"
    and fail_mono: "ok now s \<Longrightarrow> avail (fail s k r now) j t \<Longrightarrow> avail s j t"
begin

text \<open>A burst of failures at one instant: nobody is freed, every failed key is blocked.\<close>

lemma fail_all_ok:
  "ok now s \<Longrightarrow> ok now (fold (\<lambda>(k, r) s. fail s k r now) krs s)"
  by (induction krs arbitrary: s) (auto simp: fail_ok)

lemma fail_all_mono:
  "ok now s \<Longrightarrow> avail (fold (\<lambda>(k, r) s. fail s k r now) krs s) j t \<Longrightarrow> avail s j t"
proof (induction krs arbitrary: s)
  case (Cons kr krs)
  obtain k r where kr: "kr = (k, r)" by (cases kr)
  have "avail (fail s k r now) j t"
    by (rule Cons.IH) (use Cons.prems in \<open>simp_all add: kr fail_ok\<close>)
  with Cons.prems(1) show ?case by (rule fail_mono)
qed simp

lemma fail_all_blocks:
  assumes "ok now s" and "k \<in> fst ` set krs"
  shows "\<not> avail (fold (\<lambda>(k, r) s. fail s k r now) krs s) k now"
  using assms
proof (induction krs arbitrary: s)
  case (Cons kr krs)
  obtain k' r' where kr: "kr = (k', r')" by (cases kr)
  have ok': "ok now (fail s k' r' now)" using Cons.prems(1) by (rule fail_ok)
  show ?case
  proof (cases "k \<in> fst ` set krs")
    case True
    with Cons.IH [OF ok' True] show ?thesis by (simp add: kr)
  next
    case False
    with Cons.prems(2) kr have "k = k'" by auto
    with fail_blocks [OF Cons.prems(1)] have "\<not> avail (fail s k' r' now) k now" by simp
    with fail_all_mono [OF ok'] show ?thesis by (auto simp: kr)
  qed
qed simp

end

lemma failure_blocks:
  assumes inv: "tracker_inv now ct" shows "\<not> isAvailable (markFailure ct p r now) p now"
proof -
  have pos: "0 < calculateStandardCooldown k" "0 < calculateBillingCooldown k" for k
    using standard_bounds [of k] billing_bounds [of k] by (auto simp: time_units)
  have nz: "now + calculateStandardCooldown k \<noteq> zero_time" "now + calculateBillingCooldown k \<noteq> zero_time" for k
    using pos [of k] inv by (auto simp: tracker_inv_def zero_time_def)
  show ?thesis using pos nz
    by (simp add: isAvailable_entry entry_of_markFailure set_cooldown_def)
qed

interpretation cooldowns: availability newCooldownTracker isAvailable markFailure markSuccess tracker_inv
proof unfold_locales
  show "isAvailable newCooldownTracker k t" for k t
    by (simp add: isAvailable_def newCooldownTracker_def)
  show "isAvailable (markSuccess s k) k t" for s k t
    by (simp add: isAvailable_entry entry_of_markSuccess)
  show "k \<noteq> j \<Longrightarrow> isAvailable (markSuccess s k) j t = isAvailable s j t" for s k j t
    by (simp add: isAvailable_entry entry_of_markSuccess)
  show "k \<noteq> j \<Longrightarrow> isAvailable (markFailure s k r now) j t = isAvailable s j t" for s k j r now t
    by (simp add: isAvailable_entry entry_of_markFailure)
  show "tracker_inv now s \<Longrightarrow> \<not> isAvailable (markFailure s k r now) k now" for now s k r
    by (rule failure_blocks)
  show "tracker_inv now s \<Longrightarrow> isAvailable (markFailure s k r now) j t \<Longrightarrow> isAvailable s j t"
    for now s t k r j
    by (rule markFailure_never_shortens)
qed (auto intro: inv_intros)

section \<open>Properties\<close>

text \<open>
  The documented backoff tables: a non-billing failure costs 1, 5 and 25 minutes for
  the first three errors in a row and one hour from the fourth on, a billing failure 5, 10 and
  20 hours and then 24 hours; both never leave these bounds, whatever the count.
\<close>

theorem cooldown_schedules:
  "map calculateStandardCooldown [1, 2, 3] = [minute, 5 * minute, 25 * minute]
    \<and> map calculateBillingCooldown [1, 2, 3] = [5 * hour, 10 * hour, 20 * hour]
    \<and> (4 \<le> n \<longrightarrow> calculateStandardCooldown n = hour \<and> calculateBillingCooldown n = 24 * hour)
    \<and> minute \<le> calculateStandardCooldown n \<and> calculateStandardCooldown n \<le> hour
    \<and> 5 * hour \<le> calculateBillingCooldown n \<and> calculateBillingCooldown n \<le> 24 * hour
    \<and> (m \<le> n \<longrightarrow> calculateStandardCooldown m \<le> calculateStandardCooldown n
          \<and> calculateBillingCooldown m \<le> calculateBillingCooldown n)"
  by (simp add: standard_bounds billing_bounds standard_capped billing_capped standard_mono billing_mono)
    (simp add: calculateStandardCooldown_def calculateBillingCooldown_def time_units)

theorem cooldown_schedules_witness:
  "calculateStandardCooldown 7 = hour \<and> calculateBillingCooldown 7 = 24 * hour"
  using cooldown_schedules [of 7 7] by simp

text \<open>
  In every reachable tracker, \<^verbatim>\<open>IsAvailable\<close> and \<^verbatim>\<open>CooldownRemaining\<close> agree:
  a provider is refused exactly while the remaining time is positive, the remaining time is at
  most 24 hours when the clock does not run backwards, and it is exact: the provider is
  available once that time has passed, and not before.
\<close>

theorem remaining_exact:
  assumes "reachable_tracker now ct"
  shows "(isAvailable ct p now \<longleftrightarrow> cooldownRemaining ct p now = 0)
    \<and> 0 \<le> cooldownRemaining ct p now \<and> cooldownRemaining ct p now \<le> 24 * hour
    \<and> (now \<le> t \<longrightarrow> (isAvailable ct p t \<longleftrightarrow> now + cooldownRemaining ct p now \<le> t))"
proof -
  let ?e = "entry_of ct p"
  have inv: "tracker_inv now ct" using assms by (rule reachable_tracker_inv)
  then have now: "0 < now" and ei: "entry_inv now ?e" by (auto simp: tracker_inv_def)
  have h: "hour \<le> 24 * hour" "(0::int) < hour" by (simp_all add: time_units)
  have C: "CooldownEnd ?e \<noteq> zero_time \<longrightarrow> CooldownEnd ?e \<le> now + hour"
    and D: "DisabledUntil ?e \<noteq> zero_time \<longrightarrow> DisabledUntil ?e \<le> now + 24 * hour"
    using ei standard_bounds [of "ErrorCount ?e"]
      billing_bounds [of "FailureCounts ?e FailoverBilling"]
    by (auto simp: entry_inv_def)
  have exact: "u \<noteq> zero_time \<Longrightarrow> now < u \<Longrightarrow> u \<le> now + 24 * hour \<Longrightarrow> time_sub u now = u - now" for u
    by (rule time_sub_exact) (simp_all add: time_units max_int64_def)
  have zn: "u = zero_time \<Longrightarrow> u \<le> now" for u using now by (simp add: zero_time_def)
  show ?thesis
    using C D h zn exact [of "CooldownEnd ?e"] exact [of "DisabledUntil ?e"]
    unfolding cooldownRemaining_entry isAvailable_entry Let_def
    by (auto simp: max_def split: if_splits)
qed

theorem remaining_exact_witness:
  "cooldownRemaining (markFailure newCooldownTracker ''openai'' FailoverTimeout (3 * hour))
     ''openai'' (3 * hour) \<le> 24 * hour"
proof -
  have "reachable_tracker (3 * hour) (markFailure newCooldownTracker ''openai'' FailoverTimeout (3 * hour))"
    by (intro rt_failure rt_new) (simp add: time_units)
  from remaining_exact [OF this] show ?thesis by blast
qed

text \<open>
  Claim C25. A recorded failure blocks its provider at once, for exactly the backoff of the
  updated counts if that is the later end, never shortens a cooldown that is already running,
  and leaves every other provider as it was.
\<close>

theorem failure_extends_cooldown:
  assumes "reachable_tracker now ct"
  shows "\<not> isAvailable (markFailure ct p r now) p now
    \<and> (isAvailable (markFailure ct p r now) q t \<longrightarrow> isAvailable ct q t)
    \<and> (q \<noteq> p \<longrightarrow> isAvailable (markFailure ct p r now) q t = isAvailable ct q t)
    \<and> (r \<noteq> FailoverBilling \<longrightarrow>
         CooldownEnd (entry_of (markFailure ct p r now) p)
           = now + calculateStandardCooldown (errorCount (markFailure ct p r now) p))
    \<and> (r = FailoverBilling \<longrightarrow>
         DisabledUntil (entry_of (markFailure ct p r now) p)
           = now + calculateBillingCooldown (failureCount (markFailure ct p r now) p r))"
proof -
  have inv: "tracker_inv now ct" using assms by (rule reachable_tracker_inv)
  have ec: "errorCount c p = ErrorCount (entry_of c p)" and fc: "failureCount c p r = FailureCounts (entry_of c p) r"
    for c r by (auto simp: errorCount_def failureCount_def entry_of_def empty_entry_def split: option.splits)
  show ?thesis
    using cooldowns.fail_blocks [OF inv] cooldowns.fail_mono [OF inv] cooldowns.fail_frame
    by (auto simp: ec fc entry_of_markFailure set_cooldown_def)
qed

theorem failure_extends_cooldown_witness:
  "\<not> isAvailable (markFailure newCooldownTracker ''a'' FailoverBilling 5) ''a'' 5"
proof -
  have "reachable_tracker 5 newCooldownTracker" by (rule rt_new) simp
  from failure_extends_cooldown [OF this] show ?thesis by blast
qed

text \<open>
  The counters of every reachable tracker are consistent: the error count is the sum
  of the per-reason counts, none is negative, success sets them all to zero, and a failure
  that is the first within the 24-hour window counts as error number one.
\<close>

theorem failure_counters:
  assumes "reachable_tracker now ct"
  shows "errorCount ct p = (\<Sum>r\<leftarrow>all_reasons. failureCount ct p r)
    \<and> 0 \<le> failureCount ct p r
    \<and> errorCount (markSuccess ct p) p = 0
    \<and> isAvailable (markSuccess ct p) p t
    \<and> (LastFailure (entry_of ct p) \<noteq> zero_time \<and> now > LastFailure (entry_of ct p) + 24 * hour
         \<longrightarrow> errorCount (markFailure ct p r now) p = 1)
    \<and> (LastFailure (entry_of ct p) \<noteq> zero_time \<and> now \<le> LastFailure (entry_of ct p) + 24 * hour
         \<longrightarrow> errorCount (markFailure ct p r now) p = errorCount ct p + 1)"
proof -
  have inv: "tracker_inv now ct" using assms by (rule reachable_tracker_inv)
  then have ei: "entry_inv now (entry_of ct p)" and win: "failureWindow ct = defaultFailureWindow"
    by (auto simp: tracker_inv_def)
  have ec: "errorCount c p = ErrorCount (entry_of c p)" and fc: "failureCount c p r = FailureCounts (entry_of c p) r"
    for c r by (auto simp: errorCount_def failureCount_def entry_of_def empty_entry_def split: option.splits)
  have gt: "defaultFailureWindow < time_sub now u \<longleftrightarrow> u + 24 * hour < now" for u
    by (simp add: defaultFailureWindow_def time_sub_gt_iff time_units max_int64_def)
  show ?thesis
    using ei cooldowns.succ_avail
    by (auto simp: ec fc entry_inv_def total_failures_def entry_of_markSuccess entry_of_markFailure
        set_cooldown_def count_failure_def window_reset_def win gt)
qed

theorem failure_counters_witness:
  "errorCount (markFailure newCooldownTracker ''x'' FailoverAuth 9) ''x'' =
     (\<Sum>r\<leftarrow>all_reasons. failureCount (markFailure newCooldownTracker ''x'' FailoverAuth 9) ''x'' r)"
proof -
  have "reachable_tracker 9 (markFailure newCooldownTracker ''x'' FailoverAuth 9)"
    by (intro rt_failure rt_new) simp
  from failure_counters [OF this] show ?thesis by blast
qed

end
