(* ===== verification/RateLimit.thy ===== *)
theory RateLimit
  imports Ebi_Prelude Complex_Main
begin

text \<open>
  \<^verbatim>\<open>pkg/providers/ratelimiter.go\<close>: the token bucket in front of each fallback candidate and
  the registry of buckets. Token counts (\<^verbatim>\<open>float64\<close>) are exact rationals; the clock is the
  argument \<open>now\<close>. The blocking \<^verbatim>\<open>Wait\<close> is a loop over what its environment shows it: each
  turn of the loop reads the clock once and, if it has to sleep, either the context is
  cancelled first or the timer fires.
\<close>

section \<open>One bucket\<close>

record rate_limiter =
  rl_rpm :: int
  rl_tokens :: rat
  rl_maxBurst :: rat
  rl_lastTick :: time

definition newRateLimiter :: "int \<Rightarrow> time \<Rightarrow> rate_limiter" where
  "newRateLimiter rpm now =
     \<lparr>rl_rpm = rpm, rl_tokens = of_int rpm, rl_maxBurst = of_int rpm, rl_lastTick = now\<rparr>"

definition seconds :: "duration \<Rightarrow> rat" where
  "seconds d = of_int d / of_int second"

definition refill :: "rate_limiter \<Rightarrow> time \<Rightarrow> rate_limiter" where
  "refill rl now =
     (let elapsed = seconds (time_sub now (rl_lastTick rl));
          amount = elapsed * of_int (rl_rpm rl) / 60
      in rl\<lparr>rl_lastTick := now, rl_tokens := min (rl_maxBurst rl) (rl_tokens rl + amount)\<rparr>)"

definition tryAcquire :: "rate_limiter \<Rightarrow> time \<Rightarrow> rate_limiter \<times> bool" where
  "tryAcquire rl now =
     (let rl' = refill rl now
      in if rl_tokens rl' < 1 then (rl', False)
         else (rl'\<lparr>rl_tokens := rl_tokens rl' - 1\<rparr>, True))"

text \<open>
  The sleep \<^verbatim>\<open>Wait\<close> computes when the bucket is short: the time until one token, as a
  \<^verbatim>\<open>time.Duration\<close> (the conversion from \<^verbatim>\<open>float64\<close> truncates).
\<close>

definition wait_time :: "rate_limiter \<Rightarrow> duration" where
  "wait_time rl =
     (let deficit = 1 - rl_tokens rl;
          waitSec = deficit / (of_int (rl_rpm rl) / 60)
      in \<lfloor>waitSec * of_int second\<rfloor>)"

datatype wait_result = Acquired | Cancelled | StillWaiting

text \<open>
  An environment step: the clock value the iteration reads, and whether \<^verbatim>\<open>ctx.Done()\<close> is
  what ends its sleep. The loop has no bound of its own, so its environment is the fuel:
  \<open>StillWaiting\<close> means that the listed iterations did not end it.
\<close>

fun wait_loop :: "rate_limiter \<Rightarrow> (time \<times> bool) list \<Rightarrow> rate_limiter \<times> wait_result" where
  "wait_loop rl [] = (rl, StillWaiting)"
| "wait_loop rl ((now, ctxDone) # env) =
     (let rl' = refill rl now
      in if rl_tokens rl' \<ge> 1 then (rl'\<lparr>rl_tokens := rl_tokens rl' - 1\<rparr>, Acquired)
         else if ctxDone then (rl', Cancelled)
         else wait_loop rl' env)"

section \<open>The registry\<close>

type_synonym rl_registry = "string \<rightharpoonup> rate_limiter"

definition newRateLimiterRegistry :: rl_registry where
  "newRateLimiterRegistry = Map.empty"

definition rl_register :: "rl_registry \<Rightarrow> string \<Rightarrow> int \<Rightarrow> time \<Rightarrow> rl_registry" where
  "rl_register r key rpm now = (if rpm \<le> 0 then r else r(key \<mapsto> newRateLimiter rpm now))"

definition rl_wait ::
  "rl_registry \<Rightarrow> string \<Rightarrow> (time \<times> bool) list \<Rightarrow> rl_registry \<times> wait_result" where
  "rl_wait r key env =
     (case r key of
        None \<Rightarrow> (r, Acquired)
      | Some rl \<Rightarrow> (let (rl', res) = wait_loop rl env in (r(key \<mapsto> rl'), res)))"

definition rl_tryAcquire :: "rl_registry \<Rightarrow> string \<Rightarrow> time \<Rightarrow> rl_registry \<times> bool" where
  "rl_tryAcquire r key now =
     (case r key of
        None \<Rightarrow> (r, True)
      | Some rl \<Rightarrow> (let (rl', got) = tryAcquire rl now in (r(key \<mapsto> rl'), got)))"

section \<open>Invariant and accounting\<close>

definition rl_ok :: "rate_limiter \<Rightarrow> bool" where
  "rl_ok rl \<longleftrightarrow> 0 < rl_rpm rl \<and> rl_maxBurst rl = of_int (rl_rpm rl)
     \<and> 0 \<le> rl_tokens rl \<and> rl_tokens rl \<le> rl_maxBurst rl"

lemma rl_ok_new [inv_intros]: "0 < rpm \<Longrightarrow> rl_ok (newRateLimiter rpm now)"
  by (simp add: rl_ok_def newRateLimiter_def)

lemma refill_simps [simp]:
  "rl_rpm (refill rl now) = rl_rpm rl" "rl_maxBurst (refill rl now) = rl_maxBurst rl"
  "rl_lastTick (refill rl now) = now"
  by (simp_all add: refill_def Let_def)

lemma seconds_nonneg [simp]: "0 \<le> seconds d \<longleftrightarrow> 0 \<le> d"
  by (simp add: seconds_def second_def field_simps)

lemma seconds_mono: "d \<le> e \<Longrightarrow> seconds d \<le> seconds e"
  by (simp add: seconds_def second_def divide_right_mono)

lemma seconds_diff: "seconds (b - a) + seconds (c - b) = seconds (c - a)"
  by (simp add: seconds_def second_def field_simps)

lemma le_seconds: "a * of_int second \<le> of_int k \<Longrightarrow> a \<le> seconds k"
  unfolding seconds_def by (subst pos_le_divide_eq) (simp_all add: second_def)

lemma seconds_rate_diff: "seconds (b - a) * k / 60 + seconds (c - b) * k / 60 = seconds (c - a) * k / 60"
  by (simp add: seconds_diff [of b a c, symmetric] distrib_right add_divide_distrib)

lemma time_sub_le: "u \<le> t \<Longrightarrow> time_sub t u \<le> t - u"
  by (simp add: time_sub_def min_int64_def)

lemma refill_ok [inv_intros]:
  assumes ok: "rl_ok rl" and t: "rl_lastTick rl \<le> now"
  shows "rl_ok (refill rl now)"
proof -
  have "0 \<le> seconds (time_sub now (rl_lastTick rl)) * of_int (rl_rpm rl) / 60"
    using ok t by (simp add: rl_ok_def)
  with ok show ?thesis by (simp add: rl_ok_def refill_def Let_def)
qed

lemma refill_tokens_le:
  assumes ok: "rl_ok rl" and t: "rl_lastTick rl \<le> now"
  shows "rl_tokens (refill rl now) \<le> rl_tokens rl + seconds (now - rl_lastTick rl) * of_int (rl_rpm rl) / 60"
proof -
  have "seconds (time_sub now (rl_lastTick rl)) \<le> seconds (now - rl_lastTick rl)"
    using t by (intro seconds_mono time_sub_le)
  then have "seconds (time_sub now (rl_lastTick rl)) * of_int (rl_rpm rl)
      \<le> seconds (now - rl_lastTick rl) * of_int (rl_rpm rl)"
    using ok by (intro mult_right_mono) (simp_all add: rl_ok_def)
  then show ?thesis by (simp add: refill_def Let_def min.coboundedI2)
qed

lemma tryAcquire_step:
  assumes ok: "rl_ok rl" and t: "rl_lastTick rl \<le> now" and res: "tryAcquire rl now = (rl', got)"
  shows "rl_ok rl' \<and> rl_rpm rl' = rl_rpm rl \<and> rl_lastTick rl' = now
    \<and> rl_tokens rl' + (if got then 1 else 0)
        \<le> rl_tokens rl + seconds (now - rl_lastTick rl) * of_int (rl_rpm rl) / 60"
  using refill_ok [OF ok t] refill_tokens_le [OF ok t] res
  by (auto simp: tryAcquire_def Let_def rl_ok_def split: if_splits)

text \<open>A run of attempts at the listed clock values: the bucket at its end and the grants.\<close>

fun acquire_run :: "rate_limiter \<Rightarrow> time list \<Rightarrow> rate_limiter \<times> nat" where
  "acquire_run rl [] = (rl, 0)"
| "acquire_run rl (t # ts) =
     (let (rl', got) = tryAcquire rl t; (rl'', n) = acquire_run rl' ts
      in (rl'', if got then Suc n else n))"

lemma acquire_run_accounting:
  assumes "rl_ok rl" and "sorted (rl_lastTick rl # ts)" and "acquire_run rl ts = (rl', n)"
  shows "rl_ok rl' \<and> rl_tokens rl' + of_nat n
    \<le> rl_tokens rl + seconds (last (rl_lastTick rl # ts) - rl_lastTick rl) * of_int (rl_rpm rl) / 60"
  using assms
proof (induction ts arbitrary: rl rl' n)
  case Nil
  then show ?case by (simp add: seconds_def)
next
  case (Cons t ts)
  obtain rl1 got where one: "tryAcquire rl t = (rl1, got)" by force
  obtain n1 where rest: "acquire_run rl1 ts = (rl', n1)" and n: "n = (if got then Suc n1 else n1)"
    using Cons.prems(3) one by (auto simp: Let_def split: prod.splits)
  have le: "rl_lastTick rl \<le> t" using Cons.prems(2) by simp
  note step = tryAcquire_step [OF Cons.prems(1) le one]
  have IH: "rl_ok rl' \<and> rl_tokens rl' + of_nat n1
      \<le> rl_tokens rl1 + seconds (last (t # ts) - t) * of_int (rl_rpm rl) / 60"
    using Cons.IH [of rl1 rl' n1] step rest Cons.prems(2) by simp
  have "seconds (t - rl_lastTick rl) * of_int (rl_rpm rl) / 60
      + seconds (last (t # ts) - t) * of_int (rl_rpm rl) / 60
      = seconds (last (t # ts) - rl_lastTick rl) * of_int (rl_rpm rl) / 60"
    by (rule seconds_rate_diff)
  with IH step n show ?case by auto
qed

section \<open>Waiting\<close>

lemma wait_time_bounds:
  assumes ok: "rl_ok rl" and short: "rl_tokens rl < 1"
  shows "0 \<le> wait_time rl" "wait_time rl \<le> 60 * second"
    "1 \<le> rl_tokens rl + seconds (wait_time rl + 1) * of_int (rl_rpm rl) / 60"
proof -
  let ?w = "(1 - rl_tokens rl) / (of_int (rl_rpm rl) / 60) * of_int second"
  have rpm: "(1::rat) \<le> of_int (rl_rpm rl)" using ok by (simp add: rl_ok_def)
  have w0: "0 \<le> ?w" using rpm short by (simp add: second_def)
  have "(1 - rl_tokens rl) / (of_int (rl_rpm rl) / 60) \<le> 60"
    using ok rpm by (simp add: rl_ok_def field_simps)
  then have "?w \<le> 60 * of_int second" by (intro mult_right_mono) (simp_all add: second_def)
  then have w1: "?w \<le> of_int (60 * second)" by simp
  show "0 \<le> wait_time rl" using w0 by (simp add: wait_time_def Let_def)
  show "wait_time rl \<le> 60 * second"
    using w1 unfolding wait_time_def Let_def by (metis floor_mono floor_of_int)
  have "?w \<le> of_int (wait_time rl + 1)"
    unfolding wait_time_def Let_def by linarith
  then have "(1 - rl_tokens rl) / (of_int (rl_rpm rl) / 60) \<le> seconds (wait_time rl + 1)"
    by (rule le_seconds)
  then show "1 \<le> rl_tokens rl + seconds (wait_time rl + 1) * of_int (rl_rpm rl) / 60"
    using rpm by (simp add: field_simps)
qed

lemma refill_after_wait:
  assumes ok: "rl_ok rl" and short: "rl_tokens rl < 1" and later: "rl_lastTick rl + wait_time rl < now"
  shows "1 \<le> rl_tokens (refill rl now)"
proof -
  note W = wait_time_bounds [OF ok short]
  have rpm: "(1::rat) \<le> of_int (rl_rpm rl)" using ok by (simp add: rl_ok_def)
  have "wait_time rl + 1 \<le> time_sub now (rl_lastTick rl)"
    using W(1,2) later by (auto simp: time_sub_def min_int64_def max_int64_def second_def)
  then have "seconds (wait_time rl + 1) * of_int (rl_rpm rl) / 60
      \<le> seconds (time_sub now (rl_lastTick rl)) * of_int (rl_rpm rl) / 60"
    using rpm by (intro divide_right_mono mult_right_mono seconds_mono) auto
  with W(3) have "1 \<le> rl_tokens rl + seconds (time_sub now (rl_lastTick rl)) * of_int (rl_rpm rl) / 60"
    by linarith
  moreover have "1 \<le> rl_maxBurst rl" using ok rpm by (simp add: rl_ok_def)
  ultimately show ?thesis by (simp only: refill_def Let_def min_less_iff_disj not_less [symmetric]) simp
qed

section \<open>Properties\<close>



text \<open>
  \<^verbatim>\<open>Wait\<close> is live and cancellable: on a well-formed bucket that is short of a token
  it asks for a sleep of at most a minute; if the next iteration runs strictly after that
  sleep it returns with the token taken, if the context ends first it returns \<open>Cancelled\<close>
  having consumed nothing, and a bucket with a token returns at once.
\<close>

theorem wait_returns:
  assumes "rl_ok rl" and "rl_lastTick rl \<le> now"
  shows "(1 \<le> rl_tokens (refill rl now) \<longrightarrow> snd (wait_loop rl ((now, done) # env)) = Acquired)
    \<and> (rl_tokens (refill rl now) < 1 \<longrightarrow>
         wait_loop rl ((now, True) # env) = (refill rl now, Cancelled)
         \<and> wait_time (refill rl now) \<le> 60 * second
         \<and> (now + wait_time (refill rl now) < next_now \<longrightarrow>
              snd (wait_loop rl ((now, False) # (next_now, done) # env)) = Acquired))"
proof -
  have ok: "rl_ok (refill rl now)" using assms by (rule refill_ok)
  show ?thesis
  proof (cases "1 \<le> rl_tokens (refill rl now)")
    case True
    then show ?thesis by (simp add: Let_def)
  next
    case False
    then have short: "rl_tokens (refill rl now) < 1" by simp
    have "now + wait_time (refill rl now) < next_now \<Longrightarrow>
        1 \<le> rl_tokens (refill (refill rl now) next_now)"
      by (rule refill_after_wait [OF ok short]) simp
    with short wait_time_bounds [OF ok short] show ?thesis by (simp add: Let_def)
  qed
qed

theorem wait_returns_witness:
  "snd (wait_loop (newRateLimiter 1 0 \<lparr>rl_tokens := 0\<rparr>)
     [(0, False), (60 * second + 1, False)]) = Acquired"
proof -
  let ?rl = "newRateLimiter 1 0 \<lparr>rl_tokens := 0\<rparr>"
  have ok: "rl_ok ?rl" and tick: "rl_lastTick ?rl \<le> 0"
    by (simp_all add: rl_ok_def newRateLimiter_def)
  have short: "rl_tokens (refill ?rl 0) < 1"
    by (simp add: refill_def newRateLimiter_def time_sub_def seconds_def min_int64_def max_int64_def)
  from wait_returns [OF ok tick, of False _ "60 * second + 1"] short
  show ?thesis by simp
qed

end
