(* ===== verification/ModelRef.thy ===== *)
theory ModelRef
  imports Ebi_Prelude
begin

text \<open>
  \<^verbatim>\<open>pkg/providers/model_ref.go\<close>: parsing \<^verbatim>\<open>provider/model\<close> references and the canonical
  keys under which candidates are deduplicated and tracked.
\<close>

record model_ref =
  mr_Provider :: string
  mr_Model :: string

definition normalizeProvider :: "string \<Rightarrow> string" where
  "normalizeProvider provider =
     (let p = to_lower (trim_space provider)
      in if p = ''z.ai'' \<or> p = ''z-ai'' then ''zai''
         else if p = ''opencode-zen'' then ''opencode''
         else if p = ''qwen'' then ''qwen-portal''
         else if p = ''kimi-code'' then ''kimi-coding''
         else if p = ''gpt'' then ''openai''
         else if p = ''claude'' then ''anthropic''
         else if p = ''glm'' then ''zhipu''
         else if p = ''google'' then ''gemini''
         else if p = ''alibaba-coding'' \<or> p = ''qwen-coding'' then ''coding-plan''
         else if p = ''alibaba-coding-anthropic'' then ''coding-plan-anthropic''
         else if p = ''qwen-international'' \<or> p = ''dashscope-intl'' then ''qwen-intl''
         else if p = ''dashscope-us'' then ''qwen-us''
         else p)"

definition parseModelRef :: "string \<Rightarrow> string \<Rightarrow> model_ref option" where
  "parseModelRef raw0 defaultProvider =
     (let raw = trim_space raw0
      in if raw = [] then None
         else case index_char (CHR ''/'') raw of
                Some idx \<Rightarrow>
                  if idx > 0
                  then (let provider = normalizeProvider (take idx raw);
                            model = trim_space (drop (Suc idx) raw)
                        in if model = [] then None
                           else Some \<lparr>mr_Provider = provider, mr_Model = model\<rparr>)
                  else Some \<lparr>mr_Provider = normalizeProvider defaultProvider, mr_Model = raw\<rparr>
              | None \<Rightarrow> Some \<lparr>mr_Provider = normalizeProvider defaultProvider, mr_Model = raw\<rparr>)"

definition modelKey :: "string \<Rightarrow> string \<Rightarrow> string" where
  "modelKey provider model = normalizeProvider provider @ ''/'' @ to_lower (trim_space model)"

section \<open>Normalisation\<close>

definition alias_names :: "string list" where
  "alias_names = [''z.ai'', ''z-ai'', ''opencode-zen'', ''qwen'', ''kimi-code'', ''gpt'', ''claude'',
     ''glm'', ''google'', ''alibaba-coding'', ''qwen-coding'', ''alibaba-coding-anthropic'',
     ''qwen-international'', ''dashscope-intl'', ''dashscope-us'']"

definition alias_targets :: "string list" where
  "alias_targets = [''zai'', ''opencode'', ''qwen-portal'', ''kimi-coding'', ''openai'', ''anthropic'',
     ''zhipu'', ''gemini'', ''coding-plan'', ''coding-plan-anthropic'', ''qwen-intl'', ''qwen-us'']"

lemma normalizeProvider_cases:
  obtains "normalizeProvider p \<in> set alias_targets" "trim_space p \<noteq> []"
  | "normalizeProvider p = to_lower (trim_space p)" "to_lower (trim_space p) \<notin> set alias_names"
proof -
  have "(normalizeProvider p \<in> set alias_targets \<and> to_lower (trim_space p) \<in> set alias_names)
      \<or> (normalizeProvider p = to_lower (trim_space p) \<and> to_lower (trim_space p) \<notin> set alias_names)"
    unfolding normalizeProvider_def alias_names_def alias_targets_def Let_def by simp
  moreover have "[] \<notin> set alias_names" by (simp add: alias_names_def)
  then have "to_lower (trim_space p) \<in> set alias_names \<Longrightarrow> trim_space p \<noteq> []" by force
  ultimately show ?thesis using that by blast
qed

lemma alias_targets_canonical:
  "q \<in> set alias_targets \<Longrightarrow> to_lower q = q \<and> trim_space q = q \<and> q \<noteq> []
     \<and> CHR ''/'' \<notin> set q \<and> q \<notin> set alias_names"
proof -
  have "\<forall>q\<in>set alias_targets. to_lower q = q \<and> trim_space q = q \<and> q \<noteq> []
     \<and> CHR ''/'' \<notin> set q \<and> q \<notin> set alias_names"
    by code_simp
  then show "q \<in> set alias_targets \<Longrightarrow> ?thesis" by blast
qed

lemma normalizeProvider_canonical:
  "to_lower (normalizeProvider p) = normalizeProvider p
   \<and> trim_space (normalizeProvider p) = normalizeProvider p"
  by (rule normalizeProvider_cases [of p]) (simp_all add: alias_targets_canonical trim_space_lower)

lemma normalizeProvider_id:
  assumes "to_lower q = q" "trim_space q = q" "q \<notin> set alias_names"
  shows "normalizeProvider q = q"
  using assms unfolding normalizeProvider_def alias_names_def by simp

lemma normalizeProvider_idem [simp]: "normalizeProvider (normalizeProvider p) = normalizeProvider p"
proof (rule normalizeProvider_id)
  show "normalizeProvider p \<notin> set alias_names"
    by (rule normalizeProvider_cases [of p]) (simp_all add: alias_targets_canonical)
qed (simp_all add: normalizeProvider_canonical)

lemma slash_lower [simp]: "lower_char (CHR ''/'') = CHR ''/''"
  by (simp add: lower_char_def)

lemma slash_to_lower: "CHR ''/'' \<in> set (to_lower s) \<longleftrightarrow> CHR ''/'' \<in> set s"
  by (rule mem_to_lower) simp_all

lemma normalizeProvider_no_slash:
  assumes "CHR ''/'' \<notin> set p" shows "CHR ''/'' \<notin> set (normalizeProvider p)"
  by (rule normalizeProvider_cases [of p])
    (use assms set_trim_space [of p] in \<open>auto simp: slash_to_lower alias_targets_canonical\<close>)

lemma normalizeProvider_Nil: "normalizeProvider p = [] \<longleftrightarrow> trim_space p = []"
  by (rule normalizeProvider_cases [of p]) (auto dest: alias_targets_canonical)

lemma trim_space_take_nonempty:
  assumes "trim_space s = s" and "s \<noteq> []" and "0 < i"
  shows "trim_space (take i s) \<noteq> []"
proof
  assume "trim_space (take i s) = []"
  moreover obtain c cs where t: "take i s = c # cs" using assms(2,3) by (cases "take i s") auto
  moreover have "c = hd s" using t assms(2,3) by (metis hd_take list.sel(1))
  then have "\<not> is_space c" using trim_space_ends(1) [OF assms(1,2)] by simp
  ultimately have "trim_right (c # cs) = []"
    by (simp add: trim_space_def trim_left_id)
  then have "\<forall>x\<in>set (c # cs). is_space x"
    by (simp add: trim_right_def dropWhile_eq_Nil_conv)
  with \<open>\<not> is_space c\<close> show False by simp
qed

lemma parseModelRef_parts:
  assumes "parseModelRef raw dp = Some r" and "normalizeProvider dp \<noteq> []"
    and "CHR ''/'' \<notin> set (normalizeProvider dp)"
  shows "normalizeProvider (mr_Provider r) = mr_Provider r \<and> mr_Provider r \<noteq> []
    \<and> CHR ''/'' \<notin> set (mr_Provider r) \<and> trim_space (mr_Model r) = mr_Model r \<and> mr_Model r \<noteq> []"
proof -
  let ?raw = "trim_space raw"
  have ne: "?raw \<noteq> []" using assms(1) by (auto simp: parseModelRef_def Let_def split: if_splits)
  have "normalizeProvider (take i ?raw) \<noteq> [] \<and> CHR ''/'' \<notin> set (normalizeProvider (take i ?raw))"
    if "index_char (CHR ''/'') ?raw = Some i" "0 < i" for i
    using trim_space_take_nonempty [of ?raw i] ne that index_char_SomeD [OF that(1)]
    by (simp add: normalizeProvider_Nil normalizeProvider_no_slash)
  with assms ne show ?thesis
    by (auto simp: parseModelRef_def Let_def split: if_splits option.splits)
qed

section \<open>Properties\<close>

text \<open>
  Model references round-trip: what \<^verbatim>\<open>ParseModelRef\<close> returns (under a usable default
  provider) is canonical, and writing it back as \<^verbatim>\<open>provider/model\<close> parses to the same
  reference whatever the default provider then is; provider aliases are resolved once and for
  all, and the deduplication key of a reference is already in normal form.
\<close>

theorem model_ref_roundtrip:
  assumes "parseModelRef raw dp = Some r" and "normalizeProvider dp \<noteq> []"
    and "CHR ''/'' \<notin> set (normalizeProvider dp)"
  shows "parseModelRef (mr_Provider r @ ''/'' @ mr_Model r) dp' = Some r
    \<and> normalizeProvider (mr_Provider r) = mr_Provider r
    \<and> to_lower (modelKey (mr_Provider r) (mr_Model r)) = modelKey (mr_Provider r) (mr_Model r)"
proof -
  let ?s = "mr_Provider r @ ''/'' @ mr_Model r"
  note P = parseModelRef_parts [OF assms]
  have can: "trim_space (mr_Provider r) = mr_Provider r" "to_lower (mr_Provider r) = mr_Provider r"
    using normalizeProvider_canonical [of "mr_Provider r"] P by auto
  have trim: "trim_space ?s = ?s" using P can by (intro trim_space_join) auto
  have idx: "index_char (CHR ''/'') ?s = Some (length (mr_Provider r))"
    using index_char_append [of "CHR ''/''" "mr_Provider r" "mr_Model r"] P by simp
  have "parseModelRef ?s dp' = Some r"
    unfolding parseModelRef_def Let_def trim idx using P by simp
  moreover have "to_lower (CHR ''/'' # t) = CHR ''/'' # to_lower t" for t
    by (simp add: to_lower_def)
  ultimately show ?thesis using P can by (simp add: modelKey_def)
qed

theorem model_ref_roundtrip_witness:
  "parseModelRef (''anthropic'' @ ''/'' @ ''Opus'') ''zai''
     = Some \<lparr>mr_Provider = ''anthropic'', mr_Model = ''Opus''\<rparr>"
proof -
  have 1: "parseModelRef '' Claude/ Opus'' ''gpt'' = Some \<lparr>mr_Provider = ''anthropic'', mr_Model = ''Opus''\<rparr>"
    by code_simp
  have 2: "normalizeProvider ''gpt'' = ''openai''" by code_simp
  from model_ref_roundtrip [OF 1] 2 show ?thesis by simp
qed

end
