(* ===== verification/GoRegex.thy ===== *)
theory GoRegex
  imports Ebi_Prelude
begin

text \<open>
  The part of Go's package \<^verbatim>\<open>regexp\<close> that the program uses: literals, classes, \<^verbatim>\<open>*\<close>, \<^verbatim>\<open>+\<close>,
  \<^verbatim>\<open>?\<close>, \<^verbatim>\<open>\b\<close>, unanchored search, and one capture group. A regular expression denotes, at a
  position of the subject, the list of end positions in the order of preference of Go's
  leftmost-first semantics, so the first element is the match Go reports.
\<close>

datatype rx =
    RSet "char \<Rightarrow> bool"
  | RSeq rx rx
  | RStar rx
  | ROpt rx
  | RWordB
  | REps

definition is_digit :: "char \<Rightarrow> bool" where
  "is_digit c \<longleftrightarrow> (let n = (of_char c :: nat) in 48 \<le> n \<and> n \<le> 57)"

definition is_word :: "char \<Rightarrow> bool" where
  "is_word c \<longleftrightarrow> (let n = (of_char c :: nat) in
     (48 \<le> n \<and> n \<le> 57) \<or> (65 \<le> n \<and> n \<le> 90) \<or> n = 95 \<or> (97 \<le> n \<and> n \<le> 122))"

text \<open>\<^verbatim>\<open>\s\<close> of RE2: no vertical tab.\<close>

definition is_rx_space :: "char \<Rightarrow> bool" where
  "is_rx_space c \<longleftrightarrow> c \<in> {CHR 0x09, CHR 0x0A, CHR 0x0C, CHR 0x0D, CHR '' ''}"

definition word_at :: "string \<Rightarrow> nat \<Rightarrow> bool" where
  "word_at s i \<longleftrightarrow> i < length s \<and> is_word (s ! i)"

definition word_boundary :: "string \<Rightarrow> nat \<Rightarrow> bool" where
  "word_boundary s i \<longleftrightarrow> (0 < i \<and> word_at s (i - 1)) \<noteq> word_at s i"

function ends :: "rx \<Rightarrow> string \<Rightarrow> nat \<Rightarrow> nat list" where
  "ends (RSet P) s i = (if i < length s \<and> P (s ! i) then [Suc i] else [])"
| "ends (RSeq a b) s i = concat (map (\<lambda>j. ends b s j) (ends a s i))"
| "ends (RStar a) s i =
     concat (map (\<lambda>j. if i < j \<and> j \<le> length s then ends (RStar a) s j else []) (ends a s i)) @ [i]"
| "ends (ROpt a) s i = ends a s i @ [i]"
| "ends RWordB s i = (if word_boundary s i then [i] else [])"
| "ends REps s i = [i]"
  by pat_completeness auto
termination
  by (relation "measures [\<lambda>(r, s, i). size r, \<lambda>(r, s, i). length s - i]") auto

definition RPlus :: "rx \<Rightarrow> rx" where "RPlus a = RSeq a (RStar a)"

definition RChr :: "char \<Rightarrow> rx" where "RChr c = RSet (\<lambda>d. d = c)"

definition RChrI :: "char \<Rightarrow> rx" where
  "RChrI c = RSet (\<lambda>d. lower_char d = lower_char c)"

definition RDigit :: rx where "RDigit = RSet is_digit"
definition RSpace :: rx where "RSpace = RSet is_rx_space"
definition RAny :: rx where "RAny = RSet (\<lambda>c. c \<noteq> CHR 0x0A)"

definition rx_lit :: "string \<Rightarrow> rx" where
  "rx_lit s = foldr (\<lambda>c r. RSeq (RChr c) r) s REps"

text \<open>A literal under the flag \<^verbatim>\<open>(?i)\<close>.\<close>

definition rx_liti :: "string \<Rightarrow> rx" where
  "rx_liti s = foldr (\<lambda>c r. RSeq (RChrI c) r) s REps"

text \<open>\<^verbatim>\<open>MatchString\<close>.\<close>

definition rx_match :: "rx \<Rightarrow> string \<Rightarrow> bool" where
  "rx_match r s \<longleftrightarrow> list_ex (\<lambda>i. ends r s i \<noteq> []) [0..<Suc (length s)]"

text \<open>
  \<^verbatim>\<open>FindStringSubmatch\<close> for a pattern \<open>pre (group) post\<close>: the text of the group in the
  leftmost-first match.
\<close>

definition group_at :: "rx \<Rightarrow> rx \<Rightarrow> rx \<Rightarrow> string \<Rightarrow> nat \<Rightarrow> string list" where
  "group_at pre grp post s i =
     concat (map (\<lambda>j. concat (map (\<lambda>k. map (\<lambda>_. take (k - j) (drop j s)) (ends post s k))
       (ends grp s j))) (ends pre s i))"

definition rx_submatch :: "rx \<Rightarrow> rx \<Rightarrow> rx \<Rightarrow> string \<Rightarrow> string option" where
  "rx_submatch pre grp post s =
     (case concat (map (group_at pre grp post s) [0..<Suc (length s)]) of
        [] \<Rightarrow> None | g # _ \<Rightarrow> Some g)"

section \<open>Facts about matching\<close>

lemma ends_lit: "ends (rx_lit p) s i = (if prefix p (drop i s) then [i + length p] else [])"
proof (induction p arbitrary: i)
  case Nil
  then show ?case by (simp add: rx_lit_def)
next
  case (Cons c p)
  show ?case
  proof (cases "i < length s")
    case True
    then have "drop i s = s ! i # drop (Suc i) s" by (simp add: Cons_nth_drop_Suc)
    with True Cons [of "Suc i"] show ?thesis by (auto simp: rx_lit_def RChr_def)
  qed (simp add: rx_lit_def RChr_def)
qed

lemma str_contains_iff: "str_contains s p \<longleftrightarrow> (\<exists>i\<le>length s. prefix p (drop i s))"
proof (induction s)
  case (Cons c s)
  have "(\<exists>i\<le>length (c # s). prefix p (drop i (c # s)))
      \<longleftrightarrow> prefix p (c # s) \<or> (\<exists>i\<le>length s. prefix p (drop i s))" (is "?L = ?R")
  proof
    assume ?L
    then obtain i where "i \<le> length (c # s)" "prefix p (drop i (c # s))" by blast
    then show ?R by (cases i) auto
  next
    assume ?R
    then show ?L by (metis Suc_le_mono drop0 drop_Suc_Cons length_Cons zero_le)
  qed
  with Cons show ?case by simp
qed simp

lemma rx_match_iff: "rx_match r s \<longleftrightarrow> (\<exists>i\<le>length s. ends r s i \<noteq> [])"
  by (auto simp: rx_match_def list_ex_iff less_Suc_eq_le simp del: upt_Suc)

lemma rx_match_lit: "rx_match (rx_lit p) s = str_contains s p"
  by (auto simp: rx_match_iff str_contains_iff ends_lit)

lemma ends_liti:
  "ends (rx_liti p) s i = (if prefix (to_lower p) (to_lower (drop i s)) then [i + length p] else [])"
proof (induction p arbitrary: i)
  case Nil
  then show ?case by (simp add: rx_liti_def)
next
  case (Cons c p)
  show ?case
  proof (cases "i < length s")
    case True
    then have "drop i s = s ! i # drop (Suc i) s" by (simp add: Cons_nth_drop_Suc)
    with True Cons [of "Suc i"] show ?thesis by (auto simp: rx_liti_def RChrI_def to_lower_def)
  qed (simp add: rx_liti_def RChrI_def to_lower_def)
qed

lemma str_contains_lower:
  "str_contains (to_lower s) p \<longleftrightarrow> (\<exists>i\<le>length s. prefix p (to_lower (drop i s)))"
  by (simp add: str_contains_iff to_lower_def drop_map)

lemma rx_match_liti: "rx_match (rx_liti p) s = str_contains (to_lower s) (to_lower p)"
  by (auto simp: rx_match_iff str_contains_lower ends_liti)

lemma rx_match_seq_liti: "rx_match (RSeq (rx_liti p) r) s \<Longrightarrow> str_contains (to_lower s) (to_lower p)"
  by (auto simp: rx_match_iff str_contains_lower ends_liti split: if_splits)

lemma rx_submatch_first: "group_at pre grp post s 0 = g # gs \<Longrightarrow> rx_submatch pre grp post s = Some g"
  by (simp add: rx_submatch_def upt_conv_Cons del: upt_Suc)

lemma digit_not_space: "is_digit c \<Longrightarrow> \<not> is_rx_space c \<and> c \<noteq> CHR '':''"
  by (auto simp: is_digit_def is_rx_space_def Let_def)

end
