(* ===== verification/ErrorClassifier.thy ===== *)
theory ErrorClassifier
  imports GoRegex Cooldown
begin

text \<open>
  \<^verbatim>\<open>pkg/providers/error_classifier.go\<close> and the error type of \<^verbatim>\<open>pkg/providers/types.go\<close>:
  classification of provider errors into failover reasons. Each pattern table of the source is
  the list of its entries in order; a pattern compiled by \<^verbatim>\<open>rxp\<close> carries the flag \<^verbatim>\<open>(?i)\<close>.
\<close>

section \<open>Errors\<close>

text \<open>
  A Go error as this code sees it: one of the two context sentinels (compared by identity), or
  any other error, known by its message.
\<close>

datatype go_error = ErrCanceled | ErrDeadlineExceeded | ErrMsg string

fun error_text :: "go_error \<Rightarrow> string" where
  "error_text ErrCanceled = ''context canceled''"
| "error_text ErrDeadlineExceeded = ''context deadline exceeded''"
| "error_text (ErrMsg m) = m"

record failover_error =
  fe_Reason :: failover_reason
  fe_Provider :: string
  fe_Model :: string
  fe_Status :: int
  fe_Wrapped :: go_error

definition isRetriable :: "failover_error \<Rightarrow> bool" where
  "isRetriable e \<longleftrightarrow> fe_Reason e \<noteq> FailoverFormat \<and> fe_Reason e \<noteq> FailoverContextOverflow"

section \<open>Pattern tables\<close>

datatype error_pattern = PSubstr string | PRegex rx

definition rseq :: "rx list \<Rightarrow> rx" where
  "rseq rs = foldr RSeq rs REps"

definition rcls :: "string \<Rightarrow> rx" where
  "rcls cs = RSet (\<lambda>c. c \<in> set cs)"

definition rateLimitPatterns :: "error_pattern list" where
  "rateLimitPatterns =
     [PRegex (rseq [rx_liti ''rate'', rcls ''_ '', rx_liti ''limit'']),
      PSubstr ''too many requests'',
      PSubstr ''429'',
      PSubstr ''exceeded your current quota'',
      PRegex (rseq [rx_liti ''exceeded'', RStar RAny, rx_liti ''quota'']),
      PRegex (rx_liti ''resource has been exhausted''),
      PRegex (rseq [rx_liti ''resource'', RStar RAny, rx_liti ''exhausted'']),
      PSubstr ''resource_exhausted'',
      PSubstr ''quota exceeded'',
      PSubstr ''usage limit'']"

definition overloadedPatterns :: "error_pattern list" where
  "overloadedPatterns =
     [PRegex (rx_liti ''overloaded_error''),
      PRegex (rseq [rx_liti [CHR 0x22], rx_liti ''type'', rx_liti [CHR 0x22], RStar RSpace,
                    rx_liti '':'', RStar RSpace,
                    rx_liti [CHR 0x22], rx_liti ''overloaded_error'', rx_liti [CHR 0x22]]),
      PSubstr ''overloaded'']"

definition timeoutPatterns :: "error_pattern list" where
  "timeoutPatterns =
     [PSubstr ''timeout'', PSubstr ''timed out'', PSubstr ''deadline exceeded'',
      PSubstr ''context deadline exceeded'']"

definition billingPatterns :: "error_pattern list" where
  "billingPatterns =
     [PRegex (rseq [RWordB, rx_liti ''402'', RWordB]),
      PSubstr ''payment required'',
      PSubstr ''insufficient credits'',
      PSubstr ''credit balance'',
      PSubstr ''plans & billing'',
      PSubstr ''insufficient balance'']"

definition authPatterns :: "error_pattern list" where
  "authPatterns =
     [PRegex (rseq [rx_liti ''invalid'', ROpt (rcls ''_ ''), rx_liti ''api'', ROpt (rcls ''_ ''),
                    rx_liti ''key'']),
      PSubstr ''incorrect api key'',
      PSubstr ''invalid token'',
      PSubstr ''authentication'',
      PSubstr ''re-authenticate'',
      PSubstr ''oauth token refresh failed'',
      PSubstr ''unauthorized'',
      PSubstr ''forbidden'',
      PSubstr ''access denied'',
      PSubstr ''expired'',
      PSubstr ''token has expired'',
      PRegex (rseq [RWordB, rx_liti ''401'', RWordB]),
      PRegex (rseq [RWordB, rx_liti ''403'', RWordB]),
      PSubstr ''no credentials found'',
      PSubstr ''no api key found'']"

definition formatPatterns :: "error_pattern list" where
  "formatPatterns =
     [PSubstr ''string should match pattern'',
      PSubstr ''tool_use.id'',
      PSubstr ''tool_use_id'',
      PSubstr ''messages.1.content.1.tool_use.id'',
      PSubstr ''invalid request format'']"

definition contextOverflowPatterns :: "error_pattern list" where
  "contextOverflowPatterns =
     [PRegex (rseq [rx_liti ''context'', ROpt (rcls ''_ ''), rx_liti ''length'', ROpt (rcls ''_ ''),
                    rx_liti ''exceeded'']),
      PRegex (rseq [rx_liti ''context'', ROpt (rcls ''_ ''), rx_liti ''window'', ROpt (rcls ''_ ''),
                    rx_liti ''exceeded'']),
      PSubstr ''maximum context length'',
      PSubstr ''token limit'',
      PSubstr ''too many tokens'',
      PSubstr ''prompt is too long'',
      PSubstr ''request too large'']"

definition imageDimensionPatterns :: "error_pattern list" where
  "imageDimensionPatterns = [PRegex (rx_liti ''image dimensions exceed max'')]"

definition imageSizePatterns :: "error_pattern list" where
  "imageSizePatterns = [PRegex (rseq [rx_liti ''image exceeds'', RStar RAny, rx_liti ''mb''])]"

definition transientStatusCodes :: "int list" where
  "transientStatusCodes = [500, 502, 503, 521, 522, 523, 524, 529]"

section \<open>Classification\<close>

fun matchesAny :: "string \<Rightarrow> error_pattern list \<Rightarrow> bool" where
  "matchesAny msg [] = False"
| "matchesAny msg (PRegex r # ps) = (rx_match r msg \<or> matchesAny msg ps)"
| "matchesAny msg (PSubstr p # ps) =
     ((p \<noteq> [] \<and> str_contains msg p) \<or> matchesAny msg ps)"

definition isImageDimensionError :: "string \<Rightarrow> bool" where
  "isImageDimensionError msg = matchesAny msg imageDimensionPatterns"

definition isImageSizeError :: "string \<Rightarrow> bool" where
  "isImageSizeError msg = matchesAny msg imageSizePatterns"

definition parseDigits :: "string \<Rightarrow> int" where
  "parseDigits s = fold (\<lambda>c n. if is_digit c then n * 10 + (of_char c - 48) else n) s 0"

text \<open>The three status patterns, each as what precedes the group, the group, what follows it.\<close>

definition httpStatusPatterns :: "(rx \<times> rx \<times> rx) list" where
  "httpStatusPatterns =
     [(rseq [rx_lit ''status'', RPlus (RSet (\<lambda>c. c = CHR '':'' \<or> is_rx_space c))],
       rseq [RDigit, RDigit, RDigit], REps),
      (rseq [rx_lit ''http'', RPlus (RSet (\<lambda>c. c = CHR ''/'' \<or> is_rx_space c)), RStar RDigit,
             ROpt (RChr (CHR ''.'')), RStar RDigit, RPlus RSpace],
       rseq [RDigit, RDigit, RDigit], REps),
      (RWordB, rseq [rcls ''345'', RDigit, RDigit], RWordB)]"

fun first_status :: "(rx \<times> rx \<times> rx) list \<Rightarrow> string \<Rightarrow> int" where
  "first_status [] msg = 0"
| "first_status ((pre, grp, post) # ps) msg =
     (case rx_submatch pre grp post msg of
        Some g \<Rightarrow> parseDigits g
      | None \<Rightarrow> first_status ps msg)"

definition extractHTTPStatus :: "string \<Rightarrow> int" where
  "extractHTTPStatus msg = first_status httpStatusPatterns msg"

definition classifyByStatus :: "int \<Rightarrow> failover_reason" where
  "classifyByStatus status =
     (if status = 401 \<or> status = 403 then FailoverAuth
      else if status = 402 then FailoverBilling
      else if status = 408 then FailoverTimeout
      else if status = 429 then FailoverRateLimit
      else if status = 400 then FailoverFormat
      else if status \<in> set transientStatusCodes then FailoverTimeout
      else NoReason)"

definition classifyByMessage :: "string \<Rightarrow> failover_reason" where
  "classifyByMessage msg =
     (if matchesAny msg rateLimitPatterns then FailoverRateLimit
      else if matchesAny msg overloadedPatterns then FailoverRateLimit
      else if matchesAny msg billingPatterns then FailoverBilling
      else if matchesAny msg timeoutPatterns then FailoverTimeout
      else if matchesAny msg authPatterns then FailoverAuth
      else if matchesAny msg formatPatterns then FailoverFormat
      else if matchesAny msg contextOverflowPatterns then FailoverContextOverflow
      else NoReason)"

definition classifyError :: "go_error option \<Rightarrow> string \<Rightarrow> string \<Rightarrow> failover_error option" where
  "classifyError err provider model =
     (case err of
        None \<Rightarrow> None
      | Some e \<Rightarrow>
          if e = ErrCanceled then None
          else if e = ErrDeadlineExceeded
          then Some \<lparr>fe_Reason = FailoverTimeout, fe_Provider = provider, fe_Model = model,
                     fe_Status = 0, fe_Wrapped = e\<rparr>
          else
            let msg = to_lower (error_text e);
                failover = (\<lambda>reason status. Some \<lparr>fe_Reason = reason, fe_Provider = provider,
                              fe_Model = model, fe_Status = status, fe_Wrapped = e\<rparr>)
            in if isImageDimensionError msg \<or> isImageSizeError msg then failover FailoverFormat 0
               else
                 let status = extractHTTPStatus msg
                 in if status > 0 \<and> classifyByStatus status \<noteq> NoReason
                    then failover (classifyByStatus status) status
                    else
                      let reason = classifyByMessage msg
                      in if reason \<noteq> NoReason then failover reason 0 else None)"

section \<open>Reading a status\<close>

lemma status_submatch:
  assumes d: "is_digit d1" "is_digit d2" "is_digit d3"
    and s_def: "s = ''status: '' @ d1 # d2 # d3 # rest"
  shows "rx_submatch (rseq [rx_lit ''status'', RPlus (RSet (\<lambda>c. c = CHR '':'' \<or> is_rx_space c))])
           (rseq [RDigit, RDigit, RDigit]) REps s = Some [d1, d2, d3]"
proof -
  let ?C = "RSet (\<lambda>c. c = CHR '':'' \<or> is_rx_space c)"
  have len: "length s = 11 + length rest" by (simp add: s_def)
  have nth: "s ! 6 = CHR '':''" "s ! 7 = CHR '' ''" "s ! 8 = d1" "s ! 9 = d2" "s ! 10 = d3"
    by (simp_all add: s_def)
  have lit: "ends (rx_lit ''status'') s 0 = [6]" by (simp add: ends_lit s_def)
  have C: "ends ?C s 6 = [7]" "ends ?C s 7 = [8]" "ends ?C s 8 = []"
    using nth len digit_not_space [OF d(1)] by (simp_all add: is_rx_space_def)
  have star8: "ends (RStar ?C) s 8 = [8]" by (subst ends.simps(3)) (simp only: C list.map concat.simps append_Nil)
  have star7: "ends (RStar ?C) s 7 = [8, 7]"
    by (subst ends.simps(3)) (simp add: C star8 len del: ends.simps)
  have pre: "ends (rseq [rx_lit ''status'', RPlus ?C]) s 0 = [8, 7]"
    unfolding rseq_def RPlus_def by (simp add: lit C star7 del: ends.simps(1,3))
  have grp: "ends (rseq [RDigit, RDigit, RDigit]) s 8 = [11]"
    unfolding rseq_def RDigit_def by (simp add: nth len d)
  have "drop 8 s = d1 # d2 # d3 # rest" by (simp add: s_def)
  then have "\<exists>gs. group_at (rseq [rx_lit ''status'', RPlus ?C]) (rseq [RDigit, RDigit, RDigit]) REps s 0
      = [d1, d2, d3] # gs"
    unfolding group_at_def pre by (simp add: grp)
  then show ?thesis by (auto dest: rx_submatch_first)
qed

lemma extract_status:
  assumes "is_digit d1" "is_digit d2" "is_digit d3"
  shows "extractHTTPStatus (''status: '' @ d1 # d2 # d3 # rest) = parseDigits [d1, d2, d3]"
  using status_submatch [OF assms refl, of rest]
  by (simp add: extractHTTPStatus_def httpStatusPatterns_def)

lemma digit_lower: "is_digit c \<Longrightarrow> lower_char c = c"
  by (rule lower_char_id) (simp add: is_digit_def Let_def)

section \<open>The shape of a classification\<close>

lemma classifyByStatus_range:
  "classifyByStatus n \<in> {NoReason, FailoverAuth, FailoverRateLimit, FailoverBilling,
     FailoverTimeout, FailoverFormat}"
  by (simp add: classifyByStatus_def)

lemma classifyByMessage_range:
  "classifyByMessage x \<in> {NoReason, FailoverAuth, FailoverRateLimit, FailoverBilling,
     FailoverTimeout, FailoverFormat, FailoverContextOverflow}"
  by (simp add: classifyByMessage_def)

lemma classifyError_Some_cases:
  assumes "classifyError (Some e) p m = Some fe"
  obtains
    (plain) r where "fe = \<lparr>fe_Reason = r, fe_Provider = p, fe_Model = m, fe_Status = 0, fe_Wrapped = e\<rparr>"
      "r \<in> {FailoverAuth, FailoverRateLimit, FailoverBilling, FailoverTimeout, FailoverFormat,
        FailoverContextOverflow}"
  | (status) n where "n = extractHTTPStatus (to_lower (error_text e))" "classifyByStatus n \<noteq> NoReason"
      "fe = \<lparr>fe_Reason = classifyByStatus n, fe_Provider = p, fe_Model = m, fe_Status = n, fe_Wrapped = e\<rparr>"
proof -
  define n where "n = extractHTTPStatus (to_lower (error_text e))"
  define r where "r = classifyByMessage (to_lower (error_text e))"
  have r: "r \<noteq> NoReason \<longrightarrow> r \<in> {FailoverAuth, FailoverRateLimit, FailoverBilling, FailoverTimeout,
      FailoverFormat, FailoverContextOverflow}"
    using classifyByMessage_range [of "to_lower (error_text e)"] by (auto simp: r_def)
  from assms show ?thesis
    unfolding classifyError_def Let_def option.case n_def [symmetric] r_def [symmetric]
    using r plain [of FailoverTimeout] plain [of FailoverFormat] plain [of r] status [of n, OF n_def]
    by (simp split: if_splits)
qed

lemma classifyError_image:
  "isImageDimensionError (to_lower t) \<or> isImageSizeError (to_lower t) \<Longrightarrow>
   classifyError (Some (ErrMsg t)) p m = Some \<lparr>fe_Reason = FailoverFormat, fe_Provider = p,
     fe_Model = m, fe_Status = 0, fe_Wrapped = ErrMsg t\<rparr>"
  by (simp add: classifyError_def)

lemma classifyError_case_insensitive:
  "to_lower t = to_lower u \<Longrightarrow>
   map_option fe_Reason (classifyError (Some (ErrMsg t)) p m)
     = map_option fe_Reason (classifyError (Some (ErrMsg u)) p m)"
  by (simp add: classifyError_def Let_def)

section \<open>Properties\<close>

text \<open>
  What a classification can be: no error and a cancelled context are never
  classified, an expired deadline is a timeout, every classified error carries one of six
  reasons (never \<^verbatim>\<open>overloaded\<close> or \<^verbatim>\<open>unknown\<close>) with the caller's provider and model, a non-zero
  status is always the one its reason was read from, an image dimension or size error is a
  non-retriable format error whatever else its text says, and the reason depends on the
  message only up to letter case.
\<close>

theorem classification_contract:
  "classifyError None p m = None \<and> classifyError (Some ErrCanceled) p m = None
   \<and> map_option fe_Reason (classifyError (Some ErrDeadlineExceeded) p m) = Some FailoverTimeout
   \<and> (classifyError (Some e) p m = Some fe \<longrightarrow>
        fe_Reason fe \<in> {FailoverAuth, FailoverRateLimit, FailoverBilling, FailoverTimeout,
          FailoverFormat, FailoverContextOverflow}
        \<and> (isRetriable fe \<longleftrightarrow> fe_Reason fe \<in> {FailoverAuth, FailoverRateLimit, FailoverBilling, FailoverTimeout})
        \<and> fe_Provider fe = p \<and> fe_Model fe = m \<and> fe_Wrapped fe = e
        \<and> (fe_Status fe \<noteq> 0 \<longrightarrow> fe_Reason fe = classifyByStatus (fe_Status fe)
              \<and> fe_Status fe = extractHTTPStatus (to_lower (error_text e))))
   \<and> (isImageDimensionError (to_lower t) \<or> isImageSizeError (to_lower t) \<longrightarrow>
        map_option isRetriable (classifyError (Some (ErrMsg t)) p m) = Some False)
   \<and> (to_lower t = to_lower u \<longrightarrow>
        map_option fe_Reason (classifyError (Some (ErrMsg t)) p m)
          = map_option fe_Reason (classifyError (Some (ErrMsg u)) p m))"
proof -
  have "fe_Reason fe \<in> {FailoverAuth, FailoverRateLimit, FailoverBilling, FailoverTimeout,
          FailoverFormat, FailoverContextOverflow}
        \<and> fe_Provider fe = p \<and> fe_Model fe = m \<and> fe_Wrapped fe = e
        \<and> (fe_Status fe \<noteq> 0 \<longrightarrow> fe_Reason fe = classifyByStatus (fe_Status fe)
              \<and> fe_Status fe = extractHTTPStatus (to_lower (error_text e)))"
    if "classifyError (Some e) p m = Some fe"
    using that
  proof (cases rule: classifyError_Some_cases)
    case (status n)
    with classifyByStatus_range [of n] show ?thesis by auto
  qed auto
  then have main: "classifyError (Some e) p m = Some fe \<longrightarrow>
        fe_Reason fe \<in> {FailoverAuth, FailoverRateLimit, FailoverBilling, FailoverTimeout,
          FailoverFormat, FailoverContextOverflow}
        \<and> (isRetriable fe \<longleftrightarrow> fe_Reason fe \<in> {FailoverAuth, FailoverRateLimit, FailoverBilling, FailoverTimeout})
        \<and> fe_Provider fe = p \<and> fe_Model fe = m \<and> fe_Wrapped fe = e
        \<and> (fe_Status fe \<noteq> 0 \<longrightarrow> fe_Reason fe = classifyByStatus (fe_Status fe)
              \<and> fe_Status fe = extractHTTPStatus (to_lower (error_text e)))"
    by (auto simp: isRetriable_def)
  have "classifyError None p m = None" "classifyError (Some ErrCanceled) p m = None"
    "map_option fe_Reason (classifyError (Some ErrDeadlineExceeded) p m) = Some FailoverTimeout"
    by (simp_all add: classifyError_def)
  with main classifyError_image [of t p m] classifyError_case_insensitive [of t u p m]
  show ?thesis by (simp add: isRetriable_def)
qed

theorem classification_contract_witness:
  "isImageSizeError (to_lower ''Image exceeds 9mb'')
   \<and> map_option isRetriable (classifyError (Some (ErrMsg ''Image exceeds 9mb'')) ''p'' ''m'')
       = Some False"
proof -
  have low: "to_lower ''Image exceeds 9mb'' = ''image exceeds 9mb''" by code_simp
  have "isImageSizeError (to_lower ''Image exceeds 9mb'')"
    unfolding low isImageSizeError_def imageSizePatterns_def matchesAny.simps rx_match_iff
    by (rule disjI1, rule exI [of _ 0])
      (simp add: rseq_def ends_liti to_lower_def lower_char_def RAny_def)
  with classification_contract [where t = "''Image exceeds 9mb''" and p = "''p''" and m = "''m''"]
  show ?thesis by blast
qed

text \<open>
  A message that starts with a status line decides by its status before any text is
  looked at: for \<open>status: ddd\<close> followed by anything, the code read is the number \<open>ddd\<close>, and when
  that code is one the table knows, the reason is the table's, unless it is an image error.
\<close>

theorem status_decides:
  assumes "is_digit d1" "is_digit d2" "is_digit d3"
    and msg: "to_lower text = ''status: '' @ [d1, d2, d3] @ rest"
    and "\<not> isImageDimensionError (to_lower text)" "\<not> isImageSizeError (to_lower text)"
    and known: "classifyByStatus (parseDigits [d1, d2, d3]) \<noteq> NoReason"
  shows "classifyError (Some (ErrMsg text)) p m =
     Some \<lparr>fe_Reason = classifyByStatus (100 * (of_char d1 - 48) + 10 * (of_char d2 - 48) + (of_char d3 - 48)),
           fe_Provider = p, fe_Model = m,
           fe_Status = 100 * (of_char d1 - 48) + 10 * (of_char d2 - 48) + (of_char d3 - 48),
           fe_Wrapped = ErrMsg text\<rparr>"
proof -
  have pd: "parseDigits [d1, d2, d3] = 100 * (of_char d1 - 48) + 10 * (of_char d2 - 48) + (of_char d3 - 48)"
    using assms(1-3) by (simp add: parseDigits_def)
  have ex: "extractHTTPStatus (to_lower text) = parseDigits [d1, d2, d3]"
    using extract_status [OF assms(1-3), of rest] by (simp only: msg append_Cons append_Nil)
  have "0 < parseDigits [d1, d2, d3]"
    using known by (force simp: classifyByStatus_def transientStatusCodes_def split: if_splits)
  with assms(5,6) known show ?thesis
    by (simp add: classifyError_def Let_def ex pd)
qed

theorem status_decides_witness:
  "map_option fe_Reason (classifyError (Some (ErrMsg ''Status: 402!'')) ''p'' ''m'') = Some FailoverBilling"
proof -
  have a: "is_digit (CHR ''4'')" "is_digit (CHR ''0'')" "is_digit (CHR ''2'')" by code_simp+
  have b: "to_lower ''Status: 402!'' = ''status: '' @ [CHR ''4'', CHR ''0'', CHR ''2''] @ ''!''"
    by code_simp
  have low: "to_lower ''Status: 402!'' = ''status: 402!''" by code_simp
  have c: "\<not> isImageDimensionError (to_lower ''Status: 402!'')"
    "\<not> isImageSizeError (to_lower ''Status: 402!'')"
    unfolding low using rx_match_seq_liti [of "''image exceeds''" _ "''status: 402!''"]
    by (auto simp: isImageDimensionError_def imageDimensionPatterns_def rx_match_liti
        isImageSizeError_def imageSizePatterns_def rseq_def to_lower_def lower_char_def)
  have d: "classifyByStatus (parseDigits [CHR ''4'', CHR ''0'', CHR ''2'']) \<noteq> NoReason" by code_simp
  from status_decides [OF a b c d, of "''p''" "''m''"] show ?thesis
    by (simp add: classifyByStatus_def)
qed

end
