(* ===== verification/Fallback.thy ===== *)
theory Fallback
  imports Cooldown RateLimit ModelRef ErrorClassifier
begin

text \<open>
  \<^verbatim>\<open>pkg/providers/fallback.go\<close>: candidate resolution and the fallback chain. The chain's
  state is its cooldown tracker and its optional rate-limiter registry. What the outside world
  shows to iteration \<open>i\<close> of the loop (clock readings, context state, the result of the
  caller's \<^verbatim>\<open>run\<close> callback) is a record \<open>attempt_env\<close>, and an execution is given the function
  from iterations to these records, so that every behaviour of the callback and of the context
  is covered. The errors Go builds with \<^verbatim>\<open>fmt.Errorf\<close> are constructors that keep their
  arguments. Attempts that the code records just before returning a nil result are not
  observable and are dropped.
\<close>

section \<open>Data\<close>

record fallback_candidate =
  fc_Provider :: string
  fc_Model :: string
  fc_RPM :: int
  fc_IdentityKey :: string

definition stableKey :: "fallback_candidate \<Rightarrow> string" where
  "stableKey c =
     (let key = trim_space (fc_IdentityKey c)
      in if key \<noteq> [] then key else modelKey (fc_Provider c) (fc_Model c))"

datatype attempt_error =
    InCooldown string duration
  | WaitingForToken string
  | WaitError go_error
  | RunError go_error
  | Failover failover_error

record fallback_attempt =
  fa_Provider :: string
  fa_Model :: string
  fa_Error :: attempt_error
  fa_Reason :: failover_reason
  fa_Duration :: duration
  fa_Skipped :: bool

record 'r fallback_result =
  fr_Response :: 'r
  fr_Provider :: string
  fr_Model :: string
  fr_Attempts :: "fallback_attempt list"

datatype fallback_error =
    NoCandidates
  | ContextCanceled
  | WaitFailed go_error
  | Unclassified string string go_error
  | NonRetriable failover_error
  | Exhausted "fallback_attempt list"

datatype 'r fallback_outcome =
    Success "'r fallback_result"
  | Failure fallback_error
  | Blocked

record 'r attempt_env =
  ae_cancelledBefore :: bool
  ae_now :: time
  ae_rlNow :: time
  ae_wait :: "(time \<times> bool) list"
  ae_ctxErr :: go_error
  ae_result :: "go_error + 'r"
  ae_elapsed :: duration
  ae_cancelledAfter :: bool
  ae_markNow :: time

record fallback_chain =
  ch_cooldown :: cooldown_tracker
  ch_rl :: "rl_registry option"

definition newFallbackChain :: "cooldown_tracker \<Rightarrow> rl_registry option \<Rightarrow> fallback_chain" where
  "newFallbackChain cooldown rl = \<lparr>ch_cooldown = cooldown, ch_rl = rl\<rparr>"

fun registerCandidates ::
  "rl_registry \<Rightarrow> fallback_candidate list \<Rightarrow> time \<Rightarrow> rl_registry" where
  "registerCandidates r [] now = r"
| "registerCandidates r (c # cs) now =
     (if fc_RPM c > 0 then registerCandidates (rl_register r (stableKey c) (fc_RPM c) now) cs now
      else registerCandidates r cs now)"

section \<open>Resolving candidates\<close>

record model_config =
  mc_Primary :: string
  mc_Fallbacks :: "string list"

text \<open>The closure \<^verbatim>\<open>addCandidate\<close>: the keys seen so far and the candidates collected.\<close>

definition addCandidate ::
  "(string \<Rightarrow> string option) option \<Rightarrow> string \<Rightarrow> string list \<times> fallback_candidate list
     \<Rightarrow> string \<Rightarrow> string list \<times> fallback_candidate list" where
  "addCandidate lookup defaultProvider acc raw =
     (let (seen, candidates) = acc;
          trimmed = trim_space raw;
          candidateRaw = (case lookup of
                            None \<Rightarrow> trimmed
                          | Some f \<Rightarrow> (case f trimmed of Some resolved \<Rightarrow> resolved | None \<Rightarrow> trimmed))
      in case parseModelRef candidateRaw defaultProvider of
           None \<Rightarrow> (seen, candidates)
         | Some ref \<Rightarrow>
             (let key = modelKey (mr_Provider ref) (mr_Model ref)
              in if key \<in> set seen then (seen, candidates)
                 else (key # seen,
                       candidates @ [\<lparr>fc_Provider = mr_Provider ref, fc_Model = mr_Model ref,
                                      fc_RPM = 0, fc_IdentityKey = []\<rparr>])))"

definition resolveCandidatesWithLookup ::
  "model_config \<Rightarrow> string \<Rightarrow> (string \<Rightarrow> string option) option \<Rightarrow> fallback_candidate list" where
  "resolveCandidatesWithLookup cfg defaultProvider lookup =
     (let acc1 = addCandidate lookup defaultProvider ([], []) (mc_Primary cfg);
          acc2 = foldl (addCandidate lookup defaultProvider) acc1 (mc_Fallbacks cfg)
      in snd acc2)"

definition resolveCandidates :: "model_config \<Rightarrow> string \<Rightarrow> fallback_candidate list" where
  "resolveCandidates cfg defaultProvider = resolveCandidatesWithLookup cfg defaultProvider None"

section \<open>The chain\<close>

text \<open>\<^verbatim>\<open>d.Round(time.Second)\<close>: halves away from zero.\<close>

definition round_second :: "duration \<Rightarrow> duration" where
  "round_second d =
     (if 0 \<le> d then (d + second div 2) div second * second
      else - ((- d + second div 2) div second * second))"

text \<open>
  The per-candidate rate limit of both loops: go on with a token, skip to the next candidate,
  give up with the context's error, or still blocked in \<^verbatim>\<open>Wait\<close>.
\<close>

datatype gate = GateGo | GateSkip | GateErr go_error | GateBlocked

definition rate_gate ::
  "rl_registry option \<Rightarrow> string \<Rightarrow> bool \<Rightarrow> 'r attempt_env \<Rightarrow> rl_registry option \<times> gate" where
  "rate_gate rl key isLast env =
     (case rl of
        None \<Rightarrow> (None, GateGo)
      | Some r \<Rightarrow>
          (let (r1, got) = rl_tryAcquire r key (ae_rlNow env)
           in if got then (Some r1, GateGo)
              else if \<not> isLast then (Some r1, GateSkip)
              else (let (r2, res) = rl_wait r1 key (ae_wait env)
                    in (Some r2, case res of
                          Acquired \<Rightarrow> GateGo
                        | Cancelled \<Rightarrow> GateErr (ae_ctxErr env)
                        | StillWaiting \<Rightarrow> GateBlocked))))"

definition skipped_attempt :: "fallback_candidate \<Rightarrow> attempt_error \<Rightarrow> fallback_attempt" where
  "skipped_attempt c err =
     \<lparr>fa_Provider = fc_Provider c, fa_Model = fc_Model c, fa_Error = err,
      fa_Reason = FailoverRateLimit, fa_Duration = 0, fa_Skipped = True\<rparr>"

text \<open>
  One iteration of a loop over the candidates: it returns from the function, or goes on to the
  next candidate with the attempts so far and the chain's state.
\<close>

datatype 'r body_result =
    Return fallback_chain "'r fallback_outcome"
  | Continue "fallback_attempt list" fallback_chain

fun candidate_loop ::
  "('r attempt_env \<Rightarrow> bool \<Rightarrow> fallback_candidate \<Rightarrow> fallback_attempt list \<Rightarrow> fallback_chain \<Rightarrow> 'r body_result)
   \<Rightarrow> (nat \<Rightarrow> 'r attempt_env) \<Rightarrow> nat \<Rightarrow> fallback_candidate list \<Rightarrow> fallback_attempt list
   \<Rightarrow> fallback_chain \<Rightarrow> fallback_chain \<times> 'r fallback_outcome" where
  "candidate_loop body env i [] attempts fc = (fc, Failure (Exhausted attempts))"
| "candidate_loop body env i (c # cs) attempts fc =
     (case body (env i) (cs = []) c attempts fc of
        Return fc' out \<Rightarrow> (fc', out)
      | Continue attempts' fc' \<Rightarrow> candidate_loop body env (Suc i) cs attempts' fc')"

text \<open>What \<^verbatim>\<open>Execute\<close> does with the outcome of the callback.\<close>

definition after_run ::
  "'r attempt_env \<Rightarrow> bool \<Rightarrow> fallback_candidate \<Rightarrow> fallback_attempt list \<Rightarrow> fallback_chain
     \<Rightarrow> 'r body_result" where
  "after_run e isLast c attempts fc =
     (let key = stableKey c
      in case ae_result e of
           Inr resp \<Rightarrow>
             Return (fc\<lparr>ch_cooldown := markSuccess (ch_cooldown fc) key\<rparr>)
               (Success \<lparr>fr_Response = resp, fr_Provider = fc_Provider c,
                         fr_Model = fc_Model c, fr_Attempts = attempts\<rparr>)
         | Inl err \<Rightarrow>
             if ae_cancelledAfter e then Return fc (Failure ContextCanceled)
             else
               (case classifyError (Some err) (fc_Provider c) (fc_Model c) of
                  None \<Rightarrow> Return fc (Failure (Unclassified (fc_Provider c) (fc_Model c) err))
                | Some failErr \<Rightarrow>
                    if \<not> isRetriable failErr then Return fc (Failure (NonRetriable failErr))
                    else
                      (let fc' = fc\<lparr>ch_cooldown := markFailure (ch_cooldown fc) key
                                     (fe_Reason failErr) (ae_markNow e)\<rparr>;
                           attempts' = attempts @
                             [\<lparr>fa_Provider = fc_Provider c, fa_Model = fc_Model c,
                               fa_Error = Failover failErr, fa_Reason = fe_Reason failErr,
                               fa_Duration = ae_elapsed e, fa_Skipped = False\<rparr>]
                       in if isLast then Return fc' (Failure (Exhausted attempts'))
                          else Continue attempts' fc')))"

definition execute_body ::
  "'r attempt_env \<Rightarrow> bool \<Rightarrow> fallback_candidate \<Rightarrow> fallback_attempt list \<Rightarrow> fallback_chain
     \<Rightarrow> 'r body_result" where
  "execute_body e isLast c attempts fc =
     (let key = stableKey c
      in if ae_cancelledBefore e then Return fc (Failure ContextCanceled)
         else if \<not> isAvailable (ch_cooldown fc) key (ae_now e)
         then Continue (attempts @ [skipped_attempt c (InCooldown key
                (round_second (cooldownRemaining (ch_cooldown fc) key (ae_now e))))]) fc
         else
           (let (rl', g) = rate_gate (ch_rl fc) key isLast e;
                fc' = fc\<lparr>ch_rl := rl'\<rparr>
            in case g of
                 GateSkip \<Rightarrow> Continue (attempts @ [skipped_attempt c (WaitingForToken key)]) fc'
               | GateErr w \<Rightarrow> Return fc' (Failure (WaitFailed w))
               | GateBlocked \<Rightarrow> Return fc' Blocked
               | GateGo \<Rightarrow> after_run e isLast c attempts fc'))"

definition execute ::
  "fallback_chain \<Rightarrow> fallback_candidate list \<Rightarrow> (nat \<Rightarrow> 'r attempt_env)
     \<Rightarrow> fallback_chain \<times> 'r fallback_outcome" where
  "execute fc candidates env =
     (if candidates = [] then (fc, Failure NoCandidates)
      else candidate_loop execute_body env 0 candidates [] fc)"

definition execute_image_body ::
  "'r attempt_env \<Rightarrow> bool \<Rightarrow> fallback_candidate \<Rightarrow> fallback_attempt list \<Rightarrow> fallback_chain
     \<Rightarrow> 'r body_result" where
  "execute_image_body e isLast c attempts fc =
     (let key = stableKey c
      in if ae_cancelledBefore e then Return fc (Failure ContextCanceled)
         else
           (let (rl', g) = rate_gate (ch_rl fc) key isLast e;
                fc' = fc\<lparr>ch_rl := rl'\<rparr>
            in case g of
                 GateSkip \<Rightarrow> Continue (attempts @ [skipped_attempt c (WaitingForToken key)]) fc'
               | GateErr w \<Rightarrow> Return fc' (Failure (WaitFailed w))
               | GateBlocked \<Rightarrow> Return fc' Blocked
               | GateGo \<Rightarrow>
                   (case ae_result e of
                      Inr resp \<Rightarrow>
                        Return fc' (Success \<lparr>fr_Response = resp, fr_Provider = fc_Provider c,
                                             fr_Model = fc_Model c, fr_Attempts = attempts\<rparr>)
                    | Inl err \<Rightarrow>
                        if ae_cancelledAfter e then Return fc' (Failure ContextCanceled)
                        else
                          (let errMsg = to_lower (error_text err)
                           in if isImageDimensionError errMsg \<or> isImageSizeError errMsg
                              then Return fc' (Failure (NonRetriable
                                     \<lparr>fe_Reason = FailoverFormat, fe_Provider = fc_Provider c,
                                      fe_Model = fc_Model c, fe_Status = 0, fe_Wrapped = err\<rparr>))
                              else
                                (let attempts' = attempts @
                                       [\<lparr>fa_Provider = fc_Provider c, fa_Model = fc_Model c,
                                         fa_Error = RunError err, fa_Reason = NoReason,
                                         fa_Duration = ae_elapsed e, fa_Skipped = False\<rparr>]
                                 in if isLast then Return fc' (Failure (Exhausted attempts'))
                                    else Continue attempts' fc')))))"

definition executeImage ::
  "fallback_chain \<Rightarrow> fallback_candidate list \<Rightarrow> (nat \<Rightarrow> 'r attempt_env)
     \<Rightarrow> fallback_chain \<times> 'r fallback_outcome" where
  "executeImage fc candidates env =
     (if candidates = [] then (fc, Failure NoCandidates)
      else candidate_loop execute_image_body env 0 candidates [] fc)"

section \<open>The contract of a loop body\<close>

text \<open>
  Both loops treat a candidate the same way: going on records exactly one attempt for it, a
  success reports the candidate and the attempts before it, and exhaustion is only reported at
  the last candidate, with its attempt recorded.
\<close>

definition attempt_for :: "fallback_candidate \<Rightarrow> fallback_attempt \<Rightarrow> bool" where
  "attempt_for c a \<longleftrightarrow> fa_Provider a = fc_Provider c \<and> fa_Model a = fc_Model c"

locale loop_body =
  fixes body :: "'r attempt_env \<Rightarrow> bool \<Rightarrow> fallback_candidate \<Rightarrow> fallback_attempt list
      \<Rightarrow> fallback_chain \<Rightarrow> 'r body_result"
    and good :: "fallback_attempt \<Rightarrow> bool"
  assumes continue_one: "body e isLast c as fc = Continue as' fc' \<Longrightarrow>
      \<exists>a. as' = as @ [a] \<and> attempt_for c a \<and> good a"
    and exhausted_last: "body e isLast c as fc = Return fc' (Failure (Exhausted as')) \<Longrightarrow>
      isLast \<and> (\<exists>a. as' = as @ [a] \<and> attempt_for c a \<and> good a)"
    and success_here: "body e isLast c as fc = Return fc' (Success r) \<Longrightarrow>
      ae_result e = Inr (fr_Response r) \<and> fr_Provider r = fc_Provider c \<and> fr_Model r = fc_Model c
      \<and> fr_Attempts r = as"
begin

lemma loop_exhausted:
  assumes "candidate_loop body env i cs as fc = (fc', Failure (Exhausted as'))"
  shows "\<exists>bs. as' = as @ bs \<and> list_all2 attempt_for cs bs \<and> list_all good bs"
  using assms
proof (induction cs arbitrary: i as fc)
  case (Cons c cs)
  show ?case
  proof (cases "body (env i) (cs = []) c as fc")
    case (Return fc1 out)
    with Cons.prems have R: "body (env i) (cs = []) c as fc = Return fc' (Failure (Exhausted as'))"
      by simp
    from exhausted_last [OF R] show ?thesis by auto
  next
    case (Continue as1 fc1)
    from continue_one [OF Continue] obtain a where a: "as1 = as @ [a]" "attempt_for c a" "good a"
      by blast
    from Cons.IH [of "Suc i" as1 fc1] Cons.prems Continue obtain bs
      where "as' = as1 @ bs" "list_all2 attempt_for cs bs" "list_all good bs" by auto
    with a show ?thesis by (intro exI [of _ "a # bs"]) simp
  qed
qed simp

lemma loop_success:
  assumes "candidate_loop body env i cs as fc = (fc', Success r)"
  shows "\<exists>k < length cs. ae_result (env (i + k)) = Inr (fr_Response r)
    \<and> fr_Provider r = fc_Provider (cs ! k) \<and> fr_Model r = fc_Model (cs ! k)
    \<and> (\<exists>bs. fr_Attempts r = as @ bs \<and> list_all2 attempt_for (take k cs) bs \<and> list_all good bs)"
  using assms
proof (induction cs arbitrary: i as fc)
  case (Cons c cs)
  show ?case
  proof (cases "body (env i) (cs = []) c as fc")
    case (Return fc1 out)
    with Cons.prems have "body (env i) (cs = []) c as fc = Return fc' (Success r)" by simp
    from success_here [OF this] show ?thesis by (intro exI [of _ 0]) simp
  next
    case (Continue as1 fc1)
    from continue_one [OF Continue] obtain a where a: "as1 = as @ [a]" "attempt_for c a" "good a"
      by blast
    from Cons.IH [of "Suc i" as1 fc1] Cons.prems Continue obtain k bs
      where "k < length cs" "ae_result (env (Suc i + k)) = Inr (fr_Response r)"
        "fr_Provider r = fc_Provider (cs ! k)" "fr_Model r = fc_Model (cs ! k)"
        "fr_Attempts r = as1 @ bs" "list_all2 attempt_for (take k cs) bs" "list_all good bs"
      by auto
    with a show ?thesis
      by (intro exI [of _ "Suc k"]) (auto intro!: exI [of _ "a # bs"])
  qed
qed simp

end

text \<open>What an attempt of \<^verbatim>\<open>Execute\<close> records: a skip, or a failure that was retriable.\<close>

definition execute_attempt_ok :: "fallback_attempt \<Rightarrow> bool" where
  "execute_attempt_ok a \<longleftrightarrow>
     (case fa_Error a of
        Failover fe \<Rightarrow> \<not> fa_Skipped a \<and> isRetriable fe \<and> fa_Reason a = fe_Reason fe
      | InCooldown k d \<Rightarrow> fa_Skipped a \<and> fa_Reason a = FailoverRateLimit
      | WaitingForToken k \<Rightarrow> fa_Skipped a \<and> fa_Reason a = FailoverRateLimit
      | _ \<Rightarrow> False)"

definition image_attempt_ok :: "fallback_attempt \<Rightarrow> bool" where
  "image_attempt_ok a \<longleftrightarrow>
     (case fa_Error a of
        RunError err \<Rightarrow> \<not> fa_Skipped a
          \<and> \<not> isImageDimensionError (to_lower (error_text err))
          \<and> \<not> isImageSizeError (to_lower (error_text err))
      | WaitingForToken k \<Rightarrow> fa_Skipped a
      | _ \<Rightarrow> False)"

lemmas attempt_defs = attempt_for_def execute_attempt_ok_def image_attempt_ok_def skipped_attempt_def

interpretation exec: loop_body execute_body execute_attempt_ok
  by unfold_locales
    (auto simp: execute_body_def after_run_def Let_def attempt_defs
      split: if_splits prod.splits gate.splits sum.splits option.splits)

interpretation image: loop_body execute_image_body image_attempt_ok
  by unfold_locales
    (auto simp: execute_image_body_def Let_def attempt_defs
      split: if_splits prod.splits gate.splits sum.splits option.splits)

section \<open>Effect on the cooldown tracker\<close>

definition mark_step :: "string \<Rightarrow> time \<Rightarrow> cooldown_tracker \<Rightarrow> cooldown_tracker \<Rightarrow> bool \<Rightarrow> bool" where
  "mark_step key now ct ct' marked \<longleftrightarrow>
     (if marked then \<exists>r. r \<in> {FailoverAuth, FailoverRateLimit, FailoverBilling, FailoverTimeout}
        \<and> ct' = markFailure ct key r now
      else ct' = ct)"

lemma retriable_reason:
  assumes "classifyError (Some e) p m = Some fe" and "isRetriable fe"
  shows "fe_Reason fe \<in> {FailoverAuth, FailoverRateLimit, FailoverBilling, FailoverTimeout}"
  using assms
proof (cases rule: classifyError_Some_cases)
  case (status n)
  with classifyByStatus_range [of n] assms(2) show ?thesis by (auto simp: isRetriable_def)
qed (auto simp: isRetriable_def)

lemma after_run_failed:
  assumes "after_run e isLast c as fc = Continue as' fc'
    \<or> after_run e isLast c as fc = Return fc' (Failure (Exhausted as'))"
  shows "mark_step (stableKey c) (ae_markNow e) (ch_cooldown fc) (ch_cooldown fc') True
     \<and> \<not> fa_Skipped (last as')"
proof -
  from assms obtain err fe where "classifyError (Some err) (fc_Provider c) (fc_Model c) = Some fe"
    and "isRetriable fe"
    and "ch_cooldown fc' = markFailure (ch_cooldown fc) (stableKey c) (fe_Reason fe) (ae_markNow e)"
    and "\<not> fa_Skipped (last as')"
    by (auto simp: after_run_def Let_def split: sum.splits if_splits option.splits)
  with retriable_reason [of err "fc_Provider c" "fc_Model c" fe] show ?thesis
    unfolding mark_step_def by auto
qed

lemma after_run_other:
  assumes "after_run e isLast c as fc = Return fc' out" and "\<forall>x. out \<noteq> Failure (Exhausted x)"
  shows "ch_cooldown fc' = (case out of Success r \<Rightarrow> markSuccess (ch_cooldown fc) (stableKey c)
       | _ \<Rightarrow> ch_cooldown fc)"
  using assms by (auto simp: after_run_def Let_def split: sum.splits if_splits option.splits)

lemma execute_body_continue:
  assumes "execute_body e isLast c as fc = Continue as' fc'"
  shows "mark_step (stableKey c) (ae_markNow e) (ch_cooldown fc) (ch_cooldown fc') (\<not> fa_Skipped (last as'))"
  using assms after_run_failed [of e isLast c as "fc\<lparr>ch_rl := r\<rparr>" as' fc' for r]
  by (auto simp: execute_body_def Let_def mark_step_def skipped_attempt_def
      split: if_splits prod.splits gate.splits)

lemma execute_body_exhausted:
  assumes "execute_body e isLast c as fc = Return fc' (Failure (Exhausted as'))"
  shows "mark_step (stableKey c) (ae_markNow e) (ch_cooldown fc) (ch_cooldown fc') (\<not> fa_Skipped (last as'))"
  using assms after_run_failed [of e isLast c as "fc\<lparr>ch_rl := r\<rparr>" as' fc' for r]
  by (auto simp: execute_body_def Let_def mark_step_def
      split: if_splits prod.splits gate.splits)

lemma execute_body_return:
  assumes "execute_body e isLast c as fc = Return fc' out" and "\<forall>x. out \<noteq> Failure (Exhausted x)"
  shows "ch_cooldown fc' = (case out of Success r \<Rightarrow> markSuccess (ch_cooldown fc) (stableKey c)
    | _ \<Rightarrow> ch_cooldown fc)
    \<and> (\<forall>r. out = Success r \<longrightarrow> isAvailable (ch_cooldown fc) (stableKey c) (ae_now e))"
  using assms after_run_other [of e isLast c as "fc\<lparr>ch_rl := r\<rparr>" fc' out for r]
  by (auto simp: execute_body_def Let_def
      split: if_splits prod.splits gate.splits fallback_outcome.splits)

lemma mark_step_inv:
  "mark_step k now ct ct' b \<Longrightarrow> tracker_inv now ct \<Longrightarrow> tracker_inv now ct'"
  by (auto simp: mark_step_def intro: inv_intros split: if_splits)

lemma mark_step_avail:
  "mark_step k now ct ct' b \<Longrightarrow> tracker_inv now ct \<Longrightarrow> isAvailable ct' q t \<Longrightarrow> isAvailable ct q t"
  by (auto simp: mark_step_def dest: cooldowns.fail_mono split: if_splits)

lemma mark_step_blocks:
  "mark_step k now ct ct' True \<Longrightarrow> tracker_inv now ct \<Longrightarrow> \<not> isAvailable ct' k now"
  by (auto simp: mark_step_def dest: cooldowns.fail_blocks)

section \<open>Runs of the whole loop\<close>

definition apply_marks ::
  "(string \<times> failover_reason \<times> time) list \<Rightarrow> cooldown_tracker \<Rightarrow> cooldown_tracker" where
  "apply_marks marks ct = fold (\<lambda>(k, r, t) ct. markFailure ct k r t) marks ct"

definition retriable_reasons :: "failover_reason set" where
  "retriable_reasons = {FailoverAuth, FailoverRateLimit, FailoverBilling, FailoverTimeout}"

definition marks_of :: "fallback_candidate list \<Rightarrow> (string \<times> failover_reason \<times> time) list \<Rightarrow> bool" where
  "marks_of cs marks \<longleftrightarrow>
     (\<forall>(k, r, t)\<in>set marks. k \<in> stableKey ` set cs \<and> r \<in> retriable_reasons)"

lemma mark_step_marks:
  assumes "mark_step (stableKey c) now ct ct' b" and "c \<in> set cs"
  shows "\<exists>marks. marks_of cs marks \<and> ct' = apply_marks marks ct"
proof (cases b)
  case True
  with assms obtain r where "r \<in> retriable_reasons" "ct' = markFailure ct (stableKey c) r now"
    by (auto simp: mark_step_def retriable_reasons_def)
  with assms(2) show ?thesis
    by (intro exI [of _ "[(stableKey c, r, now)]"]) (simp add: marks_of_def apply_marks_def)
next
  case False
  with assms show ?thesis
    by (intro exI [of _ "[]"]) (simp add: mark_step_def marks_of_def apply_marks_def)
qed

lemma execute_loop_effects:
  assumes "candidate_loop execute_body env i cs as fc = (fc', out)"
  shows "\<exists>marks. marks_of cs marks
    \<and> ch_cooldown fc' =
        (case out of
           Success r \<Rightarrow> markSuccess (apply_marks marks (ch_cooldown fc))
                          (stableKey (cs ! (length (fr_Attempts r) - length as)))
         | _ \<Rightarrow> apply_marks marks (ch_cooldown fc))"
  using assms
proof (induction cs arbitrary: i as fc)
  case Nil
  then show ?case by (auto simp: marks_of_def apply_marks_def intro: exI [of _ "[]"])
next
  case (Cons c cs)
  show ?case
  proof (cases "execute_body (env i) (cs = []) c as fc")
    case (Return fc1 out1)
    with Cons.prems have R: "execute_body (env i) (cs = []) c as fc = Return fc' out" by simp
    show ?thesis
    proof (cases "\<exists>x. out = Failure (Exhausted x)")
      case True
      then obtain x where x: "out = Failure (Exhausted x)" by blast
      from mark_step_marks [OF execute_body_exhausted [OF R [unfolded x]], of "c # cs"] x
      show ?thesis by auto
    next
      case False
      then have "\<forall>x. out \<noteq> Failure (Exhausted x)" by blast
      from execute_body_return [OF R this] exec.success_here [of "env i" "cs = []" c as fc fc'] R
      show ?thesis
        by (intro exI [of _ "[]"])
          (auto simp: marks_of_def apply_marks_def split: fallback_outcome.splits)
    qed
  next
    case (Continue as1 fc1)
    from Cons.prems Continue have rec: "candidate_loop execute_body env (Suc i) cs as1 fc1 = (fc', out)"
      by simp
    from exec.continue_one [OF Continue] have len: "length as1 = Suc (length as)" by auto
    from mark_step_marks [OF execute_body_continue [OF Continue], of "c # cs"] obtain m1
      where m1: "marks_of (c # cs) m1" "ch_cooldown fc1 = apply_marks m1 (ch_cooldown fc)" by auto
    from Cons.IH [OF rec] obtain m2 where m2: "marks_of cs m2"
      and eff: "ch_cooldown fc' = (case out of
           Success r \<Rightarrow> markSuccess (apply_marks m2 (ch_cooldown fc1))
                          (stableKey (cs ! (length (fr_Attempts r) - length as1)))
         | _ \<Rightarrow> apply_marks m2 (ch_cooldown fc1))" by blast
    have "marks_of (c # cs) (m1 @ m2)" using m1(1) m2 by (auto simp: marks_of_def)
    moreover have "apply_marks (m1 @ m2) (ch_cooldown fc) = apply_marks m2 (ch_cooldown fc1)"
      by (simp add: m1(2) apply_marks_def)
    moreover have "length (fr_Attempts r) > length as" if "out = Success r" for r
      using exec.loop_success [of env "Suc i" cs as1 fc1 fc' r] rec that len by auto
    ultimately show ?thesis
      using eff len
      by (intro exI [of _ "m1 @ m2"]) (auto split: fallback_outcome.splits simp: nth_Cons' Suc_diff_le
          diff_Suc split: nat.splits)
  qed
qed

lemma execute_loop_blocks:
  assumes "candidate_loop execute_body env i cs as fc = (fc', Failure (Exhausted (as @ bs)))"
    and "mono (\<lambda>j. ae_markNow (env j))" and "tracker_inv (ae_markNow (env i)) (ch_cooldown fc)"
  shows "(\<forall>k < length cs. \<not> fa_Skipped (bs ! k) \<longrightarrow>
            \<not> isAvailable (ch_cooldown fc') (stableKey (cs ! k)) (ae_markNow (env (i + k))))
    \<and> (\<forall>q t. isAvailable (ch_cooldown fc') q t \<longrightarrow> isAvailable (ch_cooldown fc) q t)"
  using assms(1,3)
proof (induction cs arbitrary: i as bs fc)
  case (Cons c cs)
  show ?case
  proof (cases "execute_body (env i) (cs = []) c as fc")
    case (Return fc1 out1)
    with Cons.prems have R: "execute_body (env i) (cs = []) c as fc = Return fc' (Failure (Exhausted (as @ bs)))"
      by simp
    from exec.exhausted_last [OF R] obtain a where "cs = []" "bs = [a]" by auto
    with execute_body_exhausted [OF R] Cons.prems(2) show ?thesis
      by (auto dest: mark_step_avail mark_step_blocks)
  next
    case (Continue as1 fc1)
    from exec.continue_one [OF Continue] obtain a where a: "as1 = as @ [a]" by blast
    from Cons.prems Continue
    have rec: "candidate_loop execute_body env (Suc i) cs as1 fc1 = (fc', Failure (Exhausted (as @ bs)))"
      by simp
    from exec.loop_exhausted [OF this] a obtain bs' where bs: "bs = a # bs'" by auto
    note step = execute_body_continue [OF Continue]
    have "tracker_inv (ae_markNow (env i)) (ch_cooldown fc1)"
      using mark_step_inv [OF step Cons.prems(2)] .
    then have inv1: "tracker_inv (ae_markNow (env (Suc i))) (ch_cooldown fc1)"
      by (rule tracker_inv_later) (use assms(2) in \<open>simp add: incseq_def\<close>)
    from rec a bs have "candidate_loop execute_body env (Suc i) cs as1 fc1
        = (fc', Failure (Exhausted (as1 @ bs')))" by simp
    note IH = Cons.IH [OF this inv1]
    show ?thesis
    proof (intro conjI allI impI)
      fix q t assume "isAvailable (ch_cooldown fc') q t"
      with IH show "isAvailable (ch_cooldown fc) q t"
        using mark_step_avail [OF step Cons.prems(2)] by blast
    next
      fix k assume k: "k < length (c # cs)" "\<not> fa_Skipped (bs ! k)"
      show "\<not> isAvailable (ch_cooldown fc') (stableKey ((c # cs) ! k)) (ae_markNow (env (i + k)))"
      proof (cases k)
        case 0
        with k bs a step have "mark_step (stableKey c) (ae_markNow (env i)) (ch_cooldown fc) (ch_cooldown fc1) True"
          by simp
        from mark_step_blocks [OF this Cons.prems(2)] IH 0 show ?thesis by auto
      next
        case (Suc j)
        with k bs IH show ?thesis by auto
      qed
    qed
  qed
qed simp

lemma execute_image_body_cooldown:
  "execute_image_body e l c as fc = Continue as' fc' \<Longrightarrow> ch_cooldown fc' = ch_cooldown fc"
  "execute_image_body e l c as fc = Return fc' out \<Longrightarrow> ch_cooldown fc' = ch_cooldown fc
     \<and> (\<forall>fe. out = Failure (NonRetriable fe) \<longrightarrow> fe_Reason fe = FailoverFormat
          \<and> ae_result e = Inl (fe_Wrapped fe))"
  by (auto simp: execute_image_body_def Let_def
      split: if_splits prod.splits gate.splits sum.splits)

lemma image_loop_effects:
  assumes "candidate_loop execute_image_body env i cs as fc = (fc', out)"
  shows "ch_cooldown fc' = ch_cooldown fc
    \<and> (\<forall>fe. out = Failure (NonRetriable fe) \<longrightarrow> fe_Reason fe = FailoverFormat
         \<and> (\<exists>k<length cs. ae_result (env (i + k)) = Inl (fe_Wrapped fe)))"
  using assms
proof (induction cs arbitrary: i as fc)
  case (Cons c cs)
  show ?case
  proof (cases "execute_image_body (env i) (cs = []) c as fc")
    case (Return fc1 out1)
    with Cons.prems execute_image_body_cooldown(2) [OF Return] show ?thesis
      by (auto intro: exI [of _ 0])
  next
    case (Continue as1 fc1)
    with Cons.prems Cons.IH [of "Suc i" as1 fc1] execute_image_body_cooldown(1) [OF Continue]
    show ?thesis by (auto simp: Ex_less_Suc2)
  qed
qed auto

section \<open>Candidate resolution\<close>

definition cand_key :: "fallback_candidate \<Rightarrow> string" where
  "cand_key c = modelKey (fc_Provider c) (fc_Model c)"

definition resolved_ref ::
  "(string \<Rightarrow> string option) option \<Rightarrow> string \<Rightarrow> string \<Rightarrow> model_ref option" where
  "resolved_ref lookup dp raw =
     parseModelRef (case lookup of None \<Rightarrow> trim_space raw
       | Some f \<Rightarrow> (case f (trim_space raw) of Some r \<Rightarrow> r | None \<Rightarrow> trim_space raw)) dp"

definition ref_key :: "model_ref \<Rightarrow> string" where
  "ref_key r = modelKey (mr_Provider r) (mr_Model r)"

text \<open>First occurrences of a list, in order.\<close>

definition firsts :: "'a list \<Rightarrow> 'a list" where
  "firsts xs = rev (remdups (rev xs))"

lemma firsts_snoc: "firsts (xs @ [x]) = (if x \<in> set xs then firsts xs else firsts xs @ [x])"
  by (simp add: firsts_def)

lemma set_firsts [simp]: "set (firsts xs) = set xs"
  by (simp add: firsts_def)

lemma distinct_firsts [simp]: "distinct (firsts xs)"
  by (simp add: firsts_def)

lemma map_filter_snoc:
  "List.map_filter f (xs @ [x]) = List.map_filter f xs @ (case f x of None \<Rightarrow> [] | Some y \<Rightarrow> [y])"
  by (simp add: List.map_filter_def split: option.splits)

lemma resolve_fold:
  assumes "foldl (addCandidate lookup dp) ([], []) raws = (seen, cands)"
  shows "set seen = set (map cand_key cands)
    \<and> map cand_key cands = firsts (map ref_key (List.map_filter (resolved_ref lookup dp) raws))
    \<and> (\<forall>c\<in>set cands. \<exists>raw\<in>set raws. resolved_ref lookup dp raw
          = Some \<lparr>mr_Provider = fc_Provider c, mr_Model = fc_Model c\<rparr>)"
  using assms
proof (induction raws arbitrary: seen cands rule: rev_induct)
  case Nil
  then show ?case by (simp add: firsts_def)
next
  case (snoc raw raws)
  obtain seen0 cands0 where prev: "foldl (addCandidate lookup dp) ([], []) raws = (seen0, cands0)"
    by force
  note IH = snoc.IH [OF prev]
  have keys0: "set seen0 = ref_key ` set (List.map_filter (resolved_ref lookup dp) raws)"
    using IH by (metis set_firsts set_map)
  have add: "addCandidate lookup dp (seen0, cands0) raw =
      (case resolved_ref lookup dp raw of
         None \<Rightarrow> (seen0, cands0)
       | Some ref \<Rightarrow> if ref_key ref \<in> set seen0 then (seen0, cands0)
           else (ref_key ref # seen0, cands0 @ [\<lparr>fc_Provider = mr_Provider ref,
                  fc_Model = mr_Model ref, fc_RPM = 0, fc_IdentityKey = []\<rparr>]))"
    by (simp add: addCandidate_def resolved_ref_def ref_key_def Let_def split: option.splits)
  show ?case
  proof (cases "resolved_ref lookup dp raw")
    case None
    with snoc.prems IH prev add keys0 show ?thesis by (simp add: map_filter_snoc)
  next
    case (Some ref)
    with snoc.prems IH prev add keys0 show ?thesis
      by (auto simp: map_filter_snoc firsts_snoc cand_key_def ref_key_def split: if_splits)
  qed
qed

section \<open>Properties\<close>

text \<open>
  Claim C32. The chain gives up only when nothing is left to try: if \<^verbatim>\<open>Execute\<close> reports that all
  candidates failed, it records exactly one attempt per candidate, in order, each a skip or a
  retriable failure; every provider that was really called and failed is then in cooldown, and
  no provider became available through the failed run.
\<close>

theorem fallback_exhausted:
  assumes "execute fc cs env = (fc', Failure (Exhausted attempts))"
    and "mono (\<lambda>j. ae_markNow (env j))"
    and "reachable_tracker now (ch_cooldown fc)" and "now \<le> ae_markNow (env 0)"
  shows "list_all2 attempt_for cs attempts \<and> list_all execute_attempt_ok attempts
    \<and> (\<forall>k<length cs. \<not> fa_Skipped (attempts ! k) \<longrightarrow>
         \<not> isAvailable (ch_cooldown fc') (stableKey (cs ! k)) (ae_markNow (env k)))
    \<and> (\<forall>q t. isAvailable (ch_cooldown fc') q t \<longrightarrow> isAvailable (ch_cooldown fc) q t)"
proof -
  have run: "candidate_loop execute_body env 0 cs [] fc = (fc', Failure (Exhausted attempts))"
    using assms(1) by (simp add: execute_def split: if_splits)
  have "tracker_inv (ae_markNow (env 0)) (ch_cooldown fc)"
    using reachable_tracker_inv [OF assms(3)] assms(4) by (rule tracker_inv_later)
  with execute_loop_blocks [of env 0 cs "[]" fc fc' attempts] exec.loop_exhausted [OF run] run assms(2)
  show ?thesis by simp
qed

text \<open>
  A success is the first one: \<^verbatim>\<open>Execute\<close> and \<^verbatim>\<open>ExecuteImage\<close> return the response of
  the callback for some candidate, report that candidate's provider and model, list exactly one
  attempt for each candidate before it, and leave it available (\<^verbatim>\<open>Execute\<close> clears its
  cooldown).
\<close>

theorem fallback_success:
  "(execute fc cs env = (fc', Success r) \<longrightarrow>
      (\<exists>k<length cs. ae_result (env k) = Inr (fr_Response r)
         \<and> fr_Provider r = fc_Provider (cs ! k) \<and> fr_Model r = fc_Model (cs ! k)
         \<and> list_all2 attempt_for (take k cs) (fr_Attempts r)
         \<and> list_all execute_attempt_ok (fr_Attempts r)
         \<and> isAvailable (ch_cooldown fc') (stableKey (cs ! k)) t))
   \<and> (executeImage fc cs env = (fc', Success r) \<longrightarrow>
      (\<exists>k<length cs. ae_result (env k) = Inr (fr_Response r)
         \<and> fr_Provider r = fc_Provider (cs ! k) \<and> fr_Model r = fc_Model (cs ! k)
         \<and> list_all2 attempt_for (take k cs) (fr_Attempts r)
         \<and> list_all image_attempt_ok (fr_Attempts r)))"
proof (intro conjI impI)
  assume "execute fc cs env = (fc', Success r)"
  then have run: "candidate_loop execute_body env 0 cs [] fc = (fc', Success r)"
    by (simp add: execute_def split: if_splits)
  from exec.loop_success [OF run] obtain k where k: "k < length cs"
    "ae_result (env k) = Inr (fr_Response r)" "fr_Provider r = fc_Provider (cs ! k)"
    "fr_Model r = fc_Model (cs ! k)" "list_all2 attempt_for (take k cs) (fr_Attempts r)"
    "list_all execute_attempt_ok (fr_Attempts r)" by auto
  then have "length (fr_Attempts r) = k" by (auto dest: list_all2_lengthD)
  with execute_loop_effects [OF run] cooldowns.succ_avail k show
    "\<exists>k<length cs. ae_result (env k) = Inr (fr_Response r)
         \<and> fr_Provider r = fc_Provider (cs ! k) \<and> fr_Model r = fc_Model (cs ! k)
         \<and> list_all2 attempt_for (take k cs) (fr_Attempts r)
         \<and> list_all execute_attempt_ok (fr_Attempts r)
         \<and> isAvailable (ch_cooldown fc') (stableKey (cs ! k)) t"
    by (intro exI [of _ k]) auto
next
  assume "executeImage fc cs env = (fc', Success r)"
  then have run: "candidate_loop execute_image_body env 0 cs [] fc = (fc', Success r)"
    by (simp add: executeImage_def split: if_splits)
  from image.loop_success [OF run] show
    "\<exists>k<length cs. ae_result (env k) = Inr (fr_Response r)
         \<and> fr_Provider r = fc_Provider (cs ! k) \<and> fr_Model r = fc_Model (cs ! k)
         \<and> list_all2 attempt_for (take k cs) (fr_Attempts r)
         \<and> list_all image_attempt_ok (fr_Attempts r)" by auto
qed

text \<open>
  Only retriable failures cost a provider anything: whatever the outcome, the tracker
  after \<^verbatim>\<open>Execute\<close> is the tracker before it with some failures of tried candidates recorded, each
  with one of the reasons auth, rate limit, billing or timeout, followed on success by the
  success of the reported candidate. Format errors, context overflows, unclassified errors and
  cancellations never start a cooldown, and \<^verbatim>\<open>ExecuteImage\<close> never touches the tracker.
\<close>

theorem fallback_cooldown_effects:
  "(execute fc cs env = (fc', out) \<longrightarrow>
     (\<exists>marks. (\<forall>(k, r, t)\<in>set marks. k \<in> stableKey ` set cs
          \<and> r \<in> {FailoverAuth, FailoverRateLimit, FailoverBilling, FailoverTimeout})
        \<and> ch_cooldown fc' =
            (case out of
               Success r \<Rightarrow> markSuccess (apply_marks marks (ch_cooldown fc))
                              (stableKey (cs ! length (fr_Attempts r)))
             | _ \<Rightarrow> apply_marks marks (ch_cooldown fc))))
   \<and> (executeImage fc cs env = (fc'', out) \<longrightarrow> ch_cooldown fc'' = ch_cooldown fc)"
proof (intro conjI impI)
  assume ex: "execute fc cs env = (fc', out)"
  show "\<exists>marks. (\<forall>(k, r, t)\<in>set marks. k \<in> stableKey ` set cs
          \<and> r \<in> {FailoverAuth, FailoverRateLimit, FailoverBilling, FailoverTimeout})
        \<and> ch_cooldown fc' =
            (case out of
               Success r \<Rightarrow> markSuccess (apply_marks marks (ch_cooldown fc))
                              (stableKey (cs ! length (fr_Attempts r)))
             | _ \<Rightarrow> apply_marks marks (ch_cooldown fc))"
  proof (cases "cs = []")
    case True
    with ex show ?thesis
      by (intro exI [of _ "[]"]) (auto simp: execute_def apply_marks_def)
  next
    case False
    with ex have run: "candidate_loop execute_body env 0 cs [] fc = (fc', out)"
      by (simp add: execute_def)
    from execute_loop_effects [OF run] show ?thesis
      unfolding marks_of_def retriable_reasons_def by (simp only: list.size(3) diff_zero)
  qed
next
  assume "executeImage fc cs env = (fc'', out)"
  then show "ch_cooldown fc'' = ch_cooldown fc"
    using image_loop_effects [of env 0 cs "[]" fc fc'' out]
    by (auto simp: executeImage_def split: if_splits)
qed

text \<open>
  Candidate resolution is the deduplicated configuration: the candidates' keys are
  the first occurrences, in order and primary first, of the keys of the references that parse,
  so no two candidates share a key and no parseable model is lost, and each candidate is one of
  the parsed references.
\<close>

theorem resolve_candidates_spec:
  "map cand_key (resolveCandidatesWithLookup cfg dp lookup)
     = firsts (map ref_key (List.map_filter (resolved_ref lookup dp) (mc_Primary cfg # mc_Fallbacks cfg)))
   \<and> distinct (map cand_key (resolveCandidatesWithLookup cfg dp lookup))
   \<and> (\<forall>c\<in>set (resolveCandidatesWithLookup cfg dp lookup). \<exists>raw\<in>set (mc_Primary cfg # mc_Fallbacks cfg).
        resolved_ref lookup dp raw = Some \<lparr>mr_Provider = fc_Provider c, mr_Model = fc_Model c\<rparr>)"
proof -
  obtain seen cands where
    f: "foldl (addCandidate lookup dp) ([], []) (mc_Primary cfg # mc_Fallbacks cfg) = (seen, cands)"
    by force
  have "resolveCandidatesWithLookup cfg dp lookup = cands"
    using f by (simp add: resolveCandidatesWithLookup_def)
  with resolve_fold [OF f] distinct_firsts show ?thesis by metis
qed

section \<open>Witnesses\<close>

text \<open>Two candidates: the first times out, the second answers or fails too.\<close>

definition wit_candidates :: "fallback_candidate list" where
  "wit_candidates = [\<lparr>fc_Provider = ''a'', fc_Model = ''m'', fc_RPM = 0, fc_IdentityKey = ''k1''\<rparr>,
     \<lparr>fc_Provider = ''b'', fc_Model = ''n'', fc_RPM = 0, fc_IdentityKey = ''k2''\<rparr>]"

definition wit_env :: "go_error + nat \<Rightarrow> nat \<Rightarrow> nat attempt_env" where
  "wit_env second_result i =
     \<lparr>ae_cancelledBefore = False, ae_now = 10, ae_rlNow = 10, ae_wait = [], ae_ctxErr = ErrCanceled,
      ae_result = (if i = 0 then Inl ErrDeadlineExceeded else second_result),
      ae_elapsed = 1, ae_cancelledAfter = False, ae_markNow = 10 + int i\<rparr>"

definition wit_chain :: fallback_chain where
  "wit_chain = newFallbackChain newCooldownTracker None"

lemma wit_keys: "stableKey (wit_candidates ! 0) = ''k1''" "stableKey (wit_candidates ! Suc 0) = ''k2''"
  by code_simp+

lemma wit_first:
  "\<exists>as fc. execute_body (wit_env r 0) False (wit_candidates ! 0) [] wit_chain = Continue as fc
     \<and> ch_rl fc = None
     \<and> ch_cooldown fc = markFailure newCooldownTracker ''k1'' FailoverTimeout 10"
  by (simp add: execute_body_def wit_keys wit_chain_def newFallbackChain_def wit_env_def
      rate_gate_def after_run_def classifyError_def isRetriable_def
      isAvailable_def newCooldownTracker_def)

lemma wit_second_available:
  "isAvailable (markFailure newCooldownTracker ''k1'' FailoverTimeout 10) ''k2'' t"
  using cooldowns.fail_frame [of "''k1''" "''k2''"] cooldowns.fresh_avail by simp

lemma wit_second:
  assumes "ch_rl fc = None"
    and "ch_cooldown fc = markFailure newCooldownTracker ''k1'' FailoverTimeout 10"
  shows "\<exists>fc1 as1. execute_body (wit_env (Inl ErrDeadlineExceeded) (Suc 0)) True (wit_candidates ! Suc 0) as fc
      = Return fc1 (Failure (Exhausted as1))"
    and "\<exists>fc1. execute_body (wit_env (Inr 7) (Suc 0)) True (wit_candidates ! Suc 0) as fc
      = Return fc1 (Success \<lparr>fr_Response = 7, fr_Provider = ''b'', fr_Model = ''n'', fr_Attempts = as\<rparr>)"
  using assms wit_second_available
  by (simp_all add: execute_body_def wit_keys rate_gate_def after_run_def classifyError_def
      isRetriable_def wit_env_def)
    (simp add: wit_candidates_def)

lemma wit_runs:
  "\<exists>fc' as. execute wit_chain wit_candidates (wit_env (Inl ErrDeadlineExceeded)) = (fc', Failure (Exhausted as))"
  "\<exists>fc' as. execute wit_chain wit_candidates (wit_env (Inr 7)) =
     (fc', Success \<lparr>fr_Response = 7, fr_Provider = ''b'', fr_Model = ''n'', fr_Attempts = as\<rparr>)"
proof -
  have two: "execute wit_chain wit_candidates env = candidate_loop execute_body env 0
      [wit_candidates ! 0, wit_candidates ! Suc 0] [] wit_chain" for env :: "nat \<Rightarrow> nat attempt_env"
    by (simp add: execute_def wit_candidates_def del: candidate_loop.simps)
  have step: "\<exists>as fc. candidate_loop execute_body (wit_env r) 0 [c0, c1] [] wit_chain
      = (case execute_body (wit_env r (Suc 0)) True c1 as fc of
           Return fc' out \<Rightarrow> (fc', out) | Continue as' fc' \<Rightarrow> (fc', Failure (Exhausted as')))
      \<and> ch_rl fc = None \<and> ch_cooldown fc = markFailure newCooldownTracker ''k1'' FailoverTimeout 10"
    if c0: "c0 = wit_candidates ! 0" for r c0 c1
  proof -
    obtain as fc where "execute_body (wit_env r 0) False c0 [] wit_chain = Continue as fc"
      "ch_rl fc = None" "ch_cooldown fc = markFailure newCooldownTracker ''k1'' FailoverTimeout 10"
      using wit_first [of r] unfolding c0 by blast
    then show ?thesis
      by (intro exI [of _ as] exI [of _ fc]) (simp split: body_result.split)
  qed
  show "\<exists>fc' as. execute wit_chain wit_candidates (wit_env (Inl ErrDeadlineExceeded)) = (fc', Failure (Exhausted as))"
  proof -
    obtain as fc where eq: "candidate_loop execute_body (wit_env (Inl ErrDeadlineExceeded)) 0
        [wit_candidates ! 0, wit_candidates ! Suc 0] [] wit_chain
      = (case execute_body (wit_env (Inl ErrDeadlineExceeded) (Suc 0)) True (wit_candidates ! Suc 0) as fc of
           Return fc' out \<Rightarrow> (fc', out) | Continue as' fc' \<Rightarrow> (fc', Failure (Exhausted as')))"
      and st: "ch_rl fc = None" "ch_cooldown fc = markFailure newCooldownTracker ''k1'' FailoverTimeout 10"
      using step [OF refl, of "Inl ErrDeadlineExceeded" "wit_candidates ! Suc 0"] by blast
    from wit_second(1) [OF st, of as] show ?thesis unfolding two eq by auto
  qed
  show "\<exists>fc' as. execute wit_chain wit_candidates (wit_env (Inr 7)) =
     (fc', Success \<lparr>fr_Response = 7, fr_Provider = ''b'', fr_Model = ''n'', fr_Attempts = as\<rparr>)"
  proof -
    obtain as fc where eq: "candidate_loop execute_body (wit_env (Inr 7)) 0
        [wit_candidates ! 0, wit_candidates ! Suc 0] [] wit_chain
      = (case execute_body (wit_env (Inr 7) (Suc 0)) True (wit_candidates ! Suc 0) as fc of
           Return fc' out \<Rightarrow> (fc', out) | Continue as' fc' \<Rightarrow> (fc', Failure (Exhausted as')))"
      and st: "ch_rl fc = None" "ch_cooldown fc = markFailure newCooldownTracker ''k1'' FailoverTimeout 10"
      using step [OF refl, of "Inr 7" "wit_candidates ! Suc 0"] by blast
    from wit_second(2) [OF st, of as] show ?thesis unfolding two eq by auto
  qed
qed

lemma wit_clock: "mono (\<lambda>j. ae_markNow (wit_env r j))"
  by (simp add: wit_env_def mono_def)

theorem fallback_exhausted_witness:
  "\<exists>fc' attempts. execute wit_chain wit_candidates (wit_env (Inl ErrDeadlineExceeded))
      = (fc', Failure (Exhausted attempts))
    \<and> list_all2 attempt_for wit_candidates attempts \<and> list_all execute_attempt_ok attempts"
proof -
  obtain fc' attempts where
    run: "execute wit_chain wit_candidates (wit_env (Inl ErrDeadlineExceeded)) = (fc', Failure (Exhausted attempts))"
    using wit_runs(1) by blast
  have "reachable_tracker 10 (ch_cooldown wit_chain)"
    by (simp add: wit_chain_def newFallbackChain_def rt_new)
  from fallback_exhausted [OF run wit_clock this] run show ?thesis
    by (auto simp: wit_env_def)
qed

theorem fallback_success_witness:
  "\<exists>fc' r. execute wit_chain wit_candidates (wit_env (Inr 7)) = (fc', Success r)
     \<and> (\<exists>k<length wit_candidates. fr_Provider r = fc_Provider (wit_candidates ! k))"
proof -
  obtain fc' as where
    run: "execute wit_chain wit_candidates (wit_env (Inr 7)) =
       (fc', Success \<lparr>fr_Response = 7, fr_Provider = ''b'', fr_Model = ''n'', fr_Attempts = as\<rparr>)"
    using wit_runs(2) by blast
  then show ?thesis using fallback_success [of wit_chain wit_candidates "wit_env (Inr 7)" fc'] by blast
qed

theorem fallback_cooldown_effects_witness:
  "\<exists>fc' r marks. execute wit_chain wit_candidates (wit_env (Inr 7)) = (fc', Success r)
     \<and> ch_cooldown fc' = markSuccess (apply_marks marks (ch_cooldown wit_chain))
         (stableKey (wit_candidates ! length (fr_Attempts r)))"
proof -
  obtain fc' as where
    run: "execute wit_chain wit_candidates (wit_env (Inr 7)) =
       (fc', Success \<lparr>fr_Response = 7, fr_Provider = ''b'', fr_Model = ''n'', fr_Attempts = as\<rparr>)"
    using wit_runs(2) by blast
  with fallback_cooldown_effects [of wit_chain wit_candidates "wit_env (Inr 7)" fc'
      "Success \<lparr>fr_Response = 7, fr_Provider = ''b'', fr_Model = ''n'', fr_Attempts = as\<rparr>"]
  show ?thesis by auto
qed

definition wit_models :: model_config where
  "wit_models = \<lparr>mc_Primary = ''a/m'', mc_Fallbacks = ['' a/m'', ''b/n'']\<rparr>"

lemma wit_models_keys:
  "firsts (map ref_key (List.map_filter (resolved_ref None ''p'') (mc_Primary wit_models # mc_Fallbacks wit_models)))
     = [''a/m'', ''b/n'']"
  by code_simp

theorem resolve_candidates_spec_witness:
  "map cand_key (resolveCandidatesWithLookup wit_models ''p'' None) = [''a/m'', ''b/n'']"
  using resolve_candidates_spec [of wit_models "''p''" None] wit_models_keys by simp

end
