(* ===== verification/AgentId.thy ===== *)
theory AgentId
  imports Ebi_Prelude
begin

text \<open>
  \<^verbatim>\<open>pkg/routing/agent_id.go\<close>: normal forms of agent and account identifiers. The four regular
  expressions of the file are written as the functions they denote: full match of
  \<^verbatim>\<open>[a-z0-9][a-z0-9_-]{0,63}\<close>, replacement of every maximal run of other characters by one
  dash, removal of leading and of trailing dashes.
\<close>

section \<open>Definitions\<close>

definition defaultAgentID :: string where "defaultAgentID = ''main''"
definition defaultMainKey :: string where "defaultMainKey = ''main''"
definition defaultAccountID :: string where "defaultAccountID = ''default''"
definition maxAgentIDLength :: nat where "maxAgentIDLength = 64"

definition id_start :: "char \<Rightarrow> bool" where
  "id_start c \<longleftrightarrow> (let n = (of_char c :: nat) in (97 \<le> n \<and> n \<le> 122) \<or> (48 \<le> n \<and> n \<le> 57))"

definition id_char :: "char \<Rightarrow> bool" where
  "id_char c \<longleftrightarrow> id_start c \<or> c = CHR ''_'' \<or> c = CHR ''-''"

definition validID :: "string \<Rightarrow> bool" where
  "validID s \<longleftrightarrow> s \<noteq> [] \<and> id_start (hd s) \<and> list_all id_char s \<and> length s \<le> 64"

function collapse_invalid :: "string \<Rightarrow> string" where
  "collapse_invalid [] = []"
| "collapse_invalid (c # s) =
     (if id_char c then c # collapse_invalid s
      else CHR ''-'' # collapse_invalid (dropWhile (\<lambda>d. \<not> id_char d) s))"
  by pat_completeness auto
termination
  by (relation "measure length") (auto simp: less_Suc_eq_le length_dropWhile_le)

definition strip_leading_dashes :: "string \<Rightarrow> string" where
  "strip_leading_dashes s = dropWhile (\<lambda>c. c = CHR ''-'') s"

definition strip_trailing_dashes :: "string \<Rightarrow> string" where
  "strip_trailing_dashes s = rev (dropWhile (\<lambda>c. c = CHR ''-'') (rev s))"

text \<open>The common body of the two normalisers, with the default for an empty result.\<close>

definition normalize_id :: "string \<Rightarrow> string \<Rightarrow> string" where
  "normalize_id dflt i =
     (let trimmed = trim_space i
      in if trimmed = [] then dflt
         else
           let lower = to_lower trimmed
           in if validID lower then lower
              else
                let r1 = collapse_invalid lower;
                    r2 = strip_leading_dashes r1;
                    r3 = strip_trailing_dashes r2;
                    r4 = (if length r3 > maxAgentIDLength then take maxAgentIDLength r3 else r3)
                in if r4 = [] then dflt else r4)"

definition normalizeAgentID :: "string \<Rightarrow> string" where
  "normalizeAgentID i = normalize_id defaultAgentID i"

definition normalizeAccountID :: "string \<Rightarrow> string" where
  "normalizeAccountID i = normalize_id defaultAccountID i"

section \<open>The normal form\<close>

text \<open>
  What the functions really guarantee: a non-empty identifier of at most 64 characters of the
  class, not starting with a dash.
\<close>

definition normal_id :: "string \<Rightarrow> bool" where
  "normal_id s \<longleftrightarrow> s \<noteq> [] \<and> hd s \<noteq> CHR ''-'' \<and> list_all id_char s \<and> length s \<le> 64"

lemma id_start_not_dash: "id_start c \<Longrightarrow> c \<noteq> CHR ''-''"
  by (auto simp: id_start_def)

lemma validID_normal: "validID s \<Longrightarrow> normal_id s"
  by (auto simp: validID_def normal_id_def dest: id_start_not_dash)

lemma collapse_chars: "list_all id_char (collapse_invalid s)"
  by (induction s rule: collapse_invalid.induct) (auto simp: id_char_def)

lemma strip_leading_props:
  "list_all id_char s \<Longrightarrow> list_all id_char (strip_leading_dashes s)"
  "strip_leading_dashes s = [] \<or> hd (strip_leading_dashes s) \<noteq> CHR ''-''"
proof -
  show "list_all id_char s \<Longrightarrow> list_all id_char (strip_leading_dashes s)"
    by (auto simp: strip_leading_dashes_def list_all_iff dest: set_dropWhileD)
  show "strip_leading_dashes s = [] \<or> hd (strip_leading_dashes s) \<noteq> CHR ''-''"
    unfolding strip_leading_dashes_def
    by (metis (mono_tags, lifting) hd_dropWhile)
qed

lemma strip_trailing_prefix: "prefix (strip_trailing_dashes s) s"
proof -
  have "suffix (dropWhile (\<lambda>c. c = CHR ''-'') (rev s)) (rev s)" by (rule suffix_dropWhile)
  then show ?thesis by (simp add: strip_trailing_dashes_def suffix_to_prefix)
qed

lemma prefix_props:
  assumes "prefix p s" and "list_all id_char s" and "s = [] \<or> hd s \<noteq> CHR ''-''"
  shows "list_all id_char p" "p = [] \<or> hd p \<noteq> CHR ''-''"
  using assms by (auto simp: prefix_def hd_append split: if_splits)

lemma normalize_id_normal:
  assumes "normal_id d" shows "normal_id (normalize_id d i)"
proof -
  define lower where "lower = to_lower (trim_space i)"
  define r2 where "r2 = strip_leading_dashes (collapse_invalid lower)"
  define r3 where "r3 = strip_trailing_dashes r2"
  have r2: "list_all id_char r2" "r2 = [] \<or> hd r2 \<noteq> CHR ''-''"
    using strip_leading_props [of "collapse_invalid lower"] collapse_chars by (simp_all add: r2_def)
  have r3: "list_all id_char r3" "r3 = [] \<or> hd r3 \<noteq> CHR ''-''"
    using prefix_props [OF strip_trailing_prefix r2] by (simp_all add: r3_def)
  have r4: "list_all id_char (take n r3)" "take n r3 = [] \<or> hd (take n r3) \<noteq> CHR ''-''" for n
    using prefix_props [OF take_is_prefix r3] by simp_all
  have "normal_id r" if "r = r3 \<or> r = take 64 r3" "r \<noteq> []" "length r \<le> 64" for r
    using that r3 r4 [of 64] unfolding normal_id_def by metis
  then show ?thesis
    unfolding normalize_id_def Let_def lower_def [symmetric] r2_def [symmetric] r3_def [symmetric]
    using assms validID_normal [of lower] by (simp add: maxAgentIDLength_def)
qed

lemma normal_agent: "normal_id (normalizeAgentID i)"
  unfolding normalizeAgentID_def
  by (rule normalize_id_normal) (simp add: normal_id_def defaultAgentID_def id_char_def id_start_def)

lemma normal_account: "normal_id (normalizeAccountID i)"
  unfolding normalizeAccountID_def
  by (rule normalize_id_normal) (simp add: normal_id_def defaultAccountID_def id_char_def id_start_def)

lemma normal_valid_iff: "normal_id s \<Longrightarrow> validID s \<longleftrightarrow> hd s \<noteq> CHR ''_''"
  by (cases s) (auto simp: normal_id_def validID_def id_char_def id_start_def)

lemma id_char_code:
  "id_char c \<Longrightarrow> (97 \<le> (of_char c :: nat) \<and> (of_char c :: nat) \<le> 122)
     \<or> (48 \<le> (of_char c :: nat) \<and> (of_char c :: nat) \<le> 57) \<or> (of_char c :: nat) \<in> {95, 45}"
  by (auto simp: id_char_def id_start_def Let_def)

lemma id_char_facts:
  assumes "id_char c"
  shows "\<not> is_space c" "lower_char c = c" "c \<noteq> CHR '':''"
  using id_char_code [OF assms] by (auto simp: is_space_code intro: lower_char_id)

lemma id_chars_clean:
  assumes "list_all id_char s"
  shows "trim_space s = s" "to_lower s = s" "CHR '':'' \<notin> set s"
proof -
  show "trim_space s = s"
    using assms id_char_facts by (intro trim_space_no_blank) (auto simp: list_all_iff)
  show "to_lower s = s"
    using assms id_char_facts by (auto simp: to_lower_def list_all_iff intro: map_idI)
  show "CHR '':'' \<notin> set s"
    using assms id_char_facts by (auto simp: list_all_iff)
qed

lemma normal_clean:
  assumes "normal_id s"
  shows "trim_space s = s" "to_lower s = s" "CHR '':'' \<notin> set s" "s \<noteq> []"
  using id_chars_clean assms by (auto simp: normal_id_def)

lemma normalize_id_valid: "validID s \<Longrightarrow> normalize_id d s = s"
  using normal_clean [OF validID_normal, of s] by (simp add: normalize_id_def validID_def)

lemma normalizeAgentID_valid: "validID s \<Longrightarrow> normalizeAgentID s = s"
  by (simp add: normalizeAgentID_def normalize_id_valid)

lemma normalizeAccountID_valid: "validID s \<Longrightarrow> normalizeAccountID s = s"
  by (simp add: normalizeAccountID_def normalize_id_valid)

text \<open>A second normalisation can only cut characters off the end: a normal form that is not a
  valid identifier starts with an underscore and is stripped of trailing dashes.\<close>

lemma collapse_id: "list_all id_char s \<Longrightarrow> collapse_invalid s = s"
  by (induction s rule: collapse_invalid.induct) auto

lemma strip_leading_id: "s = [] \<or> hd s \<noteq> CHR ''-'' \<Longrightarrow> strip_leading_dashes s = s"
  by (cases s) (auto simp: strip_leading_dashes_def)

lemma strip_trailing_ne:
  assumes "s \<noteq> []" "hd s \<noteq> CHR ''-''" shows "strip_trailing_dashes s \<noteq> []"
proof -
  have "\<exists>x\<in>set s. x \<noteq> CHR ''-''" using assms by (intro bexI [of _ "hd s"]) auto
  then show ?thesis by (simp add: strip_trailing_dashes_def dropWhile_eq_Nil_conv)
qed

lemma normalize_id_again:
  assumes "normal_id s"
  shows "normalize_id d s = (if hd s = CHR ''_'' then strip_trailing_dashes s else s)"
proof (cases "hd s = CHR ''_''")
  case False
  then show ?thesis using normal_valid_iff [OF assms] normalize_id_valid by simp
next
  case True
  then have nv: "\<not> validID s" using normal_valid_iff [OF assms] by simp
  have chars: "list_all id_char s" "s \<noteq> []" "hd s \<noteq> CHR ''-''" "length s \<le> 64"
    using assms by (auto simp: normal_id_def)
  have "length (strip_trailing_dashes s) \<le> 64"
    using strip_trailing_prefix [of s] chars(4) prefix_length_le by fastforce
  with chars nv True strip_trailing_ne [of s] show ?thesis
    using normal_clean [OF assms]
    by (simp add: normalize_id_def Let_def collapse_id strip_leading_id maxAgentIDLength_def)
qed

lemma strip_trailing_idem: "strip_trailing_dashes (strip_trailing_dashes s) = strip_trailing_dashes s"
  by (simp add: strip_trailing_dashes_def)

lemma normalize_stable:
  "normalizeAgentID (normalizeAgentID (normalizeAgentID i)) = normalizeAgentID (normalizeAgentID i)"
proof -
  have again: "normalizeAgentID r = (if hd r = CHR ''_'' then strip_trailing_dashes r else r)"
    if "normal_id r" for r
    using normalize_id_again [OF that] by (simp add: normalizeAgentID_def)
  show ?thesis
    using again [OF normal_agent [of i]] again [OF normal_agent [of "normalizeAgentID i"]]
      strip_trailing_idem [of "normalizeAgentID i"] by (auto split: if_splits)
qed

section \<open>Properties\<close>

text \<open>The normaliser of agent ids always returns a usable session-key component: at least
  one and at most 64 characters of \<open>[a-z0-9_-]\<close>, not starting with a dash, without a colon, a
  blank or an upper-case letter. It is the identity on valid ids, ignores surrounding blanks and
  letter case, and its result is a valid id except when it starts with an underscore (which the
  function's comment rules out). Normalising twice gives a fixed point, and changes the result of
  the first pass only by stripping trailing dashes of an id that starts with an underscore.\<close>

theorem agent_id_normal_form:
  "(let r = normalizeAgentID i
    in r \<noteq> [] \<and> length r \<le> 64 \<and> list_all id_char r \<and> hd r \<noteq> CHR ''-''
       \<and> CHR '':'' \<notin> set r \<and> trim_space r = r \<and> to_lower r = r
       \<and> (validID i \<longrightarrow> r = i)
       \<and> normalizeAgentID (trim_space i) = r \<and> normalizeAgentID (to_lower i) = r
       \<and> (validID r \<longleftrightarrow> hd r \<noteq> CHR ''_'')
       \<and> normalizeAgentID r = (if hd r = CHR ''_'' then strip_trailing_dashes r else r)
       \<and> normalizeAgentID (normalizeAgentID r) = normalizeAgentID r)"
proof -
  define r where "r = normalizeAgentID i"
  have nr: "normal_id r" by (simp add: r_def normal_agent)
  have lo: "normalizeAgentID (to_lower i) = r"
    by (simp add: r_def normalizeAgentID_def normalize_id_def trim_space_lower)
  have tr: "normalizeAgentID (trim_space i) = r"
    by (simp add: r_def normalizeAgentID_def normalize_id_def)
  have again: "normalizeAgentID r = (if hd r = CHR ''_'' then strip_trailing_dashes r else r)"
    using normalize_id_again [OF nr] by (simp add: normalizeAgentID_def)
  have fix2: "normalizeAgentID (normalizeAgentID r) = normalizeAgentID r"
    by (simp add: r_def normalize_stable)
  show ?thesis
    unfolding Let_def r_def [symmetric]
    using nr normal_clean [OF nr] lo tr again fix2 normal_valid_iff [OF nr] normalizeAgentID_valid [of i]
    by (simp add: normal_id_def r_def [symmetric])
qed

theorem agent_id_normal_form_witness:
  "normalizeAgentID ''_ops bot'' = ''_ops-bot'' \<and> validID ''ops'' \<and> normalizeAgentID ''ops'' = ''ops''"
  using agent_id_normal_form [of "''ops''"] by code_simp

end
