(* ===== verification/SessionKey.thy ===== *)
theory SessionKey
  imports AgentId
begin

text \<open>
  \<^verbatim>\<open>pkg/routing/session_key.go\<close>: the keys under which conversations are stored. A Go map of
  identity links is an association list, whose order stands for the iteration order of the map:
  the code ranges over it, so its result may depend on that order, and a theorem that holds for
  every list holds for every iteration order.
\<close>

section \<open>Definitions\<close>

datatype dm_scope = DMScopeMain | DMScopePerPeer | DMScopePerChannelPeer
  | DMScopePerAccountChannelPeer | DMScopeEmpty | DMScopeOther string

record route_peer =
  peer_Kind :: string
  peer_ID :: string

type_synonym identity_links = "(string \<times> string list) list"

record session_key_params =
  skp_AgentID :: string
  skp_Channel :: string
  skp_AccountID :: string
  skp_Peer :: "route_peer option"
  skp_DMScope :: dm_scope
  skp_IdentityLinks :: identity_links

record parsed_session_key =
  psk_AgentID :: string
  psk_Rest :: string

definition buildAgentMainSessionKey :: "string \<Rightarrow> string" where
  "buildAgentMainSessionKey agentID =
     ''agent:'' @ normalizeAgentID agentID @ '':'' @ defaultMainKey"

definition normalizeChannel :: "string \<Rightarrow> string" where
  "normalizeChannel channel =
     (let c = trim_space (to_lower channel) in if c = [] then ''unknown'' else c)"

definition link_candidates :: "string \<Rightarrow> string \<Rightarrow> string list" where
  "link_candidates channel peerID =
     (let rawCandidate = to_lower peerID;
          ch = to_lower (trim_space channel);
          c1 = (if rawCandidate \<noteq> [] then [rawCandidate] else []);
          c2 = (if ch \<noteq> [] then [ch @ '':'' @ to_lower peerID] else []);
          c3 = (case index_char CHR '':'' rawCandidate of
                  None \<Rightarrow> []
                | Some idx \<Rightarrow> if idx > 0 \<and> idx < length rawCandidate - 1
                              then [drop (idx + 1) rawCandidate] else [])
      in c1 @ c2 @ c3)"

fun find_link :: "string list \<Rightarrow> identity_links \<Rightarrow> string" where
  "find_link candidates [] = []"
| "find_link candidates ((canonical, ids) # links) =
     (let canonicalName = trim_space canonical
      in if canonicalName = [] then find_link candidates links
         else if list_ex (\<lambda>i. let normalized = to_lower (trim_space i)
                              in normalized \<noteq> [] \<and> normalized \<in> set candidates) ids
              then canonicalName
              else find_link candidates links)"

definition resolveLinkedPeerID :: "identity_links \<Rightarrow> string \<Rightarrow> string \<Rightarrow> string" where
  "resolveLinkedPeerID identityLinks channel peerID =
     (if identityLinks = [] then []
      else
        let p = trim_space peerID
        in if p = [] then []
           else
             let candidates = link_candidates channel p
             in if candidates = [] then [] else find_link candidates identityLinks)"

definition buildAgentPeerSessionKey :: "session_key_params \<Rightarrow> string" where
  "buildAgentPeerSessionKey params =
     (let agentID = normalizeAgentID (skp_AgentID params);
          peer = (case skp_Peer params of
                    None \<Rightarrow> \<lparr>peer_Kind = ''direct'', peer_ID = []\<rparr>
                  | Some p \<Rightarrow> p);
          kind0 = trim_space (peer_Kind peer);
          peerKind = (if kind0 = [] then ''direct'' else kind0)
      in if peerKind = ''direct'' then
           let dmScope = (if skp_DMScope params = DMScopeEmpty then DMScopeMain
                          else skp_DMScope params);
               id0 = trim_space (peer_ID peer);
               id1 = (if dmScope \<noteq> DMScopeMain \<and> id0 \<noteq> [] then
                        let linked = resolveLinkedPeerID (skp_IdentityLinks params)
                                       (skp_Channel params) id0
                        in if linked \<noteq> [] then linked else id0
                      else id0);
               peerID = to_lower id1
           in if dmScope = DMScopePerAccountChannelPeer \<and> peerID \<noteq> [] then
                let channel = normalizeChannel (skp_Channel params);
                    accountID = normalizeAccountID (skp_AccountID params)
                in ''agent:'' @ agentID @ '':'' @ channel @ '':'' @ accountID @ '':direct:'' @ peerID
              else if dmScope = DMScopePerChannelPeer \<and> peerID \<noteq> [] then
                let channel = normalizeChannel (skp_Channel params)
                in ''agent:'' @ agentID @ '':'' @ channel @ '':direct:'' @ peerID
              else if dmScope = DMScopePerPeer \<and> peerID \<noteq> [] then
                ''agent:'' @ agentID @ '':direct:'' @ peerID
              else buildAgentMainSessionKey agentID
         else
           let channel = normalizeChannel (skp_Channel params);
               id0 = to_lower (trim_space (peer_ID peer));
               peerID = (if id0 = [] then ''unknown'' else id0)
           in ''agent:'' @ agentID @ '':'' @ channel @ '':'' @ peerKind @ '':'' @ peerID)"

definition parseAgentSessionKey :: "string \<Rightarrow> parsed_session_key option" where
  "parseAgentSessionKey sessionKey =
     (let raw = trim_space sessionKey
      in if raw = [] then None
         else
           let parts = splitn 3 CHR '':'' raw
           in if length parts < 3 then None
              else if parts ! 0 \<noteq> ''agent'' then None
              else
                let agentID = trim_space (parts ! 1);
                    rest = parts ! 2
                in if agentID = [] \<or> rest = [] then None
                   else Some \<lparr>psk_AgentID = agentID, psk_Rest = rest\<rparr>)"

definition isSubagentSessionKey :: "string \<Rightarrow> bool" where
  "isSubagentSessionKey sessionKey =
     (let raw = trim_space sessionKey
      in if raw = [] then False
         else if prefix ''subagent:'' (to_lower raw) then True
         else case parseAgentSessionKey raw of
                None \<Rightarrow> False
              | Some parsed \<Rightarrow> prefix ''subagent:'' (to_lower (psk_Rest parsed)))"

section \<open>Lemmas\<close>

text \<open>Every key the builders return is \<open>agent:<id>:<rest>\<close> with a clean id, a non-empty rest and
  no blank at its ends.\<close>

lemma splitn3_agent:
  assumes "CHR '':'' \<notin> set a"
  shows "splitn 3 CHR '':'' (''agent:'' @ a @ '':'' @ r) = [''agent'', a, r]"
proof -
  have i1: "index_char CHR '':'' (''agent'' @ CHR '':'' # (a @ CHR '':'' # r)) = Some 5"
    by (subst index_char_append) auto
  have i2: "index_char CHR '':'' (a @ CHR '':'' # r) = Some (length a)"
    using assms by (rule index_char_append)
  have three: "splitn 3 = splitn (Suc (Suc (Suc 0)))" by (simp add: numeral_3_eq_3)
  show ?thesis using i1 i2 by (simp add: three)
qed

lemma parse_agent_key:
  assumes "list_all id_char a" "a \<noteq> []" "r \<noteq> []" "\<not> is_space (last r)"
  shows "parseAgentSessionKey (''agent:'' @ a @ '':'' @ r) = Some \<lparr>psk_AgentID = a, psk_Rest = r\<rparr>"
proof -
  have "trim_space (''agent:'' @ a @ '':'' @ r) = ''agent:'' @ a @ '':'' @ r"
    by (rule trim_space_id) (use assms in \<open>auto simp: is_space_def\<close>)
  then show ?thesis
    using assms id_chars_clean [of a] splitn3_agent [of a r]
    by (simp add: parseAgentSessionKey_def Let_def)
qed

lemma last_to_lower: "s \<noteq> [] \<Longrightarrow> last (to_lower s) = lower_char (last s)"
  by (simp add: to_lower_def last_map)

lemma trimmed_last: "trim_space s = s \<Longrightarrow> s \<noteq> [] \<Longrightarrow> \<not> is_space (last s)"
  by (rule trim_space_ends)

lemma normalizeChannel_ne: "normalizeChannel c \<noteq> []"
  by (simp add: normalizeChannel_def Let_def)

lemma find_link_trimmed: "trim_space (find_link cs links) = find_link cs links"
  by (induction cs links rule: find_link.induct) (auto simp: Let_def)

lemma resolve_trimmed:
  "trim_space (resolveLinkedPeerID links ch p) = resolveLinkedPeerID links ch p"
  by (simp add: resolveLinkedPeerID_def Let_def find_link_trimmed)

text \<open>The identifier a direct peer is stored under.\<close>

definition direct_id :: "identity_links \<Rightarrow> string \<Rightarrow> string \<Rightarrow> string" where
  "direct_id links channel i =
     (let id0 = trim_space i;
          linked = resolveLinkedPeerID links channel id0
      in to_lower (if id0 \<noteq> [] \<and> linked \<noteq> [] then linked else id0))"

lemma direct_id_last: "direct_id links ch i \<noteq> [] \<Longrightarrow> \<not> is_space (last (direct_id links ch i))"
proof -
  define x where "x = (if trim_space i \<noteq> [] \<and> resolveLinkedPeerID links ch (trim_space i) \<noteq> []
     then resolveLinkedPeerID links ch (trim_space i) else trim_space i)"
  have tx: "trim_space x = x" by (simp add: x_def resolve_trimmed)
  assume "direct_id links ch i \<noteq> []"
  then have "x \<noteq> []" by (simp add: direct_id_def x_def Let_def split: if_splits)
  with trimmed_last [OF tx] show ?thesis
    by (simp add: direct_id_def Let_def x_def [symmetric] last_to_lower)
qed

definition peer_is_direct :: "route_peer option \<Rightarrow> bool" where
  "peer_is_direct p \<longleftrightarrow>
     (case p of None \<Rightarrow> True | Some q \<Rightarrow> trim_space (peer_Kind q) \<in> {[], ''direct''})"

definition opt_peer_id :: "route_peer option \<Rightarrow> string" where
  "opt_peer_id p = (case p of None \<Rightarrow> [] | Some q \<Rightarrow> peer_ID q)"

text \<open>The part of the key after the agent id.\<close>

definition key_rest :: "session_key_params \<Rightarrow> string" where
  "key_rest params =
     (if peer_is_direct (skp_Peer params) then
        let p = direct_id (skp_IdentityLinks params) (skp_Channel params)
                  (opt_peer_id (skp_Peer params))
        in if p = [] then ''main''
           else (case skp_DMScope params of
                   DMScopePerAccountChannelPeer \<Rightarrow>
                     normalizeChannel (skp_Channel params) @ '':''
                     @ normalizeAccountID (skp_AccountID params) @ '':direct:'' @ p
                 | DMScopePerChannelPeer \<Rightarrow>
                     normalizeChannel (skp_Channel params) @ '':direct:'' @ p
                 | DMScopePerPeer \<Rightarrow> ''direct:'' @ p
                 | _ \<Rightarrow> ''main'')
      else
        let i = to_lower (trim_space (opt_peer_id (skp_Peer params)))
        in normalizeChannel (skp_Channel params) @ '':''
           @ trim_space (peer_Kind (the (skp_Peer params))) @ '':''
           @ (if i = [] then ''unknown'' else i))"

definition agent_twice :: "session_key_params \<Rightarrow> string" where
  "agent_twice params =
     (if key_rest params = ''main'' then normalizeAgentID (normalizeAgentID (skp_AgentID params))
      else normalizeAgentID (skp_AgentID params))"

lemma key_rest_ne: "key_rest params \<noteq> []" "\<not> is_space (last (key_rest params))"
proof -
  have sp: "\<not> is_space (last (to_lower (trim_space i)))" if "trim_space i \<noteq> []" for i
    using that trimmed_last [of "trim_space i"] by (simp add: last_to_lower)
  have ns: "\<not> is_space CHR ''n''" by (simp add: is_space_def)
  have dl: "\<not> is_space (last (direct_id a b c))" if "direct_id a b c \<noteq> []" for a b c
    using that by (rule direct_id_last)
  show "key_rest params \<noteq> []" "\<not> is_space (last (key_rest params))"
    using sp ns dl
    by (auto simp: key_rest_def Let_def split: dm_scope.splits)
qed

lemma colon_not_main: "CHR '':'' \<in> set s \<Longrightarrow> s \<noteq> ''main''"
  by auto

lemma peer_key_shape:
  "buildAgentPeerSessionKey params = ''agent:'' @ agent_twice params @ '':'' @ key_rest params"
proof -
  have nm: "a @ CHR '':'' # b \<noteq> ''main''" for a b :: string by (rule colon_not_main) simp
  have nd: "direct_id links ch [] = []" for links ch by (simp add: direct_id_def Let_def)
  have td: "trim_space ''direct'' = ''direct''" by code_simp
  show ?thesis
  proof (cases "skp_Peer params")
    case None
    then show ?thesis
      by (cases "skp_DMScope params")
         (simp_all add: buildAgentPeerSessionKey_def agent_twice_def key_rest_def peer_is_direct_def
            opt_peer_id_def Let_def nd td buildAgentMainSessionKey_def defaultMainKey_def)
  next
    case (Some q)
    show ?thesis
    proof (cases "peer_is_direct (Some q)")
      case True
      then have k: "(if trim_space (peer_Kind q) = [] then ''direct'' else trim_space (peer_Kind q)) = ''direct''"
        by (auto simp: peer_is_direct_def)
      show ?thesis
        using Some True k
        by (cases "skp_DMScope params")
           (simp_all add: buildAgentPeerSessionKey_def agent_twice_def key_rest_def
              opt_peer_id_def Let_def direct_id_def buildAgentMainSessionKey_def defaultMainKey_def nm)
    next
      case False
      then have k: "(if trim_space (peer_Kind q) = [] then ''direct'' else trim_space (peer_Kind q))
          = trim_space (peer_Kind q)" "trim_space (peer_Kind q) \<noteq> ''direct''"
        by (auto simp: peer_is_direct_def)
      show ?thesis
        using Some False k
        by (simp add: buildAgentPeerSessionKey_def agent_twice_def key_rest_def
              opt_peer_id_def Let_def nm)
    qed
  qed
qed

lemma agent_twice_normal: "normal_id (agent_twice params)"
  by (simp add: agent_twice_def normal_agent)

lemma sep_append_inj:
  "c \<notin> set a \<Longrightarrow> c \<notin> set b \<Longrightarrow> a @ c # x = b @ c # y \<longleftrightarrow> a = b \<and> x = y"
proof (induction a arbitrary: b)
  case Nil
  then show ?case by (cases b) auto
next
  case (Cons h a)
  then show ?case by (cases b) auto
qed

lemma normal_no_colon: "CHR '':'' \<notin> set (normalizeAgentID i)" "CHR '':'' \<notin> set (normalizeAccountID i)"
  using normal_clean [OF normal_agent [of i]] normal_clean [OF normal_account [of i]] by simp_all

lemma normalizeChannel_no_colon: "CHR '':'' \<notin> set c \<Longrightarrow> CHR '':'' \<notin> set (normalizeChannel c)"
  using set_trim_space [of "to_lower c"] mem_to_lower [of "CHR '':''" c]
  by (auto simp: normalizeChannel_def Let_def)

section \<open>Properties\<close>

lemma session_key_roundtrip_facts:
  "parseAgentSessionKey (buildAgentPeerSessionKey params)
     = Some \<lparr>psk_AgentID = agent_twice params, psk_Rest = key_rest params\<rparr>"
  "parseAgentSessionKey (buildAgentMainSessionKey agentID)
     = Some \<lparr>psk_AgentID = normalizeAgentID agentID, psk_Rest = ''main''\<rparr>"
  "isSubagentSessionKey (buildAgentPeerSessionKey params)
     = prefix ''subagent:'' (to_lower (key_rest params))"
  "\<not> isSubagentSessionKey (buildAgentMainSessionKey agentID)"
proof -
  have na: "list_all id_char (agent_twice params)" "agent_twice params \<noteq> []"
    "list_all id_char (normalizeAgentID agentID)" "normalizeAgentID agentID \<noteq> []"
    using agent_twice_normal normal_agent by (simp_all add: normal_id_def)
  have ns: "\<not> is_space CHR ''n''" by (simp add: is_space_def)
  show p1: "parseAgentSessionKey (buildAgentPeerSessionKey params)
     = Some \<lparr>psk_AgentID = agent_twice params, psk_Rest = key_rest params\<rparr>"
    unfolding peer_key_shape using na key_rest_ne by (intro parse_agent_key)
  show p2: "parseAgentSessionKey (buildAgentMainSessionKey agentID)
     = Some \<lparr>psk_AgentID = normalizeAgentID agentID, psk_Rest = ''main''\<rparr>"
    unfolding buildAgentMainSessionKey_def defaultMainKey_def
    using na ns by (intro parse_agent_key) simp_all
  have la: "to_lower (''agent:'' @ x) = ''agent:'' @ to_lower x" for x
    by code_simp
  have np: "\<not> prefix ''subagent:'' (''agent:'' @ x)" for x by simp
  have tk: "trim_space (''agent:'' @ a @ '':'' @ r) = ''agent:'' @ a @ '':'' @ r"
    if "r \<noteq> []" "\<not> is_space (last r)" for a r
    by (rule trim_space_id) (use that in \<open>auto simp: is_space_def\<close>)
  show "isSubagentSessionKey (buildAgentPeerSessionKey params)
     = prefix ''subagent:'' (to_lower (key_rest params))"
    using p1 tk [OF key_rest_ne [of params]] la np
    unfolding peer_key_shape by (simp add: isSubagentSessionKey_def Let_def)
  have m: "to_lower ''main'' = ''main''" by code_simp
  show "\<not> isSubagentSessionKey (buildAgentMainSessionKey agentID)"
    using p2 tk [of "''main''"] la np ns m
    unfolding buildAgentMainSessionKey_def defaultMainKey_def
    by (simp add: isSubagentSessionKey_def Let_def)
qed

text \<open>Session keys parse back: the parser returns from every key the builder makes the
  normal form of the agent id (for the shared main session the builder normalises twice) and the
  remaining text, whatever the channel, account, peer and identity links hold; the main key parses
  to the rest \<open>main\<close>. A built key counts as a subagent's exactly when the part after the agent id
  starts with \<open>subagent:\<close>, so a main or per-peer session is never taken for one.\<close>

theorem session_key_roundtrip:
  "parseAgentSessionKey (buildAgentPeerSessionKey params)
     = Some \<lparr>psk_AgentID = agent_twice params, psk_Rest = key_rest params\<rparr>
     \<and> parseAgentSessionKey (buildAgentMainSessionKey agentID)
     = Some \<lparr>psk_AgentID = normalizeAgentID agentID, psk_Rest = ''main''\<rparr>
     \<and> isSubagentSessionKey (buildAgentPeerSessionKey params)
     = prefix ''subagent:'' (to_lower (key_rest params))
     \<and> \<not> isSubagentSessionKey (buildAgentMainSessionKey agentID)"
  using session_key_roundtrip_facts by blast

lemma session_key_isolation_facts:
  assumes direct: "peer_is_direct (skp_Peer p)" "peer_is_direct (skp_Peer q)"
    and scope: "skp_DMScope p = s" "skp_DMScope q = s"
    and ids: "direct_id (skp_IdentityLinks p) (skp_Channel p) (opt_peer_id (skp_Peer p)) = i" "i \<noteq> []"
      "direct_id (skp_IdentityLinks q) (skp_Channel q) (opt_peer_id (skp_Peer q)) = j" "j \<noteq> []"
    and ch: "CHR '':'' \<notin> set (skp_Channel p)" "CHR '':'' \<notin> set (skp_Channel q)"
  shows "s \<in> {DMScopePerPeer, DMScopePerChannelPeer, DMScopePerAccountChannelPeer} \<longrightarrow>
      buildAgentPeerSessionKey p = buildAgentPeerSessionKey q \<longleftrightarrow>
        normalizeAgentID (skp_AgentID p) = normalizeAgentID (skp_AgentID q) \<and> i = j
        \<and> (s \<noteq> DMScopePerPeer \<longrightarrow> normalizeChannel (skp_Channel p) = normalizeChannel (skp_Channel q))
        \<and> (s = DMScopePerAccountChannelPeer \<longrightarrow>
             normalizeAccountID (skp_AccountID p) = normalizeAccountID (skp_AccountID q))"
    and "s \<notin> {DMScopePerPeer, DMScopePerChannelPeer, DMScopePerAccountChannelPeer} \<longrightarrow>
      buildAgentPeerSessionKey p = buildAgentMainSessionKey (normalizeAgentID (skp_AgentID p))"
    and "s = DMScopePerChannelPeer \<and> \<not> peer_is_direct (Some g)
        \<and> CHR '':'' \<notin> set (trim_space (peer_Kind g)) \<longrightarrow>
      buildAgentPeerSessionKey (q\<lparr>skp_Peer := Some g\<rparr>) \<noteq> buildAgentPeerSessionKey p"
proof -
  have nm: "a @ CHR '':'' # b \<noteq> ''main''" for a b :: string by (rule colon_not_main) simp
  note inj = sep_append_inj [of "CHR '':''"]
  note nc = normal_no_colon normalizeChannel_no_colon [OF ch(1)] normalizeChannel_no_colon [OF ch(2)]
  show "s \<in> {DMScopePerPeer, DMScopePerChannelPeer, DMScopePerAccountChannelPeer} \<longrightarrow>
      buildAgentPeerSessionKey p = buildAgentPeerSessionKey q \<longleftrightarrow>
        normalizeAgentID (skp_AgentID p) = normalizeAgentID (skp_AgentID q) \<and> i = j
        \<and> (s \<noteq> DMScopePerPeer \<longrightarrow> normalizeChannel (skp_Channel p) = normalizeChannel (skp_Channel q))
        \<and> (s = DMScopePerAccountChannelPeer \<longrightarrow>
             normalizeAccountID (skp_AccountID p) = normalizeAccountID (skp_AccountID q))"
    unfolding peer_key_shape agent_twice_def key_rest_def
    using direct scope ids nc by (auto simp: Let_def nm inj)
  show "s \<notin> {DMScopePerPeer, DMScopePerChannelPeer, DMScopePerAccountChannelPeer} \<longrightarrow>
      buildAgentPeerSessionKey p = buildAgentMainSessionKey (normalizeAgentID (skp_AgentID p))"
    unfolding peer_key_shape agent_twice_def key_rest_def buildAgentMainSessionKey_def defaultMainKey_def
    using direct scope by (auto simp: Let_def split: dm_scope.splits)
  have k: "trim_space (peer_Kind g) \<noteq> ''direct''" if "\<not> peer_is_direct (Some g)"
    using that by (auto simp: peer_is_direct_def)
  show "s = DMScopePerChannelPeer \<and> \<not> peer_is_direct (Some g)
        \<and> CHR '':'' \<notin> set (trim_space (peer_Kind g)) \<longrightarrow>
      buildAgentPeerSessionKey (q\<lparr>skp_Peer := Some g\<rparr>) \<noteq> buildAgentPeerSessionKey p"
  proof
    assume a: "s = DMScopePerChannelPeer \<and> \<not> peer_is_direct (Some g)
        \<and> CHR '':'' \<notin> set (trim_space (peer_Kind g))"
    have ne: "''direct:'' @ i \<noteq> trim_space (peer_Kind g) @ CHR '':'' # r"
      "trim_space (peer_Kind g) @ CHR '':'' # r \<noteq> ''direct:'' @ i" for r
      using inj [of "''direct''" "trim_space (peer_Kind g)" i r] a k by auto
    with ids show "buildAgentPeerSessionKey (q\<lparr>skp_Peer := Some g\<rparr>) \<noteq> buildAgentPeerSessionKey p"
      unfolding peer_key_shape agent_twice_def key_rest_def
      using direct scope nc a by (auto simp: Let_def nm inj)
  qed
qed

text \<open>Claim C33. Isolation of direct conversations: under a per-peer scope two senders share a
  session key exactly when they have the same normalised agent and, after identity links, the same
  identifier up to case and blanks, and in the per-channel scope also the same channel, and in the
  per-account scope also the same account; for channel names without a colon. Under the main scope
  (also the default and any unknown scope name) all direct senders of an agent share its main
  session. Group peers never share the key of a direct peer of the same channel in the per-channel
  scope.\<close>

theorem session_key_isolation:
  assumes direct: "peer_is_direct (skp_Peer p)" "peer_is_direct (skp_Peer q)"
    and scope: "skp_DMScope p = s" "skp_DMScope q = s"
    and ids: "direct_id (skp_IdentityLinks p) (skp_Channel p) (opt_peer_id (skp_Peer p)) = i" "i \<noteq> []"
      "direct_id (skp_IdentityLinks q) (skp_Channel q) (opt_peer_id (skp_Peer q)) = j" "j \<noteq> []"
    and ch: "CHR '':'' \<notin> set (skp_Channel p)" "CHR '':'' \<notin> set (skp_Channel q)"
  shows "(s \<in> {DMScopePerPeer, DMScopePerChannelPeer, DMScopePerAccountChannelPeer} \<longrightarrow>
      buildAgentPeerSessionKey p = buildAgentPeerSessionKey q \<longleftrightarrow>
        normalizeAgentID (skp_AgentID p) = normalizeAgentID (skp_AgentID q) \<and> i = j
        \<and> (s \<noteq> DMScopePerPeer \<longrightarrow> normalizeChannel (skp_Channel p) = normalizeChannel (skp_Channel q))
        \<and> (s = DMScopePerAccountChannelPeer \<longrightarrow>
             normalizeAccountID (skp_AccountID p) = normalizeAccountID (skp_AccountID q)))
     \<and> (s \<notin> {DMScopePerPeer, DMScopePerChannelPeer, DMScopePerAccountChannelPeer} \<longrightarrow>
      buildAgentPeerSessionKey p = buildAgentMainSessionKey (normalizeAgentID (skp_AgentID p)))
     \<and> (s = DMScopePerChannelPeer \<and> \<not> peer_is_direct (Some g)
        \<and> CHR '':'' \<notin> set (trim_space (peer_Kind g)) \<longrightarrow>
      buildAgentPeerSessionKey (q\<lparr>skp_Peer := Some g\<rparr>) \<noteq> buildAgentPeerSessionKey p)"
  using session_key_isolation_facts [OF direct scope ids ch] by blast

definition alice :: session_key_params where
  "alice = \<lparr>skp_AgentID = ''ops'', skp_Channel = ''slack'', skp_AccountID = [],
     skp_Peer = Some \<lparr>peer_Kind = ''direct'', peer_ID = '' u1''\<rparr>,
     skp_DMScope = DMScopePerChannelPeer, skp_IdentityLinks = []\<rparr>"

theorem session_key_isolation_witness:
  "buildAgentPeerSessionKey alice = ''agent:ops:slack:direct:u1''
   \<and> buildAgentPeerSessionKey (alice\<lparr>skp_Peer := Some \<lparr>peer_Kind = [], peer_ID = ''u2''\<rparr>\<rparr>)
       \<noteq> buildAgentPeerSessionKey alice"
proof -
  have "buildAgentPeerSessionKey alice
      \<noteq> buildAgentPeerSessionKey (alice\<lparr>skp_Peer := Some \<lparr>peer_Kind = [], peer_ID = ''u2''\<rparr>\<rparr>)"
    by (subst session_key_isolation [of alice
          "alice\<lparr>skp_Peer := Some \<lparr>peer_Kind = [], peer_ID = ''u2''\<rparr>\<rparr>"
          DMScopePerChannelPeer "''u1''" "''u2''", THEN conjunct1, THEN mp]) code_simp+
  moreover have "buildAgentPeerSessionKey alice = ''agent:ops:slack:direct:u1''" by code_simp
  ultimately show ?thesis by metis
qed

end
