(* ===== verification/Route.thy ===== *)
theory Route
  imports SessionKey
begin

text \<open>
  \<^verbatim>\<open>pkg/routing/route.go\<close> over the configuration types of \<^verbatim>\<open>pkg/config/config_types.go\<close>: which
  agent handles an inbound message and under which session keys. A Go nil pointer is \<open>None\<close>; of
  \<^verbatim>\<open>config.Config\<close> the record keeps the three parts the resolver reads.
\<close>

section \<open>Configuration\<close>

record agent_model_config =
  amc_Primary :: string
  amc_Fallbacks :: "string list"

record subagents_config =
  sac_AllowAgents :: "string list"
  sac_Model :: "agent_model_config option"

record agent_config =
  ac_ID :: string
  ac_Default :: bool
  ac_Name :: string
  ac_Workspace :: string
  ac_Model :: "agent_model_config option"
  ac_Skills :: "string list"
  ac_Subagents :: "subagents_config option"

record peer_match =
  pm_Kind :: string
  pm_ID :: string

record binding_match =
  bm_Channel :: string
  bm_AccountID :: string
  bm_Peer :: "peer_match option"
  bm_GuildID :: string
  bm_TeamID :: string

record agent_binding =
  ab_AgentID :: string
  ab_Match :: binding_match

record session_config =
  sc_DMScope :: string
  sc_IdentityLinks :: identity_links

record route_config =
  rc_Agents :: "agent_config list"
  rc_Bindings :: "agent_binding list"
  rc_Session :: session_config

section \<open>The resolver\<close>

record route_input =
  ri_Channel :: string
  ri_AccountID :: string
  ri_Peer :: "route_peer option"
  ri_ParentPeer :: "route_peer option"
  ri_GuildID :: string
  ri_TeamID :: string

record resolved_route =
  rr_AgentID :: string
  rr_Channel :: string
  rr_AccountID :: string
  rr_SessionKey :: string
  rr_MainSessionKey :: string
  rr_MatchedBy :: string

text \<open>The named string type \<^verbatim>\<open>DMScope\<close>: the constants of the code, and any other string.\<close>

definition dm_scope_of :: "string \<Rightarrow> dm_scope" where
  "dm_scope_of s =
     (if s = [] then DMScopeEmpty
      else if s = ''main'' then DMScopeMain
      else if s = ''per-peer'' then DMScopePerPeer
      else if s = ''per-channel-peer'' then DMScopePerChannelPeer
      else if s = ''per-account-channel-peer'' then DMScopePerAccountChannelPeer
      else DMScopeOther s)"

definition matchesAccountID :: "string \<Rightarrow> string \<Rightarrow> bool" where
  "matchesAccountID matchAccountID actual =
     (let trimmed = trim_space matchAccountID
      in if trimmed = [] then actual = defaultAccountID
         else if trimmed = ''*'' then True
         else to_lower trimmed = to_lower actual)"

fun filter_bindings :: "string \<Rightarrow> string \<Rightarrow> agent_binding list \<Rightarrow> agent_binding list" where
  "filter_bindings channel accountID [] = []"
| "filter_bindings channel accountID (b # bs) =
     (let matchChannel = to_lower (trim_space (bm_Channel (ab_Match b)))
      in if matchChannel = [] \<or> matchChannel \<noteq> channel then filter_bindings channel accountID bs
         else if \<not> matchesAccountID (bm_AccountID (ab_Match b)) accountID
              then filter_bindings channel accountID bs
         else b # filter_bindings channel accountID bs)"

fun findPeerMatch :: "agent_binding list \<Rightarrow> route_peer \<Rightarrow> agent_binding option" where
  "findPeerMatch [] peer = None"
| "findPeerMatch (b # bs) peer =
     (case bm_Peer (ab_Match b) of
        None \<Rightarrow> findPeerMatch bs peer
      | Some mp \<Rightarrow>
          let peerKind = to_lower (trim_space (pm_Kind mp)); peerID = trim_space (pm_ID mp)
          in if peerKind = [] \<or> peerID = [] then findPeerMatch bs peer
             else if peerKind = to_lower (peer_Kind peer) \<and> peerID = peer_ID peer then Some b
             else findPeerMatch bs peer)"

fun findGuildMatch :: "agent_binding list \<Rightarrow> string \<Rightarrow> agent_binding option" where
  "findGuildMatch [] guildID = None"
| "findGuildMatch (b # bs) guildID =
     (let matchGuild = trim_space (bm_GuildID (ab_Match b))
      in if matchGuild \<noteq> [] \<and> matchGuild = guildID then Some b else findGuildMatch bs guildID)"

fun findTeamMatch :: "agent_binding list \<Rightarrow> string \<Rightarrow> agent_binding option" where
  "findTeamMatch [] teamID = None"
| "findTeamMatch (b # bs) teamID =
     (let matchTeam = trim_space (bm_TeamID (ab_Match b))
      in if matchTeam \<noteq> [] \<and> matchTeam = teamID then Some b else findTeamMatch bs teamID)"

fun findAccountMatch :: "agent_binding list \<Rightarrow> agent_binding option" where
  "findAccountMatch [] = None"
| "findAccountMatch (b # bs) =
     (let accountID = trim_space (bm_AccountID (ab_Match b))
      in if accountID = ''*'' then findAccountMatch bs
         else if bm_Peer (ab_Match b) \<noteq> None \<or> bm_GuildID (ab_Match b) \<noteq> []
                 \<or> bm_TeamID (ab_Match b) \<noteq> [] then findAccountMatch bs
         else Some b)"

fun findChannelWildcardMatch :: "agent_binding list \<Rightarrow> agent_binding option" where
  "findChannelWildcardMatch [] = None"
| "findChannelWildcardMatch (b # bs) =
     (let accountID = trim_space (bm_AccountID (ab_Match b))
      in if accountID \<noteq> ''*'' then findChannelWildcardMatch bs
         else if bm_Peer (ab_Match b) \<noteq> None \<or> bm_GuildID (ab_Match b) \<noteq> []
                 \<or> bm_TeamID (ab_Match b) \<noteq> [] then findChannelWildcardMatch bs
         else Some b)"

fun first_default :: "agent_config list \<Rightarrow> string option" where
  "first_default [] = None"
| "first_default (a # as) =
     (if ac_Default a then
        let i = trim_space (ac_ID a)
        in if i \<noteq> [] then Some (normalizeAgentID i) else first_default as
      else first_default as)"

definition resolveDefaultAgentID :: "route_config \<Rightarrow> string" where
  "resolveDefaultAgentID cfg =
     (case rc_Agents cfg of
        [] \<Rightarrow> defaultAgentID
      | a0 # as \<Rightarrow>
          (case first_default (a0 # as) of
             Some i \<Rightarrow> i
           | None \<Rightarrow>
               let i = trim_space (ac_ID a0)
               in if i \<noteq> [] then normalizeAgentID i else defaultAgentID))"

definition pickAgentID :: "route_config \<Rightarrow> string \<Rightarrow> string" where
  "pickAgentID cfg agentID =
     (let trimmed = trim_space agentID
      in if trimmed = [] then normalizeAgentID (resolveDefaultAgentID cfg)
         else
           let normalized = normalizeAgentID trimmed; agents = rc_Agents cfg
           in if agents = [] then normalized
              else if list_ex (\<lambda>a. normalizeAgentID (ac_ID a) = normalized) agents then normalized
              else normalizeAgentID (resolveDefaultAgentID cfg))"

definition choose_route ::
  "route_config \<Rightarrow> route_input \<Rightarrow> string \<Rightarrow> string \<Rightarrow> string \<Rightarrow> string \<Rightarrow> resolved_route" where
  "choose_route cfg input channel accountID agentID matchedBy =
     (let scope0 = dm_scope_of (sc_DMScope (rc_Session cfg));
          dmScope = (if scope0 = DMScopeEmpty then DMScopeMain else scope0);
          resolvedAgentID = pickAgentID cfg agentID
      in \<lparr>rr_AgentID = resolvedAgentID, rr_Channel = channel, rr_AccountID = accountID,
          rr_SessionKey = to_lower (buildAgentPeerSessionKey
             \<lparr>skp_AgentID = resolvedAgentID, skp_Channel = channel, skp_AccountID = accountID,
              skp_Peer = ri_Peer input, skp_DMScope = dmScope,
              skp_IdentityLinks = sc_IdentityLinks (rc_Session cfg)\<rparr>),
          rr_MainSessionKey = to_lower (buildAgentMainSessionKey resolvedAgentID),
          rr_MatchedBy = matchedBy\<rparr>)"

text \<open>A level of the cascade: its search, when its key is present.\<close>

definition peer_level :: "agent_binding list \<Rightarrow> route_peer option \<Rightarrow> agent_binding option" where
  "peer_level bindings p =
     (case p of
        None \<Rightarrow> None
      | Some peer \<Rightarrow> if trim_space (peer_ID peer) \<noteq> [] then findPeerMatch bindings peer else None)"

definition resolveRoute :: "route_config \<Rightarrow> route_input \<Rightarrow> resolved_route" where
  "resolveRoute cfg input =
     (let channel = to_lower (trim_space (ri_Channel input));
          accountID = normalizeAccountID (ri_AccountID input);
          bindings = filter_bindings channel accountID (rc_Bindings cfg);
          pick = choose_route cfg input channel accountID;
          guildID = trim_space (ri_GuildID input);
          teamID = trim_space (ri_TeamID input)
      in case peer_level bindings (ri_Peer input) of
           Some m \<Rightarrow> pick (ab_AgentID m) ''binding.peer''
         | None \<Rightarrow>
        (case peer_level bindings (ri_ParentPeer input) of
           Some m \<Rightarrow> pick (ab_AgentID m) ''binding.peer.parent''
         | None \<Rightarrow>
        (case (if guildID \<noteq> [] then findGuildMatch bindings guildID else None) of
           Some m \<Rightarrow> pick (ab_AgentID m) ''binding.guild''
         | None \<Rightarrow>
        (case (if teamID \<noteq> [] then findTeamMatch bindings teamID else None) of
           Some m \<Rightarrow> pick (ab_AgentID m) ''binding.team''
         | None \<Rightarrow>
        (case findAccountMatch bindings of
           Some m \<Rightarrow> pick (ab_AgentID m) ''binding.account''
         | None \<Rightarrow>
        (case findChannelWildcardMatch bindings of
           Some m \<Rightarrow> pick (ab_AgentID m) ''binding.channel''
         | None \<Rightarrow> pick (resolveDefaultAgentID cfg) ''default''))))))"

section \<open>The cascade as a specification\<close>

text \<open>Which bindings are considered at all, and which of them a level accepts.\<close>

definition binding_applies :: "route_input \<Rightarrow> agent_binding \<Rightarrow> bool" where
  "binding_applies input b \<longleftrightarrow>
     (let ch = to_lower (trim_space (bm_Channel (ab_Match b)));
          acct = trim_space (bm_AccountID (ab_Match b));
          actual = normalizeAccountID (ri_AccountID input)
      in ch \<noteq> [] \<and> ch = to_lower (trim_space (ri_Channel input))
         \<and> (acct = ''*'' \<or> (acct = [] \<and> actual = ''default'') \<or> (acct \<noteq> [] \<and> to_lower acct = actual)))"

definition peer_accepts :: "route_peer option \<Rightarrow> agent_binding \<Rightarrow> bool" where
  "peer_accepts p b \<longleftrightarrow>
     (case (p, bm_Peer (ab_Match b)) of
        (Some peer, Some mp) \<Rightarrow>
          trim_space (peer_ID peer) \<noteq> [] \<and> trim_space (pm_Kind mp) \<noteq> [] \<and> trim_space (pm_ID mp) \<noteq> []
          \<and> to_lower (trim_space (pm_Kind mp)) = to_lower (peer_Kind peer)
          \<and> trim_space (pm_ID mp) = peer_ID peer
      | _ \<Rightarrow> False)"

definition unrestricted :: "agent_binding \<Rightarrow> bool" where
  "unrestricted b \<longleftrightarrow>
     bm_Peer (ab_Match b) = None \<and> bm_GuildID (ab_Match b) = [] \<and> bm_TeamID (ab_Match b) = []"

definition level_accepts :: "route_input \<Rightarrow> nat \<Rightarrow> agent_binding \<Rightarrow> bool" where
  "level_accepts input k b \<longleftrightarrow>
     (if k = 0 then peer_accepts (ri_Peer input) b
      else if k = 1 then peer_accepts (ri_ParentPeer input) b
      else if k = 2 then trim_space (bm_GuildID (ab_Match b)) \<noteq> []
                         \<and> trim_space (bm_GuildID (ab_Match b)) = trim_space (ri_GuildID input)
      else if k = 3 then trim_space (bm_TeamID (ab_Match b)) \<noteq> []
                         \<and> trim_space (bm_TeamID (ab_Match b)) = trim_space (ri_TeamID input)
      else if k = 4 then trim_space (bm_AccountID (ab_Match b)) \<noteq> ''*'' \<and> unrestricted b
      else k = 5 \<and> trim_space (bm_AccountID (ab_Match b)) = ''*'' \<and> unrestricted b)"

definition level_names :: "string list" where
  "level_names = [''binding.peer'', ''binding.peer.parent'', ''binding.guild'', ''binding.team'',
     ''binding.account'', ''binding.channel'']"

lemma account_lower: "to_lower (normalizeAccountID i) = normalizeAccountID i"
  using normal_clean [OF normal_account] by simp

lemma filter_bindings_spec:
  "filter_bindings (to_lower (trim_space (ri_Channel input))) (normalizeAccountID (ri_AccountID input)) bs
     = filter (binding_applies input) bs"
  by (induction bs)
     (auto simp: Let_def binding_applies_def matchesAccountID_def defaultAccountID_def account_lower)

lemma peer_level_spec: "peer_level bs p = List.find (peer_accepts p) bs"
proof (cases p)
  case None
  then show ?thesis by (simp add: peer_level_def peer_accepts_def find_None_iff [THEN iffD2])
next
  case (Some q)
  have none: "peer_accepts (Some q) b = False" if "trim_space (peer_ID q) = []" for b
    using that by (simp add: peer_accepts_def split: option.splits)
  have "findPeerMatch bs q = List.find (peer_accepts (Some q)) bs" if "trim_space (peer_ID q) \<noteq> []"
  proof (induction bs)
    case (Cons b bs)
    have "peer_accepts (Some q) b = (case bm_Peer (ab_Match b) of None \<Rightarrow> False | Some mp \<Rightarrow>
        trim_space (pm_Kind mp) \<noteq> [] \<and> trim_space (pm_ID mp) \<noteq> []
        \<and> to_lower (trim_space (pm_Kind mp)) = to_lower (peer_Kind q) \<and> trim_space (pm_ID mp) = peer_ID q)"
      using that by (simp add: peer_accepts_def split: option.splits)
    with Cons show ?case by (simp add: Let_def split: option.splits)
  qed simp
  with Some none show ?thesis by (simp add: peer_level_def find_None_iff [THEN iffD2])
qed

lemma guild_level_spec:
  "(if g \<noteq> [] then findGuildMatch bs g else None)
     = List.find (\<lambda>b. trim_space (bm_GuildID (ab_Match b)) \<noteq> [] \<and> trim_space (bm_GuildID (ab_Match b)) = g) bs"
  by (induction bs) (auto simp: Let_def split: if_splits)

lemma team_level_spec:
  "(if g \<noteq> [] then findTeamMatch bs g else None)
     = List.find (\<lambda>b. trim_space (bm_TeamID (ab_Match b)) \<noteq> [] \<and> trim_space (bm_TeamID (ab_Match b)) = g) bs"
  by (induction bs) (auto simp: Let_def split: if_splits)

lemma account_level_spec:
  "findAccountMatch bs = List.find (\<lambda>b. trim_space (bm_AccountID (ab_Match b)) \<noteq> ''*'' \<and> unrestricted b) bs"
  by (induction bs) (auto simp: Let_def unrestricted_def)

lemma wildcard_level_spec:
  "findChannelWildcardMatch bs = List.find (\<lambda>b. trim_space (bm_AccountID (ab_Match b)) = ''*'' \<and> unrestricted b) bs"
  by (induction bs) (auto simp: Let_def unrestricted_def)

text \<open>The first level that has an accepted binding, with that binding.\<close>

definition level_find :: "route_input \<Rightarrow> agent_binding list \<Rightarrow> nat \<Rightarrow> agent_binding option" where
  "level_find input bs k = List.find (level_accepts input k) bs"

lemma level_finds:
  "peer_level bs (ri_Peer input) = level_find input bs 0"
  "peer_level bs (ri_ParentPeer input) = level_find input bs 1"
  "(if trim_space (ri_GuildID input) \<noteq> [] then findGuildMatch bs (trim_space (ri_GuildID input)) else None)
     = level_find input bs 2"
  "(if trim_space (ri_TeamID input) \<noteq> [] then findTeamMatch bs (trim_space (ri_TeamID input)) else None)
     = level_find input bs 3"
  "findAccountMatch bs = level_find input bs 4"
  "findChannelWildcardMatch bs = level_find input bs 5"
  unfolding level_find_def peer_level_spec guild_level_spec team_level_spec account_level_spec
    wildcard_level_spec level_accepts_def by simp_all

lemma level_find_Some:
  assumes "level_find input bs k = Some b"
  obtains pre post where "bs = pre @ b # post" "level_accepts input k b"
    "\<forall>x\<in>set pre. \<not> level_accepts input k x"
proof -
  from assms obtain i where i: "i < length bs" "level_accepts input k (bs ! i)" "b = bs ! i"
    "\<forall>j<i. \<not> level_accepts input k (bs ! j)"
    by (auto simp: level_find_def find_Some_iff)
  then have "bs = take i bs @ b # drop (Suc i) bs" by (simp add: id_take_nth_drop)
  moreover have "\<forall>x\<in>set (take i bs). \<not> level_accepts input k x"
    using i by (auto simp: in_set_conv_nth)
  ultimately show thesis using i that by blast
qed

lemma level_find_None: "level_find input bs k = None \<longleftrightarrow> (\<forall>x\<in>set bs. \<not> level_accepts input k x)"
  by (auto simp: level_find_def find_None_iff)

definition route_with :: "route_config \<Rightarrow> route_input \<Rightarrow> string \<Rightarrow> string \<Rightarrow> resolved_route" where
  "route_with cfg input = choose_route cfg input (to_lower (trim_space (ri_Channel input)))
     (normalizeAccountID (ri_AccountID input))"

lemma resolveRoute_levels:
  assumes "bs = filter (binding_applies input) (rc_Bindings cfg)"
  shows "(\<exists>k<6. \<exists>b. level_find input bs k = Some b \<and> (\<forall>j<k. level_find input bs j = None)
            \<and> resolveRoute cfg input = route_with cfg input (ab_AgentID b) (level_names ! k))
         \<or> ((\<forall>k<6. level_find input bs k = None)
            \<and> resolveRoute cfg input = route_with cfg input (resolveDefaultAgentID cfg) ''default'')"
proof -
  have up: "(\<forall>j<k::nat. P j) \<longleftrightarrow> (\<forall>j\<in>{..<k}. P j)" for k P by auto
  note n = lessThan_nat_numeral lessThan_Suc
  have r: "resolveRoute cfg input =
     (case level_find input bs 0 of Some m \<Rightarrow> route_with cfg input (ab_AgentID m) (level_names ! 0) | None \<Rightarrow>
     (case level_find input bs 1 of Some m \<Rightarrow> route_with cfg input (ab_AgentID m) (level_names ! 1) | None \<Rightarrow>
     (case level_find input bs 2 of Some m \<Rightarrow> route_with cfg input (ab_AgentID m) (level_names ! 2) | None \<Rightarrow>
     (case level_find input bs 3 of Some m \<Rightarrow> route_with cfg input (ab_AgentID m) (level_names ! 3) | None \<Rightarrow>
     (case level_find input bs 4 of Some m \<Rightarrow> route_with cfg input (ab_AgentID m) (level_names ! 4) | None \<Rightarrow>
     (case level_find input bs 5 of Some m \<Rightarrow> route_with cfg input (ab_AgentID m) (level_names ! 5) | None \<Rightarrow>
       route_with cfg input (resolveDefaultAgentID cfg) ''default''))))))"
    unfolding resolveRoute_def Let_def filter_bindings_spec assms [symmetric] level_finds(1-4)
      level_finds(5,6) [of _ input] route_with_def level_names_def by (simp cong: option.case_cong)
  show ?thesis
  proof (cases "\<exists>k<6. level_find input bs k \<noteq> None")
    case False
    then have none: "\<forall>k<6. level_find input bs k = None" by simp
    then have "level_find input bs 0 = None" "level_find input bs 1 = None" "level_find input bs 2 = None"
      "level_find input bs 3 = None" "level_find input bs 4 = None" "level_find input bs 5 = None"
      by simp_all
    with none show ?thesis by (simp add: r)
  next
    case True
    define k where "k = (LEAST k. level_find input bs k \<noteq> None)"
    from True have k: "k < 6" "level_find input bs k \<noteq> None"
      unfolding k_def by (metis (mono_tags, lifting) LeastI_ex Least_le order_le_less_trans)+
    have before: "\<forall>j<k. level_find input bs j = None"
      using not_less_Least unfolding k_def by blast
    obtain b where b: "level_find input bs k = Some b" using k(2) by auto
    have "k \<in> {0, 1, 2, 3, 4, 5}" using k(1) by auto
    then have "resolveRoute cfg input = route_with cfg input (ab_AgentID b) (level_names ! k)"
      using b before by (auto simp: r)
    with k(1) b before show ?thesis by blast
  qed
qed

lemma pick_configured:
  "normal_id (pickAgentID cfg i)"
  "rc_Agents cfg \<noteq> [] \<Longrightarrow> \<exists>a\<in>set (rc_Agents cfg).
     pickAgentID cfg i = normalizeAgentID (ac_ID a)
     \<or> pickAgentID cfg i = normalizeAgentID (normalizeAgentID (ac_ID a))"
proof -
  show "normal_id (pickAgentID cfg i)" by (simp add: pickAgentID_def Let_def normal_agent)
  have tr: "normalizeAgentID (trim_space x) = normalizeAgentID x" for x
    by (simp add: normalizeAgentID_def normalize_id_def)
  have e: "normalizeAgentID x = defaultAgentID" if "trim_space x = []" for x
    using that by (simp add: normalizeAgentID_def normalize_id_def)
  have mm: "normalizeAgentID defaultAgentID = defaultAgentID" by code_simp
  have fd: "first_default as = Some x \<Longrightarrow> \<exists>a\<in>set as. x = normalizeAgentID (ac_ID a)" for as x
    by (induction as) (auto simp: Let_def tr split: if_splits)
  assume ne: "rc_Agents cfg \<noteq> []"
  then obtain a0 as where as: "rc_Agents cfg = a0 # as" by (cases "rc_Agents cfg") auto
  have "\<exists>a\<in>set (rc_Agents cfg). resolveDefaultAgentID cfg = normalizeAgentID (ac_ID a)"
  proof (cases "first_default (a0 # as)")
    case None
    then show ?thesis using as e [of "ac_ID a0"] by (auto simp: resolveDefaultAgentID_def Let_def tr)
  next
    case (Some x)
    then show ?thesis using fd [OF Some] as by (simp add: resolveDefaultAgentID_def)
  qed
  then show "\<exists>a\<in>set (rc_Agents cfg). pickAgentID cfg i = normalizeAgentID (ac_ID a)
     \<or> pickAgentID cfg i = normalizeAgentID (normalizeAgentID (ac_ID a))"
    using ne by (simp add: pickAgentID_def Let_def tr list_ex_iff) metis
qed

lemma to_lower_agent: "to_lower (''agent:'' @ x) = ''agent:'' @ to_lower x"
  by code_simp

lemma parse_lower_key:
  assumes "normal_id a" "r \<noteq> []" "\<not> is_space (last r)"
  shows "parseAgentSessionKey (to_lower (''agent:'' @ a @ '':'' @ r))
           = Some \<lparr>psk_AgentID = a, psk_Rest = to_lower r\<rparr>"
proof -
  have c: "to_lower (a @ '':'' @ r) = a @ '':'' @ to_lower r"
    using normal_clean [OF assms(1)] by (simp add: to_lower_def lower_char_def)
  have chars: "list_all id_char a" "a \<noteq> []" using assms(1) by (auto simp: normal_id_def)
  have "\<not> is_space (last (to_lower r))" using assms by (simp add: last_to_lower)
  with assms chars parse_agent_key [of a "to_lower r"] show ?thesis
    unfolding to_lower_agent c by simp
qed

section \<open>Properties\<close>

text \<open>Claim C27. The routing cascade: of the bindings that name the message's channel and cover its
  account, the first (in configuration order) of the most specific level that any of them satisfies
  decides the agent, levels being peer, parent peer, guild, team, account, channel wildcard; the
  reported reason names that level. When no binding satisfies any level the default agent is taken.
  The agent is the one the binding names if it is configured, else the default agent.\<close>

theorem resolve_route_cascade:
  assumes "bs = filter (binding_applies input) (rc_Bindings cfg)"
  shows "(\<exists>k<6. \<exists>pre b post.
             bs = pre @ b # post \<and> level_accepts input k b
             \<and> (\<forall>x\<in>set pre. \<not> level_accepts input k x)
             \<and> (\<forall>j<k. \<forall>x\<in>set bs. \<not> level_accepts input j x)
             \<and> rr_MatchedBy (resolveRoute cfg input) = level_names ! k
             \<and> rr_AgentID (resolveRoute cfg input) = pickAgentID cfg (ab_AgentID b))
         \<or> ((\<forall>k<6. \<forall>x\<in>set bs. \<not> level_accepts input k x)
             \<and> rr_MatchedBy (resolveRoute cfg input) = ''default''
             \<and> rr_AgentID (resolveRoute cfg input) = pickAgentID cfg (resolveDefaultAgentID cfg))"
proof -
  have f: "rr_MatchedBy (route_with cfg input i m) = m"
    "rr_AgentID (route_with cfg input i m) = pickAgentID cfg i" for i m
    by (simp_all add: route_with_def choose_route_def Let_def)
  from resolveRoute_levels [OF assms] show ?thesis
  proof (elim disjE exE conjE)
    fix k b
    assume k: "k < 6" "level_find input bs k = Some b" "\<forall>j<k. level_find input bs j = None"
      and r: "resolveRoute cfg input = route_with cfg input (ab_AgentID b) (level_names ! k)"
    from k(2) obtain pre post where "bs = pre @ b # post" "level_accepts input k b"
      "\<forall>x\<in>set pre. \<not> level_accepts input k x" by (rule level_find_Some)
    then show ?thesis
      using k(1,3) r f by (intro disjI1 exI [of _ k] conjI exI [of _ pre] exI [of _ b] exI [of _ post])
        (simp_all add: level_find_None)
  next
    assume "\<forall>k<6. level_find input bs k = None"
      and "resolveRoute cfg input = route_with cfg input (resolveDefaultAgentID cfg) ''default''"
    then show ?thesis using f by (simp add: level_find_None)
  qed
qed

lemma resolve_route_contract_facts:
  fixes cfg input
  defines "r \<equiv> resolveRoute cfg input"
  shows "normal_id (rr_AgentID r)"
    and "rc_Agents cfg \<noteq> [] \<Longrightarrow> \<exists>a\<in>set (rc_Agents cfg).
           rr_AgentID r = normalizeAgentID (ac_ID a)
           \<or> rr_AgentID r = normalizeAgentID (normalizeAgentID (ac_ID a))"
    and "to_lower (rr_SessionKey r) = rr_SessionKey r \<and> to_lower (rr_MainSessionKey r) = rr_MainSessionKey r
      \<and> to_lower (rr_Channel r) = rr_Channel r"
    and "\<exists>rest. rest \<noteq> [] \<and> parseAgentSessionKey (rr_SessionKey r)
           = Some \<lparr>psk_AgentID = normalizeAgentID (rr_AgentID r), psk_Rest = rest\<rparr>"
    and "parseAgentSessionKey (rr_MainSessionKey r)
           = Some \<lparr>psk_AgentID = normalizeAgentID (rr_AgentID r), psk_Rest = ''main''\<rparr>"
    and "hd (rr_AgentID r) \<noteq> CHR ''_'' \<Longrightarrow> normalizeAgentID (rr_AgentID r) = rr_AgentID r"
proof -
  obtain i m where r: "r = route_with cfg input i m"
    using resolveRoute_levels [OF refl, of input cfg] unfolding r_def by metis
  have ag: "rr_AgentID r = pickAgentID cfg i" by (simp add: r route_with_def choose_route_def Let_def)
  show n: "normal_id (rr_AgentID r)" by (simp add: ag pick_configured)
  show "hd (rr_AgentID r) \<noteq> CHR ''_'' \<Longrightarrow> normalizeAgentID (rr_AgentID r) = rr_AgentID r"
    using normal_valid_iff [OF n] normalizeAgentID_valid by simp
  show "\<exists>a\<in>set (rc_Agents cfg). rr_AgentID r = normalizeAgentID (ac_ID a)
           \<or> rr_AgentID r = normalizeAgentID (normalizeAgentID (ac_ID a))" if "rc_Agents cfg \<noteq> []"
    using pick_configured(2) [OF that] ag by simp
  show "to_lower (rr_SessionKey r) = rr_SessionKey r \<and> to_lower (rr_MainSessionKey r) = rr_MainSessionKey r
      \<and> to_lower (rr_Channel r) = rr_Channel r"
    by (simp add: r route_with_def choose_route_def Let_def)
  obtain params where p: "rr_SessionKey r = to_lower (buildAgentPeerSessionKey params)"
    "skp_AgentID params = rr_AgentID r"
    by (simp add: r route_with_def choose_route_def Let_def)
  obtain x where "rr_AgentID r = normalizeAgentID x"
    unfolding ag pickAgentID_def Let_def by metis
  then have "agent_twice params = normalizeAgentID (rr_AgentID r)"
    using p(2) normalize_stable by (simp add: agent_twice_def)
  then have "parseAgentSessionKey (rr_SessionKey r)
      = Some \<lparr>psk_AgentID = normalizeAgentID (rr_AgentID r), psk_Rest = to_lower (key_rest params)\<rparr>"
    unfolding p(1) peer_key_shape
    using parse_lower_key [OF agent_twice_normal [of params] key_rest_ne(1) [of params] key_rest_ne(2) [of params]]
    by (simp only:)
  then show "\<exists>rest. rest \<noteq> [] \<and> parseAgentSessionKey (rr_SessionKey r)
           = Some \<lparr>psk_AgentID = normalizeAgentID (rr_AgentID r), psk_Rest = rest\<rparr>"
    using key_rest_ne [of params] by (intro exI [of _ "to_lower (key_rest params)"]) simp
  have "parseAgentSessionKey (to_lower (''agent:'' @ normalizeAgentID (rr_AgentID r) @ '':'' @ ''main''))
      = Some \<lparr>psk_AgentID = normalizeAgentID (rr_AgentID r), psk_Rest = to_lower ''main''\<rparr>"
    by (rule parse_lower_key) (simp_all add: normal_agent is_space_def)
  moreover have "rr_MainSessionKey r = to_lower (''agent:'' @ normalizeAgentID (rr_AgentID r) @ '':'' @ ''main'')"
    by (simp add: r route_with_def choose_route_def Let_def buildAgentMainSessionKey_def defaultMainKey_def)
  moreover have "to_lower ''main'' = ''main''" by code_simp
  ultimately show "parseAgentSessionKey (rr_MainSessionKey r)
           = Some \<lparr>psk_AgentID = normalizeAgentID (rr_AgentID r), psk_Rest = ''main''\<rparr>" by simp
qed

text \<open>What a resolved route guarantees: its agent id is a normal form and, when agents are
  configured, the normal form of a configured agent's id; the channel and both session keys are
  lower case; both keys parse back to the agent id (normalised once more, which changes nothing for
  an id that does not start with an underscore), the main one with the rest \<open>main\<close>.\<close>

theorem resolve_route_contract:
  fixes cfg input
  defines "r \<equiv> resolveRoute cfg input"
  shows "normal_id (rr_AgentID r)
     \<and> (rc_Agents cfg \<noteq> [] \<longrightarrow> (\<exists>a\<in>set (rc_Agents cfg).
           rr_AgentID r = normalizeAgentID (ac_ID a)
           \<or> rr_AgentID r = normalizeAgentID (normalizeAgentID (ac_ID a))))
     \<and> to_lower (rr_SessionKey r) = rr_SessionKey r \<and> to_lower (rr_MainSessionKey r) = rr_MainSessionKey r
      \<and> to_lower (rr_Channel r) = rr_Channel r
     \<and> (\<exists>rest. rest \<noteq> [] \<and> parseAgentSessionKey (rr_SessionKey r)
           = Some \<lparr>psk_AgentID = normalizeAgentID (rr_AgentID r), psk_Rest = rest\<rparr>)
     \<and> parseAgentSessionKey (rr_MainSessionKey r)
           = Some \<lparr>psk_AgentID = normalizeAgentID (rr_AgentID r), psk_Rest = ''main''\<rparr>
     \<and> (hd (rr_AgentID r) \<noteq> CHR ''_'' \<longrightarrow> normalizeAgentID (rr_AgentID r) = rr_AgentID r)"
  using resolve_route_contract_facts [of cfg input] unfolding r_def by blast

section \<open>A concrete configuration\<close>

definition plain_binding :: "string \<Rightarrow> string \<Rightarrow> agent_binding" where
  "plain_binding ag ch = \<lparr>ab_AgentID = ag, ab_Match =
     \<lparr>bm_Channel = ch, bm_AccountID = ''*'', bm_Peer = None, bm_GuildID = [], bm_TeamID = []\<rparr>\<rparr>"

definition peer_binding :: "string \<Rightarrow> string \<Rightarrow> string \<Rightarrow> agent_binding" where
  "peer_binding ag ch i = \<lparr>ab_AgentID = ag, ab_Match =
     \<lparr>bm_Channel = ch, bm_AccountID = ''*'', bm_Peer = Some \<lparr>pm_Kind = ''group'', pm_ID = i\<rparr>,
      bm_GuildID = [], bm_TeamID = []\<rparr>\<rparr>"

definition named_agent :: "string \<Rightarrow> agent_config" where
  "named_agent i = \<lparr>ac_ID = i, ac_Default = False, ac_Name = [], ac_Workspace = [],
     ac_Model = None, ac_Skills = [], ac_Subagents = None\<rparr>"

definition demo_config :: route_config where
  "demo_config = \<lparr>rc_Agents = [named_agent ''ops'', named_agent ''dev''],
     rc_Bindings = [plain_binding ''ops'' ''slack'', peer_binding ''dev'' ''slack'' ''c1''],
     rc_Session = \<lparr>sc_DMScope = ''per-peer'', sc_IdentityLinks = []\<rparr>\<rparr>"

definition demo_input :: route_input where
  "demo_input = \<lparr>ri_Channel = ''slack'', ri_AccountID = [],
     ri_Peer = Some \<lparr>peer_Kind = ''group'', peer_ID = ''c1''\<rparr>, ri_ParentPeer = None,
     ri_GuildID = [], ri_TeamID = []\<rparr>"

lemma demo_route:
  "rr_MatchedBy (resolveRoute demo_config demo_input) = ''binding.peer''"
  "rr_AgentID (resolveRoute demo_config demo_input) = ''dev''"
  "rr_SessionKey (resolveRoute demo_config demo_input) = ''agent:dev:slack:group:c1''"
  by code_simp+

theorem resolve_route_cascade_witness:
  "rr_MatchedBy (resolveRoute demo_config demo_input) \<in> set level_names \<union> {''default''}
   \<and> rr_MatchedBy (resolveRoute demo_config demo_input) = ''binding.peer''"
  using resolve_route_cascade [OF refl, of demo_input demo_config] demo_route
  by (auto simp: level_names_def)

theorem resolve_route_contract_witness:
  "normal_id (rr_AgentID (resolveRoute demo_config demo_input))
   \<and> (\<exists>a\<in>set (rc_Agents demo_config). rr_AgentID (resolveRoute demo_config demo_input)
        = normalizeAgentID (ac_ID a)
        \<or> rr_AgentID (resolveRoute demo_config demo_input)
        = normalizeAgentID (normalizeAgentID (ac_ID a)))
   \<and> normalizeAgentID ''dev'' = ''dev''"
proof -
  have ne: "rc_Agents demo_config \<noteq> []" by (simp add: demo_config_def)
  have h: "hd (rr_AgentID (resolveRoute demo_config demo_input)) \<noteq> CHR ''_''"
    by (simp add: demo_route)
  show ?thesis
    using resolve_route_contract [of demo_config demo_input] ne h
    by (simp add: demo_route)
qed

end
