(* ===== verification/GoUtf8.thy ===== *)
theory GoUtf8
  imports Ebi_Prelude
begin

text \<open>
  Go's reading of a byte string as UTF-8 (package \<^verbatim>\<open>unicode/utf8\<close> and \<^verbatim>\<open>range\<close> over a string): a
  well-formed sequence gives its code point, any other byte gives U+FFFD and is one byte wide.
\<close>

section \<open>Definitions\<close>

definition byte_of :: "char \<Rightarrow> nat" where "byte_of c = of_char c"

definition cont_byte :: "nat \<Rightarrow> bool" where
  "cont_byte b \<longleftrightarrow> 128 \<le> b \<and> b \<le> 191"

definition rune_error :: nat where "rune_error = 65533"

text \<open>The range of the second byte for a leading byte of a sequence of three or four.\<close>

definition second_ok :: "nat \<Rightarrow> nat \<Rightarrow> bool" where
  "second_ok b0 b1 \<longleftrightarrow>
     (if b0 = 224 then 160 \<le> b1 \<and> b1 \<le> 191
      else if b0 = 237 then 128 \<le> b1 \<and> b1 \<le> 159
      else if b0 = 240 then 144 \<le> b1 \<and> b1 \<le> 191
      else if b0 = 244 then 128 \<le> b1 \<and> b1 \<le> 143
      else cont_byte b1)"

definition decode_bytes :: "nat list \<Rightarrow> nat \<times> nat" where
  "decode_bytes bs =
     (case bs of
        [] \<Rightarrow> (rune_error, 0)
      | b0 # t \<Rightarrow>
          if b0 < 128 then (b0, 1)
          else if 194 \<le> b0 \<and> b0 \<le> 223 \<and> 1 \<le> length t \<and> cont_byte (t ! 0)
          then ((b0 - 192) * 64 + (t ! 0 - 128), 2)
          else if 224 \<le> b0 \<and> b0 \<le> 239 \<and> 2 \<le> length t \<and> second_ok b0 (t ! 0) \<and> cont_byte (t ! 1)
          then ((b0 - 224) * 4096 + (t ! 0 - 128) * 64 + (t ! 1 - 128), 3)
          else if 240 \<le> b0 \<and> b0 \<le> 244 \<and> 3 \<le> length t \<and> second_ok b0 (t ! 0)
                  \<and> cont_byte (t ! 1) \<and> cont_byte (t ! 2)
          then ((b0 - 240) * 262144 + (t ! 0 - 128) * 4096 + (t ! 1 - 128) * 64 + (t ! 2 - 128), 4)
          else (rune_error, 1))"

lemma decode_width: "bs \<noteq> [] \<Longrightarrow> 1 \<le> snd (decode_bytes bs) \<and> snd (decode_bytes bs) \<le> length bs"
  by (cases bs) (auto simp: decode_bytes_def)

function rune_list :: "nat list \<Rightarrow> nat list" where
  "rune_list bs =
     (if bs = [] then []
      else (case decode_bytes bs of (r, w) \<Rightarrow> r # rune_list (drop w bs)))"
  by pat_completeness auto
termination
  by (relation "measure length") (auto dest: decode_width simp: prod_eq_iff)

declare rune_list.simps [simp del]

definition runes :: "string \<Rightarrow> nat list" where
  "runes s = rune_list (map byte_of s)"

text \<open>\<^verbatim>\<open>utf8.RuneCountInString\<close>.\<close>

definition rune_count :: "string \<Rightarrow> nat" where
  "rune_count s = length (runes s)"

text \<open>The encoding of a code point (\<^verbatim>\<open>utf8.AppendRune\<close>); surrogates and values beyond U+10FFFF
  give the encoding of U+FFFD.\<close>

definition scalar :: "nat \<Rightarrow> bool" where
  "scalar r \<longleftrightarrow> r < 55296 \<or> (57344 \<le> r \<and> r < 1114112)"

definition encode_rune :: "nat \<Rightarrow> nat list" where
  "encode_rune r0 =
     (let r = (if scalar r0 then r0 else rune_error)
      in if r < 128 then [r]
         else if r < 2048 then [192 + r div 64, 128 + r mod 64]
         else if r < 65536 then [224 + r div 4096, 128 + (r div 64) mod 64, 128 + r mod 64]
         else [240 + r div 262144, 128 + (r div 4096) mod 64, 128 + (r div 64) mod 64, 128 + r mod 64])"

section \<open>Lemmas\<close>

lemma rune_list_Nil [simp]: "rune_list [] = []"
  by (simp add: rune_list.simps)

lemma runes_Nil [simp]: "runes [] = []"
  by (simp add: runes_def)

lemma rune_count_Nil [simp]: "rune_count [] = 0"
  by (simp add: rune_count_def)

lemma rune_list_Cons:
  "bs \<noteq> [] \<Longrightarrow> rune_list bs = fst (decode_bytes bs) # rune_list (drop (snd (decode_bytes bs)) bs)"
  by (subst rune_list.simps) (simp add: case_prod_beta)

lemma rune_list_length: "length (rune_list bs) \<le> length bs"
proof (induction bs rule: length_induct)
  case (1 bs)
  show ?case
  proof (cases "bs = []")
    case False
    let ?w = "snd (decode_bytes bs)"
    have w: "1 \<le> ?w" "?w \<le> length bs" using decode_width [OF False] by auto
    then have "length (rune_list (drop ?w bs)) \<le> length bs - ?w"
      using "1.IH" False by (metis length_drop diff_less length_greater_0_conv less_le_trans zero_less_one)
    with w show ?thesis by (simp add: rune_list_Cons [OF False])
  qed simp
qed

lemma rune_count_le: "rune_count s \<le> length s"
  using rune_list_length [of "map byte_of s"] by (simp add: rune_count_def runes_def)

lemma rune_count_pos [simp]: "0 < rune_count s \<longleftrightarrow> s \<noteq> []"
  by (cases s) (auto simp: rune_count_def runes_def rune_list_Cons)

lemma rune_list_ascii: "\<forall>b\<in>set bs. b < 128 \<Longrightarrow> rune_list bs = bs"
  by (induction bs) (simp_all add: rune_list_Cons decode_bytes_def)

lemma rune_count_ascii: "\<forall>c\<in>set s. byte_of c < 128 \<Longrightarrow> rune_count s = length s"
  by (simp add: rune_count_def runes_def rune_list_ascii)

text \<open>Decoding inverts encoding, with any text behind it.\<close>

lemma decode_encode:
  assumes "scalar r"
  shows "decode_bytes (encode_rune r @ s) = (r, length (encode_rune r))"
proof -
  consider "r < 128" | "128 \<le> r" "r < 2048" | "2048 \<le> r" "r < 65536" | "65536 \<le> r" "r < 1114112"
    using assms unfolding scalar_def by linarith
  then show ?thesis
  proof cases
    case 1
    then show ?thesis using assms by (simp add: encode_rune_def decode_bytes_def)
  next
    case 2
    have "r div 64 \<ge> 2" "r div 64 \<le> 31" using 2 by linarith+
    then have "r div 64 * 64 + r mod 64 = r" "2 \<le> r div 64" "r div 64 < 32" by simp_all
    with 2 assms show ?thesis
      by (auto simp: encode_rune_def decode_bytes_def cont_byte_def)
  next
    case 3
    define q k p m where "q = r div 64" and "k = r mod 64" and "p = q div 64" and "m = q mod 64"
    have d: "r div 4096 = p" by (simp add: p_def q_def div_mult2_eq [symmetric])
    have r: "r = q * 64 + k" "q = p * 64 + m" "k < 64" "m < 64"
      by (simp_all add: q_def k_def p_def m_def)
    have f: "p \<le> 15" "p = 0 \<longrightarrow> 32 \<le> m" using 3 r by linarith+
    have "p = 13 \<longrightarrow> m \<le> 31" using assms 3 r unfolding scalar_def by linarith
    then have "second_ok (224 + p) (128 + m)" using f r by (auto simp: second_ok_def cont_byte_def)
    moreover have "encode_rune r = [224 + p, 128 + m, 128 + k]"
      using 3 assms by (simp add: encode_rune_def d q_def k_def m_def)
    moreover have "p * 4096 + m * 64 + k = r" using r by simp
    ultimately show ?thesis using f(1) r(3) by (simp add: decode_bytes_def cont_byte_def)
  next
    case 4
    define q k p m h n where "q = r div 64" and "k = r mod 64" and "p = q div 64" and "m = q mod 64"
      and "h = p div 64" and "n = p mod 64"
    have d: "r div 4096 = p" "r div 262144 = h"
      by (simp_all add: h_def p_def q_def div_mult2_eq [symmetric])
    have r: "r = q * 64 + k" "q = p * 64 + m" "p = h * 64 + n" "k < 64" "m < 64" "n < 64"
      by (simp_all add: q_def k_def p_def m_def h_def n_def)
    have f: "h \<le> 4" "h = 0 \<longrightarrow> 16 \<le> n" "h = 4 \<longrightarrow> n \<le> 15" using 4 r by linarith+
    then have "second_ok (240 + h) (128 + n)" using r by (auto simp: second_ok_def cont_byte_def)
    moreover have "encode_rune r = [240 + h, 128 + n, 128 + m, 128 + k]"
      using 4 assms by (simp add: encode_rune_def d) (simp add: q_def k_def m_def n_def)
    moreover have "h * 262144 + n * 4096 + m * 64 + k = r" using r by simp
    ultimately show ?thesis using f(1) r(4,5) by (simp add: decode_bytes_def cont_byte_def)
  qed
qed

lemma encode_rune_ne [simp]: "encode_rune r \<noteq> []"
  by (simp add: encode_rune_def Let_def)

lemma rune_list_encode: "scalar r \<Longrightarrow> rune_list (encode_rune r @ s) = r # rune_list s"
  by (subst rune_list_Cons) (simp_all add: decode_encode)

lemma rune_list_round_trip: "\<forall>r\<in>set rs. scalar r \<Longrightarrow> rune_list (concat (map encode_rune rs)) = rs"
  by (induction rs) (simp_all add: rune_list_encode)

end
