(* ===== verification/GoValue.thy ===== *)
theory GoValue
  imports GoUtf8 Complex_Main
begin

text \<open>
  Dynamically typed Go values (\<^verbatim>\<open>any\<close>) as JSON decoding produces them, with the further types
  tool schemas in the code hold (\<^verbatim>\<open>int\<close>, \<^verbatim>\<open>int64\<close>, \<^verbatim>\<open>[]string\<close>), and the message types of
  \<^verbatim>\<open>pkg/providers/protocoltypes/types.go\<close>. A \<^verbatim>\<open>map[string]any\<close> is an association list; its order
  stands for the iteration order of the map. A \<^verbatim>\<open>float64\<close> is a rational (JSON has no NaN and no
  infinity).
\<close>

section \<open>Values\<close>

datatype goval =
    GNil
  | GBool bool
  | GInt int
  | GInt64 int
  | GFloat rat
  | GString string
  | GStrings "string list"
  | GArray "goval list"
  | GObject "(string \<times> goval) list"

type_synonym object = "(string \<times> goval) list"

section \<open>Messages\<close>

record function_call =
  fc_Name :: string
  fc_Arguments :: string
  fc_ThoughtSignature :: string

record google_extra =
  ge_ThoughtSignature :: string

record extra_content =
  ec_Google :: "google_extra option"

record tool_call =
  tc_ID :: string
  tc_Type :: string
  tc_Function :: "function_call option"
  tc_Name :: string
  tc_Arguments :: "object option"
  tc_ThoughtSignature :: string
  tc_ExtraContent :: "extra_content option"

record cache_control =
  cc_Type :: string

record content_block =
  cb_Type :: string
  cb_Text :: string
  cb_CacheControl :: "cache_control option"

record message =
  msg_Role :: string
  msg_Content :: string
  msg_Media :: "string list"
  msg_ReasoningContent :: string
  msg_SystemParts :: "content_block list"
  msg_ToolCalls :: "tool_call list"
  msg_ToolCallID :: string

record tool_function_definition =
  tfd_Name :: string
  tfd_Description :: string
  tfd_Parameters :: "object option"

record tool_definition =
  td_Type :: string
  td_Function :: tool_function_definition

text \<open>A message with only a role and a text, as most call sites build them.\<close>

definition plain_message :: "string \<Rightarrow> string \<Rightarrow> message" where
  "plain_message role content =
     \<lparr>msg_Role = role, msg_Content = content, msg_Media = [], msg_ReasoningContent = [],
      msg_SystemParts = [], msg_ToolCalls = [], msg_ToolCallID = []\<rparr>"

end
