(* ===== verification/Complexity.thy ===== *)
theory Complexity
  imports GoValue
begin

text \<open>
  The complexity router (\<^verbatim>\<open>pkg/routing/features.go\<close>, \<^verbatim>\<open>classifier.go\<close>, \<^verbatim>\<open>router.go\<close>): structural
  features of a message, a score from a table of weights, and the choice between the light and the
  primary model. Scores are exact decimals (rationals) where the code adds \<^verbatim>\<open>float64\<close> constants;
  with the default threshold the two agree on every comparison.
\<close>

section \<open>Features\<close>

record features =
  ft_TokenEstimate :: int
  ft_CodeBlockCount :: int
  ft_RecentToolCalls :: int
  ft_ConversationDepth :: int
  ft_HasAttachments :: bool

definition lookbackWindow :: int where "lookbackWindow = 6"

definition is_cjk :: "nat \<Rightarrow> bool" where
  "is_cjk r \<longleftrightarrow> (11904 \<le> r \<and> r \<le> 40959) \<or> (63744 \<le> r \<and> r \<le> 64255) \<or> (44032 \<le> r \<and> r \<le> 55215)"

definition estimateTokens :: "string \<Rightarrow> int" where
  "estimateTokens msg =
     (let total = int (rune_count msg)
      in if total = 0 then 0
         else let cjk = int (length (filter is_cjk (runes msg)))
              in cjk + (total - cjk) div 4)"

text \<open>\<^verbatim>\<open>strings.Count\<close> of a non-empty separator: non-overlapping occurrences from the left.\<close>

function str_count :: "string \<Rightarrow> string \<Rightarrow> nat" where
  "str_count sep s =
     (if s = [] \<or> sep = [] then 0
      else if prefix sep s then Suc (str_count sep (drop (length sep) s))
      else str_count sep (tl s))"
  by pat_completeness auto
termination
  by (relation "measure (\<lambda>(sep, s). length s)") (auto simp: diff_less)

declare str_count.simps [simp del]

definition countCodeBlocks :: "string \<Rightarrow> int" where
  "countCodeBlocks msg = (let n = int (str_count ''```'' msg) in n div 2)"

definition countRecentToolCalls :: "message list \<Rightarrow> int" where
  "countRecentToolCalls history =
     (let start0 = int (length history) - lookbackWindow;
          start = (if start0 < 0 then 0 else start0)
      in sum_list (map (\<lambda>m. int (length (msg_ToolCalls m))) (drop (nat start) history)))"

definition mediaExts :: "string list" where
  "mediaExts = [''.jpg'', ''.jpeg'', ''.png'', ''.gif'', ''.webp'', ''.bmp'',
     ''.mp3'', ''.wav'', ''.ogg'', ''.m4a'', ''.flac'',
     ''.mp4'', ''.avi'', ''.mov'', ''.webm'']"

definition hasAttachments :: "string \<Rightarrow> bool" where
  "hasAttachments msg \<longleftrightarrow>
     (let lower = to_lower msg
      in if str_contains lower ''data:image/'' \<or> str_contains lower ''data:audio/''
            \<or> str_contains lower ''data:video/'' then True
         else list_ex (str_contains lower) mediaExts)"

definition extractFeatures :: "string \<Rightarrow> message list \<Rightarrow> features" where
  "extractFeatures msg history =
     \<lparr>ft_TokenEstimate = estimateTokens msg, ft_CodeBlockCount = countCodeBlocks msg,
      ft_RecentToolCalls = countRecentToolCalls history,
      ft_ConversationDepth = int (length history), ft_HasAttachments = hasAttachments msg\<rparr>"

section \<open>Score and selection\<close>

definition rule_score :: "features \<Rightarrow> rat" where
  "rule_score f =
     (if ft_HasAttachments f then 1
      else
        let s1 = (if ft_TokenEstimate f > 200 then 35 / 100
                  else if ft_TokenEstimate f > 50 then 15 / 100 else 0);
            s2 = (if ft_CodeBlockCount f > 0 then s1 + 40 / 100 else s1);
            s3 = (if ft_RecentToolCalls f > 3 then s2 + 25 / 100
                  else if ft_RecentToolCalls f > 0 then s2 + 10 / 100 else s2);
            s4 = (if ft_ConversationDepth f > 10 then s3 + 10 / 100 else s3)
        in if s4 > 1 then 1 else s4)"

record router_config =
  rcfg_LightModel :: string
  rcfg_Threshold :: rat

text \<open>A router holds its classifier as a function (the interface \<^verbatim>\<open>Classifier\<close>).\<close>

record router =
  rtr_cfg :: router_config
  rtr_classifier :: "features \<Rightarrow> rat"

definition defaultThreshold :: rat where "defaultThreshold = 35 / 100"

definition newWithClassifier :: "router_config \<Rightarrow> (features \<Rightarrow> rat) \<Rightarrow> router" where
  "newWithClassifier cfg c =
     (let cfg' = (if rcfg_Threshold cfg \<le> 0 then cfg\<lparr>rcfg_Threshold := defaultThreshold\<rparr> else cfg)
      in \<lparr>rtr_cfg = cfg', rtr_classifier = c\<rparr>)"

definition newRouter :: "router_config \<Rightarrow> router" where
  "newRouter cfg =
     (let cfg' = (if rcfg_Threshold cfg \<le> 0 then cfg\<lparr>rcfg_Threshold := defaultThreshold\<rparr> else cfg)
      in \<lparr>rtr_cfg = cfg', rtr_classifier = rule_score\<rparr>)"

definition selectModel :: "router \<Rightarrow> string \<Rightarrow> message list \<Rightarrow> string \<Rightarrow> string \<times> bool \<times> rat" where
  "selectModel r msg history primaryModel =
     (let features = extractFeatures msg history;
          score = rtr_classifier r features
      in if score < rcfg_Threshold (rtr_cfg r) then (rcfg_LightModel (rtr_cfg r), True, score)
         else (primaryModel, False, score))"

definition lightModel :: "router \<Rightarrow> string" where
  "lightModel r = rcfg_LightModel (rtr_cfg r)"

definition threshold :: "router \<Rightarrow> rat" where
  "threshold r = rcfg_Threshold (rtr_cfg r)"

section \<open>Lemmas\<close>

text \<open>How the features order by complexity.\<close>

definition feature_le :: "features \<Rightarrow> features \<Rightarrow> bool" where
  "feature_le f g \<longleftrightarrow> ft_TokenEstimate f \<le> ft_TokenEstimate g \<and> ft_CodeBlockCount f \<le> ft_CodeBlockCount g
     \<and> ft_RecentToolCalls f \<le> ft_RecentToolCalls g \<and> ft_ConversationDepth f \<le> ft_ConversationDepth g
     \<and> (ft_HasAttachments f \<longrightarrow> ft_HasAttachments g)"

lemma score_bounds: "0 \<le> rule_score f" "rule_score f \<le> 1"
  by (simp_all add: rule_score_def Let_def)

definition token_weight :: "int \<Rightarrow> rat" where
  "token_weight t = (if t > 200 then 35 / 100 else if t > 50 then 15 / 100 else 0)"

definition tool_weight :: "int \<Rightarrow> rat" where
  "tool_weight t = (if t > 3 then 25 / 100 else if t > 0 then 10 / 100 else 0)"

lemma score_sum:
  "rule_score f = (if ft_HasAttachments f then 1 else
     min 1 (token_weight (ft_TokenEstimate f) + (if ft_CodeBlockCount f > 0 then 40 / 100 else 0)
       + tool_weight (ft_RecentToolCalls f) + (if ft_ConversationDepth f > 10 then 10 / 100 else 0)))"
  by (simp add: rule_score_def Let_def token_weight_def tool_weight_def min_def)

lemma weights_mono:
  "a \<le> b \<Longrightarrow> token_weight a \<le> token_weight b" "a \<le> b \<Longrightarrow> tool_weight a \<le> tool_weight b"
  by (auto simp: token_weight_def tool_weight_def)

lemma score_mono: "feature_le f g \<Longrightarrow> rule_score f \<le> rule_score g"
proof -
  assume le: "feature_le f g"
  have w: "token_weight (ft_TokenEstimate f) \<le> token_weight (ft_TokenEstimate g)"
    "tool_weight (ft_RecentToolCalls f) \<le> tool_weight (ft_RecentToolCalls g)"
    using le weights_mono by (auto simp: feature_le_def)
  then show ?thesis
  proof (cases "ft_HasAttachments g")
    case True
    then show ?thesis using score_bounds(2) [of f] by (simp add: score_sum)
  next
    case False
    then have "\<not> ft_HasAttachments f" using le by (simp add: feature_le_def)
    with False w le show ?thesis
      unfolding score_sum feature_le_def by (auto intro!: min.mono add_mono)
  qed
qed

lemma str_count_le: "sep \<noteq> [] \<Longrightarrow> str_count sep s * length sep \<le> length s"
proof (induction sep s rule: str_count.induct)
  case (1 sep s)
  show ?case
  proof (cases "s = []")
    case False
    show ?thesis
    proof (cases "prefix sep s")
      case True
      then have "length sep \<le> length s" by (rule prefix_length_le)
      with 1 True False show ?thesis by (subst str_count.simps) auto
    next
      case nf: False
      have "str_count sep s = str_count sep (tl s)" using False nf 1(3) by (subst str_count.simps) simp
      moreover have "str_count sep (tl s) * length sep \<le> length (tl s)" using 1(2,3) False nf by simp
      ultimately show ?thesis by simp
    qed
  qed (simp add: str_count.simps)
qed

lemma estimateTokens_bounds: "0 \<le> estimateTokens m" "estimateTokens m \<le> int (rune_count m)"
proof -
  have "length (filter is_cjk (runes m)) \<le> rune_count m" by (simp add: rune_count_def)
  then show "0 \<le> estimateTokens m" "estimateTokens m \<le> int (rune_count m)"
    by (auto simp: estimateTokens_def Let_def)
qed

section \<open>Properties\<close>

lemma complexity_score_contract_facts:
  "0 \<le> rule_score f \<and> rule_score f \<le> 1"
  "feature_le f g \<Longrightarrow> rule_score f \<le> rule_score g"
  "ft_HasAttachments f \<Longrightarrow> rule_score f = 1"
  "rcfg_Threshold cfg \<le> 0 \<Longrightarrow> f = extractFeatures msg h \<Longrightarrow>
     selectModel (newRouter cfg) msg h p
       = (if \<not> ft_HasAttachments f \<and> ft_CodeBlockCount f \<le> 0 \<and> ft_TokenEstimate f \<le> 200
             \<and> \<not> (ft_TokenEstimate f > 50 \<and> ft_RecentToolCalls f > 3)
             \<and> \<not> (ft_RecentToolCalls f > 3 \<and> ft_ConversationDepth f > 10)
             \<and> \<not> (ft_TokenEstimate f > 50 \<and> ft_RecentToolCalls f > 0 \<and> ft_ConversationDepth f > 10)
          then (rcfg_LightModel cfg, True, rule_score f) else (p, False, rule_score f))"
proof -
  show "0 \<le> rule_score f \<and> rule_score f \<le> 1" using score_bounds by simp
  show "feature_le f g \<Longrightarrow> rule_score f \<le> rule_score g" by (rule score_mono)
  show "ft_HasAttachments f \<Longrightarrow> rule_score f = 1" by (simp add: rule_score_def)
  have "rule_score f < 35 / 100 \<longleftrightarrow> \<not> ft_HasAttachments f \<and> ft_CodeBlockCount f \<le> 0 \<and> ft_TokenEstimate f \<le> 200
             \<and> \<not> (ft_TokenEstimate f > 50 \<and> ft_RecentToolCalls f > 3)
             \<and> \<not> (ft_RecentToolCalls f > 3 \<and> ft_ConversationDepth f > 10)
             \<and> \<not> (ft_TokenEstimate f > 50 \<and> ft_RecentToolCalls f > 0 \<and> ft_ConversationDepth f > 10)" for f
    unfolding score_sum token_weight_def tool_weight_def by auto
  then show "rcfg_Threshold cfg \<le> 0 \<Longrightarrow> f = extractFeatures msg h \<Longrightarrow>
     selectModel (newRouter cfg) msg h p
       = (if \<not> ft_HasAttachments f \<and> ft_CodeBlockCount f \<le> 0 \<and> ft_TokenEstimate f \<le> 200
             \<and> \<not> (ft_TokenEstimate f > 50 \<and> ft_RecentToolCalls f > 3)
             \<and> \<not> (ft_RecentToolCalls f > 3 \<and> ft_ConversationDepth f > 10)
             \<and> \<not> (ft_TokenEstimate f > 50 \<and> ft_RecentToolCalls f > 0 \<and> ft_ConversationDepth f > 10)
          then (rcfg_LightModel cfg, True, rule_score f) else (p, False, rule_score f))"
    by (simp add: selectModel_def newRouter_def defaultThreshold_def Let_def)
qed

text \<open>The score lies in [0, 1], is monotone in every feature, and is 1 for a message with
  attachments. With the default threshold the light model is chosen exactly for messages without
  attachments and complete code blocks, of at most 200 estimated tokens, whose remaining signals do
  not add up: not medium length with more than three recent tool calls, not more than three recent
  tool calls in a deep conversation, and not medium length with some tool calls in a deep
  conversation.\<close>

theorem complexity_score_contract:
  "0 \<le> rule_score f \<and> rule_score f \<le> 1
     \<and> (feature_le f g \<longrightarrow> rule_score f \<le> rule_score g)
     \<and> (ft_HasAttachments f \<longrightarrow> rule_score f = 1)
     \<and> (rcfg_Threshold cfg \<le> 0 \<longrightarrow> f = extractFeatures msg h \<longrightarrow>
     selectModel (newRouter cfg) msg h p
       = (if \<not> ft_HasAttachments f \<and> ft_CodeBlockCount f \<le> 0 \<and> ft_TokenEstimate f \<le> 200
             \<and> \<not> (ft_TokenEstimate f > 50 \<and> ft_RecentToolCalls f > 3)
             \<and> \<not> (ft_RecentToolCalls f > 3 \<and> ft_ConversationDepth f > 10)
             \<and> \<not> (ft_TokenEstimate f > 50 \<and> ft_RecentToolCalls f > 0 \<and> ft_ConversationDepth f > 10)
          then (rcfg_LightModel cfg, True, rule_score f) else (p, False, rule_score f)))"
  using complexity_score_contract_facts by blast

lemma ascii_tokens: "\<forall>c\<in>set s. byte_of c < 128 \<Longrightarrow> estimateTokens s = int (length s) div 4"
proof -
  assume a: "\<forall>c\<in>set s. byte_of c < 128"
  then have "runes s = map byte_of s" by (simp add: runes_def rune_list_ascii)
  moreover from a have "filter is_cjk (map byte_of s) = []" by (auto simp: filter_empty_conv is_cjk_def)
  ultimately show ?thesis using a by (simp add: estimateTokens_def rune_count_ascii Let_def)
qed

theorem complexity_score_contract_witness:
  "fst (selectModel (newRouter \<lparr>rcfg_LightModel = ''mini'', rcfg_Threshold = 0\<rparr>) ''hi'' [] ''big'') = ''mini''
   \<and> rule_score (extractFeatures ''hi'' []) \<le> rule_score (extractFeatures ''hi there'' [])"
proof -
  have t: "rcfg_Threshold \<lparr>rcfg_LightModel = ''mini'', rcfg_Threshold = 0\<rparr> \<le> 0" by simp
  have a: "hasAttachments ''hi'' = False" by code_simp
  have tok: "estimateTokens ''hi'' = 0" "estimateTokens ''hi there'' = 2"
    by (subst ascii_tokens; simp add: byte_of_def)+
  have blk: "countCodeBlocks ''hi'' = 0" "countCodeBlocks ''hi there'' = 0"
    by (simp_all add: countCodeBlocks_def str_count.simps)
  have le: "feature_le (extractFeatures ''hi'' []) (extractFeatures ''hi there'' [])"
    by (simp add: feature_le_def extractFeatures_def a tok blk)
  show ?thesis
    using complexity_score_contract [where cfg = "\<lparr>rcfg_LightModel = ''mini'', rcfg_Threshold = 0\<rparr>"
        and f = "extractFeatures ''hi'' []" and g = "extractFeatures ''hi there'' []"
        and msg = "''hi''" and h = "[]" and p = "''big''"] t le a tok blk
    by (simp add: extractFeatures_def countRecentToolCalls_def lookbackWindow_def)
qed

end
