(* ===== verification/ContextBudget.thy ===== *)
theory ContextBudget
  imports GoValue
begin

text \<open>
  \<^verbatim>\<open>pkg/tokenizer/estimator.go\<close> and \<^verbatim>\<open>pkg/agent/context_budget.go\<close>: the token estimate of a
  request, the budget test before an LLM call and the choice of a history cut that tears no
  tool-call sequence apart. The length of the JSON text of a tool's parameters
  (\<^verbatim>\<open>json.Marshal\<close>, which may fail) is the parameter \<open>marshal_len\<close>. Go's \<^verbatim>\<open>int\<close> sums are not
  wrapped: they count characters of texts in memory.
\<close>

section \<open>The estimate\<close>

definition tool_call_chars :: "tool_call \<Rightarrow> int" where
  "tool_call_chars tc =
     int (length (tc_ID tc)) + int (length (tc_Type tc))
     + (case tc_Function tc of
          Some f \<Rightarrow> int (length (fc_Name f)) + int (length (fc_Arguments f))
        | None \<Rightarrow> int (length (tc_Name tc)))"

definition estimateMessageTokens :: "message \<Rightarrow> int" where
  "estimateMessageTokens msg =
     (let contentChars = int (rune_count (msg_Content msg));
          systemPartsChars =
            (if msg_SystemParts msg \<noteq> []
             then sum_list (map (\<lambda>part. int (rune_count (cb_Text part))) (msg_SystemParts msg))
                  + int (length (msg_SystemParts msg)) * 20
             else 0);
          chars0 = (if systemPartsChars > contentChars then systemPartsChars else contentChars);
          chars1 = chars0 + int (rune_count (msg_ReasoningContent msg));
          chars2 = chars1 + sum_list (map tool_call_chars (msg_ToolCalls msg));
          chars3 = (if msg_ToolCallID msg \<noteq> [] then chars2 + int (length (msg_ToolCallID msg)) else chars2);
          chars = chars3 + 12;
          tokens = chars * 2 div 5
      in tokens + int (length (msg_Media msg)) * 256)"

definition tool_def_chars :: "(object \<Rightarrow> nat option) \<Rightarrow> tool_definition \<Rightarrow> int" where
  "tool_def_chars marshal_len d =
     int (length (tfd_Name (td_Function d))) + int (length (tfd_Description (td_Function d)))
     + (case tfd_Parameters (td_Function d) of
          None \<Rightarrow> 0
        | Some p \<Rightarrow> (case marshal_len p of None \<Rightarrow> 0 | Some n \<Rightarrow> int n))
     + 20"

definition estimateToolDefsTokens :: "(object \<Rightarrow> nat option) \<Rightarrow> tool_definition list \<Rightarrow> int" where
  "estimateToolDefsTokens marshal_len defs =
     (if defs = [] then 0 else sum_list (map (tool_def_chars marshal_len) defs) * 2 div 5)"

definition isOverContextBudget ::
  "(object \<Rightarrow> nat option) \<Rightarrow> int \<Rightarrow> message list \<Rightarrow> tool_definition list \<Rightarrow> int \<Rightarrow> bool" where
  "isOverContextBudget marshal_len contextWindow messages toolDefs maxTokens \<longleftrightarrow>
     (let msgTokens = sum_list (map estimateMessageTokens messages);
          toolTokens = estimateToolDefsTokens marshal_len toolDefs;
          total = msgTokens + toolTokens + maxTokens
      in total > contextWindow)"

section \<open>Turn boundaries\<close>

fun user_indices :: "nat \<Rightarrow> message list \<Rightarrow> nat list" where
  "user_indices i [] = []"
| "user_indices i (m # ms) =
     (if msg_Role m = ''user'' then i # user_indices (Suc i) ms else user_indices (Suc i) ms)"

definition parseTurnBoundaries :: "message list \<Rightarrow> nat list" where
  "parseTurnBoundaries history = user_indices 0 history"

definition isSafeBoundary :: "message list \<Rightarrow> int \<Rightarrow> bool" where
  "isSafeBoundary history index \<longleftrightarrow>
     (if index \<le> 0 \<or> index \<ge> int (length history) then True
      else msg_Role (history ! nat index) = ''user'')"

definition findSafeBoundary :: "message list \<Rightarrow> int \<Rightarrow> int" where
  "findSafeBoundary history targetIndex =
     (if history = [] then 0
      else if targetIndex \<le> 0 then 0
      else if targetIndex \<ge> int (length history) then int (length history)
      else
        let turns = parseTurnBoundaries history
        in if turns = [] then targetIndex
           else
             let backward = fold (\<lambda>t b. if int t \<le> targetIndex then int t else b) turns (- 1)
             in if backward > 0 then backward
                else case List.find (\<lambda>t. int t > targetIndex) turns of
                       Some t \<Rightarrow> int t
                     | None \<Rightarrow> 0)"

section \<open>Lemmas\<close>

lemma user_indices_eq:
  "user_indices i ms = map (\<lambda>k. i + k) (filter (\<lambda>k. msg_Role (ms ! k) = ''user'') [0..<length ms])"
proof (induction ms arbitrary: i)
  case (Cons m ms)
  have "[0..<length (m # ms)] = 0 # map Suc [0..<length ms]"
    by (simp add: map_Suc_upt upt_conv_Cons del: upt_Suc)
  then show ?case using Cons by (simp add: filter_map comp_def)
qed simp

lemma turns_eq:
  "parseTurnBoundaries h = filter (\<lambda>k. msg_Role (h ! k) = ''user'') [0..<length h]"
  by (simp add: parseTurnBoundaries_def user_indices_eq)

text \<open>The scan for the last boundary at or before the target.\<close>

lemma fold_last:
  "fold (\<lambda>t b. if P t then int t else b) ts b0
     = (if \<exists>t\<in>set ts. P t then int (last (filter P ts)) else b0)"
  by (induction ts arbitrary: b0) (auto simp: filter_empty_conv)

lemma sorted_last: "sorted (xs :: nat list) \<Longrightarrow> x \<in> set xs \<Longrightarrow> x \<le> last xs"
proof (induction xs)
  case (Cons a xs)
  then show ?case by (cases "xs = []") auto
qed simp

lemma last_filter_max:
  assumes "sorted (ts :: nat list)" "\<exists>t\<in>set ts. P t"
  shows "last (filter P ts) \<in> set ts \<and> P (last (filter P ts))
         \<and> (\<forall>t\<in>set ts. P t \<longrightarrow> t \<le> last (filter P ts))"
proof -
  have ne: "filter P ts \<noteq> []" using assms(2) by (simp add: filter_empty_conv)
  have m: "last (filter P ts) \<in> set (filter P ts)" using ne by (rule last_in_set)
  have "sorted (filter P ts)" using assms(1) by (rule sorted_wrt_filter)
  then have "\<forall>t\<in>set (filter P ts). t \<le> last (filter P ts)"
    by (auto intro: sorted_last)
  with m show ?thesis by auto
qed

lemma find_sorted_first:
  assumes "sorted (ts :: nat list)" "List.find P ts = Some t"
  shows "t \<in> set ts \<and> P t \<and> (\<forall>u\<in>set ts. P u \<longrightarrow> t \<le> u)"
  using assms by (induction ts) (auto split: if_splits)

text \<open>What the search returns, for a target strictly inside a history that has a user message.\<close>

lemma findSafeBoundary_cases:
  assumes t: "0 < t" "t < int (length h)" and u: "\<exists>k<length h. msg_Role (h ! k) = ''user''"
  defines "r \<equiv> findSafeBoundary h t"
  shows "(\<exists>k. r = int k \<and> 0 < k \<and> k < length h \<and> int k \<le> t \<and> msg_Role (h ! k) = ''user''
             \<and> (\<forall>j<length h. int j \<le> t \<and> msg_Role (h ! j) = ''user'' \<longrightarrow> j \<le> k))
       \<or> ((\<forall>j<length h. 0 < j \<and> int j \<le> t \<longrightarrow> msg_Role (h ! j) \<noteq> ''user'')
           \<and> (\<exists>k. r = int k \<and> t < int k \<and> k < length h \<and> msg_Role (h ! k) = ''user''
                 \<and> (\<forall>j<length h. t < int j \<and> msg_Role (h ! j) = ''user'' \<longrightarrow> k \<le> j)))
       \<or> ((\<forall>j<length h. 0 < j \<longrightarrow> msg_Role (h ! j) \<noteq> ''user'') \<and> r = 0)"
proof -
  define ts where "ts = parseTurnBoundaries h"
  define P where "P = (\<lambda>k :: nat. int k \<le> t)"
  have mem: "k \<in> set ts \<longleftrightarrow> k < length h \<and> msg_Role (h ! k) = ''user''" for k
    by (auto simp: ts_def turns_eq)
  have so: "sorted ts" by (simp add: ts_def turns_eq sorted_wrt_filter)
  have ne: "ts \<noteq> []" using u mem by (metis empty_iff empty_set)
  have hne: "h \<noteq> []" using t by auto
  define b where "b = fold (\<lambda>k b. if P k then int k else b) ts (- 1)"
  have r: "r = (if b > 0 then b else case List.find (\<lambda>k. int k > t) ts of Some k \<Rightarrow> int k | None \<Rightarrow> 0)"
    using t hne ne by (simp add: r_def findSafeBoundary_def ts_def [symmetric] b_def P_def Let_def)
  have b: "b = (if \<exists>k\<in>set ts. P k then int (last (filter P ts)) else - 1)"
    unfolding b_def by (rule fold_last)
  show ?thesis
  proof (cases "b > 0")
    case True
    then have ex: "\<exists>k\<in>set ts. P k" using b by (auto split: if_splits)
    from last_filter_max [OF so ex] True show ?thesis
      using r b ex mem by (intro disjI1 exI [of _ "last (filter P ts)"]) (auto simp: P_def)
  next
    case False
    have none: "\<forall>j<length h. 0 < j \<and> int j \<le> t \<longrightarrow> msg_Role (h ! j) \<noteq> ''user''"
    proof (intro allI impI notI)
      fix j assume j: "j < length h" "0 < j \<and> int j \<le> t" "msg_Role (h ! j) = ''user''"
      then have ex: "\<exists>k\<in>set ts. P k" using mem by (auto simp: P_def)
      from last_filter_max [OF so ex] j mem have "j \<le> last (filter P ts)" by (auto simp: P_def)
      with ex b False j show False by auto
    qed
    show ?thesis
    proof (cases "List.find (\<lambda>k. int k > t) ts")
      case None
      then have "\<forall>j<length h. 0 < j \<longrightarrow> msg_Role (h ! j) \<noteq> ''user''"
        using none mem by (fastforce simp: find_None_iff not_less)
      with None False r show ?thesis by auto
    next
      case (Some k)
      from find_sorted_first [OF so Some] mem show ?thesis
        using none False r Some by auto
    qed
  qed
qed

text \<open>Tool results stay with their calls: every tool message answers a call made earlier in its own
  turn.\<close>

definition calls_of :: "message \<Rightarrow> string list" where
  "calls_of m = map tc_ID (msg_ToolCalls m)"

definition tool_paired :: "message list \<Rightarrow> bool" where
  "tool_paired h \<longleftrightarrow>
     (\<forall>i<length h. msg_Role (h ! i) = ''tool'' \<longrightarrow>
        (\<exists>j<i. msg_ToolCallID (h ! i) \<in> set (calls_of (h ! j))
             \<and> (\<forall>k\<in>{j<..i}. msg_Role (h ! k) \<noteq> ''user'')))"

lemma tool_paired_drop:
  assumes p: "tool_paired h" and k: "k < length h" "msg_Role (h ! k) = ''user''"
  shows "tool_paired (drop k h)"
  unfolding tool_paired_def
proof (intro allI impI)
  fix i assume i: "i < length (drop k h)" "msg_Role (drop k h ! i) = ''tool''"
  then have "k + i < length h" "msg_Role (h ! (k + i)) = ''tool''" by auto
  then obtain j where j: "j < k + i" "msg_ToolCallID (h ! (k + i)) \<in> set (calls_of (h ! j))"
    "\<forall>l\<in>{j<..k + i}. msg_Role (h ! l) \<noteq> ''user''"
    using p unfolding tool_paired_def by blast
  have kj: "k \<le> j" using j(3) k(2) by (rule_tac ccontr) auto
  show "\<exists>j<i. msg_ToolCallID (drop k h ! i) \<in> set (calls_of (drop k h ! j))
      \<and> (\<forall>l\<in>{j<..i}. msg_Role (drop k h ! l) \<noteq> ''user'')"
    using j kj i k by (intro exI [of _ "j - k"]) auto
qed

lemma tool_call_chars_nonneg: "0 \<le> tool_call_chars tc"
  by (simp add: tool_call_chars_def split: option.splits)

lemma tool_def_chars_nonneg: "20 \<le> tool_def_chars ml d"
  by (simp add: tool_def_chars_def split: option.splits)

lemma sum_list_nonneg_map: "(\<And>x. 0 \<le> f x) \<Longrightarrow> 0 \<le> sum_list (map f xs :: int list)"
  by (induction xs) auto

lemma estimate_lower:
  "int (rune_count (msg_Content m) + rune_count (msg_ReasoningContent m) + length (msg_ToolCallID m) + 12) * 2 div 5
     + 256 * int (length (msg_Media m)) \<le> estimateMessageTokens m"
proof -
  have tc: "0 \<le> sum_list (map tool_call_chars (msg_ToolCalls m))"
    by (rule sum_list_nonneg_map) (rule tool_call_chars_nonneg)
  show ?thesis
    unfolding estimateMessageTokens_def Let_def
    using tc by (auto intro!: zdiv_mono1)
qed

lemma estimate_ge_4: "4 \<le> estimateMessageTokens m"
proof -
  have "(4::int) = 12 * 2 div 5" by simp
  also have "\<dots> \<le> int (rune_count (msg_Content m) + rune_count (msg_ReasoningContent m)
      + length (msg_ToolCallID m) + 12) * 2 div 5"
    by (rule zdiv_mono1) auto
  finally show ?thesis using estimate_lower [of m] by linarith
qed

lemma estimates_ge: "4 * int (length ms) \<le> sum_list (map estimateMessageTokens ms)"
  using estimate_ge_4 by (induction ms) (auto intro: add_mono)

lemma tool_tokens_mono: "estimateToolDefsTokens ml ds \<le> estimateToolDefsTokens ml (ds @ es)"
proof -
  have nn: "0 \<le> sum_list (map (tool_def_chars ml) xs)" for xs
    using tool_def_chars_nonneg by (intro sum_list_nonneg_map) (meson order.trans zero_le_numeral)
  then show ?thesis
    using nn [of es] by (auto simp: estimateToolDefsTokens_def intro!: zdiv_mono1 div_int_pos_iff [THEN iffD2])
qed

section \<open>Properties\<close>

lemma safe_boundary_spec_facts:
  assumes t: "0 < t" "t < int (length h)" and u: "\<exists>k<length h. msg_Role (h ! k) = ''user''"
  defines "r \<equiv> findSafeBoundary h t"
  shows "isSafeBoundary h r"
    and "tool_paired h \<Longrightarrow> tool_paired (drop (nat r) h)"
    and "0 < r \<and> r \<le> t \<Longrightarrow> msg_Role (h ! nat r) = ''user''
          \<and> (\<forall>j<length h. r < int j \<and> int j \<le> t \<longrightarrow> msg_Role (h ! j) \<noteq> ''user'')"
    and "t < r \<Longrightarrow> msg_Role (h ! nat r) = ''user'' \<and> r < int (length h)
          \<and> (\<forall>j<length h. 0 < j \<and> int j < r \<longrightarrow> msg_Role (h ! j) \<noteq> ''user'')"
    and "r = 0 \<longleftrightarrow> (\<forall>j<length h. 0 < j \<longrightarrow> msg_Role (h ! j) \<noteq> ''user'')"
    and "0 \<le> r"
proof -
  note c = findSafeBoundary_cases [OF t u, folded r_def]
  from c show "isSafeBoundary h r" by (elim disjE exE conjE) (auto simp: isSafeBoundary_def)
  from c show "tool_paired h \<Longrightarrow> tool_paired (drop (nat r) h)"
    by (elim disjE exE conjE) (auto intro: tool_paired_drop)
  from c show "0 < r \<and> r \<le> t \<Longrightarrow> msg_Role (h ! nat r) = ''user''
          \<and> (\<forall>j<length h. r < int j \<and> int j \<le> t \<longrightarrow> msg_Role (h ! j) \<noteq> ''user'')"
    by (elim disjE exE conjE) force+
  show "t < r \<Longrightarrow> msg_Role (h ! nat r) = ''user'' \<and> r < int (length h)
          \<and> (\<forall>j<length h. 0 < j \<and> int j < r \<longrightarrow> msg_Role (h ! j) \<noteq> ''user'')"
  proof -
    assume tr: "t < r"
    with c t(1) obtain k where k: "r = int k" "k < length h" "msg_Role (h ! k) = ''user''"
      and lo: "\<forall>j<length h. 0 < j \<and> int j \<le> t \<longrightarrow> msg_Role (h ! j) \<noteq> ''user''"
      and hi: "\<forall>j<length h. t < int j \<and> msg_Role (h ! j) = ''user'' \<longrightarrow> k \<le> j"
      by (elim disjE exE conjE) auto
    have "msg_Role (h ! j) \<noteq> ''user''" if "j < length h" "0 < j" "int j < r" for j
    proof (cases "int j \<le> t")
      case False
      then show ?thesis using hi that k(1) by (metis leD not_le of_nat_less_iff)
    qed (use lo that in blast)
    with k show ?thesis by simp
  qed
  show "r = 0 \<longleftrightarrow> (\<forall>j<length h. 0 < j \<longrightarrow> msg_Role (h ! j) \<noteq> ''user'')"
  proof
    assume "r = 0"
    with c t(1) show "\<forall>j<length h. 0 < j \<longrightarrow> msg_Role (h ! j) \<noteq> ''user''"
      by (elim disjE exE conjE) simp_all
  next
    assume none: "\<forall>j<length h. 0 < j \<longrightarrow> msg_Role (h ! j) \<noteq> ''user''"
    from c show "r = 0"
    proof (elim disjE exE conjE)
      fix k assume "0 < k" "k < length h" "msg_Role (h ! k) = ''user''"
      with none show ?thesis by blast
    next
      fix k assume "t < int k" "k < length h" "msg_Role (h ! k) = ''user''"
      with none t(1) show ?thesis by auto
    qed
  qed
  from c show "0 \<le> r" by (elim disjE exE conjE) auto
qed

text \<open>Choosing where to cut a history: for a target strictly inside a history that has a
  user message the search returns the last user message at or before the target (other than the
  very first message), failing that the first one after it, and 0 when the whole history is one
  turn. The result is always a safe boundary in the sense of the other function, and cutting there
  never separates a tool result from the call it answers: a paired history stays paired after
  dropping the part before the boundary.\<close>

theorem safe_boundary_spec:
  assumes t: "0 < t" "t < int (length h)" and u: "\<exists>k<length h. msg_Role (h ! k) = ''user''"
  defines "r \<equiv> findSafeBoundary h t"
  shows "isSafeBoundary h r
     \<and> (tool_paired h \<longrightarrow> tool_paired (drop (nat r) h))
     \<and> (0 < r \<and> r \<le> t \<longrightarrow> msg_Role (h ! nat r) = ''user''
          \<and> (\<forall>j<length h. r < int j \<and> int j \<le> t \<longrightarrow> msg_Role (h ! j) \<noteq> ''user''))
     \<and> (t < r \<longrightarrow> msg_Role (h ! nat r) = ''user'' \<and> r < int (length h)
          \<and> (\<forall>j<length h. 0 < j \<and> int j < r \<longrightarrow> msg_Role (h ! j) \<noteq> ''user''))
     \<and> (r = 0 \<longleftrightarrow> (\<forall>j<length h. 0 < j \<longrightarrow> msg_Role (h ! j) \<noteq> ''user''))
     \<and> 0 \<le> r"
  using safe_boundary_spec_facts [OF t u, folded r_def] by blast

definition demo_history :: "message list" where
  "demo_history =
     [plain_message ''user'' ''hi'', plain_message ''assistant'' ''hello'',
      plain_message ''user'' ''run'', plain_message ''assistant'' ''done'']"

theorem safe_boundary_spec_witness:
  "findSafeBoundary demo_history 3 = 2 \<and> isSafeBoundary demo_history 2
   \<and> msg_Role (demo_history ! 2) = ''user'' \<and> tool_paired (drop 2 demo_history)"
proof -
  have f: "findSafeBoundary demo_history 3 = 2" by code_simp
  have l: "0 < (3::int)" "3 < int (length demo_history)"
    "\<exists>k<length demo_history. msg_Role (demo_history ! k) = ''user''"
    by (auto simp: demo_history_def plain_message_def intro: exI [of _ 0])
  have "\<forall>m\<in>set demo_history. msg_Role m \<noteq> ''tool''"
    by (simp add: demo_history_def plain_message_def)
  then have p: "tool_paired demo_history" unfolding tool_paired_def using nth_mem by blast
  show ?thesis
    using safe_boundary_spec [OF l] p
    by (simp add: f)
qed

lemma context_budget_monotone_facts:
  "int (rune_count (msg_Content m) + rune_count (msg_ReasoningContent m) + length (msg_ToolCallID m) + 12) * 2 div 5
     + 256 * int (length (msg_Media m)) \<le> estimateMessageTokens m \<and> 4 \<le> estimateMessageTokens m"
  "isOverContextBudget ml w ms ds r \<Longrightarrow> r \<le> r' \<Longrightarrow>
     isOverContextBudget ml w (ms @ ms') (ds @ ds') r'"
  "\<not> isOverContextBudget ml w ms ds r \<Longrightarrow> 4 * int (length ms) + r \<le> w"
proof -
  show "int (rune_count (msg_Content m) + rune_count (msg_ReasoningContent m) + length (msg_ToolCallID m) + 12) * 2 div 5
     + 256 * int (length (msg_Media m)) \<le> estimateMessageTokens m \<and> 4 \<le> estimateMessageTokens m"
    using estimate_lower estimate_ge_4 by simp
  show "isOverContextBudget ml w ms ds r \<Longrightarrow> r \<le> r' \<Longrightarrow>
     isOverContextBudget ml w (ms @ ms') (ds @ ds') r'"
    using estimates_ge [of ms'] tool_tokens_mono [of ml ds ds']
    by (simp add: isOverContextBudget_def Let_def)
  have "0 \<le> estimateToolDefsTokens ml ds"
    using tool_tokens_mono [of ml "[]" ds] by (simp add: estimateToolDefsTokens_def)
  then show "\<not> isOverContextBudget ml w ms ds r \<Longrightarrow> 4 * int (length ms) + r \<le> w"
    using estimates_ge [of ms] by (simp add: isOverContextBudget_def Let_def)
qed

text \<open>The token estimate and the budget test: a message costs at least two tokens for
  every five characters of its text, its reasoning, its call id and the fixed overhead, and 256
  tokens for each media item, so never less than four. The test is monotone: a request over the
  budget stays over it when messages or tools are added or the reserve grows, and a request within
  the budget has room for its reserve and at most a quarter of the rest as messages.\<close>

theorem context_budget_monotone:
  "int (rune_count (msg_Content m) + rune_count (msg_ReasoningContent m) + length (msg_ToolCallID m) + 12) * 2 div 5
     + 256 * int (length (msg_Media m)) \<le> estimateMessageTokens m \<and> 4 \<le> estimateMessageTokens m
     \<and> (isOverContextBudget ml w ms ds r \<longrightarrow> r \<le> r' \<longrightarrow>
     isOverContextBudget ml w (ms @ ms') (ds @ ds') r')
     \<and> (\<not> isOverContextBudget ml w ms ds r \<longrightarrow> 4 * int (length ms) + r \<le> w)"
  using context_budget_monotone_facts by blast

theorem context_budget_monotone_witness:
  "isOverContextBudget (\<lambda>_. None) 5 (demo_history @ demo_history) [] 2 \<and> 4 * int (length demo_history) + 2 \<le> 100"
proof -
  have o: "isOverContextBudget (\<lambda>_. None) 5 demo_history [] 1" by code_simp
  have n: "\<not> isOverContextBudget (\<lambda>_. None) 100 demo_history [] 2" by code_simp
  show ?thesis
    using context_budget_monotone [where ml = "\<lambda>_. None" and w = 5 and ms = demo_history and ds = "[]" and r = 1
        and r' = 2 and ms' = demo_history and ds' = "[]"]
      context_budget_monotone [where ml = "\<lambda>_. None" and w = 100 and ms = demo_history and ds = "[]" and r = 2] o n
    by simp
qed

end
