(* ===== verification/Fifo.thy ===== *)
theory Fifo
  imports GoValue
begin

text \<open>
  The interface of a keyed bounded queue: what a client may rely on when it pushes under a key and
  polls it. Conservation is stated over a log of what was accepted and what was handed out, so
  that it composes over any sequence of calls.
\<close>

datatype ('k, 'm) qlog = Pushed 'k 'm | Refused 'k 'm | Popped 'k "'m list"

fun accepted :: "'k \<Rightarrow> ('k, 'm) qlog list \<Rightarrow> 'm list" where
  "accepted k [] = []"
| "accepted k (Pushed j m # l) = (if j = k then m # accepted k l else accepted k l)"
| "accepted k (Refused j m # l) = accepted k l"
| "accepted k (Popped j ms # l) = accepted k l"

fun delivered :: "'k \<Rightarrow> ('k, 'm) qlog list \<Rightarrow> 'm list" where
  "delivered k [] = []"
| "delivered k (Pushed j m # l) = delivered k l"
| "delivered k (Refused j m # l) = delivered k l"
| "delivered k (Popped j ms # l) = (if j = k then ms @ delivered k l else delivered k l)"

lemma accepted_append [simp]: "accepted k (l @ l') = accepted k l @ accepted k l'"
  by (induction k l rule: accepted.induct) auto

lemma delivered_append [simp]: "delivered k (l @ l') = delivered k l @ delivered k l'"
  by (induction k l rule: delivered.induct) auto

locale keyed_queue =
  fixes content :: "'q \<Rightarrow> 'k \<Rightarrow> 'm list"
    and inv :: "'q \<Rightarrow> bool"
    and cap :: nat
    and push :: "'q \<Rightarrow> 'k \<Rightarrow> 'm \<Rightarrow> 'q option"
    and pop :: "'q \<Rightarrow> 'k \<Rightarrow> 'm list \<times> 'q"
  assumes push_content: "inv q \<Longrightarrow> push q k m = Some q' \<Longrightarrow>
      content q' k = content q k @ [m] \<and> (\<forall>j. j \<noteq> k \<longrightarrow> content q' j = content q j) \<and> inv q'"
    and push_full: "inv q \<Longrightarrow> push q k m = None \<longleftrightarrow> cap \<le> length (content q k)"
    and pop_content: "inv q \<Longrightarrow> pop q k = (ms, q') \<Longrightarrow>
      content q k = ms @ content q' k \<and> (\<forall>j. j \<noteq> k \<longrightarrow> content q' j = content q j) \<and> inv q'"
    and pop_progress: "inv q \<Longrightarrow> content q k \<noteq> [] \<Longrightarrow> fst (pop q k) \<noteq> []"
    and inv_bound: "inv q \<Longrightarrow> length (content q k) \<le> cap"
begin

definition conserves :: "'q \<Rightarrow> ('k, 'm) qlog list \<Rightarrow> 'q \<Rightarrow> bool" where
  "conserves q l q' \<longleftrightarrow> inv q' \<and> (\<forall>k. content q k @ accepted k l = delivered k l @ content q' k)"

lemma conserves_refl: "inv q \<Longrightarrow> conserves q [] q"
  by (simp add: conserves_def)

lemma conserves_trans: "conserves q l q' \<Longrightarrow> conserves q' l' q'' \<Longrightarrow> conserves q (l @ l') q''"
  unfolding conserves_def by (metis accepted_append append.assoc delivered_append)

lemma conserves_push: "inv q \<Longrightarrow> push q k m = Some q' \<Longrightarrow> conserves q [Pushed k m] q'"
  using push_content [of q k m q'] by (auto simp: conserves_def)

lemma conserves_refused: "inv q \<Longrightarrow> conserves q [Refused k m] q"
  by (simp add: conserves_def)

lemma conserves_pop: "inv q \<Longrightarrow> pop q k = (ms, q') \<Longrightarrow> conserves q [Popped k ms] q'"
  using pop_content [of q k ms q'] by (auto simp: conserves_def)

lemma conserves_FIFO:
  "conserves q l q' \<Longrightarrow> content q k = [] \<Longrightarrow>
     accepted k l = delivered k l @ content q' k \<and> length (content q' k) \<le> cap"
  using inv_bound unfolding conserves_def by (metis append_Nil)

text \<open>Polling a key as often as it has messages empties it and yields them in order.\<close>

fun pop_times :: "nat \<Rightarrow> 'q \<Rightarrow> 'k \<Rightarrow> 'm list \<times> 'q" where
  "pop_times 0 q k = ([], q)"
| "pop_times (Suc n) q k =
     (let (ms, q1) = pop q k; (ms', q2) = pop_times n q1 k in (ms @ ms', q2))"

lemma pop_times_drains:
  "inv q \<Longrightarrow> length (content q k) \<le> n \<Longrightarrow> pop_times n q k = (ms, q') \<Longrightarrow>
     ms = content q k \<and> content q' k = []"
proof (induction n arbitrary: q ms q')
  case (Suc n)
  obtain ms1 q1 where p: "pop q k = (ms1, q1)" by fastforce
  obtain ms2 q2 where r: "pop_times n q1 k = (ms2, q2)" by fastforce
  have c: "content q k = ms1 @ content q1 k" "inv q1"
    using pop_content [OF Suc.prems(1) p] by simp_all
  have "length (content q1 k) \<le> n"
  proof (cases "content q k = []")
    case False
    then have "ms1 \<noteq> []" using pop_progress [OF Suc.prems(1), of k] p by simp
    then have "length (content q k) \<ge> Suc (length (content q1 k))" using c(1) by (cases ms1) auto
    with Suc.prems(2) show ?thesis by linarith
  qed (use c in simp)
  from Suc.IH [OF c(2) this r] Suc.prems(3) p r c show ?case by simp
qed simp

end

end
