(* ===== verification/Steering.thy ===== *)
theory Steering
  imports Fifo "HOL-Library.AList"
begin

text \<open>
  \<^verbatim>\<open>pkg/agent/steering.go\<close>, the queue: user messages waiting to be injected into a running turn,
  one bounded queue per session scope. The Go map is an association list with distinct keys
  (updates and deletions as \<^verbatim>\<open>map[k] = v\<close> and \<^verbatim>\<open>delete\<close>); every operation holds the mutex for
  its whole body, so operations are atomic steps.
\<close>

section \<open>Definitions\<close>

datatype steering_mode = SteeringOneAtATime | SteeringAll

definition maxQueueSize :: nat where "maxQueueSize = 10"

definition manualSteeringScope :: string where "manualSteeringScope = ''__manual__''"

definition parseSteeringMode :: "string \<Rightarrow> steering_mode" where
  "parseSteeringMode s = (if s = ''all'' then SteeringAll else SteeringOneAtATime)"

record steering_queue =
  sq_queues :: "(string \<times> message list) list"
  sq_mode :: steering_mode

definition newSteeringQueue :: "steering_mode \<Rightarrow> steering_queue" where
  "newSteeringQueue mode = \<lparr>sq_queues = [], sq_mode = mode\<rparr>"

definition normalizeSteeringScope :: "string \<Rightarrow> string" where
  "normalizeSteeringScope scope0 =
     (let scope = trim_space scope0 in if scope = [] then manualSteeringScope else scope)"

text \<open>Reading a missing key gives the nil slice.\<close>

definition sq_lookup :: "steering_queue \<Rightarrow> string \<Rightarrow> message list" where
  "sq_lookup sq scope = (case map_of (sq_queues sq) scope of None \<Rightarrow> [] | Some q \<Rightarrow> q)"

definition pushScope :: "steering_queue \<Rightarrow> string \<Rightarrow> message \<Rightarrow> steering_queue option" where
  "pushScope sq scope0 msg =
     (let scope = normalizeSteeringScope scope0;
          queue = sq_lookup sq scope
      in if length queue \<ge> maxQueueSize then None
         else Some (sq\<lparr>sq_queues := AList.update scope (queue @ [msg]) (sq_queues sq)\<rparr>))"

definition sq_push :: "steering_queue \<Rightarrow> message \<Rightarrow> steering_queue option" where
  "sq_push sq msg = pushScope sq manualSteeringScope msg"

definition dequeueLocked :: "steering_queue \<Rightarrow> string \<Rightarrow> message list \<times> steering_queue" where
  "dequeueLocked sq scope =
     (let queue = sq_lookup sq scope
      in case queue of
           [] \<Rightarrow> ([], sq)
         | msg # rest \<Rightarrow>
             (case sq_mode sq of
                SteeringAll \<Rightarrow> (queue, sq\<lparr>sq_queues := AList.delete scope (sq_queues sq)\<rparr>)
              | SteeringOneAtATime \<Rightarrow>
                  ([msg], if rest = [] then sq\<lparr>sq_queues := AList.delete scope (sq_queues sq)\<rparr>
                          else sq\<lparr>sq_queues := AList.update scope rest (sq_queues sq)\<rparr>)))"

definition dequeueScope :: "steering_queue \<Rightarrow> string \<Rightarrow> message list \<times> steering_queue" where
  "dequeueScope sq scope = dequeueLocked sq (normalizeSteeringScope scope)"

definition sq_dequeue :: "steering_queue \<Rightarrow> message list \<times> steering_queue" where
  "sq_dequeue sq = dequeueScope sq manualSteeringScope"

definition dequeueScopeWithFallback :: "steering_queue \<Rightarrow> string \<Rightarrow> message list \<times> steering_queue" where
  "dequeueScopeWithFallback sq scope0 =
     (let scope = trim_space scope0
      in if scope \<noteq> [] then
           (case dequeueLocked sq scope of
              (msgs, sq') \<Rightarrow>
                if length msgs > 0 then (msgs, sq') else dequeueLocked sq' manualSteeringScope)
         else dequeueLocked sq manualSteeringScope)"

definition sq_len :: "steering_queue \<Rightarrow> nat" where
  "sq_len sq = sum_list (map (\<lambda>(k, q). length q) (sq_queues sq))"

definition lenScope :: "steering_queue \<Rightarrow> string \<Rightarrow> nat" where
  "lenScope sq scope = length (sq_lookup sq (normalizeSteeringScope scope))"

definition setMode :: "steering_queue \<Rightarrow> steering_mode \<Rightarrow> steering_queue" where
  "setMode sq mode = sq\<lparr>sq_mode := mode\<rparr>"

definition getMode :: "steering_queue \<Rightarrow> steering_mode" where
  "getMode sq = sq_mode sq"

section \<open>The queue interface\<close>

definition sq_inv :: "steering_queue \<Rightarrow> bool" where
  "sq_inv sq \<longleftrightarrow> distinct (map fst (sq_queues sq))
     \<and> (\<forall>(k, q) \<in> set (sq_queues sq). q \<noteq> [] \<and> length q \<le> maxQueueSize)"

definition push_key :: "steering_queue \<Rightarrow> string \<Rightarrow> message \<Rightarrow> steering_queue option" where
  "push_key sq k msg =
     (let queue = sq_lookup sq k
      in if length queue \<ge> maxQueueSize then None
         else Some (sq\<lparr>sq_queues := AList.update k (queue @ [msg]) (sq_queues sq)\<rparr>))"

lemma pushScope_key: "pushScope sq s m = push_key sq (normalizeSteeringScope s) m"
  by (simp add: pushScope_def push_key_def Let_def)

lemma normalize_idem [simp]: "normalizeSteeringScope (normalizeSteeringScope s) = normalizeSteeringScope s"
proof -
  have "trim_space manualSteeringScope = manualSteeringScope" by code_simp
  moreover have "manualSteeringScope \<noteq> []" by (simp add: manualSteeringScope_def)
  ultimately show ?thesis by (simp add: normalizeSteeringScope_def Let_def)
qed

lemma inv_new [inv_intros]: "sq_inv (newSteeringQueue m)"
  by (simp add: sq_inv_def newSteeringQueue_def)

lemma inv_lookup: "sq_inv sq \<Longrightarrow> length (sq_lookup sq k) \<le> maxQueueSize"
  by (auto simp: sq_inv_def sq_lookup_def split: option.splits dest!: map_of_SomeD)

lemma lookup_update: "sq_lookup (sq\<lparr>sq_queues := AList.update k q (sq_queues sq)\<rparr>) j
    = (if j = k then q else sq_lookup sq j)"
  by (simp add: sq_lookup_def update_conv')

lemma lookup_delete: "sq_lookup (sq\<lparr>sq_queues := AList.delete k (sq_queues sq)\<rparr>) j
    = (if j = k then [] else sq_lookup sq j)"
  by (simp add: sq_lookup_def delete_conv')

lemma set_update_subset: "set (AList.update k v xs) \<subseteq> insert (k, v) (set xs)"
  by (induction xs) auto

lemma set_delete_subset: "set (AList.delete k xs) \<subseteq> set xs"
  by (auto simp: AList.delete_eq)

lemma inv_update [inv_intros]:
  "sq_inv sq \<Longrightarrow> q \<noteq> [] \<Longrightarrow> length q \<le> maxQueueSize \<Longrightarrow>
     sq_inv (sq\<lparr>sq_queues := AList.update k q (sq_queues sq)\<rparr>)"
  using set_update_subset [of k q "sq_queues sq"]
  by (auto simp: sq_inv_def distinct_update)

lemma inv_delete [inv_intros]: "sq_inv sq \<Longrightarrow> sq_inv (sq\<lparr>sq_queues := AList.delete k (sq_queues sq)\<rparr>)"
  using set_delete_subset [of k "sq_queues sq"]
  by (auto simp: sq_inv_def distinct_delete)

interpretation sq: keyed_queue sq_lookup sq_inv maxQueueSize push_key dequeueLocked
proof
  fix q k m q' and ms :: "message list"
  assume i: "sq_inv q"
  show "push_key q k m = None \<longleftrightarrow> maxQueueSize \<le> length (sq_lookup q k)"
    by (simp add: push_key_def Let_def)
  show "length (sq_lookup q k) \<le> maxQueueSize" using i by (rule inv_lookup)
  show "sq_lookup q k \<noteq> [] \<Longrightarrow> fst (dequeueLocked q k) \<noteq> []"
    by (auto simp: dequeueLocked_def Let_def split: list.splits steering_mode.splits)
  show "push_key q k m = Some q' \<Longrightarrow>
      sq_lookup q' k = sq_lookup q k @ [m] \<and> (\<forall>j. j \<noteq> k \<longrightarrow> sq_lookup q' j = sq_lookup q j) \<and> sq_inv q'"
    using i by (auto simp: push_key_def Let_def lookup_update split: if_splits intro!: inv_update)
  assume d: "dequeueLocked q k = (ms, q')"
  show "sq_lookup q k = ms @ sq_lookup q' k \<and> (\<forall>j. j \<noteq> k \<longrightarrow> sq_lookup q' j = sq_lookup q j) \<and> sq_inv q'"
  proof (cases "sq_lookup q k")
    case Nil
    then show ?thesis using d i by (simp add: dequeueLocked_def)
  next
    case (Cons a r)
    then have "length r \<le> maxQueueSize" using inv_lookup [OF i, of k] by simp
    then show ?thesis using d i Cons
      by (auto simp: dequeueLocked_def lookup_delete lookup_update inv_update inv_delete
          split: steering_mode.splits if_splits)
  qed
qed

section \<open>Runs\<close>

datatype sq_op = SqPush string message | SqDequeue string | SqFallback string | SqSetMode steering_mode

definition sq_step :: "steering_queue \<Rightarrow> sq_op \<Rightarrow> (string, message) qlog list \<times> steering_queue" where
  "sq_step sq p =
     (case p of
        SqPush s m \<Rightarrow>
          (case pushScope sq s m of
             None \<Rightarrow> ([Refused (normalizeSteeringScope s) m], sq)
           | Some sq' \<Rightarrow> ([Pushed (normalizeSteeringScope s) m], sq'))
      | SqDequeue s \<Rightarrow>
          (case dequeueScope sq s of (ms, sq') \<Rightarrow> ([Popped (normalizeSteeringScope s) ms], sq'))
      | SqFallback s \<Rightarrow>
          (case dequeueScopeWithFallback sq s of
             (ms, sq') \<Rightarrow>
               ([Popped (if trim_space s \<noteq> [] \<and> sq_lookup sq (trim_space s) \<noteq> []
                         then trim_space s else manualSteeringScope) ms], sq'))
      | SqSetMode m \<Rightarrow> ([], setMode sq m))"

fun sq_run :: "steering_queue \<Rightarrow> sq_op list \<Rightarrow> (string, message) qlog list \<times> steering_queue" where
  "sq_run sq [] = ([], sq)"
| "sq_run sq (p # ps) =
     (case sq_step sq p of (l, sq1) \<Rightarrow> (case sq_run sq1 ps of (l', sq2) \<Rightarrow> (l @ l', sq2)))"

lemma dequeue_empty: "sq_lookup sq k = [] \<Longrightarrow> dequeueLocked sq k = ([], sq)"
  by (simp add: dequeueLocked_def)

lemma fallback_eq:
  assumes "sq_inv sq"
  shows "dequeueScopeWithFallback sq s =
     dequeueLocked sq (if trim_space s \<noteq> [] \<and> sq_lookup sq (trim_space s) \<noteq> []
                       then trim_space s else manualSteeringScope)"
proof (cases "trim_space s \<noteq> [] \<and> sq_lookup sq (trim_space s) \<noteq> []")
  case True
  then have "fst (dequeueLocked sq (trim_space s)) \<noteq> []" using sq.pop_progress [OF assms] by blast
  with True show ?thesis by (simp add: dequeueScopeWithFallback_def case_prod_beta)
next
  case False
  then show ?thesis by (auto simp: dequeueScopeWithFallback_def dequeue_empty Let_def)
qed

lemma step_conserves:
  assumes i: "sq_inv sq" and s: "sq_step sq p = (l, sq')"
  shows "sq.conserves sq l sq'"
proof (cases p)
  case (SqPush sc m)
  then show ?thesis
    using s i by (auto simp: sq_step_def pushScope_key sq.conserves_push sq.conserves_refused split: option.splits)
next
  case (SqDequeue sc)
  then show ?thesis
    using s i by (auto simp: sq_step_def dequeueScope_def sq.conserves_pop split: prod.splits)
next
  case (SqFallback sc)
  then show ?thesis
    using s i fallback_eq [OF i, of sc]
    by (auto simp: sq_step_def intro!: sq.conserves_pop split: prod.splits)
next
  case (SqSetMode m)
  then show ?thesis
    using s i by (auto simp: sq_step_def sq.conserves_def setMode_def sq_inv_def sq_lookup_def)
qed

lemma run_conserves: "sq_inv sq \<Longrightarrow> sq_run sq ps = (l, sq') \<Longrightarrow> sq.conserves sq l sq'"
proof (induction ps arbitrary: sq l)
  case Nil
  then show ?case by (simp add: sq.conserves_refl)
next
  case (Cons p ps)
  then obtain l1 q1 l2 where r: "sq_step sq p = (l1, q1)" "sq_run q1 ps = (l2, sq')" "l = l1 @ l2"
    by (auto split: prod.splits)
  have c: "sq.conserves sq l1 q1" using step_conserves [OF Cons.prems(1) r(1)] .
  then have "sq_inv q1" by (simp add: sq.conserves_def)
  from sq.conserves_trans [OF c Cons.IH [OF this r(2)]] r(3) show ?case by simp
qed

section \<open>Properties\<close>

lemma steering_fifo_facts:
  assumes "sq_run (newSteeringQueue mode) ps = (l, sq)"
  shows "accepted k l = delivered k l @ sq_lookup sq k"
    and "length (sq_lookup sq k) \<le> 10"
    and "pushScope sq s m = None \<longleftrightarrow> lenScope sq s = 10"
    and "sq_len sq = (\<Sum>j\<in>fst ` set (sq_queues sq). length (sq_lookup sq j))"
proof -
  have c: "sq.conserves (newSteeringQueue mode) l sq" by (rule run_conserves [OF inv_new assms])
  then have i: "sq_inv sq" by (simp add: sq.conserves_def)
  have e: "sq_lookup (newSteeringQueue mode) k = []" by (simp add: sq_lookup_def newSteeringQueue_def)
  show "accepted k l = delivered k l @ sq_lookup sq k" "length (sq_lookup sq k) \<le> 10"
    using sq.conserves_FIFO [OF c e] by (simp_all add: maxQueueSize_def)
  show "pushScope sq s m = None \<longleftrightarrow> lenScope sq s = 10"
    using inv_lookup [OF i, of "normalizeSteeringScope s"]
    by (auto simp: pushScope_def lenScope_def maxQueueSize_def Let_def)
  have d: "distinct (map fst xs) \<Longrightarrow> sum_list (map (\<lambda>(k, q). length q) xs)
      = (\<Sum>j\<in>fst ` set xs. length (case map_of xs j of None \<Rightarrow> [] | Some q \<Rightarrow> q))"
    for xs :: "(string \<times> message list) list"
  proof (induction xs)
    case (Cons x xs)
    have "(\<Sum>j\<in>fst ` set xs. length (case map_of (x # xs) j of None \<Rightarrow> [] | Some q \<Rightarrow> q))
        = (\<Sum>j\<in>fst ` set xs. length (case map_of xs j of None \<Rightarrow> [] | Some q \<Rightarrow> q))"
      using Cons.prems by (intro sum.cong) (cases x; auto)+
    with Cons show ?case by (cases x) (simp add: image_iff)
  qed simp
  from i show "sq_len sq = (\<Sum>j\<in>fst ` set (sq_queues sq). length (sq_lookup sq j))"
    unfolding sq_len_def sq_lookup_def by (intro d) (simp add: sq_inv_def)
qed

text \<open>Claim C31. The steering queue neither loses, duplicates nor reorders messages: after any sequence
  of pushes, polls (with or without fallback) and mode changes on a fresh queue, the messages
  accepted under a scope are exactly those handed out for it, in order, followed by those still
  queued; every queue holds at most ten messages, a push is refused exactly when its scope holds
  ten, and the reported length is the number of queued messages.\<close>

theorem steering_fifo:
  assumes "sq_run (newSteeringQueue mode) ps = (l, sq)"
  shows "accepted k l = delivered k l @ sq_lookup sq k
     \<and> length (sq_lookup sq k) \<le> 10
     \<and> (pushScope sq s m = None \<longleftrightarrow> lenScope sq s = 10)
     \<and> sq_len sq = (\<Sum>j\<in>fst ` set (sq_queues sq). length (sq_lookup sq j))"
  using steering_fifo_facts [OF assms] by blast

theorem steering_fifo_witness:
  "accepted manualSteeringScope [Pushed manualSteeringScope (plain_message ''user'' ''stop''),
     Popped manualSteeringScope [plain_message ''user'' ''stop'']]
   = delivered manualSteeringScope [Pushed manualSteeringScope (plain_message ''user'' ''stop''),
     Popped manualSteeringScope [plain_message ''user'' ''stop'']]"
proof -
  let ?m = "plain_message ''user'' ''stop''"
  have t: "normalizeSteeringScope [] = manualSteeringScope" "trim_space ''s1'' = ''s1''"
    "normalizeSteeringScope ''s1'' = ''s1''" by code_simp+
  have r: "sq_run (newSteeringQueue SteeringAll) [SqPush [] ?m, SqFallback ''s1'']
      = ([Pushed manualSteeringScope ?m, Popped manualSteeringScope [?m]], newSteeringQueue SteeringAll)"
    by (simp add: sq_step_def pushScope_def t sq_lookup_def newSteeringQueue_def maxQueueSize_def
        dequeueScopeWithFallback_def dequeueLocked_def manualSteeringScope_def)
  show ?thesis
    using steering_fifo [OF r, of manualSteeringScope]
    by (simp add: sq_lookup_def newSteeringQueue_def)
qed

end
