(* ===== verification/SessionStore.thy ===== *)
theory SessionStore
  imports GoValue
begin

text \<open>
  The interface \<^verbatim>\<open>SessionStore\<close> of \<^verbatim>\<open>pkg/session/session_store.go\<close>: what the agent loop relies on,
  whichever backend keeps the histories. A backend may store messages in the form their JSON text
  has (\<open>canon\<close>) and may keep two keys in one place (\<open>same\<close>); the laws speak of the messages it can
  store (\<open>ok\<close>) and of sessions that exist (\<open>known\<close>).
\<close>

section \<open>What JSON keeps of a message\<close>

text \<open>The fields of \<^verbatim>\<open>ToolCall\<close> tagged \<^verbatim>\<open>json:"-"\<close> are not written.\<close>

definition wire_call :: "tool_call \<Rightarrow> tool_call" where
  "wire_call tc = tc\<lparr>tc_Name := [], tc_Arguments := None, tc_ThoughtSignature := []\<rparr>"

definition wire :: "message \<Rightarrow> message" where
  "wire m = m\<lparr>msg_ToolCalls := map wire_call (msg_ToolCalls m)\<rparr>"

lemma wire_idem [simp]: "wire (wire m) = wire m"
  by (simp add: wire_def wire_call_def)

lemma wire_plain [simp]: "wire (plain_message r c) = plain_message r c"
  by (simp add: wire_def plain_message_def)

section \<open>Histories as lists\<close>

text \<open>The last \<open>keepLast\<close> messages; none when the number is not positive.\<close>

definition keep_last :: "int \<Rightarrow> 'a list \<Rightarrow> 'a list" where
  "keep_last n xs =
     (if n \<le> 0 then [] else if int (length xs) \<le> n then xs else drop (length xs - nat n) xs)"

lemma keep_last_suffix: "suffix (keep_last n xs) xs"
  by (simp add: keep_last_def suffix_drop)

lemma keep_last_length: "length (keep_last n xs) = nat (min (max n 0) (int (length xs)))"
  by (auto simp: keep_last_def)

datatype store_op = OpAdd message | OpSetHistory "message list" | OpTruncate int

fun spec_op :: "(message \<Rightarrow> message) \<Rightarrow> store_op \<Rightarrow> message list \<Rightarrow> message list" where
  "spec_op canon (OpAdd m) h = h @ [canon m]"
| "spec_op canon (OpSetHistory ms) h = map canon ms"
| "spec_op canon (OpTruncate n) h = keep_last n h"

fun op_ok :: "(message \<Rightarrow> bool) \<Rightarrow> store_op \<Rightarrow> bool" where
  "op_ok ok (OpAdd m) = ok m"
| "op_ok ok (OpSetHistory ms) = list_all ok ms"
| "op_ok ok (OpTruncate n) = True"

section \<open>The interface\<close>

locale session_store =
  fixes inv :: "'s \<Rightarrow> bool"
    and ok :: "message \<Rightarrow> bool"
    and canon :: "message \<Rightarrow> message"
    and same :: "string \<Rightarrow> string \<Rightarrow> bool"
    and known :: "'s \<Rightarrow> string \<Rightarrow> bool"
    and history :: "'s \<Rightarrow> string \<Rightarrow> message list"
    and add :: "time \<Rightarrow> string \<Rightarrow> message \<Rightarrow> 's \<Rightarrow> 's"
    and set_history :: "time \<Rightarrow> string \<Rightarrow> message list \<Rightarrow> 's \<Rightarrow> 's"
    and trunc :: "time \<Rightarrow> string \<Rightarrow> int \<Rightarrow> 's \<Rightarrow> 's"
  assumes canon_idem: "canon (canon m) = canon m"
    and history_canon: "inv s \<Longrightarrow> m \<in> set (history s k) \<Longrightarrow> canon m = m \<and> ok m"
    and add_law: "inv s \<Longrightarrow> ok m \<Longrightarrow>
      inv (add t k m s) \<and> known (add t k m s) k \<and> history (add t k m s) k = history s k @ [canon m]"
    and set_law: "inv s \<Longrightarrow> list_all ok ms \<Longrightarrow> known s k \<Longrightarrow>
      inv (set_history t k ms s) \<and> known (set_history t k ms s) k
      \<and> history (set_history t k ms s) k = map canon ms"
    and trunc_law: "inv s \<Longrightarrow> inv (trunc t k n s) \<and> (known s k \<longrightarrow> known (trunc t k n s) k)
      \<and> history (trunc t k n s) k = keep_last n (history s k)"
    and other_add: "inv s \<Longrightarrow> ok m \<Longrightarrow> \<not> same j k \<Longrightarrow> history (add t k m s) j = history s j"
    and other_set: "inv s \<Longrightarrow> list_all ok ms \<Longrightarrow> \<not> same j k \<Longrightarrow> history (set_history t k ms s) j = history s j"
    and other_trunc: "inv s \<Longrightarrow> \<not> same j k \<Longrightarrow> history (trunc t k n s) j = history s j"
begin

fun exec_op :: "string \<Rightarrow> time \<times> store_op \<Rightarrow> 's \<Rightarrow> 's" where
  "exec_op k (t, OpAdd m) s = add t k m s"
| "exec_op k (t, OpSetHistory ms) s = set_history t k ms s"
| "exec_op k (t, OpTruncate n) s = trunc t k n s"

lemma exec_op_refines:
  assumes "inv s" "known s k" "op_ok ok p"
  shows "inv (exec_op k (t, p) s)" "known (exec_op k (t, p) s) k"
    "history (exec_op k (t, p) s) k = spec_op canon p (history s k)"
    "\<not> same j k \<Longrightarrow> history (exec_op k (t, p) s) j = history s j"
  using assms add_law [of s _ t k] set_law [of s _ k t] trunc_law [of s t k]
    other_add [of s _ j k t] other_set [of s _ j k t] other_trunc [of s j k t]
  by (cases p; simp)+

text \<open>Any sequence of writes to one session acts on its history as on a list, and leaves the
  sessions stored elsewhere alone.\<close>

lemma exec_refines:
  "inv s \<Longrightarrow> known s k \<Longrightarrow> list_all (op_ok ok) (map snd ps) \<Longrightarrow>
     inv (fold (exec_op k) ps s) \<and> known (fold (exec_op k) ps s) k
     \<and> history (fold (exec_op k) ps s) k = fold (spec_op canon) (map snd ps) (history s k)
     \<and> (\<not> same j k \<longrightarrow> history (fold (exec_op k) ps s) j = history s j)"
proof (induction ps arbitrary: s)
  case (Cons p ps)
  obtain t q where p: "p = (t, q)" by fastforce
  with Cons.prems have q: "op_ok ok q" by simp
  note e = exec_op_refines [where t = t, OF Cons.prems(1,2) q]
  from Cons.IH [OF e(1,2)] Cons.prems(3) e(3,4) p show ?case by auto
qed simp

text \<open>The rollback of an aborted turn: restoring the prefix that was there when it began gives back
  the history of that moment, whatever was added since.\<close>

lemma rollback_restores:
  assumes "inv s" "known s k" "inv s'" "known s' k" "history s' k = history s k @ later"
  shows "history (set_history t k (take (length (history s k)) (history s' k)) s') k = history s k"
proof -
  have a: "list_all ok (history s k)" using history_canon [OF assms(1)] by (auto simp: list_all_iff)
  have n: "map canon (history s k) = history s k"
    using history_canon [OF assms(1)] by (simp add: map_idI)
  show ?thesis using set_law [OF assms(3) a assms(4)] assms(5) n by simp
qed

end

end
