(* ===== verification/SessionManager.thy ===== *)
theory SessionManager
  imports SessionStore "HOL-Library.AList"
begin

text \<open>
  \<^verbatim>\<open>pkg/session/manager.go\<close>: the in-memory session store with JSON snapshots on disk. The map of
  sessions is an association list with distinct keys; the directory is a list of entries with the
  decoded session of each readable JSON file. A snapshot write goes to a temporary file that is
  renamed at the end, so it either replaces the file or, when any step of it fails
  (\<open>io_ok = False\<close>), changes nothing.
\<close>

section \<open>Definitions\<close>

record session =
  ses_Key :: string
  ses_Messages :: "message list"
  ses_Summary :: string
  ses_Created :: time
  ses_Updated :: time

record session_manager =
  sm_sessions :: "(string \<times> session) list"
  sm_storage :: string

record dir_entry =
  de_Name :: string
  de_IsDir :: bool
  de_Session :: "session option"

type_synonym directory = "dir_entry list"

definition emptySessionManager :: "string \<Rightarrow> session_manager" where
  "emptySessionManager storage = \<lparr>sm_sessions = [], sm_storage = storage\<rparr>"

definition getOrCreate :: "time \<Rightarrow> string \<Rightarrow> session_manager \<Rightarrow> session \<times> session_manager" where
  "getOrCreate now key sm =
     (case map_of (sm_sessions sm) key of
        Some session \<Rightarrow> (session, sm)
      | None \<Rightarrow>
          let session = \<lparr>ses_Key = key, ses_Messages = [], ses_Summary = [],
                         ses_Created = now, ses_Updated = now\<rparr>
          in (session, sm\<lparr>sm_sessions := AList.update key session (sm_sessions sm)\<rparr>))"

definition addFullMessage :: "time \<Rightarrow> string \<Rightarrow> message \<Rightarrow> session_manager \<Rightarrow> session_manager" where
  "addFullMessage now sessionKey msg sm =
     (let session0 = (case map_of (sm_sessions sm) sessionKey of
                        Some s \<Rightarrow> s
                      | None \<Rightarrow> \<lparr>ses_Key = sessionKey, ses_Messages = [], ses_Summary = [],
                                 ses_Created = now, ses_Updated = zero_time\<rparr>);
          session1 = session0\<lparr>ses_Messages := ses_Messages session0 @ [msg], ses_Updated := now\<rparr>
      in sm\<lparr>sm_sessions := AList.update sessionKey session1 (sm_sessions sm)\<rparr>)"

definition addMessage :: "time \<Rightarrow> string \<Rightarrow> string \<Rightarrow> string \<Rightarrow> session_manager \<Rightarrow> session_manager" where
  "addMessage now sessionKey role content sm =
     addFullMessage now sessionKey (plain_message role content) sm"

definition getHistory :: "session_manager \<Rightarrow> string \<Rightarrow> message list" where
  "getHistory sm key =
     (case map_of (sm_sessions sm) key of None \<Rightarrow> [] | Some session \<Rightarrow> ses_Messages session)"

definition getSummary :: "session_manager \<Rightarrow> string \<Rightarrow> string" where
  "getSummary sm key =
     (case map_of (sm_sessions sm) key of None \<Rightarrow> [] | Some session \<Rightarrow> ses_Summary session)"

definition setSummary :: "time \<Rightarrow> string \<Rightarrow> string \<Rightarrow> session_manager \<Rightarrow> session_manager" where
  "setSummary now key summary sm =
     (case map_of (sm_sessions sm) key of
        None \<Rightarrow> sm
      | Some session \<Rightarrow>
          sm\<lparr>sm_sessions := AList.update key (session\<lparr>ses_Summary := summary, ses_Updated := now\<rparr>)
                             (sm_sessions sm)\<rparr>)"

definition truncateHistory :: "time \<Rightarrow> string \<Rightarrow> int \<Rightarrow> session_manager \<Rightarrow> session_manager" where
  "truncateHistory now key keepLast sm =
     (case map_of (sm_sessions sm) key of
        None \<Rightarrow> sm
      | Some session \<Rightarrow>
          if keepLast \<le> 0 then
            sm\<lparr>sm_sessions := AList.update key (session\<lparr>ses_Messages := [], ses_Updated := now\<rparr>)
                               (sm_sessions sm)\<rparr>
          else if int (length (ses_Messages session)) \<le> keepLast then sm
          else
            sm\<lparr>sm_sessions := AList.update key
                 (session\<lparr>ses_Messages :=
                            drop (length (ses_Messages session) - nat keepLast) (ses_Messages session),
                          ses_Updated := now\<rparr>)
                 (sm_sessions sm)\<rparr>)"

definition setHistory :: "time \<Rightarrow> string \<Rightarrow> message list \<Rightarrow> session_manager \<Rightarrow> session_manager" where
  "setHistory now key history sm =
     (case map_of (sm_sessions sm) key of
        None \<Rightarrow> sm
      | Some session \<Rightarrow>
          sm\<lparr>sm_sessions := AList.update key (session\<lparr>ses_Messages := history, ses_Updated := now\<rparr>)
                             (sm_sessions sm)\<rparr>)"

definition listSessions :: "session_manager \<Rightarrow> string list" where
  "listSessions sm = map fst (sm_sessions sm)"

definition sanitizeFilename :: "string \<Rightarrow> string" where
  "sanitizeFilename key =
     replace_char (CHR 0x5C) CHR ''_'' (replace_char CHR ''/'' CHR ''_'' (replace_char CHR '':'' CHR ''_'' key))"

text \<open>\<^verbatim>\<open>filepath.IsLocal\<close> of a name without separators.\<close>

definition is_local_name :: "string \<Rightarrow> bool" where
  "is_local_name f \<longleftrightarrow> f \<noteq> [] \<and> f \<noteq> ''..''"

datatype save_error = ErrInvalid | ErrIO

text \<open>The decoded content of a snapshot file: messages in their JSON form.\<close>

definition snapshot_of :: "session \<Rightarrow> session" where
  "snapshot_of s = s\<lparr>ses_Messages := map wire (ses_Messages s)\<rparr>"

text \<open>Replacing a file keeps the other entries, and the listing order of a directory is by name; the
  model keeps one entry per name.\<close>

definition write_entry :: "string \<Rightarrow> session \<Rightarrow> directory \<Rightarrow> directory" where
  "write_entry name s d =
     filter (\<lambda>e. de_Name e \<noteq> name) d @ [\<lparr>de_Name = name, de_IsDir = False, de_Session = Some s\<rparr>]"

definition save :: "bool \<Rightarrow> string \<Rightarrow> session_manager \<Rightarrow> directory \<Rightarrow> (save_error option) \<times> directory" where
  "save io_ok key sm d =
     (if sm_storage sm = [] then (None, d)
      else
        let filename = sanitizeFilename key
        in if filename = ''.'' \<or> \<not> is_local_name filename then (Some ErrInvalid, d)
           else
             (case map_of (sm_sessions sm) key of
                None \<Rightarrow> (None, d)
              | Some stored \<Rightarrow>
                  if io_ok then (None, write_entry (filename @ ''.json'') (snapshot_of stored) d)
                  else (Some ErrIO, d)))"

fun loadSessions :: "directory \<Rightarrow> session_manager \<Rightarrow> session_manager" where
  "loadSessions [] sm = sm"
| "loadSessions (file # files) sm =
     (if de_IsDir file then loadSessions files sm
      else if \<not> suffix ''.json'' (de_Name file) then loadSessions files sm
      else
        (case de_Session file of
           None \<Rightarrow> loadSessions files sm
         | Some session \<Rightarrow>
             loadSessions files
               (sm\<lparr>sm_sessions := AList.update (ses_Key session) session (sm_sessions sm)\<rparr>)))"

definition newSessionManager :: "string \<Rightarrow> directory \<Rightarrow> session_manager" where
  "newSessionManager storage d =
     (if storage \<noteq> [] then loadSessions d (emptySessionManager storage)
      else emptySessionManager storage)"

section \<open>The interface\<close>

definition sm_inv :: "session_manager \<Rightarrow> bool" where
  "sm_inv sm \<longleftrightarrow> distinct (map fst (sm_sessions sm))"

definition sm_known :: "session_manager \<Rightarrow> string \<Rightarrow> bool" where
  "sm_known sm key \<longleftrightarrow> map_of (sm_sessions sm) key \<noteq> None"

lemma sm_inv_update: "sm_inv sm \<Longrightarrow> sm_inv (sm\<lparr>sm_sessions := AList.update k s (sm_sessions sm)\<rparr>)"
  by (simp add: sm_inv_def distinct_update)

lemmas sm_defs = addFullMessage_def setHistory_def truncateHistory_def getHistory_def sm_known_def Let_def

interpretation sm: session_store sm_inv "\<lambda>m. True" id "(=)" sm_known getHistory
  addFullMessage setHistory truncateHistory
proof
  fix s :: session_manager and m :: message and t :: time and k j :: string and ms :: "message list" and n :: int
  assume i: "sm_inv s"
  show "id m = m \<and> True" by simp
  show "sm_inv (addFullMessage t k m s) \<and> sm_known (addFullMessage t k m s) k
      \<and> getHistory (addFullMessage t k m s) k = getHistory s k @ [id m]"
    using i by (auto simp: sm_defs update_conv' intro!: sm_inv_update split: option.splits)
  show "sm_known s k \<Longrightarrow> sm_inv (setHistory t k ms s) \<and> sm_known (setHistory t k ms s) k
      \<and> getHistory (setHistory t k ms s) k = map id ms"
    using i by (auto simp: sm_defs update_conv' intro!: sm_inv_update)
  show "sm_inv (truncateHistory t k n s) \<and> (sm_known s k \<longrightarrow> sm_known (truncateHistory t k n s) k)
      \<and> getHistory (truncateHistory t k n s) k = keep_last n (getHistory s k)"
    using i by (auto simp: sm_defs update_conv' keep_last_def intro!: sm_inv_update split: option.splits)
  show "j \<noteq> k \<Longrightarrow> getHistory (addFullMessage t k m s) j = getHistory s j"
    by (simp add: sm_defs update_conv')
  show "j \<noteq> k \<Longrightarrow> getHistory (setHistory t k ms s) j = getHistory s j"
    by (simp add: sm_defs update_conv' split: option.splits)
  show "j \<noteq> k \<Longrightarrow> getHistory (truncateHistory t k n s) j = getHistory s j"
    by (simp add: sm_defs update_conv' split: option.splits)
qed simp

section \<open>Loading\<close>

text \<open>The sessions a directory holds for a key, in listing order.\<close>

definition live_entry :: "string \<Rightarrow> dir_entry \<Rightarrow> session option" where
  "live_entry k e =
     (if \<not> de_IsDir e \<and> suffix ''.json'' (de_Name e) then
        (case de_Session e of Some s \<Rightarrow> if ses_Key s = k then Some s else None | None \<Rightarrow> None)
      else None)"

definition live :: "string \<Rightarrow> directory \<Rightarrow> session list" where
  "live k d = List.map_filter (live_entry k) d"

lemma live_simps [simp]:
  "live k [] = []"
  "live k (e # d) = (case live_entry k e of None \<Rightarrow> live k d | Some s \<Rightarrow> s # live k d)"
  by (simp_all add: live_def List.map_filter_def split: option.splits)

lemma live_append [simp]: "live k (d @ d') = live k d @ live k d'"
  by (simp add: live_def List.map_filter_def)

lemma load_map:
  "map_of (sm_sessions (loadSessions d sm)) k
     = (if live k d = [] then map_of (sm_sessions sm) k else Some (last (live k d)))"
proof (induction d sm rule: loadSessions.induct)
  case (2 e es sm)
  then show ?case by (auto simp: live_entry_def update_conv' split: option.splits)
qed simp

text \<open>Snapshot files are named after the key they hold.\<close>

definition dir_inv :: "directory \<Rightarrow> bool" where
  "dir_inv d \<longleftrightarrow> (\<forall>e\<in>set d. \<forall>s. de_Session e = Some s \<longrightarrow>
     de_Name e = sanitizeFilename (ses_Key s) @ ''.json'')"

definition keys_inv :: "session_manager \<Rightarrow> bool" where
  "keys_inv sm \<longleftrightarrow> sm_inv sm \<and> (\<forall>(k, s)\<in>set (sm_sessions sm). ses_Key s = k)"

lemma keys_inv_key: "keys_inv sm \<Longrightarrow> map_of (sm_sessions sm) k = Some s \<Longrightarrow> ses_Key s = k"
  by (auto simp: keys_inv_def dest: map_of_SomeD)

lemma live_filter_other:
  assumes "dir_inv d" "n = sanitizeFilename k @ ''.json''" "sanitizeFilename j \<noteq> sanitizeFilename k"
  shows "live j (filter (\<lambda>e. de_Name e \<noteq> n) d) = live j d"
  using assms(1)
proof (induction d)
  case (Cons e d)
  then have "dir_inv d" by (simp add: dir_inv_def)
  moreover have "live_entry j e = None" if "de_Name e = n"
    using that Cons.prems assms(2,3) by (auto simp: live_entry_def dir_inv_def split: option.splits)
  ultimately show ?case using Cons.IH by (auto split: option.splits)
qed simp

lemma live_filter_same:
  assumes "dir_inv d" "sanitizeFilename j = sanitizeFilename k"
  shows "live j (filter (\<lambda>e. de_Name e \<noteq> sanitizeFilename k @ ''.json'') d) = []"
  using assms(1)
proof (induction d)
  case (Cons e d)
  then have "dir_inv d" by (simp add: dir_inv_def)
  moreover have "live_entry j e = None" if "de_Name e \<noteq> sanitizeFilename k @ ''.json''"
    using that Cons.prems assms(2) by (auto simp: live_entry_def dir_inv_def split: option.splits)
  ultimately show ?case using Cons.IH by (auto split: option.splits)
qed simp

text \<open>One write, and a sequence of writes, to a session.\<close>

fun sm_write :: "string \<Rightarrow> time \<times> store_op \<Rightarrow> session_manager \<Rightarrow> session_manager" where
  "sm_write k (t, OpAdd m) s = addFullMessage t k m s"
| "sm_write k (t, OpSetHistory ms) s = setHistory t k ms s"
| "sm_write k (t, OpTruncate n) s = truncateHistory t k n s"

lemma sm_write_eq: "sm_write k p s = sm.exec_op k p s"
  by (cases "(k, p, s)" rule: sm_write.cases) auto

section \<open>Properties\<close>

lemma manager_history_refines_facts:
  "sm_inv s \<Longrightarrow> sm_known s k \<Longrightarrow>
     getHistory (fold (sm_write k) ps s) k = fold (spec_op id) (map snd ps) (getHistory s k)
     \<and> (\<forall>j. j \<noteq> k \<longrightarrow> getHistory (fold (sm_write k) ps s) j = getHistory s j)"
  "\<not> sm_known s k \<Longrightarrow> setHistory t k ms s = s \<and> setSummary t k summary s = s
     \<and> truncateHistory t k n s = s \<and> getHistory (addFullMessage t k m s) k = [m]"
proof -
  have ok: "list_all (op_ok (\<lambda>m. True)) ps" for ps
  proof -
    have "op_ok (\<lambda>m. True) p" for p by (cases p) (simp_all add: list_all_iff)
    then show ?thesis by (simp add: list_all_iff)
  qed
  have e: "sm_write k = sm.exec_op k" by (intro ext) (rule sm_write_eq)
  show "sm_inv s \<Longrightarrow> sm_known s k \<Longrightarrow>
     getHistory (fold (sm_write k) ps s) k = fold (spec_op id) (map snd ps) (getHistory s k)
     \<and> (\<forall>j. j \<noteq> k \<longrightarrow> getHistory (fold (sm_write k) ps s) j = getHistory s j)"
    using sm.exec_refines [OF _ _ ok] unfolding e by blast
  show "\<not> sm_known s k \<Longrightarrow> setHistory t k ms s = s \<and> setSummary t k summary s = s
     \<and> truncateHistory t k n s = s \<and> getHistory (addFullMessage t k m s) k = [m]"
    by (simp add: sm_defs setSummary_def update_conv')
qed

text \<open>The in-memory store keeps histories as lists: any sequence of appends, replacements
  and truncations on an existing session acts on its history as append, replacement and keeping the
  last messages, and changes no other session. On a session that does not exist, replacing the
  history or the summary and truncating do nothing, while an append creates it with that one
  message.\<close>

theorem manager_history_refines:
  "(sm_inv s \<longrightarrow> sm_known s k \<longrightarrow>
     getHistory (fold (sm_write k) ps s) k = fold (spec_op id) (map snd ps) (getHistory s k)
     \<and> (\<forall>j. j \<noteq> k \<longrightarrow> getHistory (fold (sm_write k) ps s) j = getHistory s j))
     \<and> (\<not> sm_known s k \<longrightarrow> setHistory t k ms s = s \<and> setSummary t k summary s = s
     \<and> truncateHistory t k n s = s \<and> getHistory (addFullMessage t k m s) k = [m])"
  using manager_history_refines_facts by blast

definition demo_manager :: session_manager where
  "demo_manager = addMessage 1 ''a:b'' ''user'' ''hi'' (emptySessionManager ''/tmp/s'')"

theorem manager_history_refines_witness:
  "getHistory (fold (sm_write ''a:b'') [(2, OpAdd (plain_message ''assistant'' ''yo'')), (3, OpTruncate 1)]
      demo_manager) ''a:b'' = [plain_message ''assistant'' ''yo'']
   \<and> setHistory 2 ''zz'' [] demo_manager = demo_manager"
proof -
  have i: "sm_inv demo_manager" "sm_known demo_manager ''a:b''" "\<not> sm_known demo_manager ''zz''"
    by (simp_all add: demo_manager_def addMessage_def sm_defs sm_inv_def emptySessionManager_def)
  have h: "getHistory demo_manager ''a:b'' = [plain_message ''user'' ''hi'']"
    by (simp add: demo_manager_def addMessage_def sm_defs emptySessionManager_def)
  show ?thesis
    using manager_history_refines [where s = demo_manager and k = "''a:b''"
        and ps = "[(2, OpAdd (plain_message ''assistant'' ''yo'')), (3, OpTruncate 1)]"]
      manager_history_refines [where s = demo_manager and k = "''zz''" and t = 2 and ms = "[]"] i h
    by (simp add: keep_last_def)
qed

lemma save_load_roundtrip_facts:
  assumes inv: "keys_inv sm" "dir_inv d" and st: "sm_storage sm \<noteq> []"
    and s: "map_of (sm_sessions sm) k = Some s"
    and f: "sanitizeFilename k \<notin> {[], ''.'', ''..''}"
    and d': "save io_ok k sm d = (err, d')"
  shows "io_ok \<Longrightarrow> err = None \<and> dir_inv d'
      \<and> map_of (sm_sessions (newSessionManager st d')) k = (if st = [] then None else Some (snapshot_of s))"
    and "\<not> io_ok \<Longrightarrow> err = Some ErrIO \<and> d' = d"
    and "io_ok \<Longrightarrow> j \<noteq> k \<Longrightarrow> sanitizeFilename j \<noteq> sanitizeFilename k \<Longrightarrow>
      map_of (sm_sessions (newSessionManager st d')) j = map_of (sm_sessions (newSessionManager st d)) j"
    and "io_ok \<Longrightarrow> j \<noteq> k \<Longrightarrow> sanitizeFilename j = sanitizeFilename k \<Longrightarrow>
      map_of (sm_sessions (newSessionManager st d')) j = None"
proof -
  let ?n = "sanitizeFilename k @ ''.json''"
  have key: "ses_Key (snapshot_of s) = k" using keys_inv_key [OF inv(1) s] by (simp add: snapshot_of_def)
  have sv: "save io_ok k sm d
      = (if io_ok then (None, write_entry ?n (snapshot_of s) d) else (Some ErrIO, d))"
    using st s f by (simp add: save_def is_local_name_def Let_def)
  then show "\<not> io_ok \<Longrightarrow> err = Some ErrIO \<and> d' = d" using d' by simp
  have lv: "live j (write_entry ?n (snapshot_of s) d)
      = live j (filter (\<lambda>e. de_Name e \<noteq> ?n) d) @ (if j = k then [snapshot_of s] else [])" for j
    using key by (auto simp: write_entry_def live_entry_def suffix_def)
  have nm: "map_of (sm_sessions (newSessionManager st x)) j
      = (if st = [] \<or> live j x = [] then None else Some (last (live j x)))" for j x
    by (simp add: newSessionManager_def load_map emptySessionManager_def)
  show "io_ok \<Longrightarrow> err = None \<and> dir_inv d'
      \<and> map_of (sm_sessions (newSessionManager st d')) k = (if st = [] then None else Some (snapshot_of s))"
    using d' sv inv(2) key lv [of k] nm by (auto simp: dir_inv_def write_entry_def)
  show "io_ok \<Longrightarrow> j \<noteq> k \<Longrightarrow> sanitizeFilename j \<noteq> sanitizeFilename k \<Longrightarrow>
      map_of (sm_sessions (newSessionManager st d')) j = map_of (sm_sessions (newSessionManager st d)) j"
    using d' sv lv [of j] nm live_filter_other [OF inv(2) refl, of j k] by auto
  show "io_ok \<Longrightarrow> j \<noteq> k \<Longrightarrow> sanitizeFilename j = sanitizeFilename k \<Longrightarrow>
      map_of (sm_sessions (newSessionManager st d')) j = None"
    using d' sv lv [of j] nm live_filter_same [OF inv(2), of j k] by auto
qed



end
