(* ===== verification/JsonlStore.thy ===== *)
theory JsonlStore
  imports SessionStore "HOL-Library.AList"
begin

text \<open>
  \<^verbatim>\<open>pkg/memory/jsonl.go\<close> and its adapter \<^verbatim>\<open>pkg/session/jsonl_backend.go\<close>: the append-only session
  store. A session is a byte file of lines, one JSON message each, and a metadata file with the
  logical truncation offset. Metadata files are written by temp-file-and-rename, so the model keeps
  their decoded content; message files are appended to in place, so the model keeps their bytes.
  The JSON coding of messages is the parameter \<open>codec\<close>. I/O errors and crashes are the points at
  which an operation can stop (\<open>add_fault\<close>, \<open>rewrite_fault\<close>), with what is on disk by then.
\<close>

section \<open>Definitions\<close>

record session_meta =
  meta_Key :: string
  meta_Summary :: string
  meta_Skip :: int
  meta_Count :: int
  meta_CreatedAt :: time
  meta_UpdatedAt :: time

datatype meta_file = MetaBad | Meta session_meta

record codec =
  cdc_marshal :: "message \<Rightarrow> string option"
  cdc_unmarshal :: "string \<Rightarrow> message option"

record jsonl_store =
  js_files :: "string \<Rightarrow> string option"
  js_metas :: "(string \<times> meta_file) list"

datatype js_error = MarshalError | OpenError | WriteError | SyncError | CloseError
  | MetaReadError | MetaWriteError | ScanError | RewriteError

definition maxLineSize :: nat where "maxLineSize = 10 * 1024 * 1024"

definition newline :: char where "newline = CHR 0x0A"

definition newJSONLStore :: jsonl_store where
  "newJSONLStore = \<lparr>js_files = (\<lambda>_. None), js_metas = []\<rparr>"

definition sanitizeKey :: "string \<Rightarrow> string" where
  "sanitizeKey key =
     replace_char (CHR 0x5C) CHR ''_'' (replace_char CHR ''/'' CHR ''_'' (replace_char CHR '':'' CHR ''_'' key))"

definition readMeta :: "jsonl_store \<Rightarrow> string \<Rightarrow> js_error + session_meta" where
  "readMeta s key =
     (case map_of (js_metas s) (sanitizeKey key) of
        None \<Rightarrow> Inr \<lparr>meta_Key = key, meta_Summary = [], meta_Skip = 0, meta_Count = 0,
                    meta_CreatedAt = zero_time, meta_UpdatedAt = zero_time\<rparr>
      | Some MetaBad \<Rightarrow> Inl MetaReadError
      | Some (Meta m) \<Rightarrow> Inr m)"

definition writeMeta :: "string \<Rightarrow> session_meta \<Rightarrow> jsonl_store \<Rightarrow> jsonl_store" where
  "writeMeta key meta s = s\<lparr>js_metas := AList.update (sanitizeKey key) (Meta meta) (js_metas s)\<rparr>"

text \<open>\<^verbatim>\<open>bufio.ScanLines\<close>: pieces between newlines, a last one without newline included, a trailing
  carriage return dropped.\<close>

fun split_lines :: "string \<Rightarrow> string \<Rightarrow> string list" where
  "split_lines cur [] = (if cur = [] then [] else [cur])"
| "split_lines cur (c # s) =
     (if c = newline then cur # split_lines [] s else split_lines (cur @ [c]) s)"

definition drop_cr :: "string \<Rightarrow> string" where
  "drop_cr l = (if l \<noteq> [] \<and> last l = CHR 0x0D then butlast l else l)"

text \<open>The scanner stops with an error at a line that fills its buffer.\<close>

definition scan_file :: "string \<Rightarrow> js_error + string list" where
  "scan_file content =
     (let raw = split_lines [] content
      in if list_ex (\<lambda>l. maxLineSize \<le> length l) raw then Inl ScanError
         else Inr (filter (\<lambda>l. l \<noteq> []) (map drop_cr raw)))"

definition readMessages :: "codec \<Rightarrow> string option \<Rightarrow> int \<Rightarrow> js_error + message list" where
  "readMessages c file skip =
     (case file of
        None \<Rightarrow> Inr []
      | Some content \<Rightarrow>
          (case scan_file content of
             Inl e \<Rightarrow> Inl e
           | Inr ls \<Rightarrow> Inr (List.map_filter (cdc_unmarshal c) (drop (nat skip) ls))))"

definition countLines :: "string option \<Rightarrow> js_error + int" where
  "countLines file =
     (case file of
        None \<Rightarrow> Inr 0
      | Some content \<Rightarrow> (case scan_file content of Inl e \<Rightarrow> Inl e | Inr ls \<Rightarrow> Inr (int (length ls))))"

definition set_file :: "string \<Rightarrow> string \<Rightarrow> jsonl_store \<Rightarrow> jsonl_store" where
  "set_file key content s = s\<lparr>js_files := (js_files s)(sanitizeKey key \<mapsto> content)\<rparr>"

definition get_file :: "jsonl_store \<Rightarrow> string \<Rightarrow> string option" where
  "get_file s key = js_files s (sanitizeKey key)"

datatype add_fault = AddNoFault | AddOpenFault | AddWriteFault nat | AddSyncFault | AddCloseFault
  | AddMetaFault

definition addMsg ::
  "codec \<Rightarrow> add_fault \<Rightarrow> time \<Rightarrow> string \<Rightarrow> message \<Rightarrow> jsonl_store \<Rightarrow> js_error option \<times> jsonl_store" where
  "addMsg c fault now key msg s =
     (case cdc_marshal c msg of
        None \<Rightarrow> (Some MarshalError, s)
      | Some line0 \<Rightarrow>
          let line = line0 @ [newline];
              old = (case get_file s key of None \<Rightarrow> [] | Some f \<Rightarrow> f);
              s1 = set_file key (old @ line) s
          in (case fault of
                AddOpenFault \<Rightarrow> (Some OpenError, s)
              | AddWriteFault n \<Rightarrow> (Some WriteError, set_file key (old @ take n line) s)
              | AddSyncFault \<Rightarrow> (Some SyncError, s1)
              | AddCloseFault \<Rightarrow> (Some CloseError, s1)
              | _ \<Rightarrow>
                  (case readMeta s1 key of
                     Inl e \<Rightarrow> (Some e, s1)
                   | Inr meta \<Rightarrow>
                       let meta1 = (if meta_Count meta = 0 \<and> meta_CreatedAt meta = zero_time
                                    then meta\<lparr>meta_CreatedAt := now\<rparr> else meta);
                           meta2 = meta1\<lparr>meta_Count := meta_Count meta1 + 1, meta_UpdatedAt := now\<rparr>
                       in if fault = AddMetaFault then (Some MetaWriteError, s1)
                          else (None, writeMeta key meta2 s1))))"

definition js_addMessage ::
  "codec \<Rightarrow> add_fault \<Rightarrow> time \<Rightarrow> string \<Rightarrow> string \<Rightarrow> string \<Rightarrow> jsonl_store \<Rightarrow> js_error option \<times> jsonl_store" where
  "js_addMessage c fault now key role content s = addMsg c fault now key (plain_message role content) s"

definition js_getHistory :: "codec \<Rightarrow> jsonl_store \<Rightarrow> string \<Rightarrow> js_error + message list" where
  "js_getHistory c s key =
     (case readMeta s key of
        Inl e \<Rightarrow> Inl e
      | Inr meta \<Rightarrow> readMessages c (get_file s key) (meta_Skip meta))"

definition js_getSummary :: "jsonl_store \<Rightarrow> string \<Rightarrow> js_error + string" where
  "js_getSummary s key =
     (case readMeta s key of Inl e \<Rightarrow> Inl e | Inr meta \<Rightarrow> Inr (meta_Summary meta))"

definition js_setSummary ::
  "bool \<Rightarrow> time \<Rightarrow> string \<Rightarrow> string \<Rightarrow> jsonl_store \<Rightarrow> js_error option \<times> jsonl_store" where
  "js_setSummary io_ok now key summary s =
     (case readMeta s key of
        Inl e \<Rightarrow> (Some e, s)
      | Inr meta \<Rightarrow>
          let meta1 = (if meta_CreatedAt meta = zero_time then meta\<lparr>meta_CreatedAt := now\<rparr> else meta);
              meta2 = meta1\<lparr>meta_Summary := summary, meta_UpdatedAt := now\<rparr>
          in if io_ok then (None, writeMeta key meta2 s) else (Some MetaWriteError, s))"

definition js_truncateHistory ::
  "bool \<Rightarrow> time \<Rightarrow> string \<Rightarrow> int \<Rightarrow> jsonl_store \<Rightarrow> js_error option \<times> jsonl_store" where
  "js_truncateHistory io_ok now key keepLast s =
     (case readMeta s key of
        Inl e \<Rightarrow> (Some e, s)
      | Inr meta \<Rightarrow>
          (case countLines (get_file s key) of
             Inl e \<Rightarrow> (Some e, s)
           | Inr n \<Rightarrow>
               let meta1 = meta\<lparr>meta_Count := n\<rparr>;
                   meta2 =
                     (if keepLast \<le> 0 then meta1\<lparr>meta_Skip := meta_Count meta1\<rparr>
                      else
                        let effective = meta_Count meta1 - meta_Skip meta1
                        in if keepLast < effective
                           then meta1\<lparr>meta_Skip := meta_Count meta1 - keepLast\<rparr> else meta1);
                   meta3 = meta2\<lparr>meta_UpdatedAt := now\<rparr>
               in if io_ok then (None, writeMeta key meta3 s) else (Some MetaWriteError, s)))"

datatype rewrite_fault = RwNoFault | RwMetaFault | RwFileFault

fun marshal_all :: "codec \<Rightarrow> message list \<Rightarrow> string option" where
  "marshal_all c [] = Some []"
| "marshal_all c (m # ms) =
     (case cdc_marshal c m of
        None \<Rightarrow> None
      | Some l \<Rightarrow> (case marshal_all c ms of None \<Rightarrow> None | Some r \<Rightarrow> Some (l @ newline # r)))"

definition rewriteJSONL ::
  "codec \<Rightarrow> rewrite_fault \<Rightarrow> string \<Rightarrow> message list \<Rightarrow> jsonl_store \<Rightarrow> js_error option \<times> jsonl_store" where
  "rewriteJSONL c fault key msgs s =
     (case marshal_all c msgs of
        None \<Rightarrow> (Some MarshalError, s)
      | Some buf \<Rightarrow> if fault = RwFileFault then (Some RewriteError, s) else (None, set_file key buf s))"

definition js_setHistory ::
  "codec \<Rightarrow> rewrite_fault \<Rightarrow> time \<Rightarrow> string \<Rightarrow> message list \<Rightarrow> jsonl_store \<Rightarrow> js_error option \<times> jsonl_store" where
  "js_setHistory c fault now key history s =
     (case readMeta s key of
        Inl e \<Rightarrow> (Some e, s)
      | Inr meta \<Rightarrow>
          let meta1 = (if meta_CreatedAt meta = zero_time then meta\<lparr>meta_CreatedAt := now\<rparr> else meta);
              meta2 = meta1\<lparr>meta_Skip := 0, meta_Count := int (length history), meta_UpdatedAt := now\<rparr>
          in if fault = RwMetaFault then (Some MetaWriteError, s)
             else rewriteJSONL c fault key history (writeMeta key meta2 s))"

definition js_compact ::
  "codec \<Rightarrow> rewrite_fault \<Rightarrow> time \<Rightarrow> string \<Rightarrow> jsonl_store \<Rightarrow> js_error option \<times> jsonl_store" where
  "js_compact c fault now key s =
     (case readMeta s key of
        Inl e \<Rightarrow> (Some e, s)
      | Inr meta \<Rightarrow>
          if meta_Skip meta = 0 then (None, s)
          else
            (case readMessages c (get_file s key) (meta_Skip meta) of
               Inl e \<Rightarrow> (Some e, s)
             | Inr active \<Rightarrow>
                 let meta1 = meta\<lparr>meta_Skip := 0, meta_Count := int (length active), meta_UpdatedAt := now\<rparr>
                 in if fault = RwMetaFault then (Some MetaWriteError, s)
                    else rewriteJSONL c fault key active (writeMeta key meta1 s)))"

definition js_listSessions :: "jsonl_store \<Rightarrow> string list" where
  "js_listSessions s =
     List.map_filter
       (\<lambda>(name, f). case f of Meta m \<Rightarrow> if meta_Key m \<noteq> [] then Some (meta_Key m) else None | _ \<Rightarrow> None)
       (js_metas s)"

text \<open>The adapter of \<^verbatim>\<open>pkg/session/jsonl_backend.go\<close>: errors are logged and dropped.\<close>

definition bk_addFullMessage ::
  "codec \<Rightarrow> add_fault \<Rightarrow> time \<Rightarrow> string \<Rightarrow> message \<Rightarrow> jsonl_store \<Rightarrow> jsonl_store" where
  "bk_addFullMessage c fault now key msg s = snd (addMsg c fault now key msg s)"

definition bk_getHistory :: "codec \<Rightarrow> jsonl_store \<Rightarrow> string \<Rightarrow> message list" where
  "bk_getHistory c s key = (case js_getHistory c s key of Inl e \<Rightarrow> [] | Inr msgs \<Rightarrow> msgs)"

definition bk_getSummary :: "jsonl_store \<Rightarrow> string \<Rightarrow> string" where
  "bk_getSummary s key = (case js_getSummary s key of Inl e \<Rightarrow> [] | Inr x \<Rightarrow> x)"

definition bk_setSummary :: "bool \<Rightarrow> time \<Rightarrow> string \<Rightarrow> string \<Rightarrow> jsonl_store \<Rightarrow> jsonl_store" where
  "bk_setSummary io_ok now key summary s = snd (js_setSummary io_ok now key summary s)"

definition bk_setHistory ::
  "codec \<Rightarrow> rewrite_fault \<Rightarrow> time \<Rightarrow> string \<Rightarrow> message list \<Rightarrow> jsonl_store \<Rightarrow> jsonl_store" where
  "bk_setHistory c fault now key history s = snd (js_setHistory c fault now key history s)"

definition bk_truncateHistory :: "bool \<Rightarrow> time \<Rightarrow> string \<Rightarrow> int \<Rightarrow> jsonl_store \<Rightarrow> jsonl_store" where
  "bk_truncateHistory io_ok now key keepLast s = snd (js_truncateHistory io_ok now key keepLast s)"

definition bk_save ::
  "codec \<Rightarrow> rewrite_fault \<Rightarrow> time \<Rightarrow> string \<Rightarrow> jsonl_store \<Rightarrow> js_error option \<times> jsonl_store" where
  "bk_save c fault now key s = js_compact c fault now key s"

section \<open>Clean files\<close>

text \<open>A line that stands for a message: written and read back as the same message.\<close>

definition good_line :: "codec \<Rightarrow> string \<Rightarrow> bool" where
  "good_line c l \<longleftrightarrow> l \<noteq> [] \<and> newline \<notin> set l \<and> last l \<noteq> CHR 0x0D \<and> length l < maxLineSize
     \<and> (case cdc_unmarshal c l of None \<Rightarrow> False | Some m \<Rightarrow> cdc_marshal c m = Some l \<and> wire m = m)"

text \<open>A message the codec handles: it is written to such a line, which reads back as its JSON form.\<close>

definition handled :: "codec \<Rightarrow> message \<Rightarrow> bool" where
  "handled c m \<longleftrightarrow>
     (case cdc_marshal c m of
        None \<Rightarrow> False
      | Some l \<Rightarrow> good_line c l \<and> cdc_unmarshal c l = Some (wire m))"

definition file_of :: "string list \<Rightarrow> string" where
  "file_of ls = concat (map (\<lambda>l. l @ [newline]) ls)"

lemma file_of_simps [simp]: "file_of [] = []" "file_of (l # ls) = l @ newline # file_of ls"
  "file_of (ls @ ks) = file_of ls @ file_of ks"
  by (simp_all add: file_of_def)

lemma split_lines_line: "newline \<notin> set l \<Longrightarrow> split_lines cur (l @ newline # s) = (cur @ l) # split_lines [] s"
  by (induction l arbitrary: cur) auto

lemma split_lines_tail: "newline \<notin> set l \<Longrightarrow> split_lines cur l = (if cur @ l = [] then [] else [cur @ l])"
  by (induction l arbitrary: cur) auto

lemma split_file:
  "list_all (good_line c) ls \<Longrightarrow> newline \<notin> set t \<Longrightarrow>
     split_lines [] (file_of ls @ t) = ls @ (if t = [] then [] else [t])"
  by (induction ls) (auto simp: split_lines_line split_lines_tail good_line_def)

lemma good_drop_cr: "good_line c l \<Longrightarrow> drop_cr l = l"
  by (auto simp: good_line_def drop_cr_def)

lemma scan_file_clean:
  assumes g: "list_all (good_line c) ls"
  shows "scan_file (file_of ls) = Inr ls"
proof -
  have s: "split_lines [] (file_of ls) = ls" using split_file [OF g, of "[]"] by simp
  have "map drop_cr ls = ls" using g by (intro map_idI) (auto simp: list_all_iff good_drop_cr)
  moreover have "filter (\<lambda>l. l \<noteq> []) ls = ls" using g by (auto simp: list_all_iff good_line_def)
  moreover have "\<not> list_ex (\<lambda>l. maxLineSize \<le> length l) ls"
    using g by (auto simp: list_all_iff list_ex_iff good_line_def)
  ultimately show ?thesis by (simp add: scan_file_def s Let_def)
qed

text \<open>The message of a good line.\<close>

definition line_msg :: "codec \<Rightarrow> string \<Rightarrow> message" where
  "line_msg c l = the (cdc_unmarshal c l)"

lemma good_line_msg:
  "good_line c l \<Longrightarrow> cdc_unmarshal c l = Some (line_msg c l) \<and> cdc_marshal c (line_msg c l) = Some l
     \<and> wire (line_msg c l) = line_msg c l \<and> handled c (line_msg c l)"
  by (auto simp: good_line_def line_msg_def handled_def split: option.splits)

lemma map_filter_clean:
  "list_all (good_line c) ls \<Longrightarrow> List.map_filter (cdc_unmarshal c) ls = map (line_msg c) ls"
  by (induction ls) (auto simp: List.map_filter_def dest: good_line_msg)

lemma marshal_all_clean:
  "list_all (handled c) ms \<Longrightarrow> \<exists>ls. marshal_all c ms = Some (file_of ls) \<and> list_all (good_line c) ls
     \<and> map (line_msg c) ls = map wire ms"
proof (induction ms)
  case (Cons m ms)
  then obtain ls where ls: "marshal_all c ms = Some (file_of ls)" "list_all (good_line c) ls"
    "map (line_msg c) ls = map wire ms" by auto
  obtain l where l: "cdc_marshal c m = Some l" "good_line c l" "cdc_unmarshal c l = Some (wire m)"
    using Cons.prems by (auto simp: handled_def split: option.splits)
  then have "line_msg c l = wire m" by (simp add: line_msg_def)
  with ls l show ?case by (intro exI [of _ "l # ls"]) simp
qed (auto intro: exI [of _ "[]"])

section \<open>The store invariant\<close>

text \<open>The lines of a message file, and the truncation offset in force.\<close>

definition file_lines :: "string option \<Rightarrow> string list" where
  "file_lines f = (case f of None \<Rightarrow> [] | Some t \<Rightarrow> split_lines [] t)"

definition skip_in :: "meta_file option \<Rightarrow> int" where
  "skip_in mf = (case mf of Some (Meta m) \<Rightarrow> meta_Skip m | _ \<Rightarrow> 0)"

definition entry_ok :: "codec \<Rightarrow> string option \<Rightarrow> meta_file option \<Rightarrow> bool" where
  "entry_ok c f mf \<longleftrightarrow> f \<in> {None, Some (file_of (file_lines f))} \<and> list_all (good_line c) (file_lines f)
     \<and> mf \<noteq> Some MetaBad \<and> 0 \<le> skip_in mf \<and> skip_in mf \<le> int (length (file_lines f))"

definition js_inv :: "codec \<Rightarrow> jsonl_store \<Rightarrow> bool" where
  "js_inv c s \<longleftrightarrow> (\<forall>b. entry_ok c (js_files s b) (map_of (js_metas s) b))"

lemma js_inv_new: "js_inv c newJSONLStore"
  by (simp add: js_inv_def newJSONLStore_def entry_ok_def file_lines_def skip_in_def)

definition active_lines :: "jsonl_store \<Rightarrow> string \<Rightarrow> string list" where
  "active_lines s b = drop (nat (skip_in (map_of (js_metas s) b))) (file_lines (js_files s b))"

lemma file_lines_file: "list_all (good_line c) ls \<Longrightarrow> file_lines (Some (file_of ls)) = ls"
  using split_file [of c ls "[]"] by (simp add: file_lines_def)

lemma inv_file: "js_inv c s \<Longrightarrow> js_files s b = Some f \<Longrightarrow> f = file_of (file_lines (Some f))"
  unfolding js_inv_def entry_ok_def by (metis emptyE insertE option.distinct(1) option.inject)

lemma inv_entry: "js_inv c s \<Longrightarrow> entry_ok c (js_files s b) (map_of (js_metas s) b)"
  by (simp add: js_inv_def)

lemma inv_good: "js_inv c s \<Longrightarrow> list_all (good_line c) (file_lines (js_files s b))"
  using inv_entry by (simp add: entry_ok_def)

lemma read_meta_inv:
  assumes "js_inv c s"
  obtains m where "readMeta s k = Inr m" "meta_Skip m = skip_in (map_of (js_metas s) (sanitizeKey k))"
  using inv_entry [OF assms, of "sanitizeKey k"] that
  by (auto simp: readMeta_def entry_ok_def skip_in_def split: option.splits meta_file.splits)

lemma scan_inv:
  assumes "js_inv c s" "js_files s b = Some f"
  shows "scan_file f = Inr (file_lines (Some f))"
  using scan_file_clean [of c "file_lines (Some f)"] inv_file [OF assms] inv_good [OF assms(1), of b] assms(2)
  by simp

lemma read_messages_inv:
  assumes "js_inv c s"
  shows "readMessages c (js_files s b) n = Inr (map (line_msg c) (drop (nat n) (file_lines (js_files s b))))"
proof (cases "js_files s b")
  case None
  then show ?thesis by (simp add: readMessages_def file_lines_def)
next
  case (Some f)
  have "list_all (good_line c) (drop (nat n) (file_lines (Some f)))"
    using inv_good [OF assms, of b] Some by (auto simp: list_all_iff dest: in_set_dropD)
  with Some scan_inv [OF assms Some] show ?thesis
    by (simp add: readMessages_def map_filter_clean)
qed

lemma count_lines_inv:
  assumes "js_inv c s" shows "countLines (js_files s b) = Inr (int (length (file_lines (js_files s b))))"
  using scan_inv [OF assms] by (auto simp: countLines_def file_lines_def split: option.splits)

lemma history_inv:
  assumes "js_inv c s"
  shows "js_getHistory c s k = Inr (map (line_msg c) (active_lines s (sanitizeKey k)))"
    "bk_getHistory c s k = map (line_msg c) (active_lines s (sanitizeKey k))"
proof -
  obtain m where m: "readMeta s k = Inr m" "meta_Skip m = skip_in (map_of (js_metas s) (sanitizeKey k))"
    using read_meta_inv [OF assms] .
  then show "js_getHistory c s k = Inr (map (line_msg c) (active_lines s (sanitizeKey k)))"
    by (simp add: js_getHistory_def get_file_def read_messages_inv [OF assms] active_lines_def)
  then show "bk_getHistory c s k = map (line_msg c) (active_lines s (sanitizeKey k))"
    by (simp add: bk_getHistory_def)
qed

text \<open>Changing one entry.\<close>

lemma js_inv_change:
  assumes "js_inv c s" "entry_ok c (js_files s' b) (map_of (js_metas s') b)"
    "\<And>b'. b' \<noteq> b \<Longrightarrow> js_files s' b' = js_files s b' \<and> map_of (js_metas s') b' = map_of (js_metas s) b'"
  shows "js_inv c s'"
  using assms unfolding js_inv_def by metis

lemma touch_simps [simp]:
  "js_files (set_file k f s) = (js_files s)(sanitizeKey k \<mapsto> f)"
  "js_metas (set_file k f s) = js_metas s"
  "js_files (writeMeta k m s) = js_files s"
  "map_of (js_metas (writeMeta k m s)) = (map_of (js_metas s))(sanitizeKey k \<mapsto> Meta m)"
  by (simp_all add: set_file_def writeMeta_def update_conv')

lemma add_effect:
  assumes i: "js_inv c s" and m: "handled c msg" and a: "addMsg c AddNoFault t k msg s = (e, s')"
  shows "e = None" "js_inv c s'"
    "js_files s' (sanitizeKey k) = Some (file_of (file_lines (js_files s (sanitizeKey k)) @ [the (cdc_marshal c msg)]))"
    "skip_in (map_of (js_metas s') (sanitizeKey k)) = skip_in (map_of (js_metas s) (sanitizeKey k))"
    "good_line c (the (cdc_marshal c msg))" "line_msg c (the (cdc_marshal c msg)) = wire msg"
    "\<And>b'. b' \<noteq> sanitizeKey k \<Longrightarrow> js_files s' b' = js_files s b' \<and> map_of (js_metas s') b' = map_of (js_metas s) b'"
proof -
  let ?b = "sanitizeKey k"
  let ?ls = "file_lines (js_files s ?b)"
  obtain l where l: "cdc_marshal c msg = Some l" "good_line c l" "cdc_unmarshal c l = Some (wire msg)"
    using m by (auto simp: handled_def split: option.splits)
  then show g: "good_line c (the (cdc_marshal c msg))" and "line_msg c (the (cdc_marshal c msg)) = wire msg"
    by (simp_all add: line_msg_def)
  define old where "old = (case get_file s k of None \<Rightarrow> [] | Some f \<Rightarrow> f)"
  have old: "old = file_of ?ls"
    using inv_file [OF i, of ?b] by (auto simp: old_def get_file_def file_lines_def split: option.splits)
  define s1 where "s1 = set_file k (old @ l @ [newline]) s"
  have f1: "js_files s1 ?b = Some (file_of (?ls @ [l]))" by (simp add: s1_def old)
  have gl: "list_all (good_line c) (?ls @ [l])" using inv_good [OF i, of ?b] l(2) by simp
  have i1: "js_inv c s1"
  proof (rule js_inv_change [OF i, of _ ?b])
    show "entry_ok c (js_files s1 ?b) (map_of (js_metas s1) ?b)"
      using inv_entry [OF i, of ?b] gl f1 file_lines_file [OF gl] by (simp add: entry_ok_def s1_def)
  qed (simp add: s1_def)
  obtain mt where mt: "readMeta s1 k = Inr mt" "meta_Skip mt = skip_in (map_of (js_metas s1) ?b)"
    using read_meta_inv [OF i1] .
  define m2 where "m2 = (let meta1 = (if meta_Count mt = 0 \<and> meta_CreatedAt mt = zero_time
      then mt\<lparr>meta_CreatedAt := t\<rparr> else mt)
    in meta1\<lparr>meta_Count := meta_Count meta1 + 1, meta_UpdatedAt := t\<rparr>)"
  have sk: "meta_Skip m2 = meta_Skip mt" by (simp add: m2_def Let_def)
  have r: "e = None" "s' = writeMeta k m2 s1"
    using a l(1) mt(1) by (simp_all add: addMsg_def Let_def old_def [symmetric] s1_def [symmetric] m2_def)
  show "e = None" by (rule r)
  show "js_files s' ?b = Some (file_of (?ls @ [the (cdc_marshal c msg)]))" using r f1 l(1) by simp
  show "skip_in (map_of (js_metas s') ?b) = skip_in (map_of (js_metas s) ?b)"
    using r sk mt(2) by (simp add: skip_in_def s1_def)
  show "\<And>b'. b' \<noteq> ?b \<Longrightarrow> js_files s' b' = js_files s b' \<and> map_of (js_metas s') b' = map_of (js_metas s) b'"
    using r by (simp add: s1_def)
  show "js_inv c s'"
  proof (rule js_inv_change [OF i1, of _ ?b])
    show "entry_ok c (js_files s' ?b) (map_of (js_metas s') ?b)"
      using inv_entry [OF i1, of ?b] r sk mt(2) by (simp add: entry_ok_def skip_in_def)
  qed (simp add: r)
qed

lemma rewrite_effect:
  assumes i: "js_inv c s" and ms: "list_all (handled c) ms" and z: "meta_Skip m = 0"
    and r: "rewriteJSONL c RwNoFault k ms (writeMeta k m s) = (e, s')"
  shows "e = None" "js_inv c s'" "map (line_msg c) (active_lines s' (sanitizeKey k)) = map wire ms"
    "\<And>b'. b' \<noteq> sanitizeKey k \<Longrightarrow> js_files s' b' = js_files s b' \<and> map_of (js_metas s') b' = map_of (js_metas s) b'"
    "map_of (js_metas s') (sanitizeKey k) = Some (Meta m)"
    "length (file_lines (js_files s' (sanitizeKey k))) = length ms"
proof -
  obtain ls where ls: "marshal_all c ms = Some (file_of ls)" "list_all (good_line c) ls"
    "map (line_msg c) ls = map wire ms"
    using marshal_all_clean [OF ms] by blast
  have s': "e = None" "s' = set_file k (file_of ls) (writeMeta k m s)"
    using r ls(1) by (simp_all add: rewriteJSONL_def)
  show "e = None" by (rule s')
  have f: "js_files s' (sanitizeKey k) = Some (file_of ls)" using s' by simp
  show me: "map_of (js_metas s') (sanitizeKey k) = Some (Meta m)" using s' by simp
  show o: "\<And>b'. b' \<noteq> sanitizeKey k \<Longrightarrow> js_files s' b' = js_files s b' \<and> map_of (js_metas s') b' = map_of (js_metas s) b'"
    using s' by simp
  show "js_inv c s'"
    using file_lines_file [OF ls(2)] f me z ls(2)
    by (intro js_inv_change [OF i, of _ "sanitizeKey k"] o) (simp_all add: entry_ok_def skip_in_def)
  show "map (line_msg c) (active_lines s' (sanitizeKey k)) = map wire ms"
    using file_lines_file [OF ls(2)] f me z ls(3) by (simp add: active_lines_def skip_in_def)
  show "length (file_lines (js_files s' (sanitizeKey k))) = length ms"
    using file_lines_file [OF ls(2)] f ls(3) by (metis length_map)
qed

lemma drop_keep_last:
  assumes "0 \<le> k" "k \<le> int (length ls)"
  shows "drop (nat (if n \<le> 0 then int (length ls)
                    else if n < int (length ls) - k then int (length ls) - n else k)) ls
           = keep_last n (drop (nat k) ls)"
proof -
  have "nat (int (length ls) - n) = length ls - nat k - nat n + nat k"
    if "0 < n" "n < int (length ls) - k" using that assms by linarith
  then show ?thesis using assms by (auto simp: keep_last_def add.commute nat_diff_distrib)
qed

lemma trunc_effect:
  assumes i: "js_inv c s" and r: "js_truncateHistory True t k n s = (e, s')"
  shows "e = None" "js_inv c s'"
    "active_lines s' (sanitizeKey k) = keep_last n (active_lines s (sanitizeKey k))"
    "\<And>b'. b' \<noteq> sanitizeKey k \<Longrightarrow> js_files s' b' = js_files s b' \<and> map_of (js_metas s') b' = map_of (js_metas s) b'"
proof -
  let ?b = "sanitizeKey k"
  let ?len = "int (length (file_lines (js_files s ?b)))"
  obtain m where m: "readMeta s k = Inr m" "meta_Skip m = skip_in (map_of (js_metas s) ?b)"
    using read_meta_inv [OF i] .
  have b: "0 \<le> meta_Skip m" "meta_Skip m \<le> ?len"
    using inv_entry [OF i, of ?b] m(2) by (simp_all add: entry_ok_def)
  define sk where "sk = (if n \<le> 0 then ?len else if n < ?len - meta_Skip m then ?len - n else meta_Skip m)"
  obtain m' where s': "e = None" "s' = writeMeta k m' s" "meta_Skip m' = sk"
  proof -
    from r m(1) count_lines_inv [OF i, of ?b] show thesis
      by (cases "n \<le> 0"; cases "n < ?len - meta_Skip m")
        (auto simp: js_truncateHistory_def Let_def get_file_def sk_def intro: that)
  qed
  show "e = None" by (rule s')
  show o: "\<And>b'. b' \<noteq> ?b \<Longrightarrow> js_files s' b' = js_files s b' \<and> map_of (js_metas s') b' = map_of (js_metas s) b'"
    using s' by simp
  have "0 \<le> sk" "sk \<le> ?len" using b by (auto simp: sk_def)
  then show "js_inv c s'"
    using inv_entry [OF i, of ?b] s'
    by (intro js_inv_change [OF i, of _ ?b] o) (simp_all add: entry_ok_def skip_in_def)
  show "active_lines s' ?b = keep_last n (active_lines s ?b)"
    using drop_keep_last [OF b, of n] s' m(2) by (simp add: active_lines_def skip_in_def sk_def)
qed

lemma keep_last_map: "map f (keep_last n xs) = keep_last n (map f xs)"
  by (simp add: keep_last_def drop_map)

lemma history_member: "js_inv c s \<Longrightarrow> m \<in> set (bk_getHistory c s k) \<Longrightarrow> wire m = m \<and> handled c m"
  using inv_good [of c s "sanitizeKey k"] good_line_msg
  by (auto simp: history_inv active_lines_def list_all_iff dest!: in_set_dropD)

lemma active_other:
  "js_files s' b = js_files s b \<and> map_of (js_metas s') b = map_of (js_metas s) b \<Longrightarrow>
     active_lines s' b = active_lines s b"
  by (simp add: active_lines_def)

lemma add_history:
  assumes "js_inv c s" "handled c m" "addMsg c AddNoFault t k m s = (e, s')"
  shows "bk_getHistory c s' k = bk_getHistory c s k @ [wire m]"
proof -
  note e = add_effect [OF assms]
  let ?b = "sanitizeKey k"
  have g: "list_all (good_line c) (file_lines (js_files s ?b) @ [the (cdc_marshal c m)])"
    using inv_good [OF assms(1), of ?b] e(5) by simp
  have "skip_in (map_of (js_metas s) ?b) \<le> int (length (file_lines (js_files s ?b)))"
    using inv_entry [OF assms(1), of ?b] by (simp add: entry_ok_def)
  then have "active_lines s' ?b = active_lines s ?b @ [the (cdc_marshal c m)]"
    using e(3,4) file_lines_file [OF g] by (simp add: active_lines_def)
  then show ?thesis using e(6) by (simp add: history_inv [OF assms(1)] history_inv [OF e(2)])
qed

lemma set_effect:
  assumes i: "js_inv c s" and ms: "list_all (handled c) ms"
    and r: "js_setHistory c RwNoFault t k ms s = (e, s')"
  shows "e = None" "js_inv c s'" "bk_getHistory c s' k = map wire ms"
    "\<And>b'. b' \<noteq> sanitizeKey k \<Longrightarrow> js_files s' b' = js_files s b' \<and> map_of (js_metas s') b' = map_of (js_metas s) b'"
proof -
  obtain mt where mt: "readMeta s k = Inr mt" using read_meta_inv [OF i] .
  define m where "m = (if meta_CreatedAt mt = zero_time then mt\<lparr>meta_CreatedAt := t\<rparr> else mt)
      \<lparr>meta_Skip := 0, meta_Count := int (length ms), meta_UpdatedAt := t\<rparr>"
  have m: "meta_Skip m = 0" "rewriteJSONL c RwNoFault k ms (writeMeta k m s) = (e, s')"
    using r mt by (simp_all add: js_setHistory_def Let_def m_def)
  note e = rewrite_effect [OF i ms m]
  show "e = None" "js_inv c s'"
    "\<And>b'. b' \<noteq> sanitizeKey k \<Longrightarrow> js_files s' b' = js_files s b' \<and> map_of (js_metas s') b' = map_of (js_metas s) b'"
    using e by blast+
  show "bk_getHistory c s' k = map wire ms" using e(3) by (simp add: history_inv [OF e(2)])
qed

interpretation js: session_store "js_inv c" "handled c" wire
  "\<lambda>j k. sanitizeKey j = sanitizeKey k" "\<lambda>_ _. True" "bk_getHistory c"
  "bk_addFullMessage c AddNoFault" "bk_setHistory c RwNoFault" "bk_truncateHistory True" for c
proof
  fix s :: jsonl_store and m :: message and t :: time and k j :: string and ms :: "message list" and n :: int
  assume i: "js_inv c s"
  show "m \<in> set (bk_getHistory c s k) \<Longrightarrow> wire m = m \<and> handled c m" by (rule history_member [OF i])
  obtain e1 s1 where tr: "js_truncateHistory True t k n s = (e1, s1)" by fastforce
  note te = trunc_effect [OF i tr]
  show "js_inv c (bk_truncateHistory True t k n s) \<and> (True \<longrightarrow> True)
      \<and> bk_getHistory c (bk_truncateHistory True t k n s) k = keep_last n (bk_getHistory c s k)"
    using te(2,3) by (simp add: bk_truncateHistory_def tr history_inv(2) [OF i] history_inv(2) [OF te(2)] keep_last_map)
  show "sanitizeKey j \<noteq> sanitizeKey k \<Longrightarrow> bk_getHistory c (bk_truncateHistory True t k n s) j = bk_getHistory c s j"
    using active_other [OF te(4)]
    by (simp add: bk_truncateHistory_def tr history_inv(2) [OF i] history_inv(2) [OF te(2)])
  obtain e2 s2 where ad: "addMsg c AddNoFault t k m s = (e2, s2)" by fastforce
  show "handled c m \<Longrightarrow> js_inv c (bk_addFullMessage c AddNoFault t k m s) \<and> True
      \<and> bk_getHistory c (bk_addFullMessage c AddNoFault t k m s) k = bk_getHistory c s k @ [wire m]"
    using add_effect(2) [OF i _ ad] add_history [OF i _ ad] by (simp add: bk_addFullMessage_def ad)
  show "handled c m \<Longrightarrow> sanitizeKey j \<noteq> sanitizeKey k \<Longrightarrow>
      bk_getHistory c (bk_addFullMessage c AddNoFault t k m s) j = bk_getHistory c s j"
    using active_other [OF add_effect(7) [OF i _ ad]] history_inv(2) [OF add_effect(2) [OF i _ ad]]
    by (simp add: bk_addFullMessage_def ad history_inv(2) [OF i])
  obtain e3 s3 where st: "js_setHistory c RwNoFault t k ms s = (e3, s3)" by fastforce
  show "list_all (handled c) ms \<Longrightarrow> True \<Longrightarrow> js_inv c (bk_setHistory c RwNoFault t k ms s) \<and> True
      \<and> bk_getHistory c (bk_setHistory c RwNoFault t k ms s) k = map wire ms"
    using set_effect(2,3) [OF i _ st] by (simp add: bk_setHistory_def st)
  show "list_all (handled c) ms \<Longrightarrow> sanitizeKey j \<noteq> sanitizeKey k \<Longrightarrow>
      bk_getHistory c (bk_setHistory c RwNoFault t k ms s) j = bk_getHistory c s j"
    using active_other [OF set_effect(4) [OF i _ st]] history_inv(2) [OF set_effect(2) [OF i _ st]]
    by (simp add: bk_setHistory_def st history_inv(2) [OF i])
qed simp

fun js_write :: "codec \<Rightarrow> string \<Rightarrow> time \<times> store_op \<Rightarrow> jsonl_store \<Rightarrow> jsonl_store" where
  "js_write c k (t, OpAdd m) s = bk_addFullMessage c AddNoFault t k m s"
| "js_write c k (t, OpSetHistory ms) s = bk_setHistory c RwNoFault t k ms s"
| "js_write c k (t, OpTruncate n) s = bk_truncateHistory True t k n s"

lemma js_write_eq: "js_write c k p s = js.exec_op c k p s"
  by (cases "(c, k, p, s)" rule: js_write.cases) auto

section \<open>Properties\<close>

lemma jsonl_history_refines_facts:
  assumes "js_inv c s" and "list_all (op_ok (handled c)) (map snd ps)"
  shows "js_inv c (fold (js_write c k) ps s)"
    and "bk_getHistory c (fold (js_write c k) ps s) k = fold (spec_op wire) (map snd ps) (bk_getHistory c s k)"
    and "\<forall>j. sanitizeKey j \<noteq> sanitizeKey k \<longrightarrow>
           bk_getHistory c (fold (js_write c k) ps s) j = bk_getHistory c s j"
    and "bk_getHistory c (fold (js_write c k) ps s) k = bk_getHistory c s k @ later \<Longrightarrow>
           bk_getHistory c (bk_setHistory c RwNoFault t k
             (take (length (bk_getHistory c s k)) (bk_getHistory c (fold (js_write c k) ps s) k))
             (fold (js_write c k) ps s)) k = bk_getHistory c s k"
proof -
  have e: "js_write c k = js.exec_op c k" by (intro ext) (rule js_write_eq)
  note r = js.exec_refines [OF assms(1) TrueI assms(2), of k, folded e]
  show a: "js_inv c (fold (js_write c k) ps s)"
    and "bk_getHistory c (fold (js_write c k) ps s) k = fold (spec_op wire) (map snd ps) (bk_getHistory c s k)"
    and "\<forall>j. sanitizeKey j \<noteq> sanitizeKey k \<longrightarrow>
           bk_getHistory c (fold (js_write c k) ps s) j = bk_getHistory c s j"
    using r by blast+
  show "bk_getHistory c (fold (js_write c k) ps s) k = bk_getHistory c s k @ later \<Longrightarrow>
           bk_getHistory c (bk_setHistory c RwNoFault t k
             (take (length (bk_getHistory c s k)) (bk_getHistory c (fold (js_write c k) ps s) k))
             (fold (js_write c k) ps s)) k = bk_getHistory c s k"
    by (rule js.rollback_restores [OF assms(1) TrueI a TrueI])
qed

text \<open>Claim C28. The append-only store refines a list: from a consistent state (such as the empty
  one), any sequence of appends, replacements and truncations of messages the codec handles, without
  I/O errors, acts on the session's history as on a list of messages in their JSON form, keeps the
  state consistent, and leaves every session with another file name alone. It agrees with the
  in-memory store on the same writes. Replacing the history by the prefix it had at an earlier
  moment restores that moment's history.\<close>

theorem jsonl_history_refines:
  assumes "js_inv c s" and "list_all (op_ok (handled c)) (map snd ps)"
  shows "js_inv c (fold (js_write c k) ps s)
     \<and> bk_getHistory c (fold (js_write c k) ps s) k = fold (spec_op wire) (map snd ps) (bk_getHistory c s k)
     \<and> (\<forall>j. sanitizeKey j \<noteq> sanitizeKey k \<longrightarrow>
           bk_getHistory c (fold (js_write c k) ps s) j = bk_getHistory c s j)
     \<and> (bk_getHistory c (fold (js_write c k) ps s) k = bk_getHistory c s k @ later \<longrightarrow>
           bk_getHistory c (bk_setHistory c RwNoFault t k
             (take (length (bk_getHistory c s k)) (bk_getHistory c (fold (js_write c k) ps s) k))
             (fold (js_write c k) ps s)) k = bk_getHistory c s k)"
  using jsonl_history_refines_facts [OF assms] by blast

text \<open>A codec for the examples: user messages between braces.\<close>

definition demo_codec :: codec where
  "demo_codec =
     \<lparr>cdc_marshal = (\<lambda>m. if m = plain_message ''user'' (msg_Content m)
                           then Some (''{'' @ msg_Content m @ ''}'') else None),
      cdc_unmarshal = (\<lambda>l. if length l \<ge> 2 \<and> hd l = CHR ''{'' \<and> last l = CHR ''}''
                              \<and> CHR ''{'' \<notin> set (tl l)
                            then Some (plain_message ''user'' (butlast (tl l))) else None)\<rparr>"

lemma demo_handled:
  assumes "x \<in> {''hi'', ''yo''}"
  shows "handled demo_codec (plain_message ''user'' x)"
    "cdc_marshal demo_codec (plain_message ''user'' x) = Some (''{'' @ x @ ''}'')"
  using assms by (auto simp: handled_def demo_codec_def plain_message_def good_line_def newline_def
      maxLineSize_def wire_def)

theorem jsonl_history_refines_witness:
  "bk_getHistory demo_codec
     (fold (js_write demo_codec ''a:b'') [(1, OpAdd (plain_message ''user'' ''hi'')),
        (2, OpAdd (plain_message ''user'' ''yo'')), (3, OpTruncate 1)] newJSONLStore) ''a:b''
     = [plain_message ''user'' ''yo'']"
proof -
  have ok: "list_all (op_ok (handled demo_codec)) (map snd [(1::int, OpAdd (plain_message ''user'' ''hi'')),
        (2, OpAdd (plain_message ''user'' ''yo'')), (3, OpTruncate 1)])"
    using demo_handled by simp
  have "bk_getHistory demo_codec newJSONLStore ''a:b'' = []"
    by (simp add: bk_getHistory_def js_getHistory_def readMeta_def newJSONLStore_def readMessages_def get_file_def)
  then show ?thesis
    using jsonl_history_refines [OF js_inv_new ok, where k = "''a:b''"] by (simp add: keep_last_def)
qed

lemma handled_history: "js_inv c s \<Longrightarrow> list_all (handled c) (bk_getHistory c s k)"
  using history_member [of c s _ k] by (auto simp: list_all_iff)

lemma wire_history: "js_inv c s \<Longrightarrow> map wire (bk_getHistory c s k) = bk_getHistory c s k"
  using history_member [of c s _ k] by (simp add: map_idI)

lemma compact_meta:
  assumes i: "js_inv c s" and sk: "skip_in (map_of (js_metas s) (sanitizeKey k)) \<noteq> 0"
  obtains m where "meta_Skip m = 0"
    "js_compact c fault t k s = (if fault = RwMetaFault then (Some MetaWriteError, s)
       else rewriteJSONL c fault k (bk_getHistory c s k) (writeMeta k m s))"
proof -
  obtain mt where mt: "readMeta s k = Inr mt" "meta_Skip mt = skip_in (map_of (js_metas s) (sanitizeKey k))"
    using read_meta_inv [OF i] .
  define m where "m = mt\<lparr>meta_Skip := 0, meta_Count := int (length (bk_getHistory c s k)), meta_UpdatedAt := t\<rparr>"
  have "readMessages c (get_file s k) (meta_Skip mt) = Inr (bk_getHistory c s k)"
    using mt by (simp add: get_file_def read_messages_inv [OF i] history_inv [OF i] active_lines_def)
  then have "js_compact c fault t k s = (if fault = RwMetaFault then (Some MetaWriteError, s)
       else rewriteJSONL c fault k (bk_getHistory c s k) (writeMeta k m s))"
    using mt sk by (simp add: js_compact_def Let_def m_def)
  moreover have "meta_Skip m = 0" by (simp add: m_def)
  ultimately show thesis using that by blast
qed

lemma compact_zero:
  assumes "js_inv c s" "skip_in (map_of (js_metas s) (sanitizeKey k)) = 0"
  shows "js_compact c fault t k s = (None, s)"
proof -
  obtain m where "readMeta s k = Inr m" "meta_Skip m = skip_in (map_of (js_metas s) (sanitizeKey k))"
    using read_meta_inv [OF assms(1)] .
  with assms(2) show ?thesis by (simp add: js_compact_def)
qed

lemma jsonl_compact_facts:
  assumes i: "js_inv c s"
  shows "js_compact c RwNoFault t k s = (e, s') \<Longrightarrow>
           e = None \<and> js_inv c s' \<and> bk_getHistory c s' k = bk_getHistory c s k
           \<and> length (file_lines (js_files s' (sanitizeKey k)))
               = (if skip_in (map_of (js_metas s) (sanitizeKey k)) = 0
                  then length (file_lines (js_files s (sanitizeKey k))) else length (bk_getHistory c s k))"
    and "js_compact c RwMetaFault t k s = (e, s') \<Longrightarrow> s' = s"
    and "js_compact c RwFileFault t k s = (e, s') \<Longrightarrow>
           js_inv c s'
           \<and> bk_getHistory c s' k = map (line_msg c) (file_lines (js_files s (sanitizeKey k)))
           \<and> suffix (bk_getHistory c s k) (bk_getHistory c s' k)
           \<and> js_compact c fault t' k s' = (None, s')"
proof -
  let ?b = "sanitizeKey k"
  show "js_compact c RwNoFault t k s = (e, s') \<Longrightarrow>
           e = None \<and> js_inv c s' \<and> bk_getHistory c s' k = bk_getHistory c s k
           \<and> length (file_lines (js_files s' ?b)) = (if skip_in (map_of (js_metas s) ?b) = 0
                  then length (file_lines (js_files s ?b)) else length (bk_getHistory c s k))"
  proof (cases "skip_in (map_of (js_metas s) ?b) = 0")
    case True
    assume "js_compact c RwNoFault t k s = (e, s')"
    with compact_zero [OF i True] True i show ?thesis by simp
  next
    case False
    assume r: "js_compact c RwNoFault t k s = (e, s')"
    obtain m where m: "meta_Skip m = 0"
      "js_compact c RwNoFault t k s = rewriteJSONL c RwNoFault k (bk_getHistory c s k) (writeMeta k m s)"
      using compact_meta [OF i False, of RwNoFault t] by auto
    note e = rewrite_effect [OF i handled_history [OF i] m(1) m(2) [symmetric, unfolded r]]
    show ?thesis using e False by (simp add: history_inv(2) [OF e(2)] wire_history [OF i])
  qed
  show "js_compact c RwMetaFault t k s = (e, s') \<Longrightarrow> s' = s"
    using compact_zero [OF i] compact_meta [OF i, of k RwMetaFault t]
    by (metis prod.inject)
  assume r: "js_compact c RwFileFault t k s = (e, s')"
  have sfx: "suffix (map f (drop n xs)) (map f xs)" for f :: "string \<Rightarrow> message" and n xs
    by (metis map_mono_suffix suffix_drop)
  have st: "js_inv c s' \<and> js_files s' ?b = js_files s ?b \<and> skip_in (map_of (js_metas s') ?b) = 0"
  proof (cases "skip_in (map_of (js_metas s) ?b) = 0")
    case True
    with compact_zero [OF i True] r i show ?thesis by simp
  next
    case False
    obtain m where m: "meta_Skip m = 0"
      "js_compact c RwFileFault t k s = rewriteJSONL c RwFileFault k (bk_getHistory c s k) (writeMeta k m s)"
      using compact_meta [OF i False, of RwFileFault t] by auto
    then have s': "s' = writeMeta k m s"
      using r by (auto simp: rewriteJSONL_def split: option.splits)
    have "js_inv c s'"
      using inv_entry [OF i, of ?b] m(1) unfolding s'
      by (intro js_inv_change [OF i, of _ ?b]) (simp_all add: entry_ok_def skip_in_def)
    with m(1) s' show ?thesis by (simp add: skip_in_def)
  qed
  then have h: "bk_getHistory c s' k = map (line_msg c) (file_lines (js_files s ?b))"
    by (simp add: history_inv(2) active_lines_def)
  moreover have "suffix (bk_getHistory c s k) (bk_getHistory c s' k)"
    unfolding h by (simp add: history_inv(2) [OF i] active_lines_def sfx)
  ultimately show "js_inv c s'
           \<and> bk_getHistory c s' k = map (line_msg c) (file_lines (js_files s ?b))
           \<and> suffix (bk_getHistory c s k) (bk_getHistory c s' k)
           \<and> js_compact c fault t' k s' = (None, s')"
    using st compact_zero by blast
qed

text \<open>Claim C29. Compaction (and so the session's save) keeps the history and physically drops the
  truncated lines: afterwards the file holds exactly the history. If it stops between its two
  writes the state stays consistent and the history comes back with the truncated messages in
  front: nothing is lost, but compacting again does nothing, since the offset is already zero.\<close>

theorem jsonl_compact:
  assumes i: "js_inv c s"
  shows "(js_compact c RwNoFault t k s = (e, s') \<longrightarrow>
           e = None \<and> js_inv c s' \<and> bk_getHistory c s' k = bk_getHistory c s k
           \<and> length (file_lines (js_files s' (sanitizeKey k)))
               = (if skip_in (map_of (js_metas s) (sanitizeKey k)) = 0
                  then length (file_lines (js_files s (sanitizeKey k))) else length (bk_getHistory c s k)))
     \<and> (js_compact c RwMetaFault t k s = (e, s') \<longrightarrow> s' = s)
     \<and> (js_compact c RwFileFault t k s = (e, s') \<longrightarrow>
           js_inv c s'
           \<and> bk_getHistory c s' k = map (line_msg c) (file_lines (js_files s (sanitizeKey k)))
           \<and> suffix (bk_getHistory c s k) (bk_getHistory c s' k)
           \<and> js_compact c fault t' k s' = (None, s'))"
  using jsonl_compact_facts [OF i] by blast

text \<open>The state after two appends and a truncation to the last message.\<close>

definition demo_store :: jsonl_store where
  "demo_store = bk_truncateHistory True 3 ''a:b'' 1
     (bk_addFullMessage demo_codec AddNoFault 2 ''a:b'' (plain_message ''user'' ''yo'')
       (bk_addFullMessage demo_codec AddNoFault 1 ''a:b'' (plain_message ''user'' ''hi'') newJSONLStore))"

lemma demo_store_facts: "js_inv demo_codec demo_store"
    "bk_getHistory demo_codec demo_store ''a:b'' = [plain_message ''user'' ''yo'']"
proof -
  note h = demo_handled(1) [of "''hi''", simplified] demo_handled(1) [of "''yo''", simplified]
  note a1 = js.add_law [OF js_inv_new h(1), of 1 "''a:b''"]
  note a2 = js.add_law [OF conjunct1 [OF a1] h(2), of 2 "''a:b''"]
  note a3 = js.trunc_law [OF conjunct1 [OF a2], of 3 "''a:b''" 1]
  have e: "bk_getHistory demo_codec newJSONLStore ''a:b'' = []"
    by (simp add: bk_getHistory_def js_getHistory_def readMeta_def newJSONLStore_def readMessages_def get_file_def)
  show "js_inv demo_codec demo_store" using a3 by (simp add: demo_store_def)
  show "bk_getHistory demo_codec demo_store ''a:b'' = [plain_message ''user'' ''yo'']"
    using a1 a2 a3 e by (simp add: demo_store_def keep_last_def)
qed

theorem jsonl_compact_witness:
  "bk_getHistory demo_codec (snd (js_compact demo_codec RwNoFault 4 ''a:b'' demo_store)) ''a:b''
     = [plain_message ''user'' ''yo'']
   \<and> suffix [plain_message ''user'' ''yo'']
       (bk_getHistory demo_codec (snd (js_compact demo_codec RwFileFault 4 ''a:b'' demo_store)) ''a:b'')"
proof -
  note c = jsonl_compact [OF demo_store_facts(1), where k = "''a:b''" and t = 4]
  obtain e s' where r: "js_compact demo_codec RwNoFault 4 ''a:b'' demo_store = (e, s')" by fastforce
  obtain e2 s2 where r2: "js_compact demo_codec RwFileFault 4 ''a:b'' demo_store = (e2, s2)" by fastforce
  show ?thesis
    using mp [OF conjunct1 [OF c [where e = e and s' = s']] r]
      mp [OF conjunct2 [OF conjunct2 [OF c [where e = e2 and s' = s2]]] r2] demo_store_facts(2) r r2
    by (metis snd_conv)
qed

section \<open>Interrupted appends\<close>

text \<open>What is on disk after a torn append, and after a further append behind the torn piece: the
  clean lines and one line that does not parse, without or with its newline.\<close>

lemma split_file_gen: "list_all (good_line c) ls \<Longrightarrow> split_lines [] (file_of ls @ x) = ls @ split_lines [] x"
  by (induction ls) (auto simp: split_lines_line good_line_def)

lemma scan_bad_line:
  assumes g: "list_all (good_line c) ls" and x: "x \<in> {p, p @ [newline]}"
    and p: "p \<noteq> []" "newline \<notin> set p" "last p \<noteq> CHR 0x0D" "length p < maxLineSize"
  shows "scan_file (file_of ls @ x) = Inr (ls @ [p])"
proof -
  have "split_lines [] x = [p]"
    using x p split_lines_line [OF p(2), of "[]" "[]"] split_lines_tail [OF p(2), of "[]"] by auto
  then have sp: "split_lines [] (file_of ls @ x) = ls @ [p]" using split_file_gen [OF g] by simp
  have "map drop_cr ls = ls" using g by (intro map_idI) (auto simp: list_all_iff good_drop_cr)
  moreover have "drop_cr p = p" using p by (simp add: drop_cr_def)
  moreover have "filter (\<lambda>l. l \<noteq> []) ls = ls" using g by (auto simp: list_all_iff good_line_def)
  moreover have "\<not> list_ex (\<lambda>l. maxLineSize \<le> length l) (ls @ [p])"
    using g p by (auto simp: list_all_iff list_ex_iff good_line_def)
  ultimately show ?thesis using p by (simp add: scan_file_def sp Let_def)
qed

lemma torn_history:
  assumes i: "js_inv c s" and b: "b = sanitizeKey k"
    and f: "js_files s' b = Some (file_of (file_lines (js_files s b)) @ x)" "x \<in> {p, p @ [newline]}"
    and m: "readMeta s' k = Inr mt" "meta_Skip mt = skip_in (map_of (js_metas s) b)"
    and p: "p \<noteq> []" "newline \<notin> set p" "last p \<noteq> CHR 0x0D" "length p < maxLineSize" "cdc_unmarshal c p = None"
  shows "bk_getHistory c s' k = bk_getHistory c s k"
proof -
  let ?ls = "file_lines (js_files s b)"
  have g: "list_all (good_line c) ?ls" by (rule inv_good [OF i])
  have sk: "nat (meta_Skip mt) \<le> length ?ls"
    using inv_entry [OF i, of b] m(2) by (simp add: entry_ok_def nat_le_iff)
  have g': "list_all (good_line c) (drop (nat (meta_Skip mt)) ?ls)"
    using g by (auto simp: list_all_iff dest: in_set_dropD)
  have "List.map_filter (cdc_unmarshal c) (drop (nat (meta_Skip mt)) (?ls @ [p]))
      = map (line_msg c) (drop (nat (meta_Skip mt)) ?ls)"
    using map_filter_clean [OF g'] sk p(5) by (simp add: List.map_filter_def)
  then have "readMessages c (js_files s' b) (meta_Skip mt) = Inr (map (line_msg c) (active_lines s b))"
    using scan_bad_line [OF g f(2) p(1-4)] f(1) m(2) by (simp add: readMessages_def active_lines_def)
  then show ?thesis
    using m(1) b history_inv(2) [OF i, of k]
    by (simp add: bk_getHistory_def [of c s'] js_getHistory_def get_file_def)
qed

lemma jsonl_interrupted_append_facts:
  assumes i: "js_inv c s" and m: "handled c msg" and l: "cdc_marshal c msg = Some l"
  shows "fault \<in> {AddSyncFault, AddCloseFault, AddMetaFault} \<Longrightarrow> addMsg c fault t k msg s = (e, s') \<Longrightarrow>
           e \<noteq> None \<and> bk_getHistory c s' k = bk_getHistory c s k @ [wire msg]"
    and "addMsg c AddOpenFault t k msg s = (e, s') \<Longrightarrow> e \<noteq> None \<and> s' = s"
    and "n < length l \<Longrightarrow> 0 < n \<Longrightarrow> l ! (n - 1) \<noteq> CHR 0x0D \<Longrightarrow> cdc_unmarshal c (take n l) = None \<Longrightarrow>
         addMsg c (AddWriteFault n) t k msg s = (e, s') \<Longrightarrow>
         handled c msg2 \<Longrightarrow> cdc_marshal c msg2 = Some l2 \<Longrightarrow>
         length (take n l @ l2) < maxLineSize \<Longrightarrow> cdc_unmarshal c (take n l @ l2) = None \<Longrightarrow>
         addMsg c AddNoFault t2 k msg2 s' = (e2, s'') \<Longrightarrow>
           e \<noteq> None \<and> bk_getHistory c s' k = bk_getHistory c s k
           \<and> e2 = None \<and> bk_getHistory c s'' k = bk_getHistory c s k"
proof -
  let ?b = "sanitizeKey k"
  let ?ls = "file_lines (js_files s ?b)"
  have gl: "good_line c l" "cdc_unmarshal c l = Some (wire msg)"
    using m l by (auto simp: handled_def)
  define old where "old = (case get_file s k of None \<Rightarrow> [] | Some f \<Rightarrow> f)"
  have old: "old = file_of ?ls"
    using inv_file [OF i, of ?b] by (auto simp: old_def get_file_def file_lines_def split: option.splits)
  show "addMsg c AddOpenFault t k msg s = (e, s') \<Longrightarrow> e \<noteq> None \<and> s' = s"
    using l by (auto simp: addMsg_def Let_def)
  have g: "list_all (good_line c) (?ls @ [l])" using inv_good [OF i, of ?b] gl by simp
  obtain mt where mt: "readMeta s k = Inr mt" "meta_Skip mt = skip_in (map_of (js_metas s) ?b)"
    using read_meta_inv [OF i] .
  define s1 where "s1 = set_file k (old @ l @ [newline]) s"
  have mt1: "readMeta s1 k = Inr mt" using mt by (simp add: readMeta_def s1_def)
  have i1: "js_inv c s1"
    using inv_entry [OF i, of ?b] g file_lines_file [OF g]
    by (intro js_inv_change [OF i, of _ ?b]) (simp_all add: entry_ok_def s1_def old)
  have h1: "bk_getHistory c s1 k = bk_getHistory c s k @ [wire msg]"
  proof -
    have "skip_in (map_of (js_metas s) ?b) \<le> int (length ?ls)"
      using inv_entry [OF i, of ?b] by (simp add: entry_ok_def)
    moreover have "file_lines (js_files s1 ?b) = ?ls @ [l]"
      using file_lines_file [OF g] by (simp add: s1_def old)
    moreover have "js_metas s1 = js_metas s" by (simp add: s1_def)
    ultimately have "active_lines s1 ?b = active_lines s ?b @ [l]" by (simp add: active_lines_def)
    then show ?thesis
      using gl by (simp add: history_inv(2) [OF i] history_inv(2) [OF i1] line_msg_def)
  qed
  show "fault \<in> {AddSyncFault, AddCloseFault, AddMetaFault} \<Longrightarrow> addMsg c fault t k msg s = (e, s') \<Longrightarrow>
           e \<noteq> None \<and> bk_getHistory c s' k = bk_getHistory c s k @ [wire msg]"
    using l h1 mt1 by (auto simp: addMsg_def Let_def old_def [symmetric] s1_def [symmetric])
  assume n: "n < length l" "0 < n" "l ! (n - 1) \<noteq> CHR 0x0D" "cdc_unmarshal c (take n l) = None"
    and a: "addMsg c (AddWriteFault n) t k msg s = (e, s')"
    and m2: "handled c msg2" and l2: "cdc_marshal c msg2 = Some l2"
    and glue: "length (take n l @ l2) < maxLineSize" "cdc_unmarshal c (take n l @ l2) = None"
    and a2: "addMsg c AddNoFault t2 k msg2 s' = (e2, s'')"
  have gl2: "good_line c l2" using m2 l2 by (auto simp: handled_def)
  have s': "e = Some WriteError" "s' = set_file k (old @ take n l) s"
    using a l n(1) by (auto simp: addMsg_def Let_def old_def)
  have lastn: "last (take n l) = l ! (n - 1)" "take n l \<noteq> []"
  proof -
    show ne: "take n l \<noteq> []" using n(1,2) by auto
    show "last (take n l) = l ! (n - 1)" using last_conv_nth [OF ne] n(1,2) by simp
  qed
  have mt': "readMeta s' k = Inr mt" using mt s' by (simp add: readMeta_def)
  have pc: "newline \<notin> set (take n l)" "last (take n l) \<noteq> CHR 0x0D" "length (take n l) < maxLineSize"
    using gl(1) n(3) lastn by (auto simp: good_line_def dest: in_set_takeD)
  have h': "bk_getHistory c s' k = bk_getHistory c s k"
    using s' old lastn(2) pc n(4) mt'
    by (intro torn_history [OF i refl, of s' k "take n l" "take n l" mt]) (simp_all add: mt(2))
  define q where "q = take n l @ l2"
  have nq: "q \<noteq> []" "newline \<notin> set q" "last q \<noteq> CHR 0x0D" "length q < maxLineSize" "cdc_unmarshal c q = None"
    using gl2 glue pc by (auto simp: q_def good_line_def)
  define m2' where "m2' = (let meta1 = (if meta_Count mt = 0 \<and> meta_CreatedAt mt = zero_time
      then mt\<lparr>meta_CreatedAt := t2\<rparr> else mt)
    in meta1\<lparr>meta_Count := meta_Count meta1 + 1, meta_UpdatedAt := t2\<rparr>)"
  have s'': "e2 = None" "s'' = writeMeta k m2' (set_file k (old @ q @ [newline]) s')"
    using a2 l2 mt' s' by (simp_all add: addMsg_def Let_def m2'_def get_file_def readMeta_def q_def)
  have m2: "meta_Skip m2' = skip_in (map_of (js_metas s) ?b)" "readMeta s'' k = Inr m2'"
    using mt(2) s'' by (simp_all add: m2'_def Let_def readMeta_def)
  have "bk_getHistory c s'' k = bk_getHistory c s k"
    using s'' old nq m2
    by (intro torn_history [OF i refl, of s'' k "q @ [newline]" q m2']) simp_all
  then show "e \<noteq> None \<and> bk_getHistory c s' k = bk_getHistory c s k
           \<and> e2 = None \<and> bk_getHistory c s'' k = bk_getHistory c s k"
    using h' s' s'' by simp
qed

text \<open>Claim C30. An append that fails: if the file cannot be opened nothing changes; if the failure
  comes after the line is written (flush, close or metadata), the call reports an error but the
  message is in the history. If only a proper part of the line reaches the disk the history is
  unchanged, but the torn piece has no newline: the next append, although it reports success, is
  glued to it and its message is lost as well (for a codec that rejects the torn piece and the
  glued line, as JSON does).\<close>

theorem jsonl_interrupted_append:
  assumes i: "js_inv c s" and m: "handled c msg" and l: "cdc_marshal c msg = Some l"
  shows "(fault \<in> {AddSyncFault, AddCloseFault, AddMetaFault} \<longrightarrow> addMsg c fault t k msg s = (e, s') \<longrightarrow>
           e \<noteq> None \<and> bk_getHistory c s' k = bk_getHistory c s k @ [wire msg])
     \<and> (addMsg c AddOpenFault t k msg s = (e, s') \<longrightarrow> e \<noteq> None \<and> s' = s)
     \<and> (n < length l \<longrightarrow> 0 < n \<longrightarrow> l ! (n - 1) \<noteq> CHR 0x0D \<longrightarrow> cdc_unmarshal c (take n l) = None \<longrightarrow>
         addMsg c (AddWriteFault n) t k msg s = (e, s') \<longrightarrow>
         handled c msg2 \<longrightarrow> cdc_marshal c msg2 = Some l2 \<longrightarrow>
         length (take n l @ l2) < maxLineSize \<longrightarrow> cdc_unmarshal c (take n l @ l2) = None \<longrightarrow>
         addMsg c AddNoFault t2 k msg2 s' = (e2, s'') \<longrightarrow>
           e \<noteq> None \<and> bk_getHistory c s' k = bk_getHistory c s k
           \<and> e2 = None \<and> bk_getHistory c s'' k = bk_getHistory c s k)"
  by (intro conjI; intro impI; rule jsonl_interrupted_append_facts [OF i m l]; assumption)

theorem jsonl_interrupted_append_witness:
  "\<exists>e s' e2 s''. addMsg demo_codec (AddWriteFault 2) 4 ''a:b'' (plain_message ''user'' ''hi'') demo_store = (e, s')
     \<and> addMsg demo_codec AddNoFault 5 ''a:b'' (plain_message ''user'' ''yo'') s' = (e2, s'')
     \<and> e2 = None \<and> bk_getHistory demo_codec s'' ''a:b'' = [plain_message ''user'' ''yo'']"
proof -
  note h = demo_handled [of "''hi''", simplified] demo_handled [of "''yo''", simplified]
  obtain e s' where a: "addMsg demo_codec (AddWriteFault 2) 4 ''a:b'' (plain_message ''user'' ''hi'') demo_store = (e, s')"
    by fastforce
  obtain e2 s'' where a2: "addMsg demo_codec AddNoFault 5 ''a:b'' (plain_message ''user'' ''yo'') s' = (e2, s'')"
    by fastforce
  have u: "cdc_unmarshal demo_codec ''{h'' = None" "cdc_unmarshal demo_codec ''{h{yo}'' = None"
    by (simp_all add: demo_codec_def)
  have "e \<noteq> None \<and> bk_getHistory demo_codec s' ''a:b'' = bk_getHistory demo_codec demo_store ''a:b''
      \<and> e2 = None \<and> bk_getHistory demo_codec s'' ''a:b'' = bk_getHistory demo_codec demo_store ''a:b''"
    by (rule jsonl_interrupted_append [OF demo_store_facts(1) h(1,2), where n = 2 and t = 4 and k = "''a:b''"
        and e = e and s' = s' and ?msg2.0 = "plain_message ''user'' ''yo''" and ?l2.0 = "''{yo}''"
        and ?t2.0 = 5 and ?e2.0 = e2 and s'' = s'', THEN conjunct2, THEN conjunct2,
        THEN mp, THEN mp, THEN mp, THEN mp, THEN mp, THEN mp, THEN mp, THEN mp, THEN mp, THEN mp])
      (use h a a2 u in \<open>simp_all add: maxLineSize_def\<close>)
  with a a2 demo_store_facts(2) show ?thesis by metis
qed

end
