(* ===== verification/Cron.thy ===== *)
theory Cron
  imports Ebi_Prelude
begin

text \<open>
  \<^verbatim>\<open>pkg/cron/service.go\<close>: the job scheduler. Times are \<open>int64\<close> Unix milliseconds, with their
  wrap-around where the code adds them. The cron-expression library (\<^verbatim>\<open>gronx.NextTickAfter\<close>) is the
  parameter \<open>tick\<close>; the job handler is the parameter \<open>onJob\<close>, which returns its error and the
  service as it is when the handler has returned (other goroutines may have used the service while it
  ran). The store file holds the decoded store; a failed write (\<open>io = False\<close>) leaves it as it was.
\<close>

section \<open>Data\<close>

record cron_schedule =
  sch_Kind :: string
  sch_AtMS :: "int option"
  sch_EveryMS :: "int option"
  sch_Expr :: string
  sch_TZ :: string

record cron_payload =
  pl_Kind :: string
  pl_Message :: string
  pl_Command :: string
  pl_Channel :: string
  pl_To :: string

record cron_job_state =
  js_NextRunAtMS :: "int option"
  js_LastRunAtMS :: "int option"
  js_LastStatus :: string
  js_LastError :: string

record cron_job =
  job_ID :: string
  job_Name :: string
  job_Enabled :: bool
  job_Schedule :: cron_schedule
  job_Payload :: cron_payload
  job_State :: cron_job_state
  job_CreatedAtMS :: int
  job_UpdatedAtMS :: int
  job_DeleteAfterRun :: bool

record cron_store =
  st_Version :: int
  st_Jobs :: "cron_job list"

datatype store_file = NoFile | BadFile | StoreFile cron_store

record cron_service =
  cs_store :: cron_store
  cs_running :: bool
  cs_file :: store_file

type_synonym ticker = "string \<Rightarrow> int \<Rightarrow> int option"

definition payloadKindAgentTurn :: string where "payloadKindAgentTurn = ''agent_turn''"

section \<open>Schedules and the store\<close>

definition computeNextRun :: "ticker \<Rightarrow> cron_schedule \<Rightarrow> int \<Rightarrow> int option" where
  "computeNextRun tick schedule nowMS =
     (if sch_Kind schedule = ''at'' then
        (case sch_AtMS schedule of
           Some atMS \<Rightarrow> if atMS > nowMS then Some atMS else None
         | None \<Rightarrow> None)
      else if sch_Kind schedule = ''every'' then
        (case sch_EveryMS schedule of
           None \<Rightarrow> None
         | Some every \<Rightarrow> if every \<le> 0 then None else Some (wrap64 (nowMS + every)))
      else if sch_Kind schedule = ''cron'' then
        (if sch_Expr schedule = [] then None else tick (sch_Expr schedule) nowMS)
      else None)"

definition set_next :: "int option \<Rightarrow> cron_job \<Rightarrow> cron_job" where
  "set_next n job = job\<lparr>job_State := (job_State job)\<lparr>js_NextRunAtMS := n\<rparr>\<rparr>"

definition next_of :: "cron_job \<Rightarrow> int option" where
  "next_of job = js_NextRunAtMS (job_State job)"

definition set_jobs :: "cron_job list \<Rightarrow> cron_service \<Rightarrow> cron_service" where
  "set_jobs jobs cs = cs\<lparr>cs_store := (cs_store cs)\<lparr>st_Jobs := jobs\<rparr>\<rparr>"

definition jobs_of :: "cron_service \<Rightarrow> cron_job list" where
  "jobs_of cs = st_Jobs (cs_store cs)"

definition loadStore :: "cron_service \<Rightarrow> bool \<times> cron_service" where
  "loadStore cs =
     (let cs0 = cs\<lparr>cs_store := \<lparr>st_Version = 1, st_Jobs = []\<rparr>\<rparr>
      in case cs_file cs of
           NoFile \<Rightarrow> (True, cs0)
         | BadFile \<Rightarrow> (False, cs0)
         | StoreFile s \<Rightarrow> (True, cs\<lparr>cs_store := s\<rparr>))"

definition saveStoreUnsafe :: "bool \<Rightarrow> cron_service \<Rightarrow> bool \<times> cron_service" where
  "saveStoreUnsafe io cs = (if io then (True, cs\<lparr>cs_file := StoreFile (cs_store cs)\<rparr>) else (False, cs))"

definition newCronService :: "store_file \<Rightarrow> cron_service" where
  "newCronService file =
     snd (loadStore \<lparr>cs_store = \<lparr>st_Version = 1, st_Jobs = []\<rparr>, cs_running = False, cs_file = file\<rparr>)"

definition recomputeNextRuns :: "ticker \<Rightarrow> int \<Rightarrow> cron_service \<Rightarrow> cron_service" where
  "recomputeNextRuns tick now cs =
     set_jobs (map (\<lambda>job. if job_Enabled job
                          then set_next (computeNextRun tick (job_Schedule job) now) job else job)
                   (jobs_of cs)) cs"

definition start :: "ticker \<Rightarrow> int \<Rightarrow> bool \<Rightarrow> cron_service \<Rightarrow> bool \<times> cron_service" where
  "start tick now io cs =
     (if cs_running cs then (True, cs)
      else case loadStore cs of
             (False, cs1) \<Rightarrow> (False, cs1)
           | (True, cs1) \<Rightarrow>
               (case saveStoreUnsafe io (recomputeNextRuns tick now cs1) of
                  (False, cs2) \<Rightarrow> (False, cs2)
                | (True, cs2) \<Rightarrow> (True, cs2\<lparr>cs_running := True\<rparr>)))"

definition stop :: "cron_service \<Rightarrow> cron_service" where
  "stop cs = (if cs_running cs then cs\<lparr>cs_running := False\<rparr> else cs)"

fun min_next :: "int option \<Rightarrow> cron_job list \<Rightarrow> int option" where
  "min_next nextWake [] = nextWake"
| "min_next nextWake (job # jobs) =
     (if job_Enabled job then
        (case next_of job of
           None \<Rightarrow> min_next nextWake jobs
         | Some n \<Rightarrow>
             (case nextWake of
                None \<Rightarrow> min_next (Some n) jobs
              | Some w \<Rightarrow> if n < w then min_next (Some n) jobs else min_next (Some w) jobs))
      else min_next nextWake jobs)"

definition getNextWakeMS :: "cron_service \<Rightarrow> int option" where
  "getNextWakeMS cs = min_next None (jobs_of cs)"

section \<open>Running jobs\<close>

definition is_due :: "int \<Rightarrow> cron_job \<Rightarrow> bool" where
  "is_due now job \<longleftrightarrow> job_Enabled job \<and> (case next_of job of None \<Rightarrow> False | Some n \<Rightarrow> n \<le> now)"

text \<open>The locked part of \<^verbatim>\<open>checkJobs\<close>: the due identifiers, and the service to execute them on.\<close>

definition checkJobs :: "int \<Rightarrow> bool \<Rightarrow> cron_service \<Rightarrow> string list \<times> cron_service" where
  "checkJobs now io cs =
     (if \<not> cs_running cs then ([], cs)
      else
        let dueJobIDs = map job_ID (filter (is_due now) (jobs_of cs));
            cs1 = set_jobs (map (\<lambda>job. if job_ID job \<in> set dueJobIDs then set_next None job else job)
                                (jobs_of cs)) cs
        in (dueJobIDs, snd (saveStoreUnsafe io cs1)))"

fun find_job :: "string \<Rightarrow> cron_job list \<Rightarrow> cron_job option" where
  "find_job jobID [] = None"
| "find_job jobID (job # jobs) = (if job_ID job = jobID then Some job else find_job jobID jobs)"

text \<open>Writing through the pointer to the first job with the identifier.\<close>

fun update_job :: "string \<Rightarrow> (cron_job \<Rightarrow> cron_job) \<Rightarrow> cron_job list \<Rightarrow> cron_job list" where
  "update_job jobID f [] = []"
| "update_job jobID f (job # jobs) =
     (if job_ID job = jobID then f job # jobs else job # update_job jobID f jobs)"

definition removeJobUnsafe :: "bool \<Rightarrow> string \<Rightarrow> cron_service \<Rightarrow> bool \<times> cron_service" where
  "removeJobUnsafe io jobID cs =
     (let before = length (jobs_of cs);
          jobs = filter (\<lambda>job. job_ID job \<noteq> jobID) (jobs_of cs);
          cs1 = set_jobs jobs cs;
          removed = length jobs < before
      in (removed, if removed then snd (saveStoreUnsafe io cs1) else cs1))"

type_synonym handler = "cron_job \<Rightarrow> cron_service \<Rightarrow> string option \<times> cron_service"

definition record_result :: "int \<Rightarrow> int \<Rightarrow> string option \<Rightarrow> cron_job \<Rightarrow> cron_job" where
  "record_result startTime updated err job =
     job\<lparr>job_State := (job_State job)\<lparr>js_LastRunAtMS := Some startTime,
            js_LastStatus := (case err of None \<Rightarrow> ''ok'' | Some e \<Rightarrow> ''error''),
            js_LastError := (case err of None \<Rightarrow> [] | Some e \<Rightarrow> e)\<rparr>,
         job_UpdatedAtMS := updated\<rparr>"

definition executeJobByID ::
  "ticker \<Rightarrow> handler \<Rightarrow> int \<Rightarrow> int \<Rightarrow> int \<Rightarrow> bool \<Rightarrow> string \<Rightarrow> cron_service \<Rightarrow> cron_service" where
  "executeJobByID tick onJob startTime updated cmp io jobID cs =
     (case find_job jobID (jobs_of cs) of
        None \<Rightarrow> cs
      | Some callbackJob \<Rightarrow>
          (case onJob callbackJob cs of
             (err, cs1) \<Rightarrow>
               (case find_job jobID (jobs_of cs1) of
                  None \<Rightarrow> cs1
                | Some job0 \<Rightarrow>
                    let job = record_result startTime updated err job0;
                        cs2 = set_jobs (update_job jobID (\<lambda>_. job) (jobs_of cs1)) cs1;
                        cs3 =
                          (if sch_Kind (job_Schedule job) = ''at'' then
                             if job_DeleteAfterRun job then snd (removeJobUnsafe io (job_ID job) cs2)
                             else set_jobs (update_job jobID
                                     (\<lambda>j. set_next None (j\<lparr>job_Enabled := False\<rparr>)) (jobs_of cs2)) cs2
                           else set_jobs (update_job jobID
                                     (set_next (computeNextRun tick (job_Schedule job) cmp))
                                     (jobs_of cs2)) cs2)
                    in snd (saveStoreUnsafe io cs3))))"

text \<open>The unlocked loop of \<^verbatim>\<open>checkJobs\<close>, with the clock readings and write outcomes of each turn.\<close>

fun executeAll ::
  "ticker \<Rightarrow> handler \<Rightarrow> (nat \<Rightarrow> int \<times> int \<times> int \<times> bool) \<Rightarrow> nat \<Rightarrow> string list \<Rightarrow> cron_service \<Rightarrow> cron_service" where
  "executeAll tick onJob clk i [] cs = cs"
| "executeAll tick onJob clk i (jobID # ids) cs =
     (case clk i of
        (startTime, updated, cmp, io) \<Rightarrow>
          executeAll tick onJob clk (Suc i) ids (executeJobByID tick onJob startTime updated cmp io jobID cs))"

section \<open>The interface of the service\<close>

definition addJob ::
  "ticker \<Rightarrow> string \<Rightarrow> int \<Rightarrow> bool \<Rightarrow> string \<Rightarrow> cron_schedule \<Rightarrow> string \<Rightarrow> string \<Rightarrow> string \<Rightarrow> cron_service
     \<Rightarrow> cron_job option \<times> cron_service" where
  "addJob tick newID now io name schedule msg channel to cs =
     (let deleteAfterRun = (sch_Kind schedule = ''at'');
          job = \<lparr>job_ID = newID, job_Name = name, job_Enabled = True, job_Schedule = schedule,
                 job_Payload = \<lparr>pl_Kind = payloadKindAgentTurn, pl_Message = msg, pl_Command = [],
                                pl_Channel = channel, pl_To = to\<rparr>,
                 job_State = \<lparr>js_NextRunAtMS = computeNextRun tick schedule now,
                              js_LastRunAtMS = None, js_LastStatus = [], js_LastError = []\<rparr>,
                 job_CreatedAtMS = now, job_UpdatedAtMS = now, job_DeleteAfterRun = deleteAfterRun\<rparr>;
          cs1 = set_jobs (jobs_of cs @ [job]) cs
      in case saveStoreUnsafe io cs1 of
           (False, cs2) \<Rightarrow> (None, cs2)
         | (True, cs2) \<Rightarrow> (Some job, cs2))"

definition updateJob :: "int \<Rightarrow> bool \<Rightarrow> cron_job \<Rightarrow> cron_service \<Rightarrow> bool \<times> cron_service" where
  "updateJob now io job cs =
     (case find_job (job_ID job) (jobs_of cs) of
        None \<Rightarrow> (False, cs)
      | Some _ \<Rightarrow>
          saveStoreUnsafe io
            (set_jobs (update_job (job_ID job) (\<lambda>_. job\<lparr>job_UpdatedAtMS := now\<rparr>) (jobs_of cs)) cs))"

definition removeJob :: "bool \<Rightarrow> string \<Rightarrow> cron_service \<Rightarrow> bool \<times> cron_service" where
  "removeJob io jobID cs = removeJobUnsafe io jobID cs"

definition enableJob ::
  "ticker \<Rightarrow> int \<Rightarrow> int \<Rightarrow> bool \<Rightarrow> string \<Rightarrow> bool \<Rightarrow> cron_service \<Rightarrow> cron_job option \<times> cron_service" where
  "enableJob tick now1 now2 io jobID enabled cs =
     (case find_job jobID (jobs_of cs) of
        None \<Rightarrow> (None, cs)
      | Some job0 \<Rightarrow>
          let job1 = job0\<lparr>job_Enabled := enabled, job_UpdatedAtMS := now1\<rparr>;
              job = set_next (if enabled then computeNextRun tick (job_Schedule job1) now2 else None) job1;
              cs1 = set_jobs (update_job jobID (\<lambda>_. job) (jobs_of cs)) cs
          in (Some job, snd (saveStoreUnsafe io cs1)))"

definition listJobs :: "cron_service \<Rightarrow> bool \<Rightarrow> cron_job list" where
  "listJobs cs includeDisabled =
     (if includeDisabled then jobs_of cs else filter job_Enabled (jobs_of cs))"

record cron_status =
  cst_enabled :: bool
  cst_jobs :: nat
  cst_nextWakeAtMS :: "int option"

definition status :: "cron_service \<Rightarrow> cron_status" where
  "status cs = \<lparr>cst_enabled = cs_running cs, cst_jobs = length (jobs_of cs),
                cst_nextWakeAtMS = getNextWakeMS cs\<rparr>"

section \<open>The loop\<close>

text \<open>The sleep the loop asks for: \<^verbatim>\<open>time.Duration(diff) * time.Millisecond\<close> is an \<open>int64\<close>
  product of nanoseconds.\<close>

definition wake_delay :: "int option \<Rightarrow> int \<Rightarrow> duration" where
  "wake_delay nextWake now =
     (case nextWake of
        None \<Rightarrow> hour
      | Some w \<Rightarrow> let diff = wrap64 (w - now)
                  in if diff \<le> 0 then 0 else wrap64 (diff * millisecond))"

text \<open>Where the goroutine of \<^verbatim>\<open>runLoop\<close> is: before reading the next wake time, between reading it
  and the \<^verbatim>\<open>select\<close>, or blocked in the \<^verbatim>\<open>select\<close> with a timer that fires at a moment (in
  nanoseconds).\<close>

datatype loop_pc = LoopTop | LoopArmed duration | LoopWaiting time | LoopEnded

record cron_system =
  sys_cs :: cron_service
  sys_pc :: loop_pc

text \<open>\<^verbatim>\<open>notify\<close> sends on an unbuffered channel without blocking: it reaches the loop only when the
  loop is blocked in its \<^verbatim>\<open>select\<close>.\<close>

definition notify :: "loop_pc \<Rightarrow> loop_pc" where
  "notify pc = (case pc of LoopWaiting d \<Rightarrow> LoopTop | _ \<Rightarrow> pc)"

inductive cron_step :: "ticker \<Rightarrow> cron_system \<Rightarrow> cron_system \<Rightarrow> bool" for tick where
  read_wake: "sys_pc s = LoopTop \<Longrightarrow>
     cron_step tick s (s\<lparr>sys_pc := LoopArmed (wake_delay (getNextWakeMS (sys_cs s)) now)\<rparr>)"
| block: "sys_pc s = LoopArmed d \<Longrightarrow> cron_step tick s (s\<lparr>sys_pc := LoopWaiting (now + d)\<rparr>)"
| fire: "sys_pc s = LoopWaiting d \<Longrightarrow> d \<le> now * millisecond \<Longrightarrow>
     checkJobs now io (sys_cs s) = (ids, cs1) \<Longrightarrow>
     executeAll tick onJob clk 0 ids cs1 = cs2 \<Longrightarrow>
     cron_step tick s \<lparr>sys_cs = cs2, sys_pc = LoopTop\<rparr>"
| add: "addJob tick newID now io name schedule m ch to (sys_cs s) = (Some job, cs1) \<Longrightarrow>
     cron_step tick s \<lparr>sys_cs = cs1, sys_pc = notify (sys_pc s)\<rparr>"
| remove: "removeJob io jobID (sys_cs s) = (r, cs1) \<Longrightarrow>
     cron_step tick s \<lparr>sys_cs = cs1, sys_pc = notify (sys_pc s)\<rparr>"
| enable: "enableJob tick now now io jobID e (sys_cs s) = (Some job, cs1) \<Longrightarrow>
     cron_step tick s \<lparr>sys_cs = cs1, sys_pc = notify (sys_pc s)\<rparr>"
| update: "updateJob now io job (sys_cs s) = (r, cs1) \<Longrightarrow>
     cron_step tick s \<lparr>sys_cs = cs1,
       sys_pc = (if find_job (job_ID job) (jobs_of (sys_cs s)) = None then sys_pc s else notify (sys_pc s))\<rparr>"
| halt: "cron_step tick s \<lparr>sys_cs = stop (sys_cs s), sys_pc = LoopEnded\<rparr>"

inductive_cases cron_stepE: "cron_step tick s s'"

inductive cron_steps :: "ticker \<Rightarrow> cron_system \<Rightarrow> cron_system \<Rightarrow> bool" for tick where
  none [intro]: "cron_steps tick s s"
| more: "cron_steps tick s t \<Longrightarrow> cron_step tick t u \<Longrightarrow> cron_steps tick s u"

section \<open>Lemmas\<close>

definition ids_distinct :: "cron_service \<Rightarrow> bool" where
  "ids_distinct cs \<longleftrightarrow> distinct (map job_ID (jobs_of cs))"

lemma set_jobs_simps [simp]:
  "jobs_of (set_jobs xs cs) = xs" "cs_running (set_jobs xs cs) = cs_running cs"
  "cs_file (set_jobs xs cs) = cs_file cs"
  by (simp_all add: set_jobs_def jobs_of_def)

lemma save_simps [simp]:
  "jobs_of (snd (saveStoreUnsafe io cs)) = jobs_of cs"
  "cs_running (snd (saveStoreUnsafe io cs)) = cs_running cs"
  "fst (saveStoreUnsafe io cs) = io"
  by (simp_all add: saveStoreUnsafe_def jobs_of_def)

lemma save_file: "cs_file (snd (saveStoreUnsafe io cs)) = (if io then StoreFile (cs_store cs) else cs_file cs)"
  by (simp add: saveStoreUnsafe_def)

lemma save_store [simp]: "cs_store (snd (saveStoreUnsafe io cs)) = cs_store cs"
  by (simp add: saveStoreUnsafe_def)

lemma set_next_simps [simp]:
  "job_ID (set_next n j) = job_ID j" "job_Enabled (set_next n j) = job_Enabled j"
  "next_of (set_next n j) = n" "job_Schedule (set_next n j) = job_Schedule j"
  by (simp_all add: set_next_def next_of_def)

lemma update_job_map:
  "distinct (map job_ID js) \<Longrightarrow> update_job i f js = map (\<lambda>j. if job_ID j = i then f j else j) js"
proof (induction js)
  case (Cons j js)
  show ?case
  proof (cases "job_ID j = i")
    case True
    then have "\<forall>x\<in>set js. job_ID x \<noteq> i" using Cons.prems by (auto simp: image_iff)
    then have "map (\<lambda>j. if job_ID j = i then f j else j) js = js" by (intro map_idI) auto
    with True show ?thesis by simp
  qed (use Cons in simp)
qed simp

lemma find_job_Some: "find_job i js = Some j \<Longrightarrow> j \<in> set js \<and> job_ID j = i"
  by (induction js) (auto split: if_splits)

lemma min_next_spec:
  "min_next w js = None \<longleftrightarrow> w = None \<and> (\<forall>j\<in>set js. job_Enabled j \<longrightarrow> next_of j = None)"
  "min_next w js = Some n \<Longrightarrow>
     (w = Some n \<or> (\<exists>j\<in>set js. job_Enabled j \<and> next_of j = Some n))
     \<and> (\<forall>x. w = Some x \<longrightarrow> n \<le> x) \<and> (\<forall>j\<in>set js. \<forall>x. job_Enabled j \<and> next_of j = Some x \<longrightarrow> n \<le> x)"
proof -
  show "min_next w js = None \<longleftrightarrow> w = None \<and> (\<forall>j\<in>set js. job_Enabled j \<longrightarrow> next_of j = None)"
    by (induction w js rule: min_next.induct) (auto split: option.splits)
  show "min_next w js = Some n \<Longrightarrow>
     (w = Some n \<or> (\<exists>j\<in>set js. job_Enabled j \<and> next_of j = Some n))
     \<and> (\<forall>x. w = Some x \<longrightarrow> n \<le> x) \<and> (\<forall>j\<in>set js. \<forall>x. job_Enabled j \<and> next_of j = Some x \<longrightarrow> n \<le> x)"
  proof (induction w js rule: min_next.induct)
    case (2 w job jobs)
    show ?case
    proof (cases "job_Enabled job \<and> next_of job \<noteq> None")
      case False
      then have e: "min_next w (job # jobs) = min_next w jobs" by (auto split: option.splits)
      have "min_next w jobs = Some n" using "2.prems" e by simp
      then show ?thesis using False 2 by (cases "job_Enabled job") auto
    next
      case True
      then obtain x where x: "next_of job = Some x" "job_Enabled job" by auto
      show ?thesis
      proof (cases w)
        case None
        then show ?thesis using 2 x by auto
      next
        case (Some v)
        show ?thesis
        proof (cases "x < v")
          case True
          then show ?thesis using "2.IH"(3) [OF x(2,1) Some True] "2.prems" x Some by auto
        next
          case False
          then show ?thesis using "2.IH"(4) [OF x(2,1) Some False] "2.prems" x Some by auto
        qed
      qed
    qed
  qed simp
qed

lemma wake_none: "getNextWakeMS cs = None \<longleftrightarrow> (\<forall>j\<in>set (jobs_of cs). job_Enabled j \<longrightarrow> next_of j = None)"
  by (simp add: getNextWakeMS_def min_next_spec(1))

section \<open>Properties\<close>

text \<open>The next run of a schedule: a one-shot time counts only while it lies ahead, an
  interval gives now plus the interval, a cron expression what the cron library says, anything else
  nothing. With a cron library that only answers with later times, every computed time is later than
  now, except for an interval so long that the \<open>int64\<close> sum wraps: that one always lies in the
  past, so the job is due at once, again and again.\<close>

theorem compute_next_run_spec:
  "(sch_Kind sch = ''at'' \<longrightarrow>
      (computeNextRun tick sch now = Some t \<longleftrightarrow> sch_AtMS sch = Some t \<and> now < t))
   \<and> (sch_Kind sch = ''every'' \<longrightarrow> min_int64 \<le> now \<longrightarrow> sch_EveryMS sch = Some e \<longrightarrow> 0 < e \<longrightarrow> now + e \<le> max_int64 \<longrightarrow>
      computeNextRun tick sch now = Some (now + e))
   \<and> (sch_Kind sch = ''every'' \<longrightarrow> min_int64 \<le> now \<longrightarrow> now \<le> max_int64 \<longrightarrow> sch_EveryMS sch = Some e \<longrightarrow>
      0 < e \<longrightarrow> e \<le> max_int64 \<longrightarrow> max_int64 < now + e \<longrightarrow>
      (\<exists>n. computeNextRun tick sch now = Some n \<and> n < now))
   \<and> (computeNextRun tick sch now = Some t \<longrightarrow> min_int64 \<le> now \<longrightarrow>
      (\<forall>x y. tick x now = Some y \<longrightarrow> now < y) \<longrightarrow>
      (\<forall>x. sch_EveryMS sch = Some x \<longrightarrow> now + x \<le> max_int64) \<longrightarrow> now < t)
   \<and> (sch_Kind sch \<notin> {''at'', ''every'', ''cron''} \<longrightarrow> computeNextRun tick sch now = None)"
proof (intro conjI impI)
  show "sch_Kind sch = ''at'' \<Longrightarrow>
      computeNextRun tick sch now = Some t \<longleftrightarrow> sch_AtMS sch = Some t \<and> now < t"
    by (auto simp: computeNextRun_def split: option.splits if_splits)
  show "sch_Kind sch = ''every'' \<Longrightarrow> min_int64 \<le> now \<Longrightarrow> sch_EveryMS sch = Some e \<Longrightarrow> 0 < e \<Longrightarrow>
      now + e \<le> max_int64 \<Longrightarrow> computeNextRun tick sch now = Some (now + e)"
    by (simp add: computeNextRun_def wrap64_in_range)
  have ov: "wrap64 x = x - 18446744073709551616" if "max_int64 < x" "x \<le> 2 * max_int64 + 1" for x
  proof -
    have "(x + 9223372036854775808) mod 18446744073709551616
        = (x + 9223372036854775808 - 18446744073709551616) mod 18446744073709551616"
      by (rule minus_mod_self2 [symmetric])
    also have "\<dots> = x + 9223372036854775808 - 18446744073709551616"
      using that by (intro mod_pos_pos_trivial) (simp_all add: max_int64_def)
    finally show ?thesis by (simp add: wrap64_def)
  qed
  show "sch_Kind sch = ''every'' \<Longrightarrow> min_int64 \<le> now \<Longrightarrow> now \<le> max_int64 \<Longrightarrow> sch_EveryMS sch = Some e \<Longrightarrow>
      0 < e \<Longrightarrow> e \<le> max_int64 \<Longrightarrow> max_int64 < now + e \<Longrightarrow>
      \<exists>n. computeNextRun tick sch now = Some n \<and> n < now"
    using ov [of "now + e"] by (auto simp: computeNextRun_def max_int64_def)
  show "computeNextRun tick sch now = Some t \<Longrightarrow> min_int64 \<le> now \<Longrightarrow>
      \<forall>x y. tick x now = Some y \<longrightarrow> now < y \<Longrightarrow>
      \<forall>x. sch_EveryMS sch = Some x \<longrightarrow> now + x \<le> max_int64 \<Longrightarrow> now < t"
    by (auto simp: computeNextRun_def wrap64_in_range split: option.splits if_splits)
  show "sch_Kind sch \<notin> {''at'', ''every'', ''cron''} \<Longrightarrow> computeNextRun tick sch now = None"
    by (simp add: computeNextRun_def)
qed

definition every_schedule :: "int \<Rightarrow> cron_schedule" where
  "every_schedule e = \<lparr>sch_Kind = ''every'', sch_AtMS = None, sch_EveryMS = Some e, sch_Expr = [], sch_TZ = []\<rparr>"

theorem compute_next_run_spec_witness:
  "computeNextRun (\<lambda>_ _. None) (every_schedule 60000) 1000 = Some 61000
   \<and> (\<exists>n. computeNextRun (\<lambda>_ _. None) (every_schedule 9223372036854775807) 1000 = Some n \<and> n < 1000)"
  using compute_next_run_spec [where tick = "\<lambda>_ _. None" and sch = "every_schedule 60000" and now = 1000 and e = 60000]
    compute_next_run_spec [where tick = "\<lambda>_ _. None" and sch = "every_schedule 9223372036854775807"
      and now = 1000 and e = 9223372036854775807]
  by (simp add: every_schedule_def min_int64_def max_int64_def)

text \<open>Claim C35. A pass over the jobs takes exactly the enabled jobs whose time has come, in store order,
  and clears their next run before any of them is executed: a second pass at the same moment finds
  none, the jobs that are not due keep their state and the order is unchanged, the next wake time
  then lies ahead, and a successful write leaves the file equal to the store. A service that is not
  running takes nothing.\<close>

theorem check_jobs_once:
  assumes "ids_distinct cs" and "checkJobs now io cs = (ids, cs')"
  shows "(\<not> cs_running cs \<longrightarrow> ids = [] \<and> cs' = cs)
     \<and> (cs_running cs \<longrightarrow>
          ids = map job_ID (filter (is_due now) (jobs_of cs))
          \<and> jobs_of cs' = map (\<lambda>j. if is_due now j then set_next None j else j) (jobs_of cs)
          \<and> fst (checkJobs now io' cs') = []
          \<and> (\<forall>w. getNextWakeMS cs' = Some w \<longrightarrow> now < w)
          \<and> (io \<longrightarrow> cs_file cs' = StoreFile (cs_store cs')))"
proof (cases "cs_running cs")
  case False
  then show ?thesis using assms(2) by (simp add: checkJobs_def)
next
  case True
  let ?due = "filter (is_due now) (jobs_of cs)"
  have inj: "job_ID j \<in> set (map job_ID ?due) \<longleftrightarrow> is_due now j" if "j \<in> set (jobs_of cs)" for j
    using that assms(1) by (auto simp: ids_distinct_def distinct_map dest: inj_onD)
  have jobs: "map (\<lambda>j. if job_ID j \<in> set (map job_ID ?due) then set_next None j else j) (jobs_of cs)
      = map (\<lambda>j. if is_due now j then set_next None j else j) (jobs_of cs)"
    by (rule map_cong [OF refl]) (use inj in auto)
  have r: "ids = map job_ID ?due"
    "jobs_of cs' = map (\<lambda>j. if is_due now j then set_next None j else j) (jobs_of cs)"
    "cs_running cs'" "io \<longrightarrow> cs_file cs' = StoreFile (cs_store cs')"
    using assms(2) True jobs by (auto simp: checkJobs_def Let_def save_file)
  have nd: "\<not> is_due now j" if "j \<in> set (jobs_of cs')" for j
    using that by (auto simp: r(2) is_due_def split: if_splits)
  then have "filter (is_due now) (jobs_of cs') = []" by (simp add: filter_empty_conv)
  then have "fst (checkJobs now io' cs') = []" using r(3) by (simp add: checkJobs_def Let_def)
  moreover have "now < w" if gw: "getNextWakeMS cs' = Some w" for w
  proof -
    obtain j where "j \<in> set (jobs_of cs')" "job_Enabled j" "next_of j = Some w"
      using min_next_spec(2) [of None "jobs_of cs'" w] gw unfolding getNextWakeMS_def by fastforce
    with nd show ?thesis by (fastforce simp: is_due_def)
  qed
  ultimately show ?thesis using r True by simp
qed

definition ping_job :: cron_job where
  "ping_job = the (fst (addJob (\<lambda>_ _. None) ''j1'' 1000 True ''ping'' (every_schedule 60000) ''hi'' ''slack'' ''c1''
     (newCronService NoFile)))"

definition ping_service :: cron_service where
  "ping_service = \<lparr>cs_store = \<lparr>st_Version = 1, st_Jobs = [ping_job]\<rparr>, cs_running = True, cs_file = NoFile\<rparr>"

lemma ping_facts: "job_ID ping_job = ''j1''" "job_Enabled ping_job" "next_of ping_job = Some 61000"
    "job_Schedule ping_job = every_schedule 60000"
  by (simp_all add: ping_job_def addJob_def newCronService_def loadStore_def saveStoreUnsafe_def next_of_def
      computeNextRun_def every_schedule_def wrap64_def Let_def)

theorem check_jobs_once_witness:
  "fst (checkJobs 61000 True ping_service) = [''j1''] \<and> fst (checkJobs 61000 True (snd (checkJobs 61000 True ping_service))) = []"
proof -
  have d: "ids_distinct ping_service" by (simp add: ids_distinct_def ping_service_def jobs_of_def)
  have r: "checkJobs 61000 True ping_service = (fst (checkJobs 61000 True ping_service), snd (checkJobs 61000 True ping_service))"
    by simp
  show ?thesis
    using check_jobs_once [OF d r, where io' = True]
    by (simp add: ping_service_def jobs_of_def is_due_def ping_facts)
qed

text \<open>Executing a job: the handler sees the job as it is in the store; when it returns, the
  job as it then stands (the handler and other goroutines may have changed the service) gets the
  start time and the outcome, and then a one-shot job is removed or, if it is not to be deleted,
  disabled without a next run, while any other job gets its next run computed; no other job is
  touched. A job that is not in the store is not executed, one that has gone meanwhile is not
  brought back.\<close>

theorem execute_job_effect:
  assumes h: "find_job i (jobs_of cs) = Some j" "onJob j cs = (err, cs1)" and d: "ids_distinct cs1"
    and cs'_def: "cs' = executeJobByID tick onJob t0 t1 t2 io i cs"
  shows "(find_job i (jobs_of cs1) = None \<longrightarrow> cs' = cs1)
     \<and> (\<forall>j0. find_job i (jobs_of cs1) = Some j0 \<longrightarrow>
          (let r = record_result t0 t1 err j0
           in jobs_of cs' =
                (if sch_Kind (job_Schedule j0) = ''at'' then
                   if job_DeleteAfterRun j0 then filter (\<lambda>x. job_ID x \<noteq> i) (jobs_of cs1)
                   else map (\<lambda>x. if job_ID x = i then set_next None (r\<lparr>job_Enabled := False\<rparr>) else x) (jobs_of cs1)
                 else map (\<lambda>x. if job_ID x = i then set_next (computeNextRun tick (job_Schedule j0) t2) r else x)
                        (jobs_of cs1)))
          \<and> (io \<longrightarrow> cs_file cs' = StoreFile (cs_store cs')))
     \<and> (find_job k (jobs_of cs) = None \<longrightarrow> executeJobByID tick onJob t0 t1 t2 io k cs = cs)"
proof (intro conjI allI impI)
  show "find_job k (jobs_of cs) = None \<Longrightarrow> executeJobByID tick onJob t0 t1 t2 io k cs = cs"
    by (simp add: executeJobByID_def)
  show "find_job i (jobs_of cs1) = None \<Longrightarrow> cs' = cs1"
    using h by (simp add: cs'_def executeJobByID_def)
  fix j0 assume f: "find_job i (jobs_of cs1) = Some j0"
  then have id: "job_ID j0 = i" by (simp add: find_job_Some)
  define r where "r = record_result t0 t1 err j0"
  have rid: "job_ID r = i" "job_Schedule r = job_Schedule j0" "job_DeleteAfterRun r = job_DeleteAfterRun j0"
    using id by (simp_all add: r_def record_result_def)
  define js where "js = map (\<lambda>x. if job_ID x = i then r else x) (jobs_of cs1)"
  have u1: "update_job i (\<lambda>_. r) (jobs_of cs1) = js"
    using d by (simp add: update_job_map ids_distinct_def js_def)
  have ids: "map job_ID js = map job_ID (jobs_of cs1)" using rid(1) by (auto simp: js_def)
  then have dj: "distinct (map job_ID js)" using d by (simp add: ids_distinct_def)
  have u2: "update_job i g js = map (\<lambda>x. if job_ID x = i then g r else x) (jobs_of cs1)" for g
    using rid(1) unfolding update_job_map [OF dj] by (auto simp: js_def)
  have rm: "filter (\<lambda>x. job_ID x \<noteq> i) js = filter (\<lambda>x. job_ID x \<noteq> i) (jobs_of cs1)"
  proof -
    have "filter (\<lambda>x. job_ID x \<noteq> i) (map (\<lambda>x. if job_ID x = i then r else x) xs) = filter (\<lambda>x. job_ID x \<noteq> i) xs" for xs
      using rid(1) by (induction xs) auto
    then show ?thesis by (simp add: js_def)
  qed
  show "let r = record_result t0 t1 err j0
           in jobs_of cs' =
                (if sch_Kind (job_Schedule j0) = ''at'' then
                   if job_DeleteAfterRun j0 then filter (\<lambda>x. job_ID x \<noteq> i) (jobs_of cs1)
                   else map (\<lambda>x. if job_ID x = i then set_next None (r\<lparr>job_Enabled := False\<rparr>) else x) (jobs_of cs1)
                 else map (\<lambda>x. if job_ID x = i then set_next (computeNextRun tick (job_Schedule j0) t2) r else x)
                        (jobs_of cs1))"
    unfolding Let_def r_def [symmetric] cs'_def
    using h f rid u1 u2 rm
    by (simp add: executeJobByID_def Let_def r_def [symmetric] removeJobUnsafe_def)
  show "io \<Longrightarrow> cs_file cs' = StoreFile (cs_store cs')"
    using h f by (simp add: cs'_def executeJobByID_def Let_def save_file)
qed

theorem execute_job_effect_witness:
  "jobs_of (executeJobByID (\<lambda>_ _. None) (\<lambda>j s. (None, s)) 61000 61001 61002 True ''j1'' ping_service)
     = [set_next (Some 121002) (record_result 61000 61001 None ping_job)]"
proof -
  have h: "find_job ''j1'' (jobs_of ping_service) = Some ping_job" "ids_distinct ping_service"
    by (simp_all add: ids_distinct_def ping_service_def jobs_of_def ping_facts)
  show ?thesis
    using execute_job_effect [where onJob = "\<lambda>j s. (None, s)" and tick = "\<lambda>_ _. None" and ?t0.0 = 61000
        and ?t1.0 = 61001 and ?t2.0 = 61002 and io = True, OF h(1) refl h(2) refl] h(1)
    by (simp add: ping_facts every_schedule_def computeNextRun_def wrap64_def ping_service_def jobs_of_def Let_def)
qed

text \<open>The wake-up of the loop: a job added while the loop is blocked sends it back to read
  the next wake time, and the computed sleep ends at the next wake time exactly (for differences
  whose nanoseconds fit \<open>int64\<close>; beyond that the product wraps and can be negative, an immediate
  wake-up over and over). But the notification is lost when the loop has read the next wake time and
  is not yet blocked: from a running service without jobs a state is reachable in which the loop
  sleeps for an hour although a job that was added is enabled and due after a second.\<close>

theorem loop_wakeup:
  "(sys_pc s = LoopWaiting dl \<longrightarrow> notify (sys_pc s) = LoopTop)
   \<and> (getNextWakeMS cs = Some w \<longrightarrow> now < w \<longrightarrow> w - now \<le> 9223372036854 \<longrightarrow>
        now * millisecond + wake_delay (getNextWakeMS cs) now = w * millisecond)
   \<and> wake_delay (Some 9223372036855) 0 < 0
   \<and> (\<exists>s'. cron_steps tick
          \<lparr>sys_cs = (newCronService NoFile)\<lparr>cs_running := True\<rparr>, sys_pc = LoopTop\<rparr> s'
        \<and> sys_pc s' = LoopWaiting hour \<and> getNextWakeMS (sys_cs s') = Some 1000)"
proof (intro conjI impI)
  show "sys_pc s = LoopWaiting dl \<Longrightarrow> notify (sys_pc s) = LoopTop" by (simp add: notify_def)
  show "getNextWakeMS cs = Some w \<Longrightarrow> now < w \<Longrightarrow> w - now \<le> 9223372036854 \<Longrightarrow>
        now * millisecond + wake_delay (getNextWakeMS cs) now = w * millisecond"
    by (simp add: wake_delay_def wrap64_in_range min_int64_def max_int64_def millisecond_def Let_def)
  show "wake_delay (Some 9223372036855) 0 < 0"
    by (simp add: wake_delay_def wrap64_def millisecond_def Let_def)
  define s0 where "s0 = \<lparr>sys_cs = (newCronService NoFile)\<lparr>cs_running := True\<rparr>, sys_pc = LoopTop\<rparr>"
  define s1 where "s1 = s0\<lparr>sys_pc := LoopArmed (wake_delay (getNextWakeMS (sys_cs s0)) 0)\<rparr>"
  define sch where "sch = \<lparr>sch_Kind = ''at'', sch_AtMS = Some 1000, sch_EveryMS = None, sch_Expr = [], sch_TZ = []\<rparr>"
  have d: "wake_delay (getNextWakeMS (sys_cs s0)) 0 = hour"
    by (simp add: s0_def newCronService_def loadStore_def getNextWakeMS_def jobs_of_def wake_delay_def)
  have "cron_step tick s0 s1" unfolding s1_def by (rule read_wake) (simp add: s0_def)
  moreover
  obtain job cs2 where a: "addJob tick ''j1'' 0 True ''remind'' sch ''hi'' ''slack'' ''c1'' (sys_cs s1) = (Some job, cs2)"
    and w: "getNextWakeMS cs2 = Some 1000"
    by (simp add: s1_def s0_def newCronService_def loadStore_def addJob_def saveStoreUnsafe_def set_jobs_def jobs_of_def
        getNextWakeMS_def next_of_def computeNextRun_def sch_def Let_def)
  define s2 where "s2 = \<lparr>sys_cs = cs2, sys_pc = notify (sys_pc s1)\<rparr>"
  have "cron_step tick s1 s2" unfolding s2_def using a by (rule add)
  moreover
  have p2: "sys_pc s2 = LoopArmed hour" by (simp add: s2_def s1_def notify_def d)
  define s3 where "s3 = s2\<lparr>sys_pc := LoopWaiting (0 + hour)\<rparr>"
  have "cron_step tick s2 s3" unfolding s3_def using p2 by (rule block)
  ultimately have "cron_steps tick s0 s3" by (meson none more)
  moreover have "sys_pc s3 = LoopWaiting hour" "getNextWakeMS (sys_cs s3) = Some 1000"
    using w by (simp_all add: s3_def s2_def)
  ultimately show "\<exists>s'. cron_steps tick
          \<lparr>sys_cs = (newCronService NoFile)\<lparr>cs_running := True\<rparr>, sys_pc = LoopTop\<rparr> s'
        \<and> sys_pc s' = LoopWaiting hour \<and> getNextWakeMS (sys_cs s') = Some 1000"
    unfolding s0_def by blast
qed

theorem loop_wakeup_witness:
  "1000 * millisecond + wake_delay (getNextWakeMS ping_service) 1000 = 61000 * millisecond"
proof -
  have "getNextWakeMS ping_service = Some 61000"
    by (simp add: getNextWakeMS_def ping_service_def jobs_of_def ping_facts)
  then show ?thesis
    using loop_wakeup [where cs = ping_service and w = 61000 and now = 1000, THEN conjunct2, THEN conjunct1] by simp
qed

end
