(* ===== verification/Media.thy ===== *)
theory Media
  imports Ebi_Prelude "HOL-Library.AList"
begin

text \<open>
  \<^verbatim>\<open>pkg/media/store.go\<close>: references to media files, with a count of references per path that
  decides when a file may be deleted. The map of references is an association list (the code ranges
  over it), the inner reference sets are lists, the other maps partial functions. The random part of
  a new reference and the clock are arguments; the disk is the set of existing files. Releasing has
  two phases, as in the code: the maps change under the lock, the files are removed after it.
\<close>

section \<open>Definitions\<close>

datatype cleanup_policy = CleanupPolicyUnset | CleanupPolicyDeleteOnCleanup | CleanupPolicyForgetOnly
  | CleanupPolicyOther string

record media_meta =
  mm_Filename :: string
  mm_ContentType :: string
  mm_Source :: string
  mm_CleanupPolicy :: cleanup_policy

record media_entry =
  me_path :: string
  me_meta :: media_meta
  me_storedAt :: time

record path_ref_state =
  prs_refCount :: int
  prs_deleteEligible :: bool

record media_store =
  ms_refs :: "(string \<times> media_entry) list"
  ms_scopeToRefs :: "string \<Rightarrow> string list option"
  ms_refToScope :: "string \<Rightarrow> string option"
  ms_refToPath :: "string \<Rightarrow> string option"
  ms_pathStates :: "string \<Rightarrow> path_ref_state option"
  ms_maxAge :: duration

definition newFileMediaStore :: "duration \<Rightarrow> media_store" where
  "newFileMediaStore maxAge =
     \<lparr>ms_refs = [], ms_scopeToRefs = (\<lambda>_. None), ms_refToScope = (\<lambda>_. None),
      ms_refToPath = (\<lambda>_. None), ms_pathStates = (\<lambda>_. None), ms_maxAge = maxAge\<rparr>"

definition normalizeCleanupPolicy :: "cleanup_policy \<Rightarrow> cleanup_policy" where
  "normalizeCleanupPolicy policy =
     (case policy of
        CleanupPolicyUnset \<Rightarrow> CleanupPolicyDeleteOnCleanup
      | CleanupPolicyDeleteOnCleanup \<Rightarrow> CleanupPolicyDeleteOnCleanup
      | CleanupPolicyForgetOnly \<Rightarrow> CleanupPolicyForgetOnly
      | CleanupPolicyOther s \<Rightarrow> CleanupPolicyDeleteOnCleanup)"

text \<open>\<^verbatim>\<open>Store\<close>: the result is the new reference, or nothing when the file does not exist.\<close>

definition store_media ::
  "(string \<Rightarrow> bool) \<Rightarrow> string \<Rightarrow> time \<Rightarrow> string \<Rightarrow> media_meta \<Rightarrow> string \<Rightarrow> media_store
     \<Rightarrow> string option \<times> media_store" where
  "store_media disk newUUID now localPath meta0 scope s =
     (if \<not> disk localPath then (None, s)
      else
        let ref = ''media://'' @ newUUID;
            meta = meta0\<lparr>mm_CleanupPolicy := normalizeCleanupPolicy (mm_CleanupPolicy meta0)\<rparr>;
            scopeRefs = (case ms_scopeToRefs s scope of None \<Rightarrow> [] | Some rs \<Rightarrow> rs);
            ps0 = (case ms_pathStates s localPath of
                     None \<Rightarrow> \<lparr>prs_refCount = 0, prs_deleteEligible = False\<rparr> | Some ps \<Rightarrow> ps);
            ps1 = (if prs_refCount ps0 = 0
                   then ps0\<lparr>prs_deleteEligible := (mm_CleanupPolicy meta = CleanupPolicyDeleteOnCleanup)\<rparr>
                   else if mm_CleanupPolicy meta = CleanupPolicyForgetOnly
                   then ps0\<lparr>prs_deleteEligible := False\<rparr> else ps0);
            ps2 = ps1\<lparr>prs_refCount := prs_refCount ps1 + 1\<rparr>
        in (Some ref,
            s\<lparr>ms_refs := AList.update ref \<lparr>me_path = localPath, me_meta = meta, me_storedAt = now\<rparr> (ms_refs s),
              ms_scopeToRefs := (ms_scopeToRefs s)(scope \<mapsto> List.insert ref scopeRefs),
              ms_refToScope := (ms_refToScope s)(ref \<mapsto> scope),
              ms_refToPath := (ms_refToPath s)(ref \<mapsto> localPath),
              ms_pathStates := (ms_pathStates s)(localPath \<mapsto> ps2)\<rparr>))"

definition resolve :: "media_store \<Rightarrow> string \<Rightarrow> string option" where
  "resolve s ref = map_option me_path (map_of (ms_refs s) ref)"

definition resolveWithMeta :: "media_store \<Rightarrow> string \<Rightarrow> (string \<times> media_meta) option" where
  "resolveWithMeta s ref = map_option (\<lambda>e. (me_path e, me_meta e)) (map_of (ms_refs s) ref)"

text \<open>The path to delete, when this was its last reference and deleting is allowed.\<close>

definition releaseRefLocked :: "string \<Rightarrow> string \<Rightarrow> media_store \<Rightarrow> string option \<times> media_store" where
  "releaseRefLocked ref fallbackPath s =
     (let path = (case ms_refToPath s ref of Some p \<Rightarrow> p | None \<Rightarrow> fallbackPath);
          s1 = s\<lparr>ms_refToPath := (ms_refToPath s)(ref := None),
                 ms_refs := AList.delete ref (ms_refs s),
                 ms_refToScope := (ms_refToScope s)(ref := None)\<rparr>
      in if path = [] then (None, s1)
         else
           (case ms_pathStates s1 path of
              None \<Rightarrow> (None, s1)
            | Some ps \<Rightarrow>
                if prs_refCount ps \<le> 1 then
                  (if prs_deleteEligible ps then Some path else None,
                   s1\<lparr>ms_pathStates := (ms_pathStates s1)(path := None)\<rparr>)
                else
                  (None, s1\<lparr>ms_pathStates :=
                           (ms_pathStates s1)(path \<mapsto> ps\<lparr>prs_refCount := prs_refCount ps - 1\<rparr>)\<rparr>)))"

fun release_refs :: "string list \<Rightarrow> media_store \<Rightarrow> string list \<times> media_store" where
  "release_refs [] s = ([], s)"
| "release_refs (ref # refs) s =
     (let fallbackPath = (case map_of (ms_refs s) ref of Some e \<Rightarrow> me_path e | None \<Rightarrow> [])
      in case releaseRefLocked ref fallbackPath s of
           (p, s1) \<Rightarrow> (case release_refs refs s1 of
              (ps, s2) \<Rightarrow> ((case p of Some x \<Rightarrow> x # ps | None \<Rightarrow> ps), s2)))"

text \<open>\<^verbatim>\<open>ReleaseAll\<close>, the part under the lock: the paths to delete afterwards.\<close>

definition releaseAll :: "string \<Rightarrow> media_store \<Rightarrow> string list \<times> media_store" where
  "releaseAll scope s =
     (case ms_scopeToRefs s scope of
        None \<Rightarrow> ([], s)
      | Some refs \<Rightarrow>
          (case release_refs refs s of
             (paths, s1) \<Rightarrow> (paths, s1\<lparr>ms_scopeToRefs := (ms_scopeToRefs s1)(scope := None)\<rparr>)))"

text \<open>Removing the files, the part after the lock: every removal is independent.\<close>

definition remove_files :: "string list \<Rightarrow> (string \<Rightarrow> bool) \<Rightarrow> string \<Rightarrow> bool" where
  "remove_files paths disk f \<longleftrightarrow> disk f \<and> f \<notin> set paths"

fun clean_entries :: "time \<Rightarrow> (string \<times> media_entry) list \<Rightarrow> media_store \<Rightarrow> string list \<times> nat \<times> media_store" where
  "clean_entries cutoff [] s = ([], 0, s)"
| "clean_entries cutoff ((ref, entry) # es) s =
     (if me_storedAt entry < cutoff then
        let s1 = (case ms_refToScope s ref of
                    None \<Rightarrow> s
                  | Some scope \<Rightarrow>
                      (case ms_scopeToRefs s scope of
                         None \<Rightarrow> s
                       | Some scopeRefs \<Rightarrow>
                           let rest = filter (\<lambda>r. r \<noteq> ref) scopeRefs
                           in s\<lparr>ms_scopeToRefs := (ms_scopeToRefs s)(scope := (if rest = [] then None else Some rest))\<rparr>))
        in (case releaseRefLocked ref (me_path entry) s1 of
              (p, s2) \<Rightarrow> (case clean_entries cutoff es s2 of
                 (ps, n, s3) \<Rightarrow> ((case p of Some x \<Rightarrow> x # ps | None \<Rightarrow> ps), Suc n, s3)))
      else clean_entries cutoff es s)"

definition cleanExpired :: "time \<Rightarrow> media_store \<Rightarrow> string list \<times> nat \<times> media_store" where
  "cleanExpired now s =
     (if ms_maxAge s \<le> 0 then ([], 0, s)
      else clean_entries (now - ms_maxAge s) (ms_refs s) s)"

section \<open>The invariant\<close>

text \<open>References by path, and how many there are.\<close>

definition refs_at :: "media_store \<Rightarrow> string \<Rightarrow> string list" where
  "refs_at s p = map fst (filter (\<lambda>(r, e). me_path e = p) (ms_refs s))"

definition deletable :: "media_store \<Rightarrow> string \<Rightarrow> bool" where
  "deletable s p \<longleftrightarrow> (\<forall>(r, e) \<in> set (ms_refs s). me_path e = p \<longrightarrow>
     mm_CleanupPolicy (me_meta e) = CleanupPolicyDeleteOnCleanup)"

definition count_inv :: "media_store \<Rightarrow> bool" where
  "count_inv s \<longleftrightarrow>
     distinct (map fst (ms_refs s))
     \<and> (\<forall>r. ms_refToPath s r = map_option me_path (map_of (ms_refs s) r))
     \<and> (\<forall>r. ms_refToScope s r = None \<longleftrightarrow> map_of (ms_refs s) r = None)
     \<and> (\<forall>(r, e) \<in> set (ms_refs s). me_path e \<noteq> [])
     \<and> (\<forall>p. case ms_pathStates s p of
              None \<Rightarrow> refs_at s p = []
            | Some ps \<Rightarrow> prs_refCount ps = int (length (refs_at s p)) \<and> 0 < prs_refCount ps
                \<and> (prs_deleteEligible ps \<longrightarrow> deletable s p))"

definition scope_inv :: "media_store \<Rightarrow> bool" where
  "scope_inv s \<longleftrightarrow>
     (\<forall>scope rs. ms_scopeToRefs s scope = Some rs \<longrightarrow>
        distinct rs \<and> (\<forall>r\<in>set rs. ms_refToScope s r = Some scope))
     \<and> (\<forall>r scope. ms_refToScope s r = Some scope \<longrightarrow>
        (\<exists>rs. ms_scopeToRefs s scope = Some rs \<and> r \<in> set rs))"

definition media_inv :: "media_store \<Rightarrow> bool" where
  "media_inv s \<longleftrightarrow> count_inv s \<and> scope_inv s"

lemma media_inv_new: "media_inv (newFileMediaStore a)"
  by (simp add: media_inv_def count_inv_def scope_inv_def newFileMediaStore_def refs_at_def)

section \<open>Lemmas\<close>

definition eligible :: "media_store \<Rightarrow> string \<Rightarrow> bool" where
  "eligible s p \<longleftrightarrow> (case ms_pathStates s p of None \<Rightarrow> False | Some ps \<Rightarrow> prs_deleteEligible ps)"

definition resolve_all :: "media_store \<Rightarrow> string list \<Rightarrow> bool" where
  "resolve_all s rs \<longleftrightarrow> distinct rs \<and> (\<forall>r\<in>set rs. map_of (ms_refs s) r \<noteq> None)"

lemma length_delete:
  "distinct (map fst xs) \<Longrightarrow> map_of xs r = Some e \<Longrightarrow>
     length (filter P (AList.delete r xs)) + (if P (r, e) then 1 else 0) = length (filter P xs)"
proof (induction xs)
  case (Cons x xs)
  show ?case
  proof (cases "fst x = r")
    case True
    then have "r \<notin> fst ` set xs" using Cons.prems(1) by auto
    then have "AList.delete r xs = xs" by (force simp: AList.delete_eq filter_id_conv)
    with True Cons.prems(2) show ?thesis by (cases x) auto
  qed (use Cons in \<open>cases x; auto\<close>)
qed simp

lemma update_new: "k \<notin> fst ` set xs \<Longrightarrow> AList.update k v xs = xs @ [(k, v)]"
  by (induction xs) auto

lemma map_of_snoc: "map_of xs k = None \<Longrightarrow> map_of (xs @ [(k, v)]) = (map_of xs)(k \<mapsto> v)"
  by (auto simp: map_add_def fun_eq_iff split: option.splits)

lemma refs_at_empty: "distinct (map fst (ms_refs s)) \<Longrightarrow>
    refs_at s p = [] \<longleftrightarrow> (\<forall>r e. map_of (ms_refs s) r = Some e \<longrightarrow> me_path e \<noteq> p)"
  unfolding refs_at_def by (auto simp: filter_empty_conv map_of_eq_Some_iff)

lemma release_effect:
  assumes inv: "count_inv s" and m: "map_of (ms_refs s) r = Some e"
    and rel: "releaseRefLocked r fb s = (p, s')"
  shows "count_inv s'" "ms_scopeToRefs s' = ms_scopeToRefs s" "ms_refToScope s' = (ms_refToScope s)(r := None)"
    "map_of (ms_refs s') = (map_of (ms_refs s))(r := None)" "ms_maxAge s' = ms_maxAge s"
    "p = (if eligible s (me_path e) \<and> refs_at s' (me_path e) = [] then Some (me_path e) else None)"
    "x \<noteq> me_path e \<or> refs_at s' x \<noteq> [] \<Longrightarrow> eligible s' x = eligible s x"
proof -
  let ?p = "me_path e"
  have d: "distinct (map fst (ms_refs s))" using inv by (simp add: count_inv_def)
  have path: "ms_refToPath s r = Some ?p" using inv m by (simp add: count_inv_def)
  have ne: "?p \<noteq> []" using inv map_of_SomeD [OF m] by (auto simp: count_inv_def)
  have len: "length (filter P (AList.delete r (ms_refs s))) + (if P (r, e) then 1 else 0) = length (filter P (ms_refs s))" for P
    using length_delete [OF d m] .
  have ra: "int (length (refs_at s' q)) = int (length (refs_at s q)) - (if ?p = q then 1 else 0)"
    if "ms_refs s' = AList.delete r (ms_refs s)" for q
    using len [of "\<lambda>(r, e). me_path e = q"] that by (auto simp: refs_at_def split: if_splits)
  have pin: "refs_at s ?p \<noteq> []" using m d refs_at_empty by blast
  then obtain ps where ps: "ms_pathStates s ?p = Some ps" "prs_refCount ps = int (length (refs_at s ?p))"
    using inv by (auto simp: count_inv_def split: option.splits dest: spec [of _ ?p])
  have s': "s' = s\<lparr>ms_refToPath := (ms_refToPath s)(r := None), ms_refs := AList.delete r (ms_refs s),
        ms_refToScope := (ms_refToScope s)(r := None),
        ms_pathStates := (ms_pathStates s)(?p := (if prs_refCount ps \<le> 1 then None
            else Some (ps\<lparr>prs_refCount := prs_refCount ps - 1\<rparr>)))\<rparr>"
    and p: "p = (if prs_refCount ps \<le> 1 \<and> prs_deleteEligible ps then Some ?p else None)"
    using rel ne ps(1) by (auto simp: releaseRefLocked_def path Let_def split: if_splits)
  have refs': "ms_refs s' = AList.delete r (ms_refs s)" by (simp add: s')
  have empty: "refs_at s' ?p = [] \<longleftrightarrow> prs_refCount ps \<le> 1"
    using ra [OF refs', of ?p] ps(2) pin by (metis (mono_tags, opaque_lifting) diff_gt_0_iff_gt
        length_greater_0_conv not_le of_nat_0_less_iff)
  show "ms_scopeToRefs s' = ms_scopeToRefs s" "ms_refToScope s' = (ms_refToScope s)(r := None)"
    "map_of (ms_refs s') = (map_of (ms_refs s))(r := None)" "ms_maxAge s' = ms_maxAge s"
    by (simp_all add: s' delete_conv')
  show "p = (if eligible s ?p \<and> refs_at s' ?p = [] then Some ?p else None)"
    using p empty ps(1) by (simp add: eligible_def)
  show "eligible s' x = eligible s x" if "x \<noteq> ?p \<or> refs_at s' x \<noteq> []"
    using that empty ps(1) by (auto simp: eligible_def s')
  have sub: "set (ms_refs s') \<subseteq> set (ms_refs s)" by (auto simp: refs' AList.delete_eq)
  have del: "deletable s q \<Longrightarrow> deletable s' q" for q using sub by (auto simp: deletable_def)
  have st: "case ms_pathStates s' q of None \<Rightarrow> refs_at s' q = []
            | Some x \<Rightarrow> prs_refCount x = int (length (refs_at s' q)) \<and> 0 < prs_refCount x
                \<and> (prs_deleteEligible x \<longrightarrow> deletable s' q)" for q
  proof (cases "q = ?p")
    case True
    have "prs_deleteEligible ps \<longrightarrow> deletable s ?p"
      using inv ps(1) by (auto simp: count_inv_def split: option.splits dest: spec [of _ ?p])
    then show ?thesis
      using True empty ra [OF refs', of ?p] ps(2) del by (auto simp: s' [THEN arg_cong, of ms_pathStates])
  next
    case False
    then have "refs_at s' q = [] \<longleftrightarrow> refs_at s q = []" "length (refs_at s' q) = length (refs_at s q)"
      using ra [OF refs', of q] by auto
    moreover have "ms_pathStates s' q = ms_pathStates s q" using False by (simp add: s')
    moreover have "case ms_pathStates s q of None \<Rightarrow> refs_at s q = []
            | Some x \<Rightarrow> prs_refCount x = int (length (refs_at s q)) \<and> 0 < prs_refCount x
                \<and> (prs_deleteEligible x \<longrightarrow> deletable s q)"
      using inv by (simp add: count_inv_def)
    ultimately show ?thesis using del by (auto split: option.splits)
  qed
  show "count_inv s'"
    unfolding count_inv_def
  proof (intro conjI allI)
    show "distinct (map fst (ms_refs s'))" using d by (simp add: refs' distinct_delete)
    show "ms_refToPath s' j = map_option me_path (map_of (ms_refs s') j)" for j
      using inv by (simp add: s' delete_conv' count_inv_def)
    show "(ms_refToScope s' j = None) = (map_of (ms_refs s') j = None)" for j
      using inv by (simp add: s' delete_conv' count_inv_def)
    show "\<forall>(r, e)\<in>set (ms_refs s'). me_path e \<noteq> []" using inv sub by (auto simp: count_inv_def)
  qed (rule st)
qed

lemma release_refs_effect:
  "count_inv s \<Longrightarrow> resolve_all s rs \<Longrightarrow> release_refs rs s = (ps, s') \<Longrightarrow>
     count_inv s' \<and> ms_scopeToRefs s' = ms_scopeToRefs s
     \<and> (\<forall>j. ms_refToScope s' j = (if j \<in> set rs then None else ms_refToScope s j))
     \<and> (\<forall>j. map_of (ms_refs s') j = (if j \<in> set rs then None else map_of (ms_refs s) j))
     \<and> (\<forall>x. x \<in> set ps \<longleftrightarrow> eligible s x \<and> refs_at s x \<noteq> [] \<and> refs_at s' x = [])"
proof (induction rs arbitrary: s ps s')
  case Nil
  then show ?case by auto
next
  case (Cons r rs)
  obtain e where m: "map_of (ms_refs s) r = Some e" using Cons.prems(2) by (auto simp: resolve_all_def)
  obtain p s1 where rel: "releaseRefLocked r (me_path e) s = (p, s1)" by fastforce
  obtain qs s2 where r2: "release_refs rs s1 = (qs, s2)" by fastforce
  have res: "ps = (case p of Some x \<Rightarrow> x # qs | None \<Rightarrow> qs)" "s' = s2"
    using Cons.prems(3) m rel r2 by (auto simp: Let_def)
  note e = release_effect [OF Cons.prems(1) m rel]
  have ra: "resolve_all s1 rs" using Cons.prems(2) e(4) by (auto simp: resolve_all_def)
  note ih = Cons.IH [OF e(1) ra r2]
  have d: "distinct (map fst (ms_refs s))" "distinct (map fst (ms_refs s1))" "distinct (map fst (ms_refs s2))"
    using Cons.prems(1) e(1) ih by (simp_all add: count_inv_def)
  have mono: "refs_at s1 x = [] \<Longrightarrow> refs_at s2 x = []" "refs_at s x = [] \<Longrightarrow> refs_at s1 x = []" for x
    using ih e(4) by (auto simp: refs_at_empty [OF d(1)] refs_at_empty [OF d(2)] refs_at_empty [OF d(3)] split: if_splits)
  have pin: "refs_at s (me_path e) \<noteq> []" using m by (auto simp: refs_at_empty [OF d(1)])
  have other: "refs_at s1 x = [] \<longleftrightarrow> refs_at s x = []" if "x \<noteq> me_path e" for x
    unfolding refs_at_empty [OF d(1)] refs_at_empty [OF d(2)] e(4)
    using that m by (metis fun_upd_apply option.distinct(1) option.inject)
  have "x \<in> set ps \<longleftrightarrow> eligible s x \<and> refs_at s x \<noteq> [] \<and> refs_at s' x = []" for x
  proof (cases "x = me_path e \<and> refs_at s1 x = []")
    case True
    then have "x \<notin> set qs" using ih by auto
    then show ?thesis using True e(6) res mono pin by (auto split: option.splits if_splits)
  next
    case False
    then have el: "eligible s1 x = eligible s x" using e(7) [of x] by auto
    have "x \<in> set ps \<longleftrightarrow> x \<in> set qs" using False e(6) res by (auto split: option.splits if_splits)
    moreover have "refs_at s1 x \<noteq> [] \<longleftrightarrow> refs_at s x \<noteq> []"
      using False other [of x] pin by (cases "x = me_path e") simp_all
    ultimately show ?thesis using ih el res(2) by auto
  qed
  with ih e res(2) show ?case by (auto split: if_splits)
qed

lemma clean_effect:
  "media_inv s \<Longrightarrow> distinct (map fst es) \<Longrightarrow> \<forall>(r, e)\<in>set es. map_of (ms_refs s) r = Some e \<Longrightarrow>
   clean_entries cutoff es s = (ps, n, s') \<Longrightarrow>
     media_inv s' \<and> n = length (filter (\<lambda>(r, e). me_storedAt e < cutoff) es)
     \<and> (\<forall>j. map_of (ms_refs s') j = (if \<exists>e. (j, e) \<in> set es \<and> me_storedAt e < cutoff then None
                                   else map_of (ms_refs s) j))
     \<and> (\<forall>x. x \<in> set ps \<longleftrightarrow> eligible s x \<and> refs_at s x \<noteq> [] \<and> refs_at s' x = [])"
proof (induction es arbitrary: s ps n s')
  case Nil
  then show ?case by auto
next
  case (Cons re es)
  obtain r e where re: "re = (r, e)" by fastforce
  have m: "map_of (ms_refs s) r = Some e" using Cons.prems(3) re by auto
  have tl: "distinct (map fst es)" "\<forall>x. (r, x) \<notin> set es" using Cons.prems(2) re by force+
  have ci: "count_inv s" "scope_inv s" using Cons.prems(1) by (simp_all add: media_inv_def)
  show ?case
  proof (cases "me_storedAt e < cutoff")
    case False
    have "media_inv s' \<and> n = length (filter (\<lambda>(r, e). me_storedAt e < cutoff) es)
     \<and> (\<forall>j. map_of (ms_refs s') j = (if \<exists>e. (j, e) \<in> set es \<and> me_storedAt e < cutoff then None
                                   else map_of (ms_refs s) j))
     \<and> (\<forall>x. x \<in> set ps \<longleftrightarrow> eligible s x \<and> refs_at s x \<noteq> [] \<and> refs_at s' x = [])"
      by (rule Cons.IH [OF Cons.prems(1) tl(1)]) (use Cons.prems(3,4) re False in auto)
    with False re show ?thesis by auto
  next
    case True
    obtain scope where sc: "ms_refToScope s r = Some scope" using ci(1) m by (fastforce simp: count_inv_def)
    then obtain rs where rs: "ms_scopeToRefs s scope = Some rs" "r \<in> set rs"
      using ci(2) unfolding scope_inv_def by blast
    define rest where "rest = filter (\<lambda>x. x \<noteq> r) rs"
    define s1 where "s1 = s\<lparr>ms_scopeToRefs := (ms_scopeToRefs s)(scope := (if rest = [] then None else Some rest))\<rparr>"
    obtain p s2 where rel: "releaseRefLocked r (me_path e) s1 = (p, s2)" by fastforce
    obtain qs k s3 where rec: "clean_entries cutoff es s2 = (qs, k, s3)" by (metis prod_cases3)
    have res: "ps = (case p of Some x \<Rightarrow> x # qs | None \<Rightarrow> qs)" "n = Suc k" "s' = s3"
      using Cons.prems(4) re True sc rs(1) rel [unfolded s1_def rest_def] rec by (simp_all add: Let_def)
    have same: "ms_refs s1 = ms_refs s" "ms_refToScope s1 = ms_refToScope s" "ms_pathStates s1 = ms_pathStates s"
      "ms_refToPath s1 = ms_refToPath s" by (simp_all add: s1_def)
    have ra1: "refs_at s1 = refs_at s" "eligible s1 = eligible s" "deletable s1 = deletable s"
      by (simp_all add: fun_eq_iff refs_at_def eligible_def deletable_def same)
    have ci1: "count_inv s1" using ci(1) unfolding count_inv_def same ra1 .
    note ef = release_effect [OF ci1 m [folded same(1)] rel, unfolded ra1 same]
    have "scope_inv s2"
      unfolding scope_inv_def ef(2,3)
    proof (intro conjI allI impI)
      fix x xs assume a: "ms_scopeToRefs s1 x = Some xs"
      have "distinct xs \<and> (\<forall>j\<in>set xs. ms_refToScope s j = Some x) \<and> r \<notin> set xs"
      proof (cases "x = scope")
        case True
        then have "xs = rest" using a by (auto simp: s1_def split: if_splits)
        then show ?thesis using ci(2) rs(1) True by (auto simp: scope_inv_def rest_def)
      next
        case False
        then have "ms_scopeToRefs s x = Some xs" using a by (simp add: s1_def)
        then have "distinct xs \<and> (\<forall>j\<in>set xs. ms_refToScope s j = Some x)" using ci(2) by (auto simp: scope_inv_def)
        then show ?thesis using sc False by auto
      qed
      then show "distinct xs" "\<forall>j\<in>set xs. ((ms_refToScope s)(r := None)) j = Some x" by auto
    next
      fix j x assume a: "((ms_refToScope s)(r := None)) j = Some x"
      then have jr: "j \<noteq> r" "ms_refToScope s j = Some x" by (auto split: if_splits)
      then obtain xs where xs: "ms_scopeToRefs s x = Some xs" "j \<in> set xs"
        using ci(2) unfolding scope_inv_def by blast
      show "\<exists>xs. ms_scopeToRefs s1 x = Some xs \<and> j \<in> set xs"
      proof (cases "x = scope")
        case True
        then have "j \<in> set rest" using xs rs(1) jr(1) by (simp add: rest_def)
        then show ?thesis using True by (auto simp: s1_def)
      qed (use xs in \<open>simp add: s1_def\<close>)
    qed
    then have i2: "media_inv s2" using ef(1) by (simp add: media_inv_def)
    have in2: "\<forall>(j, x)\<in>set es. map_of (ms_refs s2) j = Some x"
      using Cons.prems(3) tl(2) re ef(4) by auto
    note ih = Cons.IH [OF i2 tl(1) in2 rec]
    have d: "distinct (map fst (ms_refs s))" "distinct (map fst (ms_refs s2))" "distinct (map fst (ms_refs s3))"
      using ci(1) ef(1) ih by (simp_all add: count_inv_def media_inv_def)
    have mono: "refs_at s2 x = [] \<Longrightarrow> refs_at s3 x = []" for x
      using ih unfolding refs_at_empty [OF d(2)] refs_at_empty [OF d(3)] by (auto split: if_splits)
    have pin: "refs_at s (me_path e) \<noteq> []" using m by (auto simp: refs_at_empty [OF d(1)])
    have other: "refs_at s2 x = [] \<longleftrightarrow> refs_at s x = []" if "x \<noteq> me_path e" for x
      unfolding refs_at_empty [OF d(1)] refs_at_empty [OF d(2)] ef(4)
      using that m by (metis fun_upd_apply option.distinct(1) option.inject)
    have "x \<in> set ps \<longleftrightarrow> eligible s x \<and> refs_at s x \<noteq> [] \<and> refs_at s' x = []" for x
    proof (cases "x = me_path e \<and> refs_at s2 x = []")
      case True
      then have "x \<notin> set qs" using ih by auto
      then show ?thesis using True ef(6) res mono pin by (auto split: option.splits if_splits)
    next
      case False
      then have el: "eligible s2 x = eligible s x" using ef(7) [of x] by auto
      have "x \<in> set ps \<longleftrightarrow> x \<in> set qs" using False ef(6) res by (auto split: option.splits if_splits)
      moreover have "refs_at s2 x \<noteq> [] \<longleftrightarrow> refs_at s x \<noteq> []"
        using False other [of x] pin by (cases "x = me_path e") simp_all
      ultimately show ?thesis using ih el res(3) by auto
    qed
    moreover have "map_of (ms_refs s') j = (if \<exists>e. (j, e) \<in> set (re # es) \<and> me_storedAt e < cutoff then None
                                   else map_of (ms_refs s) j)" for j
      using ih ef(4) res(3) re True by auto
    ultimately show ?thesis using ih res re True by auto
  qed
qed

lemma store_effect:
  assumes inv: "media_inv s" and d: "disk f" "f \<noteq> []" and fresh: "map_of (ms_refs s) (''media://'' @ u) = None"
    and st: "store_media disk u t f meta scope s = (r, s')"
  shows "r = Some (''media://'' @ u)" "media_inv s'" "resolve s' (''media://'' @ u) = Some f"
    "j \<noteq> ''media://'' @ u \<Longrightarrow> map_of (ms_refs s') j = map_of (ms_refs s) j"
    "eligible s' f \<longleftrightarrow> (refs_at s f = [] \<or> eligible s f)
       \<and> normalizeCleanupPolicy (mm_CleanupPolicy meta) = CleanupPolicyDeleteOnCleanup"
proof -
  let ?r = "''media://'' @ u"
  define m where "m = meta\<lparr>mm_CleanupPolicy := normalizeCleanupPolicy (mm_CleanupPolicy meta)\<rparr>"
  define e where "e = \<lparr>me_path = f, me_meta = m, me_storedAt = t\<rparr>"
  have ci: "count_inv s" "scope_inv s" using inv by (simp_all add: media_inv_def)
  have nin: "?r \<notin> fst ` set (ms_refs s)" using fresh by (auto simp: map_of_eq_None_iff)
  have refs': "ms_refs s' = ms_refs s @ [(?r, e)]"
    using st d update_new [OF nin] by (auto simp: store_media_def Let_def e_def m_def)
  have rest: "ms_refToScope s' = (ms_refToScope s)(?r \<mapsto> scope)" "ms_refToPath s' = (ms_refToPath s)(?r \<mapsto> f)"
    "ms_scopeToRefs s' = (ms_scopeToRefs s)(scope \<mapsto> List.insert ?r (case ms_scopeToRefs s scope of None \<Rightarrow> [] | Some rs \<Rightarrow> rs))"
    using st d by (auto simp: store_media_def Let_def)
  have notscope: "ms_refToScope s ?r = None" using ci(1) fresh by (simp add: count_inv_def)
  have pol: "mm_CleanupPolicy m \<in> {CleanupPolicyDeleteOnCleanup, CleanupPolicyForgetOnly}"
    "mm_CleanupPolicy m = normalizeCleanupPolicy (mm_CleanupPolicy meta)"
    by (simp_all add: m_def normalizeCleanupPolicy_def split: cleanup_policy.splits)
  define ok where "ok = (mm_CleanupPolicy m = CleanupPolicyDeleteOnCleanup)"
  have ps': "ms_pathStates s' = (ms_pathStates s)(f \<mapsto>
      (case ms_pathStates s f of None \<Rightarrow> \<lparr>prs_refCount = 1, prs_deleteEligible = ok\<rparr>
       | Some ps \<Rightarrow> \<lparr>prs_refCount = prs_refCount ps + 1, prs_deleteEligible = (prs_deleteEligible ps \<and> ok)\<rparr>))"
  proof -
    have "prs_refCount ps \<noteq> 0" if "ms_pathStates s f = Some ps" for ps
      using ci(1) that unfolding count_inv_def
      by (metis (mono_tags, lifting) less_irrefl option.case(2))
    then show ?thesis
      using st d pol by (auto simp: store_media_def Let_def ok_def m_def [symmetric] split: option.splits)
  qed
  have ra: "refs_at s' q = refs_at s q @ (if q = f then [?r] else [])" for q
    by (simp add: refs_at_def refs' e_def)
  have del: "deletable s' q \<longleftrightarrow> deletable s q \<and> (q = f \<longrightarrow> ok)" for q
    by (auto simp: deletable_def refs' e_def ok_def)
  have mo: "map_of (ms_refs s') = (map_of (ms_refs s))(?r \<mapsto> e)"
    unfolding refs' by (rule map_of_snoc [OF fresh])
  show "r = Some ?r" using st d by (auto simp: store_media_def Let_def)
  show "resolve s' ?r = Some f" by (simp add: resolve_def mo e_def)
  show "j \<noteq> ?r \<Longrightarrow> map_of (ms_refs s') j = map_of (ms_refs s) j" by (simp add: mo)
  have pc: "case ms_pathStates s q of None \<Rightarrow> refs_at s q = []
            | Some x \<Rightarrow> prs_refCount x = int (length (refs_at s q)) \<and> 0 < prs_refCount x
                \<and> (prs_deleteEligible x \<longrightarrow> deletable s q)" for q
    using ci(1) by (simp add: count_inv_def)
  show "eligible s' f \<longleftrightarrow> (refs_at s f = [] \<or> eligible s f)
       \<and> normalizeCleanupPolicy (mm_CleanupPolicy meta) = CleanupPolicyDeleteOnCleanup"
    using pc [of f] pol(2) by (auto simp: eligible_def ps' ok_def split: option.splits)
  have "count_inv s'"
    unfolding count_inv_def
  proof (intro conjI allI)
    show "distinct (map fst (ms_refs s'))" using ci(1) nin by (simp add: count_inv_def refs')
    show "ms_refToPath s' j = map_option me_path (map_of (ms_refs s') j)" for j
      using ci(1) by (simp add: mo rest count_inv_def e_def)
    show "(ms_refToScope s' j = None) = (map_of (ms_refs s') j = None)" for j
      using ci(1) by (simp add: mo rest count_inv_def)
    show "\<forall>(r, e)\<in>set (ms_refs s'). me_path e \<noteq> []" using ci(1) d by (auto simp: count_inv_def refs' e_def)
    show "case ms_pathStates s' q of None \<Rightarrow> refs_at s' q = []
            | Some x \<Rightarrow> prs_refCount x = int (length (refs_at s' q)) \<and> 0 < prs_refCount x
                \<and> (prs_deleteEligible x \<longrightarrow> deletable s' q)" for q
    proof (cases "q = f")
      case True
      have "refs_at s f = [] \<Longrightarrow> deletable s f" by (auto simp: refs_at_def deletable_def filter_empty_conv)
      with True pc [of f] show ?thesis by (auto simp: ps' ra del split: option.splits)
    next
      case False
      then show ?thesis using pc [of q] by (auto simp: ps' ra del split: option.splits)
    qed
  qed
  moreover have "scope_inv s'"
    unfolding scope_inv_def rest(1,3)
  proof (intro conjI allI impI)
    fix y ys assume a: "((ms_scopeToRefs s)(scope \<mapsto> List.insert ?r
        (case ms_scopeToRefs s scope of None \<Rightarrow> [] | Some rs \<Rightarrow> rs))) y = Some ys"
    have old: "distinct zs \<and> (\<forall>j\<in>set zs. ms_refToScope s j = Some y)" if "ms_scopeToRefs s y = Some zs" for zs
      using ci(2) that unfolding scope_inv_def by blast
    show "distinct ys" "\<forall>j\<in>set ys. ((ms_refToScope s)(?r \<mapsto> scope)) j = Some y"
      using a old notscope by (auto split: if_splits option.splits)
  next
    fix j y assume a: "((ms_refToScope s)(?r \<mapsto> scope)) j = Some y"
    have old: "\<exists>zs. ms_scopeToRefs s y = Some zs \<and> j \<in> set zs" if "ms_refToScope s j = Some y"
      using ci(2) that unfolding scope_inv_def by blast
    show "\<exists>ys. ((ms_scopeToRefs s)(scope \<mapsto> List.insert ?r
        (case ms_scopeToRefs s scope of None \<Rightarrow> [] | Some rs \<Rightarrow> rs))) y = Some ys \<and> j \<in> set ys"
      using a old by (auto split: if_splits)
  qed
  ultimately show "media_inv s'" by (simp add: media_inv_def)
qed

lemma releaseAll_effect:
  assumes inv: "media_inv s" and rs: "ms_scopeToRefs s scope = Some rs" and rel: "releaseAll scope s = (ps, s')"
  shows "media_inv s'"
    "map_of (ms_refs s') j = (if ms_refToScope s j = Some scope then None else map_of (ms_refs s) j)"
    "x \<in> set ps \<longleftrightarrow> eligible s x \<and> refs_at s x \<noteq> [] \<and> refs_at s' x = []"
proof -
  have ci: "count_inv s" "scope_inv s" using inv by (simp_all add: media_inv_def)
  obtain s1 where r: "release_refs rs s = (ps, s1)"
    and s': "s' = s1\<lparr>ms_scopeToRefs := (ms_scopeToRefs s1)(scope := None)\<rparr>"
    using rel rs by (auto simp: releaseAll_def split: prod.splits)
  have mem: "j \<in> set rs \<longleftrightarrow> ms_refToScope s j = Some scope" for j
    using ci(2) rs unfolding scope_inv_def by (metis option.inject)
  have "resolve_all s rs"
    unfolding resolve_all_def
  proof (intro conjI ballI)
    show "distinct rs" using ci(2) rs by (auto simp: scope_inv_def)
    show "map_of (ms_refs s) j \<noteq> None" if "j \<in> set rs" for j
      using that mem ci(1) unfolding count_inv_def by (metis option.distinct(1))
  qed
  note ef = release_refs_effect [OF ci(1) this r]
  have same: "ms_refs s' = ms_refs s1" "ms_refToScope s' = ms_refToScope s1" "ms_pathStates s' = ms_pathStates s1"
    "ms_refToPath s' = ms_refToPath s1" "ms_scopeToRefs s' = (ms_scopeToRefs s)(scope := None)"
    using ef by (simp_all add: s')
  have ra: "refs_at s' = refs_at s1" "deletable s' = deletable s1"
    by (simp_all add: fun_eq_iff refs_at_def deletable_def same)
  have "count_inv s'" using ef unfolding count_inv_def same ra by blast
  moreover have "scope_inv s'"
    unfolding scope_inv_def same(2,5)
  proof (intro conjI allI impI)
    fix y ys assume "((ms_scopeToRefs s)(scope := None)) y = Some ys"
    then have y: "y \<noteq> scope" "ms_scopeToRefs s y = Some ys" by (auto split: if_splits)
    then have "distinct ys \<and> (\<forall>j\<in>set ys. ms_refToScope s j = Some y)"
      using ci(2) unfolding scope_inv_def by blast
    then show "distinct ys" "\<forall>j\<in>set ys. ms_refToScope s1 j = Some y"
      using ef mem y(1) by auto
  next
    fix j y assume "ms_refToScope s1 j = Some y"
    then have y: "j \<notin> set rs" "ms_refToScope s j = Some y" using ef by (auto split: if_splits)
    then have "y \<noteq> scope" using mem by auto
    then show "\<exists>ys. ((ms_scopeToRefs s)(scope := None)) y = Some ys \<and> j \<in> set ys"
      using y ci(2) unfolding scope_inv_def by auto
  qed
  ultimately show "media_inv s'" by (simp add: media_inv_def)
  show "map_of (ms_refs s') j = (if ms_refToScope s j = Some scope then None else map_of (ms_refs s) j)"
    using ef mem by (simp add: same)
  show "x \<in> set ps \<longleftrightarrow> eligible s x \<and> refs_at s x \<noteq> [] \<and> refs_at s' x = []"
    using ef unfolding ra by blast
qed

lemma releaseAll_none: "ms_scopeToRefs s scope = None \<Longrightarrow> releaseAll scope s = ([], s)"
  by (simp add: releaseAll_def)

lemma cleanExpired_effect:
  assumes inv: "media_inv s" and c: "cleanExpired now s = (ps, n, s')" and age: "0 < ms_maxAge s"
  shows "media_inv s'" "n = length (filter (\<lambda>(r, e). me_storedAt e < now - ms_maxAge s) (ms_refs s))"
    "map_of (ms_refs s') j = (case map_of (ms_refs s) j of None \<Rightarrow> None
        | Some e \<Rightarrow> if me_storedAt e < now - ms_maxAge s then None else Some e)"
    "x \<in> set ps \<longleftrightarrow> eligible s x \<and> refs_at s x \<noteq> [] \<and> refs_at s' x = []"
proof -
  have d: "distinct (map fst (ms_refs s))" using inv by (simp add: media_inv_def count_inv_def)
  have all: "\<forall>(r, e)\<in>set (ms_refs s). map_of (ms_refs s) r = Some e"
    using d by (auto simp: map_of_eq_Some_iff)
  have run: "clean_entries (now - ms_maxAge s) (ms_refs s) s = (ps, n, s')"
    using c age by (simp add: cleanExpired_def)
  note ef = clean_effect [OF inv d all run]
  show "media_inv s'" "n = length (filter (\<lambda>(r, e). me_storedAt e < now - ms_maxAge s) (ms_refs s))"
    "x \<in> set ps \<longleftrightarrow> eligible s x \<and> refs_at s x \<noteq> [] \<and> refs_at s' x = []"
    using ef by blast+
  have "(\<exists>e. (j, e) \<in> set (ms_refs s) \<and> me_storedAt e < now - ms_maxAge s) \<longleftrightarrow>
      (case map_of (ms_refs s) j of None \<Rightarrow> False | Some e \<Rightarrow> me_storedAt e < now - ms_maxAge s)"
    unfolding map_of_eq_Some_iff [OF d, symmetric] by (simp split: option.splits)
  then show "map_of (ms_refs s') j = (case map_of (ms_refs s) j of None \<Rightarrow> None
        | Some e \<Rightarrow> if me_storedAt e < now - ms_maxAge s then None else Some e)"
    using ef by (auto split: option.splits)
qed

section \<open>Properties\<close>

text \<open>
  What the callers do to a store: registrations under fresh references, releases of a scope and
  cleaning, in any order.
\<close>

inductive media_reach :: "media_store \<Rightarrow> bool" where
  new: "media_reach (newFileMediaStore maxAge)"
| stored: "media_reach s \<Longrightarrow> localPath \<noteq> [] \<Longrightarrow> resolve s (''media://'' @ u) = None \<Longrightarrow>
    media_reach (snd (store_media disk u now localPath meta scope s))"
| released: "media_reach s \<Longrightarrow> media_reach (snd (releaseAll scope s))"
| cleaned: "media_reach s \<Longrightarrow> media_reach (snd (snd (cleanExpired now s)))"

lemma store_inv:
  assumes "media_inv s" "localPath \<noteq> []" "resolve s (''media://'' @ u) = None"
  shows "media_inv (snd (store_media disk u now localPath meta scope s))"
proof (cases "disk localPath")
  case True
  obtain r s' where st: "store_media disk u now localPath meta scope s = (r, s')" by fastforce
  have "map_of (ms_refs s) (''media://'' @ u) = None" using assms(3) by (simp add: resolve_def)
  from store_effect(2) [of s disk localPath u, OF assms(1) True assms(2) this st] st show ?thesis by simp
qed (simp add: store_media_def assms(1))

lemma releaseAll_inv: "media_inv s \<Longrightarrow> media_inv (snd (releaseAll scope s))"
proof (cases "ms_scopeToRefs s scope")
  case (Some rs)
  assume inv: "media_inv s"
  obtain ps s' where "releaseAll scope s = (ps, s')" by fastforce
  with releaseAll_effect(1) [OF inv Some this] show ?thesis by simp
qed (simp add: releaseAll_none)

lemma cleanExpired_inv: "media_inv s \<Longrightarrow> media_inv (snd (snd (cleanExpired now s)))"
proof (cases "0 < ms_maxAge s")
  case True
  assume inv: "media_inv s"
  obtain ps n s' where "cleanExpired now s = (ps, n, s')" by (metis prod_cases3)
  with cleanExpired_effect(1) [OF inv this True] show ?thesis by simp
qed (simp add: cleanExpired_def)

lemma reach_inv: "media_reach s \<Longrightarrow> media_inv s"
  by (induction rule: media_reach.induct) (auto intro: media_inv_new store_inv releaseAll_inv cleanExpired_inv)

text \<open>
  Claim C36. In every state a media store can reach, whatever the order of registrations, releases
  and cleaning: the count kept for a path is the number of references that resolve to it and is
  kept exactly while there is one; a path is marked for deletion only if no reference to it asked
  to keep the file; and the references of the scopes and the scopes of the references agree.
\<close>

theorem media_store_invariant:
  assumes "media_reach s"
  shows "(\<forall>p. case ms_pathStates s p of
             None \<Rightarrow> (\<forall>r. resolve s r \<noteq> Some p)
           | Some ps \<Rightarrow> prs_refCount ps = int (card {r. resolve s r = Some p}) \<and> 0 < prs_refCount ps
               \<and> (prs_deleteEligible ps \<longrightarrow> (\<forall>r m. resolveWithMeta s r = Some (p, m) \<longrightarrow>
                     mm_CleanupPolicy m = CleanupPolicyDeleteOnCleanup)))
         \<and> (\<forall>r scope. ms_refToScope s r = Some scope \<longleftrightarrow>
               (\<exists>rs. ms_scopeToRefs s scope = Some rs \<and> r \<in> set rs))
         \<and> (\<forall>r. resolve s r = None \<longleftrightarrow> ms_refToScope s r = None)"
proof -
  have inv: "count_inv s" "scope_inv s" using reach_inv [OF assms] by (simp_all add: media_inv_def)
  have d: "distinct (map fst (ms_refs s))" using inv(1) by (simp add: count_inv_def)
  have set_at: "set (refs_at s p) = {r. resolve s r = Some p}" for p
    using d by (force simp: refs_at_def resolve_def map_of_eq_Some_iff)
  have dist: "distinct (refs_at s p)" for p
    using d by (simp add: refs_at_def distinct_map_filter)
  have card: "length (refs_at s p) = card {r. resolve s r = Some p}" for p
    using distinct_card [OF dist] by (simp add: set_at)
  have empty: "refs_at s p = [] \<longleftrightarrow> (\<forall>r. resolve s r \<noteq> Some p)" for p
    using set_at [of p] by auto
  have del: "deletable s p \<Longrightarrow> \<forall>r m. resolveWithMeta s r = Some (p, m) \<longrightarrow>
      mm_CleanupPolicy m = CleanupPolicyDeleteOnCleanup" for p
    by (auto simp: deletable_def resolveWithMeta_def dest: map_of_SomeD)
  have "case ms_pathStates s p of
             None \<Rightarrow> (\<forall>r. resolve s r \<noteq> Some p)
           | Some ps \<Rightarrow> prs_refCount ps = int (card {r. resolve s r = Some p}) \<and> 0 < prs_refCount ps
               \<and> (prs_deleteEligible ps \<longrightarrow> (\<forall>r m. resolveWithMeta s r = Some (p, m) \<longrightarrow>
                     mm_CleanupPolicy m = CleanupPolicyDeleteOnCleanup))" for p
  proof -
    have "case ms_pathStates s p of None \<Rightarrow> refs_at s p = []
            | Some ps \<Rightarrow> prs_refCount ps = int (length (refs_at s p)) \<and> 0 < prs_refCount ps
                \<and> (prs_deleteEligible ps \<longrightarrow> deletable s p)"
      using inv(1) by (simp add: count_inv_def)
    with del [of p] show ?thesis unfolding empty card by (auto split: option.splits)
  qed
  moreover have "ms_refToScope s r = Some scope \<longleftrightarrow>
      (\<exists>rs. ms_scopeToRefs s scope = Some rs \<and> r \<in> set rs)" for r scope
    using inv(2) unfolding scope_inv_def by blast
  moreover have "resolve s r = None \<longleftrightarrow> ms_refToScope s r = None" for r
    using inv(1) by (simp add: count_inv_def resolve_def)
  ultimately show ?thesis by blast
qed

text \<open>A store with one file under each policy, both of the same scope, and a third reference.\<close>

definition sample_meta :: "cleanup_policy \<Rightarrow> media_meta" where
  "sample_meta pol = \<lparr>mm_Filename = ''f'', mm_ContentType = ''t'', mm_Source = ''x'', mm_CleanupPolicy = pol\<rparr>"

definition sample_store :: media_store where
  "sample_store =
     snd (store_media (\<lambda>_. True) ''3'' 90 ''/b'' (sample_meta CleanupPolicyUnset) ''s2''
       (snd (store_media (\<lambda>_. True) ''2'' 10 ''/k'' (sample_meta CleanupPolicyForgetOnly) ''s1''
         (snd (store_media (\<lambda>_. True) ''1'' 10 ''/a'' (sample_meta CleanupPolicyUnset) ''s1'' (newFileMediaStore 50))))))"

lemmas sample_simps = sample_store_def sample_meta_def store_media_def newFileMediaStore_def
  normalizeCleanupPolicy_def Let_def resolve_def releaseAll_def releaseRefLocked_def cleanExpired_def

lemma sample_reach: "media_reach sample_store"
  unfolding sample_store_def
  by (intro media_reach.stored media_reach.new) (simp_all add: sample_simps)

theorem media_store_invariant_witness:
  "(case ms_pathStates sample_store ''/b'' of
      None \<Rightarrow> (\<forall>r. resolve sample_store r \<noteq> Some ''/b'')
    | Some ps \<Rightarrow> prs_refCount ps = int (card {r. resolve sample_store r = Some ''/b''}) \<and> 0 < prs_refCount ps
        \<and> (prs_deleteEligible ps \<longrightarrow> (\<forall>r m. resolveWithMeta sample_store r = Some (''/b'', m) \<longrightarrow>
              mm_CleanupPolicy m = CleanupPolicyDeleteOnCleanup)))"
  using media_store_invariant [OF sample_reach] by blast

lemma refs_at_resolve:
  assumes "media_inv s"
  shows "refs_at s p = [] \<longleftrightarrow> (\<forall>r. resolve s r \<noteq> Some p)"
proof -
  have "distinct (map fst (ms_refs s))" using assms by (simp add: media_inv_def count_inv_def)
  from refs_at_empty [OF this] show ?thesis by (auto simp: resolve_def)
qed

text \<open>
  Releasing a scope drops every reference of the scope and no other. The files it deletes
  are exactly those whose last reference this was and which may be deleted; a file that some
  remaining reference resolves to is still there afterwards.
\<close>

theorem media_release_all:
  assumes "media_reach s" and "releaseAll scope s = (ps, s')"
  shows "(\<forall>r. resolve s' r = (if ms_refToScope s r = Some scope then None else resolve s r))
    \<and> (\<forall>p. p \<in> set ps \<longleftrightarrow> eligible s p \<and> (\<exists>r. resolve s r = Some p) \<and> (\<forall>r. resolve s' r \<noteq> Some p))
    \<and> (\<forall>r p. resolve s' r = Some p \<longrightarrow> remove_files ps disk p = disk p)"
proof (cases "ms_scopeToRefs s scope")
  case None
  have "ms_refToScope s r \<noteq> Some scope" for r
    using reach_inv [OF assms(1)] None unfolding media_inv_def scope_inv_def by (metis option.distinct(1))
  with None assms(2) show ?thesis by (auto simp: releaseAll_none remove_files_def)
next
  case (Some rs)
  note inv = reach_inv [OF assms(1)]
  note ef = releaseAll_effect [OF inv Some assms(2)]
  have r: "\<forall>r. resolve s' r = (if ms_refToScope s r = Some scope then None else resolve s r)"
    by (simp add: resolve_def ef(2))
  have p: "\<forall>p. p \<in> set ps \<longleftrightarrow> eligible s p \<and> (\<exists>r. resolve s r = Some p) \<and> (\<forall>r. resolve s' r \<noteq> Some p)"
    using ef(3) by (simp add: refs_at_resolve [OF inv] refs_at_resolve [OF ef(1)])
  have "\<forall>r p. resolve s' r = Some p \<longrightarrow> remove_files ps disk p = disk p"
    using p by (auto simp: remove_files_def)
  with r p show ?thesis by blast
qed

theorem media_release_all_witness:
  "resolve (snd (releaseAll ''s1'' sample_store)) ''media://3'' = resolve sample_store ''media://3''
   \<and> ms_refToScope sample_store ''media://3'' \<noteq> Some ''s1''"
proof -
  have sc: "ms_refToScope sample_store ''media://3'' \<noteq> Some ''s1''" by (simp add: sample_simps)
  show ?thesis using conjunct1 [OF media_release_all [OF sample_reach prod.collapse [symmetric], of "''s1''"]] sc
    by (metis (full_types))
qed

text \<open>
  Cleaning drops exactly the references older than the maximal age and reports how many
  they were; the files it deletes are exactly those left without a reference that may be deleted,
  and a file that some remaining reference resolves to is still there. With no maximal age it does
  nothing.
\<close>

theorem media_clean_expired:
  assumes "media_reach s" and "cleanExpired now s = (ps, n, s')"
  shows "(ms_maxAge s \<le> 0 \<longrightarrow> ps = [] \<and> n = 0 \<and> s' = s)
    \<and> (0 < ms_maxAge s \<longrightarrow>
        (\<forall>r. map_of (ms_refs s') r = (case map_of (ms_refs s) r of None \<Rightarrow> None
            | Some e \<Rightarrow> if me_storedAt e < now - ms_maxAge s then None else Some e))
      \<and> n = length (filter (\<lambda>(r, e). me_storedAt e < now - ms_maxAge s) (ms_refs s))
      \<and> (\<forall>p. p \<in> set ps \<longleftrightarrow> eligible s p \<and> (\<exists>r. resolve s r = Some p) \<and> (\<forall>r. resolve s' r \<noteq> Some p))
      \<and> (\<forall>r p. resolve s' r = Some p \<longrightarrow> remove_files ps disk p = disk p))"
proof (cases "0 < ms_maxAge s")
  case True
  note inv = reach_inv [OF assms(1)]
  note ef = cleanExpired_effect [OF inv assms(2) True]
  have p: "\<forall>p. p \<in> set ps \<longleftrightarrow> eligible s p \<and> (\<exists>r. resolve s r = Some p) \<and> (\<forall>r. resolve s' r \<noteq> Some p)"
    using ef(4) by (simp add: refs_at_resolve [OF inv] refs_at_resolve [OF ef(1)])
  have "\<forall>r p. resolve s' r = Some p \<longrightarrow> remove_files ps disk p = disk p"
    using p by (auto simp: remove_files_def)
  with p ef(2,3) True show ?thesis by simp
qed (use assms(2) in \<open>simp add: cleanExpired_def\<close>)

theorem media_clean_expired_witness:
  "cleanExpired 100 sample_store = ([''/a''], 2, snd (snd (cleanExpired 100 sample_store)))
   \<and> resolve (snd (snd (cleanExpired 100 sample_store))) ''media://3'' = Some ''/b''"
proof -
  let ?c = "cleanExpired 100 sample_store"
  have eq: "?c = ([''/a''], 2, snd (snd ?c))" by (simp add: sample_simps)
  have age: "0 < ms_maxAge sample_store" by (simp add: sample_simps)
  have "map_of (ms_refs (snd (snd ?c))) ''media://3'' = (case map_of (ms_refs sample_store) ''media://3'' of
      None \<Rightarrow> None | Some e \<Rightarrow> if me_storedAt e < 100 - ms_maxAge sample_store then None else Some e)"
    using mp [OF conjunct2 [OF media_clean_expired [OF sample_reach eq, of "\<lambda>_. True"]] age]
    by (rule spec [OF conjunct1])
  moreover have "map_option me_path (case map_of (ms_refs sample_store) ''media://3'' of
      None \<Rightarrow> None | Some e \<Rightarrow> if me_storedAt e < 100 - ms_maxAge sample_store then None else Some e) = Some ''/b''"
    by (simp add: sample_simps)
  ultimately have "resolve (snd (snd ?c)) ''media://3'' = Some ''/b''" by (simp only: resolve_def)
  with eq show ?thesis by blast
qed

text \<open>
  The files are removed after the lock is given up: when a file whose last reference was
  just released is registered again before the removal runs, the registration succeeds and the new
  reference resolves to the file, which the removal then deletes.
\<close>

theorem media_release_race:
  assumes "media_reach s" and "releaseAll scope s = (ps, s1)" and "f \<in> set ps" and "disk f"
    and "resolve s1 (''media://'' @ u) = None"
    and "store_media disk u now f meta scope' s1 = (r, s2)"
  shows "r = Some (''media://'' @ u) \<and> resolve s2 (''media://'' @ u) = Some f \<and> \<not> remove_files ps disk f"
proof -
  obtain rs where rs: "ms_scopeToRefs s scope = Some rs"
    using assms(2,3) by (cases "ms_scopeToRefs s scope") (auto simp: releaseAll_none)
  note inv = reach_inv [OF assms(1)]
  note ef = releaseAll_effect [OF inv rs assms(2)]
  have "refs_at s f \<noteq> []" using ef(3) assms(3) by blast
  then have "f \<noteq> []" using inv by (auto simp: refs_at_def media_inv_def count_inv_def filter_empty_conv)
  moreover have "map_of (ms_refs s1) (''media://'' @ u) = None" using assms(5) by (simp add: resolve_def)
  ultimately show ?thesis
    using store_effect(1,3) [of s1 disk f u, OF ef(1) assms(4) _ _ assms(6)] assms(3)
    by (simp add: remove_files_def)
qed

theorem media_release_race_witness:
  "let (ps, s1) = releaseAll ''s1'' sample_store;
       s2 = snd (store_media (\<lambda>_. True) ''9'' 95 ''/a'' (sample_meta CleanupPolicyUnset) ''s9'' s1)
   in resolve s2 ''media://9'' = Some ''/a'' \<and> \<not> remove_files ps (\<lambda>_. True) ''/a''"
proof -
  let ?s1 = "snd (releaseAll ''s1'' sample_store)"
  have rel: "releaseAll ''s1'' sample_store = ([''/a''], ?s1)" by (simp add: sample_simps)
  have fresh: "resolve ?s1 (''media://'' @ ''9'') = None" by (simp add: sample_simps)
  from media_release_race [OF sample_reach rel _ _ fresh prod.collapse [symmetric],
      of "''/a''" "\<lambda>_. True" 95 "sample_meta CleanupPolicyUnset" "''s9''"]
  show ?thesis by (subst (1) rel) simp
qed

end
