(* ===== verification/ToolValidate.thy ===== *)
theory ToolValidate
  imports GoValue "HOL-Library.Multiset"
begin

text \<open>
  \<^verbatim>\<open>pkg/tools/validate.go\<close>: the check of the arguments the model gives for a tool against the
  tool's declared schema. Both are Go values; an argument map is the list of its entries in the
  order the loop meets them. The result is nothing or the first error. Comparing two interface
  values that both hold a slice, or both a map, panics in Go: that is an outcome of its own.
\<close>

section \<open>Definitions\<close>

datatype arg_error =
    MissingRequired string
  | UnexpectedProperty string
  | ExpectedType string string goval
  | FractionalPart string
  | InProperty string arg_error
  | NotInEnum string goval
  | ComparePanic

text \<open>A panic is not an error value: it passes through the wrapping.\<close>

fun in_property :: "string \<Rightarrow> arg_error \<Rightarrow> arg_error" where
  "in_property key ComparePanic = ComparePanic"
| "in_property key err = InProperty key err"

text \<open>\<^verbatim>\<open>val == allowed\<close> on interface values: nothing when the comparison panics.\<close>

fun interface_eq :: "goval \<Rightarrow> goval \<Rightarrow> bool option" where
  "interface_eq (GStrings xs) (GStrings ys) = None"
| "interface_eq (GArray xs) (GArray ys) = None"
| "interface_eq (GObject xs) (GObject ys) = None"
| "interface_eq v w = Some (v = w)"

fun strings_of :: "goval list \<Rightarrow> string list" where
  "strings_of [] = []"
| "strings_of (GString s # vs) = s # strings_of vs"
| "strings_of (v # vs) = strings_of vs"

definition required_fields :: "object \<Rightarrow> string list" where
  "required_fields schema =
     (case map_of schema ''required'' of
        Some (GStrings r) \<Rightarrow> r
      | Some (GArray vs) \<Rightarrow> strings_of vs
      | _ \<Rightarrow> [])"

fun first_missing :: "string list \<Rightarrow> object \<Rightarrow> arg_error option" where
  "first_missing [] args = None"
| "first_missing (name # names) args =
     (if map_of args name = None then Some (MissingRequired name) else first_missing names args)"

definition checkRequired :: "object \<Rightarrow> object \<Rightarrow> arg_error option" where
  "checkRequired schema args = first_missing (required_fields schema) args"

definition allowsAdditional :: "object \<Rightarrow> bool" where
  "allowsAdditional schema = (map_of schema ''additionalProperties'' = Some (GBool True))"

fun enum_loop :: "string \<Rightarrow> goval \<Rightarrow> goval list \<Rightarrow> arg_error option" where
  "enum_loop key val [] = Some (NotInEnum key val)"
| "enum_loop key val (allowed # ev) =
     (case interface_eq val allowed of
        None \<Rightarrow> Some ComparePanic
      | Some True \<Rightarrow> None
      | Some False \<Rightarrow> enum_loop key val ev)"

definition checkEnum :: "string \<Rightarrow> goval \<Rightarrow> object \<Rightarrow> arg_error option" where
  "checkEnum key val propSchema =
     (case map_of propSchema ''enum'' of
        Some (GArray ev) \<Rightarrow> enum_loop key val ev
      | Some (GStrings ev) \<Rightarrow>
          (case val of
             GString s \<Rightarrow> if s \<in> set ev then None else Some (NotInEnum key val)
           | _ \<Rightarrow> Some (NotInEnum key val))
      | _ \<Rightarrow> None)"

text \<open>\<^verbatim>\<open>math.Trunc\<close>.\<close>

definition trunc :: "rat \<Rightarrow> int" where
  "trunc v = (if v < 0 then \<lceil>v\<rceil> else \<lfloor>v\<rfloor>)"

definition elem_key :: "string \<Rightarrow> nat \<Rightarrow> string" where
  "elem_key key i = key @ ''['' @ decimal i @ '']''"

text \<open>The checks of a value without parts.\<close>

definition check_scalar :: "string \<Rightarrow> goval \<Rightarrow> string \<Rightarrow> arg_error option" where
  "check_scalar key val typeName =
     (if typeName = ''string'' then
        (case val of GString _ \<Rightarrow> None | _ \<Rightarrow> Some (ExpectedType key ''string'' val))
      else if typeName = ''integer'' then
        (case val of
           GFloat v \<Rightarrow> if v \<noteq> of_int (trunc v) then Some (FractionalPart key) else None
         | GInt _ \<Rightarrow> None
         | GInt64 _ \<Rightarrow> None
         | _ \<Rightarrow> Some (ExpectedType key ''integer'' val))
      else if typeName = ''number'' then
        (case val of GFloat _ \<Rightarrow> None | GInt _ \<Rightarrow> None | GInt64 _ \<Rightarrow> None
         | _ \<Rightarrow> Some (ExpectedType key ''number'' val))
      else if typeName = ''boolean'' then
        (case val of GBool _ \<Rightarrow> None | _ \<Rightarrow> Some (ExpectedType key ''boolean'' val))
      else None)"

text \<open>The checked type assertions \<^verbatim>\<open>m[k].(map[string]any)\<close> and \<^verbatim>\<open>m[k].(string)\<close>.\<close>

definition object_at :: "object \<Rightarrow> string \<Rightarrow> object option" where
  "object_at m k = (case map_of m k of Some (GObject x) \<Rightarrow> Some x | _ \<Rightarrow> None)"

definition string_at :: "object \<Rightarrow> string \<Rightarrow> string option" where
  "string_at m k = (case map_of m k of Some (GString x) \<Rightarrow> Some x | _ \<Rightarrow> None)"

text \<open>
  Validation is recursive in the value: an object is checked against its schema entry by entry, an
  array element by element. Every call is on a part of the value.
\<close>

definition object_size :: "object \<Rightarrow> nat" where
  "object_size = size_list (size_prod (\<lambda>_. 0) size)"

lemma object_size_simps [simp]:
  "object_size [] = 0" "object_size ((k, v) # args) = Suc (Suc (size v + object_size args))"
  by (simp_all add: object_size_def)

function validateToolArgs :: "object \<Rightarrow> object \<Rightarrow> arg_error option"
  and check_args :: "object \<Rightarrow> bool \<Rightarrow> object \<Rightarrow> arg_error option"
  and checkType :: "string \<Rightarrow> goval \<Rightarrow> object \<Rightarrow> arg_error option"
  and check_elems :: "string \<Rightarrow> nat \<Rightarrow> goval list \<Rightarrow> object \<Rightarrow> arg_error option" where
  "validateToolArgs schema args =
     (if schema = [] then None
      else
        (case checkRequired schema args of
           Some err \<Rightarrow> Some err
         | None \<Rightarrow>
             (case object_at schema ''properties'' of
                Some props \<Rightarrow> check_args props (allowsAdditional schema) args
              | None \<Rightarrow> None)))"
| "check_args props additional [] = None"
| "check_args props additional ((key, val) # args) =
     (if map_of props key = None then
        if \<not> additional then Some (UnexpectedProperty key) else check_args props additional args
      else
        (case object_at props key of
           None \<Rightarrow> check_args props additional args
         | Some propSchema \<Rightarrow>
             (case checkType key val propSchema of
                Some err \<Rightarrow> Some err
              | None \<Rightarrow> check_args props additional args)))"
| "checkType key val propSchema =
     (case string_at propSchema ''type'' of
        Some typeName \<Rightarrow>
          (case (if typeName = ''array'' then
                   (case val of
                      GArray arr \<Rightarrow>
                        (case object_at propSchema ''items'' of
                           Some itemSchema \<Rightarrow> check_elems key 0 arr itemSchema
                         | None \<Rightarrow> None)
                    | _ \<Rightarrow> Some (ExpectedType key ''array'' val))
                 else if typeName = ''object'' then
                   (case val of
                      GObject obj \<Rightarrow> map_option (in_property key) (validateToolArgs propSchema obj)
                    | _ \<Rightarrow> Some (ExpectedType key ''object'' val))
                 else check_scalar key val typeName) of
             Some err \<Rightarrow> Some err
           | None \<Rightarrow> checkEnum key val propSchema)
      | None \<Rightarrow> None)"
| "check_elems key i [] itemSchema = None"
| "check_elems key i (elem # arr) itemSchema =
     (case checkType (elem_key key i) elem itemSchema of
        Some err \<Rightarrow> Some err
      | None \<Rightarrow> check_elems key (Suc i) arr itemSchema)"
  by pat_completeness auto

termination
proof (relation "measure (\<lambda>x. case x of
      Inl (Inl (schema, args)) \<Rightarrow> Suc (2 * object_size args)
    | Inl (Inr (props, additional, args)) \<Rightarrow> 2 * object_size args
    | Inr (Inl (key, val, propSchema)) \<Rightarrow> Suc (2 * size val)
    | Inr (Inr (key, i, arr, itemSchema)) \<Rightarrow> 2 * size_list size arr)")
qed (simp_all add: object_size_def)

section \<open>What a schema accepts\<close>

text \<open>The declarative reading: no order of the entries, no first error.\<close>

definition comparable :: "goval \<Rightarrow> bool" where
  "comparable v \<longleftrightarrow> (case v of GStrings _ \<Rightarrow> False | GArray _ \<Rightarrow> False | GObject _ \<Rightarrow> False | _ \<Rightarrow> True)"

definition in_enum :: "goval \<Rightarrow> object \<Rightarrow> bool" where
  "in_enum v s \<longleftrightarrow>
     (\<forall>ev. map_of s ''enum'' = Some (GArray ev) \<longrightarrow> comparable v \<and> v \<in> set ev)
     \<and> (\<forall>ev. map_of s ''enum'' = Some (GStrings ev) \<longrightarrow> v \<in> GString ` set ev)"

definition scalar_ok :: "string \<Rightarrow> goval \<Rightarrow> bool" where
  "scalar_ok t v \<longleftrightarrow>
     (t = ''string'' \<longrightarrow> (\<exists>x. v = GString x))
     \<and> (t = ''integer'' \<longrightarrow> (\<exists>n. v = GInt n \<or> v = GInt64 n \<or> v = GFloat (of_int n)))
     \<and> (t = ''number'' \<longrightarrow> (\<exists>n. v = GInt n \<or> v = GInt64 n) \<or> (\<exists>q. v = GFloat q))
     \<and> (t = ''boolean'' \<longrightarrow> (\<exists>b. v = GBool b))"

definition has_required :: "object \<Rightarrow> object \<Rightarrow> bool" where
  "has_required schema args \<longleftrightarrow> set (required_fields schema) \<subseteq> fst ` set args"

inductive conforms :: "object \<Rightarrow> object \<Rightarrow> bool"
  and has_type :: "goval \<Rightarrow> object \<Rightarrow> bool" where
  no_schema: "conforms [] args"
| no_properties: "has_required schema args \<Longrightarrow>
    (\<And>props. map_of schema ''properties'' \<noteq> Some (GObject props)) \<Longrightarrow> conforms schema args"
| properties: "has_required schema args \<Longrightarrow> map_of schema ''properties'' = Some (GObject props) \<Longrightarrow>
    (\<And>k v ps. (k, v) \<in> set args \<Longrightarrow> map_of props k = Some (GObject ps) \<Longrightarrow> has_type v ps) \<Longrightarrow>
    (\<And>k v. (k, v) \<in> set args \<Longrightarrow> map_of props k = None \<Longrightarrow> allowsAdditional schema) \<Longrightarrow>
    conforms schema args"
| untyped: "(\<And>t. map_of s ''type'' \<noteq> Some (GString t)) \<Longrightarrow> has_type v s"
| scalar: "map_of s ''type'' = Some (GString t) \<Longrightarrow> t \<notin> {''array'', ''object''} \<Longrightarrow>
    scalar_ok t v \<Longrightarrow> in_enum v s \<Longrightarrow> has_type v s"
| array: "map_of s ''type'' = Some (GString ''array'') \<Longrightarrow>
    (\<And>items v. map_of s ''items'' = Some (GObject items) \<Longrightarrow> v \<in> set arr \<Longrightarrow> has_type v items) \<Longrightarrow>
    in_enum (GArray arr) s \<Longrightarrow> has_type (GArray arr) s"
| object: "map_of s ''type'' = Some (GString ''object'') \<Longrightarrow> conforms s obj \<Longrightarrow>
    in_enum (GObject obj) s \<Longrightarrow> has_type (GObject obj) s"

section \<open>Lemmas\<close>

lemma object_at_Some: "object_at m k = Some x \<longleftrightarrow> map_of m k = Some (GObject x)"
  by (auto simp: object_at_def split: option.splits goval.splits)

lemma string_at_Some: "string_at m k = Some x \<longleftrightarrow> map_of m k = Some (GString x)"
  by (auto simp: string_at_def split: option.splits goval.splits)

lemma trunc_exact: "v = of_int (trunc v) \<longleftrightarrow> (\<exists>n. v = of_int n)"
  by (auto simp: trunc_def)

lemma check_scalar_ok:
  "t \<notin> {''array'', ''object''} \<Longrightarrow> check_scalar key v t = None \<longleftrightarrow> scalar_ok t v"
  using trunc_exact by (cases v) (auto simp: check_scalar_def scalar_ok_def)

lemma enum_loop_ok: "enum_loop key v ev = None \<longleftrightarrow> comparable v \<and> v \<in> set ev"
proof (induction ev)
  case (Cons w ev)
  then show ?case by (cases v; cases w) (auto simp: comparable_def split: option.splits bool.splits)
qed simp

lemma checkEnum_ok: "checkEnum key v s = None \<longleftrightarrow> in_enum v s"
  unfolding checkEnum_def in_enum_def
  by (auto simp: enum_loop_ok split: option.splits goval.splits)

lemma first_missing_None: "first_missing names args = None \<longleftrightarrow> set names \<subseteq> fst ` set args"
  by (induction names) (auto simp: map_of_eq_None_iff)

lemma first_missing_Some:
  "first_missing names args = Some e \<Longrightarrow> \<exists>name. e = MissingRequired name \<and> name \<in> set names \<and> name \<notin> fst ` set args"
  by (induction names) (auto simp: map_of_eq_None_iff split: if_splits)

lemma checkRequired_None: "checkRequired schema args = None \<longleftrightarrow> has_required schema args"
  by (simp add: checkRequired_def has_required_def first_missing_None)

lemma in_property_not [simp]: "in_property k e \<noteq> MissingRequired n" "in_property k e \<noteq> UnexpectedProperty n"
  by (cases e; simp)+

definition args_ok :: "object \<Rightarrow> bool \<Rightarrow> object \<Rightarrow> bool" where
  "args_ok props additional args \<longleftrightarrow>
     (\<forall>(k, v) \<in> set args. (\<forall>ps. object_at props k = Some ps \<longrightarrow> has_type v ps)
        \<and> (map_of props k = None \<longrightarrow> additional))"

lemma args_ok_simps [simp]:
  "args_ok props additional []"
  "args_ok props additional ((k, v) # args) \<longleftrightarrow>
     (\<forall>ps. object_at props k = Some ps \<longrightarrow> has_type v ps)
     \<and> (map_of props k = None \<longrightarrow> additional) \<and> args_ok props additional args"
  by (simp_all add: args_ok_def)

lemma conforms_iff:
  "conforms schema args \<longleftrightarrow> schema = [] \<or> (has_required schema args \<and>
     (\<forall>props. object_at schema ''properties'' = Some props \<longrightarrow>
        args_ok props (allowsAdditional schema) args))"
  unfolding args_ok_def object_at_Some by (subst conforms.simps) fastforce

lemma has_type_iff:
  "has_type v s \<longleftrightarrow> (\<forall>t. string_at s ''type'' = Some t \<longrightarrow> in_enum v s
     \<and> (if t = ''array'' then \<exists>arr. v = GArray arr \<and>
          (\<forall>items. object_at s ''items'' = Some items \<longrightarrow> (\<forall>w\<in>set arr. has_type w items))
        else if t = ''object'' then \<exists>obj. v = GObject obj \<and> conforms s obj
        else scalar_ok t v))"
  unfolding object_at_Some string_at_Some by (subst has_type.simps) auto

declare validateToolArgs.simps [simp del] and checkType.simps [simp del]

lemma validate_iff:
  "validateToolArgs schema args = None \<longleftrightarrow> conforms schema args"
  "check_args props additional args = None \<longleftrightarrow> args_ok props additional args"
  "checkType key val propSchema = None \<longleftrightarrow> has_type val propSchema"
  "check_elems key i arr itemSchema = None \<longleftrightarrow> (\<forall>v\<in>set arr. has_type v itemSchema)"
proof (induction schema args and props additional args and key val propSchema and key i arr itemSchema
    rule: validateToolArgs_check_args_checkType_check_elems.induct)
  case (1 schema args)
  then show ?case
    by (subst conforms_iff, subst validateToolArgs.simps)
      (auto simp: checkRequired_None [symmetric] split: option.splits)
next
  case (3 props additional key val args)
  have "map_of props key = None \<Longrightarrow> object_at props key = None" by (simp add: object_at_def)
  with 3 show ?case by (auto split: option.splits)
next
  case (4 key val propSchema)
  show ?case
  proof (cases "string_at propSchema ''type''")
    case None
    then show ?thesis by (subst has_type_iff, subst checkType.simps) simp
  next
    case t: (Some t)
    consider (arr) "t = ''array''" | (obj) "t = ''object''" | (other) "t \<notin> {''array'', ''object''}" by blast
    then show ?thesis
    proof cases
      case arr
      show ?thesis
      proof (cases val)
        case (GArray xs)
        show ?thesis
        proof (cases "object_at propSchema ''items''")
          case None
          then show ?thesis
            by (subst has_type_iff, subst checkType.simps) (simp add: t arr GArray checkEnum_ok)
        next
          case (Some items)
          with 4(1) [OF t arr GArray Some] show ?thesis
            by (subst has_type_iff, subst checkType.simps)
              (auto simp: t arr GArray checkEnum_ok split: option.splits)
        qed
      qed (subst has_type_iff, subst checkType.simps, simp add: t arr)+
    next
      case obj
      with 4(2) [OF t _ obj] t show ?thesis
        by (subst has_type_iff, subst checkType.simps) (cases val; auto simp: checkEnum_ok split: option.splits)
    next
      case other
      then show ?thesis using check_scalar_ok [OF other, of key val]
        by (subst has_type_iff, subst checkType.simps) (auto simp: t checkEnum_ok split: option.splits)
    qed
  qed
next
  case (6 key i elem arr itemSchema)
  then show ?case by (auto split: option.splits)
qed simp_all

lemma conforms_perm:
  assumes "mset args = mset args'"
  shows "conforms schema args = conforms schema args'"
proof -
  have "set args = set args'" using assms by (metis set_mset_mset)
  then show ?thesis by (simp only: conforms_iff has_required_def args_ok_def)
qed

text \<open>Errors about a single value never look like errors about the entries of the argument map.\<close>

fun entry_error :: "arg_error \<Rightarrow> bool" where
  "entry_error (UnexpectedProperty k) = True"
| "entry_error (MissingRequired k) = True"
| "entry_error e = False"

definition value_error :: "arg_error option \<Rightarrow> bool" where
  "value_error r \<longleftrightarrow> (\<forall>e. r = Some e \<longrightarrow> \<not> entry_error e)"

lemma value_error_simps [simp]:
  "value_error None" "value_error (Some e) \<longleftrightarrow> \<not> entry_error e"
  by (auto simp: value_error_def)

lemma value_error_case [intro]:
  "value_error r \<Longrightarrow> (r = None \<Longrightarrow> value_error r') \<Longrightarrow> value_error (case r of None \<Rightarrow> r' | Some e \<Rightarrow> Some e)"
  by (cases r) auto

lemma value_error_wrapped [intro]:
  "value_error r' \<Longrightarrow> value_error (case r of None \<Rightarrow> r' | Some e \<Rightarrow> (Some \<circ> in_property k) e)"
proof -
  have "\<not> entry_error (in_property k e)" for e by (cases e) simp_all
  then show "value_error r' \<Longrightarrow> ?thesis" by (cases r) auto
qed

lemma value_error_parts [intro]:
  "value_error (map_option (in_property k) r)" "value_error (check_scalar k v t)" "value_error (checkEnum k v s)"
proof -
  have "value_error (enum_loop k v ev)" for ev
    by (induction ev) (auto split: option.splits bool.splits)
  then show "value_error (checkEnum k v s)"
    by (auto simp: checkEnum_def split: option.splits goval.splits)
  have "\<not> entry_error (in_property k e)" for e by (cases e) simp_all
  then show "value_error (map_option (in_property k) r)" by (cases r) auto
  show "value_error (check_scalar k v t)" by (cases v) (simp_all add: check_scalar_def)
qed

lemma value_errors: "value_error (checkType key val s)" "value_error (check_elems key i arr items)"
proof -
  have "True" "True" "value_error (checkType key val s)" "value_error (check_elems key i arr items)"
    for schema args props :: object and additional :: bool
  proof (induction schema args and props additional args and key val s and key i arr items
      rule: validateToolArgs_check_args_checkType_check_elems.induct)
    case (4 key val s)
    have arr: "value_error (check_elems key 0 arr items)"
      if "string_at s ''type'' = Some ''array''" "val = GArray arr" "object_at s ''items'' = Some items" for arr items
      using 4(1) [OF that(1) refl that(2,3)] .
    show ?case
      by (subst checkType.simps)
        (cases "string_at s ''type''"; cases "object_at s ''items''"; cases val; auto intro: arr)
  qed auto
  then show "value_error (checkType key val s)" "value_error (check_elems key i arr items)" by blast+
qed

lemma check_args_error:
  "check_args props additional args = Some e \<Longrightarrow> entry_error e \<Longrightarrow>
     \<exists>k. e = UnexpectedProperty k \<and> k \<in> fst ` set args \<and> map_of props k = None \<and> \<not> additional"
proof (induction args)
  case (Cons kv args)
  obtain k v where kv: "kv = (k, v)" by fastforce
  have "checkType k v ps \<noteq> Some e" for ps using value_errors(1) [of k v ps] Cons.prems(2) by auto
  then show ?case using Cons kv by (auto split: if_splits option.splits)
qed simp

section \<open>Properties\<close>

text \<open>
  Claim C37. Validation accepts exactly the arguments that conform to the schema, a relation defined
  without any order: an entry's value has the declared type, recursively through arrays and objects,
  is in the enumeration, the required entries are there and an undeclared entry needs
  \<^verbatim>\<open>additionalProperties: true\<close>. So the verdict does not depend on the iteration order of the
  map, and an error about an entry names a required one that is missing or an undeclared one.
\<close>

theorem tool_args_typed:
  "(validateToolArgs schema args = None \<longleftrightarrow> conforms schema args)
   \<and> (mset args = mset args' \<longrightarrow>
        (validateToolArgs schema args = None) = (validateToolArgs schema args' = None))
   \<and> (validateToolArgs schema args = Some (MissingRequired k) \<longrightarrow>
        k \<in> set (required_fields schema) \<and> k \<notin> fst ` set args)
   \<and> (validateToolArgs schema args = Some (UnexpectedProperty k) \<longrightarrow>
        k \<in> fst ` set args \<and> \<not> allowsAdditional schema
        \<and> (\<forall>props. map_of schema ''properties'' = Some (GObject props) \<longrightarrow> map_of props k = None))"
proof -
  have cases: "schema \<noteq> [] \<and> (checkRequired schema args = Some e
      \<or> (\<exists>props. object_at schema ''properties'' = Some props
           \<and> check_args props (allowsAdditional schema) args = Some e))"
    if "validateToolArgs schema args = Some e" for e
    using that by (subst (asm) validateToolArgs.simps) (auto split: if_splits option.splits)
  have req: "\<exists>k. e = MissingRequired k \<and> k \<in> set (required_fields schema) \<and> k \<notin> fst ` set args"
    if "checkRequired schema args = Some e" for e
    using first_missing_Some that by (auto simp: checkRequired_def)
  have "validateToolArgs schema args = Some (MissingRequired k) \<Longrightarrow>
        k \<in> set (required_fields schema) \<and> k \<notin> fst ` set args"
    using cases [of "MissingRequired k"] req [of "MissingRequired k"]
      check_args_error [of _ "allowsAdditional schema" args "MissingRequired k"] by auto
  moreover have "validateToolArgs schema args = Some (UnexpectedProperty k) \<Longrightarrow>
        k \<in> fst ` set args \<and> \<not> allowsAdditional schema
        \<and> (\<forall>props. map_of schema ''properties'' = Some (GObject props) \<longrightarrow> map_of props k = None)"
    using cases [of "UnexpectedProperty k"] req [of "UnexpectedProperty k"]
      check_args_error [of _ "allowsAdditional schema" args "UnexpectedProperty k"]
    by (auto simp: object_at_Some)
  ultimately show ?thesis using validate_iff(1) conforms_perm by blast
qed

definition demo_schema :: object where
  "demo_schema =
     [(''type'', GString ''object''), (''required'', GArray [GString ''path'']),
      (''properties'', GObject
         [(''path'', GObject [(''type'', GString ''string'')]),
          (''lines'', GObject [(''type'', GString ''array''),
             (''items'', GObject [(''type'', GString ''integer'')])])])]"

theorem tool_args_typed_witness:
  "conforms demo_schema [(''path'', GString ''a''), (''lines'', GArray [GFloat 3, GFloat 4])]
   \<and> \<not> conforms demo_schema [(''lines'', GArray [GFloat (1/2)])]
   \<and> \<not> conforms demo_schema [(''path'', GString ''a''), (''mode'', GBool True)]"
proof -
  have c: "trunc 3 = 3" "trunc 4 = 4" by (simp_all add: trunc_def)
  have "validateToolArgs demo_schema [(''path'', GString ''a''), (''lines'', GArray [GFloat 3, GFloat 4])] = None"
    "validateToolArgs demo_schema [(''lines'', GArray [GFloat (1/2)])] \<noteq> None"
    "validateToolArgs demo_schema [(''path'', GString ''a''), (''mode'', GBool True)] \<noteq> None"
    by (simp_all add: demo_schema_def validateToolArgs.simps checkType.simps checkRequired_def required_fields_def
        object_at_def string_at_def allowsAdditional_def check_scalar_def checkEnum_def c)
  then show ?thesis
    unfolding tool_args_typed [THEN conjunct1, symmetric] by blast
qed

end
