(* ===== verification/ToolRegistry.thy ===== *)
theory ToolRegistry
  imports ToolValidate "HOL-Library.AList" "HOL-Library.List_Lexorder" "HOL-Library.Char_ord"
begin

text \<open>
  \<^verbatim>\<open>pkg/tools/registry.go\<close>, \<^verbatim>\<open>result.go\<close> and \<^verbatim>\<open>base.go\<close>: the registry of the tools an agent
  may call. Hidden tools are callable only while their time to live lasts. The map of the registry
  is an association list whose order is the iteration order of the map. What a tool does when it is
  executed, the rendering of a value by \<^verbatim>\<open>%v\<close> and the treatment of inline media
  (\<^verbatim>\<open>normalization.go\<close>) are arguments of the model. The registered store of media files is a
  handle; the registry hands it to the tools that want one, which is the second result of the
  operations that do so.
\<close>

section \<open>Results\<close>

record tool_result =
  tr_ForLLM :: string
  tr_ForUser :: string
  tr_Silent :: bool
  tr_IsError :: bool
  tr_Async :: bool
  tr_Err :: "string option"
  tr_Media :: "string list"
  tr_Messages :: "message list"
  tr_ArtifactTags :: "string list"
  tr_ResponseHandled :: bool

definition newToolResult :: "string \<Rightarrow> tool_result" where
  "newToolResult forLLM =
     \<lparr>tr_ForLLM = forLLM, tr_ForUser = [], tr_Silent = False, tr_IsError = False, tr_Async = False,
      tr_Err = None, tr_Media = [], tr_Messages = [], tr_ArtifactTags = [], tr_ResponseHandled = False\<rparr>"

definition silentResult :: "string \<Rightarrow> tool_result" where
  "silentResult forLLM = (newToolResult forLLM)\<lparr>tr_Silent := True\<rparr>"

definition asyncResult :: "string \<Rightarrow> tool_result" where
  "asyncResult forLLM = (newToolResult forLLM)\<lparr>tr_Async := True\<rparr>"

definition errorResult :: "string \<Rightarrow> tool_result" where
  "errorResult msg = (newToolResult msg)\<lparr>tr_IsError := True\<rparr>"

definition userResult :: "string \<Rightarrow> tool_result" where
  "userResult content = (newToolResult content)\<lparr>tr_ForUser := content\<rparr>"

definition mediaResult :: "string \<Rightarrow> string list \<Rightarrow> tool_result" where
  "mediaResult forLLM mediaRefs = (newToolResult forLLM)\<lparr>tr_Media := mediaRefs\<rparr>"

definition withError :: "string \<Rightarrow> tool_result \<Rightarrow> tool_result" where
  "withError err tr = tr\<lparr>tr_Err := Some err\<rparr>"

definition withResponseHandled :: "tool_result \<Rightarrow> tool_result" where
  "withResponseHandled tr = tr\<lparr>tr_ResponseHandled := True\<rparr>"

definition handledToolLLMNote :: string where
  "handledToolLLMNote = ''The requested output has already been delivered to the user in the current chat. Do not call send_file or any other delivery tool again. If you reply, provide only a brief confirmation.''"

definition artifactPathsLLMNote :: string where
  "artifactPathsLLMNote = ''Use `send_file` with one of these paths to send it to the user, or use file/exec tools to save it inside the workspace if requested.''"

fun str_join :: "string \<Rightarrow> string list \<Rightarrow> string" where
  "str_join sep [] = []"
| "str_join sep [x] = x"
| "str_join sep (x # xs) = x @ sep @ str_join sep xs"

definition newline :: string where "newline = [CHR 0x0A]"

definition contentForLLM :: "tool_result \<Rightarrow> string" where
  "contentForLLM tr =
     (let content0 = (if tr_ForLLM tr = [] then (case tr_Err tr of None \<Rightarrow> [] | Some e \<Rightarrow> e) else tr_ForLLM tr);
          content1 =
            (if \<not> tr_ResponseHandled tr then content0
             else if content0 = [] then handledToolLLMNote
             else if str_contains content0 handledToolLLMNote then content0
             else content0 @ newline @ handledToolLLMNote);
          handledEarly = tr_ResponseHandled tr \<and> content0 = []
      in if handledEarly then content1
         else if tr_ArtifactTags tr = [] then content1
         else
           let artifactNote = ''Local artifact paths: '' @ str_join '' '' (tr_ArtifactTags tr) @ newline @ artifactPathsLLMNote
           in if content1 = [] then artifactNote
              else if str_contains content1 artifactNote then content1
              else content1 @ newline @ artifactNote)"

section \<open>Error texts\<close>

text \<open>\<^verbatim>\<open>%q\<close>, for ASCII text (other bytes pass through).\<close>

definition hex_digit :: "nat \<Rightarrow> char" where
  "hex_digit n = (if n < 10 then char_of (48 + n) else char_of (87 + n))"

definition quote_char :: "char \<Rightarrow> string" where
  "quote_char c =
     (if c = CHR 0x22 then [CHR 0x5C, CHR 0x22]
      else if c = CHR 0x5C then [CHR 0x5C, CHR 0x5C]
      else if c = CHR 0x07 then [CHR 0x5C, CHR ''a'']
      else if c = CHR 0x08 then [CHR 0x5C, CHR ''b'']
      else if c = CHR 0x0C then [CHR 0x5C, CHR ''f'']
      else if c = CHR 0x0A then [CHR 0x5C, CHR ''n'']
      else if c = CHR 0x0D then [CHR 0x5C, CHR ''r'']
      else if c = CHR 0x09 then [CHR 0x5C, CHR ''t'']
      else if c = CHR 0x0B then [CHR 0x5C, CHR ''v'']
      else if (of_char c :: nat) < 32 \<or> c = CHR 0x7F
      then [CHR 0x5C, CHR ''x'', hex_digit (of_char c div 16), hex_digit (of_char c mod 16)]
      else [c])"

definition go_quote :: "string \<Rightarrow> string" where
  "go_quote s = CHR 0x22 # concat (map quote_char s) @ [CHR 0x22]"

definition go_type_name :: "goval \<Rightarrow> string" where
  "go_type_name v =
     (case v of
        GNil \<Rightarrow> ''<nil>'' | GBool _ \<Rightarrow> ''bool'' | GInt _ \<Rightarrow> ''int'' | GInt64 _ \<Rightarrow> ''int64''
      | GFloat _ \<Rightarrow> ''float64'' | GString _ \<Rightarrow> ''string'' | GStrings _ \<Rightarrow> ''[]string''
      | GArray _ \<Rightarrow> ''[]interface {}'' | GObject _ \<Rightarrow> ''map[string]interface {}'')"

fun arg_error_text :: "(goval \<Rightarrow> string) \<Rightarrow> arg_error \<Rightarrow> string" where
  "arg_error_text fmtV (MissingRequired name) = ''missing required property '' @ go_quote name"
| "arg_error_text fmtV (UnexpectedProperty key) = ''unexpected property '' @ go_quote key"
| "arg_error_text fmtV (ExpectedType key t val) =
     ''property '' @ go_quote key @ '': expected '' @ t @ '', got '' @ go_type_name val"
| "arg_error_text fmtV (FractionalPart key) =
     ''property '' @ go_quote key @ '': expected integer, got float64 with fractional part''"
| "arg_error_text fmtV (InProperty key err) = ''property '' @ go_quote key @ '': '' @ arg_error_text fmtV err"
| "arg_error_text fmtV (NotInEnum key val) =
     ''property '' @ go_quote key @ '': value '' @ fmtV val @ '' is not in enum''"
| "arg_error_text fmtV ComparePanic = ''runtime error: comparing uncomparable type''"

section \<open>The registry\<close>

record tool =
  tl_Name :: string
  tl_Description :: string
  tl_Parameters :: object
  tl_asyncExecutor :: bool
  tl_mediaStoreAware :: bool

record tool_entry =
  te_Tool :: tool
  te_IsCore :: bool
  te_TTL :: int

record tool_registry =
  reg_tools :: "(string \<times> tool_entry) list"
  reg_version :: nat
  reg_mediaStore :: "nat option"

definition newToolRegistry :: tool_registry where
  "newToolRegistry = \<lparr>reg_tools = [], reg_version = 0, reg_mediaStore = None\<rparr>"

definition hand_over :: "tool_registry \<Rightarrow> tool \<Rightarrow> (tool \<times> nat) list" where
  "hand_over r t =
     (case reg_mediaStore r of
        None \<Rightarrow> [] | Some store \<Rightarrow> if tl_mediaStoreAware t then [(t, store)] else [])"

definition register_entry :: "bool \<Rightarrow> tool \<Rightarrow> tool_registry \<Rightarrow> tool_registry" where
  "register_entry core t r =
     r\<lparr>reg_tools := AList.update (tl_Name t) \<lparr>te_Tool = t, te_IsCore = core, te_TTL = 0\<rparr> (reg_tools r),
       reg_version := Suc (reg_version r)\<rparr>"

definition register :: "tool \<Rightarrow> tool_registry \<Rightarrow> tool_registry \<times> (tool \<times> nat) list" where
  "register t r = (register_entry True t r, hand_over r t)"

definition registerHidden :: "tool \<Rightarrow> tool_registry \<Rightarrow> tool_registry \<times> (tool \<times> nat) list" where
  "registerHidden t r = (register_entry False t r, hand_over r t)"

definition setMediaStore :: "nat \<Rightarrow> tool_registry \<Rightarrow> tool_registry \<times> (tool \<times> nat) list" where
  "setMediaStore store r =
     (r\<lparr>reg_mediaStore := Some store\<rparr>,
      map (\<lambda>(name, e). (te_Tool e, store)) (filter (\<lambda>(name, e). tl_mediaStoreAware (te_Tool e)) (reg_tools r)))"

definition set_ttl :: "int \<Rightarrow> string \<Rightarrow> (string \<times> tool_entry) list \<Rightarrow> (string \<times> tool_entry) list" where
  "set_ttl ttl name tools =
     (case map_of tools name of
        None \<Rightarrow> tools
      | Some e \<Rightarrow> if te_IsCore e then tools else AList.update name (e\<lparr>te_TTL := ttl\<rparr>) tools)"

definition promoteTools :: "string list \<Rightarrow> int \<Rightarrow> tool_registry \<Rightarrow> tool_registry" where
  "promoteTools names ttl r = r\<lparr>reg_tools := fold (set_ttl ttl) names (reg_tools r)\<rparr>"

definition tick_entry :: "tool_entry \<Rightarrow> tool_entry" where
  "tick_entry e = (if \<not> te_IsCore e \<and> te_TTL e > 0 then e\<lparr>te_TTL := te_TTL e - 1\<rparr> else e)"

definition tickTTL :: "tool_registry \<Rightarrow> tool_registry" where
  "tickTTL r = r\<lparr>reg_tools := map (\<lambda>(name, e). (name, tick_entry e)) (reg_tools r)\<rparr>"

definition version :: "tool_registry \<Rightarrow> nat" where
  "version r = reg_version r"

record hidden_tool_doc =
  htd_Name :: string
  htd_Description :: string

definition snapshotHiddenTools :: "tool_registry \<Rightarrow> hidden_tool_doc list \<times> nat" where
  "snapshotHiddenTools r =
     (map (\<lambda>(name, e). \<lparr>htd_Name = name, htd_Description = tl_Description (te_Tool e)\<rparr>)
          (filter (\<lambda>(name, e). \<not> te_IsCore e) (reg_tools r)), reg_version r)"

definition visible :: "tool_entry \<Rightarrow> bool" where
  "visible e \<longleftrightarrow> te_IsCore e \<or> te_TTL e > 0"

definition get_tool :: "tool_registry \<Rightarrow> string \<Rightarrow> tool option" where
  "get_tool r name =
     (case map_of (reg_tools r) name of
        None \<Rightarrow> None
      | Some e \<Rightarrow> if \<not> te_IsCore e \<and> te_TTL e \<le> 0 then None else Some (te_Tool e))"

definition sortedToolNames :: "tool_registry \<Rightarrow> string list" where
  "sortedToolNames r = sort (map fst (reg_tools r))"

text \<open>The loop the listing operations share: the visible entries in the order of their names.\<close>

definition visible_entries :: "tool_registry \<Rightarrow> tool_entry list" where
  "visible_entries r =
     filter visible (List.map_filter (map_of (reg_tools r)) (sortedToolNames r))"

definition toolToSchema :: "tool \<Rightarrow> object" where
  "toolToSchema t =
     [(''type'', GString ''function''),
      (''function'', GObject
         [(''name'', GString (tl_Name t)), (''description'', GString (tl_Description t)),
          (''parameters'', GObject (tl_Parameters t))])]"

definition getDefinitions :: "tool_registry \<Rightarrow> object list" where
  "getDefinitions r = map (toolToSchema \<circ> te_Tool) (visible_entries r)"

text \<open>\<^verbatim>\<open>ToProviderDefs\<close> reads the values back out of the schema.\<close>

definition provider_def :: "tool \<Rightarrow> tool_definition option" where
  "provider_def t =
     (case object_at (toolToSchema t) ''function'' of
        None \<Rightarrow> None
      | Some fn \<Rightarrow>
          Some \<lparr>td_Type = ''function'',
                td_Function = \<lparr>tfd_Name = (case string_at fn ''name'' of None \<Rightarrow> [] | Some n \<Rightarrow> n),
                               tfd_Description = (case string_at fn ''description'' of None \<Rightarrow> [] | Some d \<Rightarrow> d),
                               tfd_Parameters = object_at fn ''parameters''\<rparr>\<rparr>)"

definition toProviderDefs :: "tool_registry \<Rightarrow> tool_definition list" where
  "toProviderDefs r = List.map_filter (provider_def \<circ> te_Tool) (visible_entries r)"

definition list_tools :: "tool_registry \<Rightarrow> string list" where
  "list_tools r = sortedToolNames r"

definition clone :: "tool_registry \<Rightarrow> tool_registry" where
  "clone r = \<lparr>reg_tools = reg_tools r, reg_version = 0, reg_mediaStore = reg_mediaStore r\<rparr>"

definition count_tools :: "tool_registry \<Rightarrow> nat" where
  "count_tools r = length (reg_tools r)"

definition getSummaries :: "tool_registry \<Rightarrow> string list" where
  "getSummaries r =
     map (\<lambda>e. ''- `'' @ tl_Name (te_Tool e) @ ''` - '' @ tl_Description (te_Tool e)) (visible_entries r)"

definition getAll :: "tool_registry \<Rightarrow> tool list" where
  "getAll r = map te_Tool (visible_entries r)"

section \<open>Executing a tool\<close>

text \<open>What the code of a tool does: it returns a result, a null pointer, or panics.\<close>

datatype tool_outcome = Returns "tool_result option" | Panics string

definition crash_result :: "string \<Rightarrow> string \<Rightarrow> tool_result" where
  "crash_result name re =
     (let errMsg = ''Tool '' @ [CHR 0x27] @ name @ [CHR 0x27] @ '' crashed with panic: '' @ re
      in (newToolResult errMsg)\<lparr>tr_ForUser := errMsg, tr_IsError := True, tr_Err := Some (''panic: '' @ re)\<rparr>)"

definition nil_result :: "string \<Rightarrow> tool_result" where
  "nil_result name =
     (let m = ''Tool '' @ [CHR 0x27] @ name @ [CHR 0x27] @ '' returned nil result unexpectedly''
      in (newToolResult m)\<lparr>tr_ForUser := m, tr_IsError := True, tr_Err := Some ''nil result from tool''\<rparr>)"

text \<open>
  \<^verbatim>\<open>ExecuteWithContext\<close>. The tool runs under \<^verbatim>\<open>recover\<close>, the validation of its arguments does
  not: nothing is returned when that panics.
\<close>

definition executeWithContext ::
  "(goval \<Rightarrow> string) \<Rightarrow> (tool_result \<Rightarrow> string \<Rightarrow> nat option \<Rightarrow> string \<Rightarrow> string \<Rightarrow> tool_result)
     \<Rightarrow> (tool \<Rightarrow> bool \<Rightarrow> object \<Rightarrow> tool_outcome)
     \<Rightarrow> tool_registry \<Rightarrow> string \<Rightarrow> object \<Rightarrow> string \<Rightarrow> string \<Rightarrow> bool \<Rightarrow> tool_result option" where
  "executeWithContext fmtV normalise run r name args channel chatID hasCallback =
     (case get_tool r name of
        None \<Rightarrow> Some (withError ''tool not found'' (errorResult (''tool '' @ go_quote name @ '' not found'')))
      | Some t \<Rightarrow>
          (case validateToolArgs (tl_Parameters t) args of
             Some ComparePanic \<Rightarrow> None
           | Some err \<Rightarrow>
               Some (withError (''argument validation failed: '' @ arg_error_text fmtV err)
                 (errorResult (''invalid arguments for tool '' @ go_quote name @ '': '' @ arg_error_text fmtV err)))
           | None \<Rightarrow>
               let result =
                     (case run t (tl_asyncExecutor t \<and> hasCallback) args of
                        Returns (Some res) \<Rightarrow> res
                      | Returns None \<Rightarrow> nil_result name
                      | Panics re \<Rightarrow> crash_result name re)
               in Some (normalise result name (reg_mediaStore r) channel chatID)))"

definition execute_tool ::
  "(goval \<Rightarrow> string) \<Rightarrow> (tool_result \<Rightarrow> string \<Rightarrow> nat option \<Rightarrow> string \<Rightarrow> string \<Rightarrow> tool_result)
     \<Rightarrow> (tool \<Rightarrow> bool \<Rightarrow> object \<Rightarrow> tool_outcome)
     \<Rightarrow> tool_registry \<Rightarrow> string \<Rightarrow> object \<Rightarrow> tool_result option" where
  "execute_tool fmtV normalise run r name args = executeWithContext fmtV normalise run r name args [] [] False"

section \<open>Reachable registries\<close>

inductive registry_reach :: "tool_registry \<Rightarrow> bool" where
  new: "registry_reach newToolRegistry"
| registered: "registry_reach r \<Longrightarrow> registry_reach (fst (register t r))"
| hidden: "registry_reach r \<Longrightarrow> registry_reach (fst (registerHidden t r))"
| media: "registry_reach r \<Longrightarrow> registry_reach (fst (setMediaStore store r))"
| promoted: "registry_reach r \<Longrightarrow> registry_reach (promoteTools names ttl r)"
| ticked: "registry_reach r \<Longrightarrow> registry_reach (tickTTL r)"
| cloned: "registry_reach r \<Longrightarrow> registry_reach (clone r)"

definition registry_inv :: "tool_registry \<Rightarrow> bool" where
  "registry_inv r \<longleftrightarrow> distinct (map fst (reg_tools r))
     \<and> (\<forall>(name, e) \<in> set (reg_tools r). tl_Name (te_Tool e) = name)"

lemma set_ttl_map_of:
  "map_of (set_ttl ttl name tools) x =
     map_option (\<lambda>e. if x = name \<and> \<not> te_IsCore e then e\<lparr>te_TTL := ttl\<rparr> else e) (map_of tools x)"
  by (cases "map_of tools x"; cases "map_of tools name") (auto simp: set_ttl_def update_conv')

lemma set_ttl_keys: "map fst (set_ttl ttl name tools) = map fst tools"
proof (cases "map_of tools name")
  case (Some e)
  then have "name \<in> set (map fst tools)" by (metis map_of_eq_None_iff option.distinct(1) set_map)
  with Some show ?thesis by (simp add: set_ttl_def update_keys)
qed (simp add: set_ttl_def)

lemma promote_keys: "map fst (fold (set_ttl ttl) names tools) = map fst tools"
  by (induction names arbitrary: tools) (simp_all add: set_ttl_keys)

lemma promote_map_of:
  "map_of (fold (set_ttl ttl) names tools) x =
     map_option (\<lambda>e. if x \<in> set names \<and> \<not> te_IsCore e then e\<lparr>te_TTL := ttl\<rparr> else e) (map_of tools x)"
proof (induction names arbitrary: tools)
  case (Cons n names)
  then show ?case by (cases "map_of tools x") (auto simp: set_ttl_map_of)
qed (simp add: option.map_ident)

lemma registry_inv_iff:
  "registry_inv r \<longleftrightarrow> distinct (map fst (reg_tools r))
     \<and> (\<forall>name e. map_of (reg_tools r) name = Some e \<longrightarrow> tl_Name (te_Tool e) = name)"
  unfolding registry_inv_def by (auto simp: map_of_eq_Some_iff)

lemma tick_map_of: "map_of (reg_tools (tickTTL r)) x = map_option tick_entry (map_of (reg_tools r) x)"
  by (simp add: tickTTL_def map_of_map)

lemma registry_inv_register: "registry_inv r \<Longrightarrow> registry_inv (register_entry core t r)"
  unfolding registry_inv_iff register_entry_def
  by (auto simp: update_conv' distinct_update split: if_splits)

lemma registry_inv_reach: "registry_reach r \<Longrightarrow> registry_inv r"
proof (induction rule: registry_reach.induct)
  case (promoted r names ttl)
  then show ?case unfolding registry_inv_iff promoteTools_def
    by (auto simp: promote_keys promote_map_of split: if_splits)
next
  case (ticked r)
  then show ?case unfolding registry_inv_iff tick_map_of
    by (auto simp: tickTTL_def tick_entry_def comp_def case_prod_unfold split: if_splits)
next
  case (media r store)
  then show ?case by (simp add: setMediaStore_def registry_inv_def)
next
  case (cloned r)
  then show ?case by (simp add: clone_def registry_inv_def)
next
  case new
  show ?case by (simp add: newToolRegistry_def registry_inv_def)
qed (simp_all add: register_def registerHidden_def registry_inv_register)

section \<open>The listing\<close>

lemma map_filter_map_of:
  "set names \<subseteq> dom m \<Longrightarrow> List.map_filter m names = map (the \<circ> m) names"
  by (induction names) (auto simp: map_filter_simps)

lemma visible_entries_eq:
  "visible_entries r = filter visible (map (the \<circ> map_of (reg_tools r)) (sortedToolNames r))"
proof -
  have "set (sortedToolNames r) \<subseteq> dom (map_of (reg_tools r))"
    by (simp add: sortedToolNames_def dom_map_of_conv_image_fst)
  then show ?thesis by (simp add: visible_entries_def map_filter_map_of)
qed

lemma visible_entries_set:
  assumes "registry_inv r"
  shows "e \<in> set (visible_entries r) \<longleftrightarrow> visible e \<and> map_of (reg_tools r) (tl_Name (te_Tool e)) = Some e"
proof -
  have inv: "map_of (reg_tools r) name = Some e \<Longrightarrow> tl_Name (te_Tool e) = name" for name e
    using assms unfolding registry_inv_iff by blast
  have dom: "set (sortedToolNames r) = dom (map_of (reg_tools r))"
    by (simp add: sortedToolNames_def dom_map_of_conv_image_fst)
  have "e \<in> set (visible_entries r) \<longleftrightarrow> visible e \<and> (\<exists>name. map_of (reg_tools r) name = Some e)"
    unfolding visible_entries_eq set_filter set_map dom by (auto simp: dom_def image_iff)
  with inv show ?thesis by auto
qed

lemma visible_names:
  assumes "registry_inv r"
  shows "map (tl_Name \<circ> te_Tool) (visible_entries r)
      = filter (\<lambda>n. visible (the (map_of (reg_tools r) n))) (sortedToolNames r)"
proof -
  have "map (tl_Name \<circ> te_Tool) (filter visible (map (the \<circ> m) ns)) = filter (\<lambda>n. visible (the (m n))) ns"
    if "\<forall>n\<in>set ns. tl_Name (te_Tool (the (m n))) = n" for m ns
    using that by (induction ns) auto
  moreover have "\<forall>n\<in>set (sortedToolNames r). tl_Name (te_Tool (the (map_of (reg_tools r) n))) = n"
  proof
    fix n assume "n \<in> set (sortedToolNames r)"
    then obtain e where "map_of (reg_tools r) n = Some e"
      by (auto simp: sortedToolNames_def) (metis map_of_eq_None_iff not_None_eq fst_conv image_eqI)
    then show "tl_Name (te_Tool (the (map_of (reg_tools r) n))) = n"
      using assms unfolding registry_inv_iff by simp
  qed
  ultimately show ?thesis by (simp add: visible_entries_eq)
qed

lemma tick_entry_iter:
  "(tick_entry ^^ k) e = (if te_IsCore e then e else e\<lparr>te_TTL := (if te_TTL e \<le> 0 then te_TTL e else max 0 (te_TTL e - int k))\<rparr>)"
  by (induction k) (auto simp: tick_entry_def)

lemma tick_iter_map_of:
  "map_of (reg_tools ((tickTTL ^^ k) r)) x = map_option (tick_entry ^^ k) (map_of (reg_tools r) x)"
  by (induction k) (auto simp: tick_map_of option.map_comp comp_def option.map_ident)

lemma get_tool_visible:
  "get_tool r name = Some t \<longleftrightarrow> (\<exists>e. map_of (reg_tools r) name = Some e \<and> visible e \<and> te_Tool e = t)"
  by (auto simp: get_tool_def visible_def split: option.splits if_splits)

section \<open>Properties\<close>

text \<open>
  In every reachable registry the tools that are offered to the model are exactly those
  that can be called, listed once each in the order of their names, and the two formats of the
  listing agree. The order does not depend on the iteration order of the map. A hidden tool that was
  promoted for a number of ticks stays callable for exactly that many; promotion and ticks never
  hide a core tool, and no other hidden tool is changed by a promotion.
\<close>

theorem tool_visibility:
  assumes "registry_reach r"
  shows "(get_tool r name = Some t \<longleftrightarrow> t \<in> set (getAll r) \<and> tl_Name t = name)
    \<and> sorted (map tl_Name (getAll r)) \<and> distinct (map tl_Name (getAll r))
    \<and> getDefinitions r = map toolToSchema (getAll r)
    \<and> toProviderDefs r = map (\<lambda>t. \<lparr>td_Type = ''function'',
          td_Function = \<lparr>tfd_Name = tl_Name t, tfd_Description = tl_Description t,
            tfd_Parameters = Some (tl_Parameters t)\<rparr>\<rparr>) (getAll r)
    \<and> (mset (reg_tools r') = mset (reg_tools r) \<longrightarrow> getAll r' = getAll r)
    \<and> (get_tool ((tickTTL ^^ k) (promoteTools names ttl r)) name = Some t \<longleftrightarrow>
         (\<exists>e. map_of (reg_tools r) name = Some e \<and> te_Tool e = t \<and>
            (te_IsCore e \<or> (if name \<in> set names then int k < ttl else int k < te_TTL e))))"
proof -
  have inv: "registry_inv r" by (rule registry_inv_reach [OF assms])
  have d: "distinct (map fst (reg_tools r))" using inv by (simp add: registry_inv_iff)
  have own: "tl_Name (te_Tool e) = n" if "map_of (reg_tools r) n = Some e" for n e
    using inv that unfolding registry_inv_iff by blast
  have "t \<in> set (getAll r) \<longleftrightarrow>
      (\<exists>e. visible e \<and> map_of (reg_tools r) (tl_Name (te_Tool e)) = Some e \<and> te_Tool e = t)"
    unfolding getAll_def set_map image_iff Bex_def visible_entries_set [OF inv] by blast
  note listed = this
  have "get_tool r name = Some t \<longleftrightarrow> t \<in> set (getAll r) \<and> tl_Name t = name"
    unfolding get_tool_visible listed
  proof
    assume "\<exists>e. map_of (reg_tools r) name = Some e \<and> visible e \<and> te_Tool e = t"
    then obtain e where e: "map_of (reg_tools r) name = Some e" "visible e" "te_Tool e = t" by blast
    from own [OF e(1)] e show "(\<exists>e. visible e \<and> map_of (reg_tools r) (tl_Name (te_Tool e)) = Some e \<and> te_Tool e = t)
        \<and> tl_Name t = name" by auto
  qed auto
  moreover have names: "map tl_Name (getAll r) = filter (\<lambda>n. visible (the (map_of (reg_tools r) n))) (sortedToolNames r)"
    using visible_names [OF inv] by (simp add: getAll_def)
  have "sorted (map tl_Name (getAll r))" "distinct (map tl_Name (getAll r))"
    unfolding names using d by (simp_all add: sortedToolNames_def sorted_wrt_filter)
  moreover have "getDefinitions r = map toolToSchema (getAll r)"
    by (simp add: getDefinitions_def getAll_def)
  moreover have "toProviderDefs r = map (\<lambda>t. \<lparr>td_Type = ''function'',
          td_Function = \<lparr>tfd_Name = tl_Name t, tfd_Description = tl_Description t,
            tfd_Parameters = Some (tl_Parameters t)\<rparr>\<rparr>) (getAll r)"
    by (simp add: toProviderDefs_def getAll_def provider_def_def toolToSchema_def object_at_def string_at_def
        List.map_filter_def comp_def)
  moreover have "getAll r' = getAll r" if "mset (reg_tools r') = mset (reg_tools r)"
  proof -
    have keys: "mset (map fst (reg_tools r')) = mset (map fst (reg_tools r))" using that by simp
    then have d': "distinct (map fst (reg_tools r'))" using d by (metis mset_eq_imp_distinct_iff)
    have "sort (map fst (reg_tools r')) = sort (map fst (reg_tools r))"
      by (rule properties_for_sort) (simp_all add: keys del: mset_map)
    then have "sortedToolNames r' = sortedToolNames r" by (simp add: sortedToolNames_def)
    moreover have "map_of (reg_tools r') = map_of (reg_tools r)"
      unfolding map_of_inject_set [OF d' d] using that by (metis set_mset_mset)
    ultimately show ?thesis by (simp add: getAll_def visible_entries_def)
  qed
  moreover have "get_tool ((tickTTL ^^ k) (promoteTools names ttl r)) name = Some t \<longleftrightarrow>
         (\<exists>e. map_of (reg_tools r) name = Some e \<and> te_Tool e = t \<and>
            (te_IsCore e \<or> (if name \<in> set names then int k < ttl else int k < te_TTL e)))"
    by (cases "map_of (reg_tools r) name")
      (auto simp: get_tool_visible tick_iter_map_of promoteTools_def promote_map_of tick_entry_iter visible_def)
  ultimately show ?thesis by blast
qed

definition demo_tool :: "string \<Rightarrow> object \<Rightarrow> tool" where
  "demo_tool name params = \<lparr>tl_Name = name, tl_Description = ''d'', tl_Parameters = params,
     tl_asyncExecutor = False, tl_mediaStoreAware = False\<rparr>"

definition demo_registry :: tool_registry where
  "demo_registry = fst (registerHidden (demo_tool ''web'' []) (fst (register (demo_tool ''read'' demo_schema) newToolRegistry)))"

lemma demo_registry_facts:
  "registry_reach demo_registry"
  "map_of (reg_tools demo_registry) ''read'' = Some \<lparr>te_Tool = demo_tool ''read'' demo_schema, te_IsCore = True, te_TTL = 0\<rparr>"
  "map_of (reg_tools demo_registry) ''web'' = Some \<lparr>te_Tool = demo_tool ''web'' [], te_IsCore = False, te_TTL = 0\<rparr>"
  unfolding demo_registry_def
    apply (intro registry_reach.hidden registry_reach.registered registry_reach.new)
  by (simp_all add: register_def registerHidden_def register_entry_def newToolRegistry_def demo_tool_def)

theorem tool_visibility_witness:
  "get_tool ((tickTTL ^^ 2) (promoteTools [''web''] 3 demo_registry)) ''web'' = Some (demo_tool ''web'' [])
   \<and> get_tool ((tickTTL ^^ 3) (promoteTools [''web''] 3 demo_registry)) ''web'' \<noteq> Some (demo_tool ''web'' [])"
  unfolding tool_visibility [OF demo_registry_facts(1), THEN conjunct2, THEN conjunct2, THEN conjunct2,
      THEN conjunct2, THEN conjunct2, THEN conjunct2]
  by (simp add: demo_registry_facts)

text \<open>
  A call by name: of a tool that is not callable, or with arguments that do not conform
  to its schema, it gives an error and the tool does not run, whatever it would do. Otherwise the
  tool runs once, asynchronously if it can and a callback is there, and a missing result or a panic
  becomes an error result that names the tool. The one way a call returns nothing is a panic of the
  validation, which compares an argument that is an array or object with an enumeration.
\<close>

theorem tool_execute_contract:
  "(get_tool r name = None \<longrightarrow>
      (\<exists>res. executeWithContext fmtV normalise run r name args ch chat cb = Some res \<and> tr_IsError res
         \<and> executeWithContext fmtV normalise run' r name args ch chat cb = Some res))
   \<and> (get_tool r name = Some t \<and> \<not> conforms (tl_Parameters t) args \<longrightarrow>
        executeWithContext fmtV normalise run r name args ch chat cb
          = executeWithContext fmtV normalise run' r name args ch chat cb
        \<and> (validateToolArgs (tl_Parameters t) args \<noteq> Some ComparePanic \<longrightarrow>
            (\<exists>res. executeWithContext fmtV normalise run r name args ch chat cb = Some res \<and> tr_IsError res)))
   \<and> (get_tool r name = Some t \<and> conforms (tl_Parameters t) args \<longrightarrow>
        (\<exists>res. executeWithContext fmtV normalise run r name args ch chat cb
                 = Some (normalise res name (reg_mediaStore r) ch chat)
           \<and> (case run t (tl_asyncExecutor t \<and> cb) args of
                Returns (Some x) \<Rightarrow> res = x
              | Returns None \<Rightarrow> tr_IsError res \<and> str_contains (tr_ForLLM res) name
              | Panics re \<Rightarrow> tr_IsError res \<and> str_contains (tr_ForLLM res) name)))
   \<and> (executeWithContext fmtV normalise run r name args ch chat cb = None \<longleftrightarrow>
        (\<exists>t. get_tool r name = Some t \<and> validateToolArgs (tl_Parameters t) args = Some ComparePanic))"
proof -
  have mid: "str_contains (a @ [c] @ name @ b) name" for a c b
  proof (induction a)
    case Nil
    have "str_contains (name @ b) name" by (cases "name @ b") (auto, metis prefixI)
    then show ?case by simp
  qed simp
  have err: "\<exists>res. executeWithContext fmtV normalise run r name args ch chat cb = Some res \<and> tr_IsError res"
    if "get_tool r name = Some t" "validateToolArgs (tl_Parameters t) args = Some e" "e \<noteq> ComparePanic" for run e
    using that by (cases e) (simp_all add: executeWithContext_def withError_def errorResult_def)
  show ?thesis
    unfolding validate_iff(1) [symmetric]
  proof (intro conjI impI)
    show "\<exists>res. executeWithContext fmtV normalise run r name args ch chat cb = Some res \<and> tr_IsError res
         \<and> executeWithContext fmtV normalise run' r name args ch chat cb = Some res" if "get_tool r name = None"
      using that by (simp add: executeWithContext_def withError_def errorResult_def)
    show "executeWithContext fmtV normalise run r name args ch chat cb
          = executeWithContext fmtV normalise run' r name args ch chat cb"
      if "get_tool r name = Some t \<and> validateToolArgs (tl_Parameters t) args \<noteq> None"
      using that by (auto simp: executeWithContext_def split: arg_error.splits)
    show "\<exists>res. executeWithContext fmtV normalise run r name args ch chat cb = Some res \<and> tr_IsError res"
      if "get_tool r name = Some t \<and> validateToolArgs (tl_Parameters t) args \<noteq> None"
        "validateToolArgs (tl_Parameters t) args \<noteq> Some ComparePanic"
      using that err by blast
    show "\<exists>res. executeWithContext fmtV normalise run r name args ch chat cb
                 = Some (normalise res name (reg_mediaStore r) ch chat)
           \<and> (case run t (tl_asyncExecutor t \<and> cb) args of
                Returns (Some x) \<Rightarrow> res = x
              | Returns None \<Rightarrow> tr_IsError res \<and> str_contains (tr_ForLLM res) name
              | Panics re \<Rightarrow> tr_IsError res \<and> str_contains (tr_ForLLM res) name)"
      if "get_tool r name = Some t \<and> validateToolArgs (tl_Parameters t) args = None"
    proof (intro exI conjI)
      let ?res = "case run t (tl_asyncExecutor t \<and> cb) args of
          Returns (Some res) \<Rightarrow> res | Returns None \<Rightarrow> nil_result name | Panics re \<Rightarrow> crash_result name re"
      show "executeWithContext fmtV normalise run r name args ch chat cb
          = Some (normalise ?res name (reg_mediaStore r) ch chat)"
        using that by (simp add: executeWithContext_def Let_def)
      have "str_contains (tr_ForLLM (nil_result name)) name" "str_contains (tr_ForLLM (crash_result name re)) name" for re
        unfolding nil_result_def crash_result_def Let_def newToolResult_def by (simp_all del: append.simps add: mid)
      then show "case run t (tl_asyncExecutor t \<and> cb) args of
                Returns (Some x) \<Rightarrow> ?res = x
              | Returns None \<Rightarrow> tr_IsError ?res \<and> str_contains (tr_ForLLM ?res) name
              | Panics re \<Rightarrow> tr_IsError ?res \<and> str_contains (tr_ForLLM ?res) name"
        by (simp add: nil_result_def crash_result_def Let_def split: tool_outcome.splits option.splits)
    qed
    show "executeWithContext fmtV normalise run r name args ch chat cb = None \<longleftrightarrow>
        (\<exists>t. get_tool r name = Some t \<and> validateToolArgs (tl_Parameters t) args = Some ComparePanic)"
      by (auto simp: executeWithContext_def Let_def split: option.splits arg_error.splits)
  qed
qed

text \<open>A call the contract makes an error, and one that panics.\<close>

definition picky_registry :: tool_registry where
  "picky_registry = fst (register (demo_tool ''pick''
     [(''type'', GString ''object''),
      (''properties'', GObject [(''of'', GObject [(''type'', GString ''array''), (''enum'', GArray [GArray []])])])])
     newToolRegistry)"

theorem tool_execute_contract_witness:
  "(\<exists>res. executeWithContext (\<lambda>_. []) (\<lambda>res _ _ _ _. res) (\<lambda>_ _ _. Panics ''x'') demo_registry ''read'' [] [] [] False = Some res
      \<and> tr_IsError res)
   \<and> executeWithContext (\<lambda>_. []) (\<lambda>res _ _ _ _. res) (\<lambda>_ _ _. Panics ''x'') picky_registry ''pick''
       [(''of'', GArray [])] [] [] False = None"
proof -
  let ?run = "\<lambda>(_::tool) (_::bool) (_::object). Panics ''x''"
  let ?norm = "\<lambda>res (_::string) (_::nat option) (_::string) (_::string). res :: tool_result"
  have g: "get_tool demo_registry ''read'' = Some (demo_tool ''read'' demo_schema)"
    by (simp add: get_tool_def demo_registry_facts)
  have v: "validateToolArgs (tl_Parameters (demo_tool ''read'' demo_schema)) [] = Some (MissingRequired ''path'')"
    by (simp add: demo_tool_def demo_schema_def validateToolArgs.simps checkRequired_def required_fields_def)
  then have nc: "\<not> conforms (tl_Parameters (demo_tool ''read'' demo_schema)) []"
    unfolding validate_iff(1) [symmetric] by simp
  have "get_tool picky_registry ''pick'' \<noteq> None \<and>
      validateToolArgs (tl_Parameters (the (get_tool picky_registry ''pick''))) [(''of'', GArray [])] = Some ComparePanic"
    by (simp add: picky_registry_def register_def register_entry_def newToolRegistry_def demo_tool_def get_tool_def
        validateToolArgs.simps checkType.simps checkRequired_def required_fields_def object_at_def string_at_def checkEnum_def)
  then have "\<exists>t. get_tool picky_registry ''pick'' = Some t
      \<and> validateToolArgs (tl_Parameters t) [(''of'', GArray [])] = Some ComparePanic" by auto
  then have "executeWithContext (\<lambda>_. []) ?norm ?run picky_registry ''pick'' [(''of'', GArray [])] [] [] False = None"
    using tool_execute_contract [where fmtV = "\<lambda>_. []" and normalise = ?norm and run = ?run and r = picky_registry
        and name = "''pick''" and args = "[(''of'', GArray [])]" and ch = "[]" and chat = "[]" and cb = False] by simp
  moreover have "\<exists>res. executeWithContext (\<lambda>_. []) ?norm ?run demo_registry ''read'' [] [] [] False = Some res \<and> tr_IsError res"
    using tool_execute_contract [where fmtV = "\<lambda>_. []" and normalise = ?norm and run = ?run and r = demo_registry
        and name = "''read''" and args = "[]" and ch = "[]" and chat = "[]" and cb = False
        and t = "demo_tool ''read'' demo_schema"] g v nc by simp
  ultimately show ?thesis by blast
qed

end
