(* ===== verification/SearchCache.thy ===== *)
theory SearchCache
  imports Ebi_Prelude "HOL-Library.Word" "HOL-Library.AList" Complex_Main
begin

unbundle bit_operations_syntax

text \<open>
  \<^verbatim>\<open>pkg/skills/search_cache.go\<close>: the cache of search results, with a least-recently-used order
  and a match by the similarity of the trigrams of two queries. Trigrams are \<^verbatim>\<open>uint32\<close> words,
  similarities exact fractions (the quotients of two numbers below \<open>2^50\<close> compare with the constant
  0.7 as their \<^verbatim>\<open>float64\<close> images do). The map of entries is an association list in the iteration
  order of the map; every operation reads the clock as one instant; results are values of any type.
\<close>

section \<open>Trigrams\<close>

definition byte :: "char \<Rightarrow> 32 word" where
  "byte c = word_of_nat (of_char c)"

definition pack :: "char \<Rightarrow> char \<Rightarrow> char \<Rightarrow> 32 word" where
  "pack a b c = push_bit 16 (byte a) OR push_bit 8 (byte b) OR byte c"

fun windows :: "string \<Rightarrow> 32 word list" where
  "windows (a # b # c # s) = pack a b c # windows (b # c # s)"
| "windows s = []"

text \<open>The deduplication in place: the elements from \<open>n\<close> up to \<open>i\<close> are garbage.\<close>

function dedup_loop :: "nat \<Rightarrow> nat \<Rightarrow> 'a list \<Rightarrow> 'a list" where
  "dedup_loop i n ts =
     (if i < length ts then
        if ts ! i \<noteq> ts ! (i - 1) then dedup_loop (Suc i) (Suc n) (ts[n := ts ! i])
        else dedup_loop (Suc i) n ts
      else take n ts)"
  by pat_completeness auto
termination by (relation "measure (\<lambda>(i, n, ts). length ts - i)") auto

declare dedup_loop.simps [simp del]

definition buildTrigrams :: "string \<Rightarrow> 32 word list" where
  "buildTrigrams s = (if length s < 3 then [] else dedup_loop 1 1 (sort (windows s)))"

text \<open>The merge of two sorted lists that counts the common elements.\<close>

fun merge_count :: "'a::linorder list \<Rightarrow> 'a list \<Rightarrow> nat" where
  "merge_count (a # as) (b # bs) =
     (if a = b then Suc (merge_count as bs)
      else if a < b then merge_count as (b # bs) else merge_count (a # as) bs)"
| "merge_count as bs = 0"

definition jaccardSimilarity :: "32 word list \<Rightarrow> 32 word list \<Rightarrow> rat" where
  "jaccardSimilarity a b =
     (if a = [] \<and> b = [] then 1
      else let intersection = merge_count a b;
               union = length a + length b - intersection
           in of_nat intersection / of_nat union)"

definition similarityThreshold :: rat where "similarityThreshold = 7 / 10"

section \<open>The cache\<close>

record 'r cache_entry =
  ce_query :: string
  ce_trigrams :: "32 word list"
  ce_results :: "'r list"
  ce_createdAt :: time

record 'r search_cache =
  sc_entries :: "(string \<times> 'r cache_entry) list"
  sc_order :: "string list"
  sc_maxEntries :: int
  sc_ttl :: duration

definition newSearchCache :: "int \<Rightarrow> duration \<Rightarrow> 'r search_cache" where
  "newSearchCache maxEntries ttl =
     \<lparr>sc_entries = [], sc_order = [], sc_maxEntries = (if maxEntries \<le> 0 then 50 else maxEntries),
      sc_ttl = (if ttl \<le> 0 then 5 * minute else ttl)\<rparr>"

definition normalizeQuery :: "string \<Rightarrow> string" where
  "normalizeQuery q = to_lower (trim_space q)"

text \<open>\<^verbatim>\<open>moveToEndLocked\<close>: the first occurrence of the key is taken out, the key appended.\<close>

definition moveToEndLocked :: "string \<Rightarrow> 'r search_cache \<Rightarrow> 'r search_cache" where
  "moveToEndLocked key sc = sc\<lparr>sc_order := remove1 key (sc_order sc) @ [key]\<rparr>"

definition fresh :: "time \<Rightarrow> 'r search_cache \<Rightarrow> 'r cache_entry \<Rightarrow> bool" where
  "fresh now sc e \<longleftrightarrow> time_sub now (ce_createdAt e) < sc_ttl sc"

fun best_match :: "time \<Rightarrow> 'r search_cache \<Rightarrow> 32 word list \<Rightarrow> (string \<times> 'r cache_entry) list
    \<Rightarrow> rat \<times> 'r cache_entry option \<Rightarrow> rat \<times> 'r cache_entry option" where
  "best_match now sc queryTrigrams [] best = best"
| "best_match now sc queryTrigrams ((k, entry) # es) (bestSim, bestEntry) =
     (if \<not> fresh now sc entry then best_match now sc queryTrigrams es (bestSim, bestEntry)
      else let sim = jaccardSimilarity queryTrigrams (ce_trigrams entry)
           in best_match now sc queryTrigrams es
                (if sim > bestSim then (sim, Some entry) else (bestSim, bestEntry)))"

definition sc_get :: "time \<Rightarrow> string \<Rightarrow> 'r search_cache \<Rightarrow> 'r list option \<times> 'r search_cache" where
  "sc_get now query sc =
     (let normalized = normalizeQuery query
      in if normalized = [] then (None, sc)
         else
           (case (case map_of (sc_entries sc) normalized of
                    Some entry \<Rightarrow> if fresh now sc entry then Some entry else None | None \<Rightarrow> None) of
              Some entry \<Rightarrow> (Some (ce_results entry), moveToEndLocked normalized sc)
            | None \<Rightarrow>
                (case best_match now sc (buildTrigrams normalized) (sc_entries sc) (0, None) of
                   (bestSim, Some bestEntry) \<Rightarrow>
                     if bestSim \<ge> similarityThreshold
                     then (Some (ce_results bestEntry), moveToEndLocked (ce_query bestEntry) sc)
                     else (None, sc)
                 | (_, None) \<Rightarrow> (None, sc))))"

fun evict_expired :: "time \<Rightarrow> duration \<Rightarrow> string list \<Rightarrow> (string \<times> 'r cache_entry) list
    \<Rightarrow> string list \<times> (string \<times> 'r cache_entry) list" where
  "evict_expired now ttl [] entries = ([], entries)"
| "evict_expired now ttl (key # order) entries =
     (if (case map_of entries key of None \<Rightarrow> True | Some e \<Rightarrow> time_sub now (ce_createdAt e) \<ge> ttl)
      then evict_expired now ttl order (AList.delete key entries)
      else (case evict_expired now ttl order entries of (newOrder, es) \<Rightarrow> (key # newOrder, es)))"

definition evictExpiredLocked :: "time \<Rightarrow> 'r search_cache \<Rightarrow> 'r search_cache" where
  "evictExpiredLocked now sc =
     (case evict_expired now (sc_ttl sc) (sc_order sc) (sc_entries sc) of
        (order, entries) \<Rightarrow> sc\<lparr>sc_order := order, sc_entries := entries\<rparr>)"

fun evict_lru :: "int \<Rightarrow> string list \<Rightarrow> (string \<times> 'r cache_entry) list
    \<Rightarrow> string list \<times> (string \<times> 'r cache_entry) list" where
  "evict_lru maxEntries [] entries = ([], entries)"
| "evict_lru maxEntries (oldest # order) entries =
     (if int (length entries) \<ge> maxEntries then evict_lru maxEntries order (AList.delete oldest entries)
      else (oldest # order, entries))"

definition sc_put :: "time \<Rightarrow> string \<Rightarrow> 'r list \<Rightarrow> 'r search_cache \<Rightarrow> 'r search_cache" where
  "sc_put now query results sc =
     (let normalized = normalizeQuery query
      in if normalized = [] then sc
         else
           let sc1 = evictExpiredLocked now sc;
               entry = \<lparr>ce_query = normalized, ce_trigrams = buildTrigrams normalized,
                        ce_results = results, ce_createdAt = now\<rparr>
           in if map_of (sc_entries sc1) normalized \<noteq> None
              then moveToEndLocked normalized
                     (sc1\<lparr>sc_entries := AList.update normalized entry (sc_entries sc1)\<rparr>)
              else
                (case evict_lru (sc_maxEntries sc1) (sc_order sc1) (sc_entries sc1) of
                   (order, entries) \<Rightarrow>
                     sc1\<lparr>sc_entries := AList.update normalized entry entries,
                         sc_order := order @ [normalized]\<rparr>))"

definition sc_len :: "'r search_cache \<Rightarrow> nat" where
  "sc_len sc = length (sc_entries sc)"

section \<open>Trigrams as a set\<close>

lemma windows_short: "length s < 3 \<Longrightarrow> windows s = []"
  by (cases s rule: windows.cases) auto

text \<open>The in-place loop keeps the unread part of the list and has built the result so far.\<close>

lemma dedup_loop_correct:
  assumes "1 \<le> n" "n \<le> i" "i \<le> length xs" "length ts = length xs"
    and "take n ts = remdups_adj (take i xs)" and "\<And>j. i - 1 \<le> j \<Longrightarrow> j < length xs \<Longrightarrow> ts ! j = xs ! j"
  shows "dedup_loop i n ts = remdups_adj xs"
  using assms
proof (induction "length xs - i" arbitrary: i n ts)
  case 0
  then show ?case by (subst dedup_loop.simps) simp
next
  case (Suc m)
  then have i: "i < length xs" "i < length ts" by simp_all
  have reads: "ts ! i = xs ! i" "ts ! (i - Suc 0) = xs ! (i - Suc 0)" using Suc.prems i by simp_all
  have tk: "take (Suc i) xs = take i xs @ [xs ! i]" using i by (simp add: take_Suc_conv_app_nth)
  obtain k where k: "i = Suc k" using Suc.prems by (cases i) auto
  have pre: "take i xs = take k xs @ [xs ! k]" using i by (simp add: k take_Suc_conv_app_nth)
  have step: "remdups_adj (take (Suc i) xs) = remdups_adj (take i xs) @ (if xs ! k = xs ! i then [] else [xs ! i])"
    using remdups_adj_append_two [of "take k xs" "xs ! k" "xs ! i"] by (simp add: tk pre)
  show ?case
  proof (cases "xs ! i = xs ! (i - 1)")
    case True
    have "remdups_adj (take (Suc i) xs) = remdups_adj (take i xs)"
      using step True by (simp add: k)
    then have "dedup_loop (Suc i) n ts = remdups_adj xs"
      using Suc.prems Suc.hyps(2) i by (intro Suc.hyps(1)) auto
    with True i show ?thesis by (subst dedup_loop.simps) (simp add: reads)
  next
    case False
    have "remdups_adj (take (Suc i) xs) = remdups_adj (take i xs) @ [xs ! i]"
      using step False by (auto simp: k)
    then have "dedup_loop (Suc i) (Suc n) (ts[n := ts ! i]) = remdups_adj xs"
      using Suc.prems Suc.hyps(2) i
      by (intro Suc.hyps(1)) (auto simp: take_Suc_conv_app_nth nth_list_update reads)
    with False i show ?thesis by (subst dedup_loop.simps) (simp add: reads)
  qed
qed

lemma dedup_loop_all:
  assumes "xs \<noteq> []"
  shows "dedup_loop 1 1 xs = remdups_adj xs"
proof -
  from assms obtain y ys where "xs = y # ys" by (cases xs) auto
  then show ?thesis by (intro dedup_loop_correct) simp_all
qed

lemma sorted_remdups_adj_distinct: "sorted (xs :: 'a::linorder list) \<Longrightarrow> distinct (remdups_adj xs)"
  by (induction xs rule: remdups_adj.induct) (auto simp: less_le)

lemma buildTrigrams_props:
  "set (buildTrigrams s) = set (windows s)" "sorted (buildTrigrams s)" "distinct (buildTrigrams s)"
proof -
  let ?ws = "sort (windows s)"
  have eq: "buildTrigrams s = remdups_adj ?ws" if "3 \<le> length s"
  proof -
    from that obtain a b c r where "s = a # b # c # r" by (metis length_Cons list.exhaust list.size(3) not_less_eq_eq numeral_3_eq_3 zero_le)
    then have "windows s \<noteq> []" by simp
    then have "?ws \<noteq> []" by (metis set_empty set_sort)
    then have "dedup_loop 1 1 ?ws = remdups_adj ?ws" by (rule dedup_loop_all)
    then show ?thesis using that by (simp add: buildTrigrams_def)
  qed
  show "set (buildTrigrams s) = set (windows s)" "sorted (buildTrigrams s)" "distinct (buildTrigrams s)"
  proof -
    have "set (buildTrigrams s) = set (windows s) \<and> sorted (buildTrigrams s) \<and> distinct (buildTrigrams s)"
    proof (cases "3 \<le> length s")
      case True
      have "sorted (remdups_adj ?ws)" by (rule sorted_remdups_adj) (rule sorted_sort)
      moreover have "distinct (remdups_adj ?ws)" by (rule sorted_remdups_adj_distinct) (rule sorted_sort)
      ultimately show ?thesis unfolding eq [OF True] by simp
    next
      case False
      then show ?thesis by (simp add: buildTrigrams_def windows_short)
    qed
    then show "set (buildTrigrams s) = set (windows s)" "sorted (buildTrigrams s)" "distinct (buildTrigrams s)"
      by blast+
  qed
qed

lemma merge_count_card:
  fixes as bs :: "'a::linorder list"
  shows "sorted as \<Longrightarrow> sorted bs \<Longrightarrow> distinct as \<Longrightarrow> distinct bs \<Longrightarrow>
    merge_count as bs = card (set as \<inter> set bs)"
proof (induction as bs rule: merge_count.induct)
  case (1 a as b bs)
  show ?case
  proof (cases a b rule: linorder_cases)
    case equal
    then have "set (a # as) \<inter> set (b # bs) = insert a (set as \<inter> set bs)" by auto
    moreover have "a \<notin> set as \<inter> set bs" using 1 by auto
    ultimately show ?thesis using 1 equal by simp
  next
    case less
    then have "a \<notin> set (b # bs)" using 1 by auto
    then have "set (a # as) \<inter> set (b # bs) = set as \<inter> set (b # bs)" by auto
    then show ?thesis using 1 less by simp
  next
    case greater
    then have "b \<notin> set (a # as)" using 1 by auto
    then have "set (a # as) \<inter> set (b # bs) = set (a # as) \<inter> set bs" by auto
    then show ?thesis using 1 greater by simp
  qed
qed simp_all

lemma jaccard_card:
  "jaccardSimilarity (buildTrigrams s) (buildTrigrams t) =
     (if windows s = [] \<and> windows t = [] then 1
      else of_nat (card (set (windows s) \<inter> set (windows t))) / of_nat (card (set (windows s) \<union> set (windows t))))"
proof -
  let ?a = "buildTrigrams s" and ?b = "buildTrigrams t"
  have emp: "buildTrigrams u = [] \<longleftrightarrow> windows u = []" for u using buildTrigrams_props(1) [of u] by (metis set_empty)
  have len: "length (buildTrigrams u) = card (set (windows u))" for u
    using distinct_card [OF buildTrigrams_props(3), of u] by (simp add: buildTrigrams_props)
  have "merge_count ?a ?b = card (set (windows s) \<inter> set (windows t))"
    by (simp add: merge_count_card buildTrigrams_props)
  moreover have "length ?a + length ?b - card (set (windows s) \<inter> set (windows t))
      = card (set (windows s) \<union> set (windows t))"
    unfolding len using card_Un_Int [of "set (windows s)" "set (windows t)"] by simp
  ultimately show ?thesis by (simp add: jaccardSimilarity_def emp Let_def)
qed

text \<open>The packing loses nothing, so that equal words are equal windows.\<close>

lemma bit_byte: "bit (byte c) n \<longleftrightarrow> n < 8 \<and> bit (of_char c :: nat) n"
proof -
  have "(of_char c :: nat) < 2 ^ 8" by simp
  then have "bit (of_char c :: nat) n \<Longrightarrow> n < 8"
    by (metis bit_take_bit_iff take_bit_nat_eq_self)
  then show ?thesis by (auto simp: byte_def bit_simps)
qed

lemma byte_inject: "byte c = byte d \<longleftrightarrow> c = d"
proof
  assume "byte c = byte d"
  then have "unat (byte c) = unat (byte d)" by simp
  moreover have "(of_char x :: nat) mod 4294967296 = of_char x" for x
    by (rule mod_less) (rule less_trans [OF nat_of_char_less_256], simp)
  ultimately have "(of_char c :: nat) = of_char d"
    by (simp add: byte_def unat_of_nat)
  then show "c = d" by simp
qed simp

lemma pack_inject: "pack a b c = pack a' b' c' \<longleftrightarrow> a = a' \<and> b = b' \<and> c = c'"
proof
  assume eq: "pack a b c = pack a' b' c'"
  have "bit (byte a) n = bit (byte a') n" "bit (byte b) n = bit (byte b') n" "bit (byte c) n = bit (byte c') n"
    if "n < 8" for n
    using arg_cong [OF eq, of "\<lambda>w. bit w (n + 16)"] arg_cong [OF eq, of "\<lambda>w. bit w (n + 8)"]
      arg_cong [OF eq, of "\<lambda>w. bit w n"] that
    by (simp_all add: pack_def bit_or_iff bit_push_bit_iff bit_byte)
  then have "byte a = byte a'" "byte b = byte b'" "byte c = byte c'"
    by (auto intro!: bit_word_eqI simp: bit_byte)
  then show "a = a' \<and> b = b' \<and> c = c'" by (simp add: byte_inject)
qed simp

text \<open>The substrings of three bytes.\<close>

fun triples :: "string \<Rightarrow> (char \<times> char \<times> char) list" where
  "triples (a # b # c # s) = (a, b, c) # triples (b # c # s)"
| "triples s = []"

lemma windows_triples: "windows s = map (\<lambda>(a, b, c). pack a b c) (triples s)"
  by (induction s rule: triples.induct) auto

lemma pack_inj: "inj (\<lambda>(a, b, c). pack a b c)"
  by (auto intro!: injI simp: pack_inject)

lemma triples_card:
  "card (set (windows s) \<inter> set (windows t)) = card (set (triples s) \<inter> set (triples t))"
  "card (set (windows s) \<union> set (windows t)) = card (set (triples s) \<union> set (triples t))"
  unfolding windows_triples set_map image_Int [OF pack_inj, symmetric] image_Un [symmetric]
  by (simp_all add: card_image [OF inj_on_subset [OF pack_inj]])

lemma triples_Nil: "triples s = [] \<longleftrightarrow> length s < 3"
  by (cases s rule: triples.cases) auto

section \<open>The invariant of the cache\<close>

text \<open>The order lists the keys, once each.\<close>

definition lists_keys :: "string list \<Rightarrow> (string \<times> 'r cache_entry) list \<Rightarrow> bool" where
  "lists_keys order es \<longleftrightarrow> distinct order \<and> distinct (map fst es) \<and> set order = fst ` set es"

lemma lists_keys_length: "lists_keys order es \<Longrightarrow> length order = length es"
  unfolding lists_keys_def by (metis distinct_card length_map set_map)

lemma lists_keys_dom: "lists_keys order es \<Longrightarrow> k \<in> set order \<longleftrightarrow> map_of es k \<noteq> None"
  unfolding lists_keys_def by (simp add: map_of_eq_None_iff)

lemma lists_keys_delete:
  "lists_keys (k # order) es \<Longrightarrow> lists_keys order (AList.delete k es)"
proof -
  have "fst ` set (AList.delete k es) = fst ` set es - {k}"
    by (metis delete_keys set_map set_removeAll)
  then show "lists_keys (k # order) es \<Longrightarrow> ?thesis"
    by (auto simp: lists_keys_def distinct_removeAll delete_keys)
qed

lemma map_of_delete: "map_of (AList.delete k es) x = (if x = k then None else map_of es x)"
  by (simp add: delete_conv')

lemma evict_expired_effect:
  "distinct order \<Longrightarrow> distinct (map fst es) \<Longrightarrow> evict_expired now ttl order es = (order', es') \<Longrightarrow>
     order' = filter (\<lambda>k. \<exists>e. map_of es k = Some e \<and> time_sub now (ce_createdAt e) < ttl) order
     \<and> (\<forall>k. map_of es' k = (if k \<in> set order \<and> k \<notin> set order' then None else map_of es k))
     \<and> distinct (map fst es')"
proof (induction order arbitrary: es order' es')
  case (Cons k order)
  let ?live = "\<lambda>es k. \<exists>e. map_of es k = Some e \<and> time_sub now (ce_createdAt e) < ttl"
  show ?case
  proof (cases "?live es k")
    case False
    then have run: "evict_expired now ttl order (AList.delete k es) = (order', es')"
      using Cons.prems(3) by (auto split: option.splits if_splits)
    have "distinct (map fst (AList.delete k es))" using Cons.prems(2) by (simp add: distinct_delete)
    note ih = Cons.IH [OF _ this run]
    have "filter (?live (AList.delete k es)) order = filter (?live es) order"
      using Cons.prems(1) by (intro filter_cong) (auto simp: map_of_delete)
    with ih False Cons.prems(1) show ?thesis by (auto simp: map_of_delete)
  next
    case True
    then obtain o1 where run: "evict_expired now ttl order es = (o1, es')" "order' = k # o1"
      using Cons.prems(3) by (auto split: option.splits if_splits prod.splits)
    with Cons.IH [OF _ Cons.prems(2) run(1)] True Cons.prems(1) show ?thesis by auto
  qed
qed auto

lemma lists_keysI:
  assumes "distinct order" "distinct (map fst es)" "\<And>k. k \<in> set order \<longleftrightarrow> map_of es k \<noteq> None"
  shows "lists_keys order es"
  using assms by (auto simp: lists_keys_def map_of_eq_None_iff)

lemma evict_lru_effect:
  "lists_keys order es \<Longrightarrow> 0 < maxE \<Longrightarrow> evict_lru maxE order es = (order', es') \<Longrightarrow>
     order' = drop (Suc (length order) - nat maxE) order \<and> lists_keys order' es'
     \<and> (\<forall>k \<in> set order'. map_of es' k = map_of es k)"
proof (induction order arbitrary: es)
  case (Cons k order)
  have len: "length es = Suc (length order)" using lists_keys_length [OF Cons.prems(1)] by simp
  show ?case
  proof (cases "int (length es) \<ge> maxE")
    case True
    then have run: "evict_lru maxE order (AList.delete k es) = (order', es')" using Cons.prems(3) by simp
    note ih = Cons.IH [OF lists_keys_delete [OF Cons.prems(1)] Cons.prems(2) run]
    have "Suc (Suc (length order)) - nat maxE = Suc (Suc (length order) - nat maxE)"
      using True len by (simp add: nat_le_iff Suc_diff_le)
    moreover have "k \<notin> set order'"
      using ih Cons.prems(1) by (auto simp: lists_keys_def dest: in_set_dropD)
    ultimately show ?thesis using ih by (auto simp: map_of_delete)
  next
    case False
    then show ?thesis using Cons.prems len by (auto simp: zless_nat_eq_int_zless)
  qed
qed simp

definition cache_inv :: "'r search_cache \<Rightarrow> bool" where
  "cache_inv sc \<longleftrightarrow> lists_keys (sc_order sc) (sc_entries sc) \<and> 0 < sc_maxEntries sc \<and> 0 < sc_ttl sc
     \<and> int (length (sc_order sc)) \<le> sc_maxEntries sc
     \<and> (\<forall>k e. map_of (sc_entries sc) k = Some e \<longrightarrow> ce_query e = k \<and> ce_trigrams e = buildTrigrams k)"

text \<open>The keys that are still fresh, in the order of use.\<close>

definition live_keys :: "time \<Rightarrow> 'r search_cache \<Rightarrow> string list" where
  "live_keys now sc = filter (\<lambda>k. \<exists>e. map_of (sc_entries sc) k = Some e \<and> fresh now sc e) (sc_order sc)"

lemma evictExpired_effect:
  assumes "cache_inv sc"
  shows "cache_inv (evictExpiredLocked now sc)" "sc_order (evictExpiredLocked now sc) = live_keys now sc"
    "sc_maxEntries (evictExpiredLocked now sc) = sc_maxEntries sc" "sc_ttl (evictExpiredLocked now sc) = sc_ttl sc"
    "map_of (sc_entries (evictExpiredLocked now sc)) k
       = (if k \<in> set (live_keys now sc) then map_of (sc_entries sc) k else None)"
proof -
  obtain order' es' where run: "evict_expired now (sc_ttl sc) (sc_order sc) (sc_entries sc) = (order', es')" by fastforce
  have lk: "lists_keys (sc_order sc) (sc_entries sc)" using assms by (simp add: cache_inv_def)
  then have d: "distinct (sc_order sc)" "distinct (map fst (sc_entries sc))" by (simp_all add: lists_keys_def)
  note ef = evict_expired_effect [OF d run]
  have eq: "evictExpiredLocked now sc = sc\<lparr>sc_order := order', sc_entries := es'\<rparr>"
    by (simp add: evictExpiredLocked_def run)
  have o: "order' = live_keys now sc" using ef by (simp add: live_keys_def fresh_def)
  have mo: "map_of es' k = (if k \<in> set order' then map_of (sc_entries sc) k else None)" for k
    using ef lists_keys_dom [OF lk, of k] by auto
  have "lists_keys order' es'"
    using ef d mo lists_keys_dom [OF lk] by (intro lists_keysI) auto
  moreover have "length order' \<le> length (sc_order sc)" using ef by simp
  ultimately show "cache_inv (evictExpiredLocked now sc)"
    using assms mo unfolding cache_inv_def eq by (auto split: if_splits)
  show "sc_order (evictExpiredLocked now sc) = live_keys now sc"
    "sc_maxEntries (evictExpiredLocked now sc) = sc_maxEntries sc" "sc_ttl (evictExpiredLocked now sc) = sc_ttl sc"
    by (simp_all add: eq o)
  show "map_of (sc_entries (evictExpiredLocked now sc)) k
       = (if k \<in> set (live_keys now sc) then map_of (sc_entries sc) k else None)"
    by (simp add: eq mo o)
qed

lemma lists_keys_update:
  assumes "lists_keys order es" "k \<notin> set order"
  shows "lists_keys (order @ [k]) (AList.update k e es)"
  using assms lists_keys_dom [OF assms(1)]
  by (intro lists_keysI) (auto simp: lists_keys_def distinct_update update_conv')

lemma put_effect:
  fixes now :: time and rs :: "'r list"
  assumes inv: "cache_inv sc" and nq: "normalizeQuery q \<noteq> []"
  defines "rest \<equiv> filter (\<lambda>k. k \<noteq> normalizeQuery q) (live_keys now sc)"
    and "sc' \<equiv> sc_put now q rs sc"
  shows "cache_inv sc'" "sc_ttl sc' = sc_ttl sc" "sc_maxEntries sc' = sc_maxEntries sc"
    "sc_order sc' = drop (Suc (length rest) - nat (sc_maxEntries sc)) rest @ [normalizeQuery q]"
    "map_of (sc_entries sc') k =
       (if k = normalizeQuery q
        then Some \<lparr>ce_query = k, ce_trigrams = buildTrigrams k, ce_results = rs, ce_createdAt = now\<rparr>
        else if k \<in> set (sc_order sc') then map_of (sc_entries sc) k else None)"
proof -
  let ?q = "normalizeQuery q" and ?sc1 = "evictExpiredLocked now sc"
  let ?e = "\<lparr>ce_query = ?q, ce_trigrams = buildTrigrams ?q, ce_results = rs, ce_createdAt = now\<rparr>"
  note ev = evictExpired_effect [OF inv, of now]
  have lk: "lists_keys (live_keys now sc) (sc_entries ?sc1)" "0 < sc_maxEntries sc"
    "int (length (live_keys now sc)) \<le> sc_maxEntries sc"
    using ev(1,2,3) unfolding cache_inv_def by simp_all
  have d: "distinct (live_keys now sc)" using lk(1) by (simp add: lists_keys_def)
  have in1: "?q \<in> set (live_keys now sc) \<longleftrightarrow> map_of (sc_entries ?sc1) ?q \<noteq> None"
    by (rule lists_keys_dom [OF lk(1)])
  obtain order entries where run: "evict_lru (sc_maxEntries sc) (live_keys now sc) (sc_entries ?sc1) = (order, entries)"
    by fastforce
  note lru = evict_lru_effect [OF lk(1,2) run]
  define es where "es = (if ?q \<in> set (live_keys now sc) then sc_entries ?sc1 else entries)"
  define o' where "o' = drop (Suc (length rest) - nat (sc_maxEntries sc)) rest"
  have o'_eq: "o' = (if ?q \<in> set (live_keys now sc) then remove1 ?q (live_keys now sc) else order)"
  proof (cases "?q \<in> set (live_keys now sc)")
    case True
    have "rest = remove1 ?q (live_keys now sc)"
      using d by (auto simp: rest_def distinct_remove1_removeAll removeAll_filter_not_eq intro: filter_cong)
    moreover from this have "Suc (length rest) = length (live_keys now sc)"
      using True by (simp add: length_remove1) (metis Suc_pred length_pos_if_in_set)
    ultimately show ?thesis using True lk(3) by (simp add: o'_def)
  next
    case False
    then have "rest = live_keys now sc" by (auto simp: rest_def filter_id_conv)
    with False lru show ?thesis by (simp add: o'_def)
  qed
  have sc': "sc' = ?sc1\<lparr>sc_entries := AList.update ?q ?e es, sc_order := o' @ [?q]\<rparr>"
    unfolding sc'_def sc_put_def Let_def using nq in1 run
    by (auto simp: o'_eq es_def moveToEndLocked_def ev(2,3) split: option.splits)
  have sub: "set o' \<subseteq> set (live_keys now sc) - {?q}"
    using set_drop_subset by (fastforce simp: o'_def rest_def)
  have mo: "map_of es k = map_of (sc_entries sc) k" if "k \<in> set o'" for k
    using that lru sub ev(5) [of k] by (auto simp: es_def o'_eq split: if_splits)
  have keys: "lists_keys (o' @ [?q]) (AList.update ?q ?e es)"
  proof (cases "?q \<in> set (live_keys now sc)")
    case True
    show ?thesis
      using True d lists_keys_dom [OF lk(1)] lk(1)
      by (intro lists_keysI)
        (auto simp: o'_eq es_def lists_keys_def distinct_update update_conv' set_remove1_eq distinct_remove1)
  next
    case False
    then show ?thesis using lru sub by (auto simp: o'_eq es_def intro!: lists_keys_update)
  qed
  have len: "int (length (o' @ [?q])) \<le> sc_maxEntries sc"
    using lk(2) by (auto simp: o'_def)
  show order: "sc_order sc' = drop (Suc (length rest) - nat (sc_maxEntries sc)) rest @ [?q]"
    by (simp add: sc' o'_def)
  show "sc_ttl sc' = sc_ttl sc" "sc_maxEntries sc' = sc_maxEntries sc" by (simp_all add: sc' ev)
  have new: "map_of (sc_entries sc') k =
       (if k = ?q then Some ?e else if k \<in> set (sc_order sc') then map_of (sc_entries sc) k else None)" for k
  proof (cases "k = ?q \<or> k \<in> set o'")
    case True
    then show ?thesis using mo [of k] by (auto simp: sc' update_conv')
  next
    case False
    then have "map_of (AList.update ?q ?e es) k = None" using lists_keys_dom [OF keys, of k] by auto
    with False show ?thesis by (simp add: sc')
  qed
  show "map_of (sc_entries sc') k =
       (if k = ?q then Some \<lparr>ce_query = k, ce_trigrams = buildTrigrams k, ce_results = rs, ce_createdAt = now\<rparr>
        else if k \<in> set (sc_order sc') then map_of (sc_entries sc) k else None)"
    using new [of k] by simp
  have "ce_query e = k \<and> ce_trigrams e = buildTrigrams k" if "map_of (sc_entries sc') k = Some e" for k e
    using that new [of k] inv by (auto simp: cache_inv_def split: if_splits)
  then show "cache_inv sc'"
    using keys len lk(2) inv unfolding cache_inv_def by (auto simp: sc' ev)
qed

lemma best_match_effect:
  "best_match now sc qt es (b, be) = (b', be') \<Longrightarrow>
     b \<le> b'
     \<and> (be' = be \<and> b' = b \<or> (\<exists>k e. (k, e) \<in> set es \<and> fresh now sc e \<and> be' = Some e \<and> b < b'
          \<and> b' = jaccardSimilarity qt (ce_trigrams e)))
     \<and> (\<forall>(k, e) \<in> set es. fresh now sc e \<longrightarrow> jaccardSimilarity qt (ce_trigrams e) \<le> b')"
proof (induction es arbitrary: b be)
  case (Cons ke es)
  obtain k e where ke: "ke = (k, e)" by fastforce
  show ?case
  proof (cases "fresh now sc e \<and> jaccardSimilarity qt (ce_trigrams e) > b")
    case True
    then have "best_match now sc qt es (jaccardSimilarity qt (ce_trigrams e), Some e) = (b', be')"
      using Cons.prems ke by (simp add: Let_def)
    from Cons.IH [OF this] True ke show ?thesis by fastforce
  next
    case False
    then have "best_match now sc qt es (b, be) = (b', be')"
      using Cons.prems ke by (auto simp: Let_def split: if_splits)
    from Cons.IH [OF this] False ke show ?thesis by fastforce
  qed
qed simp

lemma move_effect:
  assumes inv: "cache_inv sc" and k: "k \<in> set (sc_order sc)"
  shows "cache_inv (moveToEndLocked k sc)"
proof -
  have lk: "lists_keys (sc_order sc) (sc_entries sc)" using inv by (simp add: cache_inv_def)
  then have d: "distinct (sc_order sc)" by (simp add: lists_keys_def)
  have "length (remove1 k (sc_order sc) @ [k]) = length (sc_order sc)"
    using k by (simp add: length_remove1) (metis Suc_pred length_pos_if_in_set)
  moreover have "lists_keys (remove1 k (sc_order sc) @ [k]) (sc_entries sc)"
    using lk d k by (auto simp: lists_keys_def set_remove1_eq distinct_remove1)
  ultimately show ?thesis using inv by (simp add: cache_inv_def moveToEndLocked_def)
qed

lemma get_effect:
  assumes inv: "cache_inv sc" and nq: "normalizeQuery q \<noteq> []" and g: "sc_get now q sc = (r, sc')"
  defines "sim \<equiv> \<lambda>k. jaccardSimilarity (buildTrigrams (normalizeQuery q)) (buildTrigrams k)"
  shows "r = None \<Longrightarrow> sc' = sc \<and> (\<forall>k e. map_of (sc_entries sc) k = Some e \<longrightarrow> fresh now sc e \<longrightarrow>
             k \<noteq> normalizeQuery q \<and> sim k < similarityThreshold)"
    "r = Some rs \<Longrightarrow> \<exists>k e. map_of (sc_entries sc) k = Some e \<and> fresh now sc e \<and> rs = ce_results e
        \<and> (k = normalizeQuery q \<or> similarityThreshold \<le> sim k)
        \<and> sc' = sc\<lparr>sc_order := remove1 k (sc_order sc) @ [k]\<rparr>"
    "map_of (sc_entries sc) (normalizeQuery q) = Some e0 \<Longrightarrow> fresh now sc e0 \<Longrightarrow> r = Some (ce_results e0)"
    "cache_inv sc'"
proof -
  let ?q = "normalizeQuery q"
  let ?exact = "case map_of (sc_entries sc) ?q of Some e \<Rightarrow> if fresh now sc e then Some e else None | None \<Rightarrow> None"
  have lk: "lists_keys (sc_order sc) (sc_entries sc)" using inv by (simp add: cache_inv_def)
  have de: "distinct (map fst (sc_entries sc))" using lk by (simp add: lists_keys_def)
  have own: "ce_query e = k \<and> ce_trigrams e = buildTrigrams k" if "map_of (sc_entries sc) k = Some e" for k e
    using inv that by (simp add: cache_inv_def)
  have inorder: "k \<in> set (sc_order sc)" if "map_of (sc_entries sc) k = Some e" for k e
    using lists_keys_dom [OF lk, of k] that by simp
  obtain b be where bm: "best_match now sc (buildTrigrams ?q) (sc_entries sc) (0, None) = (b, be)" by fastforce
  note be = best_match_effect [OF bm]
  have all: "sim k \<le> b" if "map_of (sc_entries sc) k = Some e" "fresh now sc e" for k e
    using be own [OF that(1)] map_of_SomeD [OF that(1)] that(2) by (fastforce simp: sim_def)
  have found: "\<exists>k. map_of (sc_entries sc) k = Some e \<and> fresh now sc e \<and> b = sim k" if "be = Some e" for e
  proof -
    from be that obtain k where k: "(k, e) \<in> set (sc_entries sc)" "fresh now sc e"
        "b = jaccardSimilarity (buildTrigrams ?q) (ce_trigrams e)" by auto
    then have "map_of (sc_entries sc) k = Some e" by (simp add: de)
    with k own show ?thesis by (auto simp: sim_def)
  qed
  have "(r = None \<longrightarrow> sc' = sc \<and> (\<forall>k e. map_of (sc_entries sc) k = Some e \<longrightarrow> fresh now sc e \<longrightarrow>
             k \<noteq> ?q \<and> sim k < similarityThreshold))
    \<and> (\<forall>rs. r = Some rs \<longrightarrow> (\<exists>k e. map_of (sc_entries sc) k = Some e \<and> fresh now sc e \<and> rs = ce_results e
        \<and> (k = ?q \<or> similarityThreshold \<le> sim k)
        \<and> sc' = sc\<lparr>sc_order := remove1 k (sc_order sc) @ [k]\<rparr>))
    \<and> (\<forall>e0. map_of (sc_entries sc) ?q = Some e0 \<longrightarrow> fresh now sc e0 \<longrightarrow> r = Some (ce_results e0))"
  proof (cases ?exact)
    case (Some e)
    then have m: "map_of (sc_entries sc) ?q = Some e" "fresh now sc e" by (auto split: option.splits if_splits)
    then have "r = Some (ce_results e)" "sc' = sc\<lparr>sc_order := remove1 ?q (sc_order sc) @ [?q]\<rparr>"
      using g nq by (simp_all add: sc_get_def Let_def moveToEndLocked_def)
    with m show ?thesis by auto
  next
    case None
    then have ne: "map_of (sc_entries sc) ?q = Some e \<Longrightarrow> \<not> fresh now sc e" for e by (auto split: if_splits)
    show ?thesis
    proof (cases "be \<noteq> None \<and> similarityThreshold \<le> b")
      case True
      then obtain e where e: "be = Some e" by auto
      from found [OF e] obtain k where k: "map_of (sc_entries sc) k = Some e" "fresh now sc e" "b = sim k" by blast
      have "r = Some (ce_results e)" "sc' = sc\<lparr>sc_order := remove1 k (sc_order sc) @ [k]\<rparr>"
        using g nq None bm e True own [OF k(1)] by (simp_all add: sc_get_def Let_def moveToEndLocked_def)
      with k True ne show ?thesis by auto
    next
      case False
      have "r = None \<and> sc' = sc"
        using g nq None bm False by (auto simp: sc_get_def Let_def split: option.splits if_splits)
      moreover have "sim k < similarityThreshold" if "map_of (sc_entries sc) k = Some e" "fresh now sc e" for k e
      proof -
        have "b = 0 \<or> be \<noteq> None" using be by auto
        then show ?thesis using all [OF that] False by (auto simp: similarityThreshold_def)
      qed
      ultimately show ?thesis using ne by blast
    qed
  qed
  note all3 = this
  show "r = None \<Longrightarrow> sc' = sc \<and> (\<forall>k e. map_of (sc_entries sc) k = Some e \<longrightarrow> fresh now sc e \<longrightarrow>
             k \<noteq> ?q \<and> sim k < similarityThreshold)" using all3 by blast
  show two: "\<exists>k e. map_of (sc_entries sc) k = Some e \<and> fresh now sc e \<and> rs = ce_results e
        \<and> (k = ?q \<or> similarityThreshold \<le> sim k)
        \<and> sc' = sc\<lparr>sc_order := remove1 k (sc_order sc) @ [k]\<rparr>" if "r = Some rs" for rs
    using all3 that by blast
  show "map_of (sc_entries sc) ?q = Some e0 \<Longrightarrow> fresh now sc e0 \<Longrightarrow> r = Some (ce_results e0)" using all3 by blast
  show "cache_inv sc'"
  proof (cases r)
    case None
    then show ?thesis using all3 inv by blast
  next
    case (Some rs)
    from two [OF this] obtain k e where "map_of (sc_entries sc) k = Some e"
      "sc' = sc\<lparr>sc_order := remove1 k (sc_order sc) @ [k]\<rparr>" by blast
    with move_effect [OF inv inorder] show ?thesis by (simp add: moveToEndLocked_def)
  qed
qed

section \<open>Properties\<close>

text \<open>
  The similarity computed by sorting, deduplicating in place and merging is the quotient
  of the sizes of the intersection and the union of the sets of three-byte substrings; it is
  symmetric, lies between 0 and 1 and is 1 exactly when the sets are equal, in particular for any
  two queries shorter than three bytes.
\<close>

theorem trigram_similarity:
  "jaccardSimilarity (buildTrigrams s) (buildTrigrams t) =
     (if length s < 3 \<and> length t < 3 then 1
      else of_nat (card (set (triples s) \<inter> set (triples t))) / of_nat (card (set (triples s) \<union> set (triples t))))
   \<and> jaccardSimilarity (buildTrigrams s) (buildTrigrams t) = jaccardSimilarity (buildTrigrams t) (buildTrigrams s)
   \<and> 0 \<le> jaccardSimilarity (buildTrigrams s) (buildTrigrams t)
   \<and> jaccardSimilarity (buildTrigrams s) (buildTrigrams t) \<le> 1
   \<and> (jaccardSimilarity (buildTrigrams s) (buildTrigrams t) = 1 \<longleftrightarrow> set (triples s) = set (triples t))"
proof -
  let ?A = "set (triples s)" and ?B = "set (triples t)"
  have wn: "windows u = [] \<longleftrightarrow> length u < 3" for u by (simp add: windows_triples triples_Nil)
  have eq: "jaccardSimilarity (buildTrigrams u) (buildTrigrams v) =
     (if length u < 3 \<and> length v < 3 then 1
      else of_nat (card (set (triples u) \<inter> set (triples v))) / of_nat (card (set (triples u) \<union> set (triples v))))" for u v
    by (simp add: jaccard_card wn triples_card)
  have empty: "?A \<union> ?B = {} \<longleftrightarrow> length s < 3 \<and> length t < 3" by (simp add: triples_Nil)
  have sub: "?A \<inter> ?B \<subseteq> ?A \<union> ?B" by blast
  have le: "card (?A \<inter> ?B) \<le> card (?A \<union> ?B)" by (rule card_mono [OF _ sub]) simp
  have same: "card (?A \<inter> ?B) = card (?A \<union> ?B) \<longleftrightarrow> ?A = ?B"
    using card_subset_eq [OF _ sub] by auto
  show ?thesis
  proof (cases "length s < 3 \<and> length t < 3")
    case True
    then show ?thesis using empty by (simp add: eq)
  next
    case False
    then have pos: "0 < card (?A \<union> ?B)" using empty by (simp add: card_gt_0_iff)
    then have "(of_nat (card (?A \<inter> ?B)) / of_nat (card (?A \<union> ?B)) :: rat) = 1 \<longleftrightarrow> ?A = ?B"
      unfolding same [symmetric] by (auto simp: divide_eq_eq)
    moreover have "(of_nat (card (?A \<inter> ?B)) / of_nat (card (?A \<union> ?B)) :: rat) \<le> 1"
      using pos le by (simp add: divide_le_eq)
    moreover have "jaccardSimilarity (buildTrigrams s) (buildTrigrams t)
        = of_nat (card (?A \<inter> ?B)) / of_nat (card (?A \<union> ?B))"
      unfolding eq using False by (rule if_not_P)
    moreover have "jaccardSimilarity (buildTrigrams t) (buildTrigrams s)
        = of_nat (card (?A \<inter> ?B)) / of_nat (card (?A \<union> ?B))"
      unfolding eq using False by (auto simp: Int_commute Un_commute)
    ultimately show ?thesis using False by auto
  qed
qed

inductive cache_reach :: "'r search_cache \<Rightarrow> bool" where
  new: "cache_reach (newSearchCache maxEntries ttl)"
| get: "cache_reach sc \<Longrightarrow> cache_reach (snd (sc_get now q sc))"
| put: "cache_reach sc \<Longrightarrow> cache_reach (sc_put now q rs sc)"

lemma cache_reach_inv: "cache_reach sc \<Longrightarrow> cache_inv sc"
proof (induction rule: cache_reach.induct)
  case (new maxEntries ttl)
  show ?case by (simp add: newSearchCache_def cache_inv_def lists_keys_def minute_def)
next
  case (get sc now q)
  obtain r sc' where g: "sc_get now q sc = (r, sc')" by fastforce
  show ?case
  proof (cases "normalizeQuery q = []")
    case True
    with get.IH show ?thesis by (simp add: sc_get_def)
  next
    case False
    with get_effect(4) [OF get.IH False g] g show ?thesis by simp
  qed
next
  case (put sc now q rs)
  then show ?case
    by (cases "normalizeQuery q = []") (simp_all add: put_effect(1), simp add: sc_put_def)
qed

text \<open>
  In every reachable cache the order lists the cached queries once each and there are at
  most as many as allowed. Storing a query drops the expired ones and then as many of the least
  recently used as needed, never another one, and moves the query to the end. A look-up that finds
  something returns the results of one entry that has not expired and is the query itself or similar
  enough, and only moves that entry to the end; one that finds nothing changes nothing, and no entry
  would have qualified. Results just stored are found until they expire.
\<close>

theorem search_cache_contract:
  assumes "cache_reach sc" and "normalizeQuery q \<noteq> []"
  shows "distinct (sc_order sc) \<and> set (sc_order sc) = fst ` set (sc_entries sc) \<and> int (sc_len sc) \<le> sc_maxEntries sc
    \<and> (let rest = filter (\<lambda>k. k \<noteq> normalizeQuery q) (live_keys now sc)
       in sc_order (sc_put now q rs sc) = drop (Suc (length rest) - nat (sc_maxEntries sc)) rest @ [normalizeQuery q])
    \<and> (k \<noteq> normalizeQuery q \<longrightarrow> k \<in> set (sc_order (sc_put now q rs sc)) \<longrightarrow>
         map_of (sc_entries (sc_put now q rs sc)) k = map_of (sc_entries sc) k)
    \<and> (time_sub later now < sc_ttl sc \<longrightarrow> fst (sc_get later q (sc_put now q rs sc)) = Some rs)
    \<and> (sc_get now q sc = (None, sc') \<longrightarrow> sc' = sc
         \<and> (\<forall>k e. map_of (sc_entries sc) k = Some e \<longrightarrow> fresh now sc e \<longrightarrow> k \<noteq> normalizeQuery q
              \<and> jaccardSimilarity (buildTrigrams (normalizeQuery q)) (buildTrigrams k) < 7 / 10))
    \<and> (sc_get now q sc = (Some xs, sc') \<longrightarrow>
         (\<exists>k e. map_of (sc_entries sc) k = Some e \<and> fresh now sc e \<and> xs = ce_results e
            \<and> (k = normalizeQuery q \<or> 7 / 10 \<le> jaccardSimilarity (buildTrigrams (normalizeQuery q)) (buildTrigrams k))
            \<and> sc' = sc\<lparr>sc_order := remove1 k (sc_order sc) @ [k]\<rparr>))"
proof -
  note inv = cache_reach_inv [OF assms(1)]
  note pe = put_effect [OF inv assms(2)]
  have lk: "lists_keys (sc_order sc) (sc_entries sc)" using inv by (simp add: cache_inv_def)
  have 1: "distinct (sc_order sc)" "set (sc_order sc) = fst ` set (sc_entries sc)" "int (sc_len sc) \<le> sc_maxEntries sc"
    using lk lists_keys_length [OF lk] inv by (simp_all add: lists_keys_def sc_len_def cache_inv_def)
  have 2: "fst (sc_get later q (sc_put now q rs sc)) = Some rs" if "time_sub later now < sc_ttl sc"
  proof -
    obtain r sc2 where g: "sc_get later q (sc_put now q rs sc) = (r, sc2)" by fastforce
    have m: "map_of (sc_entries (sc_put now q rs sc)) (normalizeQuery q) = Some
        \<lparr>ce_query = normalizeQuery q, ce_trigrams = buildTrigrams (normalizeQuery q), ce_results = rs, ce_createdAt = now\<rparr>"
      using pe(5) [of now rs "normalizeQuery q"] by simp
    show ?thesis using get_effect(3) [OF pe(1) assms(2) g m] that g by (simp add: fresh_def pe(2))
  qed
  have 3: "map_of (sc_entries (sc_put now q rs sc)) k = map_of (sc_entries sc) k"
    if "k \<noteq> normalizeQuery q" "k \<in> set (sc_order (sc_put now q rs sc))"
    using pe(5) [of now rs k] that by simp
  show ?thesis
    unfolding Let_def similarityThreshold_def [symmetric]
  proof (intro conjI impI)
    show "sc' = sc" if "sc_get now q sc = (None, sc')"
      using get_effect(1) [OF inv assms(2) that refl] by blast
    show "\<forall>k e. map_of (sc_entries sc) k = Some e \<longrightarrow> fresh now sc e \<longrightarrow> k \<noteq> normalizeQuery q
        \<and> jaccardSimilarity (buildTrigrams (normalizeQuery q)) (buildTrigrams k) < similarityThreshold"
      if "sc_get now q sc = (None, sc')"
      using get_effect(1) [OF inv assms(2) that refl] by (rule conjunct2)
    show "\<exists>k e. map_of (sc_entries sc) k = Some e \<and> fresh now sc e \<and> xs = ce_results e
        \<and> (k = normalizeQuery q
           \<or> similarityThreshold \<le> jaccardSimilarity (buildTrigrams (normalizeQuery q)) (buildTrigrams k))
        \<and> sc' = sc\<lparr>sc_order := remove1 k (sc_order sc) @ [k]\<rparr>"
      if "sc_get now q sc = (Some xs, sc')"
      by (rule get_effect(2) [OF inv assms(2) that refl])
  qed (use 1 2 3 pe(4) [of now rs] in simp_all)
qed

text \<open>Two cached queries, of which the first is used again before a third one is stored.\<close>

definition demo_cache :: "nat search_cache" where
  "demo_cache = sc_put 2 ''beta'' [2] (sc_put 1 ''alpha'' [1] (newSearchCache 2 100))"

lemma demo_cache_reach: "cache_reach demo_cache"
  unfolding demo_cache_def by (intro cache_reach.put cache_reach.new)

lemma demo_queries: "normalizeQuery ''Ab'' = ''ab''"
  by code_simp

theorem search_cache_contract_witness:
  "fst (sc_get 60 ''Ab'' (sc_put 50 ''Ab'' [7] demo_cache)) = Some [7]"
proof -
  have "sc_ttl demo_cache = 100"
    by (simp add: demo_cache_def newSearchCache_def sc_put_def Let_def evictExpiredLocked_def moveToEndLocked_def
        split: prod.splits)
  moreover have "normalizeQuery ''Ab'' \<noteq> []" by (simp add: demo_queries)
  ultimately show ?thesis
    using search_cache_contract [OF demo_cache_reach, of "''Ab''", where now = 50 and later = 60 and rs = "[7]"]
    by (simp add: time_sub_def min_int64_def max_int64_def)
qed

end
