(* ===== verification/MessageSplit.thy ===== *)
theory MessageSplit
  imports GoUtf8
begin

text \<open>
  \<^verbatim>\<open>pkg/channels/split.go\<close>: cutting a message into chunks a channel accepts, at line ends or
  blanks where possible and with fenced code blocks closed and reopened. The code works on runes,
  which are numbers here; indices are integers, as the searches answer with a position before the
  start when they find nothing. The main loop replaces the text by a reconstructed rest and has no
  bound of its own: it is a \<open>partial_function\<close> whose value \<open>None\<close> means that it does not return. A slice
  whose bounds are out of order panics, the value \<open>Some None\<close>.
\<close>

section \<open>The searches\<close>

definition rn :: "nat list \<Rightarrow> int \<Rightarrow> nat" where
  "rn rs i = rs ! nat i"

definition backtick :: nat where "backtick = 96"
definition line_feed :: nat where "line_feed = 10"

definition fence_at :: "nat list \<Rightarrow> int \<Rightarrow> bool" where
  "fence_at rs i \<longleftrightarrow> rn rs i = backtick \<and> rn rs (i + 1) = backtick \<and> rn rs (i + 2) = backtick"

function unclosed_loop :: "nat list \<Rightarrow> int \<Rightarrow> int \<Rightarrow> bool \<Rightarrow> int \<Rightarrow> int" where
  "unclosed_loop rs i stop inCodeBlock lastOpenIdx =
     (if i < stop then
        if i + 2 < stop \<and> fence_at rs i
        then unclosed_loop rs (i + 3) stop (\<not> inCodeBlock) (if \<not> inCodeBlock then i else lastOpenIdx)
        else unclosed_loop rs (i + 1) stop inCodeBlock lastOpenIdx
      else if inCodeBlock then lastOpenIdx else - 1)"
  by pat_completeness auto
termination by (relation "measure (\<lambda>(rs, i, e, b, l). nat (e - i))") auto

definition findLastUnclosedCodeBlockInRange :: "nat list \<Rightarrow> int \<Rightarrow> int \<Rightarrow> int" where
  "findLastUnclosedCodeBlockInRange rs start stop = unclosed_loop rs start stop False (- 1)"

function findNextClosingCodeBlockInRange :: "nat list \<Rightarrow> int \<Rightarrow> int \<Rightarrow> int" where
  "findNextClosingCodeBlockInRange rs i stop =
     (if i < stop then
        if i + 2 < stop \<and> fence_at rs i then i + 3 else findNextClosingCodeBlockInRange rs (i + 1) stop
      else - 1)"
  by pat_completeness auto
termination by (relation "measure (\<lambda>(rs, i, e). nat (e - i))") auto

function findNewlineFrom :: "nat list \<Rightarrow> int \<Rightarrow> int" where
  "findNewlineFrom rs from =
     (if from < int (length rs) then
        if rn rs from = line_feed then from else findNewlineFrom rs (from + 1)
      else - 1)"
  by pat_completeness auto
termination by (relation "measure (\<lambda>(rs, i). nat (int (length rs) - i))") auto

text \<open>The downward scan the two searches for a break share.\<close>

function last_in_range :: "(nat \<Rightarrow> bool) \<Rightarrow> nat list \<Rightarrow> int \<Rightarrow> int \<Rightarrow> int option" where
  "last_in_range P rs searchStart i =
     (if i \<ge> searchStart then if P (rn rs i) then Some i else last_in_range P rs searchStart (i - 1)
      else None)"
  by pat_completeness auto
termination by (relation "measure (\<lambda>(P, rs, s, i). nat (i - s + 1))") auto

declare unclosed_loop.simps [simp del] and findNextClosingCodeBlockInRange.simps [simp del]
  and findNewlineFrom.simps [simp del] and last_in_range.simps [simp del]

definition findLastNewlineInRange :: "nat list \<Rightarrow> int \<Rightarrow> int \<Rightarrow> int \<Rightarrow> int" where
  "findLastNewlineInRange rs start stop searchWindow =
     (case last_in_range (\<lambda>r. r = line_feed) rs (max (stop - searchWindow) start) (stop - 1) of
        Some i \<Rightarrow> i | None \<Rightarrow> start - 1)"

definition findLastSpaceInRange :: "nat list \<Rightarrow> int \<Rightarrow> int \<Rightarrow> int \<Rightarrow> int" where
  "findLastSpaceInRange rs start stop searchWindow =
     (case last_in_range (\<lambda>r. r = 32 \<or> r = 9) rs (max (stop - searchWindow) start) (stop - 1) of
        Some i \<Rightarrow> i | None \<Rightarrow> start - 1)"

section \<open>Slices and trimming\<close>

definition slice :: "nat list \<Rightarrow> int \<Rightarrow> int \<Rightarrow> nat list" where
  "slice rs a b = take (nat (b - a)) (drop (nat a) rs)"

text \<open>\<^verbatim>\<open>unicode.IsSpace\<close>.\<close>

definition rune_space :: "nat \<Rightarrow> bool" where
  "rune_space r \<longleftrightarrow> r \<in> {9, 10, 11, 12, 13, 32, 133, 160, 5760, 8232, 8233, 8239, 8287, 12288}
     \<or> (8192 \<le> r \<and> r \<le> 8202)"

definition rune_trim :: "nat list \<Rightarrow> nat list" where
  "rune_trim rs = rev (dropWhile rune_space (rev (dropWhile rune_space rs)))"

definition blank :: "nat \<Rightarrow> bool" where
  "blank r \<longleftrightarrow> r \<in> {32, 9, 10, 13}"

text \<open>\<^verbatim>\<open>strings.TrimRight(s, " \t\n\r")\<close>.\<close>

definition trim_blanks :: "nat list \<Rightarrow> nat list" where
  "trim_blanks rs = rev (dropWhile blank (rev rs))"

definition closing_fence :: "nat list" where
  "closing_fence = [line_feed, backtick, backtick, backtick]"

section \<open>One turn of the loop\<close>

text \<open>The rune buffer and the start index of the next turn, after the chunk this turn appends.\<close>

datatype split_turn = FinalChunk "nat list" | NextTurn "nat list" "nat list" int | SlicePanic

function skip_blanks :: "nat list \<Rightarrow> int \<Rightarrow> int" where
  "skip_blanks rs i = (if i < int (length rs) \<and> blank (rn rs i) then skip_blanks rs (i + 1) else i)"
  by pat_completeness auto
termination by (relation "measure (\<lambda>(rs, i). nat (int (length rs) - i))") auto

declare skip_blanks.simps [simp del]

definition effective_limit :: "int \<Rightarrow> int" where
  "effective_limit maxLen =
     (let buffer0 = max (maxLen div 10) 50;
          codeBlockBuffer = (if buffer0 > maxLen div 2 then maxLen div 2 else buffer0)
      in max (maxLen - codeBlockBuffer) (maxLen div 2))"

text \<open>Where the chunk would end without regard to code blocks.\<close>

definition natural_end :: "int \<Rightarrow> nat list \<Rightarrow> int \<Rightarrow> int" where
  "natural_end maxLen rs start =
     (let stop = start + effective_limit maxLen;
          e1 = findLastNewlineInRange rs start stop 200;
          e2 = (if e1 \<le> start then findLastSpaceInRange rs start stop 100 else e1)
      in if e2 \<le> start then stop else e2)"

text \<open>Appending a plain chunk and skipping the blanks behind it.\<close>

definition plain_turn :: "int \<Rightarrow> nat list \<Rightarrow> int \<Rightarrow> int \<Rightarrow> split_turn" where
  "plain_turn maxLen rs start msgEnd0 =
     (let msgEnd = (if msgEnd0 \<le> start then start + effective_limit maxLen else msgEnd0)
      in NextTurn (slice rs start msgEnd) rs (skip_blanks rs msgEnd))"

text \<open>Closing the block in the chunk and reopening it before the rest.\<close>

definition inside_turn :: "nat list \<Rightarrow> nat list \<Rightarrow> int \<Rightarrow> int \<Rightarrow> split_turn" where
  "inside_turn rs header start splitAt =
     (if splitAt < start then SlicePanic
      else NextTurn (trim_blanks (slice rs start splitAt) @ closing_fence)
             (rune_trim (header @ line_feed # drop (nat splitAt) rs)) 0)"

definition split_turn :: "int \<Rightarrow> nat list \<Rightarrow> int \<Rightarrow> split_turn" where
  "split_turn maxLen rs start =
     (let totalLen = int (length rs)
      in if totalLen - start \<le> maxLen then FinalChunk (slice rs start totalLen)
         else
           let msgEnd = natural_end maxLen rs start;
               unclosedIdx = findLastUnclosedCodeBlockInRange rs start msgEnd
           in if unclosedIdx < 0 \<or> totalLen \<le> msgEnd then plain_turn maxLen rs start msgEnd
              else
                let closingIdx = findNextClosingCodeBlockInRange rs msgEnd totalLen
                in if closingIdx > 0 \<and> closingIdx - start \<le> maxLen
                   then plain_turn maxLen rs start closingIdx
                   else
                     let headerEnd = findNewlineFrom rs unclosedIdx;
                         header = rune_trim (slice rs unclosedIdx
                                    (if headerEnd = - 1 then unclosedIdx + 3 else headerEnd));
                         headerEndIdx = (if headerEnd \<noteq> - 1 then headerEnd
                                         else unclosedIdx + int (length header))
                     in if msgEnd > headerEndIdx + 20 then
                          let innerLimit = min (start + maxLen - 5) totalLen;
                              betterEnd = findLastNewlineInRange rs start innerLimit 200
                          in inside_turn rs header start (if betterEnd > headerEndIdx then betterEnd else innerLimit)
                        else
                          let newEnd0 = findLastNewlineInRange rs start unclosedIdx 200;
                              newEnd = (if newEnd0 \<le> start then findLastSpaceInRange rs start unclosedIdx 100
                                        else newEnd0)
                          in if newEnd > start then plain_turn maxLen rs start newEnd
                             else if unclosedIdx - start > 20 then plain_turn maxLen rs start unclosedIdx
                             else inside_turn rs header start (min (start + maxLen - 5) totalLen))"

partial_function (option) split_loop :: "int \<Rightarrow> nat list \<Rightarrow> int \<Rightarrow> nat list list option option" where
  "split_loop maxLen rs start =
     (if \<not> start < int (length rs) then Some (Some [])
      else
        (case split_turn maxLen rs start of
           FinalChunk c \<Rightarrow> Some (Some [c])
         | SlicePanic \<Rightarrow> Some None
         | NextTurn c rs' start' \<Rightarrow>
             Option.bind (split_loop maxLen rs' start')
               (\<lambda>r. Some (map_option (\<lambda>cs. c # cs) r))))"

definition go_string :: "nat list \<Rightarrow> string" where
  "go_string rs = map char_of (concat (map encode_rune rs))"

definition splitMessage :: "string \<Rightarrow> int \<Rightarrow> string list option option" where
  "splitMessage content maxLen =
     (if maxLen \<le> 0 then Some (Some (if content = [] then [] else [content]))
      else map_option (map_option (map go_string)) (split_loop maxLen (runes content) 0))"

text \<open>\<^verbatim>\<open>splitByLength\<close> of \<^verbatim>\<open>pkg/channels/manager.go\<close>.\<close>

definition splitByLength :: "string \<Rightarrow> int \<Rightarrow> string list option option" where
  "splitByLength content maxLen =
     (if maxLen > 0 \<and> int (rune_count content) > maxLen then splitMessage content maxLen
      else Some (Some [content]))"

section \<open>What the searches find\<close>

lemma last_in_range_spec:
  "(\<forall>j. last_in_range P rs lo i = Some j \<longrightarrow> lo \<le> j \<and> j \<le> i \<and> P (rn rs j) \<and> (\<forall>k. j < k \<and> k \<le> i \<longrightarrow> \<not> P (rn rs k)))
   \<and> (last_in_range P rs lo i = None \<longrightarrow> (\<forall>k. lo \<le> k \<and> k \<le> i \<longrightarrow> \<not> P (rn rs k)))"
proof (induction P rs lo i rule: last_in_range.induct)
  case (1 P rs lo i)
  show ?case
  proof (cases "lo \<le> i \<and> \<not> P (rn rs i)")
    case True
    then have eq: "last_in_range P rs lo i = last_in_range P rs lo (i - 1)" by (subst last_in_range.simps) simp
    have ext: "\<not> P (rn rs k)" if "\<forall>k. a \<le> k \<and> k \<le> i - 1 \<longrightarrow> \<not> P (rn rs k)" "a \<le> k" "k \<le> i" for a k
      using that True by (cases "k = i") auto
    have ih: "last_in_range P rs lo (i - 1) = Some j \<Longrightarrow> lo \<le> j \<and> j \<le> i - 1 \<and> P (rn rs j)
          \<and> (\<forall>k. j + 1 \<le> k \<and> k \<le> i - 1 \<longrightarrow> \<not> P (rn rs k))"
      "last_in_range P rs lo (i - 1) = None \<Longrightarrow> \<forall>k. lo \<le> k \<and> k \<le> i - 1 \<longrightarrow> \<not> P (rn rs k)" for j
      using 1 [OF conjunct1 [OF True] conjunct2 [OF True]] by auto
    show ?thesis
    proof (cases "last_in_range P rs lo (i - 1)")
      case None
      from ext [OF ih(2) [OF None]] show ?thesis by (simp add: eq None)
    next
      case (Some j)
      note j = ih(1) [OF Some]
      have "\<not> P (rn rs k)" if "j < k" "k \<le> i" for k
        by (rule ext [of "j + 1"]) (use j that in auto)
      with j show ?thesis by (simp add: eq Some)
    qed
  next
    case False
    then have "last_in_range P rs lo i = (if lo \<le> i then Some i else None)"
      by (subst last_in_range.simps) auto
    with False show ?thesis by auto
  qed
qed

lemma find_newline_cases:
  obtains "findLastNewlineInRange rs start stop w = start - 1"
      "\<And>k. max (stop - w) start \<le> k \<Longrightarrow> k < stop \<Longrightarrow> rn rs k \<noteq> line_feed"
    | j where "findLastNewlineInRange rs start stop w = j" "max (stop - w) start \<le> j" "j < stop"
      "rn rs j = line_feed" "\<And>k. j < k \<Longrightarrow> k < stop \<Longrightarrow> rn rs k \<noteq> line_feed"
  using last_in_range_spec [of "\<lambda>r. r = line_feed" rs "max (stop - w) start" "stop - 1"]
  by (cases "last_in_range (\<lambda>r. r = line_feed) rs (max (stop - w) start) (stop - 1)")
    (auto simp: findLastNewlineInRange_def)

lemma find_space_cases:
  obtains "findLastSpaceInRange rs start stop w = start - 1"
      "\<And>k. max (stop - w) start \<le> k \<Longrightarrow> k < stop \<Longrightarrow> rn rs k \<noteq> 32 \<and> rn rs k \<noteq> 9"
    | j where "findLastSpaceInRange rs start stop w = j" "max (stop - w) start \<le> j" "j < stop"
      "rn rs j = 32 \<or> rn rs j = 9"
  using last_in_range_spec [of "\<lambda>r. r = 32 \<or> r = 9" rs "max (stop - w) start" "stop - 1"]
  by (cases "last_in_range (\<lambda>r. r = 32 \<or> r = 9) rs (max (stop - w) start) (stop - 1)")
    (auto simp: findLastSpaceInRange_def)

lemma effective_limit_bounds:
  assumes "1 \<le> maxLen"
  shows "1 \<le> effective_limit maxLen" "effective_limit maxLen \<le> maxLen"
    "10 \<le> maxLen \<Longrightarrow> effective_limit maxLen \<le> maxLen - 5" "10 \<le> maxLen \<Longrightarrow> 5 \<le> effective_limit maxLen"
proof -
  define h where "h = maxLen div 2"
  define m where "m = max (maxLen div 10) 50"
  define b where "b = (if m > h then h else m)"
  have h: "0 \<le> h" "2 * h \<le> maxLen" "maxLen \<le> 2 * h + 1" unfolding h_def using assms by linarith+
  have b: "0 \<le> b" "b \<le> h" "b = h \<or> 50 \<le> b"
    using h unfolding b_def m_def by auto
  have eq: "effective_limit maxLen = max (maxLen - b) h"
    by (simp only: effective_limit_def b_def m_def h_def Let_def)
  show "1 \<le> effective_limit maxLen" "effective_limit maxLen \<le> maxLen"
    "10 \<le> maxLen \<Longrightarrow> effective_limit maxLen \<le> maxLen - 5" "10 \<le> maxLen \<Longrightarrow> 5 \<le> effective_limit maxLen"
    unfolding eq using assms h b by linarith+
qed

lemma natural_end_bounds:
  assumes "1 \<le> maxLen"
  shows "start < natural_end maxLen rs start" "natural_end maxLen rs start \<le> start + effective_limit maxLen"
proof -
  let ?stop = "start + effective_limit maxLen"
  note eff = effective_limit_bounds [OF assms]
  have nl: "findLastNewlineInRange rs start ?stop 200 \<le> ?stop" by (rule find_newline_cases [of rs start ?stop 200]) (use eff in auto)
  have sp: "findLastSpaceInRange rs start ?stop 100 \<le> ?stop" by (rule find_space_cases [of rs start ?stop 100]) (use eff in auto)
  show "start < natural_end maxLen rs start" "natural_end maxLen rs start \<le> start + effective_limit maxLen"
    using nl sp eff by (auto simp: natural_end_def Let_def)
qed

lemma unclosed_loop_spec:
  "unclosed_loop rs i stop b l = r \<Longrightarrow> r = - 1 \<or> b \<and> r = l \<or> (i \<le> r \<and> r + 2 < stop \<and> fence_at rs r)"
proof (induction rs i "stop" b l rule: unclosed_loop.induct)
  case (1 rs i e b l)
  show ?case
  proof (cases "i < e")
    case True
    show ?thesis
    proof (cases "i + 2 < e \<and> fence_at rs i")
      case fence: True
      then have "unclosed_loop rs (i + 3) e (\<not> b) (if \<not> b then i else l) = r"
        using "1.prems" True by (subst (asm) unclosed_loop.simps) simp
      from "1.IH"(1) [OF True fence this] fence show ?thesis by auto
    next
      case nofence: False
      then have "unclosed_loop rs (i + 1) e b l = r"
        using "1.prems" by (subst (asm) unclosed_loop.simps) (simp only: if_P [OF True] if_not_P [OF nofence] if_False)
      from "1.IH"(2) [OF True nofence this] show ?thesis by auto
    qed
  next
    case False
    then show ?thesis using "1.prems" by (subst (asm) unclosed_loop.simps) (auto split: if_splits)
  qed
qed

lemma unclosed_cases:
  "findLastUnclosedCodeBlockInRange rs start stop = u \<Longrightarrow> \<not> u < 0 \<Longrightarrow> start \<le> u \<and> u + 2 < stop \<and> fence_at rs u"
  using unclosed_loop_spec [of rs start "stop" False "- 1" u] by (auto simp: findLastUnclosedCodeBlockInRange_def)

lemma closing_spec:
  "findNextClosingCodeBlockInRange rs i stop = c \<Longrightarrow> c = - 1 \<or> (i + 3 \<le> c \<and> c \<le> stop)"
proof (induction rs i "stop" rule: findNextClosingCodeBlockInRange.induct)
  case (1 rs i e)
  show ?case
  proof (cases "i < e \<and> \<not> (i + 2 < e \<and> fence_at rs i)")
    case True
    then have "findNextClosingCodeBlockInRange rs (i + 1) e = c"
      using "1.prems" by (subst (asm) findNextClosingCodeBlockInRange.simps) (auto split: if_splits)
    from "1.IH" [OF _ _ this] True show ?thesis by auto
  next
    case False
    then show ?thesis
      using "1.prems" by (subst (asm) findNextClosingCodeBlockInRange.simps) (auto split: if_splits)
  qed
qed

lemma newline_from_spec:
  assumes "0 \<le> from"
  shows "findNewlineFrom rs from =
    (if line_feed \<in> set (drop (nat from) rs)
     then from + int (length (takeWhile (\<lambda>r. r \<noteq> line_feed) (drop (nat from) rs))) else - 1)"
  using assms
proof (induction rs "from" rule: findNewlineFrom.induct)
  case (1 rs i)
  show ?case
  proof (cases "i < int (length rs)")
    case True
    then have d: "drop (nat i) rs = rn rs i # drop (nat (i + 1)) rs"
      using "1.prems" by (simp add: rn_def Cons_nth_drop_Suc nat_add_distrib)
    then show ?thesis
      using True "1.IH" [OF True] "1.prems" by (subst findNewlineFrom.simps) (auto simp: d)
  next
    case False
    then show ?thesis by (subst findNewlineFrom.simps) simp
  qed
qed

lemma skip_blanks_ge: "i \<le> skip_blanks rs i"
proof (induction rs i rule: skip_blanks.induct)
  case (1 rs i)
  then show ?case by (subst skip_blanks.simps) auto
qed

section \<open>Headers of code blocks\<close>

text \<open>The header of the block whose fence begins a text.\<close>

definition header_of :: "nat list \<Rightarrow> nat list" where
  "header_of s = rune_trim (if line_feed \<in> set s then takeWhile (\<lambda>r. r \<noteq> line_feed) s else take 3 s)"

definition fence :: "nat list" where "fence = [backtick, backtick, backtick]"

text \<open>Every fence of the text has a header of fewer runes than a bound.\<close>

definition headers_fit :: "int \<Rightarrow> nat list \<Rightarrow> bool" where
  "headers_fit L rs \<longleftrightarrow> (\<forall>i<length rs. take 3 (drop i rs) = fence \<longrightarrow> int (length (header_of (drop i rs))) < L)"

lemma fence_at_take:
  assumes "0 \<le> u" "u + 2 < int (length rs)"
  shows "fence_at rs u \<longleftrightarrow> take 3 (drop (nat u) rs) = fence"
proof -
  obtain n where u: "u = int n" using assms(1) by (metis nonneg_int_cases)
  have n: "n + 2 < length rs" using assms(2) u by simp
  have "nat (int n + 1) = Suc n" "nat (int n + 2) = Suc (Suc n)" by linarith+
  moreover have "take 3 (drop n rs) = [rs ! n, rs ! Suc n, rs ! Suc (Suc n)]"
    using n by (auto simp: list_eq_iff_nth_eq numeral_3_eq_3 less_Suc_eq_0_disj)
  ultimately show ?thesis by (auto simp: fence_at_def rn_def u fence_def)
qed

lemma header_slice:
  assumes "0 \<le> u"
  shows "rune_trim (slice rs u (if findNewlineFrom rs u = - 1 then u + 3 else findNewlineFrom rs u))
       = header_of (drop (nat u) rs)"
proof -
  have "take (length (takeWhile P xs)) xs = takeWhile P xs" for P and xs :: "nat list"
    by (metis takeWhile_eq_take)
  then show ?thesis
    using newline_from_spec [OF assms, of rs] assms by (auto simp: header_of_def slice_def)
qed

lemma dropWhile_parts: "\<exists>w. xs = w @ dropWhile P xs"
  by (metis takeWhile_dropWhile_id)

lemma rune_trim_parts: "\<exists>w1 w2. xs = w1 @ rune_trim xs @ w2"
proof -
  obtain w1 where 1: "xs = w1 @ dropWhile rune_space xs" using dropWhile_parts by blast
  obtain w2 where "rev (dropWhile rune_space xs) = w2 @ dropWhile rune_space (rev (dropWhile rune_space xs))"
    using dropWhile_parts by blast
  then have "dropWhile rune_space xs = rune_trim xs @ rev w2"
    by (metis rev_append rev_rev_ident rune_trim_def)
  with 1 show ?thesis by metis
qed

lemma rune_trim_set: "set (rune_trim xs) \<subseteq> set xs"
  using rune_trim_parts [of xs] by (metis set_append Un_upper1 Un_upper2 order.trans)

lemma rune_trim_length: "length (rune_trim xs) \<le> length xs"
  using rune_trim_parts [of xs] by (metis length_append le_add1 le_add2 le_trans)

lemma rune_trim_head:
  assumes "\<not> rune_space x"
  shows "\<exists>w. x # xs = rune_trim (x # xs) @ w"
proof -
  obtain w where "rev (x # xs) = w @ dropWhile rune_space (rev (x # xs))" using dropWhile_parts by blast
  then have "x # xs = rune_trim (x # xs) @ rev w"
    using assms by (metis dropWhile.simps(2) rev_append rev_rev_ident rune_trim_def)
  then show ?thesis by blast
qed

lemma header_no_newline: "line_feed \<notin> set (header_of s)"
  using rune_trim_set [of "takeWhile (\<lambda>r. r \<noteq> line_feed) s"] rune_trim_set [of "take 3 s"]
  by (auto simp: header_of_def dest: set_takeWhileD in_set_takeD)

lemma header_head:
  assumes "take 3 s = fence"
  shows "\<exists>t. header_of s = backtick # t"
proof -
  have b: "\<not> rune_space backtick" "backtick \<noteq> line_feed"
    by (simp_all add: rune_space_def backtick_def line_feed_def)
  obtain t where s: "s = backtick # backtick # backtick # t"
    using assms by (metis append_Cons append_Nil append_take_drop_id fence_def)
  let ?x = "if line_feed \<in> set s then takeWhile (\<lambda>r. r \<noteq> line_feed) s else take 3 s"
  have "\<exists>x. ?x = backtick # x"
  proof (cases "line_feed \<in> set s")
    case True
    then show ?thesis using b(2) by (simp add: s)
  next
    case False
    then show ?thesis by (simp add: s)
  qed
  then obtain x where x: "?x = backtick # x" by blast
  from rune_trim_head [OF b(1), of x] obtain w where w: "backtick # x = rune_trim (backtick # x) @ w" by blast
  show ?thesis
  proof (cases "rune_trim (backtick # x)")
    case Nil
    have "dropWhile rune_space (rev (backtick # x)) = []" using Nil b(1) by (simp add: rune_trim_def)
    then show ?thesis using b(1) by (auto simp: dropWhile_eq_Nil_conv)
  next
    case (Cons y ys)
    with w show ?thesis unfolding header_of_def x by simp
  qed
qed

lemma headers_fit_rest:
  assumes fit: "headers_fit L rs" and L: "3 < L" and u: "take 3 (drop u rs) = fence" "u < length rs"
  defines "h \<equiv> header_of (drop u rs)"
  shows "headers_fit L (rune_trim (h @ line_feed # drop k rs))"
proof -
  define X where "X = h @ line_feed # drop k rs"
  define r where "r = rune_trim X"
  have hL: "int (length h) < L" using fit u by (simp add: headers_fit_def h_def)
  have hn: "line_feed \<notin> set h" by (simp add: h_def header_no_newline)
  obtain t where t: "h = backtick # t" using header_head [OF u(1)] by (auto simp: h_def)
  have "\<not> rune_space backtick" by (simp add: rune_space_def backtick_def)
  from rune_trim_head [OF this, of "t @ line_feed # drop k rs"] obtain w where w: "X = r @ w"
    by (auto simp: X_def r_def t)
  have "int (length (header_of s)) < L" if i: "i < length r" "take 3 (drop i r) = fence" and s: "s = drop i r" for i s
  proof (cases "line_feed \<in> set s")
    case False
    then have "length (header_of s) \<le> 3" using rune_trim_length [of "take 3 s"] by (simp add: header_of_def)
    then show ?thesis using L by linarith
  next
    case True
    have sw: "s @ w = drop i X" using i w by (simp add: s)
    have tw: "takeWhile (\<lambda>r. r \<noteq> line_feed) s = takeWhile (\<lambda>r. r \<noteq> line_feed) (s @ w)"
      using True by (simp add: takeWhile_append1)
    have "length s \<ge> 3" using i(2) s by (metis fence_def length_take length_Cons list.size(3) min.cobounded1 numeral_3_eq_3)
    show ?thesis
    proof (cases "i \<le> length h")
      case left: True
      have "s @ w = drop i h @ line_feed # drop k rs" using left by (simp add: sw X_def)
      moreover have "takeWhile (\<lambda>r. r \<noteq> line_feed) (drop i h @ line_feed # drop k rs) = drop i h"
        using hn by (subst takeWhile_append2) (auto dest: in_set_dropD)
      ultimately have "header_of s = rune_trim (drop i h)" using True tw by (simp add: header_of_def)
      then show ?thesis using rune_trim_length [of "drop i h"] hL by simp
    next
      case right: False
      define j where "j = i - length h - 1 + k"
      have "drop i X = drop j rs"
        using right by (simp add: X_def j_def drop_Cons' add.commute)
      then have sj: "s @ w = drop j rs" using sw by simp
      then have "take 3 (drop j rs) = fence"
        using i(2) s \<open>3 \<le> length s\<close> by (metis append_Nil2 diff_is_0_eq take0 take_append)
      moreover have "j < length rs"
        using sj \<open>3 \<le> length s\<close> by (metis drop_all append_is_Nil_conv leI list.size(3) not_numeral_le_zero)
      ultimately have "int (length (header_of (drop j rs))) < L" using fit by (simp add: headers_fit_def)
      moreover have "header_of (drop j rs) = header_of s"
        using True tw unfolding sj [symmetric] by (simp add: header_of_def)
      ultimately show ?thesis by simp
    qed
  qed
  then show ?thesis by (simp add: headers_fit_def r_def X_def)
qed

section \<open>A turn makes progress\<close>

lemma slice_length: "length (slice rs a b) \<le> nat (b - a)"
  by (simp add: slice_def)

lemma trim_blanks_length: "length (trim_blanks rs) \<le> length rs"
  by (simp add: trim_blanks_def) (metis length_dropWhile_le length_rev)

text \<open>The cases of a turn that is not the last one.\<close>

text \<open>The last line end before the inner limit is not before the natural end, if it is after the header.\<close>

lemma better_end_ge:
  assumes "10 \<le> maxLen" and b: "findLastNewlineInRange rs start (start + maxLen - 5) 200 = b" and "start < b"
  shows "natural_end maxLen rs start \<le> b"
proof (rule ccontr)
  assume less: "\<not> natural_end maxLen rs start \<le> b"
  let ?stop = "start + effective_limit maxLen"
  have eff: "effective_limit maxLen \<le> maxLen - 5" using effective_limit_bounds(3) [of maxLen] assms(1) by simp
  have ne: "natural_end maxLen rs start \<le> ?stop" using natural_end_bounds(2) [of maxLen] assms(1) by simp
  have bb: "max (start + maxLen - 5 - 200) start \<le> b" "b < start + maxLen - 5" "rn rs b = line_feed"
      "\<And>k. b < k \<Longrightarrow> k < start + maxLen - 5 \<Longrightarrow> rn rs k \<noteq> line_feed"
    by (rule find_newline_cases [of rs start "start + maxLen - 5" 200]; use b assms(3) in auto)+
  have win: "max (?stop - 200) start \<le> b" "b < ?stop" using bb(1) eff less ne by auto
  show False
  proof (rule find_newline_cases [of rs start ?stop 200])
    assume "\<And>k. max (?stop - 200) start \<le> k \<Longrightarrow> k < ?stop \<Longrightarrow> rn rs k \<noteq> line_feed"
    with win bb(3) show False by blast
  next
    fix j assume j: "findLastNewlineInRange rs start ?stop 200 = j" "j < ?stop" "rn rs j = line_feed"
      "\<And>k. j < k \<Longrightarrow> k < ?stop \<Longrightarrow> rn rs k \<noteq> line_feed"
    have "b \<le> j" using j(4) [of b] win(2) bb(3) by force
    moreover have "j \<le> b" using bb(4) [of j] j(2,3) eff by force
    ultimately have "natural_end maxLen rs start = b"
      using j(1) assms(3) by (simp add: natural_end_def Let_def)
    with less show False by simp
  qed
qed

lemma split_turn_cases:
  assumes big: "\<not> int (length rs) - start \<le> maxLen" "1 \<le> maxLen" "0 \<le> start"
  obtains (plain) msgEnd where "split_turn maxLen rs start = plain_turn maxLen rs start msgEnd"
      "start < msgEnd" "msgEnd - start \<le> maxLen"
    | (inside) u splitAt where
      "split_turn maxLen rs start = inside_turn rs (header_of (drop (nat u) rs)) start splitAt"
      "start \<le> u" "u + 2 < int (length rs)" "take 3 (drop (nat u) rs) = fence"
      "splitAt \<le> start + maxLen - 5"
      "splitAt = start + maxLen - 5
       \<or> (10 \<le> maxLen \<longrightarrow> start + int (length (header_of (drop (nat u) rs))) + 20 < splitAt)"
proof -
  define e where "e = natural_end maxLen rs start"
  define u where "u = findLastUnclosedCodeBlockInRange rs start e"
  define c where "c = findNextClosingCodeBlockInRange rs e (int (length rs))"
  define he where "he = findNewlineFrom rs u"
  define h where "h = header_of (drop (nat u) rs)"
  define hi where "hi = (if he \<noteq> - 1 then he else u + int (length h))"
  define b where "b = findLastNewlineInRange rs start (start + maxLen - 5) 200"
  define n0 where "n0 = findLastNewlineInRange rs start u 200"
  define n where "n = (if n0 \<le> start then findLastSpaceInRange rs start u 100 else n0)"
  have e: "start < e" "e \<le> start + maxLen" "e < int (length rs)"
    using natural_end_bounds [OF big(2), where start = start and rs = rs] effective_limit_bounds(2) [OF big(2)] big(1)
    unfolding e_def by linarith+
  show thesis
  proof (cases "u < 0")
    case True
    then have "split_turn maxLen rs start = plain_turn maxLen rs start e"
      using big(1) by (simp add: split_turn_def Let_def e_def [symmetric] u_def [symmetric])
    with e show thesis by (intro plain) auto
  next
    case False
    then have u: "start \<le> u" "u + 2 < e" "fence_at rs u" using unclosed_cases [OF u_def [symmetric]] by simp_all
    have f: "take 3 (drop (nat u) rs) = fence" using fence_at_take [of u rs] u big(3) e(3) by simp
    have hs: "rune_trim (slice rs u (if he = - 1 then u + 3 else he)) = h"
      unfolding he_def h_def by (rule header_slice) (use u(1) big(3) in linarith)
    have hi: "u + int (length h) \<le> hi"
    proof (cases "he = - 1")
      case nf: False
      then have "he = u + int (length (takeWhile (\<lambda>r. r \<noteq> line_feed) (drop (nat u) rs)))"
        and "line_feed \<in> set (drop (nat u) rs)"
        using newline_from_spec [of u rs] u(1) big(3) by (auto simp: he_def split: if_splits)
      moreover from this have "length h \<le> length (takeWhile (\<lambda>r. r \<noteq> line_feed) (drop (nat u) rs))"
        using rune_trim_length by (simp add: h_def header_of_def)
      ultimately show ?thesis using nf by (simp add: hi_def)
    qed (simp add: hi_def)
    have inner: "min (start + maxLen - 5) (int (length rs)) = start + maxLen - 5" using big(1) by simp
    have eq: "split_turn maxLen rs start =
        (if c > 0 \<and> c - start \<le> maxLen then plain_turn maxLen rs start c
         else if e > hi + 20 then inside_turn rs h start (if b > hi then b else start + maxLen - 5)
         else if n > start then plain_turn maxLen rs start n
         else if u - start > 20 then plain_turn maxLen rs start u
         else inside_turn rs h start (start + maxLen - 5))"
      using big(1) False e(3) unfolding split_turn_def Let_def e_def [symmetric] u_def [symmetric] c_def [symmetric]
        he_def [symmetric] hs inner hi_def b_def n_def n0_def by simp
    consider (close) "c > 0" "c - start \<le> maxLen"
      | (better) "\<not> (c > 0 \<and> c - start \<le> maxLen)" "e > hi + 20" "b > hi"
      | (limit) "\<not> (c > 0 \<and> c - start \<le> maxLen)" "split_turn maxLen rs start = inside_turn rs h start (start + maxLen - 5)"
      | (brk) "\<not> (c > 0 \<and> c - start \<le> maxLen)" "\<not> e > hi + 20" "n > start"
      | (before) "\<not> (c > 0 \<and> c - start \<le> maxLen)" "\<not> e > hi + 20" "\<not> n > start" "u - start > 20"
      using eq by (cases "c > 0 \<and> c - start \<le> maxLen"; cases "e > hi + 20"; cases "b > hi"; cases "n > start";
          cases "u - start > 20") auto
    then show thesis
    proof cases
      case close
      then show thesis using eq closing_spec [OF c_def [symmetric]] e(1) by (intro plain [of c]) auto
    next
      case better
      have bl: "b < start + maxLen - 5 \<or> b = start - 1"
        by (rule find_newline_cases [of rs start "start + maxLen - 5" 200]) (auto simp: b_def)
      have "start + int (length h) + 20 < b" if "10 \<le> maxLen"
        using better_end_ge [OF that b_def [symmetric]] better hi u(1) unfolding e_def [symmetric] by linarith
      then show thesis using eq better bl u f e(3) hi by (intro inside [of u b]) (auto simp: h_def)
    next
      case limit
      then show thesis using u f e(3) by (intro inside [of u "start + maxLen - 5"]) (auto simp: h_def)
    next
      case brk
      have "n < u \<or> n \<le> start"
        by (rule find_newline_cases [of rs start u 200]; rule find_space_cases [of rs start u 100])
          (auto simp: n_def n0_def)
      then show thesis using eq brk u e by (intro plain [of n]) auto
    next
      case before
      then show thesis using eq u e by (intro plain [of u]) auto
    qed
  qed
qed

lemma plain_turn_eq:
  "start < msgEnd \<Longrightarrow> plain_turn maxLen rs start msgEnd = NextTurn (slice rs start msgEnd) rs (skip_blanks rs msgEnd)"
  by (simp add: plain_turn_def)

lemma turn_bounds:
  assumes "1 \<le> maxLen" "0 \<le> start"
  shows "split_turn maxLen rs start = FinalChunk c \<Longrightarrow> int (length c) \<le> maxLen"
    "split_turn maxLen rs start = NextTurn c rs' start' \<Longrightarrow> int (length c) \<le> maxLen \<and> 0 \<le> start'"
proof -
  have "case split_turn maxLen rs start of FinalChunk c \<Rightarrow> int (length c) \<le> maxLen
      | NextTurn c rs' start' \<Rightarrow> int (length c) \<le> maxLen \<and> 0 \<le> start' | SlicePanic \<Rightarrow> True"
  proof (cases "int (length rs) - start \<le> maxLen")
    case True
    then show ?thesis using slice_length [of rs start "int (length rs)"] assms by (simp add: split_turn_def)
  next
    case False
    show ?thesis
    proof (rule split_turn_cases [OF False assms])
      fix e assume e: "split_turn maxLen rs start = plain_turn maxLen rs start e" "start < e" "e - start \<le> maxLen"
      then show ?thesis using slice_length [of rs start e] skip_blanks_ge [of e rs] assms by (simp add: plain_turn_eq)
    next
      fix u k assume k: "split_turn maxLen rs start = inside_turn rs (header_of (drop (nat u) rs)) start k"
        "k \<le> start + maxLen - 5"
      have "length (trim_blanks (slice rs start k)) \<le> nat (k - start)"
        using trim_blanks_length slice_length le_trans by blast
      then show ?thesis using k by (auto simp: inside_turn_def closing_fence_def)
    qed
  qed
  then show "split_turn maxLen rs start = FinalChunk c \<Longrightarrow> int (length c) \<le> maxLen"
    "split_turn maxLen rs start = NextTurn c rs' start' \<Longrightarrow> int (length c) \<le> maxLen \<and> 0 \<le> start'"
    by simp_all
qed

lemma turn_progress:
  assumes "10 \<le> maxLen" "0 \<le> start" and fit: "headers_fit (maxLen - 6) rs"
  shows "split_turn maxLen rs start \<noteq> SlicePanic"
    "split_turn maxLen rs start = NextTurn c rs' start' \<Longrightarrow>
       int (length rs') - start' < int (length rs) - start \<and> headers_fit (maxLen - 6) rs'"
proof -
  have "case split_turn maxLen rs start of FinalChunk c \<Rightarrow> True | SlicePanic \<Rightarrow> False
      | NextTurn c rs' start' \<Rightarrow> int (length rs') - start' < int (length rs) - start \<and> headers_fit (maxLen - 6) rs'"
  proof (cases "int (length rs) - start \<le> maxLen")
    case True
    then show ?thesis by (simp add: split_turn_def)
  next
    case False
    have m: "1 \<le> maxLen" using assms(1) by simp
    show ?thesis
    proof (rule split_turn_cases [OF False m assms(2)])
      fix e assume "split_turn maxLen rs start = plain_turn maxLen rs start e" "start < e"
      then show ?thesis using skip_blanks_ge [of e rs] fit by (simp add: plain_turn_eq)
    next
      fix u k
      assume k: "split_turn maxLen rs start = inside_turn rs (header_of (drop (nat u) rs)) start k"
        and u: "start \<le> u" "u + 2 < int (length rs)" "take 3 (drop (nat u) rs) = fence" and ks: "k \<le> start + maxLen - 5"
        and far: "k = start + maxLen - 5 \<or> (10 \<le> maxLen \<longrightarrow> start + int (length (header_of (drop (nat u) rs))) + 20 < k)"
      let ?h = "header_of (drop (nat u) rs)"
      have ul: "nat u < length rs" using u assms(2) by linarith
      have "int (length ?h) < maxLen - 6" using fit u(3) ul by (simp add: headers_fit_def)
      then have prog: "start + int (length ?h) + 1 < k" using far assms(1) by linarith
      have "length (rune_trim (?h @ line_feed # drop (nat k) rs)) \<le> length ?h + 1 + (length rs - nat k)"
        using rune_trim_length [of "?h @ line_feed # drop (nat k) rs"] by simp
      moreover have "int (length rs - nat k) = int (length rs) - k"
        using prog ks False assms(1,2) by linarith
      ultimately have "int (length (rune_trim (?h @ line_feed # drop (nat k) rs))) < int (length rs) - start"
        using prog by linarith
      moreover have "headers_fit (maxLen - 6) (rune_trim (?h @ line_feed # drop (nat k) rs))"
        by (rule headers_fit_rest [OF fit _ u(3) ul]) (use assms(1) in simp)
      ultimately show ?thesis using k prog by (simp add: inside_turn_def)
    qed
  qed
  then show "split_turn maxLen rs start \<noteq> SlicePanic"
    "split_turn maxLen rs start = NextTurn c rs' start' \<Longrightarrow>
       int (length rs') - start' < int (length rs) - start \<and> headers_fit (maxLen - 6) rs'"
    by auto
qed

lemma split_loop_returns:
  assumes "10 \<le> maxLen" "0 \<le> start" "headers_fit (maxLen - 6) rs"
  shows "\<exists>cs. split_loop maxLen rs start = Some (Some cs) \<and> (\<forall>c\<in>set cs. int (length c) \<le> maxLen)"
  using assms(2,3)
proof (induction "nat (int (length rs) - start)" arbitrary: rs start rule: less_induct)
  case less
  have m: "1 \<le> maxLen" using assms(1) by simp
  show ?case
  proof (cases "start < int (length rs)")
    case False
    then show ?thesis by (subst split_loop.simps) simp
  next
    case True
    show ?thesis
    proof (cases "split_turn maxLen rs start")
      case (FinalChunk c)
      then show ?thesis using True turn_bounds(1) [OF m less.prems(1) FinalChunk] by (subst split_loop.simps) simp
    next
      case (NextTurn c rs' start')
      note p = turn_progress(2) [OF assms(1) less.prems NextTurn] and b = turn_bounds(2) [OF m less.prems(1) NextTurn]
      have "nat (int (length rs') - start') < nat (int (length rs) - start)" using p True by linarith
      from less.hyps [OF this] p b obtain cs where "split_loop maxLen rs' start' = Some (Some cs)"
        "\<forall>c\<in>set cs. int (length c) \<le> maxLen" by blast
      then show ?thesis using True NextTurn b by (subst split_loop.simps) simp
    qed (use turn_progress(1) [OF assms(1) less.prems] in simp)
  qed
qed

section \<open>Text without code blocks\<close>

lemma skip_blanks_filter:
  assumes "0 \<le> i"
  shows "filter (\<lambda>r. \<not> blank r) (drop (nat (skip_blanks rs i)) rs) = filter (\<lambda>r. \<not> blank r) (drop (nat i) rs)"
  using assms
proof (induction rs i rule: skip_blanks.induct)
  case (1 rs i)
  show ?case
  proof (cases "i < int (length rs) \<and> blank (rn rs i)")
    case True
    then have "nat i < length rs" using "1.prems" by linarith
    then have "drop (nat i) rs = rn rs i # drop (nat (i + 1)) rs"
      using "1.prems" by (simp add: rn_def Cons_nth_drop_Suc nat_add_distrib)
    moreover have "skip_blanks rs i = skip_blanks rs (i + 1)" using True by (subst skip_blanks.simps) simp
    ultimately show ?thesis using 1 True by simp
  next
    case False
    then show ?thesis by (subst skip_blanks.simps) auto
  qed
qed

lemma split_loop_keeps:
  assumes "1 \<le> maxLen" "0 \<le> start" and nf: "\<And>i. take 3 (drop i rs) \<noteq> fence"
    and "split_loop maxLen rs start = Some (Some cs)"
  shows "filter (\<lambda>r. \<not> blank r) (concat cs) = filter (\<lambda>r. \<not> blank r) (drop (nat start) rs)"
  using assms(2,4)
proof (induction "nat (int (length rs) - start)" arbitrary: start cs rule: less_induct)
  case less
  show ?case
  proof (cases "start < int (length rs)")
    case False
    then have "cs = []" using less.prems(2) by (subst (asm) split_loop.simps) simp
    then show ?thesis using False by simp
  next
    case True
    show ?thesis
    proof (cases "int (length rs) - start \<le> maxLen")
      case small: True
      then have "cs = [slice rs start (int (length rs))]"
        using less.prems(2) True by (subst (asm) split_loop.simps) (simp add: split_turn_def)
      then show ?thesis using True less.prems(1) by (simp add: slice_def nat_diff_distrib)
    next
      case big: False
      show ?thesis
      proof (rule split_turn_cases [OF big assms(1) less.prems(1)])
        fix e assume e: "split_turn maxLen rs start = plain_turn maxLen rs start e" "start < e"
        let ?st = "skip_blanks rs e"
        have st: "e \<le> ?st" by (rule skip_blanks_ge)
        obtain cs' where cs: "cs = slice rs start e # cs'" and rec: "split_loop maxLen rs ?st = Some (Some cs')"
          using less.prems(2) True e by (subst (asm) split_loop.simps)
            (auto simp: plain_turn_eq split: Option.bind_splits)
        have "nat (int (length rs) - ?st) < nat (int (length rs) - start)" using st e(2) True by linarith
        from less.hyps [OF this _ rec] st e(2) less.prems(1)
        have "filter (\<lambda>r. \<not> blank r) (concat cs') = filter (\<lambda>r. \<not> blank r) (drop (nat ?st) rs)" by simp
        also have "\<dots> = filter (\<lambda>r. \<not> blank r) (drop (nat e) rs)"
          by (rule skip_blanks_filter) (use e(2) less.prems(1) in simp)
        finally have "filter (\<lambda>r. \<not> blank r) (concat cs) = filter (\<lambda>r. \<not> blank r) (slice rs start e @ drop (nat e) rs)"
          by (simp add: cs)
        moreover have "slice rs start e @ drop (nat e) rs = drop (nat start) rs"
        proof -
          have "nat e = nat (e - start) + nat start" using e(2) less.prems(1) by linarith
          then show ?thesis unfolding slice_def by (metis append_take_drop_id drop_drop)
        qed
        ultimately show ?thesis by simp
      next
        fix u :: int assume "take 3 (drop (nat u) rs) = fence"
        with nf show ?thesis by blast
      qed
    qed
  qed
qed

section \<open>Runes of the chunks\<close>

lemma encode_rune_bytes: "b \<in> set (encode_rune r) \<Longrightarrow> b < 256"
proof -
  define q where "q = (if scalar r then r else rune_error)"
  have q: "q < 1114112" by (auto simp: q_def scalar_def rune_error_def)
  have "q div 262144 \<le> 4" "q < 2048 \<Longrightarrow> q div 64 < 32" "q < 65536 \<Longrightarrow> q div 4096 < 16" using q by linarith+
  then show "b \<in> set (encode_rune r) \<Longrightarrow> b < 256"
    unfolding encode_rune_def q_def [symmetric] Let_def by (auto split: if_splits)
qed

lemma rune_count_go_string: "rune_count (go_string rs) = length rs"
proof -
  let ?fix = "\<lambda>r. if scalar r then r else rune_error"
  have fx: "scalar (?fix r)" for r by (simp add: scalar_def rune_error_def)
  have "encode_rune r = encode_rune (?fix r)" for r using fx by (simp add: encode_rune_def)
  then have enc: "concat (map encode_rune rs) = concat (map encode_rune (map ?fix rs))" by (simp add: comp_def)
  have "map byte_of (go_string rs) = concat (map encode_rune rs)"
  proof -
    have id: "map byte_of (map char_of bs) = bs" if "\<forall>b\<in>set bs. b < 256" for bs
      using that by (induction bs) (simp_all add: byte_of_def)
    have "\<forall>b\<in>set (concat (map encode_rune rs)). b < 256" using encode_rune_bytes by auto
    from id [OF this] show ?thesis by (simp only: go_string_def)
  qed
  then have "runes (go_string rs) = map ?fix rs"
    unfolding runes_def enc
    by (simp only:) (rule rune_list_round_trip, auto simp: scalar_def rune_error_def)
  then show ?thesis by (simp add: rune_count_def)
qed

section \<open>A text that is never split\<close>

text \<open>A fence, a header line without blanks and backticks, a line end, and a rest without backticks.\<close>

definition long_header :: "int \<Rightarrow> nat list \<Rightarrow> bool" where
  "long_header maxLen rs \<longleftrightarrow> (\<exists>y t. rs = fence @ y @ line_feed # t \<and> maxLen \<le> int (length y) + 3
     \<and> (\<forall>r\<in>set y. r \<noteq> backtick \<and> \<not> rune_space r) \<and> backtick \<notin> set t \<and> t \<noteq> [] \<and> \<not> rune_space (last t))"

lemma rune_trim_id:
  assumes "xs \<noteq> []" "\<not> rune_space (hd xs)" "\<not> rune_space (last xs)"
  shows "rune_trim xs = xs"
proof -
  have "dropWhile rune_space xs = xs" using assms by (cases xs) auto
  moreover have "dropWhile rune_space (rev xs) = rev xs"
    using assms(1,3) by (cases xs rule: rev_cases) auto
  ultimately show ?thesis by (simp add: rune_trim_def)
qed

lemma unclosed_none:
  "(\<And>k. i \<le> k \<Longrightarrow> k < e \<Longrightarrow> \<not> fence_at rs k) \<Longrightarrow> unclosed_loop rs i e b l = (if b then l else - 1)"
proof (induction rs i e b l rule: unclosed_loop.induct)
  case (1 rs i e b l)
  show ?case
  proof (cases "i < e")
    case True
    then have "\<not> (i + 2 < e \<and> fence_at rs i)" using "1.prems" [of i] by simp
    with True "1.IH"(2) [OF True this] "1.prems" show ?thesis
      by (subst unclosed_loop.simps) auto
  qed (subst unclosed_loop.simps, simp)
qed

lemma closing_none:
  "(\<And>k. i \<le> k \<Longrightarrow> k < e \<Longrightarrow> \<not> fence_at rs k) \<Longrightarrow> findNextClosingCodeBlockInRange rs i e = - 1"
proof (induction rs i e rule: findNextClosingCodeBlockInRange.induct)
  case (1 rs i e)
  show ?case
  proof (cases "i < e")
    case True
    then have "\<not> (i + 2 < e \<and> fence_at rs i)" using "1.prems" [of i] by simp
    with True "1.IH" [OF True this] "1.prems" show ?thesis
      by (subst findNextClosingCodeBlockInRange.simps) auto
  qed (subst findNextClosingCodeBlockInRange.simps, simp)
qed

lemma long_header_turn:
  assumes m: "10 \<le> maxLen" and bad: "long_header maxLen rs"
  shows "\<exists>c rs'. split_turn maxLen rs 0 = NextTurn c rs' 0 \<and> long_header maxLen rs' \<and> rs \<noteq> []"
proof -
  obtain y t where rs: "rs = fence @ y @ line_feed # t" and ly: "maxLen \<le> int (length y) + 3"
    and y: "\<forall>r\<in>set y. r \<noteq> backtick \<and> \<not> rune_space r" and t: "backtick \<notin> set t" "t \<noteq> []" "\<not> rune_space (last t)"
    using bad unfolding long_header_def by blast
  have sp: "\<not> rune_space backtick" "rune_space 10" "rune_space 32" "rune_space 9" "backtick \<noteq> line_feed"
    by (simp_all add: rune_space_def backtick_def line_feed_def)
  have head: "rn rs k \<noteq> line_feed \<and> rn rs k \<noteq> 32 \<and> rn rs k \<noteq> 9" if k: "0 \<le> k" "k < int (length y) + 3" for k
  proof -
    have n: "nat k < length (fence @ y)" using k by (simp add: fence_def)
    have "rn rs k = ((fence @ y) @ line_feed # t) ! nat k" by (simp add: rn_def rs)
    also have "\<dots> = (fence @ y) ! nat k" using n by (subst nth_append) (simp only: if_True)
    finally have "rn rs k \<in> set (fence @ y)" using n by (metis nth_mem)
    then show ?thesis using y sp by (auto simp: fence_def line_feed_def)
  qed
  have tail: "\<not> fence_at rs k" if k: "3 \<le> k" "k < int (length rs)" for k
  proof -
    have "nat k < length rs" "3 \<le> nat k" using k by linarith+
    then have "rn rs k = drop 3 rs ! (nat k - 3)" "nat k - 3 < length (drop 3 rs)" by (simp_all add: rn_def)
    then have "rn rs k \<in> set (drop 3 rs)" by (metis nth_mem)
    then show ?thesis using y t sp by (auto simp: rs fence_def fence_at_def)
  qed
  define e where "e = effective_limit maxLen"
  have e: "5 \<le> e" "e \<le> maxLen - 5" using effective_limit_bounds(3,4) [of maxLen] m by (simp_all add: e_def)
  have nl: "findLastNewlineInRange rs 0 k 200 = - 1" if "k \<le> int (length y) + 3" for k
    by (rule find_newline_cases [of rs 0 k 200]) (use head that in fastforce)+
  have spc: "findLastSpaceInRange rs 0 k 100 = - 1" if "k \<le> int (length y) + 3" for k
    by (rule find_space_cases [of rs 0 k 100]) (use head that in fastforce)+
  have ne: "natural_end maxLen rs 0 = e"
    using nl [of e] spc [of e] e ly by (simp add: natural_end_def Let_def e_def)
  have f0: "fence_at rs 0" by (simp add: rs fence_def fence_at_def rn_def numeral_2_eq_2)
  have u: "findLastUnclosedCodeBlockInRange rs 0 e = 0"
  proof -
    have "unclosed_loop rs 0 e False (- 1) = unclosed_loop rs 3 e True 0"
      using e(1) f0 by (subst unclosed_loop.simps) simp
    also have "\<dots> = 0" using tail e(2) ly by (subst unclosed_none) (auto simp: rs)
    finally show ?thesis by (simp add: findLastUnclosedCodeBlockInRange_def)
  qed
  have c: "findNextClosingCodeBlockInRange rs e (int (length rs)) = - 1"
    using tail e(1) by (intro closing_none) auto
  have nlf: "line_feed \<notin> set (fence @ y)" using y sp by (auto simp: fence_def line_feed_def)
  have tw: "takeWhile (\<lambda>r. r \<noteq> line_feed) rs = fence @ y"
    using nlf unfolding rs append.assoc [symmetric] by (subst takeWhile_append2) auto
  have he: "findNewlineFrom rs 0 = 3 + int (length y)"
    using newline_from_spec [of 0 rs] by (simp add: tw) (simp add: rs fence_def)
  have trim_y: "rune_trim (fence @ y) = fence @ y"
    using y sp by (intro rune_trim_id) (auto simp: fence_def last_append)
  have header: "rune_trim (slice rs 0 (3 + int (length y))) = fence @ y"
  proof -
    have "nat (3 + int (length y)) = length (fence @ y)" by (simp add: fence_def)
    then have "slice rs 0 (3 + int (length y)) = fence @ y" by (simp add: slice_def rs del: append_assoc)
    with trim_y show ?thesis by simp
  qed
  have len: "int (length rs) = int (length y) + 4 + int (length t)" by (simp add: rs fence_def)
  have big: "\<not> int (length rs) - 0 \<le> maxLen" using len ly by simp
  define k where "k = maxLen - 5"
  have "split_turn maxLen rs 0 = inside_turn rs (fence @ y) 0 k"
    using big e ly len unfolding split_turn_def Let_def ne u c he
    by (simp add: header nl spc k_def)
  moreover define t' where "t' = drop (nat k - 3) y @ line_feed # t"
  have "drop (nat k) rs = t'"
    using e ly by (simp add: rs fence_def k_def t'_def numeral_3_eq_3 drop_Cons' nat_diff_distrib)
  moreover have "rune_trim ((fence @ y) @ line_feed # t') = fence @ y @ line_feed # t'"
    using t sp by (subst rune_trim_id) (auto simp: fence_def t'_def)
  ultimately have turn: "split_turn maxLen rs 0 = NextTurn (trim_blanks (slice rs 0 k) @ closing_fence)
      (fence @ y @ line_feed # t') 0"
    using e by (simp add: inside_turn_def k_def)
  have "long_header maxLen (fence @ y @ line_feed # t')"
    unfolding long_header_def using ly y t sp
    by (intro exI [of _ y] exI [of _ t']) (auto simp: t'_def dest: in_set_dropD)
  with turn show ?thesis using rs by (auto simp: fence_def)
qed

lemma split_loop_diverges:
  assumes "10 \<le> maxLen" "long_header maxLen rs"
  shows "split_loop maxLen rs 0 = None"
proof (rule ccontr)
  assume "split_loop maxLen rs 0 \<noteq> None"
  then obtain y where "split_loop maxLen rs 0 = Some y" by blast
  then have "\<not> (10 \<le> maxLen \<and> (0::int) = 0 \<and> long_header maxLen rs)"
  proof (rule split_loop.raw_induct
      [where P = "\<lambda>m r st y. \<not> (10 \<le> m \<and> st = 0 \<and> long_header m r)", rotated])
    fix f maxLen rs start y
    assume ih: "\<And>maxLen rs start y. f maxLen rs start = Some y \<Longrightarrow> \<not> (10 \<le> maxLen \<and> start = 0 \<and> long_header maxLen rs)"
      and body: "(if \<not> start < int (length rs) then Some (Some [])
        else case split_turn maxLen rs start of FinalChunk c \<Rightarrow> Some (Some [c])
           | NextTurn c rs' start' \<Rightarrow> Option.bind (f maxLen rs' start') (\<lambda>r. Some (map_option ((#) c) r))
           | SlicePanic \<Rightarrow> Some None) = Some y"
    show "\<not> (10 \<le> maxLen \<and> start = 0 \<and> long_header maxLen rs)"
    proof
      assume a: "10 \<le> maxLen \<and> start = 0 \<and> long_header maxLen rs"
      from long_header_turn [of maxLen rs] a obtain c rs' where
        "split_turn maxLen rs 0 = NextTurn c rs' 0" "long_header maxLen rs'" "rs \<noteq> []" by blast
      with body a ih [of maxLen rs' 0] show False by (auto split: Option.bind_splits)
    qed
  qed
  with assms show False by blast
qed

section \<open>Properties\<close>

text \<open>
  Claim C38. Splitting returns when the header of every code block is shorter than the channel's limit
  less six, every message then has at most the allowed number of runes, and in a text without code
  fences no rune other than a blank is lost or moved. It never returns, whatever the limit, for a text that
  begins with a fence and a header line as long as the limit: closing the block and repeating the
  header brings the whole header back each time.
\<close>

theorem split_message_termination:
  assumes "10 \<le> maxLen"
  shows "(headers_fit (maxLen - 6) (runes content) \<longrightarrow>
      (\<exists>cs. splitMessage content maxLen = Some (Some (map go_string cs))
         \<and> (\<forall>m\<in>set (map go_string cs). int (rune_count m) \<le> maxLen)
         \<and> ((\<forall>i. take 3 (drop i (runes content)) \<noteq> fence) \<longrightarrow>
              filter (\<lambda>r. \<not> blank r) (concat cs) = filter (\<lambda>r. \<not> blank r) (runes content))))
    \<and> (long_header maxLen (runes content) \<longrightarrow> splitMessage content maxLen = None)"
proof (intro conjI impI)
  assume "headers_fit (maxLen - 6) (runes content)"
  from split_loop_returns [OF assms _ this, of 0] obtain cs where
    cs: "split_loop maxLen (runes content) 0 = Some (Some cs)" "\<forall>c\<in>set cs. int (length c) \<le> maxLen" by auto
  have "filter (\<lambda>r. \<not> blank r) (concat cs) = filter (\<lambda>r. \<not> blank r) (runes content)"
    if "\<forall>i. take 3 (drop i (runes content)) \<noteq> fence"
    using split_loop_keeps [OF _ _ _ cs(1)] that assms by simp
  then show "\<exists>cs. splitMessage content maxLen = Some (Some (map go_string cs))
         \<and> (\<forall>m\<in>set (map go_string cs). int (rune_count m) \<le> maxLen)
         \<and> ((\<forall>i. take 3 (drop i (runes content)) \<noteq> fence) \<longrightarrow>
              filter (\<lambda>r. \<not> blank r) (concat cs) = filter (\<lambda>r. \<not> blank r) (runes content))"
    using cs assms by (intro exI [of _ cs]) (simp add: splitMessage_def rune_count_go_string)
next
  assume "long_header maxLen (runes content)"
  from split_loop_diverges [OF assms this] show "splitMessage content maxLen = None"
    using assms by (simp add: splitMessage_def)
qed

theorem split_message_termination_witness:
  "(\<exists>cs. splitMessage ''hello world, hello'' 10 = Some (Some (map go_string cs))
      \<and> filter (\<lambda>r. \<not> blank r) (concat cs) = filter (\<lambda>r. \<not> blank r) (runes ''hello world, hello''))
   \<and> splitMessage (''```xxxxxxxx'' @ [CHR 0x0A] @ ''y'') 10 = None"
proof -
  have r: "runes s = map byte_of s" if "\<forall>c\<in>set s. byte_of c < 128" for s
    using that by (simp add: runes_def rune_list_ascii)
  have 1: "runes ''hello world, hello'' = [104,101,108,108,111,32,119,111,114,108,100,44,32,104,101,108,108,111]"
    by (subst r) (simp_all add: byte_of_def)
  have nf: "take 3 (drop i (runes ''hello world, hello'')) \<noteq> fence" for i
  proof
    assume "take 3 (drop i (runes ''hello world, hello'')) = fence"
    then have "backtick \<in> set (runes ''hello world, hello'')"
      by (metis fence_def in_set_dropD in_set_takeD list.set_intros(1))
    then show False by (simp add: 1 backtick_def)
  qed
  then have "headers_fit (10 - 6) (runes ''hello world, hello'')" by (simp add: headers_fit_def)
  moreover have "runes (''```xxxxxxxx'' @ [CHR 0x0A] @ ''y'') = fence @ replicate 8 120 @ line_feed # [121]"
    by (subst r) (simp_all add: byte_of_def fence_def backtick_def line_feed_def numeral_eq_Suc)
  then have "long_header 10 (runes (''```xxxxxxxx'' @ [CHR 0x0A] @ ''y''))"
    unfolding long_header_def
    by (intro exI [of _ "replicate 8 120"] exI [of _ "[121]"]) (simp add: backtick_def rune_space_def)
  ultimately show ?thesis
    using split_message_termination [where maxLen = 10 and content = "''hello world, hello''"]
      split_message_termination [where maxLen = 10 and content = "''```xxxxxxxx'' @ [CHR 0x0A] @ ''y''"] nf by auto
qed

end
