(* ===== verification/History.thy ===== *)
theory History
  imports GoValue
begin

text \<open>
  \<^verbatim>\<open>pkg/agent/context.go\<close>: the messages of a request. \<open>sanitizeHistoryForProvider\<close> removes from a
  stored history what a provider refuses; \<open>buildMessages\<close> puts the system message, the cleaned
  history and the user's message together. The texts of the system prompt (files, clock, skills)
  are arguments.
\<close>

section \<open>Cleaning a history\<close>

definition is_tool :: "message \<Rightarrow> bool" where
  "is_tool m \<longleftrightarrow> msg_Role m = ''tool''"

definition has_calls :: "message \<Rightarrow> bool" where
  "has_calls m \<longleftrightarrow> msg_Role m = ''assistant'' \<and> msg_ToolCalls m \<noteq> []"

text \<open>The walk back from the end of the kept messages, newest first, over tool messages.\<close>

fun walk_back :: "message list \<Rightarrow> bool" where
  "walk_back [] = False"
| "walk_back (m # ms) = (if msg_Role m = ''tool'' then walk_back ms else has_calls m)"

text \<open>One message of the first pass.\<close>

definition sanitize_step :: "message \<Rightarrow> message list \<Rightarrow> message list" where
  "sanitize_step msg sanitized =
     (if msg_Role msg = ''system'' then sanitized
      else if msg_Role msg = ''tool'' then
        (if sanitized = [] then sanitized
         else if walk_back (rev sanitized) then sanitized @ [msg] else sanitized)
      else if msg_Role msg = ''assistant'' then
        (if msg_ToolCalls msg \<noteq> []
           \<and> (sanitized = [] \<or> (msg_Role (last sanitized) \<noteq> ''user'' \<and> msg_Role (last sanitized) \<noteq> ''tool''))
         then sanitized else sanitized @ [msg])
      else sanitized @ [msg])"

definition first_pass :: "message list \<Rightarrow> message list" where
  "first_pass history = fold sanitize_step history []"

text \<open>Whether every call of an assistant message is answered by the tool messages that follow it.\<close>

definition answered :: "message \<Rightarrow> message list \<Rightarrow> bool" where
  "answered m ms \<longleftrightarrow>
     (\<forall>tc\<in>set (msg_ToolCalls m). tc_ID tc \<in> set (map msg_ToolCallID (takeWhile is_tool ms)))"

function second_pass :: "string list \<Rightarrow> message list \<Rightarrow> message list" where
  "second_pass seen [] = []"
| "second_pass seen (msg # ms) =
     (if is_tool msg \<and> msg_ToolCallID msg \<noteq> [] \<and> msg_ToolCallID msg \<in> set seen
      then second_pass seen ms
      else
        let seen' = (if is_tool msg \<and> msg_ToolCallID msg \<noteq> [] then msg_ToolCallID msg # seen else seen)
        in if has_calls msg \<and> \<not> answered msg ms
           then second_pass seen' (drop (length (takeWhile is_tool ms)) ms)
           else msg # second_pass seen' ms)"
  by pat_completeness auto

termination second_pass
  by (relation "measure (\<lambda>(seen, ms). length ms)") auto

definition sanitizeHistoryForProvider :: "message list \<Rightarrow> message list" where
  "sanitizeHistoryForProvider history =
     (if history = [] then history else second_pass [] (first_pass history))"

section \<open>The request\<close>

text \<open>The dash of the summary's heading is the three bytes of U+2014.\<close>

definition summary_heading :: string where
  "summary_heading =
     ''CONTEXT_SUMMARY: The following is an approximate summary of prior conversation '' @
     ''for reference only. It may be incomplete or outdated '' @ [CHR 0xE2, CHR 0x80, CHR 0x94] @
     '' always defer to explicit instructions.'' @ [CHR 0x0A, CHR 0x0A]"

definition part_separator :: string where
  "part_separator = [CHR 0x0A, CHR 0x0A] @ ''---'' @ [CHR 0x0A, CHR 0x0A]"

fun join_parts :: "string list \<Rightarrow> string" where
  "join_parts [] = []"
| "join_parts [x] = x"
| "join_parts (x # y # xs) = x @ part_separator @ join_parts (y # xs)"

definition text_block :: "string \<Rightarrow> content_block" where
  "text_block t = \<lparr>cb_Type = ''text'', cb_Text = t, cb_CacheControl = None\<rparr>"

definition buildMessages ::
  "string \<Rightarrow> string \<Rightarrow> string \<Rightarrow> message list \<Rightarrow> string \<Rightarrow> string \<Rightarrow> string list \<Rightarrow> message list" where
  "buildMessages staticPrompt dynamicCtx skillsText history summary currentMessage media =
     (let extra = (if skillsText \<noteq> [] then [skillsText] else [])
                  @ (if summary \<noteq> [] then [summary_heading @ summary] else []);
          stringParts = [staticPrompt, dynamicCtx] @ extra;
          contentBlocks =
            [(text_block staticPrompt)\<lparr>cb_CacheControl := Some \<lparr>cc_Type = ''ephemeral''\<rparr>\<rparr>, text_block dynamicCtx]
            @ map text_block extra;
          fullSystemPrompt = join_parts stringParts;
          system = (plain_message ''system'' fullSystemPrompt)\<lparr>msg_SystemParts := contentBlocks\<rparr>;
          user = (if trim_space currentMessage \<noteq> [] \<or> media \<noteq> []
                  then [(plain_message ''user'' currentMessage)\<lparr>msg_Media := media\<rparr>] else [])
      in [system] @ sanitizeHistoryForProvider history @ user)"

section \<open>What a provider accepts\<close>

text \<open>Reading forwards: every assistant message with calls has its answers right behind it.\<close>

fun answered_all :: "message list \<Rightarrow> bool" where
  "answered_all [] = True"
| "answered_all (m # ms) = ((has_calls m \<longrightarrow> answered m ms) \<and> answered_all ms)"

text \<open>Reading backwards (\<open>p\<close> is the part before, newest first): a tool message belongs to an
  assistant message with calls, and one of these follows a user or a tool message.\<close>

definition user_or_tool :: "message list \<Rightarrow> bool" where
  "user_or_tool p \<longleftrightarrow> p \<noteq> [] \<and> (msg_Role (hd p) = ''user'' \<or> msg_Role (hd p) = ''tool'')"

fun preceded :: "message list \<Rightarrow> message list \<Rightarrow> bool" where
  "preceded p [] = True"
| "preceded p (m # ms) =
     ((is_tool m \<longrightarrow> walk_back p) \<and> (has_calls m \<longrightarrow> user_or_tool p) \<and> preceded (m # p) ms)"

definition no_system :: "message list \<Rightarrow> bool" where
  "no_system h \<longleftrightarrow> (\<forall>m\<in>set h. msg_Role m \<noteq> ''system'')"

definition tool_ids :: "message list \<Rightarrow> string list" where
  "tool_ids h = filter (\<lambda>i. i \<noteq> []) (map msg_ToolCallID (filter is_tool h))"

definition provider_ok :: "message list \<Rightarrow> bool" where
  "provider_ok h \<longleftrightarrow> no_system h \<and> preceded [] h \<and> answered_all h \<and> distinct (tool_ids h)"

text \<open>No call id is answered again in a later turn: an id answered before an assistant message with
  calls is not answered behind it. (Repeated answers within one turn are allowed.)\<close>

fun local_repeats :: "string set \<Rightarrow> string set \<Rightarrow> message list \<Rightarrow> bool" where
  "local_repeats before now [] = True"
| "local_repeats before now (m # ms) =
     (if has_calls m then local_repeats (before \<union> now) {} ms
      else if is_tool m \<and> msg_ToolCallID m \<noteq> []
           then msg_ToolCallID m \<notin> before \<and> local_repeats before (insert (msg_ToolCallID m) now) ms
           else local_repeats before now ms)"

section \<open>Lemmas\<close>

lemma tool_no_calls [simp]: "is_tool m \<Longrightarrow> \<not> has_calls m"
  by (simp add: is_tool_def has_calls_def)

lemma walk_back_tool [simp]: "is_tool m \<Longrightarrow> walk_back (m # p) = walk_back p"
  by (simp add: is_tool_def)

lemma walk_back_other [simp]: "\<not> is_tool m \<Longrightarrow> walk_back (m # p) = has_calls m"
  by (simp add: is_tool_def)

declare walk_back.simps(2) [simp del]

lemma user_or_tool_Cons [simp]: "user_or_tool (m # p) \<longleftrightarrow> msg_Role m = ''user'' \<or> is_tool m"
  by (simp add: user_or_tool_def is_tool_def)

lemma preceded_append: "preceded p (xs @ ys) \<longleftrightarrow> preceded p xs \<and> preceded (rev xs @ p) ys"
  by (induction xs arbitrary: p) auto

lemma sanitize_step_cases: "sanitize_step m acc = acc \<or> sanitize_step m acc = acc @ [m]"
  by (simp add: sanitize_step_def)

lemma sanitize_step_ok:
  "preceded [] acc \<Longrightarrow> no_system acc \<Longrightarrow>
     preceded [] (sanitize_step m acc) \<and> no_system (sanitize_step m acc)"
  by (auto simp: sanitize_step_def preceded_append no_system_def is_tool_def has_calls_def
      user_or_tool_def hd_rev)

lemma first_pass_ok: "preceded [] (first_pass h) \<and> no_system (first_pass h)"
proof -
  have "preceded [] acc \<and> no_system acc \<Longrightarrow>
      preceded [] (fold sanitize_step h acc) \<and> no_system (fold sanitize_step h acc)" for acc
    by (induction h arbitrary: acc) (simp_all add: sanitize_step_ok)
  from this [of "[]"] show ?thesis by (simp add: first_pass_def no_system_def)
qed

lemma first_pass_subseq: "subseq (first_pass h) h"
proof -
  have "subseq (fold sanitize_step h acc) (acc @ h)" for acc
  proof (induction h arbitrary: acc)
    case (Cons m h)
    have "subseq (sanitize_step m acc @ h) (acc @ m # h)"
      using sanitize_step_cases [of m acc] list_emb_append_mono [of "(=)" acc acc h "m # h"]
      by (elim disjE) auto
    then show ?case using Cons [of "sanitize_step m acc"] by (auto intro: subseq_order.trans)
  qed simp
  from this [of "[]"] show ?thesis by (simp add: first_pass_def)
qed

lemma second_pass_subseq: "subseq (second_pass seen ms) ms"
proof (induction seen ms rule: second_pass.induct)
  case (2 seen m ms)
  have d: "subseq (drop (length (takeWhile is_tool ms)) ms) ms"
    by (simp add: suffix_drop suffix_imp_subseq)
  show ?case
    using 2 d by (auto simp: Let_def intro: subseq_Cons' subseq_order.trans)
qed simp

lemma local_repeats_subseq:
  "subseq ms' ms \<Longrightarrow> local_repeats b n ms \<Longrightarrow> b' \<subseteq> b \<Longrightarrow> b' \<union> n' \<subseteq> b \<union> n \<Longrightarrow> local_repeats b' n' ms'"
proof (induction arbitrary: b n b' n' rule: list_emb.induct)
  case (list_emb_Cons xs ys y)
  consider "has_calls y" "local_repeats (b \<union> n) {} ys"
    | "local_repeats b (insert (msg_ToolCallID y) n) ys" | "local_repeats b n ys"
    using list_emb_Cons.prems(1) by (auto split: if_splits)
  then show ?case
  proof cases
    case 1
    show ?thesis by (rule list_emb_Cons.IH [OF 1(2)]) (use list_emb_Cons.prems in auto)
  next
    case 2
    show ?thesis by (rule list_emb_Cons.IH [OF 2]) (use list_emb_Cons.prems in auto)
  next
    case 3
    show ?thesis by (rule list_emb_Cons.IH [OF 3]) (use list_emb_Cons.prems in auto)
  qed
next
  case (list_emb_Cons2 x y xs ys)
  have xy: "x = y" using list_emb_Cons2.hyps(1) by simp
  consider "has_calls y" "local_repeats (b \<union> n) {} ys"
    | "\<not> has_calls y" "is_tool y \<and> msg_ToolCallID y \<noteq> []" "msg_ToolCallID y \<notin> b"
      "local_repeats b (insert (msg_ToolCallID y) n) ys"
    | "\<not> has_calls y" "\<not> (is_tool y \<and> msg_ToolCallID y \<noteq> [])" "local_repeats b n ys"
    using list_emb_Cons2.prems(1) by (auto split: if_splits)
  then show ?case
  proof cases
    case 1
    have "local_repeats (b' \<union> n') {} xs"
      by (rule list_emb_Cons2.IH [OF 1(2)]) (use list_emb_Cons2.prems in auto)
    with 1(1) xy show ?thesis by simp
  next
    case 2
    have "local_repeats b' (insert (msg_ToolCallID y) n') xs"
      by (rule list_emb_Cons2.IH [OF 2(4)]) (use list_emb_Cons2.prems in auto)
    with 2 xy list_emb_Cons2.prems(2) show ?thesis by auto
  next
    case 3
    have "local_repeats b' n' xs"
      by (rule list_emb_Cons2.IH [OF 3(3)]) (use list_emb_Cons2.prems in auto)
    with 3 xy show ?thesis by auto
  qed
qed simp

lemma takeWhile_second_pass:
  "i \<in> set (map msg_ToolCallID (takeWhile is_tool ms)) \<Longrightarrow> i \<notin> set seen \<or> i = [] \<Longrightarrow>
     i \<in> set (map msg_ToolCallID (takeWhile is_tool (second_pass seen ms)))"
proof (induction ms arbitrary: seen)
  case (Cons m ms)
  from Cons.prems(1) have t: "is_tool m" by (auto split: if_splits)
  show ?case
  proof (cases "i = msg_ToolCallID m")
    case True
    with Cons.prems(2) t show ?thesis by (auto simp: Let_def)
  next
    case False
    with Cons.prems(1) t have "i \<in> set (map msg_ToolCallID (takeWhile is_tool ms))" by simp
    from Cons.IH [OF this] Cons.prems(2) False t show ?thesis by (auto simp: Let_def)
  qed
qed simp

lemma local_repeats_fresh:
  "local_repeats b n ms \<Longrightarrow> i \<in> set (map msg_ToolCallID (takeWhile is_tool ms)) \<Longrightarrow> i \<noteq> [] \<Longrightarrow> i \<notin> b"
proof (induction ms arbitrary: n)
  case (Cons m ms)
  then show ?case by (auto split: if_splits)
qed simp

lemma tool_ids_Cons:
  "tool_ids (m # ms) = (if is_tool m \<and> msg_ToolCallID m \<noteq> [] then msg_ToolCallID m # tool_ids ms else tool_ids ms)"
  by (simp add: tool_ids_def)

lemma second_pass_ids:
  "distinct (tool_ids (second_pass seen ms)) \<and> set (tool_ids (second_pass seen ms)) \<inter> set seen = {}"
proof (induction seen ms rule: second_pass.induct)
  case (2 seen m ms)
  then show ?case by (auto simp: Let_def tool_ids_Cons)
qed (simp add: tool_ids_def)

lemma second_pass_keep:
  "\<not> (is_tool m \<and> msg_ToolCallID m \<noteq> [] \<and> msg_ToolCallID m \<in> set seen) \<Longrightarrow> (has_calls m \<longrightarrow> answered m ms) \<Longrightarrow>
     second_pass seen (m # ms)
       = m # second_pass (if is_tool m \<and> msg_ToolCallID m \<noteq> [] then msg_ToolCallID m # seen else seen) ms"
  by (subst second_pass.simps) (auto simp: Let_def)

text \<open>The second pass, on a suffix \<open>ms\<close> of the first pass with the part \<open>p\<close> before it and the part \<open>f\<close>
  kept so far (both newest first).\<close>

lemma second_pass_ok:
  "preceded p ms \<Longrightarrow> local_repeats b n ms \<Longrightarrow> set seen \<subseteq> b \<union> n \<Longrightarrow>
   (user_or_tool p \<longrightarrow> user_or_tool f) \<Longrightarrow>
   (ms \<noteq> [] \<and> is_tool (hd ms) \<and> walk_back p \<longrightarrow> walk_back f) \<Longrightarrow>
   (walk_back p \<longrightarrow> set seen \<subseteq> b \<or> user_or_tool f) \<Longrightarrow>
     preceded f (second_pass seen ms) \<and> answered_all (second_pass seen ms)"
proof (induction seen ms arbitrary: p f b n rule: second_pass.induct)
  case (2 seen m ms)
  note IH = "2.IH" and prems = "2.prems"
  show ?case
  proof (cases "is_tool m")
    case tool: True
    with prems(1,5) have wp: "walk_back p" and wf: "walk_back f" by auto
    show ?thesis
    proof (cases "msg_ToolCallID m \<noteq> [] \<and> msg_ToolCallID m \<in> set seen")
      case True
      with tool have dup: "is_tool m \<and> msg_ToolCallID m \<noteq> [] \<and> msg_ToolCallID m \<in> set seen" by simp
      have x: "msg_ToolCallID m \<notin> b" "local_repeats b (insert (msg_ToolCallID m) n) ms"
        using prems(2) dup by simp_all
      have uf: "user_or_tool f" using prems(6) wp x(1) dup by blast
      have "preceded f (second_pass seen ms) \<and> answered_all (second_pass seen ms)"
        by (rule IH(1) [OF dup, of "m # p" b "insert (msg_ToolCallID m) n" f])
          (use prems uf wf x tool in auto)
      with dup show ?thesis by simp
    next
      case False
      then have nd: "\<not> (is_tool m \<and> msg_ToolCallID m \<noteq> [] \<and> msg_ToolCallID m \<in> set seen)" by simp
      define seen' where "seen' = (if msg_ToolCallID m \<noteq> [] then msg_ToolCallID m # seen else seen)"
      define n' where "n' = (if msg_ToolCallID m \<noteq> [] then insert (msg_ToolCallID m) n else n)"
      have l: "local_repeats b n' ms" using prems(2) tool by (auto simp: n'_def split: if_splits)
      have s: "set seen' \<subseteq> b \<union> n'" using prems(3) by (auto simp: seen'_def n'_def)
      have "preceded (m # f) (second_pass seen' ms) \<and> answered_all (second_pass seen' ms)"
        by (rule IH(3) [OF nd, of seen' "m # p" b n' "m # f"])
          (use prems tool wf l s in \<open>simp_all add: seen'_def\<close>)
      with second_pass_keep [OF nd] tool wf show ?thesis by (simp add: seen'_def)
    qed
  next
    case no: False
    then have nd: "\<not> (is_tool m \<and> msg_ToolCallID m \<noteq> [] \<and> msg_ToolCallID m \<in> set seen)" by simp
    show ?thesis
    proof (cases "has_calls m")
      case calls: True
      then have l: "local_repeats (b \<union> n) {} ms" using prems(2) by simp
      have uf: "user_or_tool f" using prems(1,4) calls by simp
      show ?thesis
      proof (cases "answered m ms")
        case True
        have "answered m (second_pass seen ms)"
          unfolding answered_def
        proof
          fix tc assume "tc \<in> set (msg_ToolCalls m)"
          with True have i: "tc_ID tc \<in> set (map msg_ToolCallID (takeWhile is_tool ms))"
            by (simp add: answered_def)
          have "tc_ID tc \<notin> set seen \<or> tc_ID tc = []"
            using local_repeats_fresh [OF l i] prems(3) by blast
          with i show "tc_ID tc \<in> set (map msg_ToolCallID (takeWhile is_tool (second_pass seen ms)))"
            by (rule takeWhile_second_pass)
        qed
        moreover have "preceded (m # f) (second_pass seen ms) \<and> answered_all (second_pass seen ms)"
          by (rule IH(3) [OF nd, of seen "m # p" "b \<union> n" "{}" "m # f"])
            (use prems no calls True l in simp_all)
        ultimately show ?thesis using nd no calls True uf by (simp add: Let_def)
      next
        case False
        define T where "T = takeWhile is_tool ms"
        define R where "R = drop (length T) ms"
        have ms: "ms = T @ R" by (metis T_def R_def append_take_drop_id takeWhile_eq_take)
        have pr: "preceded (m # p) (T @ R)" using prems(1) ms by simp
        have R: "R = dropWhile is_tool ms" by (simp add: R_def T_def dropWhile_eq_drop)
        have hd: "\<not> (R \<noteq> [] \<and> is_tool (hd R))" using hd_dropWhile [of is_tool ms] R by auto
        have sub: "subseq R ms" by (simp add: R_def suffix_drop suffix_imp_subseq)
        have "preceded f (second_pass seen R) \<and> answered_all (second_pass seen R)"
          unfolding R_def T_def
        proof (rule IH(2) [OF nd, of seen "rev T @ m # p" "b \<union> n" "{}" f])
          show "preceded (rev T @ m # p) (drop (length (takeWhile is_tool ms)) ms)"
            using pr by (simp add: preceded_append R_def T_def)
          show "local_repeats (b \<union> n) {} (drop (length (takeWhile is_tool ms)) ms)"
            using local_repeats_subseq [OF sub l] by (simp add: R_def T_def)
          show "set seen \<subseteq> b \<union> n \<union> {}" using prems(3) by simp
          show "has_calls m \<and> \<not> answered m ms" using calls False by simp
          show "seen = (if is_tool m \<and> msg_ToolCallID m \<noteq> [] then msg_ToolCallID m # seen else seen)"
            using no by simp
          show "user_or_tool (rev T @ m # p) \<longrightarrow> user_or_tool f" using uf by simp
          show "drop (length (takeWhile is_tool ms)) ms \<noteq> []
              \<and> is_tool (hd (drop (length (takeWhile is_tool ms)) ms)) \<and> walk_back (rev T @ m # p) \<longrightarrow> walk_back f"
            using hd unfolding R_def T_def by blast
          show "walk_back (rev T @ m # p) \<longrightarrow> set seen \<subseteq> b \<union> n \<or> user_or_tool f" using uf by simp
        qed
        with nd no calls False show ?thesis by (simp add: Let_def R_def T_def)
      qed
    next
      case nc: False
      have "preceded (m # f) (second_pass seen ms) \<and> answered_all (second_pass seen ms)"
        by (rule IH(3) [OF nd, of seen "m # p" b n "m # f"])
          (use prems no nc in simp_all)
      with nd no nc show ?thesis by (simp add: Let_def)
    qed
  qed
qed simp

lemma first_pass_id:
  "preceded (rev acc) ms \<Longrightarrow> no_system ms \<Longrightarrow> fold sanitize_step ms acc = acc @ ms"
proof (induction ms arbitrary: acc)
  case (Cons m ms)
  have "sanitize_step m acc = acc @ [m]"
    using Cons.prems by (auto simp: sanitize_step_def no_system_def is_tool_def has_calls_def user_or_tool_def hd_rev)
  with Cons show ?case by (simp add: no_system_def)
qed simp

lemma second_pass_id:
  "answered_all ms \<Longrightarrow> distinct (tool_ids ms) \<Longrightarrow> set (tool_ids ms) \<inter> set seen = {} \<Longrightarrow> second_pass seen ms = ms"
proof (induction ms arbitrary: seen)
  case (Cons m ms)
  have nd: "\<not> (is_tool m \<and> msg_ToolCallID m \<noteq> [] \<and> msg_ToolCallID m \<in> set seen)"
    using Cons.prems(3) by (auto simp: tool_ids_Cons)
  have "second_pass seen' ms = ms"
    if "seen' = (if is_tool m \<and> msg_ToolCallID m \<noteq> [] then msg_ToolCallID m # seen else seen)" for seen'
    by (rule Cons.IH) (use Cons.prems that in \<open>auto simp: tool_ids_Cons split: if_splits\<close>)
  with second_pass_keep [OF nd] Cons.prems(1) show ?case by simp
qed simp

lemma provider_ok_fixed: "provider_ok h \<Longrightarrow> sanitizeHistoryForProvider h = h"
  using first_pass_id [of "[]" h] second_pass_id [of h "[]"]
  by (simp add: provider_ok_def sanitizeHistoryForProvider_def first_pass_def)

lemma sanitize_subseq: "subseq (sanitizeHistoryForProvider h) h"
  using second_pass_subseq first_pass_subseq
  by (auto simp: sanitizeHistoryForProvider_def intro: subseq_order.trans)

lemma subseq_set: "subseq xs ys \<Longrightarrow> set xs \<subseteq> set ys"
  by (induction rule: list_emb.induct) auto

lemma sanitize_ok:
  assumes "local_repeats {} {} h" shows "provider_ok (sanitizeHistoryForProvider h)"
proof -
  define g where "g = first_pass h"
  have p: "preceded [] g" "no_system g" using first_pass_ok by (simp_all add: g_def)
  have l: "local_repeats {} {} g"
    using local_repeats_subseq [OF first_pass_subseq assms] by (simp add: g_def)
  have r: "preceded [] (second_pass [] g) \<and> answered_all (second_pass [] g)"
    by (rule second_pass_ok [OF p(1) l]) simp_all
  have n: "no_system (second_pass [] g)"
    using p(2) subseq_set [OF second_pass_subseq [of "[]" g]] by (auto simp: no_system_def)
  have e: "h = [] \<Longrightarrow> g = []" by (simp add: g_def first_pass_def)
  have "sanitizeHistoryForProvider h = second_pass [] g"
    using e by (auto simp: sanitizeHistoryForProvider_def g_def)
  with r n second_pass_ids [of "[]" g] show ?thesis by (simp add: provider_ok_def)
qed

text \<open>A user message may be added at the end.\<close>

lemma takeWhile_snoc_user: "\<not> is_tool u \<Longrightarrow> takeWhile is_tool (ms @ [u]) = takeWhile is_tool ms"
  by (induction ms) auto

lemma answered_all_snoc_user:
  "\<not> is_tool u \<Longrightarrow> \<not> has_calls u \<Longrightarrow> answered_all (ms @ [u]) = answered_all ms"
  by (induction ms) (auto simp: answered_def takeWhile_snoc_user)

lemma provider_ok_snoc_user:
  "provider_ok h \<Longrightarrow> msg_Role u = ''user'' \<Longrightarrow> provider_ok (h @ [u])"
  using answered_all_snoc_user [of u h]
  by (auto simp: provider_ok_def no_system_def preceded_append tool_ids_def is_tool_def has_calls_def)

text \<open>An id used in two turns: the second answer is dropped, its call is not.\<close>

definition demo_call :: "string \<Rightarrow> message" where
  "demo_call i = (plain_message ''assistant'' [])\<lparr>msg_ToolCalls :=
     [\<lparr>tc_ID = i, tc_Type = ''function'', tc_Function = None, tc_Name = ''exec'', tc_Arguments = None,
       tc_ThoughtSignature = [], tc_ExtraContent = None\<rparr>]\<rparr>"

definition demo_answer :: "string \<Rightarrow> message" where
  "demo_answer i = (plain_message ''tool'' ''ok'')\<lparr>msg_ToolCallID := i\<rparr>"

definition demo_turn :: "string \<Rightarrow> message list" where
  "demo_turn i = [plain_message ''user'' ''run'', demo_call i, demo_answer i, plain_message ''assistant'' ''done'']"

lemma sanitize_reused_id:
  "sanitizeHistoryForProvider (demo_turn ''call_0'' @ demo_turn ''call_0'')
     = demo_turn ''call_0'' @ [plain_message ''user'' ''run'', demo_call ''call_0'', plain_message ''assistant'' ''done'']
   \<and> \<not> provider_ok (sanitizeHistoryForProvider (demo_turn ''call_0'' @ demo_turn ''call_0''))"
  by code_simp

section \<open>Properties\<close>



end
