(* ===== verification/EventBus.thy ===== *)
theory EventBus
  imports Ebi_Prelude "HOL-Library.AList" "HOL-Library.Sublist"
begin

text \<open>
  \<^verbatim>\<open>pkg/agent/eventbus.go\<close> and \<^verbatim>\<open>events.go\<close>: the events of the agent loop and their broadcast.
  A subscriber has a bounded channel; an event for which there is no room is dropped and counted.
  The map of subscribers is an association list in iteration order. A channel that was closed stays
  with its reader, who can still take what is buffered. Durations in payloads are not modelled.
\<close>

section \<open>Events\<close>

datatype event_kind =
    EventKindTurnStart | EventKindTurnEnd | EventKindLLMRequest | EventKindLLMDelta | EventKindLLMResponse
  | EventKindLLMRetry | EventKindContextCompress | EventKindSessionSummarize | EventKindToolExecStart
  | EventKindToolExecEnd | EventKindToolExecSkipped | EventKindSteeringInjected | EventKindFollowUpQueued
  | EventKindInterruptReceived | EventKindSubTurnSpawn | EventKindSubTurnEnd
  | EventKindSubTurnResultDelivered | EventKindSubTurnOrphan | EventKindError

datatype turn_end_status = TurnEndStatusCompleted | TurnEndStatusError | TurnEndStatusAborted

datatype compress_reason = ContextCompressReasonProactive | ContextCompressReasonRetry | ContextCompressReasonSummarize

datatype interrupt_kind = InterruptKindSteering | InterruptKindGraceful | InterruptKindHard

record event_meta =
  em_AgentID :: string
  em_TurnID :: string
  em_SessionKey :: string
  em_Iteration :: int
  em_TracePath :: string
  em_Source :: string

datatype event_payload =
    TurnStartPayload string string string nat
  | TurnEndPayload turn_end_status int nat
  | LLMRequestPayload string nat nat int
  | LLMResponsePayload nat nat bool
  | LLMRetryPayload int int string string
  | ContextCompressPayload compress_reason int int
  | SessionSummarizePayload nat int nat bool
  | ToolExecStartPayload string
  | ToolExecEndPayload string nat nat bool bool
  | ToolExecSkippedPayload string string
  | SteeringInjectedPayload nat nat
  | FollowUpQueuedPayload string string string nat
  | InterruptReceivedPayload interrupt_kind string nat nat nat
  | SubTurnSpawnPayload string string string
  | SubTurnEndPayload string string
  | SubTurnResultDeliveredPayload nat
  | SubTurnOrphanPayload string string string
  | ErrorPayload string string

record event =
  ev_Kind :: event_kind
  ev_Time :: time
  ev_Meta :: event_meta
  ev_Payload :: event_payload

section \<open>The bus\<close>

record event_bus =
  eb_subs :: "(nat \<times> nat \<times> event list) list"
  eb_nextID :: nat
  eb_closed :: bool
  eb_dropped :: "event_kind \<Rightarrow> nat"

definition defaultEventSubscriberBuffer :: nat where "defaultEventSubscriberBuffer = 16"

definition newEventBus :: event_bus where
  "newEventBus = \<lparr>eb_subs = [], eb_nextID = 0, eb_closed = False, eb_dropped = (\<lambda>_. 0)\<rparr>"

text \<open>The identifier of the subscription, 0 (with a channel that is closed already) on a closed bus.\<close>

definition subscribe :: "int \<Rightarrow> event_bus \<Rightarrow> nat \<times> event_bus" where
  "subscribe buffer b =
     (let cap = (if buffer \<le> 0 then defaultEventSubscriberBuffer else nat buffer)
      in if eb_closed b then (0, b)
         else
           let sid = Suc (eb_nextID b)
           in (sid, b\<lparr>eb_nextID := sid, eb_subs := AList.update sid (cap, []) (eb_subs b)\<rparr>))"

text \<open>What is still in the channel when it is closed stays with its reader.\<close>

definition unsubscribe :: "nat \<Rightarrow> event_bus \<Rightarrow> event list \<times> event_bus" where
  "unsubscribe sid b =
     (case map_of (eb_subs b) sid of
        None \<Rightarrow> ([], b)
      | Some (cap, buf) \<Rightarrow> (buf, b\<lparr>eb_subs := AList.delete sid (eb_subs b)\<rparr>))"

definition offer :: "event \<Rightarrow> nat \<times> event list \<Rightarrow> nat \<times> event list" where
  "offer e sub = (case sub of (cap, buf) \<Rightarrow> if length buf < cap then (cap, buf @ [e]) else (cap, buf))"

definition no_room :: "nat \<times> event list \<Rightarrow> bool" where
  "no_room sub \<longleftrightarrow> fst sub \<le> length (snd sub)"

definition emit_event :: "time \<Rightarrow> event \<Rightarrow> event_bus \<Rightarrow> event_bus" where
  "emit_event now evt b =
     (let e = (if ev_Time evt = zero_time then evt\<lparr>ev_Time := now\<rparr> else evt)
      in if eb_closed b then b
         else
           b\<lparr>eb_subs := map (\<lambda>(sid, sub). (sid, offer e sub)) (eb_subs b),
             eb_dropped := (eb_dropped b)(ev_Kind e := eb_dropped b (ev_Kind e) + length (filter (no_room \<circ> snd) (eb_subs b)))\<rparr>)"

definition droppedEvents :: "event_kind \<Rightarrow> event_bus \<Rightarrow> nat" where
  "droppedEvents k b = eb_dropped b k"

definition close_bus :: "event_bus \<Rightarrow> event_bus" where
  "close_bus b = (if eb_closed b then b else b\<lparr>eb_closed := True, eb_subs := []\<rparr>)"

text \<open>The reader's side of a subscription: the next event that is buffered.\<close>

definition receive :: "nat \<Rightarrow> event_bus \<Rightarrow> event option \<times> event_bus" where
  "receive sid b =
     (case map_of (eb_subs b) sid of
        Some (cap, e # buf) \<Rightarrow> (Some e, b\<lparr>eb_subs := AList.update sid (cap, buf) (eb_subs b)\<rparr>)
      | _ \<Rightarrow> (None, b))"

section \<open>What a subscriber sees\<close>

datatype bus_op = BusSubscribe int | BusUnsubscribe nat | BusEmit time event | BusReceive nat | BusClose

text \<open>One operation, with a log of the events offered to the subscriber \<open>i\<close> and of those it received.\<close>

definition bus_step :: "nat \<Rightarrow> bus_op \<Rightarrow> event_bus \<times> event list \<times> event list \<Rightarrow> event_bus \<times> event list \<times> event list" where
  "bus_step i op st =
     (case st of (b, sent, got) \<Rightarrow>
        (case op of
           BusSubscribe n \<Rightarrow> (snd (subscribe n b), sent, got)
         | BusUnsubscribe j \<Rightarrow> (snd (unsubscribe j b), sent, if j = i then got @ fst (unsubscribe j b) else got)
         | BusEmit now e \<Rightarrow>
             (emit_event now e b,
              if \<not> eb_closed b \<and> map_of (eb_subs b) i \<noteq> None
              then sent @ [if ev_Time e = zero_time then e\<lparr>ev_Time := now\<rparr> else e] else sent,
              got)
         | BusReceive j \<Rightarrow>
             (snd (receive j b), sent,
              if j = i then got @ (case fst (receive j b) of None \<Rightarrow> [] | Some e \<Rightarrow> [e]) else got)
         | BusClose \<Rightarrow>
             (close_bus b, sent,
              if eb_closed b then got else got @ (case map_of (eb_subs b) i of None \<Rightarrow> [] | Some (_, buf) \<Rightarrow> buf))))"

definition buffered :: "event_bus \<Rightarrow> nat \<Rightarrow> event list" where
  "buffered b i = (case map_of (eb_subs b) i of None \<Rightarrow> [] | Some (_, buf) \<Rightarrow> buf)"

text \<open>Identifiers are never used twice, and no buffer is longer than its channel.\<close>

definition bus_inv :: "event_bus \<Rightarrow> bool" where
  "bus_inv b \<longleftrightarrow> distinct (map fst (eb_subs b)) \<and> (\<forall>(j, cap, buf)\<in>set (eb_subs b). j \<le> eb_nextID b \<and> length buf \<le> cap)"

definition in_step :: "nat \<Rightarrow> event_bus \<times> event list \<times> event list \<Rightarrow> bool" where
  "in_step i st \<longleftrightarrow>
     (case st of (b, sent, got) \<Rightarrow>
        bus_inv b \<and> subseq (got @ buffered b i) sent \<and> (eb_nextID b < i \<longrightarrow> sent = []))"

lemma update_entries: "set (AList.update k v xs) \<subseteq> insert (k, v) (set xs)"
  by (induction xs) auto

lemma delete_entries: "set (AList.delete k xs) \<subseteq> set xs"
  by (induction xs) auto

lemma map_of_offer: "map_of (map (\<lambda>(sid, sub). (sid, offer e sub)) xs) i = map_option (offer e) (map_of xs i)"
  by (induction xs) auto

lemma bus_inv_lookup: "bus_inv b \<Longrightarrow> map_of (eb_subs b) i = Some (cap, buf) \<Longrightarrow> length buf \<le> cap \<and> i \<le> eb_nextID b"
  by (auto simp: bus_inv_def dest: map_of_SomeD)

lemma in_step_subscribe: "in_step i (b, sent, got) \<Longrightarrow> in_step i (snd (subscribe n b), sent, got)"
proof -
  assume s: "in_step i (b, sent, got)"
  show ?thesis
  proof (cases "eb_closed b")
    case False
    define cap where "cap = (if n \<le> 0 then defaultEventSubscriberBuffer else nat n)"
    define b' where "b' = b\<lparr>eb_nextID := Suc (eb_nextID b), eb_subs := AList.update (Suc (eb_nextID b)) (cap, []) (eb_subs b)\<rparr>"
    have e: "snd (subscribe n b) = b'" using False by (simp add: subscribe_def Let_def b'_def cap_def)
    have i: "bus_inv b" using s by (simp add: in_step_def)
    have "bus_inv b'"
      using i update_entries [of "Suc (eb_nextID b)" "(cap, [])" "eb_subs b"]
      by (fastforce simp: bus_inv_def b'_def distinct_update)
    moreover have "subseq (got @ buffered b' i) sent"
    proof (cases "i = Suc (eb_nextID b)")
      case True
      then have "buffered b i = []" using bus_inv_lookup [OF i, of i] by (fastforce simp: buffered_def split: option.splits)
      then show ?thesis using s True by (auto simp: in_step_def b'_def buffered_def update_conv')
    next
      case False
      then show ?thesis using s by (simp add: in_step_def b'_def buffered_def update_conv')
    qed
    ultimately show ?thesis using s e by (simp add: in_step_def b'_def)
  qed (use s in \<open>simp add: subscribe_def Let_def\<close>)
qed

lemma bus_inv_delete: "bus_inv b \<Longrightarrow> bus_inv (b\<lparr>eb_subs := AList.delete j (eb_subs b)\<rparr>)"
  using delete_entries [of j "eb_subs b"] by (fastforce simp: bus_inv_def distinct_delete)

lemma in_step_unsubscribe:
  "in_step i (b, sent, got) \<Longrightarrow>
   in_step i (snd (unsubscribe j b), sent, if j = i then got @ fst (unsubscribe j b) else got)"
  using bus_inv_delete [of b j]
  by (auto simp: in_step_def unsubscribe_def buffered_def delete_conv' split: option.splits)

lemma in_step_emit:
  assumes "in_step i (b, sent, got)"
  shows "in_step i (bus_step i (BusEmit now e) (b, sent, got))"
proof (cases "eb_closed b")
  case False
  define e' where "e' = (if ev_Time e = zero_time then e\<lparr>ev_Time := now\<rparr> else e)"
  define b' where "b' = emit_event now e b"
  have subs: "eb_subs b' = map (\<lambda>(sid, sub). (sid, offer e' sub)) (eb_subs b)" "eb_nextID b' = eb_nextID b"
    using False by (simp_all add: b'_def emit_event_def Let_def e'_def)
  have "map fst (eb_subs b') = map fst (eb_subs b)" by (simp add: subs case_prod_unfold comp_def)
  moreover have "\<forall>(j, cap, buf)\<in>set (eb_subs b'). j \<le> eb_nextID b' \<and> length buf \<le> cap"
    using assms by (auto simp: in_step_def bus_inv_def subs offer_def split: if_splits)
  ultimately have "bus_inv b'" using assms by (simp add: in_step_def bus_inv_def)
  moreover have "subseq (got @ buffered b' i) (if map_of (eb_subs b) i \<noteq> None then sent @ [e'] else sent)"
  proof (cases "map_of (eb_subs b) i")
    case None
    then show ?thesis using assms by (simp add: in_step_def buffered_def subs map_of_offer)
  next
    case (Some sub)
    obtain cap buf where sub: "sub = (cap, buf)" by (rule prod.exhaust)
    have "subseq (got @ buf) sent" using assms Some sub by (simp add: in_step_def buffered_def)
    then have "subseq (got @ buf @ [e']) (sent @ [e'])" "subseq (got @ buf) (sent @ [e'])"
      using subseq_append_iff [of "got @ buf" "[e']" "sent @ [e']"] by (auto intro: list_emb_append_mono simp flip: append_assoc)
    moreover have "buffered b' i = snd (offer e' (cap, buf))"
      by (simp add: buffered_def subs map_of_offer Some sub split: prod.splits)
    ultimately show ?thesis using Some by (simp add: offer_def)
  qed
  moreover have "eb_nextID b < i \<Longrightarrow> map_of (eb_subs b) i = None"
    using assms bus_inv_lookup [of b i] by (cases "map_of (eb_subs b) i") (auto simp: in_step_def)
  ultimately show ?thesis
    using False assms by (auto simp: bus_step_def in_step_def b'_def [symmetric] e'_def [symmetric] subs)
qed (use assms in \<open>simp add: bus_step_def emit_event_def Let_def\<close>)

lemma in_step_receive:
  "in_step i (b, sent, got) \<Longrightarrow>
   in_step i (snd (receive j b), sent, if j = i then got @ (case fst (receive j b) of None \<Rightarrow> [] | Some e \<Rightarrow> [e]) else got)"
proof -
  assume s: "in_step i (b, sent, got)"
  show ?thesis
  proof (cases "\<exists>cap e buf. map_of (eb_subs b) j = Some (cap, e # buf)")
    case True
    then obtain cap e buf where m: "map_of (eb_subs b) j = Some (cap, e # buf)" by blast
    define b' where "b' = b\<lparr>eb_subs := AList.update j (cap, buf) (eb_subs b)\<rparr>"
    have "bus_inv b'"
      using s bus_inv_lookup [of b j cap "e # buf"] m update_entries [of j "(cap, buf)" "eb_subs b"]
      by (fastforce simp: in_step_def bus_inv_def b'_def distinct_update)
    then show ?thesis
      using s m by (auto simp: in_step_def receive_def b'_def buffered_def update_conv')
  next
    case False
    then have "receive j b = (None, b)" by (auto simp: receive_def split: option.splits list.splits)
    then show ?thesis using s by (cases "j = i") auto
  qed
qed

lemma in_step_close:
  "in_step i (b, sent, got) \<Longrightarrow> in_step i (bus_step i BusClose (b, sent, got))"
  by (auto simp: in_step_def bus_step_def close_bus_def buffered_def bus_inv_def split: option.splits)

lemma in_step_step: "in_step i st \<Longrightarrow> in_step i (bus_step i op st)"
proof -
  assume s: "in_step i st"
  obtain b sent got where st: "st = (b, sent, got)" by (metis prod.exhaust)
  show ?thesis
    using in_step_emit [OF s [unfolded st]] in_step_close [OF s [unfolded st]] in_step_subscribe [OF s [unfolded st]]
      in_step_unsubscribe [OF s [unfolded st]] in_step_receive [OF s [unfolded st]]
    by (cases op) (simp_all add: st bus_step_def)
qed

text \<open>
  Whatever sequence of operations a bus goes through, a subscriber reads events in the order in which
  they were emitted after it subscribed, each at most once: what it has received, followed by what its channel
  still holds, is a subsequence of what was offered to it, also when it unsubscribes or the bus is closed. No
  channel ever holds more than its capacity.
\<close>

theorem event_bus_order:
  "case fold (bus_step i) ops (newEventBus, [], []) of (b, sent, got) \<Rightarrow>
     subseq (got @ buffered b i) sent \<and> (case map_of (eb_subs b) i of None \<Rightarrow> True | Some (cap, buf) \<Rightarrow> length buf \<le> cap)"
proof -
  have "in_step i (newEventBus, [], [])" by (simp add: in_step_def newEventBus_def bus_inv_def buffered_def)
  then have "in_step i (fold (bus_step i) ops (newEventBus, [], []))"
    by (induction ops rule: rev_induct) (simp_all add: in_step_step)
  then show ?thesis using bus_inv_lookup by (auto simp: in_step_def split: option.splits)
qed

end
