(* ===== verification/TurnState.thy ===== *)
theory TurnState
  imports History SessionStore ToolRegistry EventBus
begin

text \<open>
  \<^verbatim>\<open>pkg/agent/turn.go\<close>: the state of one turn of the agent loop, its control flags and its restore
  point. Every method holds the turn's mutex for its whole body, so a method is an atomic step.
  A cancel function is present or not; calling it sets the flag of its context. A channel of
  sub-turn results has a buffer and may be closed; \<open>None\<close> in it is a nil pointer. The agent's store
  of sessions is the abstract store that both backends of \<open>SessionStore\<close> refine: a history and a
  summary for each key.
\<close>

section \<open>The state\<close>

datatype turn_phase =
    TurnPhaseSetup | TurnPhaseRunning | TurnPhaseTools | TurnPhaseFinalizing | TurnPhaseCompleted | TurnPhaseAborted

record process_options =
  po_SessionKey :: string
  po_Channel :: string
  po_ChatID :: string
  po_SenderID :: string
  po_SenderDisplayName :: string
  po_UserMessage :: string
  po_Media :: "string list"
  po_InitialSteeringMessages :: "message list"
  po_DefaultResponse :: string
  po_EnableSummary :: bool
  po_SendResponse :: bool
  po_AllowInterimPicoPublish :: bool
  po_SuppressToolFeedback :: bool
  po_NoHistory :: bool
  po_SkipInitialSteeringPoll :: bool

record result_chan =
  rc_cap :: nat
  rc_buf :: "tool_result option list"
  rc_closed :: bool

record usage_info =
  ui_PromptTokens :: int
  ui_CompletionTokens :: int
  ui_TotalTokens :: int

record sessions =
  ss_history :: "string \<Rightarrow> message list"
  ss_summary :: "string \<Rightarrow> string"

record turn_state =
  ts_opts :: process_options
  ts_turnID :: string
  ts_agentID :: string
  ts_sessionKey :: string
  ts_channel :: string
  ts_chatID :: string
  ts_userMessage :: string
  ts_media :: "string list"
  ts_phase :: turn_phase
  ts_iteration :: int
  ts_finalContent :: string
  ts_gracefulInterrupt :: bool
  ts_gracefulInterruptHint :: string
  ts_gracefulTerminalUsed :: bool
  ts_hardAbort :: bool
  ts_providerCancel :: bool
  ts_turnCancel :: bool
  ts_providerCancelled :: bool
  ts_turnCancelled :: bool
  ts_restorePointHistory :: "message list"
  ts_restorePointSummary :: string
  ts_persistedMessages :: "message list"
  ts_depth :: int
  ts_parentTurnID :: string
  ts_childTurnIDs :: "string list"
  ts_pendingResults :: "result_chan option"
  ts_concurrencySem :: "(nat \<times> nat) option"
  ts_isFinished :: bool
  ts_session :: bool
  ts_initialHistoryLength :: nat
  ts_cancelFunc :: bool
  ts_cancelled :: bool
  ts_critical :: bool
  ts_parentTurnState :: "nat option"
  ts_parentEnded :: bool
  ts_closeOnce :: bool
  ts_finishedChan :: "bool option"
  ts_tokenBudget :: "nat option"
  ts_lastFinishReason :: string
  ts_lastUsage :: "usage_info option"
  ts_al :: bool

record turn_event_scope =
  tes_agentID :: string
  tes_sessionKey :: string
  tes_turnID :: string

text \<open>The constructor; the store of the agent gives the length of the history at the start.\<close>

definition newTurnState :: "string \<Rightarrow> sessions option \<Rightarrow> process_options \<Rightarrow> turn_event_scope \<Rightarrow> turn_state" where
  "newTurnState agentID store opts scope =
     \<lparr>ts_opts = opts, ts_turnID = tes_turnID scope, ts_agentID = agentID, ts_sessionKey = po_SessionKey opts,
      ts_channel = po_Channel opts, ts_chatID = po_ChatID opts, ts_userMessage = po_UserMessage opts,
      ts_media = po_Media opts, ts_phase = TurnPhaseSetup, ts_iteration = 0, ts_finalContent = [],
      ts_gracefulInterrupt = False, ts_gracefulInterruptHint = [], ts_gracefulTerminalUsed = False,
      ts_hardAbort = False, ts_providerCancel = False, ts_turnCancel = False, ts_providerCancelled = False,
      ts_turnCancelled = False, ts_restorePointHistory = [], ts_restorePointSummary = [],
      ts_persistedMessages = [], ts_depth = 0, ts_parentTurnID = [], ts_childTurnIDs = [],
      ts_pendingResults = None, ts_concurrencySem = None, ts_isFinished = False,
      ts_session = (store \<noteq> None),
      ts_initialHistoryLength =
        (case store of None \<Rightarrow> 0 | Some s \<Rightarrow> length (ss_history s (po_SessionKey opts))),
      ts_cancelFunc = False, ts_cancelled = False, ts_critical = False, ts_parentTurnState = None,
      ts_parentEnded = False, ts_closeOnce = False, ts_finishedChan = None, ts_tokenBudget = None,
      ts_lastFinishReason = [], ts_lastUsage = None, ts_al = False\<rparr>"

section \<open>The store of the sessions\<close>

definition ss_add :: "string \<Rightarrow> message \<Rightarrow> sessions \<Rightarrow> sessions" where
  "ss_add key m s = s\<lparr>ss_history := (ss_history s)(key := ss_history s key @ [m])\<rparr>"

definition ss_setHistory :: "string \<Rightarrow> message list \<Rightarrow> sessions \<Rightarrow> sessions" where
  "ss_setHistory key h s = s\<lparr>ss_history := (ss_history s)(key := h)\<rparr>"

definition ss_setSummary :: "string \<Rightarrow> string \<Rightarrow> sessions \<Rightarrow> sessions" where
  "ss_setSummary key t s = s\<lparr>ss_summary := (ss_summary s)(key := t)\<rparr>"

definition ss_truncate :: "string \<Rightarrow> int \<Rightarrow> sessions \<Rightarrow> sessions" where
  "ss_truncate key n s = s\<lparr>ss_history := (ss_history s)(key := keep_last n (ss_history s key))\<rparr>"

section \<open>Phase, iteration and content\<close>

definition setPhase :: "turn_phase \<Rightarrow> turn_state \<Rightarrow> turn_state" where
  "setPhase p ts = ts\<lparr>ts_phase := p\<rparr>"

definition setIteration :: "int \<Rightarrow> turn_state \<Rightarrow> turn_state" where
  "setIteration i ts = ts\<lparr>ts_iteration := i\<rparr>"

definition currentIteration :: "turn_state \<Rightarrow> int" where
  "currentIteration ts = ts_iteration ts"

definition setFinalContent :: "string \<Rightarrow> turn_state \<Rightarrow> turn_state" where
  "setFinalContent c ts = ts\<lparr>ts_finalContent := c\<rparr>"

definition finalContentLen :: "turn_state \<Rightarrow> nat" where
  "finalContentLen ts = length (ts_finalContent ts)"

definition setTurnCancel :: "turn_state \<Rightarrow> turn_state" where
  "setTurnCancel ts = ts\<lparr>ts_turnCancel := True, ts_turnCancelled := False\<rparr>"

definition setProviderCancel :: "turn_state \<Rightarrow> turn_state" where
  "setProviderCancel ts = ts\<lparr>ts_providerCancel := True, ts_providerCancelled := False\<rparr>"

definition clearProviderCancel :: "turn_state \<Rightarrow> turn_state" where
  "clearProviderCancel ts = ts\<lparr>ts_providerCancel := False\<rparr>"

section \<open>Interrupts\<close>

definition requestGracefulInterrupt :: "string \<Rightarrow> turn_state \<Rightarrow> bool \<times> turn_state" where
  "requestGracefulInterrupt hint ts =
     (if ts_hardAbort ts then (False, ts)
      else (True, ts\<lparr>ts_gracefulInterrupt := True, ts_gracefulInterruptHint := hint\<rparr>))"

definition gracefulInterruptRequested :: "turn_state \<Rightarrow> bool \<times> string" where
  "gracefulInterruptRequested ts =
     (ts_gracefulInterrupt ts \<and> \<not> ts_gracefulTerminalUsed ts, ts_gracefulInterruptHint ts)"

definition markGracefulTerminalUsed :: "turn_state \<Rightarrow> turn_state" where
  "markGracefulTerminalUsed ts = ts\<lparr>ts_gracefulTerminalUsed := True\<rparr>"

definition requestHardAbort :: "turn_state \<Rightarrow> bool \<times> turn_state" where
  "requestHardAbort ts =
     (if ts_hardAbort ts then (False, ts)
      else
        let ts1 = ts\<lparr>ts_hardAbort := True\<rparr>;
            ts2 = (if ts_providerCancel ts then ts1\<lparr>ts_providerCancelled := True\<rparr> else ts1);
            ts3 = (if ts_turnCancel ts then ts2\<lparr>ts_turnCancelled := True\<rparr> else ts2)
        in (True, ts3))"

definition hardAbortRequested :: "turn_state \<Rightarrow> bool" where
  "hardAbortRequested ts = ts_hardAbort ts"

definition interruptHintMessage :: "turn_state \<Rightarrow> message" where
  "interruptHintMessage ts =
     (let hint = snd (gracefulInterruptRequested ts);
          content0 = ''Interrupt requested. Stop scheduling tools and provide a short final summary.'';
          content = (if hint \<noteq> [] then content0 @ newline @ newline @ ''Interrupt hint: '' @ hint else content0)
      in plain_message ''user'' content)"

section \<open>Events\<close>

definition eventMeta :: "turn_state \<Rightarrow> string \<Rightarrow> string \<Rightarrow> event_meta" where
  "eventMeta ts source tracePath =
     \<lparr>em_AgentID = ts_agentID ts, em_TurnID = ts_turnID ts, em_SessionKey = ts_sessionKey ts,
      em_Iteration = ts_iteration ts, em_TracePath = tracePath, em_Source = source\<rparr>"

definition scope_meta :: "turn_event_scope \<Rightarrow> int \<Rightarrow> string \<Rightarrow> string \<Rightarrow> event_meta" where
  "scope_meta sc iteration source tracePath =
     \<lparr>em_AgentID = tes_agentID sc, em_TurnID = tes_turnID sc, em_SessionKey = tes_sessionKey sc,
      em_Iteration = iteration, em_TracePath = tracePath, em_Source = source\<rparr>"

section \<open>The restore point\<close>

definition captureRestorePoint :: "message list \<Rightarrow> string \<Rightarrow> turn_state \<Rightarrow> turn_state" where
  "captureRestorePoint h su ts = ts\<lparr>ts_restorePointHistory := h, ts_restorePointSummary := su\<rparr>"

definition recordPersistedMessage :: "message \<Rightarrow> turn_state \<Rightarrow> turn_state" where
  "recordPersistedMessage m ts = ts\<lparr>ts_persistedMessages := ts_persistedMessages ts @ [m]\<rparr>"

text \<open>The longest common tail, searched from the largest size down.\<close>

fun match_tail :: "message list \<Rightarrow> message list \<Rightarrow> nat \<Rightarrow> nat" where
  "match_tail history persisted 0 = 0"
| "match_tail history persisted (Suc n) =
     (if drop (length history - Suc n) history = drop (length persisted - Suc n) persisted then Suc n
      else match_tail history persisted n)"

definition matchingTurnMessageTail :: "message list \<Rightarrow> message list \<Rightarrow> nat" where
  "matchingTurnMessageTail history persisted =
     match_tail history persisted (min (length history) (length persisted))"

definition refreshRestorePointFromSession :: "sessions \<Rightarrow> turn_state \<Rightarrow> turn_state" where
  "refreshRestorePointFromSession store ts =
     (let history = ss_history store (ts_sessionKey ts);
          summary = ss_summary store (ts_sessionKey ts);
          matched = matchingTurnMessageTail history (ts_persistedMessages ts);
          history' = (if matched > 0 then take (length history - matched) history else history)
      in captureRestorePoint history' summary ts)"

definition restoreSession :: "turn_state \<Rightarrow> sessions \<Rightarrow> sessions" where
  "restoreSession ts store =
     ss_setSummary (ts_sessionKey ts) (ts_restorePointSummary ts)
       (ss_setHistory (ts_sessionKey ts) (ts_restorePointHistory ts) store)"

end
