(* ===== verification/Hooks.thy ===== *)
theory Hooks
  imports TurnState "HOL-Library.Product_Lexorder"
begin

text \<open>
  \<^verbatim>\<open>pkg/agent/hooks.go\<close>: the manager of the hooks that may observe, rewrite or stop what the agent
  loop does. A hook is a record of the interfaces it implements; what it answers is its code, an
  argument of the model: a value with a decision, or a failure (an error, or no answer in time,
  which the manager treats alike for interceptors and apart for approvals). The map of the manager
  is an association list in iteration order. Requests are values, so the copies the code makes
  before it hands one to a hook are the values themselves.
\<close>

section \<open>Requests and decisions\<close>

datatype hook_action =
    HookActionContinue | HookActionModify | HookActionRespond | HookActionDenyTool
  | HookActionAbortTurn | HookActionHardAbort | HookActionOther string

record hook_decision =
  hd_Action :: hook_action
  hd_Reason :: string

text \<open>The empty action is \<open>HookActionOther []\<close>.\<close>

definition normalizedAction :: "hook_decision \<Rightarrow> hook_action" where
  "normalizedAction d = (if hd_Action d = HookActionOther [] then HookActionContinue else hd_Action d)"

definition continue_decision :: hook_decision where
  "continue_decision = \<lparr>hd_Action = HookActionContinue, hd_Reason = []\<rparr>"

record approval_decision =
  ad_Approved :: bool
  ad_Reason :: string

record llm_response =
  lr_Content :: string
  lr_ReasoningContent :: string
  lr_ToolCalls :: "tool_call list"
  lr_FinishReason :: string
  lr_Usage :: "usage_info option"
  lr_Reasoning :: string

record llm_hook_request =
  lq_Meta :: event_meta
  lq_Model :: string
  lq_Messages :: "message list"
  lq_Tools :: "tool_definition list"
  lq_Options :: object
  lq_Channel :: string
  lq_ChatID :: string
  lq_GracefulTerminal :: bool

record llm_hook_response =
  lp_Meta :: event_meta
  lp_Model :: string
  lp_Response :: "llm_response option"
  lp_Channel :: string
  lp_ChatID :: string

record tool_call_hook_request =
  tq_Meta :: event_meta
  tq_Tool :: string
  tq_Arguments :: object
  tq_Channel :: string
  tq_ChatID :: string
  tq_HookResult :: "tool_result option"

record tool_approval_request =
  ta_Meta :: event_meta
  ta_Tool :: string
  ta_Arguments :: object
  ta_Channel :: string
  ta_ChatID :: string

record tool_result_hook_response =
  tp_Meta :: event_meta
  tp_Tool :: string
  tp_Arguments :: object
  tp_Result :: "tool_result option"
  tp_Channel :: string
  tp_ChatID :: string

text \<open>An answer of an interceptor: a pointer, which may be nil, and a decision.\<close>

type_synonym 'a hook_reply = "('a option \<times> hook_decision) option"

datatype approval_reply = ApprovalReply approval_decision | ApprovalFailed | ApprovalTimedOut

datatype hook_source = HookSourceInProcess | HookSourceProcess

record hook =
  hk_LLM :: "((llm_hook_request \<Rightarrow> llm_hook_request hook_reply) \<times> (llm_hook_response \<Rightarrow> llm_hook_response hook_reply)) option"
  hk_Tool :: "((tool_call_hook_request \<Rightarrow> tool_call_hook_request hook_reply)
               \<times> (tool_result_hook_response \<Rightarrow> tool_result_hook_response hook_reply)) option"
  hk_Approver :: "(tool_approval_request \<Rightarrow> approval_reply) option"

record hook_registration =
  hr_Name :: string
  hr_Priority :: int
  hr_Source :: hook_source
  hr_Hook :: "hook option"

section \<open>The manager\<close>

record hook_manager =
  hm_hooks :: "(string \<times> hook_registration) list"
  hm_ordered :: "hook_registration list"
  hm_closed :: "string list"

definition newHookManager :: hook_manager where
  "newHookManager = \<lparr>hm_hooks = [], hm_ordered = [], hm_closed = []\<rparr>"

definition source_rank :: "hook_source \<Rightarrow> nat" where
  "source_rank s = (case s of HookSourceInProcess \<Rightarrow> 0 | HookSourceProcess \<Rightarrow> 1)"

definition hook_key :: "hook_registration \<Rightarrow> nat \<times> int \<times> string" where
  "hook_key r = (source_rank (hr_Source r), hr_Priority r, hr_Name r)"

definition rebuildOrdered :: "hook_manager \<Rightarrow> hook_manager" where
  "rebuildOrdered hm = hm\<lparr>hm_ordered := sort_key hook_key (map snd (hm_hooks hm))\<rparr>"

datatype mount_error = HookNameRequired | HookIsNil string

text \<open>The names of the hooks that were closed are kept in the order of the calls of \<^verbatim>\<open>Close\<close>.\<close>

definition close_existing :: "string \<Rightarrow> hook_manager \<Rightarrow> hook_manager" where
  "close_existing name hm =
     (case map_of (hm_hooks hm) name of
        None \<Rightarrow> hm
      | Some r \<Rightarrow> hm\<lparr>hm_closed := hm_closed hm @ [hr_Name r]\<rparr>)"

definition mount :: "hook_registration \<Rightarrow> hook_manager \<Rightarrow> mount_error option \<times> hook_manager" where
  "mount reg hm =
     (if hr_Name reg = [] then (Some HookNameRequired, hm)
      else if hr_Hook reg = None then (Some (HookIsNil (hr_Name reg)), hm)
      else
        let hm1 = close_existing (hr_Name reg) hm;
            hm2 = hm1\<lparr>hm_hooks := AList.update (hr_Name reg) reg (hm_hooks hm1)\<rparr>
        in (None, rebuildOrdered hm2))"

definition unmount :: "string \<Rightarrow> hook_manager \<Rightarrow> hook_manager" where
  "unmount name hm =
     (if name = [] then hm
      else
        let hm1 = close_existing name hm;
            hm2 = hm1\<lparr>hm_hooks := AList.delete name (hm_hooks hm1)\<rparr>
        in rebuildOrdered hm2)"

definition closeAllHooks :: "hook_manager \<Rightarrow> hook_manager" where
  "closeAllHooks hm =
     hm\<lparr>hm_closed := hm_closed hm @ map (hr_Name \<circ> snd) (hm_hooks hm), hm_hooks := [], hm_ordered := []\<rparr>"

section \<open>The chains\<close>

text \<open>Which interceptor a registration holds.\<close>

definition llm_before :: "hook_registration \<Rightarrow> (llm_hook_request \<Rightarrow> llm_hook_request hook_reply) option" where
  "llm_before r = Option.bind (hr_Hook r) (\<lambda>h. map_option fst (hk_LLM h))"

definition llm_after :: "hook_registration \<Rightarrow> (llm_hook_response \<Rightarrow> llm_hook_response hook_reply) option" where
  "llm_after r = Option.bind (hr_Hook r) (\<lambda>h. map_option snd (hk_LLM h))"

definition tool_before :: "hook_registration \<Rightarrow> (tool_call_hook_request \<Rightarrow> tool_call_hook_request hook_reply) option" where
  "tool_before r = Option.bind (hr_Hook r) (\<lambda>h. map_option fst (hk_Tool h))"

definition tool_after :: "hook_registration \<Rightarrow> (tool_result_hook_response \<Rightarrow> tool_result_hook_response hook_reply) option" where
  "tool_after r = Option.bind (hr_Hook r) (\<lambda>h. map_option snd (hk_Tool h))"

definition approver :: "hook_registration \<Rightarrow> (tool_approval_request \<Rightarrow> approval_reply) option" where
  "approver r = Option.bind (hr_Hook r) hk_Approver"

definition or_current :: "'a option \<Rightarrow> 'a \<Rightarrow> 'a" where
  "or_current next current = (case next of Some v \<Rightarrow> v | None \<Rightarrow> current)"

fun before_llm_loop :: "hook_registration list \<Rightarrow> llm_hook_request \<Rightarrow> llm_hook_request \<times> hook_decision" where
  "before_llm_loop [] current = (current, continue_decision)"
| "before_llm_loop (reg # regs) current =
     (case llm_before reg of
        None \<Rightarrow> before_llm_loop regs current
      | Some f \<Rightarrow>
          (case f current of
             None \<Rightarrow> before_llm_loop regs current
           | Some (next, decision) \<Rightarrow>
               (case normalizedAction decision of
                  HookActionContinue \<Rightarrow> before_llm_loop regs (or_current next current)
                | HookActionModify \<Rightarrow> before_llm_loop regs (or_current next current)
                | HookActionAbortTurn \<Rightarrow> (current, decision)
                | HookActionHardAbort \<Rightarrow> (current, decision)
                | _ \<Rightarrow> before_llm_loop regs current)))"

definition beforeLLM :: "hook_manager \<Rightarrow> llm_hook_request \<Rightarrow> llm_hook_request \<times> hook_decision" where
  "beforeLLM hm req = before_llm_loop (hm_ordered hm) req"

fun after_llm_loop :: "hook_registration list \<Rightarrow> llm_hook_response \<Rightarrow> llm_hook_response \<times> hook_decision" where
  "after_llm_loop [] current = (current, continue_decision)"
| "after_llm_loop (reg # regs) current =
     (case llm_after reg of
        None \<Rightarrow> after_llm_loop regs current
      | Some f \<Rightarrow>
          (case f current of
             None \<Rightarrow> after_llm_loop regs current
           | Some (next, decision) \<Rightarrow>
               (case normalizedAction decision of
                  HookActionContinue \<Rightarrow> after_llm_loop regs (or_current next current)
                | HookActionModify \<Rightarrow> after_llm_loop regs (or_current next current)
                | HookActionAbortTurn \<Rightarrow> (current, decision)
                | HookActionHardAbort \<Rightarrow> (current, decision)
                | _ \<Rightarrow> after_llm_loop regs current)))"

definition afterLLM :: "hook_manager \<Rightarrow> llm_hook_response \<Rightarrow> llm_hook_response \<times> hook_decision" where
  "afterLLM hm resp = after_llm_loop (hm_ordered hm) resp"

text \<open>A hook may answer in the tool's place; its answer is returned as it is, nil included.\<close>

fun before_tool_loop ::
  "hook_registration list \<Rightarrow> tool_call_hook_request \<Rightarrow> tool_call_hook_request option \<times> hook_decision" where
  "before_tool_loop [] current = (Some current, continue_decision)"
| "before_tool_loop (reg # regs) current =
     (case tool_before reg of
        None \<Rightarrow> before_tool_loop regs current
      | Some f \<Rightarrow>
          (case f current of
             None \<Rightarrow> before_tool_loop regs current
           | Some (next, decision) \<Rightarrow>
               (case normalizedAction decision of
                  HookActionContinue \<Rightarrow> before_tool_loop regs (or_current next current)
                | HookActionModify \<Rightarrow> before_tool_loop regs (or_current next current)
                | HookActionRespond \<Rightarrow> (next, decision)
                | HookActionDenyTool \<Rightarrow> (Some current, decision)
                | HookActionAbortTurn \<Rightarrow> (Some current, decision)
                | HookActionHardAbort \<Rightarrow> (Some current, decision)
                | HookActionOther _ \<Rightarrow> before_tool_loop regs current)))"

definition beforeTool :: "hook_manager \<Rightarrow> tool_call_hook_request \<Rightarrow> tool_call_hook_request option \<times> hook_decision" where
  "beforeTool hm call = before_tool_loop (hm_ordered hm) call"

fun after_tool_loop ::
  "hook_registration list \<Rightarrow> tool_result_hook_response \<Rightarrow> tool_result_hook_response \<times> hook_decision" where
  "after_tool_loop [] current = (current, continue_decision)"
| "after_tool_loop (reg # regs) current =
     (case tool_after reg of
        None \<Rightarrow> after_tool_loop regs current
      | Some f \<Rightarrow>
          (case f current of
             None \<Rightarrow> after_tool_loop regs current
           | Some (next, decision) \<Rightarrow>
               (case normalizedAction decision of
                  HookActionContinue \<Rightarrow> after_tool_loop regs (or_current next current)
                | HookActionModify \<Rightarrow> after_tool_loop regs (or_current next current)
                | HookActionAbortTurn \<Rightarrow> (current, decision)
                | HookActionHardAbort \<Rightarrow> (current, decision)
                | _ \<Rightarrow> after_tool_loop regs current)))"

definition afterTool ::
  "hook_manager \<Rightarrow> tool_result_hook_response \<Rightarrow> tool_result_hook_response \<times> hook_decision" where
  "afterTool hm result = after_tool_loop (hm_ordered hm) result"

fun approve_loop :: "hook_registration list \<Rightarrow> tool_approval_request \<Rightarrow> approval_decision" where
  "approve_loop [] req = \<lparr>ad_Approved = True, ad_Reason = []\<rparr>"
| "approve_loop (reg # regs) req =
     (case approver reg of
        None \<Rightarrow> approve_loop regs req
      | Some f \<Rightarrow>
          (case f req of
             ApprovalFailed \<Rightarrow>
               \<lparr>ad_Approved = False, ad_Reason = ''tool approval hook '' @ go_quote (hr_Name reg) @ '' failed''\<rparr>
           | ApprovalTimedOut \<Rightarrow>
               \<lparr>ad_Approved = False, ad_Reason = ''tool approval hook '' @ go_quote (hr_Name reg) @ '' timed out''\<rparr>
           | ApprovalReply decision \<Rightarrow>
               if \<not> ad_Approved decision then decision else approve_loop regs req))"

definition approveTool :: "hook_manager \<Rightarrow> tool_approval_request \<Rightarrow> approval_decision" where
  "approveTool hm req = approve_loop (hm_ordered hm) req"

definition hookDeniedToolContent :: "string \<Rightarrow> string \<Rightarrow> string" where
  "hookDeniedToolContent pre reason = (if reason = [] then pre else pre @ '': '' @ reason)"

section \<open>Reachable managers\<close>

datatype hook_op = OpMount hook_registration | OpUnmount string | OpCloseAll

fun hook_exec :: "hook_op \<Rightarrow> hook_manager \<Rightarrow> hook_manager" where
  "hook_exec (OpMount r) hm = snd (mount r hm)"
| "hook_exec (OpUnmount n) hm = unmount n hm"
| "hook_exec OpCloseAll hm = closeAllHooks hm"

definition hooks_inv :: "hook_manager \<Rightarrow> bool" where
  "hooks_inv hm \<longleftrightarrow> distinct (map fst (hm_hooks hm))
     \<and> (\<forall>(n, r) \<in> set (hm_hooks hm). hr_Name r = n \<and> n \<noteq> [] \<and> hr_Hook r \<noteq> None)
     \<and> hm_ordered hm = sort_key hook_key (map snd (hm_hooks hm))"

lemma hooks_new [inv_intros]: "hooks_inv newHookManager"
  by (simp add: hooks_inv_def newHookManager_def)

lemma close_existing_simps [simp]:
  "hm_hooks (close_existing n hm) = hm_hooks hm" "hm_ordered (close_existing n hm) = hm_ordered hm"
  by (simp_all add: close_existing_def split: option.splits)

lemma alist_update_set: "set (AList.update k v xs) \<subseteq> insert (k, v) (set xs)"
  by (induction xs) auto

lemma alist_delete_set: "set (AList.delete k xs) \<subseteq> set xs"
  by (auto simp: AList.delete_eq)

lemma mount_inv: "hooks_inv hm \<Longrightarrow> hooks_inv (snd (mount r hm))"
  using alist_update_set [of "hr_Name r" r "hm_hooks hm"]
  by (auto simp: mount_def hooks_inv_def rebuildOrdered_def Let_def distinct_update)

lemma unmount_inv: "hooks_inv hm \<Longrightarrow> hooks_inv (unmount n hm)"
  using alist_delete_set [of n "hm_hooks hm"]
  by (auto simp: unmount_def hooks_inv_def rebuildOrdered_def Let_def distinct_delete)

lemma closeAll_inv: "hooks_inv hm \<Longrightarrow> hooks_inv (closeAllHooks hm)"
  by (simp add: closeAllHooks_def hooks_inv_def)

lemma hook_exec_inv: "hooks_inv hm \<Longrightarrow> hooks_inv (hook_exec op hm)"
  by (cases op) (simp_all add: mount_inv unmount_inv closeAll_inv)

lemma hook_fold_inv: "hooks_inv hm \<Longrightarrow> hooks_inv (fold hook_exec ops hm)"
  by (induction ops arbitrary: hm) (simp_all add: hook_exec_inv)

lemma hooks_inv_keys:
  assumes "hooks_inv hm"
  shows "inj_on hook_key (set (hm_ordered hm))" "distinct (hm_ordered hm)"
    "sorted (map hook_key (hm_ordered hm))" "set (hm_ordered hm) = snd ` set (hm_hooks hm)"
proof -
  have o: "hm_ordered hm = sort_key hook_key (map snd (hm_hooks hm))"
    and k: "distinct (map fst (hm_hooks hm))"
    and n: "\<And>x r. (x, r) \<in> set (hm_hooks hm) \<Longrightarrow> hr_Name r = x"
    using assms by (auto simp: hooks_inv_def)
  show s: "set (hm_ordered hm) = snd ` set (hm_hooks hm)" by (simp add: o)
  have i: "inj_on snd (set (hm_hooks hm))"
    by (rule inj_onI) (use n in \<open>metis prod.collapse\<close>)
  have q: "r = r'" if "(x, r) \<in> set (hm_hooks hm)" "(x, r') \<in> set (hm_hooks hm)" for x r r'
    using eq_key_imp_eq_value [OF k] that by blast
  show "inj_on hook_key (set (hm_ordered hm))"
    unfolding s by (rule inj_onI) (use n q in \<open>fastforce simp: hook_key_def\<close>)
  show "distinct (hm_ordered hm)"
    using k i by (simp add: o distinct_map)
  show "sorted (map hook_key (hm_ordered hm))" by (simp add: o)
qed

lemma hook_order_unique:
  assumes "hooks_inv hm" "hooks_inv hm'" "map_of (hm_hooks hm) = map_of (hm_hooks hm')"
  shows "hm_ordered hm = hm_ordered hm'"
proof -
  have d: "distinct (map fst (hm_hooks hm))" "distinct (map fst (hm_hooks hm'))"
    using assms(1,2) by (simp_all add: hooks_inv_def)
  have "set (hm_hooks hm) = set (hm_hooks hm')"
    using assms(3) map_of_eq_Some_iff [OF d(1)] map_of_eq_Some_iff [OF d(2)] by auto
  moreover have "distinct (hm_hooks hm)" "distinct (hm_hooks hm')"
    using d by (simp_all add: distinct_map)
  ultimately have "mset (hm_hooks hm) = mset (hm_hooks hm')" using set_eq_iff_mset_eq_distinct by blast
  then have "image_mset snd (mset (hm_hooks hm)) = image_mset snd (mset (hm_hooks hm'))" by (rule arg_cong [where f = "image_mset snd"])
  then have m: "mset (map snd (hm_hooks hm)) = mset (map snd (hm_hooks hm'))" by simp
  note i = hooks_inv_keys [OF assms(1)]
  have o: "hm_ordered hm = sort_key hook_key (map snd (hm_hooks hm))"
    and o': "hm_ordered hm' = sort_key hook_key (map snd (hm_hooks hm'))"
    using assms(1,2) by (simp_all add: hooks_inv_def)
  have j: "inj_on hook_key (set (map snd (hm_hooks hm)))" using i(1) by (simp add: o)
  show ?thesis unfolding o by (rule sort_key_inj_key_eq [OF _ j]) (use m o' in simp_all)
qed

section \<open>What a chain does\<close>

text \<open>The rewriting of one tool hook, and whether it stops the chain.\<close>

definition tool_rewrite :: "hook_registration \<Rightarrow> tool_call_hook_request \<Rightarrow> tool_call_hook_request" where
  "tool_rewrite reg current =
     (case Option.bind (tool_before reg) (\<lambda>f. f current) of
        Some (Some next, d) \<Rightarrow>
          if normalizedAction d \<in> {HookActionContinue, HookActionModify} then next else current
      | _ \<Rightarrow> current)"

definition tool_stop ::
  "hook_registration \<Rightarrow> tool_call_hook_request \<Rightarrow> (tool_call_hook_request option \<times> hook_decision) option" where
  "tool_stop reg current =
     (case Option.bind (tool_before reg) (\<lambda>f. f current) of
        Some (next, d) \<Rightarrow>
          if normalizedAction d = HookActionRespond then Some (next, d)
          else if normalizedAction d \<in> {HookActionDenyTool, HookActionAbortTurn, HookActionHardAbort}
          then Some (Some current, d) else None
      | None \<Rightarrow> None)"

lemma before_tool_step:
  "before_tool_loop (reg # regs) current =
     (case tool_stop reg current of
        Some r \<Rightarrow> r
      | None \<Rightarrow> before_tool_loop regs (tool_rewrite reg current))"
  by (auto simp: tool_stop_def tool_rewrite_def or_current_def split: option.splits hook_action.splits)

declare before_tool_loop.simps(2) [simp del]

lemma before_tool_spec:
  "(\<exists>pre reg post r. regs = pre @ reg # post
      \<and> (\<forall>i<length pre. tool_stop (pre ! i) (fold tool_rewrite (take i pre) current) = None)
      \<and> tool_stop reg (fold tool_rewrite pre current) = Some r \<and> before_tool_loop regs current = r)
   \<or> ((\<forall>i<length regs. tool_stop (regs ! i) (fold tool_rewrite (take i regs) current) = None)
      \<and> before_tool_loop regs current = (Some (fold tool_rewrite regs current), continue_decision))"
proof (induction regs arbitrary: current)
  case (Cons reg regs)
  show ?case
  proof (cases "tool_stop reg current")
    case (Some r)
    then show ?thesis
      by (intro disjI1 exI [of _ "[]"] exI [of _ reg] exI [of _ regs] exI [of _ r]) (simp add: before_tool_step)
  next
    case None
    from Cons [of "tool_rewrite reg current"] show ?thesis
    proof (elim disjE exE conjE)
      fix pre r' post r
      assume a: "regs = pre @ r' # post"
        "\<forall>i<length pre. tool_stop (pre ! i) (fold tool_rewrite (take i pre) (tool_rewrite reg current)) = None"
        "tool_stop r' (fold tool_rewrite pre (tool_rewrite reg current)) = Some r"
        "before_tool_loop regs (tool_rewrite reg current) = r"
      have "\<forall>i<length (reg # pre). tool_stop ((reg # pre) ! i) (fold tool_rewrite (take i (reg # pre)) current) = None"
        using a(2) None by (auto simp: less_Suc_eq_0_disj)
      with a None show ?thesis
        by (intro disjI1 exI [of _ "reg # pre"] exI [of _ r'] exI [of _ post] exI [of _ r])
          (simp add: before_tool_step)
    next
      assume "\<forall>i<length regs. tool_stop (regs ! i) (fold tool_rewrite (take i regs) (tool_rewrite reg current)) = None"
        "before_tool_loop regs (tool_rewrite reg current)
           = (Some (fold tool_rewrite regs (tool_rewrite reg current)), continue_decision)"
      with None show ?thesis by (intro disjI2) (auto simp: before_tool_step less_Suc_eq_0_disj)
    qed
  qed
qed simp

lemma approve_iff:
  "ad_Approved (approve_loop regs req) \<longleftrightarrow>
     (\<forall>reg\<in>set regs. \<forall>f. approver reg = Some f \<longrightarrow> (\<exists>d. f req = ApprovalReply d \<and> ad_Approved d))"
  by (induction regs) (auto split: option.splits approval_reply.splits)

section \<open>Properties\<close>

text \<open>Claim C40. The hooks of a tool call. After any sequence of mounting, unmounting and closing, the
  manager runs each mounted hook once, in-process hooks first, then by priority, then by name, in an
  order that depends on what is mounted only and not on the order of the map. Approval fails closed:
  a call is approved if and only if every approver answers, in time and without error, that it is.
  Interception fails open: a hook that fails, or asks for something its stage does not know, leaves
  the call as it was. The call that goes on is the original one rewritten by the hooks in order, and
  the first hook that denies, aborts or answers itself stops the chain with the call as the hooks
  before it rewrote it (its own answer, if it answers).\<close>

theorem hook_chain_contract:
  assumes "hm = fold hook_exec ops newHookManager" and "hm' = fold hook_exec ops' newHookManager"
  shows "sorted (map hook_key (hm_ordered hm)) \<and> distinct (hm_ordered hm)
     \<and> (\<forall>r. r \<in> set (hm_ordered hm) \<longleftrightarrow> map_of (hm_hooks hm) (hr_Name r) = Some r)
     \<and> (map_of (hm_hooks hm) = map_of (hm_hooks hm') \<longrightarrow> hm_ordered hm = hm_ordered hm')
     \<and> (ad_Approved (approveTool hm areq) \<longleftrightarrow>
          (\<forall>reg\<in>set (hm_ordered hm). \<forall>f. approver reg = Some f \<longrightarrow>
             (\<exists>d. f areq = ApprovalReply d \<and> ad_Approved d)))
     \<and> ((\<exists>pre reg post r. hm_ordered hm = pre @ reg # post
            \<and> (\<forall>i<length pre. tool_stop (pre ! i) (fold tool_rewrite (take i pre) call) = None)
            \<and> tool_stop reg (fold tool_rewrite pre call) = Some r \<and> beforeTool hm call = r)
        \<or> ((\<forall>i<length (hm_ordered hm).
               tool_stop (hm_ordered hm ! i) (fold tool_rewrite (take i (hm_ordered hm)) call) = None)
            \<and> beforeTool hm call = (Some (fold tool_rewrite (hm_ordered hm) call), continue_decision)))"
proof -
  have i: "hooks_inv hm" "hooks_inv hm'" using assms by (simp_all add: hook_fold_inv hooks_new)
  have d: "distinct (map fst (hm_hooks hm))" using i(1) by (simp add: hooks_inv_def)
  have m: "r \<in> set (hm_ordered hm) \<longleftrightarrow> map_of (hm_hooks hm) (hr_Name r) = Some r" for r
    using i(1) hooks_inv_keys(4) [OF i(1)]
    by (force simp: hooks_inv_def map_of_eq_Some_iff [OF d])
  show ?thesis
    using hooks_inv_keys [OF i(1)] m hook_order_unique [OF i] before_tool_spec [of "hm_ordered hm" call]
    by (auto simp: approve_iff approveTool_def beforeTool_def)
qed

definition demo_approver :: "string \<Rightarrow> bool \<Rightarrow> hook_registration" where
  "demo_approver name ok =
     \<lparr>hr_Name = name, hr_Priority = 0, hr_Source = HookSourceProcess,
      hr_Hook = Some \<lparr>hk_LLM = None, hk_Tool = None,
        hk_Approver = Some (\<lambda>_. if ok then ApprovalReply \<lparr>ad_Approved = True, ad_Reason = []\<rparr> else ApprovalTimedOut)\<rparr>\<rparr>"

definition demo_manager :: hook_manager where
  "demo_manager = fold hook_exec [OpMount (demo_approver ''b'' True), OpMount (demo_approver ''a'' False)] newHookManager"

definition demo_areq :: tool_approval_request where
  "demo_areq = \<lparr>ta_Meta = \<lparr>em_AgentID = [], em_TurnID = [], em_SessionKey = [], em_Iteration = 0,
      em_TracePath = [], em_Source = []\<rparr>, ta_Tool = ''exec'', ta_Arguments = [], ta_Channel = [], ta_ChatID = []\<rparr>"

theorem hook_chain_contract_witness:
  "map hr_Name (hm_ordered demo_manager) = [''a'', ''b''] \<and> \<not> ad_Approved (approveTool demo_manager demo_areq)
   \<and> distinct (hm_ordered demo_manager)"
proof -
  have o: "map hr_Name (hm_ordered demo_manager) = [''a'', ''b'']" by code_simp
  have m: "hm_ordered demo_manager = [demo_approver ''a'' False, demo_approver ''b'' True]"
    by (simp add: demo_manager_def mount_def demo_approver_def Let_def rebuildOrdered_def newHookManager_def
        close_existing_def hook_key_def source_rank_def)
  note c = hook_chain_contract [where areq = demo_areq, OF demo_manager_def demo_manager_def]
  have "\<not> ad_Approved (approveTool demo_manager demo_areq)"
    using c m by (simp add: approver_def demo_approver_def)
  with o c show ?thesis by blast
qed

end
