(* ===== verification/LegacyContext.thy ===== *)
theory LegacyContext
  imports TurnState ContextBudget
begin

text \<open>
  \<^verbatim>\<open>pkg/agent/context_legacy.go\<close>: the default context manager. It reads a session's history as it
  is, drops the older half of its turns when a request is too large, and replaces older messages by
  a summary an LLM writes. The manager always works on the store of the registry's default agent.
  The LLM is the argument \<open>chat\<close>: the answer to the \<open>n\<close>-th call. Summarising runs beside the turns
  of the session, so what happens to the store between its reading and its writing is an argument
  (\<open>late\<close>). Windows and percentages are taken to be non-negative.
\<close>

section \<open>Agents and answers\<close>

record legacy_agent =
  la_ID :: string
  la_ContextWindow :: int
  la_SummarizeMessageThreshold :: int
  la_SummarizeTokenPercent :: int

text \<open>An error, or a response that may be nil, of which only the content is read.\<close>

datatype chat_reply = ChatErr string | ChatOK "string option"

type_synonym chat = "nat \<Rightarrow> string \<Rightarrow> chat_reply"

section \<open>Assembling\<close>

text \<open>The agent's store, if the registry has an agent at all.\<close>

definition lcm_assemble :: "sessions option \<Rightarrow> string \<Rightarrow> message list \<times> string" where
  "lcm_assemble store key =
     (case store of None \<Rightarrow> ([], []) | Some s \<Rightarrow> (ss_history s key, ss_summary s key))"

section \<open>Emergency compression\<close>

definition last_user :: "message list \<Rightarrow> message list" where
  "last_user h = (case List.find (\<lambda>m. msg_Role m = ''user'') (rev h) of None \<Rightarrow> [] | Some m \<Rightarrow> [m])"

definition compression_cut :: "message list \<Rightarrow> int" where
  "compression_cut history =
     (let turns = parseTurnBoundaries history
      in if length turns \<ge> 2 then int (turns ! (length turns div 2))
         else findSafeBoundary history (int (length history) div 2))"

definition compression_kept :: "message list \<Rightarrow> message list" where
  "compression_kept history =
     (let mid = compression_cut history
      in if mid \<le> 0 then last_user history else drop (nat mid) history)"

definition compression_note :: "nat \<Rightarrow> string \<Rightarrow> string" where
  "compression_note dropped existing =
     (let note = ''[Emergency compression dropped '' @ decimal dropped @ '' oldest messages due to context limit]''
      in if existing \<noteq> [] then existing @ newline @ newline @ note else note)"

definition forceCompression :: "string \<Rightarrow> sessions \<Rightarrow> (nat \<times> nat) option \<times> sessions" where
  "forceCompression key store =
     (let history = ss_history store key
      in if length history \<le> 2 then (None, store)
         else
           let kept = compression_kept history;
               dropped = length history - length kept;
               store1 = ss_setSummary key (compression_note dropped (ss_summary store key)) store;
               store2 = ss_setHistory key kept store1
           in (Some (dropped, length kept), store2))"

section \<open>The summary\<close>

text \<open>\<open>retryLLMCall\<close>: the first answer with content, else the last answer.\<close>

fun retry_loop :: "chat \<Rightarrow> string \<Rightarrow> nat \<Rightarrow> nat \<Rightarrow> chat_reply \<Rightarrow> chat_reply \<times> nat" where
  "retry_loop chat prompt 0 n r = (r, n)"
| "retry_loop chat prompt (Suc left) n r =
     (case chat n prompt of
        ChatOK (Some c) \<Rightarrow> if c \<noteq> [] then (ChatOK (Some c), Suc n) else retry_loop chat prompt left (Suc n) (ChatOK (Some c))
      | r' \<Rightarrow> retry_loop chat prompt left (Suc n) r')"

definition retryLLMCall :: "chat \<Rightarrow> nat \<Rightarrow> string \<Rightarrow> nat \<Rightarrow> chat_reply \<times> nat" where
  "retryLLMCall chat n prompt maxRetries = retry_loop chat prompt maxRetries n (ChatOK None)"

definition batch_prompt :: "message list \<Rightarrow> string \<Rightarrow> string" where
  "batch_prompt batch existingSummary =
     ''Provide a concise summary of this conversation segment, preserving core context and key points.'' @ newline
     @ (if existingSummary \<noteq> [] then ''Existing context: '' @ existingSummary @ newline else [])
     @ newline @ ''CONVERSATION:'' @ newline
     @ concat (map (\<lambda>m. msg_Role m @ '': '' @ msg_Content m @ newline) batch)"

definition string_of_runes :: "nat list \<Rightarrow> string" where
  "string_of_runes rs = map char_of (concat (map encode_rune rs))"

definition fallback_entry :: "message \<Rightarrow> string" where
  "fallback_entry m =
     (let content = trim_space (msg_Content m);
          rs = runes content
      in if rs = [] then msg_Role m @ '': ''
         else
           let k0 = length rs * 10 div 100;
               k1 = (if k0 < 200 then 200 else k0);
               k = (if k1 > length rs then length rs else k1);
               text = string_of_runes (take k rs) @ (if k < length rs then ''...'' else [])
           in msg_Role m @ '': '' @ text)"

definition fallback_text :: "message list \<Rightarrow> string" where
  "fallback_text batch = ''Conversation summary: '' @ str_join '' | '' (map fallback_entry batch)"

text \<open>A nil response without an error makes the code read through a nil pointer: \<open>None\<close>.\<close>

definition summarizeBatch :: "chat \<Rightarrow> nat \<Rightarrow> message list \<Rightarrow> string \<Rightarrow> (string \<times> nat) option" where
  "summarizeBatch chat n batch existingSummary =
     (case retryLLMCall chat n (batch_prompt batch existingSummary) 3 of
        (ChatOK None, _) \<Rightarrow> None
      | (ChatOK (Some c), n') \<Rightarrow> Some (if c \<noteq> [] then trim_space c else fallback_text batch, n')
      | (ChatErr _, n') \<Rightarrow> Some (fallback_text batch, n'))"

definition is_user :: "message \<Rightarrow> bool" where
  "is_user m \<longleftrightarrow> msg_Role m = ''user''"

fun back_to_user :: "message list \<Rightarrow> nat \<Rightarrow> nat" where
  "back_to_user ms 0 = 0"
| "back_to_user ms (Suc i) = (if is_user (ms ! Suc i) then Suc i else back_to_user ms i)"

definition findNearestUserMessage :: "message list \<Rightarrow> nat \<Rightarrow> nat" where
  "findNearestUserMessage ms mid =
     (let b = back_to_user ms mid
      in if is_user (ms ! b) then b
         else mid + (case List.find (\<lambda>i. is_user (ms ! (mid + i))) [0..<length ms - mid] of
                       Some i \<Rightarrow> i | None \<Rightarrow> 0))"

definition merge_prompt :: "string \<Rightarrow> string \<Rightarrow> string" where
  "merge_prompt s1 s2 =
     ''Merge these two conversation summaries into one cohesive summary:'' @ newline @ newline
     @ ''1: '' @ s1 @ newline @ newline @ ''2: '' @ s2"

text \<open>The messages that go into the summary, and whether one was too long for it.\<close>

definition summary_role :: "message \<Rightarrow> bool" where
  "summary_role m \<longleftrightarrow> msg_Role m = ''user'' \<or> msg_Role m = ''assistant''"

definition oversized :: "int \<Rightarrow> message \<Rightarrow> bool" where
  "oversized window m \<longleftrightarrow> int (length (msg_Content m)) div 2 > window div 2"

definition valid_messages :: "int \<Rightarrow> message list \<Rightarrow> message list" where
  "valid_messages window ms = filter (\<lambda>m. summary_role m \<and> \<not> oversized window m) ms"

definition omitted_some :: "int \<Rightarrow> message list \<Rightarrow> bool" where
  "omitted_some window ms \<longleftrightarrow> (\<exists>m\<in>set ms. summary_role m \<and> oversized window m)"

definition omitted_note :: string where
  "omitted_note = newline @ ''[Note: Some oversized messages were omitted from this summary for efficiency.]''"

definition final_summary :: "chat \<Rightarrow> nat \<Rightarrow> message list \<Rightarrow> string \<Rightarrow> string option" where
  "final_summary chat n valid summary =
     (if length valid > 10 then
        let mid = findNearestUserMessage valid (length valid div 2)
        in case summarizeBatch chat n (take mid valid) [] of
             None \<Rightarrow> None
           | Some (s1, n1) \<Rightarrow>
               (case summarizeBatch chat n1 (drop mid valid) [] of
                  None \<Rightarrow> None
                | Some (s2, n2) \<Rightarrow>
                    (case retryLLMCall chat n2 (merge_prompt s1 s2) 3 of
                       (ChatOK None, _) \<Rightarrow> None
                     | (ChatOK (Some c), _) \<Rightarrow> Some (if c \<noteq> [] then c else s1 @ '' '' @ s2)
                     | (ChatErr _, _) \<Rightarrow> Some (s1 @ '' '' @ s2)))
      else map_option fst (summarizeBatch chat n valid summary))"

text \<open>What is decided from the store when it is read: how many messages stay, and which are summed
  up.\<close>

definition summarize_plan :: "int \<Rightarrow> message list \<Rightarrow> (nat \<times> message list) option" where
  "summarize_plan window history =
     (if length history \<le> 4 then None
      else
        let safeCut = findSafeBoundary history (int (length history) - 4)
        in if safeCut \<le> 0 then None
           else
             let valid = valid_messages window (take (nat safeCut) history)
             in if valid = [] then None else Some (nat safeCut, valid))"

definition summarizeSession ::
  "legacy_agent \<Rightarrow> chat \<Rightarrow> nat \<Rightarrow> string \<Rightarrow> (sessions \<Rightarrow> sessions) \<Rightarrow> sessions \<Rightarrow> event_payload option \<times> sessions" where
  "summarizeSession agent chat n key late store =
     (let history = ss_history store key;
          summary = ss_summary store key
      in case summarize_plan (la_ContextWindow agent) history of
           None \<Rightarrow> (None, store)
         | Some (safeCut, valid) \<Rightarrow>
             (let keepCount = length history - safeCut;
                  omitted = omitted_some (la_ContextWindow agent) (take safeCut history);
                  store' = late store
              in case final_summary chat n valid summary of
                   None \<Rightarrow> (None, store')
                 | Some s0 \<Rightarrow>
                     (let s = (if omitted \<and> s0 \<noteq> [] then s0 @ omitted_note else s0)
                      in if s \<noteq> [] then
                           (Some (SessionSummarizePayload (length valid) (int keepCount) (length s) omitted),
                            ss_truncate key (int keepCount) (ss_setSummary key s store'))
                         else (None, store'))))"

text \<open>\<open>maybeSummarize\<close>: whether a summary is started, and the sessions one is running for.\<close>

definition estimateTokens :: "message list \<Rightarrow> int" where
  "estimateTokens ms = sum_list (map estimateMessageTokens ms)"

definition maybeSummarize :: "legacy_agent \<Rightarrow> string \<Rightarrow> sessions \<Rightarrow> string list \<Rightarrow> bool \<times> string list" where
  "maybeSummarize agent key store summarizing =
     (let newHistory = ss_history store key;
          tokenEstimate = estimateTokens newHistory;
          threshold = la_ContextWindow agent * la_SummarizeTokenPercent agent div 100
      in if int (length newHistory) > la_SummarizeMessageThreshold agent \<or> tokenEstimate > threshold then
           (let summarizeKey = la_ID agent @ '':'' @ key
            in if summarizeKey \<in> set summarizing then (False, summarizing)
               else (True, summarizeKey # summarizing))
         else (False, summarizing))"

section \<open>Lemmas\<close>

lemma user_index_nth:
  "k < length (user_indices i ms) \<Longrightarrow>
     i + k \<le> user_indices i ms ! k \<and> user_indices i ms ! k - i < length ms
     \<and> is_user (ms ! (user_indices i ms ! k - i))
     \<and> length (user_indices j (drop (user_indices i ms ! k - i) ms)) = length (user_indices i ms) - k"
proof (induction ms arbitrary: i k)
  case (Cons m ms)
  show ?case
  proof (cases "msg_Role m = ''user'' \<and> k = 0")
    case True
    have "length (user_indices a xs) = length (user_indices b xs)" for a b xs
      by (induction xs arbitrary: a b) auto
    with True show ?thesis by (auto simp: is_user_def)
  next
    case False
    define k' where "k' = (if msg_Role m = ''user'' then k - 1 else k)"
    have n: "user_indices i (m # ms) ! k = user_indices (Suc i) ms ! k'" "k' < length (user_indices (Suc i) ms)"
      using False Cons.prems by (auto simp: k'_def nth_Cons' split: if_splits)
    note IH = Cons.IH [OF n(2)]
    have "Suc i \<le> user_indices (Suc i) ms ! k'" using IH by linarith
    then have "user_indices (Suc i) ms ! k' - i = Suc (user_indices (Suc i) ms ! k' - Suc i)" by simp
    with IH n(1) False show ?thesis by (auto simp: k'_def split: if_splits)
  qed
qed simp

lemma find_SomeD: "List.find P xs = Some x \<Longrightarrow> x \<in> set xs \<and> P x"
  by (induction xs) (auto split: if_splits)

lemma last_user_spec:
  assumes "\<exists>m\<in>set h. is_user m" shows "\<exists>m\<in>set h. is_user m \<and> last_user h = [m]"
proof (cases "List.find is_user (rev h)")
  case None
  then have "\<forall>m\<in>set h. \<not> is_user m" by (simp add: find_None_iff)
  with assms show ?thesis by blast
next
  case (Some m)
  have f: "(\<lambda>m. msg_Role m = ''user'') = is_user" by (simp add: is_user_def fun_eq_iff)
  have "last_user h = [m]" unfolding last_user_def f Some by simp
  with find_SomeD [OF Some] show ?thesis by auto
qed

lemma tool_paired_single: "is_user m \<Longrightarrow> tool_paired [m]"
  by (simp add: tool_paired_def is_user_def)

lemma compression_user:
  assumes l: "2 < length h" and u: "\<exists>m\<in>set h. is_user m"
  shows "compression_kept h \<noteq> [] \<and> is_user (hd (compression_kept h)) \<and> length (compression_kept h) < length h
     \<and> (tool_paired h \<longrightarrow> tool_paired (compression_kept h))"
proof (cases "2 \<le> length (parseTurnBoundaries h)")
  case True
  define k where "k = length (parseTurnBoundaries h) div 2"
  have k: "0 < k" "k < length (user_indices 0 h)" using True by (auto simp: k_def parseTurnBoundaries_def)
  define j where "j = user_indices 0 h ! k"
  from user_index_nth [OF k(2), where j = 0] k(1) have j: "0 < j" "j < length h" "is_user (h ! j)" by (simp_all add: j_def)
  have jk: "parseTurnBoundaries h ! (length (parseTurnBoundaries h) div 2) = j"
    by (simp add: j_def k_def parseTurnBoundaries_def)
  have "compression_kept h = drop j h"
    using True j(1) by (simp add: compression_kept_def compression_cut_def Let_def jk)
  with j tool_paired_drop [of h j] show ?thesis by (simp add: hd_drop_conv_nth is_user_def)
next
  case False
  define r where "r = findSafeBoundary h (int (length h) div 2)"
  have c: "compression_kept h = (if r \<le> 0 then last_user h else drop (nat r) h)"
    using False by (simp add: compression_kept_def compression_cut_def r_def)
  have t: "0 < int (length h) div 2" "int (length h) div 2 < int (length h)" using l by simp_all
  have u': "\<exists>k<length h. msg_Role (h ! k) = ''user''"
    using u by (auto simp: is_user_def in_set_conv_nth)
  have "r = 0 \<or> (\<exists>k. r = int k \<and> 0 < k \<and> k < length h \<and> msg_Role (h ! k) = ''user'')"
    using findSafeBoundary_cases [OF t u'] t(1) by (auto simp: r_def [symmetric])
  then show ?thesis
  proof (elim disjE exE conjE)
    assume "r = 0"
    with c last_user_spec [OF u] l tool_paired_single show ?thesis by auto
  next
    fix k assume "r = int k" "0 < k" "k < length h" "msg_Role (h ! k) = ''user''"
    with c tool_paired_drop [of h k] show ?thesis by (simp add: hd_drop_conv_nth is_user_def)
  qed
qed

lemma compression_turns:
  assumes "2 \<le> length (parseTurnBoundaries h)"
  shows "suffix (compression_kept h) h
     \<and> length (parseTurnBoundaries (compression_kept h))
        = length (parseTurnBoundaries h) - length (parseTurnBoundaries h) div 2"
proof -
  define k where "k = length (parseTurnBoundaries h) div 2"
  have k: "0 < k" "k < length (user_indices 0 h)" using assms by (auto simp: k_def parseTurnBoundaries_def)
  define j where "j = user_indices 0 h ! k"
  from user_index_nth [OF k(2), where j = 0] k(1) have j: "0 < j" by (simp add: j_def)
  have jk: "parseTurnBoundaries h ! (length (parseTurnBoundaries h) div 2) = j"
    by (simp add: j_def k_def parseTurnBoundaries_def)
  have "compression_kept h = drop j h"
    using assms j by (simp add: compression_kept_def compression_cut_def Let_def jk)
  moreover have "length (user_indices 0 (drop j h)) = length (user_indices 0 h) - k"
    using user_index_nth [OF k(2), where j = 0] by (simp add: j_def)
  ultimately show ?thesis by (simp add: suffix_drop parseTurnBoundaries_def k_def)
qed

lemma compression_shorter: "2 < length h \<Longrightarrow> length (compression_kept h) < length h"
proof -
  assume l: "2 < length h"
  show ?thesis
  proof (cases "\<exists>m\<in>set h. is_user m")
    case True then show ?thesis using compression_user [OF l] by blast
  next
    case False
    then have n: "parseTurnBoundaries h = []"
      by (auto simp: turns_eq is_user_def filter_empty_conv)
    with l have "compression_cut h = int (length h) div 2"
      by (auto simp: compression_cut_def findSafeBoundary_def)
    moreover have "\<not> int (length h) div 2 \<le> 0" using l by linarith
    ultimately have "compression_kept h = drop (length h div 2) h"
      by (simp only: compression_kept_def Let_def if_False nat_div_distrib) simp
    with l show ?thesis by simp
  qed
qed

lemma final_summary_old:
  "10 < length valid \<Longrightarrow> final_summary chat n valid su = final_summary chat n valid su'"
  by (simp add: final_summary_def)

lemma plan_spec:
  assumes "summarize_plan window h = Some (sc, valid)" "\<exists>m\<in>set h. is_user m"
  shows "0 < sc" "sc < length h" "is_user (h ! sc)" "4 < length h"
    "valid = valid_messages window (take sc h)" "tool_paired h \<Longrightarrow> tool_paired (drop sc h)"
proof -
  define r where "r = findSafeBoundary h (int (length h) - 4)"
  show l: "4 < length h" using assms(1) by (auto simp: summarize_plan_def split: if_splits)
  from l assms(1) have r: "0 < r" "sc = nat r" and v: "valid = valid_messages window (take (nat r) h)"
    by (auto simp: summarize_plan_def r_def [symmetric] Let_def split: if_splits)
  have t: "0 < int (length h) - 4" "int (length h) - 4 < int (length h)" using l by simp_all
  have u': "\<exists>k<length h. msg_Role (h ! k) = ''user''"
    using assms(2) by (auto simp: is_user_def in_set_conv_nth)
  from findSafeBoundary_cases [OF t u'] r(1)
  obtain k where k: "r = int k" "0 < k" "k < length h" "msg_Role (h ! k) = ''user''"
    by (auto simp: r_def [symmetric])
  then show "0 < sc" "sc < length h" "is_user (h ! sc)" by (simp_all add: r is_user_def)
  show "valid = valid_messages window (take sc h)" by (simp add: v r)
  show "tool_paired h \<Longrightarrow> tool_paired (drop sc h)" using tool_paired_drop k by (simp add: r)
qed

lemma keep_last_drop: "n \<le> length xs \<Longrightarrow> 0 < n \<Longrightarrow> keep_last (int n) xs = drop (length xs - n) xs"
  by (auto simp: keep_last_def)

section \<open>Properties\<close>

text \<open>Emergency compression. A history of at most two messages stays as it is. A longer one
  loses at least one message; the summary gets a note with the number of lost messages, and other
  sessions are not touched. If the history has a user message, what is kept begins with one and no
  tool result is separated from its call; of two or more turns exactly the newer half (rounded up)
  is kept.\<close>

theorem force_compression_contract:
  assumes "forceCompression k st = (r, st')" and "h = ss_history st k" and "h' = ss_history st' k"
  shows "(length h \<le> 2 \<longrightarrow> r = None \<and> st' = st)
     \<and> (2 < length h \<longrightarrow> r = Some (length h - length h', length h') \<and> length h' < length h
          \<and> ss_summary st' k = compression_note (length h - length h') (ss_summary st k)
          \<and> ((\<exists>m\<in>set h. is_user m) \<longrightarrow> h' \<noteq> [] \<and> is_user (hd h') \<and> (tool_paired h \<longrightarrow> tool_paired h'))
          \<and> (2 \<le> length (parseTurnBoundaries h) \<longrightarrow> suffix h' h \<and>
               length (parseTurnBoundaries h') = length (parseTurnBoundaries h) - length (parseTurnBoundaries h) div 2))
     \<and> (\<forall>j. j \<noteq> k \<longrightarrow> ss_history st' j = ss_history st j \<and> ss_summary st' j = ss_summary st j)"
proof (cases "length h \<le> 2")
  case True
  then show ?thesis using assms by (simp add: forceCompression_def Let_def)
next
  case False
  then have f: "r = Some (length h - length (compression_kept h), length (compression_kept h))"
    "st' = ss_setHistory k (compression_kept h)
       (ss_setSummary k (compression_note (length h - length (compression_kept h)) (ss_summary st k)) st)"
    using assms by (simp_all add: forceCompression_def Let_def)
  then have h': "h' = compression_kept h" by (simp add: assms(3) ss_setHistory_def)
  from False have l: "2 < length h" by simp
  show ?thesis
    using f(1) l compression_shorter [OF l] compression_user [OF l] compression_turns [of h]
    by (simp add: h') (simp add: f(2) ss_setHistory_def ss_setSummary_def)
qed

definition demo_store :: sessions where
  "demo_store = \<lparr>ss_history = (\<lambda>k. if k = ''s'' then demo_turn ''a'' @ demo_turn ''b'' @ demo_turn ''c'' else []),
                 ss_summary = (\<lambda>_. [])\<rparr>"

theorem force_compression_contract_witness:
  "ss_history (snd (forceCompression ''s'' demo_store)) ''s'' = demo_turn ''b'' @ demo_turn ''c''
   \<and> length (parseTurnBoundaries (demo_turn ''b'' @ demo_turn ''c'')) = 2"
proof -
  have h: "ss_history demo_store ''s'' = demo_turn ''a'' @ demo_turn ''b'' @ demo_turn ''c''"
    by (simp add: demo_store_def)
  have k: "compression_kept (ss_history demo_store ''s'') = demo_turn ''b'' @ demo_turn ''c''"
    unfolding h by code_simp
  have l: "2 < length (ss_history demo_store ''s'')" unfolding h by code_simp
  have b: "length (parseTurnBoundaries (ss_history demo_store ''s'')) = 3" unfolding h by code_simp
  have e: "ss_history (snd (forceCompression ''s'' demo_store)) ''s'' = demo_turn ''b'' @ demo_turn ''c''"
    using l by (simp add: forceCompression_def Let_def k ss_setHistory_def)
  show ?thesis
    using force_compression_contract [of "''s''" demo_store _ _ "ss_history demo_store ''s''", OF surjective_pairing refl refl] l b
    by (simp add: e)
qed

text \<open>Summarising a session whose history had the messages \<open>h\<close> when it was read and has
  \<open>h @ extra\<close> when the summary is written. The cut is in front of a user message, so that without new
  messages the history becomes the part of \<open>h\<close> behind the cut, no tool result is separated from its
  call and the messages summed up are exactly the user and assistant messages before the cut that
  are not too long. But the number of messages to keep was fixed when the history was read: for each
  message that arrived since, one more message behind the cut is removed, though it is in no summary.
  And when more than ten messages are summed up, the previous summary has no influence on the new
  one that replaces it.\<close>

theorem legacy_summarize_effect:
  assumes plan: "summarize_plan (la_ContextWindow agent) h = Some (sc, valid)"
    and h: "h = ss_history st k" and user: "\<exists>m\<in>set h. is_user m"
    and extra: "ss_history (late st) k = h @ extra"
    and fin: "final_summary chat n valid (ss_summary st k) = Some s0" "s0 \<noteq> []"
    and run: "summarizeSession agent chat n k late st = (ev, st')"
  shows "ss_history st' k = drop (sc + length extra) (h @ extra)
     \<and> 0 < sc \<and> sc < length h \<and> is_user (h ! sc)
     \<and> (extra = [] \<longrightarrow> ss_history st' k = drop sc h \<and> (tool_paired h \<longrightarrow> tool_paired (ss_history st' k)))
     \<and> valid = filter (\<lambda>m. summary_role m \<and> \<not> oversized (la_ContextWindow agent) m) (take sc h)
     \<and> (\<exists>lost. h @ extra = take sc h @ lost @ ss_history st' k \<and> length lost = length extra)
     \<and> (10 < length valid \<longrightarrow> (\<forall>su. final_summary chat n valid su = Some s0))
     \<and> (\<exists>note. ss_summary st' k = s0 @ note \<and> note \<in> {[], omitted_note})"
proof -
  note p = plan_spec [OF plan user]
  define keep where "keep = length h - sc"
  have keep: "0 < keep" "keep \<le> length (h @ extra)" using p(1,2) by (simp_all add: keep_def)
  define s where "s = (if omitted_some (la_ContextWindow agent) (take sc h) then s0 @ omitted_note else s0)"
  have "st' = ss_truncate k (int keep) (ss_setSummary k s (late st))"
    using run plan fin by (auto simp: summarizeSession_def h [symmetric] keep_def s_def Let_def)
  then have st': "ss_history st' k = keep_last (int keep) (h @ extra)" "ss_summary st' k = s"
    by (simp_all add: ss_truncate_def ss_setSummary_def extra)
  have "length (h @ extra) - keep = sc + length extra" using p(2) by (simp add: keep_def)
  then have d: "ss_history st' k = drop (sc + length extra) (h @ extra)"
    using keep_last_drop [OF keep(2,1)] st'(1) by simp
  have lost: "h @ extra = take sc h @ take (length extra) (drop sc (h @ extra)) @ ss_history st' k"
    unfolding d using p(2) by (metis add.commute append_take_drop_id drop_drop take_append
        diff_is_0_eq less_imp_le take_0 append_Nil2)
  have "length (take (length extra) (drop sc (h @ extra))) = length extra" using p(2) by simp
  with lost have lost': "\<exists>lost. h @ extra = take sc h @ lost @ ss_history st' k \<and> length lost = length extra"
    by blast
  have old: "10 < length valid \<longrightarrow> (\<forall>su. final_summary chat n valid su = Some s0)"
    using final_summary_old fin(1) by metis
  show ?thesis
    using d p lost' old st'(2) by (auto simp: s_def valid_messages_def)
qed

definition demo_agent :: legacy_agent where
  "demo_agent = \<lparr>la_ID = ''main'', la_ContextWindow = 1000, la_SummarizeMessageThreshold = 4, la_SummarizeTokenPercent = 75\<rparr>"

definition demo_chat :: chat where "demo_chat n p = ChatOK (Some ''sum'')"

text \<open>A user message arrives while the summary is written; the first message behind the cut is lost.\<close>

theorem legacy_summarize_effect_witness:
  "ss_history (snd (summarizeSession demo_agent demo_chat 0 ''s'' (ss_add ''s'' (plain_message ''user'' ''new'')) demo_store)) ''s''
     = tl (demo_turn ''c'') @ [plain_message ''user'' ''new'']"
proof -
  define h where "h = ss_history demo_store ''s''"
  have h: "h = demo_turn ''a'' @ demo_turn ''b'' @ demo_turn ''c''" by (simp add: h_def demo_store_def)
  define late where "late = ss_add ''s'' (plain_message ''user'' ''new'')"
  define valid where "valid = valid_messages 1000 (take 8 h)"
  have plan: "summarize_plan (la_ContextWindow demo_agent) h = Some (8, valid)"
    unfolding h valid_def by code_simp
  have user: "\<exists>m\<in>set h. is_user m" unfolding h by code_simp
  have ex: "ss_history (late demo_store) ''s'' = h @ [plain_message ''user'' ''new'']"
    by (simp add: late_def ss_add_def h_def)
  have e: "ss_summary demo_store ''s'' = []" by (simp add: demo_store_def)
  have fin: "final_summary demo_chat 0 valid (ss_summary demo_store ''s'') = Some ''sum''"
    unfolding e h valid_def by code_simp
  have d: "drop (8 + length [plain_message ''user'' ''new'']) (h @ [plain_message ''user'' ''new''])
      = tl (demo_turn ''c'') @ [plain_message ''user'' ''new'']"
    unfolding h by code_simp
  obtain ev st' where r: "summarizeSession demo_agent demo_chat 0 ''s'' late demo_store = (ev, st')"
    by (rule prod.exhaust)
  have "ss_history st' ''s'' = tl (demo_turn ''c'') @ [plain_message ''user'' ''new'']"
    using legacy_summarize_effect [where late = late and st = demo_store and k = "''s''", OF plan h_def user ex fin _ r] d
    by simp
  then show ?thesis by (simp add: r late_def [symmetric])
qed

end
