(* ===== verification/AgentTurn.thy ===== *)
theory AgentTurn
  imports Hooks LegacyContext Steering
begin

text \<open>
  \<^verbatim>\<open>pkg/agent/loop.go\<close>, \<^verbatim>\<open>runTurn\<close>: one turn of an agent, from the user's message to the final
  answer. The state of a run is the record \<open>world\<close>: the turn's state, the stores of the sessions, the
  steering queue, the tool registry, the local variables that live across iterations, and the logs
  of what was sent out. Other goroutines (users that steer or interrupt, sub-turns that deliver
  results, other turns) act between the steps: each read of a shared variable first performs the next
  batch of the schedule \<open>w_sched\<close>. The LLM, the tools, the hooks, the prompt builder's texts, the
  resolution of media files and the saving of a session are functions of the record \<open>turn_env\<close> whose
  first argument is the number of external calls made so far, so that no answer depends on another.

  Go's \<^verbatim>\<open>int\<close> counters are not wrapped. The reasoning text, which a goroutine publishes beside the turn,
  the durations in events and the log lines are not modelled.
\<close>

section \<open>The world of a turn\<close>

text \<open>The last five fields of \<open>world\<close> are logs that no step reads: the steering messages taken from the
  queue, the pending messages put into the request, the tool runs, the number of LLM calls and the
  number of compactions.\<close>

datatype interference =
    ISteer string message
  | IGraceful string
  | IHard
  | IResult "tool_result option"
  | IParentEnded
  | IStores "(string \<Rightarrow> sessions) \<Rightarrow> (string \<Rightarrow> sessions)"

datatype outbound =
    OutText string string string bool
  | OutMedia string string "string list"
  | OutInbound string string string string

record tool_run =
  run_Tool :: string
  run_Arguments :: object
  run_Callback :: bool

record world =
  w_ts :: turn_state
  w_stores :: "string \<Rightarrow> sessions"
  w_steering :: "steering_queue option"
  w_tools :: tool_registry
  w_messages :: "message list"
  w_pending :: "message list"
  w_history :: "message list"
  w_summary :: string
  w_model :: string
  w_parentEnded :: bool
  w_active :: "string list"
  w_events :: "(event_kind \<times> event_meta \<times> event_payload) list"
  w_out :: "outbound list"
  w_n :: nat
  w_sched :: "interference list list"
  w_taken :: "message list"
  w_injected :: "message list"
  w_runs :: "tool_run list"
  w_calls :: nat
  w_compactions :: nat

record llm_error =
  le_Text :: string
  le_Canceled :: bool
  le_DeadlineExceeded :: bool

record llm_request =
  rq_Model :: string
  rq_Messages :: "message list"
  rq_Tools :: "tool_definition list"
  rq_Options :: object

record context_manager =
  cm_Assemble :: "nat \<Rightarrow> (string \<Rightarrow> sessions) \<Rightarrow> string \<Rightarrow> (message list \<times> string) option"
  cm_Compact :: "nat \<Rightarrow> compress_reason \<Rightarrow> string \<Rightarrow> (string \<Rightarrow> sessions) \<Rightarrow> (string \<Rightarrow> sessions)"

record agent_instance =
  ag_ID :: string
  ag_Store :: string
  ag_MaxIterations :: int
  ag_MaxTokens :: int
  ag_Temperature :: rat
  ag_ContextWindow :: int
  ag_ThinkingLevel :: "string option"

record turn_env =
  env_agent :: agent_instance
  env_cm :: context_manager
  env_hooks :: "nat \<Rightarrow> hook_manager option"
  env_prompt :: "nat \<Rightarrow> string \<times> string \<times> string"
  env_resolve :: "nat \<Rightarrow> message list \<Rightarrow> message list"
  env_marshal :: "object \<Rightarrow> string option"
  env_unmarshal :: "string \<Rightarrow> object option"
  env_filter :: "string \<Rightarrow> string"
  env_filterEnabled :: bool
  env_preferNative :: bool
  env_supportsNative :: bool
  env_supportsThinking :: bool
  env_model :: "string \<Rightarrow> message list \<Rightarrow> string"
  env_chat :: "nat \<Rightarrow> llm_request \<Rightarrow> llm_error + llm_response"
  env_sleep :: "nat \<Rightarrow> string option"
  env_run :: "nat \<Rightarrow> tool \<Rightarrow> bool \<Rightarrow> object \<Rightarrow> tool_outcome"
  env_fmtV :: "goval \<Rightarrow> string"
  env_normalise :: "tool_result \<Rightarrow> string \<Rightarrow> nat option \<Rightarrow> string \<Rightarrow> string \<Rightarrow> tool_result"
  env_artifactTags :: "nat \<Rightarrow> string list \<Rightarrow> string list"
  env_channelManager :: bool
  env_bus :: bool
  env_sendMedia :: "nat \<Rightarrow> string list \<Rightarrow> string option"
  env_feedback :: "(string \<Rightarrow> string \<Rightarrow> string) option"
  env_save :: "nat \<Rightarrow> string option"
  env_ctxHasTurn :: bool

section \<open>Other goroutines\<close>

definition upd_ts :: "(turn_state \<Rightarrow> turn_state) \<Rightarrow> world \<Rightarrow> world" where
  "upd_ts f w = w\<lparr>w_ts := f (w_ts w)\<rparr>"

definition push_result :: "tool_result option \<Rightarrow> turn_state \<Rightarrow> turn_state" where
  "push_result r ts =
     (case ts_pendingResults ts of
        None \<Rightarrow> ts
      | Some c \<Rightarrow>
          if rc_closed c \<or> length (rc_buf c) \<ge> rc_cap c then ts
          else ts\<lparr>ts_pendingResults := Some (c\<lparr>rc_buf := rc_buf c @ [r]\<rparr>)\<rparr>)"

fun interfere :: "interference \<Rightarrow> world \<Rightarrow> world" where
  "interfere (ISteer scope m) w =
     (case w_steering w of
        None \<Rightarrow> w
      | Some q \<Rightarrow> (case pushScope q scope m of None \<Rightarrow> w | Some q' \<Rightarrow> w\<lparr>w_steering := Some q'\<rparr>))"
| "interfere (IGraceful hint) w = upd_ts (\<lambda>ts. snd (requestGracefulInterrupt hint ts)) w"
| "interfere IHard w = upd_ts (\<lambda>ts. snd (requestHardAbort ts)) w"
| "interfere (IResult r) w = upd_ts (push_result r) w"
| "interfere IParentEnded w = w\<lparr>w_parentEnded := True\<rparr>"
| "interfere (IStores f) w = w\<lparr>w_stores := f (w_stores w)\<rparr>"

definition observe :: "world \<Rightarrow> world" where
  "observe w =
     (case w_sched w of [] \<Rightarrow> w | acts # rest \<Rightarrow> fold interfere acts (w\<lparr>w_sched := rest\<rparr>))"

section \<open>Reads of shared state\<close>

definition read_hard :: "world \<Rightarrow> bool \<times> world" where
  "read_hard w = (let w' = observe w in (hardAbortRequested (w_ts w'), w'))"

definition read_graceful :: "world \<Rightarrow> bool \<times> world" where
  "read_graceful w = (let w' = observe w in (fst (gracefulInterruptRequested (w_ts w')), w'))"

definition take_steering :: "(steering_queue \<Rightarrow> string \<Rightarrow> message list \<times> steering_queue) \<Rightarrow> world \<Rightarrow> message list \<times> world" where
  "take_steering deq w =
     (let w' = observe w
      in case w_steering w' of
           None \<Rightarrow> ([], w')
         | Some q \<Rightarrow>
             (case deq q (ts_sessionKey (w_ts w')) of
                (msgs, q') \<Rightarrow> (msgs, w'\<lparr>w_steering := Some q', w_taken := w_taken w' @ msgs\<rparr>)))"

definition dequeueSteeringMessagesForScope :: "world \<Rightarrow> message list \<times> world" where
  "dequeueSteeringMessagesForScope w = take_steering dequeueScope w"

definition dequeueSteeringMessagesForScopeWithFallback :: "world \<Rightarrow> message list \<times> world" where
  "dequeueSteeringMessagesForScopeWithFallback w = take_steering dequeueScopeWithFallback w"

text \<open>Taking what arrived and adding it to the pending messages.\<close>

definition poll_steering :: "world \<Rightarrow> bool \<times> world" where
  "poll_steering w =
     (case dequeueSteeringMessagesForScope w of
        (msgs, w') \<Rightarrow> (msgs \<noteq> [], w'\<lparr>w_pending := w_pending w' @ msgs\<rparr>))"

text \<open>A sub-turn's result, received without waiting: the message it becomes.\<close>

definition poll_result :: "turn_env \<Rightarrow> world \<Rightarrow> message option \<times> world" where
  "poll_result env w =
     (let w' = observe w
      in case ts_pendingResults (w_ts w') of
           None \<Rightarrow> (None, w')
         | Some c \<Rightarrow>
             (case rc_buf c of
                [] \<Rightarrow> (None, w')
              | r # rest \<Rightarrow>
                  (let w2 = upd_ts (\<lambda>ts. ts\<lparr>ts_pendingResults := Some (c\<lparr>rc_buf := rest\<rparr>)\<rparr>) w'
                   in case r of
                        None \<Rightarrow> (None, w2)
                      | Some res \<Rightarrow>
                          if tr_ForLLM res \<noteq> []
                          then (Some (plain_message ''user'' (''[SubTurn Result] '' @ env_filter env (tr_ForLLM res))), w2)
                          else (None, w2))))"

section \<open>Writing\<close>

definition emit :: "event_kind \<Rightarrow> event_meta \<Rightarrow> event_payload \<Rightarrow> world \<Rightarrow> world" where
  "emit k m p w = w\<lparr>w_events := w_events w @ [(k, m, p)]\<rparr>"

definition emit_turn :: "event_kind \<Rightarrow> string \<Rightarrow> event_payload \<Rightarrow> world \<Rightarrow> world" where
  "emit_turn k path p w = emit k (eventMeta (w_ts w) ''runTurn'' path) p w"

definition send_out :: "outbound \<Rightarrow> world \<Rightarrow> world" where
  "send_out x w = w\<lparr>w_out := w_out w @ [x]\<rparr>"

definition next_call :: "world \<Rightarrow> nat \<times> world" where
  "next_call w = (w_n w, w\<lparr>w_n := Suc (w_n w)\<rparr>)"

definition upd_store :: "turn_env \<Rightarrow> (sessions \<Rightarrow> sessions) \<Rightarrow> world \<Rightarrow> world" where
  "upd_store env f w =
     (let a = ag_Store (env_agent env) in w\<lparr>w_stores := (w_stores w)(a := f (w_stores w a))\<rparr>)"

definition noHistory :: "world \<Rightarrow> bool" where
  "noHistory w = po_NoHistory (ts_opts (w_ts w))"

text \<open>\<^verbatim>\<open>AddFullMessage\<close> and \<^verbatim>\<open>recordPersistedMessage\<close>, unless the turn keeps no history.\<close>

definition persist :: "turn_env \<Rightarrow> message \<Rightarrow> world \<Rightarrow> world" where
  "persist env m w =
     (if noHistory w then w
      else upd_ts (recordPersistedMessage m) (upd_store env (ss_add (ts_sessionKey (w_ts w)) m) w))"

text \<open>The same for a message that is also appended to the request.\<close>

definition add_message :: "turn_env \<Rightarrow> message \<Rightarrow> world \<Rightarrow> world" where
  "add_message env m w = persist env m (w\<lparr>w_messages := w_messages w @ [m]\<rparr>)"

definition assemble :: "turn_env \<Rightarrow> world \<Rightarrow> world" where
  "assemble env w =
     (case next_call (observe w) of
        (n, w1) \<Rightarrow>
          (case cm_Assemble (env_cm env) n (w_stores w1) (ts_sessionKey (w_ts w1)) of
             None \<Rightarrow> w1
           | Some (h, s) \<Rightarrow> w1\<lparr>w_history := h, w_summary := s\<rparr>))"

definition compact :: "turn_env \<Rightarrow> compress_reason \<Rightarrow> world \<Rightarrow> world" where
  "compact env reason w =
     (case next_call (observe w) of
        (n, w1) \<Rightarrow>
          w1\<lparr>w_stores := cm_Compact (env_cm env) n reason (ts_sessionKey (w_ts w1)) (w_stores w1),
             w_compactions := Suc (w_compactions w1)\<rparr>)"

definition refresh_restore_point :: "turn_env \<Rightarrow> world \<Rightarrow> world" where
  "refresh_restore_point env w =
     upd_ts (refreshRestorePointFromSession (w_stores w (ag_Store (env_agent env)))) w"

definition build_messages :: "turn_env \<Rightarrow> string \<Rightarrow> string list \<Rightarrow> world \<Rightarrow> world" where
  "build_messages env user media w =
     (case next_call w of
        (n, w1) \<Rightarrow>
          (case env_prompt env n of
             (st, dy, sk) \<Rightarrow> w1\<lparr>w_messages := buildMessages st dy sk (w_history w1) (w_summary w1) user media\<rparr>))"

definition resolve_messages :: "turn_env \<Rightarrow> world \<Rightarrow> world" where
  "resolve_messages env w =
     (case next_call w of (n, w1) \<Rightarrow> w1\<lparr>w_messages := env_resolve env n (w_messages w1)\<rparr>)"

section \<open>Outcomes\<close>

datatype turn_outcome =
    TurnDone string turn_end_status
  | TurnErr string turn_end_status
  | TurnPanic

definition save_session :: "turn_env \<Rightarrow> world \<Rightarrow> string option \<times> world" where
  "save_session env w = (case next_call w of (n, w1) \<Rightarrow> (env_save env n, w1))"

definition abortTurn :: "turn_env \<Rightarrow> world \<Rightarrow> turn_outcome \<times> world" where
  "abortTurn env w =
     (let w1 = upd_ts (setPhase TurnPhaseAborted) w
      in if noHistory w1 then (TurnDone [] TurnEndStatusAborted, w1)
         else
           (case save_session env (upd_store env (restoreSession (w_ts w1)) w1) of
              (None, w2) \<Rightarrow> (TurnDone [] TurnEndStatusAborted, w2)
            | (Some err, w2) \<Rightarrow>
                (TurnErr err TurnEndStatusAborted,
                 emit EventKindError (eventMeta (w_ts w2) ''abortTurn'' ''turn.error'')
                   (ErrorPayload ''session_restore'' err) w2)))"

definition hookAbortError :: "string \<Rightarrow> hook_decision \<Rightarrow> world \<Rightarrow> turn_outcome \<times> world" where
  "hookAbortError stage decision w =
     (let reason = (if hd_Reason decision = [] then ''hook requested turn abort'' else hd_Reason decision);
          err = ''hook aborted turn during '' @ stage @ '': '' @ reason
      in (TurnErr err TurnEndStatusError,
          emit EventKindError (eventMeta (w_ts w) ''hooks'' ''turn.error'') (ErrorPayload (''hook.'' @ stage) err) w))"

text \<open>A hook asks for a hard abort.\<close>

definition hook_hard_abort :: "turn_env \<Rightarrow> world \<Rightarrow> turn_outcome \<times> world" where
  "hook_hard_abort env w = abortTurn env (upd_ts (\<lambda>ts. snd (requestHardAbort ts)) w)"

text \<open>A stage goes on with a value or returns from the function.\<close>

datatype 'a stage = Go 'a | Ret turn_outcome

definition ret :: "turn_outcome \<times> world \<Rightarrow> 'a stage \<times> world" where
  "ret r = (Ret (fst r), snd r)"

section \<open>The beginning of a turn\<close>

definition over_budget :: "turn_env \<Rightarrow> world \<Rightarrow> bool" where
  "over_budget env w =
     isOverContextBudget (\<lambda>p. map_option length (env_marshal env p)) (ag_ContextWindow (env_agent env))
       (w_messages w) (toProviderDefs (w_tools w)) (ag_MaxTokens (env_agent env))"

definition proactive_compaction :: "turn_env \<Rightarrow> world \<Rightarrow> world" where
  "proactive_compaction env w =
     (let w1 = compact env ContextCompressReasonProactive w;
          w2 = refresh_restore_point env w1;
          w3 = assemble env w2
      in resolve_messages env (build_messages env (ts_userMessage (w_ts w3)) (ts_media (w_ts w3)) w3))"

definition save_user_message :: "turn_env \<Rightarrow> world \<Rightarrow> world" where
  "save_user_message env w =
     (if trim_space (ts_userMessage (w_ts w)) \<noteq> [] \<or> ts_media (w_ts w) \<noteq> []
      then persist env ((plain_message ''user'' (ts_userMessage (w_ts w)))\<lparr>msg_Media := ts_media (w_ts w)\<rparr>) w
      else w)"

definition announce :: "world \<Rightarrow> world" where
  "announce w =
     (let w1 = upd_ts setTurnCancel w;
          w2 = w1\<lparr>w_active := ts_sessionKey (w_ts w1) # w_active w1\<rparr>
      in emit_turn EventKindTurnStart ''turn.start''
           (TurnStartPayload (ts_channel (w_ts w2)) (ts_chatID (w_ts w2)) (ts_userMessage (w_ts w2))
              (length (ts_media (w_ts w2)))) w2)"

definition open_turn :: "turn_env \<Rightarrow> world \<Rightarrow> world" where
  "open_turn env w =
     (let w1 = (announce w)\<lparr>w_history := [], w_summary := []\<rparr>;
          w2 = (if noHistory w1 then w1 else assemble env w1)
      in upd_ts (captureRestorePoint (w_history w2) (w_summary w2)) w2)"

definition first_request :: "turn_env \<Rightarrow> world \<Rightarrow> world" where
  "first_request env w =
     (let w1 = resolve_messages env (build_messages env (ts_userMessage (w_ts w)) (ts_media (w_ts w)) w)
      in if \<not> noHistory w1 \<and> over_budget env w1 then proactive_compaction env w1 else w1)"

definition begin_turn :: "turn_env \<Rightarrow> world \<Rightarrow> world" where
  "begin_turn env w =
     (let w1 = save_user_message env (first_request env (open_turn env w))
      in w1\<lparr>w_model := env_model env (ts_userMessage (w_ts w1)) (w_messages w1),
            w_pending := po_InitialSteeringMessages (ts_opts (w_ts w1)),
            w_taken := po_InitialSteeringMessages (ts_opts (w_ts w1)), w_injected := []\<rparr>)"

section \<open>An iteration up to the LLM call\<close>

text \<open>The condition of the loop; the interrupt is only read when the rest is false.\<close>

definition loop_condition :: "turn_env \<Rightarrow> world \<Rightarrow> bool \<times> world" where
  "loop_condition env w =
     (if currentIteration (w_ts w) < ag_MaxIterations (env_agent env) \<or> w_pending w \<noteq> [] then (True, w)
      else read_graceful w)"

definition poll_iteration :: "world \<Rightarrow> world" where
  "poll_iteration w =
     (if currentIteration (w_ts w) > 1 then snd (poll_steering w)
      else if \<not> po_SkipInitialSteeringPoll (ts_opts (w_ts w)) then
        (case dequeueSteeringMessagesForScopeWithFallback w of
           (msgs, w') \<Rightarrow> w'\<lparr>w_pending := w_pending w' @ msgs\<rparr>)
      else w)"

definition parent_gone :: "world \<Rightarrow> bool \<times> world" where
  "parent_gone w =
     (if ts_parentTurnState (w_ts w) = None then (False, w)
      else (let w' = observe w in (w_parentEnded w' \<and> \<not> ts_critical (w_ts w'), w')))"

definition poll_pending_result :: "turn_env \<Rightarrow> world \<Rightarrow> world" where
  "poll_pending_result env w =
     (case poll_result env w of
        (None, w') \<Rightarrow> w'
      | (Some m, w') \<Rightarrow> w'\<lparr>w_pending := w_pending w' @ [m], w_taken := w_taken w' @ [m]\<rparr>)"

text \<open>The pending messages go into the request (with their media resolved) and into the session.\<close>

definition inject_pending :: "turn_env \<Rightarrow> world \<Rightarrow> world" where
  "inject_pending env w =
     (if w_pending w = [] then w
      else
        (case next_call w of
           (n, w1) \<Rightarrow>
             (let resolved = env_resolve env n (w_pending w1);
                  w2 = fold (persist env) (w_pending w1) (w1\<lparr>w_messages := w_messages w1 @ resolved\<rparr>);
                  w3 = emit_turn EventKindSteeringInjected ''turn.steering.injected''
                         (SteeringInjectedPayload (length (w_pending w2))
                            (sum_list (map (length \<circ> msg_Content) (w_pending w2)))) w2
              in w3\<lparr>w_injected := w_injected w3 @ w_pending w3, w_pending := []\<rparr>)))"

datatype 'a loop_step = LContinue | LBreak string | LReturn turn_outcome | LGo 'a

definition start_iteration :: "turn_env \<Rightarrow> world \<Rightarrow> unit loop_step \<times> world" where
  "start_iteration env w =
     (case read_hard w of
        (True, w1) \<Rightarrow> (case abortTurn env w1 of (r, w2) \<Rightarrow> (LReturn r, w2))
      | (False, w1) \<Rightarrow>
          (let w2 = upd_ts (setPhase TurnPhaseRunning \<circ> setIteration (currentIteration (w_ts w1) + 1)) w1;
               w3 = poll_iteration w2
           in case parent_gone w3 of
                (True, w4) \<Rightarrow> (LBreak [], w4)
              | (False, w4) \<Rightarrow> (LGo (), inject_pending env (poll_pending_result env w4))))"

record llm_call =
  lc_Graceful :: bool
  lc_Model :: string
  lc_Messages :: "message list"
  lc_Tools :: "tool_definition list"
  lc_Options :: object

definition use_native_search :: "turn_env \<Rightarrow> world \<Rightarrow> bool" where
  "use_native_search env w \<longleftrightarrow>
     env_preferNative env \<and> get_tool (w_tools w) ''web_search'' \<noteq> None \<and> env_supportsNative env"

definition llm_options :: "turn_env \<Rightarrow> bool \<Rightarrow> object" where
  "llm_options env native =
     (let ag = env_agent env
      in [(''max_tokens'', GInt (ag_MaxTokens ag)), (''temperature'', GFloat (ag_Temperature ag)),
          (''prompt_cache_key'', GString (ag_ID ag))]
         @ (if native then [(''native_search'', GBool True)] else [])
         @ (case ag_ThinkingLevel ag of
              None \<Rightarrow> []
            | Some l \<Rightarrow> if env_supportsThinking env then [(''thinking_level'', GString l)] else []))"

definition prepare_call :: "turn_env \<Rightarrow> world \<Rightarrow> llm_call \<times> world" where
  "prepare_call env w =
     (case read_graceful w of
        (gracefulTerminal, w1) \<Rightarrow>
          (let defs0 = toProviderDefs (w_tools w1);
               native = use_native_search env w1;
               defs1 = (if native then filter (\<lambda>d. tfd_Name (td_Function d) \<noteq> ''web_search'') defs0 else defs0);
               w2 = (if currentIteration (w_ts w1) > 1 then resolve_messages env w1 else w1);
               msgs = (if gracefulTerminal then w_messages w2 @ [interruptHintMessage (w_ts w2)] else w_messages w2);
               defs = (if gracefulTerminal then [] else defs1);
               w3 = (if gracefulTerminal then upd_ts markGracefulTerminalUsed w2 else w2)
           in (\<lparr>lc_Graceful = gracefulTerminal, lc_Model = w_model w3,
                lc_Messages = msgs, lc_Tools = defs, lc_Options = llm_options env native\<rparr>, w3)))"

text \<open>The hooks before the call may rewrite or stop it.\<close>

definition before_llm_stage :: "turn_env \<Rightarrow> llm_call \<Rightarrow> world \<Rightarrow> llm_call stage \<times> world" where
  "before_llm_stage env lc w =
     (case next_call w of
        (n, w1) \<Rightarrow>
          (case env_hooks env n of
             None \<Rightarrow> (Go lc, w1)
           | Some hm \<Rightarrow>
               (case beforeLLM hm
                       \<lparr>lq_Meta = eventMeta (w_ts w1) ''runTurn'' ''turn.llm.request'', lq_Model = lc_Model lc,
                        lq_Messages = lc_Messages lc, lq_Tools = lc_Tools lc, lq_Options = lc_Options lc,
                        lq_Channel = ts_channel (w_ts w1), lq_ChatID = ts_chatID (w_ts w1),
                        lq_GracefulTerminal = lc_Graceful lc\<rparr> of
                  (req, decision) \<Rightarrow>
                    (case normalizedAction decision of
                       HookActionContinue \<Rightarrow>
                         (Go (lc\<lparr>lc_Model := lq_Model req, lc_Messages := lq_Messages req,
                                 lc_Tools := lq_Tools req, lc_Options := lq_Options req\<rparr>), w1)
                     | HookActionModify \<Rightarrow>
                         (Go (lc\<lparr>lc_Model := lq_Model req, lc_Messages := lq_Messages req,
                                 lc_Tools := lq_Tools req, lc_Options := lq_Options req\<rparr>), w1)
                     | HookActionAbortTurn \<Rightarrow> ret (hookAbortError ''before_llm'' decision w1)
                     | HookActionHardAbort \<Rightarrow> ret (hook_hard_abort env w1)
                     | _ \<Rightarrow> (Go lc, w1)))))"

section \<open>The LLM call and its retries\<close>

definition is_timeout_error :: "llm_error \<Rightarrow> bool" where
  "is_timeout_error e \<longleftrightarrow>
     (let t = to_lower (le_Text e)
      in le_DeadlineExceeded e \<or> str_contains t ''deadline exceeded'' \<or> str_contains t ''client.timeout''
         \<or> str_contains t ''timed out'' \<or> str_contains t ''timeout exceeded'')"

definition context_error_words :: "string list" where
  "context_error_words =
     [''context_length_exceeded'', ''context window'', ''context_window'', ''maximum context length'',
      ''token limit'', ''too many tokens'', ''max_tokens'', ''invalidparameter'', ''prompt is too long'',
      ''request too large'']"

definition is_context_error :: "llm_error \<Rightarrow> bool" where
  "is_context_error e \<longleftrightarrow>
     \<not> is_timeout_error e \<and> list_ex (str_contains (to_lower (le_Text e))) context_error_words"

definition isInternalChannel :: "string \<Rightarrow> bool" where
  "isInternalChannel ch \<longleftrightarrow> ch \<in> {''cli'', ''system'', ''subagent''}"

text \<open>One call: a context for the provider that an abort can cancel.\<close>

definition call_llm :: "turn_env \<Rightarrow> llm_call \<Rightarrow> world \<Rightarrow> (llm_error + llm_response) \<times> world" where
  "call_llm env lc w =
     (case next_call (upd_ts setProviderCancel w) of
        (n, w1) \<Rightarrow>
          (env_chat env n \<lparr>rq_Model = lc_Model lc, rq_Messages = lc_Messages lc, rq_Tools = lc_Tools lc,
                           rq_Options = lc_Options lc\<rparr>,
           upd_ts clearProviderCancel (w1\<lparr>w_calls := Suc (w_calls w1)\<rparr>)))"

definition llm_failed :: "string \<Rightarrow> world \<Rightarrow> turn_outcome \<times> world" where
  "llm_failed err w =
     (TurnErr (''LLM call failed after retries: '' @ err) TurnEndStatusError,
      emit_turn EventKindError ''turn.error'' (ErrorPayload ''llm'' err) w)"

text \<open>Recovery from a context overflow: compact, read the session again, rebuild the request.\<close>

definition overflow_recovery :: "turn_env \<Rightarrow> nat \<Rightarrow> llm_call \<Rightarrow> world \<Rightarrow> llm_call \<times> world" where
  "overflow_recovery env retry lc w =
     (let w1 = (if retry = 0 \<and> \<not> isInternalChannel (ts_channel (w_ts w))
                then send_out (OutText (ts_channel (w_ts w)) (ts_chatID (w_ts w))
                       ''Context window exceeded. Compressing history and retrying...'' False) w
                else w);
          w2 = compact env ContextCompressReasonRetry w1;
          w3 = refresh_restore_point env w2;
          w4 = assemble env w3;
          w5 = build_messages env [] [] w4;
          msgs = (if lc_Graceful lc then w_messages w5 @ [interruptHintMessage (w_ts w5)] else w_messages w5)
      in (lc\<lparr>lc_Messages := msgs\<rparr>, w5))"

text \<open>The loop over the retries; \<open>left\<close> is \<^verbatim>\<open>maxRetries - retry\<close>.\<close>

fun call_with_retries :: "turn_env \<Rightarrow> nat \<Rightarrow> llm_call \<Rightarrow> world \<Rightarrow> llm_response stage \<times> world" where
  "call_with_retries env left lc w =
     (case call_llm env lc w of
        (Inr resp, w1) \<Rightarrow> (Go resp, w1)
      | (Inl err, w1) \<Rightarrow>
          (case read_hard w1 of
             (hard, w2) \<Rightarrow>
               if hard \<and> le_Canceled err then ret (abortTurn env w2)
               else
                 (case left of
                    0 \<Rightarrow> ret (llm_failed (le_Text err) w2)
                  | Suc left' \<Rightarrow>
                      if is_timeout_error err then
                        (let w3 = emit_turn EventKindLLMRetry ''turn.llm.retry''
                                    (LLMRetryPayload (int (2 - left) + 1) 2 ''timeout'' (le_Text err)) w2
                         in case next_call w3 of
                              (n, w4) \<Rightarrow>
                                (case env_sleep env n of
                                   None \<Rightarrow> call_with_retries env left' lc w4
                                 | Some sleepErr \<Rightarrow>
                                     (case read_hard w4 of
                                        (True, w5) \<Rightarrow> ret (abortTurn env w5)
                                      | (False, w5) \<Rightarrow> ret (llm_failed sleepErr w5))))
                      else if is_context_error err \<and> \<not> noHistory w2 then
                        (let w3 = emit_turn EventKindLLMRetry ''turn.llm.retry''
                                    (LLMRetryPayload (int (2 - left) + 1) 2 ''context_limit'' (le_Text err)) w2
                         in case overflow_recovery env (2 - left) lc w3 of
                              (lc', w4) \<Rightarrow> call_with_retries env left' lc' w4)
                      else ret (llm_failed (le_Text err) w2))))"

declare call_with_retries.simps [simp del]

text \<open>After the call: the hooks, and what is kept of the response.\<close>

definition after_llm_stage :: "turn_env \<Rightarrow> llm_call \<Rightarrow> llm_response \<Rightarrow> world \<Rightarrow> llm_response stage \<times> world" where
  "after_llm_stage env lc resp w =
     (case next_call w of
        (n, w1) \<Rightarrow>
          (case env_hooks env n of
             None \<Rightarrow> (Go resp, w1)
           | Some hm \<Rightarrow>
               (case afterLLM hm
                       \<lparr>lp_Meta = eventMeta (w_ts w1) ''runTurn'' ''turn.llm.response'', lp_Model = lc_Model lc,
                        lp_Response = Some resp, lp_Channel = ts_channel (w_ts w1), lp_ChatID = ts_chatID (w_ts w1)\<rparr> of
                  (r, decision) \<Rightarrow>
                    (case normalizedAction decision of
                       HookActionContinue \<Rightarrow> (Go (or_current (lp_Response r) resp), w1)
                     | HookActionModify \<Rightarrow> (Go (or_current (lp_Response r) resp), w1)
                     | HookActionAbortTurn \<Rightarrow> ret (hookAbortError ''after_llm'' decision w1)
                     | HookActionHardAbort \<Rightarrow> ret (hook_hard_abort env w1)
                     | _ \<Rightarrow> (Go resp, w1)))))"

definition note_response :: "turn_env \<Rightarrow> llm_response \<Rightarrow> world \<Rightarrow> world" where
  "note_response env resp w =
     (let w1 = (if env_ctxHasTurn env
                then upd_ts (\<lambda>ts. ts\<lparr>ts_lastFinishReason := lr_FinishReason resp,
                       ts_lastUsage := (case lr_Usage resp of None \<Rightarrow> ts_lastUsage ts | Some u \<Rightarrow> Some u)\<rparr>) w
                else w);
          w2 = emit_turn EventKindLLMResponse ''turn.llm.response''
                 (LLMResponsePayload (length (lr_Content resp)) (length (lr_ToolCalls resp))
                    (lr_Reasoning resp \<noteq> [] \<or> lr_ReasoningContent resp \<noteq> [])) w1
      in if env_bus env \<and> ts_channel (w_ts w2) = ''pico'' \<and> lr_ToolCalls resp \<noteq> []
            \<and> po_AllowInterimPicoPublish (ts_opts (w_ts w2)) \<and> trim_space (lr_Content resp) \<noteq> []
         then send_out (OutText (ts_channel (w_ts w2)) (ts_chatID (w_ts w2)) (lr_Content resp) False) w2
         else w2)"

text \<open>The log line of the request reads the first message, so an empty request (a hook can make one) ends
  the turn in a panic.\<close>

definition llm_phase :: "turn_env \<Rightarrow> world \<Rightarrow> (bool \<times> llm_response) stage \<times> world" where
  "llm_phase env w =
     (case prepare_call env w of
        (lc0, w1) \<Rightarrow>
          (case before_llm_stage env lc0 w1 of
             (Ret r, w2) \<Rightarrow> (Ret r, w2)
           | (Go lc, w2) \<Rightarrow>
               (let w3 = emit_turn EventKindLLMRequest ''turn.llm.request''
                           (LLMRequestPayload (lc_Model lc) (length (lc_Messages lc)) (length (lc_Tools lc))
                              (ag_MaxTokens (env_agent env))) w2
                in if lc_Messages lc = [] then (Ret TurnPanic, w3) else case call_with_retries env 2 lc w3 of
                     (Ret r, w4) \<Rightarrow> (Ret r, w4)
                   | (Go resp, w4) \<Rightarrow>
                       (case after_llm_stage env lc resp w4 of
                          (Ret r, w5) \<Rightarrow> (Ret r, w5)
                        | (Go resp', w5) \<Rightarrow> (Go (lc_Graceful lc, resp'), note_response env resp' w5)))))"

section \<open>Tool calls\<close>

definition normalizeToolCall :: "turn_env \<Rightarrow> tool_call \<Rightarrow> tool_call" where
  "normalizeToolCall env tc =
     (let name1 = (if tc_Name tc = [] then (case tc_Function tc of Some f \<Rightarrow> fc_Name f | None \<Rightarrow> []) else tc_Name tc);
          args0 = (case tc_Arguments tc of None \<Rightarrow> [] | Some a \<Rightarrow> a);
          args1 = (case tc_Function tc of
                     None \<Rightarrow> args0
                   | Some f \<Rightarrow>
                       if args0 = [] \<and> fc_Arguments f \<noteq> []
                       then (case env_unmarshal env (fc_Arguments f) of None \<Rightarrow> args0 | Some a \<Rightarrow> a) else args0);
          json = (case env_marshal env args1 of None \<Rightarrow> [] | Some s \<Rightarrow> s);
          f1 = (case tc_Function tc of
                  None \<Rightarrow> \<lparr>fc_Name = name1, fc_Arguments = json, fc_ThoughtSignature = []\<rparr>
                | Some f \<Rightarrow>
                    f\<lparr>fc_Name := (if fc_Name f = [] then name1 else fc_Name f),
                      fc_Arguments := (if fc_Arguments f = [] then json else fc_Arguments f)\<rparr>);
          name2 = (if name1 = [] then fc_Name f1 else name1)
      in tc\<lparr>tc_Name := name2, tc_Arguments := Some args1, tc_Function := Some f1\<rparr>)"

definition call_args :: "tool_call \<Rightarrow> object" where
  "call_args tc = (case tc_Arguments tc of None \<Rightarrow> [] | Some a \<Rightarrow> a)"

definition args_json :: "turn_env \<Rightarrow> object \<Rightarrow> string" where
  "args_json env a = (case env_marshal env a of None \<Rightarrow> [] | Some s \<Rightarrow> s)"

definition assistant_call :: "turn_env \<Rightarrow> tool_call \<Rightarrow> tool_call" where
  "assistant_call env tc =
     (let sig = (case tc_Function tc of None \<Rightarrow> [] | Some f \<Rightarrow> fc_ThoughtSignature f)
      in \<lparr>tc_ID = tc_ID tc, tc_Type = ''function'',
          tc_Function = Some \<lparr>fc_Name = tc_Name tc, fc_Arguments = args_json env (call_args tc), fc_ThoughtSignature = sig\<rparr>,
          tc_Name = tc_Name tc, tc_Arguments = None, tc_ThoughtSignature = sig,
          tc_ExtraContent = tc_ExtraContent tc\<rparr>)"

definition assistant_message :: "turn_env \<Rightarrow> llm_response \<Rightarrow> tool_call list \<Rightarrow> message" where
  "assistant_message env resp calls =
     (plain_message ''assistant'' (lr_Content resp))
       \<lparr>msg_ReasoningContent := lr_ReasoningContent resp, msg_ToolCalls := map (assistant_call env) calls\<rparr>"

definition tool_message :: "string \<Rightarrow> string \<Rightarrow> string list \<Rightarrow> message" where
  "tool_message content callID media =
     (plain_message ''tool'' content)\<lparr>msg_ToolCallID := callID, msg_Media := media\<rparr>"

text \<open>Text for the model, filtered if the configuration says so.\<close>

definition filtered_content :: "turn_env \<Rightarrow> tool_result \<Rightarrow> string" where
  "filtered_content env r =
     (if env_filterEnabled env then env_filter env (contentForLLM r) else contentForLLM r)"

definition send_feedback :: "turn_env \<Rightarrow> string \<Rightarrow> object \<Rightarrow> world \<Rightarrow> world" where
  "send_feedback env name a w =
     (case env_feedback env of
        Some fmt \<Rightarrow>
          if ts_channel (w_ts w) \<noteq> [] \<and> \<not> po_SuppressToolFeedback (ts_opts (w_ts w))
          then send_out (OutText (ts_channel (w_ts w)) (ts_chatID (w_ts w)) (fmt name (args_json env a)) False) w
          else w
      | None \<Rightarrow> w)"

definition send_for_user :: "tool_result \<Rightarrow> world \<Rightarrow> world" where
  "send_for_user r w =
     (if \<not> tr_Silent r \<and> tr_ForUser r \<noteq> [] \<and> (po_SendResponse (ts_opts (w_ts w)) \<or> tr_ResponseHandled r)
      then send_out (OutText (ts_channel (w_ts w)) (ts_chatID (w_ts w)) (tr_ForUser r) True) w else w)"

text \<open>Delivering the media of a handled result: an error of the channel, or the bus, which only
  queues.\<close>

datatype delivery = Delivered | DeliveryFailed string | Queued | NoRoute

definition deliver_media :: "turn_env \<Rightarrow> string list \<Rightarrow> world \<Rightarrow> delivery \<times> world" where
  "deliver_media env refs w =
     (if env_channelManager env \<and> ts_channel (w_ts w) \<noteq> [] \<and> \<not> isInternalChannel (ts_channel (w_ts w)) then
        (case next_call w of
           (n, w1) \<Rightarrow>
             (case env_sendMedia env n refs of None \<Rightarrow> (Delivered, w1) | Some e \<Rightarrow> (DeliveryFailed e, w1)))
      else if env_bus env then (Queued, send_out (OutMedia (ts_channel (w_ts w)) (ts_chatID (w_ts w)) refs) w)
      else (NoRoute, w))"

definition emit_tool_end :: "string \<Rightarrow> string \<Rightarrow> tool_result \<Rightarrow> world \<Rightarrow> world" where
  "emit_tool_end name content r w =
     emit_turn EventKindToolExecEnd ''turn.tool.end''
       (ToolExecEndPayload name (length content) (length (tr_ForUser r)) (tr_IsError r) (tr_Async r)) w"

text \<open>The end of an executed call: the result is sent to the user, its media delivered, and its text
  becomes the tool message. The result is whether the response is handled.\<close>

definition finish_tool :: "turn_env \<Rightarrow> tool_call \<Rightarrow> string \<Rightarrow> tool_result \<Rightarrow> world \<Rightarrow> bool \<times> world" where
  "finish_tool env tc name r0 w =
     (let w1 = send_for_user r0 w;
          (r1, w2) =
            (if tr_Media r0 \<noteq> [] \<and> tr_ResponseHandled r0 then
               (case deliver_media env (tr_Media r0) w1 of
                  (DeliveryFailed e, w2) \<Rightarrow> (withError e (errorResult (''failed to deliver attachment: '' @ e)), w2)
                | (Queued, w2) \<Rightarrow> (r0\<lparr>tr_ResponseHandled := False\<rparr>, w2)
                | (_, w2) \<Rightarrow> (r0, w2))
             else (r0, w1));
          (r2, w3) =
            (if tr_Media r1 \<noteq> [] \<and> \<not> tr_ResponseHandled r1 then
               (case next_call w2 of (n, w3) \<Rightarrow> (r1\<lparr>tr_ArtifactTags := env_artifactTags env n (tr_Media r1)\<rparr>, w3))
             else (r1, w2));
          content = filtered_content env r2;
          msg = tool_message content (tc_ID tc)
                  (if tr_Media r2 \<noteq> [] \<and> \<not> tr_ResponseHandled r2 then tr_Media r2 else []);
          w4 = emit_tool_end name content r2 w3
      in (tr_ResponseHandled r2, add_message env msg w4))"

text \<open>The same when a hook answered in the tool's place: a failed delivery changes the text and marks
  an error, but leaves the result handled.\<close>

definition finish_hook_result :: "turn_env \<Rightarrow> tool_call \<Rightarrow> string \<Rightarrow> tool_result \<Rightarrow> world \<Rightarrow> bool \<times> world" where
  "finish_hook_result env tc name r0 w =
     (let w1 = send_for_user r0 w;
          (r1, w2) =
            (if tr_Media r0 \<noteq> [] \<and> tr_ResponseHandled r0 then
               (case deliver_media env (tr_Media r0) w1 of
                  (DeliveryFailed e, w2) \<Rightarrow>
                    (r0\<lparr>tr_IsError := True, tr_ForLLM := ''failed to deliver attachment: '' @ e\<rparr>, w2)
                | (Queued, w2) \<Rightarrow> (r0\<lparr>tr_ResponseHandled := False\<rparr>, w2)
                | (_, w2) \<Rightarrow> (r0, w2))
             else (r0, w1));
          (r2, w3) =
            (if tr_Media r1 \<noteq> [] \<and> \<not> tr_ResponseHandled r1 then
               (case next_call w2 of (n, w3) \<Rightarrow> (r1\<lparr>tr_ArtifactTags := env_artifactTags env n (tr_Media r1)\<rparr>, w3))
             else (r1, w2));
          content = filtered_content env r2;
          msg = tool_message content (tc_ID tc)
                  (if tr_Media r2 \<noteq> [] \<and> \<not> tr_ResponseHandled r2 then tr_Media r2 else []);
          w4 = emit_tool_end name content r2 w3
      in (tr_ResponseHandled r2, add_message env msg w4))"

text \<open>A call that is not run: denied by a hook, or skipped.\<close>

definition refuse_call :: "turn_env \<Rightarrow> string \<Rightarrow> string \<Rightarrow> string \<Rightarrow> string \<Rightarrow> world \<Rightarrow> world" where
  "refuse_call env callID name reason content w =
     add_message env (tool_message content callID [])
       (emit_turn EventKindToolExecSkipped ''turn.tool.skipped'' (ToolExecSkippedPayload name reason) w)"

text \<open>Whether the rest of the calls is skipped: a user message is pending, or an interrupt.\<close>

definition check_skip :: "world \<Rightarrow> (string \<times> string) option \<times> world" where
  "check_skip w =
     (case poll_steering w of
        (_, w1) \<Rightarrow>
          if w_pending w1 \<noteq> [] then
            (Some (''queued user steering message'', ''Skipped due to queued user message.''), w1)
          else
            (case read_graceful w1 of
               (True, w2) \<Rightarrow> (Some (''graceful interrupt requested'', ''Skipped due to graceful interrupt.''), w2)
             | (False, w2) \<Rightarrow> (None, w2)))"

definition skip_rest :: "turn_env \<Rightarrow> string \<times> string \<Rightarrow> tool_call list \<Rightarrow> world \<Rightarrow> world" where
  "skip_rest env reason rest w =
     fold (\<lambda>tc. refuse_call env (tc_ID tc) (tc_Name tc) (fst reason) (snd reason)) rest w"

text \<open>A result of a sub-turn that arrived meanwhile is put behind the tool's answer; it goes into the
  session whatever the options say, and is not recorded as persisted.\<close>

definition poll_result_in_tools :: "turn_env \<Rightarrow> world \<Rightarrow> world" where
  "poll_result_in_tools env w =
     (case poll_result env w of
        (None, w') \<Rightarrow> w'
      | (Some m, w') \<Rightarrow>
          upd_store env (ss_add (ts_sessionKey (w_ts w')) m) (w'\<lparr>w_messages := w_messages w' @ [m]\<rparr>))"

text \<open>One tool call: whether the response was handled, or a return.\<close>

datatype call_result = Answered bool | Refused | CallReturn turn_outcome

definition call_ret :: "turn_outcome \<times> world \<Rightarrow> call_result \<times> world" where
  "call_ret r = (CallReturn (fst r), snd r)"

definition after_tool_stage ::
  "turn_env \<Rightarrow> string \<Rightarrow> object \<Rightarrow> tool_result \<Rightarrow> world \<Rightarrow> (string \<times> tool_result) stage \<times> world" where
  "after_tool_stage env name a r w =
     (case next_call w of
        (n, w1) \<Rightarrow>
          (case env_hooks env n of
             None \<Rightarrow> (Go (name, r), w1)
           | Some hm \<Rightarrow>
               (case afterTool hm
                       \<lparr>tp_Meta = eventMeta (w_ts w1) ''runTurn'' ''turn.tool.after'', tp_Tool = name,
                        tp_Arguments = a, tp_Result = Some r, tp_Channel = ts_channel (w_ts w1),
                        tp_ChatID = ts_chatID (w_ts w1)\<rparr> of
                  (resp, decision) \<Rightarrow>
                    (let updated = (if tp_Tool resp \<noteq> [] then tp_Tool resp else name, or_current (tp_Result resp) r)
                     in case normalizedAction decision of
                          HookActionContinue \<Rightarrow> (Go updated, w1)
                        | HookActionModify \<Rightarrow> (Go updated, w1)
                        | HookActionAbortTurn \<Rightarrow> ret (hookAbortError ''after_tool'' decision w1)
                        | HookActionHardAbort \<Rightarrow> ret (hook_hard_abort env w1)
                        | _ \<Rightarrow> (Go (name, r), w1)))))"

definition approve_stage :: "turn_env \<Rightarrow> string \<Rightarrow> object \<Rightarrow> world \<Rightarrow> approval_decision \<times> world" where
  "approve_stage env name a w =
     (case next_call w of
        (n, w1) \<Rightarrow>
          (case env_hooks env n of
             None \<Rightarrow> (\<lparr>ad_Approved = True, ad_Reason = []\<rparr>, w1)
           | Some hm \<Rightarrow>
               (approveTool hm
                  \<lparr>ta_Meta = eventMeta (w_ts w1) ''runTurn'' ''turn.tool.approve'', ta_Tool = name,
                   ta_Arguments = a, ta_Channel = ts_channel (w_ts w1), ta_ChatID = ts_chatID (w_ts w1)\<rparr>, w1)))"

text \<open>\<^verbatim>\<open>ExecuteWithContext\<close> of the agent's registry; \<open>None\<close> is a panic of the argument check.\<close>

definition run_tool :: "turn_env \<Rightarrow> string \<Rightarrow> object \<Rightarrow> world \<Rightarrow> tool_result option \<times> world" where
  "run_tool env name a w =
     (case next_call w of
        (n, w1) \<Rightarrow>
          (executeWithContext (env_fmtV env) (env_normalise env) (env_run env n) (w_tools w1) name a
             (ts_channel (w_ts w1)) (ts_chatID (w_ts w1)) True,
           w1\<lparr>w_runs := w_runs w1 @ [\<lparr>run_Tool = name, run_Arguments = a, run_Callback = True\<rparr>]\<rparr>))"

definition execute_call :: "turn_env \<Rightarrow> tool_call \<Rightarrow> string \<Rightarrow> object \<Rightarrow> world \<Rightarrow> call_result \<times> world" where
  "execute_call env tc name a w =
     (case approve_stage env name a w of
        (d, w1) \<Rightarrow>
          if \<not> ad_Approved d then
            (let content = hookDeniedToolContent ''Tool execution denied by approval hook'' (ad_Reason d)
             in (Refused, refuse_call env (tc_ID tc) name content content w1))
          else
            (let w2 = emit_turn EventKindToolExecStart ''turn.tool.start'' (ToolExecStartPayload name) w1;
                 w3 = send_feedback env (tc_Name tc) a w2
             in case run_tool env name a w3 of
                  (None, w4) \<Rightarrow> (CallReturn TurnPanic, w4)
                | (Some r, w4) \<Rightarrow>
                    (case read_hard w4 of
                       (True, w5) \<Rightarrow> call_ret (abortTurn env w5)
                     | (False, w5) \<Rightarrow>
                         (case after_tool_stage env name a r w5 of
                            (Ret out, w6) \<Rightarrow> (CallReturn out, w6)
                          | (Go (name', r'), w6) \<Rightarrow>
                              (case finish_tool env tc name' r' w6 of
                                 (handled, w7) \<Rightarrow> (Answered handled, w7))))))"

definition hook_answers :: "turn_env \<Rightarrow> tool_call \<Rightarrow> string \<Rightarrow> object \<Rightarrow> tool_result \<Rightarrow> world \<Rightarrow> call_result \<times> world" where
  "hook_answers env tc name a r w =
     (let w1 = emit_turn EventKindToolExecStart ''turn.tool.start'' (ToolExecStartPayload name) w;
          w2 = send_feedback env name a w1
      in case finish_hook_result env tc name r w2 of (handled, w3) \<Rightarrow> (Answered handled, w3))"

definition tool_call_step :: "turn_env \<Rightarrow> tool_call \<Rightarrow> world \<Rightarrow> call_result \<times> world" where
  "tool_call_step env tc w =
     (case read_hard w of
        (True, w1) \<Rightarrow> call_ret (abortTurn env w1)
      | (False, w1) \<Rightarrow>
          (let name = tc_Name tc;
               a = call_args tc
           in case next_call w1 of
                (n, w2) \<Rightarrow>
                  (case env_hooks env n of
                     None \<Rightarrow> execute_call env tc name a w2
                   | Some hm \<Rightarrow>
                       (case beforeTool hm
                               \<lparr>tq_Meta = eventMeta (w_ts w2) ''runTurn'' ''turn.tool.before'', tq_Tool = name,
                                tq_Arguments = a, tq_Channel = ts_channel (w_ts w2), tq_ChatID = ts_chatID (w_ts w2),
                                tq_HookResult = None\<rparr> of
                          (req, decision) \<Rightarrow>
                            (let name' = (case req of None \<Rightarrow> name | Some q \<Rightarrow> tq_Tool q);
                                 a' = (case req of None \<Rightarrow> a | Some q \<Rightarrow> tq_Arguments q)
                             in case normalizedAction decision of
                                  HookActionContinue \<Rightarrow> execute_call env tc name' a' w2
                                | HookActionModify \<Rightarrow> execute_call env tc name' a' w2
                                | HookActionRespond \<Rightarrow>
                                    (case Option.bind req tq_HookResult of
                                       Some r \<Rightarrow> hook_answers env tc name a r w2
                                     | None \<Rightarrow> execute_call env tc name a w2)
                                | HookActionDenyTool \<Rightarrow>
                                    (let content = hookDeniedToolContent ''Tool execution denied by hook'' (hd_Reason decision)
                                     in (Refused, refuse_call env (tc_ID tc) name content content w2))
                                | HookActionAbortTurn \<Rightarrow> call_ret (hookAbortError ''before_tool'' decision w2)
                                | HookActionHardAbort \<Rightarrow> call_ret (hook_hard_abort env w2)
                                | HookActionOther _ \<Rightarrow> execute_call env tc name a w2)))))"

text \<open>The loop over the calls; its result is whether every response was handled.\<close>

fun tool_loop :: "turn_env \<Rightarrow> tool_call list \<Rightarrow> bool \<Rightarrow> world \<Rightarrow> bool stage \<times> world" where
  "tool_loop env [] allHandled w = (Go allHandled, w)"
| "tool_loop env (tc # rest) allHandled w =
     (case tool_call_step env tc w of
        (CallReturn out, w1) \<Rightarrow> (Ret out, w1)
      | (Refused, w1) \<Rightarrow> tool_loop env rest False w1
      | (Answered handled, w1) \<Rightarrow>
          (case check_skip w1 of
             (Some reason, w2) \<Rightarrow> (Go (allHandled \<and> handled), skip_rest env reason rest w2)
           | (None, w2) \<Rightarrow> tool_loop env rest (allHandled \<and> handled) (poll_result_in_tools env w2)))"

definition tool_phase :: "turn_env \<Rightarrow> llm_response \<Rightarrow> world \<Rightarrow> bool stage \<times> world" where
  "tool_phase env resp w =
     (let calls = map (normalizeToolCall env) (lr_ToolCalls resp);
          w1 = add_message env (assistant_message env resp calls) w;
          w2 = upd_ts (setPhase TurnPhaseTools) w1
      in tool_loop env calls (calls \<noteq> []) w2)"

section \<open>The end of a turn\<close>

definition handledToolResponseSummary :: string where
  "handledToolResponseSummary = ''Requested output delivered via tool attachment.''"

definition toolLimitResponse :: string where
  "toolLimitResponse =
     ''I've reached `max_tool_iterations` without a final response. Increase `max_tool_iterations` in config.json if this task needs more tool steps.''"

definition save_failed :: "string \<Rightarrow> world \<Rightarrow> turn_outcome \<times> world" where
  "save_failed err w =
     (TurnErr err TurnEndStatusError, emit_turn EventKindError ''turn.error'' (ErrorPayload ''session_save'' err) w)"

text \<open>A final assistant message is stored and the session saved.\<close>

definition store_final :: "turn_env \<Rightarrow> string \<Rightarrow> world \<Rightarrow> string option \<times> world" where
  "store_final env content w =
     (if noHistory w then (None, w) else save_session env (persist env (plain_message ''assistant'' content) w))"

definition summarize_after :: "turn_env \<Rightarrow> world \<Rightarrow> world" where
  "summarize_after env w =
     (if po_EnableSummary (ts_opts (w_ts w)) then compact env ContextCompressReasonSummarize w else w)"

text \<open>Every response was handled: \<open>None\<close> if the turn goes on.\<close>

definition finish_handled :: "turn_env \<Rightarrow> world \<Rightarrow> turn_outcome option \<times> world" where
  "finish_handled env w =
     (if w_pending w \<noteq> [] then (None, w)
      else
        (case poll_steering w of
           (True, w1) \<Rightarrow> (None, w1)
         | (False, w1) \<Rightarrow>
             (case store_final env handledToolResponseSummary w1 of
                (Some err, w2) \<Rightarrow> (case save_failed err w2 of (r, w3) \<Rightarrow> (Some r, w3))
              | (None, w2) \<Rightarrow>
                  (Some (TurnDone [] TurnEndStatusCompleted),
                   upd_ts (setFinalContent [] \<circ> setPhase TurnPhaseCompleted) (summarize_after env w2)))))"

definition direct_answer :: "llm_response \<Rightarrow> string" where
  "direct_answer resp =
     (if lr_Content resp = [] \<and> lr_ReasoningContent resp \<noteq> [] then lr_ReasoningContent resp else lr_Content resp)"

text \<open>The rest of an iteration, after the response.\<close>

definition act_on_response :: "turn_env \<Rightarrow> bool \<Rightarrow> llm_response \<Rightarrow> world \<Rightarrow> unit loop_step \<times> world" where
  "act_on_response env graceful resp w =
     (if lr_ToolCalls resp = [] \<or> graceful then
        (case poll_steering w of
           (True, w1) \<Rightarrow> (LContinue, w1)
         | (False, w1) \<Rightarrow> (LBreak (direct_answer resp), w1))
      else
        (case tool_phase env resp w of
           (Ret out, w1) \<Rightarrow> (LReturn out, w1)
         | (Go True, w1) \<Rightarrow>
             (case finish_handled env w1 of
                (Some out, w2) \<Rightarrow> (LReturn out, w2)
              | (None, w2) \<Rightarrow> (LContinue, w2))
         | (Go False, w1) \<Rightarrow> (LContinue, w1\<lparr>w_tools := tickTTL (w_tools w1)\<rparr>)))"

definition iteration :: "turn_env \<Rightarrow> world \<Rightarrow> unit loop_step \<times> world" where
  "iteration env w =
     (case start_iteration env w of
        (LGo _, w1) \<Rightarrow>
          (case llm_phase env w1 of
             (Ret out, w2) \<Rightarrow> (LReturn out, w2)
           | (Go (graceful, resp), w2) \<Rightarrow> act_on_response env graceful resp w2)
      | r \<Rightarrow> r)"

text \<open>After the loop, with the answer it ended with; \<open>None\<close> if steering messages arrived meanwhile.\<close>

definition finish_turn :: "turn_env \<Rightarrow> string \<Rightarrow> world \<Rightarrow> turn_outcome option \<times> world" where
  "finish_turn env answer w =
     (case poll_steering w of
        (True, w1) \<Rightarrow> (None, w1)
      | (False, w1) \<Rightarrow>
          (case read_hard w1 of
             (True, w2) \<Rightarrow> (case abortTurn env w2 of (r, w3) \<Rightarrow> (Some r, w3))
           | (False, w2) \<Rightarrow>
               (let content =
                      (if answer = [] then
                         (if currentIteration (w_ts w2) \<ge> ag_MaxIterations (env_agent env) \<and> ag_MaxIterations (env_agent env) > 0
                          then toolLimitResponse else po_DefaultResponse (ts_opts (w_ts w2)))
                       else answer);
                    w3 = upd_ts (setFinalContent content \<circ> setPhase TurnPhaseFinalizing) w2
                in case store_final env content w3 of
                     (Some err, w4) \<Rightarrow> (case save_failed err w4 of (r, w5) \<Rightarrow> (Some r, w5))
                   | (None, w4) \<Rightarrow>
                       (Some (TurnDone content TurnEndStatusCompleted),
                        upd_ts (setPhase TurnPhaseCompleted) (summarize_after env w4)))))"

section \<open>The turn\<close>

text \<open>The loop; \<open>None\<close> when the fuel does not suffice.\<close>

fun turn_loop :: "nat \<Rightarrow> turn_env \<Rightarrow> world \<Rightarrow> (turn_outcome \<times> world) option" where
  "turn_loop 0 env w = None"
| "turn_loop (Suc fuel) env w =
     (case loop_condition env w of
        (enter, w1) \<Rightarrow>
          (case (if enter then iteration env w1 else (LBreak [], w1)) of
             (LReturn out, w2) \<Rightarrow> Some (out, w2)
           | (LBreak answer, w2) \<Rightarrow>
               (case finish_turn env answer w2 of
                  (Some out, w3) \<Rightarrow> Some (out, w3)
                | (None, w3) \<Rightarrow> turn_loop fuel env w3)
           | (_, w2) \<Rightarrow> turn_loop fuel env w2))"

definition outcome_status :: "turn_outcome \<Rightarrow> turn_end_status option" where
  "outcome_status r = (case r of TurnDone _ s \<Rightarrow> Some s | TurnErr _ s \<Rightarrow> Some s | TurnPanic \<Rightarrow> None)"

text \<open>The deferred end: the event (on a panic with the status the turn had then, \<^verbatim>\<open>completed\<close>) and the
  removal from the active turns.\<close>

definition end_turn :: "turn_outcome \<Rightarrow> world \<Rightarrow> world" where
  "end_turn r w =
     (let status = (case outcome_status r of Some s \<Rightarrow> s | None \<Rightarrow> TurnEndStatusCompleted);
          w1 = emit_turn EventKindTurnEnd ''turn.end''
                 (TurnEndPayload status (currentIteration (w_ts w)) (finalContentLen (w_ts w))) w
      in w1\<lparr>w_active := removeAll (ts_sessionKey (w_ts w1)) (w_active w1)\<rparr>)"

definition runTurn :: "nat \<Rightarrow> turn_env \<Rightarrow> world \<Rightarrow> (turn_outcome \<times> world) option" where
  "runTurn fuel env w =
     (case turn_loop fuel env (begin_turn env w) of
        None \<Rightarrow> None
      | Some (r, w') \<Rightarrow> Some (r, end_turn r w'))"

end
