(* ===== verification/TurnProps.thy ===== *)
theory TurnProps
  imports AgentTurn
begin

text \<open>
  What the steps of a turn preserve, and what a turn as a whole does: it ends, it answers every tool
  call, it runs approved tools only, it loses no steering message, and an aborted turn leaves no
  trace in its session.
\<close>

section \<open>Quantities\<close>

text \<open>The steering messages that are queued or will be pushed.\<close>

fun steers :: "interference list \<Rightarrow> nat" where
  "steers [] = 0"
| "steers (ISteer s m # xs) = Suc (steers xs)"
| "steers (x # xs) = steers xs"

definition queued :: "world \<Rightarrow> nat" where
  "queued w = (case w_steering w of None \<Rightarrow> 0 | Some q \<Rightarrow> sq_len q)"

definition awaited :: "world \<Rightarrow> nat" where
  "awaited w = queued w + sum_list (map steers (w_sched w))"

definition mass :: "world \<Rightarrow> nat" where
  "mass w = 2 * awaited w + (if w_pending w = [] then 0 else 1)"

text \<open>A run the hooks approved, as it was run.\<close>

definition approved_run :: "turn_env \<Rightarrow> tool_run \<Rightarrow> bool" where
  "approved_run env r \<longleftrightarrow>
     (\<exists>n req. ta_Tool req = run_Tool r \<and> ta_Arguments req = run_Arguments r
        \<and> (case env_hooks env n of None \<Rightarrow> True | Some hm \<Rightarrow> ad_Approved (approveTool hm req)))"

definition hist :: "turn_env \<Rightarrow> world \<Rightarrow> message list" where
  "hist env w = ss_history (w_stores w (ag_Store (env_agent env))) (ts_sessionKey (w_ts w))"

definition summ :: "turn_env \<Rightarrow> world \<Rightarrow> string" where
  "summ env w = ss_summary (w_stores w (ag_Store (env_agent env))) (ts_sessionKey (w_ts w))"

section \<open>What every step preserves\<close>

definition conserved :: "world \<Rightarrow> bool" where
  "conserved w \<longleftrightarrow> w_taken w = w_injected w @ w_pending w"

definition evolves :: "turn_env \<Rightarrow> world \<Rightarrow> world \<Rightarrow> bool" where
  "evolves env w w' \<longleftrightarrow>
     ts_opts (w_ts w') = ts_opts (w_ts w) \<and> ts_sessionKey (w_ts w') = ts_sessionKey (w_ts w)
     \<and> ts_parentTurnState (w_ts w') = ts_parentTurnState (w_ts w)
     \<and> (ts_gracefulTerminalUsed (w_ts w) \<longrightarrow> ts_gracefulTerminalUsed (w_ts w'))
     \<and> (ts_gracefulInterrupt (w_ts w) \<longrightarrow> ts_gracefulInterrupt (w_ts w'))
     \<and> (conserved w \<longrightarrow> conserved w')
     \<and> (\<forall>r\<in>set (w_runs w'). r \<in> set (w_runs w) \<or> approved_run env r)
     \<and> w_compactions w \<le> w_compactions w'
     \<and> (w_compactions w' = w_compactions w \<longrightarrow>
          ts_restorePointHistory (w_ts w') = ts_restorePointHistory (w_ts w)
          \<and> ts_restorePointSummary (w_ts w') = ts_restorePointSummary (w_ts w))"

lemma evolves_refl [simp, intro]: "evolves env w w"
  by (simp add: evolves_def)

lemma evolves_trans [trans]: "evolves env w w' \<Longrightarrow> evolves env w' w'' \<Longrightarrow> evolves env w w''"
proof -
  assume a: "evolves env w w'" and b: "evolves env w' w''"
  have e: "w_compactions w'' = w_compactions w \<Longrightarrow> w_compactions w' = w_compactions w"
    using a b unfolding evolves_def by linarith
  show ?thesis
    unfolding evolves_def by (intro conjI) (use a b e in \<open>auto simp: evolves_def\<close>)
qed

text \<open>A step inside an iteration: the counters of the loop do not go up, and at most \<open>k\<close> calls of the LLM
  are made.\<close>

definition calm :: "world \<Rightarrow> world \<Rightarrow> bool" where
  "calm w w' \<longleftrightarrow> ts_iteration (w_ts w') = ts_iteration (w_ts w) \<and> mass w' \<le> mass w"

lemma calm_refl [simp, intro]: "calm w w"
  by (simp add: calm_def)

lemma calm_trans [trans]: "calm w w' \<Longrightarrow> calm w' w'' \<Longrightarrow> calm w w''"
  unfolding calm_def by auto

definition ok_steps :: "turn_env \<Rightarrow> nat \<Rightarrow> world \<Rightarrow> world \<Rightarrow> bool" where
  "ok_steps env k w w' \<longleftrightarrow> evolves env w w' \<and> calm w w' \<and> w_calls w' \<le> w_calls w + k"

abbreviation ok_step :: "turn_env \<Rightarrow> world \<Rightarrow> world \<Rightarrow> bool" where
  "ok_step env \<equiv> ok_steps env 0"

lemma ok_refl [simp, intro]: "ok_steps env k w w"
  by (simp add: ok_steps_def)

lemma ok_add: "ok_steps env j w w' \<Longrightarrow> ok_steps env k w' w'' \<Longrightarrow> ok_steps env (j + k) w w''"
proof -
  assume "ok_steps env j w w'" "ok_steps env k w' w''"
  then have "evolves env w w'" "evolves env w' w''" "calm w w'" "calm w' w''"
    and c: "w_calls w'' \<le> w_calls w + (j + k)"
    by (simp_all add: ok_steps_def)
  then have "evolves env w w''" "calm w w''" using evolves_trans calm_trans by blast+
  with c show ?thesis by (simp add: ok_steps_def)
qed

lemma ok_trans [trans]: "ok_step env w w' \<Longrightarrow> ok_steps env k w' w'' \<Longrightarrow> ok_steps env k w w''"
  using ok_add [where j = 0] by fastforce

lemma ok_then: "ok_steps env k w w' \<Longrightarrow> ok_step env w' w'' \<Longrightarrow> ok_steps env k w w''"
  using ok_add [where k = 0] by fastforce

lemma ok_mono: "ok_steps env j w w' \<Longrightarrow> j \<le> k \<Longrightarrow> ok_steps env k w w'"
  unfolding ok_steps_def by auto

section \<open>The primitive steps\<close>

lemma sum_update: "sum_list (map (\<lambda>(k, q). length q) (AList.update k q xs)) + (case map_of xs k of None \<Rightarrow> 0 | Some q0 \<Rightarrow> length q0)
    = sum_list (map (\<lambda>(k, q). length q) xs) + length q"
  by (induction xs) auto

lemma sum_delete: "sum_list (map (\<lambda>(k, q). length q) (AList.delete k xs)) + (case map_of xs k of None \<Rightarrow> 0 | Some q0 \<Rightarrow> length q0)
    \<le> sum_list (map (\<lambda>(k, q). length q) xs)"
proof (induction xs)
  case (Cons x xs)
  obtain j q where x: "x = (j, q)" by fastforce
  have "sum_list (map (\<lambda>(k, q). length q) (AList.delete k xs)) \<le> sum_list (map (\<lambda>(k, q). length q) xs)"
    using Cons by simp
  with Cons x show ?case by auto
qed simp

lemma sq_len_push: "pushScope q s m = Some q' \<Longrightarrow> sq_len q' = Suc (sq_len q)"
  using sum_update [of "normalizeSteeringScope s" "sq_lookup q (normalizeSteeringScope s) @ [m]" "sq_queues q"]
  by (auto simp: pushScope_def sq_len_def sq_lookup_def Let_def split: if_splits option.splits)

lemma sq_len_dequeueLocked: "dequeueLocked q s = (msgs, q') \<Longrightarrow> sq_len q' + length msgs \<le> sq_len q"
  using sum_delete [of s "sq_queues q"] sum_update [of s "tl (sq_lookup q s)" "sq_queues q"]
  by (auto simp: dequeueLocked_def sq_len_def sq_lookup_def Let_def
      split: list.splits steering_mode.splits if_splits option.splits)

lemma sq_len_dequeueScope: "dequeueScope q s = (msgs, q') \<Longrightarrow> sq_len q' + length msgs \<le> sq_len q"
  by (simp add: dequeueScope_def sq_len_dequeueLocked)

lemma sq_len_fallback: "dequeueScopeWithFallback q s = (msgs, q') \<Longrightarrow> sq_len q' + length msgs \<le> sq_len q"
  by (auto simp: dequeueScopeWithFallback_def Let_def split: if_splits prod.splits
      dest!: sq_len_dequeueLocked)

text \<open>A step that changes none of the fields the relations speak of.\<close>

lemma ok_same:
  "ts_opts (w_ts w') = ts_opts (w_ts w) \<Longrightarrow> ts_sessionKey (w_ts w') = ts_sessionKey (w_ts w) \<Longrightarrow>
   ts_parentTurnState (w_ts w') = ts_parentTurnState (w_ts w) \<Longrightarrow>
   ts_gracefulTerminalUsed (w_ts w') = ts_gracefulTerminalUsed (w_ts w) \<Longrightarrow>
   ts_gracefulInterrupt (w_ts w') = ts_gracefulInterrupt (w_ts w) \<Longrightarrow>
   w_taken w' = w_taken w \<Longrightarrow> w_injected w' = w_injected w \<Longrightarrow> w_pending w' = w_pending w \<Longrightarrow>
   w_runs w' = w_runs w \<Longrightarrow> w_compactions w' = w_compactions w \<Longrightarrow>
   ts_restorePointHistory (w_ts w') = ts_restorePointHistory (w_ts w) \<Longrightarrow>
   ts_restorePointSummary (w_ts w') = ts_restorePointSummary (w_ts w) \<Longrightarrow>
   ts_iteration (w_ts w') = ts_iteration (w_ts w) \<Longrightarrow> w_steering w' = w_steering w \<Longrightarrow>
   w_sched w' = w_sched w \<Longrightarrow> w_calls w' = w_calls w \<Longrightarrow> ok_step env w w'"
  by (simp add: ok_steps_def evolves_def calm_def conserved_def mass_def awaited_def queued_def)

lemma interfere_frame [simp]:
  "w_taken (interfere a w) = w_taken w" "w_injected (interfere a w) = w_injected w"
  "w_pending (interfere a w) = w_pending w" "w_runs (interfere a w) = w_runs w"
  "w_compactions (interfere a w) = w_compactions w" "w_calls (interfere a w) = w_calls w"
  "w_sched (interfere a w) = w_sched w" "w_messages (interfere a w) = w_messages w"
  "w_n (interfere a w) = w_n w" "w_tools (interfere a w) = w_tools w"
  by (cases a; simp add: upd_ts_def split: option.splits)+

lemma interfere_ts [simp]:
  "ts_opts (w_ts (interfere a w)) = ts_opts (w_ts w)"
  "ts_sessionKey (w_ts (interfere a w)) = ts_sessionKey (w_ts w)"
  "ts_parentTurnState (w_ts (interfere a w)) = ts_parentTurnState (w_ts w)"
  "ts_gracefulTerminalUsed (w_ts (interfere a w)) = ts_gracefulTerminalUsed (w_ts w)"
  "ts_restorePointHistory (w_ts (interfere a w)) = ts_restorePointHistory (w_ts w)"
  "ts_restorePointSummary (w_ts (interfere a w)) = ts_restorePointSummary (w_ts w)"
  "ts_iteration (w_ts (interfere a w)) = ts_iteration (w_ts w)"
  by (cases a; simp add: upd_ts_def requestGracefulInterrupt_def requestHardAbort_def push_result_def Let_def
      split: option.splits)+

lemma interfere_graceful:
  "ts_gracefulInterrupt (w_ts w) \<Longrightarrow> ts_gracefulInterrupt (w_ts (interfere a w))"
  by (cases a) (auto simp: upd_ts_def requestGracefulInterrupt_def requestHardAbort_def push_result_def Let_def
      split: option.splits)

lemma interfere_queued: "queued (interfere a w) \<le> queued w + steers [a]"
  by (cases a) (auto simp: queued_def upd_ts_def sq_len_push split: option.splits)

definition same_frame :: "world \<Rightarrow> world \<Rightarrow> bool" where
  "same_frame w w' \<longleftrightarrow>
     w_taken w' = w_taken w \<and> w_injected w' = w_injected w \<and> w_pending w' = w_pending w \<and> w_runs w' = w_runs w
     \<and> w_compactions w' = w_compactions w \<and> w_calls w' = w_calls w \<and> w_messages w' = w_messages w
     \<and> w_n w' = w_n w \<and> w_tools w' = w_tools w
     \<and> ts_opts (w_ts w') = ts_opts (w_ts w) \<and> ts_sessionKey (w_ts w') = ts_sessionKey (w_ts w)
     \<and> ts_parentTurnState (w_ts w') = ts_parentTurnState (w_ts w)
     \<and> ts_gracefulTerminalUsed (w_ts w') = ts_gracefulTerminalUsed (w_ts w)
     \<and> ts_restorePointHistory (w_ts w') = ts_restorePointHistory (w_ts w)
     \<and> ts_restorePointSummary (w_ts w') = ts_restorePointSummary (w_ts w)
     \<and> ts_iteration (w_ts w') = ts_iteration (w_ts w)
     \<and> (ts_gracefulInterrupt (w_ts w) \<longrightarrow> ts_gracefulInterrupt (w_ts w'))"

lemma interferes_frame:
  "same_frame w (fold interfere acts w) \<and> w_sched (fold interfere acts w) = w_sched w
   \<and> queued (fold interfere acts w) \<le> queued w + steers acts"
proof (induction acts arbitrary: w)
  case (Cons a acts)
  have "steers (a # acts) = steers [a] + steers acts" by (cases a) auto
  with Cons [of "interfere a w"] interfere_queued [of a w] interfere_graceful [of w a] show ?case
    by (auto simp: same_frame_def)
qed (simp add: same_frame_def)

lemma observe_frame: "same_frame w (observe w) \<and> awaited (observe w) \<le> awaited w"
proof (cases "w_sched w")
  case Nil
  then show ?thesis by (simp add: observe_def same_frame_def)
next
  case (Cons acts rest)
  define v where "v = w\<lparr>w_sched := rest\<rparr>"
  have o: "observe w = fold interfere acts v" by (simp add: observe_def Cons v_def)
  have q: "queued v = queued w" by (simp add: queued_def v_def)
  note f = interferes_frame [of v acts]
  have "same_frame w (fold interfere acts v)" using f by (simp add: same_frame_def v_def)
  moreover have "awaited (fold interfere acts v) \<le> awaited w"
  proof -
    have "w_sched (fold interfere acts v) = rest" using f by (simp add: v_def)
    moreover have "queued (fold interfere acts v) \<le> queued w + steers acts" using f unfolding q by blast
    ultimately show ?thesis unfolding awaited_def Cons by simp
  qed
  ultimately show ?thesis by (simp add: o)
qed

lemma frame_ok: "same_frame w w' \<Longrightarrow> awaited w' \<le> awaited w \<Longrightarrow> ok_step env w w'"
  by (auto simp: same_frame_def ok_steps_def evolves_def calm_def conserved_def mass_def)

lemma observe_ok: "ok_step env w (observe w)"
  using observe_frame frame_ok by blast

lemma read_hard_ok: "read_hard w = (b, w') \<Longrightarrow> ok_step env w w'"
  by (auto simp: read_hard_def Let_def observe_ok)

lemma read_graceful_ok: "read_graceful w = (b, w') \<Longrightarrow> ok_step env w w'"
  by (auto simp: read_graceful_def Let_def observe_ok)

text \<open>Steering messages move from the queue to the pending messages.\<close>

lemma take_steering_frame:
  assumes "take_steering deq w = (msgs, w')"
    and "\<And>q s msgs q'. deq q s = (msgs, q') \<Longrightarrow> sq_len q' + length msgs \<le> sq_len q"
  shows "awaited w' + length msgs \<le> awaited w \<and> w_taken w' = w_taken w @ msgs
     \<and> same_frame w (w'\<lparr>w_taken := w_taken w\<rparr>)"
proof -
  note o = observe_frame [of w]
  show ?thesis
  proof (cases "w_steering (observe w)")
    case None
    then show ?thesis using assms(1) o by (auto simp: take_steering_def Let_def same_frame_def)
  next
    case (Some q)
    obtain m q' where d: "deq q (ts_sessionKey (w_ts (observe w))) = (m, q')" by (rule prod.exhaust)
    from assms(2) [OF d] show ?thesis
      using assms(1) o Some d by (auto simp: take_steering_def Let_def same_frame_def awaited_def queued_def)
  qed
qed

lemma take_pending_ok:
  assumes "take_steering deq w = (msgs, w')"
    and "\<And>q s msgs q'. deq q s = (msgs, q') \<Longrightarrow> sq_len q' + length msgs \<le> sq_len q"
  shows "ok_step env w (w'\<lparr>w_pending := w_pending w' @ msgs\<rparr>)
     \<and> (msgs \<noteq> [] \<longrightarrow> mass (w'\<lparr>w_pending := w_pending w' @ msgs\<rparr>) < mass w)"
proof -
  define v where "v = w'\<lparr>w_pending := w_pending w' @ msgs\<rparr>"
  have a: "awaited v = awaited w'" by (simp add: v_def awaited_def queued_def)
  have f: "awaited w' + length msgs \<le> awaited w \<and> w_taken w' = w_taken w @ msgs
     \<and> same_frame w (w'\<lparr>w_taken := w_taken w\<rparr>)"
    by (rule take_steering_frame [OF assms(1)]) (erule assms(2))
  note t = f [THEN conjunct2, THEN conjunct1] and s = f [THEN conjunct2, THEN conjunct2]
  have e: "w_injected w' = w_injected w" "w_pending w' = w_pending w" "w_runs w' = w_runs w"
     "w_compactions w' = w_compactions w" "w_calls w' = w_calls w"
     "ts_opts (w_ts w') = ts_opts (w_ts w)" "ts_sessionKey (w_ts w') = ts_sessionKey (w_ts w)"
     "ts_parentTurnState (w_ts w') = ts_parentTurnState (w_ts w)"
     "ts_gracefulTerminalUsed (w_ts w') = ts_gracefulTerminalUsed (w_ts w)"
     "ts_restorePointHistory (w_ts w') = ts_restorePointHistory (w_ts w)"
     "ts_restorePointSummary (w_ts w') = ts_restorePointSummary (w_ts w)"
     "ts_iteration (w_ts w') = ts_iteration (w_ts w)"
     "ts_gracefulInterrupt (w_ts w) \<Longrightarrow> ts_gracefulInterrupt (w_ts w')"
    using s by (simp_all add: same_frame_def)
  have p: "w_pending v = w_pending w @ msgs" by (simp add: v_def e)
  have d: "awaited w' + length msgs \<le> awaited w" using f by blast
  have m: "mass v \<le> mass w" "msgs \<noteq> [] \<longrightarrow> mass v < mass w"
    unfolding mass_def a p using d by (cases msgs; simp)+
  have "evolves env w v" using e by (simp add: evolves_def v_def conserved_def t)
  moreover have "calm w v" using e m(1) by (simp add: calm_def v_def)
  ultimately show ?thesis using m(2) e by (simp add: ok_steps_def v_def)
qed

lemma poll_steering_ok:
  assumes "poll_steering w = (b, w')" shows "ok_step env w w' \<and> (b \<longrightarrow> mass w' < mass w)"
proof -
  obtain msgs v where d: "take_steering dequeueScope w = (msgs, v)" by (rule prod.exhaust)
  with assms have "b = (msgs \<noteq> [])" "w' = v\<lparr>w_pending := w_pending v @ msgs\<rparr>"
    by (simp_all add: poll_steering_def dequeueSteeringMessagesForScope_def)
  with take_pending_ok [OF d sq_len_dequeueScope] show ?thesis by simp
qed

lemma poll_iteration_ok: "ok_step env w (poll_iteration w)"
proof -
  obtain msgs v where d: "take_steering dequeueScopeWithFallback w = (msgs, v)" by (rule prod.exhaust)
  show ?thesis
    using take_pending_ok [OF d sq_len_fallback] poll_steering_ok [of w "fst (poll_steering w)" "snd (poll_steering w)" env]
    by (simp add: poll_iteration_def dequeueSteeringMessagesForScopeWithFallback_def d)
qed


section \<open>The steps that only write\<close>

lemmas write_defs = emit_def emit_turn_def send_out_def next_call_def upd_store_def upd_ts_def persist_def
  add_message_def noHistory_def setPhase_def setFinalContent_def recordPersistedMessage_def Let_def

lemma emit_ok [simp, intro]: "ok_step env w (emit k m p w)"
  by (rule ok_same) (simp_all add: write_defs)

lemma emit_turn_ok [simp, intro]: "ok_step env w (emit_turn k path p w)"
  by (simp add: emit_turn_def)

lemma send_out_ok [simp, intro]: "ok_step env w (send_out x w)"
  by (rule ok_same) (simp_all add: write_defs)

lemma next_call_ok: "next_call w = (n, w') \<Longrightarrow> ok_step env w w'"
  by (rule ok_same) (auto simp: write_defs)

lemma upd_store_ok [simp, intro]: "ok_step env w (upd_store e f w)"
  by (rule ok_same) (simp_all add: write_defs)

lemma messages_ok [simp, intro]: "ok_step env w (w\<lparr>w_messages := ms\<rparr>)"
  by (rule ok_same) simp_all

lemma tools_ok [simp, intro]: "ok_step env w (w\<lparr>w_tools := t\<rparr>)"
  by (rule ok_same) simp_all

lemma persist_ok [simp, intro]: "ok_step env w (persist e m w)"
  by (rule ok_same) (simp_all add: write_defs)

lemma add_message_ok [simp, intro]: "ok_step env w (add_message e m w)"
  unfolding add_message_def by (rule ok_trans [OF messages_ok persist_ok])

lemma phase_ok [simp, intro]: "ok_step env w (upd_ts (setPhase p) w)"
  by (rule ok_same) (simp_all add: write_defs)

lemma save_session_ok: "save_session e w = (r, w') \<Longrightarrow> ok_step env w w'"
  by (auto simp: save_session_def split: prod.splits intro: next_call_ok)

lemma build_messages_ok [simp, intro]: "ok_step env w (build_messages e u md w)"
  by (rule ok_same) (simp_all add: build_messages_def next_call_def split: prod.splits)

lemma resolve_messages_ok [simp, intro]: "ok_step env w (resolve_messages e w)"
  by (rule ok_same) (simp_all add: resolve_messages_def next_call_def)

lemma assemble_ok [simp, intro]: "ok_step env w (assemble e w)"
  by (rule ok_trans [OF observe_ok ok_same])
    (simp_all add: assemble_def next_call_def split: option.splits prod.splits)

text \<open>A compaction, with the restore point read again.\<close>

lemma compact_ok: "ok_step env w (compact e r w) \<and> w_compactions w < w_compactions (compact e r w)"
proof -
  define v where "v = observe w"
  have o: "ok_step env w v" and f: "same_frame w v" unfolding v_def using observe_ok observe_frame by blast+
  have c: "w_compactions (compact e r w) = Suc (w_compactions v)"
    by (simp add: compact_def next_call_def v_def)
  have "evolves env v (compact e r w) \<and> calm v (compact e r w) \<and> w_calls (compact e r w) = w_calls v"
    by (simp add: compact_def next_call_def v_def evolves_def calm_def conserved_def mass_def awaited_def queued_def)
  then have "ok_step env v (compact e r w)" by (simp add: ok_steps_def)
  with o have "ok_step env w (compact e r w)" by (rule ok_trans)
  with c f show ?thesis by (simp add: same_frame_def)
qed

lemma captured_ok:
  assumes "ok_step env w v" and "w_compactions w < w_compactions v"
  shows "ok_step env w (upd_ts (captureRestorePoint h su) v)"
  using assms
  by (simp add: ok_steps_def evolves_def calm_def upd_ts_def captureRestorePoint_def conserved_def mass_def
      awaited_def queued_def)

lemma refreshed_ok: "ok_step env w (refresh_restore_point e (compact e r w))"
  using captured_ok [OF compact_ok [THEN conjunct1] compact_ok [THEN conjunct2]]
  by (simp add: refresh_restore_point_def upd_ts_def refreshRestorePointFromSession_def Let_def)

lemma summarize_after_ok: "ok_step env w (summarize_after e w)"
  using compact_ok by (simp add: summarize_after_def)

lemma proactive_ok: "ok_step env w (proactive_compaction e w)"
  unfolding proactive_compaction_def Let_def
  by (rule ok_trans [OF refreshed_ok], rule ok_trans [OF assemble_ok], rule ok_trans [OF build_messages_ok], rule resolve_messages_ok)

lemma hard_request_ok: "ok_step env w (upd_ts (\<lambda>ts. snd (requestHardAbort ts)) w)"
  by (rule ok_same) (simp_all add: upd_ts_def requestHardAbort_def Let_def)

lemma abort_ok: "abortTurn e w = (r, w') \<Longrightarrow> ok_step env w w'"
  unfolding abortTurn_def Let_def
  by (auto split: if_splits prod.splits option.splits dest!: save_session_ok [where env = env]
      intro: ok_trans [OF phase_ok] ok_trans [OF upd_store_ok] ok_then [OF _ emit_ok])

lemma hook_abort_ok: "hookAbortError st d w = (r, w') \<Longrightarrow> ok_step env w w'"
  by (auto simp: hookAbortError_def Let_def)

lemma hook_hard_ok: "hook_hard_abort e w = (r, w') \<Longrightarrow> ok_step env w w'"
  unfolding hook_hard_abort_def using abort_ok hard_request_ok ok_trans by blast

section \<open>The start of a pass\<close>

lemma persist_frame [simp]:
  "w_taken (persist e m w) = w_taken w" "w_injected (persist e m w) = w_injected w"
  "w_pending (persist e m w) = w_pending w" "w_runs (persist e m w) = w_runs w"
  "w_compactions (persist e m w) = w_compactions w" "w_calls (persist e m w) = w_calls w"
  "w_sched (persist e m w) = w_sched w" "w_steering (persist e m w) = w_steering w"
  "w_messages (persist e m w) = w_messages w" "w_n (persist e m w) = w_n w" "w_tools (persist e m w) = w_tools w"
  "ts_opts (w_ts (persist e m w)) = ts_opts (w_ts w)"
  "ts_sessionKey (w_ts (persist e m w)) = ts_sessionKey (w_ts w)"
  by (simp_all add: persist_def upd_ts_def upd_store_def Let_def recordPersistedMessage_def)

lemma persists_ok: "ok_step env w (fold (persist e) ms w) \<and> w_taken (fold (persist e) ms w) = w_taken w
    \<and> w_injected (fold (persist e) ms w) = w_injected w \<and> w_pending (fold (persist e) ms w) = w_pending w
    \<and> awaited (fold (persist e) ms w) = awaited w"
proof (induction ms arbitrary: w)
  case (Cons m ms)
  have "ok_step env w (fold (persist e) (m # ms) w)"
    using ok_trans [OF persist_ok Cons.IH [of "persist e m w", THEN conjunct1]] by simp
  with Cons.IH [of "persist e m w"] show ?case by (simp add: awaited_def queued_def)
qed simp

lemma injected_ok:
  assumes "ok_step env w v" "w_pending v = w_pending w" "awaited v = awaited w"
    and "w_taken v = w_taken w" "w_injected v = w_injected w" "w_pending w \<noteq> []"
  shows "ok_step env w (v\<lparr>w_injected := w_injected v @ w_pending v, w_pending := []\<rparr>)
     \<and> mass (v\<lparr>w_injected := w_injected v @ w_pending v, w_pending := []\<rparr>) < mass w"
  using assms by (simp add: ok_steps_def evolves_def calm_def conserved_def mass_def awaited_def queued_def)

lemma inject_ok: "ok_step env w (inject_pending e w) \<and> w_pending (inject_pending e w) = []
    \<and> (w_pending w \<noteq> [] \<longrightarrow> mass (inject_pending e w) < mass w)"
proof (cases "w_pending w = []")
  case False
  obtain n w1 where n: "next_call w = (n, w1)" by (rule prod.exhaust)
  define w2 where "w2 = fold (persist e) (w_pending w1) (w1\<lparr>w_messages := w_messages w1 @ env_resolve e n (w_pending w1)\<rparr>)"
  define v where "v = emit_turn EventKindSteeringInjected ''turn.steering.injected''
     (SteeringInjectedPayload (length (w_pending w2)) (sum_list (map (length \<circ> msg_Content) (w_pending w2)))) w2"
  have i: "inject_pending e w = v\<lparr>w_injected := w_injected v @ w_pending v, w_pending := []\<rparr>"
    using False by (simp add: inject_pending_def n v_def w2_def Let_def)
  note p = persists_ok [of env "w1\<lparr>w_messages := w_messages w1 @ env_resolve e n (w_pending w1)\<rparr>" e "w_pending w1",
      folded w2_def]
  have "ok_step env w v"
    unfolding v_def using next_call_ok [OF n] messages_ok p emit_turn_ok ok_trans by meson
  moreover have "w_pending v = w_pending w" "awaited v = awaited w" "w_taken v = w_taken w" "w_injected v = w_injected w"
    using p n by (auto simp: v_def write_defs awaited_def queued_def)
  ultimately show ?thesis using injected_ok False i by simp
qed (simp add: inject_pending_def)

lemma poll_result_ok: "poll_result e w = (r, w') \<Longrightarrow> ok_step env w w' \<and> mass w' \<le> mass w"
proof -
  assume p: "poll_result e w = (r, w')"
  have o: "ok_step env w (observe w)" by (rule observe_ok)
  have "ok_step env (observe w) w'"
    using p by (auto simp: poll_result_def Let_def upd_ts_def split: option.splits list.splits if_splits intro!: ok_same)
  from ok_trans [OF o this] show ?thesis by (simp add: ok_steps_def calm_def)
qed

text \<open>The polled result becomes pending and is injected at once.\<close>

lemma poll_inject_ok:
  "ok_step env w (inject_pending e (poll_pending_result e w)) \<and> w_pending (inject_pending e (poll_pending_result e w)) = []
   \<and> (w_pending w \<noteq> [] \<longrightarrow> mass (inject_pending e (poll_pending_result e w)) < mass w)"
proof -
  obtain r v where p: "poll_result e w = (r, v)" by (rule prod.exhaust)
  note o = poll_result_ok [OF p, of env]
  have pv: "w_pending v = w_pending w"
    using p observe_frame [of w]
    by (auto simp: poll_result_def Let_def upd_ts_def same_frame_def split: option.splits list.splits if_splits)
  show ?thesis
  proof (cases r)
    case None
    then have v: "poll_pending_result e w = v" by (simp add: poll_pending_result_def p)
    note i = inject_ok [of env v e]
    have "ok_step env w (inject_pending e v)" using o i ok_trans by blast
    moreover have "w_pending w \<noteq> [] \<longrightarrow> mass (inject_pending e v) < mass w"
      using i o pv le_less_trans [of _ "mass v"] by (metis less_le_trans)
    ultimately show ?thesis using i v by simp
  next
    case (Some m)
    define u where "u = v\<lparr>w_pending := w_pending v @ [m], w_taken := w_taken v @ [m]\<rparr>"
    have u: "poll_pending_result e w = u" by (simp add: poll_pending_result_def p Some u_def)
    have e: "evolves env w u" "ts_iteration (w_ts u) = ts_iteration (w_ts w)" "w_calls u \<le> w_calls w" "awaited u = awaited v"
      using o by (auto simp: u_def ok_steps_def evolves_def calm_def conserved_def awaited_def queued_def)
    note i = inject_ok [of env u e]
    have pu: "w_pending u \<noteq> []" by (simp add: u_def)
    have m: "mass (inject_pending e u) < mass u" using i pu by blast
    have "mass (inject_pending e u) = 2 * awaited (inject_pending e u)" using i by (simp add: mass_def)
    moreover have "mass u = 2 * awaited v + 1" using e(4) by (simp add: mass_def u_def)
    moreover have "mass v = 2 * awaited v + (if w_pending w = [] then 0 else 1)" by (simp add: mass_def pv)
    ultimately have "mass (inject_pending e u) \<le> mass w" "w_pending w \<noteq> [] \<longrightarrow> mass (inject_pending e u) < mass w"
      using m o by auto
    moreover have "evolves env w (inject_pending e u)"
      using i evolves_trans [OF e(1)] unfolding ok_steps_def by blast
    moreover have "ts_iteration (w_ts (inject_pending e u)) = ts_iteration (w_ts w)" "w_calls (inject_pending e u) \<le> w_calls w"
      using i e(2,3) by (auto simp: ok_steps_def calm_def)
    ultimately show ?thesis
      using i by (simp add: u ok_steps_def calm_def)
  qed
qed

definition stepped :: "turn_env \<Rightarrow> nat \<Rightarrow> world \<Rightarrow> world \<Rightarrow> bool" where
  "stepped env k w w' \<longleftrightarrow> evolves env w w' \<and> ts_iteration (w_ts w') = ts_iteration (w_ts w) + 1
     \<and> mass w' \<le> mass w \<and> w_calls w' \<le> w_calls w + k"

lemma stepped_then: "stepped env j w w' \<Longrightarrow> ok_steps env k w' w'' \<Longrightarrow> stepped env (j + k) w w''"
  unfolding stepped_def ok_steps_def calm_def by (auto intro: evolves_trans)

lemma stepped_after: "ok_step env w w' \<Longrightarrow> stepped env k w' w'' \<Longrightarrow> stepped env k w w''"
  unfolding stepped_def ok_steps_def calm_def by (auto intro: evolves_trans)

lemma count_stepped: "stepped env 0 w (upd_ts (setPhase p \<circ> setIteration (currentIteration (w_ts w) + 1)) w)"
  by (simp add: stepped_def evolves_def upd_ts_def setPhase_def setIteration_def currentIteration_def conserved_def
      mass_def awaited_def queued_def)

lemma parent_gone_ok: "parent_gone w = (b, w') \<Longrightarrow> ok_step env w w' \<and> w_pending w' = w_pending w"
  using observe_ok [of env w] observe_frame [of w]
  by (auto simp: parent_gone_def Let_def same_frame_def split: if_splits)

lemma take_steering_pending: "take_steering deq w = (msgs, w') \<Longrightarrow> w_pending w' = w_pending w"
  using observe_frame [of w]
  by (auto simp: take_steering_def Let_def same_frame_def split: option.splits prod.splits)

lemma poll_steering_pending: "poll_steering w = (b, w') \<Longrightarrow> \<exists>msgs. w_pending w' = w_pending w @ msgs \<and> (b \<longleftrightarrow> msgs \<noteq> [])"
  using take_steering_pending
  by (auto simp: poll_steering_def dequeueSteeringMessagesForScope_def split: prod.splits)

lemma poll_keeps_pending: "w_pending w \<noteq> [] \<Longrightarrow> w_pending (poll_iteration w) \<noteq> []"
  using poll_steering_pending [of w "fst (poll_steering w)" "snd (poll_steering w)"]
  by (auto simp: poll_iteration_def dequeueSteeringMessagesForScopeWithFallback_def
      split: prod.splits dest: take_steering_pending)

lemma start_ok:
  assumes "start_iteration e w = (r, w')"
  shows "case r of LContinue \<Rightarrow> False
     | LReturn out \<Rightarrow> ok_step env w w'
     | LBreak a \<Rightarrow> a = [] \<and> stepped env 0 w w' \<and> ts_parentTurnState (w_ts w) \<noteq> None
     | LGo _ \<Rightarrow> stepped env 0 w w' \<and> w_pending w' = [] \<and> (w_pending w \<noteq> [] \<longrightarrow> mass w' < mass w)"
proof -
  obtain hard w1 where h: "read_hard w = (hard, w1)" by (rule prod.exhaust)
  have h1: "ok_step env w w1" using h by (rule read_hard_ok)
  show ?thesis
  proof (cases hard)
    case True
    obtain out w2 where "abortTurn e w1 = (out, w2)" by (rule prod.exhaust)
    moreover from this h1 have "ok_step env w w2" using abort_ok ok_trans by blast
    ultimately show ?thesis using assms by (auto simp: start_iteration_def h True)
  next
    case False
    define w2 where "w2 = upd_ts (setPhase TurnPhaseRunning \<circ> setIteration (currentIteration (w_ts w1) + 1)) w1"
    define w3 where "w3 = poll_iteration w2"
    obtain gone w4 where g: "parent_gone w3 = (gone, w4)" by (rule prod.exhaust)
    have s3: "stepped env 0 w w3"
      using stepped_then [OF stepped_after [OF h1 count_stepped] poll_iteration_ok] by (simp add: w3_def w2_def)
    note pg = parent_gone_ok [OF g, of env]
    have s4: "stepped env 0 w w4" using stepped_then [OF s3 pg [THEN conjunct1]] by simp
    have r: "start_iteration e w = (if gone then (LBreak [], w4) else (LGo (), inject_pending e (poll_pending_result e w4)))"
      using h False g unfolding start_iteration_def Let_def w3_def w2_def by simp
    show ?thesis
    proof (cases gone)
      case True
      have "ts_parentTurnState (w_ts w3) \<noteq> None" using g True by (auto simp: parent_gone_def split: if_splits)
      moreover have "ts_parentTurnState (w_ts w3) = ts_parentTurnState (w_ts w)" using s3 by (simp add: stepped_def evolves_def)
      ultimately show ?thesis using assms r True s4 by auto
    next
      case False
      note i = poll_inject_ok [of env w4 e]
      have "stepped env 0 w (inject_pending e (poll_pending_result e w4))"
        using stepped_then [OF s4 i [THEN conjunct1]] by simp
      moreover have "w_pending w \<noteq> [] \<longrightarrow> mass (inject_pending e (poll_pending_result e w4)) < mass w"
      proof
        assume "w_pending w \<noteq> []"
        moreover have "w_pending w1 = w_pending w"
          using h observe_frame [of w] by (auto simp: read_hard_def Let_def same_frame_def)
        ultimately have "w_pending w4 \<noteq> []"
          using pg poll_keeps_pending [of w2] by (simp add: w3_def) (simp add: w2_def upd_ts_def)
        with i have "mass (inject_pending e (poll_pending_result e w4)) < mass w4" by blast
        also have "mass w4 \<le> mass w" using s4 by (simp add: stepped_def)
        finally show "mass (inject_pending e (poll_pending_result e w4)) < mass w" .
      qed
      ultimately show ?thesis using assms r False i by auto
    qed
  qed
qed

section \<open>The LLM\<close>

text \<open>A step that also leaves the pending messages alone.\<close>

definition still :: "turn_env \<Rightarrow> nat \<Rightarrow> world \<Rightarrow> world \<Rightarrow> bool" where
  "still env k w w' \<longleftrightarrow> ok_steps env k w w' \<and> w_pending w' = w_pending w"

lemma still_refl [simp, intro]: "still env k w w"
  by (simp add: still_def)

lemma still_trans: "still env 0 w w' \<Longrightarrow> still env k w' w'' \<Longrightarrow> still env k w w''"
  by (auto simp: still_def intro: ok_trans)

lemma still_then: "still env k w w' \<Longrightarrow> still env 0 w' w'' \<Longrightarrow> still env k w w''"
  by (auto simp: still_def intro: ok_then)

lemma still_add: "still env j w w' \<Longrightarrow> still env k w' w'' \<Longrightarrow> still env (j + k) w w''"
  by (auto simp: still_def intro: ok_add)

lemma still_mono: "still env j w w' \<Longrightarrow> j \<le> k \<Longrightarrow> still env k w w'"
  by (auto simp: still_def intro: ok_mono)

lemma observe_still: "still env 0 w (observe w)"
  using observe_frame [of w] observe_ok by (simp add: still_def same_frame_def)

lemma read_graceful_still: "read_graceful w = (b, w') \<Longrightarrow> still env 0 w w'"
  by (auto simp: read_graceful_def Let_def observe_still)

lemma read_hard_still: "read_hard w = (b, w') \<Longrightarrow> still env 0 w w'"
  by (auto simp: read_hard_def Let_def observe_still)

lemma emit_still [simp, intro]: "still env 0 w (emit k m p w)"
  by (simp add: still_def) (simp add: write_defs)

lemma emit_turn_still [simp, intro]: "still env 0 w (emit_turn k path p w)"
  by (simp add: emit_turn_def)

lemma send_out_still [simp, intro]: "still env 0 w (send_out x w)"
  by (simp add: still_def) (simp add: write_defs)

lemma next_call_still: "next_call w = (n, w') \<Longrightarrow> still env 0 w w'"
  by (auto simp: still_def next_call_ok) (auto simp: next_call_def)

lemma upd_store_still [simp, intro]: "still env 0 w (upd_store e f w)"
  by (simp add: still_def) (simp add: write_defs)

lemma persist_still [simp, intro]: "still env 0 w (persist e m w)"
  by (simp add: still_def)

lemma add_message_still [simp, intro]: "still env 0 w (add_message e m w)"
  by (simp add: still_def) (simp add: add_message_def)

lemma phase_still [simp, intro]: "still env 0 w (upd_ts (setPhase p) w)"
  by (simp add: still_def) (simp add: write_defs)

lemma resolve_still [simp, intro]: "still env 0 w (resolve_messages e w)"
  by (simp add: still_def) (simp add: resolve_messages_def next_call_def)

lemma build_still [simp, intro]: "still env 0 w (build_messages e u md w)"
  by (simp add: still_def) (simp add: build_messages_def next_call_def split: prod.splits)

lemma assemble_still [simp, intro]: "still env 0 w (assemble e w)"
  using observe_frame [of w]
  by (simp add: still_def) (simp add: assemble_def next_call_def same_frame_def split: option.splits prod.splits)

lemma compact_pending: "w_pending (compact e r w) = w_pending w"
  using observe_frame [of w] by (simp add: compact_def next_call_def same_frame_def)

lemma compact_still [simp, intro]: "still env 0 w (compact e r w)"
  using compact_ok by (simp add: still_def compact_pending)

lemma refreshed_still: "still env 0 w (refresh_restore_point e (compact e r w))"
  using refreshed_ok by (simp add: still_def refresh_restore_point_def upd_ts_def compact_pending)

lemma save_session_still: "save_session e w = (r, w') \<Longrightarrow> still env 0 w w'"
  by (auto simp: save_session_def split: prod.splits intro: next_call_still)

lemma abort_still: "abortTurn e w = (r, w') \<Longrightarrow> still env 0 w w'"
  unfolding abortTurn_def Let_def
  by (auto split: if_splits prod.splits option.splits dest!: save_session_still [where env = env]
      intro: still_trans [OF phase_still] still_trans [OF upd_store_still] still_then [OF _ emit_still])

lemma hook_abort_still: "hookAbortError st d w = (r, w') \<Longrightarrow> still env 0 w w'"
  by (auto simp: hookAbortError_def Let_def)

lemma hook_hard_still: "hook_hard_abort e w = (r, w') \<Longrightarrow> still env 0 w w'"
proof -
  assume h: "hook_hard_abort e w = (r, w')"
  have "still env 0 w (upd_ts (\<lambda>ts. snd (requestHardAbort ts)) w)"
    using hard_request_ok by (simp add: still_def upd_ts_def)
  with h show ?thesis unfolding hook_hard_abort_def using abort_still still_trans by blast
qed

lemma prepare_still:
  assumes "prepare_call e w = (lc, w')"
  shows "still env 0 w w' \<and> (ts_gracefulInterrupt (w_ts w) \<longrightarrow> ts_gracefulTerminalUsed (w_ts w'))"
proof -
  obtain g w1 where g: "read_graceful w = (g, w1)" by (rule prod.exhaust)
  define w2 where "w2 = (if currentIteration (w_ts w1) > 1 then resolve_messages e w1 else w1)"
  have s2: "still env 0 w w2"
    using still_trans [OF read_graceful_still [OF g] resolve_still] read_graceful_still [OF g] by (simp add: w2_def)
  have w': "w' = (if g then upd_ts markGracefulTerminalUsed w2 else w2)"
    using assms by (auto simp: prepare_call_def g w2_def Let_def)
  have "still env 0 w2 (upd_ts markGracefulTerminalUsed w2)"
    by (simp add: still_def ok_steps_def evolves_def calm_def upd_ts_def markGracefulTerminalUsed_def conserved_def
        mass_def awaited_def queued_def)
  then have "still env 0 w w'" using s2 w' still_trans by auto
  moreover have "ts_gracefulInterrupt (w_ts w) \<longrightarrow> ts_gracefulTerminalUsed (w_ts w')"
  proof
    assume i: "ts_gracefulInterrupt (w_ts w)"
    have w1: "w1 = observe w" "g = fst (gracefulInterruptRequested (w_ts w1))"
      using g by (auto simp: read_graceful_def Let_def)
    have "ts_gracefulInterrupt (w_ts w1)" using i observe_frame [of w] w1 by (simp add: same_frame_def)
    moreover have "w_ts w2 = w_ts w1" by (simp add: w2_def resolve_messages_def next_call_def)
    ultimately show "ts_gracefulTerminalUsed (w_ts w')"
      using w1(2) by (simp add: w' gracefulInterruptRequested_def upd_ts_def markGracefulTerminalUsed_def)
  qed
  ultimately show ?thesis by blast
qed

lemma ret_eq: "ret x = (a, w') \<longleftrightarrow> a = Ret (fst x) \<and> w' = snd x"
  by (auto simp: ret_def)

lemma hook_hard_snd: "still env 0 w (snd (hook_hard_abort e w))"
  by (rule hook_hard_still [of e w "fst (hook_hard_abort e w)"]) simp

lemma hook_abort_snd: "still env 0 w (snd (hookAbortError st d w))"
  by (rule hook_abort_still [of st d w "fst (hookAbortError st d w)"]) simp

lemma abort_snd: "still env 0 w (snd (abortTurn e w))"
  by (rule abort_still [of e w "fst (abortTurn e w)"]) simp

lemmas hook_stops = hook_hard_snd hook_abort_snd abort_snd

lemma before_llm_still: "before_llm_stage e lc w = (s, w') \<Longrightarrow> still env 0 w w'"
  by (auto simp: before_llm_stage_def next_call_def ret_eq split: option.splits prod.splits hook_action.splits
      intro: still_trans [OF next_call_still [where n = "w_n w"]] hook_stops still_refl)

lemma before_llm_graceful: "before_llm_stage e lc w = (Go lc', w') \<Longrightarrow> lc_Graceful lc' = lc_Graceful lc"
  by (auto simp: before_llm_stage_def ret_eq split: option.splits prod.splits hook_action.splits)

lemma after_llm_still: "after_llm_stage e lc resp w = (s, w') \<Longrightarrow> still env 0 w w'"
  by (auto simp: after_llm_stage_def next_call_def ret_eq split: option.splits prod.splits hook_action.splits
      intro: still_trans [OF next_call_still [where n = "w_n w"]] hook_stops still_refl)

lemma call_llm_still: "call_llm e lc w = (r, w') \<Longrightarrow> still env 1 w w'"
  by (auto simp: call_llm_def next_call_def still_def ok_steps_def evolves_def calm_def upd_ts_def conserved_def
      mass_def awaited_def queued_def setProviderCancel_def clearProviderCancel_def)

lemma overflow_still: "overflow_recovery e n lc w = (lc', w') \<Longrightarrow> still env 0 w w'"
proof -
  assume o: "overflow_recovery e n lc w = (lc', w')"
  obtain w1 where w1: "still env 0 w w1" and
    w': "w' = build_messages e [] [] (assemble e (refresh_restore_point e (compact e ContextCompressReasonRetry w1)))"
    using o by (auto simp: overflow_recovery_def Let_def split: if_splits)
  show ?thesis
    unfolding w' using still_trans [OF w1 refreshed_still] assemble_still build_still still_trans by meson
qed

lemma failed_snd: "still env 0 w (snd (llm_failed err w))"
  by (simp add: llm_failed_def)

lemma retries_still: "call_with_retries e left lc w = (s, w') \<Longrightarrow> still env (Suc left) w w'"
proof (induction left arbitrary: lc w)
  case 0
  obtain r w1 where c: "call_llm e lc w = (r, w1)" by (rule prod.exhaust)
  obtain hard w2 where h: "read_hard w1 = (hard, w2)" by (rule prod.exhaust)
  note s1 = call_llm_still [OF c, of env] and s2 = read_hard_still [OF h, of env]
  have "w' = w1 \<or> w' = snd (abortTurn e w2) \<or> (\<exists>err. w' = snd (llm_failed err w2))"
    using 0 by (subst (asm) call_with_retries.simps) (auto simp: c h ret_eq split: sum.splits if_splits)
  moreover have "still env 1 w w2" using s1 s2 by (rule still_then)
  ultimately show ?case
    using s1 still_then [OF _ abort_snd, of env 1 w w2 e] still_then [OF _ failed_snd, of env 1 w w2] by auto
next
  case (Suc left)
  obtain r w1 where c: "call_llm e lc w = (r, w1)" by (rule prod.exhaust)
  obtain hard w2 where h: "read_hard w1 = (hard, w2)" by (rule prod.exhaust)
  note s1 = call_llm_still [OF c, of env] and s2 = still_then [OF s1 read_hard_still [OF h]]
  show ?case
  proof (cases r)
    case (Inr resp)
    then have "w' = w1" using Suc.prems by (subst (asm) call_with_retries.simps) (simp add: c)
    then show ?thesis using still_mono [OF s1, of "Suc (Suc left)"] by simp
  next
    case (Inl err)
    note e = Suc.prems [unfolded call_with_retries.simps [of e "Suc left"] c h Inl prod.case sum.case nat.case]
    show ?thesis
    proof (cases "hard \<and> le_Canceled err")
      case True
      then have "w' = snd (abortTurn e w2)" using e by (simp add: ret_eq)
      then show ?thesis using still_mono [OF still_then [OF s2 abort_snd], of "Suc (Suc left)"] by simp
    next
      case alive: False
      show ?thesis
      proof (cases "is_timeout_error err")
        case True
        define w3 where "w3 = emit_turn EventKindLLMRetry ''turn.llm.retry''
          (LLMRetryPayload (int (2 - Suc left) + 1) 2 ''timeout'' (le_Text err)) w2"
        obtain n w4 where n: "next_call w3 = (n, w4)" by (rule prod.exhaust)
        have s4: "still env 1 w w4"
          using still_then [OF still_then [OF s2 emit_turn_still] next_call_still] n by (simp add: w3_def)
        obtain b w5 where b: "read_hard w4 = (b, w5)" by (rule prod.exhaust)
        have s5: "still env 1 w w5" using still_then [OF s4 read_hard_still [OF b]] .
        have "call_with_retries e left lc w4 = (s, w') \<or> w' = snd (abortTurn e w5) \<or> (\<exists>t. w' = snd (llm_failed t w5))"
          using e alive True n b by (auto simp: w3_def Let_def ret_eq split: option.splits bool.splits if_splits)
        then show ?thesis
          using still_add [OF s4 Suc.IH] still_mono [OF still_then [OF s5 abort_snd], of "Suc (Suc left)"]
            still_mono [OF still_then [OF s5 failed_snd], of "Suc (Suc left)"] by auto
      next
        case no: False
        show ?thesis
        proof (cases "is_context_error err \<and> \<not> noHistory w2")
          case True
          define w3 where "w3 = emit_turn EventKindLLMRetry ''turn.llm.retry''
            (LLMRetryPayload (int (2 - Suc left) + 1) 2 ''context_limit'' (le_Text err)) w2"
          obtain lc' w4 where o: "overflow_recovery e (2 - Suc left) lc w3 = (lc', w4)" by (rule prod.exhaust)
          have s4: "still env 1 w w4"
            using still_then [OF still_then [OF s2 emit_turn_still] overflow_still] o by (simp add: w3_def)
          have "call_with_retries e left lc' w4 = (s, w')"
            using e alive no True o by (simp add: w3_def Let_def)
          then show ?thesis using still_add [OF s4 Suc.IH] by simp
        next
          case False
          then have "w' = snd (llm_failed (le_Text err) w2)" using e alive no by (auto simp: ret_eq)
          then show ?thesis using still_mono [OF still_then [OF s2 failed_snd], of "Suc (Suc left)"] by simp
        qed
      qed
    qed
  qed
qed

lemma note_still: "still env 0 w (note_response e resp w)"
proof -
  define w1 where "w1 = (if env_ctxHasTurn e
     then upd_ts (\<lambda>ts. ts\<lparr>ts_lastFinishReason := lr_FinishReason resp,
            ts_lastUsage := (case lr_Usage resp of None \<Rightarrow> ts_lastUsage ts | Some u \<Rightarrow> Some u)\<rparr>) w
     else w)"
  have "still env 0 w w1"
    by (simp add: w1_def still_def ok_steps_def evolves_def calm_def upd_ts_def conserved_def mass_def awaited_def queued_def)
  note t = still_then [OF this emit_turn_still]
  show ?thesis
    unfolding note_response_def Let_def w1_def [symmetric] using t still_then [OF t send_out_still] by simp
qed

lemma llm_phase_still:
  assumes "llm_phase e w = (s, w')"
  shows "still env 3 w w' \<and> (case s of Go _ \<Rightarrow> ts_gracefulInterrupt (w_ts w) \<longrightarrow> ts_gracefulTerminalUsed (w_ts w') | Ret _ \<Rightarrow> True)"
proof -
  obtain lc0 w1 where p: "prepare_call e w = (lc0, w1)" by (rule prod.exhaust)
  obtain r2 w2 where b: "before_llm_stage e lc0 w1 = (r2, w2)" by (rule prod.exhaust)
  note s1 = prepare_still [OF p, of env]
  have s2: "still env 0 w w2" using s1 before_llm_still [OF b] still_trans by blast
  show ?thesis
  proof (cases r2)
    case (Ret x)
    then show ?thesis using assms s2 still_mono [OF s2, of 3] by (simp add: llm_phase_def p b) auto
  next
    case (Go lc)
    define w3 where "w3 = emit_turn EventKindLLMRequest ''turn.llm.request''
      (LLMRequestPayload (lc_Model lc) (length (lc_Messages lc)) (length (lc_Tools lc)) (ag_MaxTokens (env_agent e))) w2"
    have s3: "still env 0 w w3" using still_then [OF s2 emit_turn_still] by (simp add: w3_def)
    obtain r4 w4 where c: "call_with_retries e 2 lc w3 = (r4, w4)" by (rule prod.exhaust)
    obtain resp0 where resp0: "r4 = Go resp0 \<or> (\<exists>x. r4 = Ret x)" by (cases r4) auto
    obtain r5 w5 where a: "after_llm_stage e lc (case r4 of Go r \<Rightarrow> r) w4 = (r5, w5)" by (rule prod.exhaust)
    have s4: "still env 3 w w4" using still_trans [OF s3 retries_still [OF c]] by simp
    have s5: "still env 3 w w5" using still_then [OF s4 after_llm_still [OF a]] .
    have w': "w' = w3 \<or> w' = w4 \<or> w' = w5 \<or> (\<exists>r. w' = note_response e r w5)"
      and go: "\<And>g r. s = Go (g, r) \<Longrightarrow> w' = note_response e r w5"
      using assms c a by (cases r4; auto simp: llm_phase_def p b Go w3_def Let_def split: stage.splits if_splits)+
    have n: "\<And>r. still env 3 w (note_response e r w5)" using still_then [OF s5 note_still] .
    have k: "still env 3 w w'" using w' still_mono [OF s3, of 3] s4 s5 n by auto
    have "still e 0 w1 w2" using before_llm_still [OF b] .
    then have u: "ts_gracefulTerminalUsed (w_ts w1) \<Longrightarrow> ts_gracefulTerminalUsed (w_ts w2)"
      by (simp add: still_def ok_steps_def evolves_def)
    have "still e 0 w2 w3" by (simp add: w3_def)
    from still_trans [OF this retries_still [OF c]] have "still e 3 w2 w4" by simp
    from still_then [OF this after_llm_still [OF a]] have "still e 3 w2 w5" .
    then have "ts_gracefulTerminalUsed (w_ts w2) \<Longrightarrow> ts_gracefulTerminalUsed (w_ts (note_response e r w5))" for r
      using still_then [OF _ note_still, of e 3 w2 w5] by (fastforce simp: still_def ok_steps_def evolves_def)
    with u s1 go k show ?thesis by (cases s) auto
  qed
qed

section \<open>The tools\<close>

text \<open>A step that only writes to the logs and counts its external calls.\<close>

definition logs :: "world \<Rightarrow> world \<Rightarrow> bool" where
  "logs w w' \<longleftrightarrow> (\<exists>ev out n. w' = w\<lparr>w_events := ev, w_out := out, w_n := n\<rparr>)"

lemma logs_refl [simp, intro]: "logs w w"
  unfolding logs_def by (intro exI [of _ "w_events w"] exI [of _ "w_out w"] exI [of _ "w_n w"]) simp

lemma logs_trans: "logs w w' \<Longrightarrow> logs w' w'' \<Longrightarrow> logs w w''"
  unfolding logs_def by (elim exE, hypsubst, simp, intro exI, rule refl)

lemma emit_logs [simp, intro]: "logs w (emit_turn k path p w)"
  unfolding logs_def emit_turn_def emit_def
  by (intro exI [of _ "w_events w @ [(k, eventMeta (w_ts w) ''runTurn'' path, p)]"] exI [of _ "w_out w"] exI [of _ "w_n w"]) simp

lemma send_out_logs [simp, intro]: "logs w (send_out x w)"
  unfolding logs_def send_out_def
  by (intro exI [of _ "w_events w"] exI [of _ "w_out w @ [x]"] exI [of _ "w_n w"]) simp

lemma next_call_logs: "next_call w = (n, w') \<Longrightarrow> logs w w'"
  unfolding logs_def next_call_def
  by (intro exI [of _ "w_events w"] exI [of _ "w_out w"] exI [of _ "Suc (w_n w)"]) auto

lemma logs_still: "logs w w' \<Longrightarrow> still env 0 w w'"
  unfolding logs_def still_def by (auto intro!: ok_same)

lemma logs_same:
  "logs w w' \<Longrightarrow> w_messages w' = w_messages w" "logs w w' \<Longrightarrow> w_stores w' = w_stores w"
  "logs w w' \<Longrightarrow> w_ts w' = w_ts w" "logs w w' \<Longrightarrow> w_sched w' = w_sched w"
  "logs w w' \<Longrightarrow> w_pending w' = w_pending w" "logs w w' \<Longrightarrow> w_runs w' = w_runs w"
  by (auto simp: logs_def)

lemma send_feedback_logs [simp, intro]: "logs w (send_feedback e name a w)"
  by (auto simp: send_feedback_def split: option.splits)

lemma send_for_user_logs [simp, intro]: "logs w (send_for_user r w)"
  by (auto simp: send_for_user_def)

lemma deliver_logs: "deliver_media e refs w = (d, w') \<Longrightarrow> logs w w'"
  by (auto simp: deliver_media_def split: if_splits prod.splits option.splits intro: next_call_logs)

lemma emit_tool_end_logs [simp, intro]: "logs w (emit_tool_end name c r w)"
  by (simp add: emit_tool_end_def)

lemma refuse_shape: "\<exists>v. logs w v \<and> refuse_call e c n re co w = add_message e (tool_message co c []) v"
  unfolding refuse_call_def by (intro exI conjI, rule emit_logs, rule refl)

lemma delivered_logs:
  "(if c then (case deliver_media e refs (send_for_user r w) of
       (DeliveryFailed x, v) \<Rightarrow> (f x, v) | (Queued, v) \<Rightarrow> (g, v) | (_, v) \<Rightarrow> (k, v))
    else (k, send_for_user r w)) = (r1, w2) \<Longrightarrow> logs w w2"
proof -
  assume p: "(if c then (case deliver_media e refs (send_for_user r w) of
       (DeliveryFailed x, v) \<Rightarrow> (f x, v) | (Queued, v) \<Rightarrow> (g, v) | (_, v) \<Rightarrow> (k, v))
    else (k, send_for_user r w)) = (r1, w2)"
  obtain d v where d: "deliver_media e refs (send_for_user r w) = (d, v)" by (rule prod.exhaust)
  have "w2 = v \<or> w2 = send_for_user r w" using p by (cases d) (auto simp: d split: if_splits)
  then show ?thesis using logs_trans [OF send_for_user_logs deliver_logs [OF d]] by auto
qed

lemma tagged_logs:
  "(if c then (case next_call w of (n, v) \<Rightarrow> (f n, v)) else (r1, w)) = (r2, w3) \<Longrightarrow> logs w w3"
  by (auto split: if_splits prod.splits intro: next_call_logs)

lemma finish_tool_shape:
  assumes "finish_tool e tc name r w = (h, w')"
  obtains v c md where "logs w v" "w' = add_message e (tool_message c (tc_ID tc) md) v"
proof -
  obtain r1 w2 where p1: "(if tr_Media r \<noteq> [] \<and> tr_ResponseHandled r then
       (case deliver_media e (tr_Media r) (send_for_user r w) of
          (DeliveryFailed x, v) \<Rightarrow> (withError x (errorResult (''failed to deliver attachment: '' @ x)), v)
        | (Queued, v) \<Rightarrow> (r\<lparr>tr_ResponseHandled := False\<rparr>, v) | (_, v) \<Rightarrow> (r, v))
     else (r, send_for_user r w)) = (r1, w2)"
    by (rule prod.exhaust)
  obtain r2 w3 where p2: "(if tr_Media r1 \<noteq> [] \<and> \<not> tr_ResponseHandled r1 then
       (case next_call w2 of (n, v) \<Rightarrow> (r1\<lparr>tr_ArtifactTags := env_artifactTags e n (tr_Media r1)\<rparr>, v))
     else (r1, w2)) = (r2, w3)"
    by (rule prod.exhaust)
  have "logs w (emit_tool_end name (filtered_content e r2) r2 w3)"
    using delivered_logs [OF p1] tagged_logs [OF p2] emit_tool_end_logs logs_trans by meson
  moreover have "w' = add_message e (tool_message (filtered_content e r2) (tc_ID tc)
       (if tr_Media r2 \<noteq> [] \<and> \<not> tr_ResponseHandled r2 then tr_Media r2 else []))
     (emit_tool_end name (filtered_content e r2) r2 w3)"
    using assms by (auto simp: finish_tool_def Let_def p1 p2)
  ultimately show thesis by (rule that)
qed

lemma finish_hook_shape:
  assumes "finish_hook_result e tc name r w = (h, w')"
  obtains v c md where "logs w v" "w' = add_message e (tool_message c (tc_ID tc) md) v"
proof -
  obtain r1 w2 where p1: "(if tr_Media r \<noteq> [] \<and> tr_ResponseHandled r then
       (case deliver_media e (tr_Media r) (send_for_user r w) of
          (DeliveryFailed x, v) \<Rightarrow> (r\<lparr>tr_IsError := True, tr_ForLLM := ''failed to deliver attachment: '' @ x\<rparr>, v)
        | (Queued, v) \<Rightarrow> (r\<lparr>tr_ResponseHandled := False\<rparr>, v) | (_, v) \<Rightarrow> (r, v))
     else (r, send_for_user r w)) = (r1, w2)"
    by (rule prod.exhaust)
  obtain r2 w3 where p2: "(if tr_Media r1 \<noteq> [] \<and> \<not> tr_ResponseHandled r1 then
       (case next_call w2 of (n, v) \<Rightarrow> (r1\<lparr>tr_ArtifactTags := env_artifactTags e n (tr_Media r1)\<rparr>, v))
     else (r1, w2)) = (r2, w3)"
    by (rule prod.exhaust)
  have "logs w (emit_tool_end name (filtered_content e r2) r2 w3)"
    using delivered_logs [OF p1] tagged_logs [OF p2] emit_tool_end_logs logs_trans by meson
  moreover have "w' = add_message e (tool_message (filtered_content e r2) (tc_ID tc)
       (if tr_Media r2 \<noteq> [] \<and> \<not> tr_ResponseHandled r2 then tr_Media r2 else []))
     (emit_tool_end name (filtered_content e r2) r2 w3)"
    using assms by (auto simp: finish_hook_result_def Let_def p1 p2)
  ultimately show thesis by (rule that)
qed

lemma added_still: "logs w v \<Longrightarrow> still env 0 w (add_message e m v)"
  using logs_still add_message_still still_trans by meson

lemma refuse_still [simp, intro]: "still env 0 w (refuse_call e c n re co w)"
  using refuse_shape [of w e c n re co] added_still by fastforce

lemma skip_rest_still: "still env 0 w (skip_rest e reason rest w)"
  unfolding skip_rest_def
proof (induction rest arbitrary: w)
  case (Cons tc rest)
  then show ?case by (auto intro: still_trans [OF refuse_still])
qed simp

lemma check_skip_ok:
  assumes "check_skip w = (r, w')"
  shows "ok_step env w w' \<and> (r = None \<longrightarrow> w_pending w' = [])"
proof -
  obtain b w1 where p: "poll_steering w = (b, w1)" by (rule prod.exhaust)
  obtain g w2 where g: "read_graceful w1 = (g, w2)" by (rule prod.exhaust)
  have "ok_step env w w1" using poll_steering_ok [OF p] by blast
  moreover from this read_graceful_still [OF g, of env] have "ok_step env w w2" unfolding still_def using ok_trans by blast
  moreover have "w_pending w2 = w_pending w1" using read_graceful_still [OF g, of env] by (simp add: still_def)
  ultimately show ?thesis using assms by (auto simp: check_skip_def p g split: if_splits bool.splits)
qed

lemma poll_in_tools_ok: "ok_step env w (poll_result_in_tools e w)"
proof -
  obtain r v where p: "poll_result e w = (r, v)" by (rule prod.exhaust)
  have o: "ok_step env w v" using poll_result_ok [OF p] by blast
  show ?thesis
    using o ok_trans [OF o ok_trans [OF messages_ok upd_store_ok]] by (auto simp: poll_result_in_tools_def p split: option.splits)
qed

lemma after_tool_still: "after_tool_stage e name a r w = (s, w') \<Longrightarrow> still env 0 w w'"
  by (auto simp: after_tool_stage_def next_call_def ret_eq Let_def split: option.splits prod.splits hook_action.splits
      intro: still_trans [OF next_call_still [where n = "w_n w"]] hook_stops still_refl)

lemma approve_logs:
  assumes "approve_stage e name a w = (d, w')"
  shows "logs w w' \<and> (ad_Approved d \<longrightarrow> approved_run e \<lparr>run_Tool = name, run_Arguments = a, run_Callback = cb\<rparr>)"
proof
  show "logs w w'"
    using assms by (auto simp: approve_stage_def next_call_def split: option.splits intro: next_call_logs [where n = "w_n w"])
next
  show "ad_Approved d \<longrightarrow> approved_run e \<lparr>run_Tool = name, run_Arguments = a, run_Callback = cb\<rparr>"
  proof
    assume ad: "ad_Approved d"
    define req where "req = \<lparr>ta_Meta = eventMeta (w_ts w) ''runTurn'' ''turn.tool.approve'', ta_Tool = name,
       ta_Arguments = a, ta_Channel = ts_channel (w_ts w), ta_ChatID = ts_chatID (w_ts w)\<rparr>"
    have "case env_hooks e (w_n w) of None \<Rightarrow> True | Some hm \<Rightarrow> ad_Approved (approveTool hm req)"
      using assms ad by (auto simp: approve_stage_def next_call_def req_def split: option.splits)
    then show "approved_run e \<lparr>run_Tool = name, run_Arguments = a, run_Callback = cb\<rparr>"
      unfolding approved_run_def by (intro exI [of _ "w_n w"] exI [of _ req]) (simp add: req_def)
  qed
qed

lemma run_tool_still:
  assumes "run_tool e name a w = (r, w')" and "approved_run env \<lparr>run_Tool = name, run_Arguments = a, run_Callback = True\<rparr>"
  shows "still env 0 w w'"
  using assms
  by (auto simp: run_tool_def next_call_def still_def ok_steps_def evolves_def calm_def conserved_def mass_def
      awaited_def queued_def)

text \<open>What a step appends to the request and, if no one else writes the session, to the session.\<close>

definition writes_stores :: "interference \<Rightarrow> bool" where
  "writes_stores a = (case a of IStores f \<Rightarrow> True | _ \<Rightarrow> False)"

definition undisturbed :: "world \<Rightarrow> bool" where
  "undisturbed w \<longleftrightarrow> list_all (\<lambda>acts. \<not> list_ex writes_stores acts) (w_sched w)"

definition appends :: "turn_env \<Rightarrow> world \<Rightarrow> world \<Rightarrow> message list \<Rightarrow> bool" where
  "appends env w w' ms \<longleftrightarrow>
     ok_step env w w' \<and> w_messages w' = w_messages w @ ms
     \<and> (undisturbed w \<longrightarrow> undisturbed w' \<and> (\<not> noHistory w \<longrightarrow> hist env w' = hist env w @ ms))"

lemma noHistory_same: "ok_steps env k w w' \<Longrightarrow> noHistory w' = noHistory w"
  by (simp add: ok_steps_def evolves_def noHistory_def)

lemma key_same: "ok_steps env k w w' \<Longrightarrow> ts_sessionKey (w_ts w') = ts_sessionKey (w_ts w)"
  by (simp add: ok_steps_def evolves_def)

lemma appends_trans: "appends env w v xs \<Longrightarrow> appends env v u ys \<Longrightarrow> appends env w u (xs @ ys)"
proof -
  assume a: "appends env w v xs" and b: "appends env v u ys"
  have "ok_step env w v" "ok_step env v u" using a b by (simp_all add: appends_def)
  then have "ok_step env w u" "noHistory v = noHistory w" using ok_trans noHistory_same by blast+
  with a b show ?thesis by (simp add: appends_def)
qed

lemma appends_ok: "appends env w w' ms \<Longrightarrow> ok_step env w w'"
  by (simp add: appends_def)

lemma appends_nothing:
  "ok_step env w w' \<Longrightarrow> w_messages w' = w_messages w \<Longrightarrow>
   (undisturbed w \<Longrightarrow> undisturbed w' \<and> w_stores w' = w_stores w) \<Longrightarrow> appends env w w' []"
  by (auto simp: appends_def hist_def dest: key_same)

lemma logs_appends: "logs w w' \<Longrightarrow> appends env w w' []"
  by (rule appends_nothing) (use logs_still in \<open>auto simp: still_def logs_same undisturbed_def\<close>)

lemma observe_quiet: "undisturbed w \<Longrightarrow> undisturbed (observe w) \<and> w_stores (observe w) = w_stores w"
proof (cases "w_sched w")
  case (Cons acts rest)
  assume u: "undisturbed w"
  have s: "w_sched (fold interfere acts v) = w_sched v" for v using interferes_frame by blast
  have t: "\<not> list_ex writes_stores acts \<Longrightarrow> w_stores (fold interfere acts v) = w_stores v" for v
  proof (induction acts arbitrary: v)
    case (Cons a as)
    then have "w_stores (interfere a v) = w_stores v"
      by (cases a) (auto simp: writes_stores_def upd_ts_def split: option.splits)
    with Cons show ?case by simp
  qed simp
  show ?thesis using u Cons s t by (simp add: observe_def undisturbed_def)
qed (simp add: observe_def)

lemma observe_appends: "appends env w (observe w) []"
  by (rule appends_nothing [OF observe_ok]) (use observe_frame [of w] observe_quiet in \<open>auto simp: same_frame_def\<close>)

lemma observed_appends:
  assumes "ok_step env w v" "w_messages v = w_messages (observe w)" "w_stores v = w_stores (observe w)"
    and "w_sched v = w_sched (observe w)"
  shows "appends env w v []"
proof (rule appends_nothing [OF assms(1)])
  note o = observe_appends [of env w]
  show "w_messages v = w_messages w" using o assms(2) by (simp add: appends_def)
  show "undisturbed v \<and> w_stores v = w_stores w" if "undisturbed w"
    using that assms(3,4) observe_quiet [OF that] by (simp add: undisturbed_def)
qed

lemma add_message_appends: "appends env w (add_message env m w) [m]"
  unfolding appends_def
  by (simp add: undisturbed_def) (simp add: add_message_def persist_def upd_ts_def upd_store_def Let_def hist_def
      noHistory_def ss_add_def recordPersistedMessage_def)

lemma poll_steering_appends: "poll_steering w = (b, w') \<Longrightarrow> appends env w w' []"
proof -
  assume p: "poll_steering w = (b, w')"
  have o: "ok_step env w w'" using poll_steering_ok [OF p] by blast
  have "w_messages w' = w_messages (observe w)" "w_stores w' = w_stores (observe w)" "w_sched w' = w_sched (observe w)"
    using p by (auto simp: poll_steering_def dequeueSteeringMessagesForScope_def take_steering_def Let_def
        split: option.splits prod.splits)
  with o show ?thesis by (rule observed_appends)
qed

lemma check_skip_appends:
  assumes "check_skip w = (r, w')" shows "appends env w w' []"
proof -
  obtain b w1 where p: "poll_steering w = (b, w1)" by (rule prod.exhaust)
  obtain g w2 where g: "read_graceful w1 = (g, w2)" by (rule prod.exhaust)
  have "w2 = observe w1" using g by (auto simp: read_graceful_def Let_def)
  then have "appends env w w2 []" using appends_trans [OF poll_steering_appends [OF p] observe_appends] by simp
  then show ?thesis
    using assms poll_steering_appends [OF p] by (auto simp: check_skip_def p g split: if_splits bool.splits)
qed

definition subturn_note :: "message \<Rightarrow> bool" where
  "subturn_note m \<longleftrightarrow> (\<exists>t. m = plain_message ''user'' (''[SubTurn Result] '' @ t))"

lemma poll_in_tools_appends:
  "\<exists>ms. appends env w (poll_result_in_tools env w) ms \<and> list_all subturn_note ms"
proof -
  obtain r v where p: "poll_result env w = (r, v)" by (rule prod.exhaust)
  have "w_messages v = w_messages (observe w)" "w_stores v = w_stores (observe w)" "w_sched v = w_sched (observe w)"
    using p by (auto simp: poll_result_def Let_def upd_ts_def split: option.splits list.splits if_splits)
  with poll_result_ok [OF p, of env] have a: "appends env w v []" by (blast intro: observed_appends)
  show ?thesis
  proof (cases r)
    case None
    then show ?thesis using a by (intro exI [of _ "[]"]) (simp add: poll_result_in_tools_def p)
  next
    case (Some m)
    define u where "u = upd_store env (ss_add (ts_sessionKey (w_ts v)) m) (v\<lparr>w_messages := w_messages v @ [m]\<rparr>)"
    have "ok_step env v u" unfolding u_def using ok_trans [OF messages_ok upd_store_ok] .
    then have "appends env v u [m]"
      by (simp add: appends_def u_def upd_store_def Let_def hist_def undisturbed_def ss_add_def)
    moreover have "subturn_note m"
      using p Some by (auto simp: poll_result_def Let_def subturn_note_def split: option.splits list.splits if_splits)
    moreover have "poll_result_in_tools env w = u" by (simp add: poll_result_in_tools_def p Some u_def)
    ultimately show ?thesis using appends_trans [OF a] by (intro exI [of _ "[m]"]) fastforce
  qed
qed

section \<open>Returns before the end\<close>

definition restored :: "turn_env \<Rightarrow> world \<Rightarrow> bool" where
  "restored env w \<longleftrightarrow>
     hist env w = ts_restorePointHistory (w_ts w) \<and> summ env w = ts_restorePointSummary (w_ts w)"

definition stopped :: "turn_env \<Rightarrow> turn_outcome \<Rightarrow> world \<Rightarrow> bool" where
  "stopped env out w \<longleftrightarrow>
     outcome_status out \<noteq> Some TurnEndStatusCompleted
     \<and> (outcome_status out = Some TurnEndStatusAborted \<longrightarrow> noHistory w \<or> restored env w)"

lemma abort_stopped: "abortTurn e w = (r, w') \<Longrightarrow> stopped e r w'"
  by (auto simp: abortTurn_def stopped_def outcome_status_def noHistory_def restored_def hist_def summ_def
      save_session_def next_call_def upd_store_def upd_ts_def setPhase_def restoreSession_def ss_setSummary_def
      ss_setHistory_def emit_def Let_def split: if_splits prod.splits option.splits)

lemma abort_snd_stopped: "stopped e (fst (abortTurn e w)) (snd (abortTurn e w))"
  by (rule abort_stopped [of e w]) simp

lemma hook_hard_stopped: "stopped e (fst (hook_hard_abort e w)) (snd (hook_hard_abort e w))"
  unfolding hook_hard_abort_def by (rule abort_snd_stopped)

lemma hook_abort_stopped: "stopped e (fst (hookAbortError st d w)) (snd (hookAbortError st d w))"
  by (simp add: hookAbortError_def stopped_def outcome_status_def Let_def)

lemma failed_stopped: "stopped e (fst (llm_failed t w)) (snd (llm_failed t w))"
  by (simp add: llm_failed_def stopped_def outcome_status_def)

lemma panic_stopped [simp]: "stopped e TurnPanic w"
  by (simp add: stopped_def outcome_status_def)

lemma save_failed_stopped: "save_failed t w = (r, w') \<Longrightarrow> stopped e r w'"
  by (auto simp: save_failed_def stopped_def outcome_status_def)

lemmas stops = abort_snd_stopped hook_hard_stopped hook_abort_stopped failed_stopped

lemma before_llm_stopped: "before_llm_stage e lc w = (Ret r, w') \<Longrightarrow> stopped e r w'"
  by (auto simp: before_llm_stage_def ret_eq split: option.splits prod.splits hook_action.splits intro: stops)

lemma after_llm_stopped: "after_llm_stage e lc resp w = (Ret r, w') \<Longrightarrow> stopped e r w'"
  by (auto simp: after_llm_stage_def ret_eq split: option.splits prod.splits hook_action.splits intro: stops)

lemma retries_stopped: "call_with_retries e left lc w = (Ret r, w') \<Longrightarrow> stopped e r w'"
proof (induction left arbitrary: lc w)
  case 0
  then show ?case
    by (subst (asm) call_with_retries.simps) (auto simp: ret_eq split: prod.splits sum.splits if_splits intro: stops)
next
  case (Suc left)
  from Suc.prems show ?case
    by (subst (asm) call_with_retries.simps)
      (auto simp: ret_eq Let_def split: prod.splits sum.splits if_splits option.splits bool.splits intro: stops Suc.IH)
qed

lemma llm_phase_stopped: "llm_phase e w = (Ret r, w') \<Longrightarrow> stopped e r w'"
  by (auto simp: llm_phase_def Let_def split: prod.splits stage.splits if_splits
      dest: before_llm_stopped retries_stopped after_llm_stopped)

section \<open>The calls of a response\<close>

lemma after_tool_stopped: "after_tool_stage e name a r w = (Ret out, w') \<Longrightarrow> stopped e out w'"
  by (auto simp: after_tool_stage_def ret_eq Let_def split: option.splits prod.splits hook_action.splits intro: stops)

lemma after_tool_logs: "after_tool_stage e name a r w = (Go x, w') \<Longrightarrow> logs w w'"
  by (auto simp: after_tool_stage_def ret_eq Let_def next_call_def split: option.splits prod.splits hook_action.splits
      intro: next_call_logs [where n = "w_n w"])

text \<open>A call is answered by one tool message with its identifier, or the turn returns.\<close>

definition answers_call :: "turn_env \<Rightarrow> tool_call \<Rightarrow> call_result \<Rightarrow> world \<Rightarrow> world \<Rightarrow> bool" where
  "answers_call env tc r w w' \<longleftrightarrow>
     ok_step env w w'
     \<and> (case r of CallReturn out \<Rightarrow> stopped env out w'
        | _ \<Rightarrow> \<exists>c md. appends env w w' [tool_message c (tc_ID tc) md])"

lemma answered:
  "appends env w v [] \<Longrightarrow> logs v u \<Longrightarrow> r = Answered h \<or> r = Refused \<Longrightarrow>
   answers_call env tc r w (add_message env (tool_message c (tc_ID tc) md) u)"
proof -
  assume "appends env w v []" "logs v u" and r: "r = Answered h \<or> r = Refused"
  then have a: "appends env w (add_message env (tool_message c (tc_ID tc) md) u) [tool_message c (tc_ID tc) md]"
    using appends_trans [OF appends_trans [OF _ logs_appends] add_message_appends] by fastforce
  then have "\<exists>c' md'. appends env w (add_message env (tool_message c (tc_ID tc) md) u) [tool_message c' (tc_ID tc) md']"
    by blast
  then show ?thesis using r appends_ok [OF a] unfolding answers_call_def by (elim disjE) simp_all
qed

lemma returned: "ok_step env w w' \<Longrightarrow> stopped env out w' \<Longrightarrow> answers_call env tc (CallReturn out) w w'"
  by (simp add: answers_call_def)

lemma still_ok: "still env k w w' \<Longrightarrow> ok_steps env k w w'"
  by (simp add: still_def)

lemma answers_after:
  assumes "appends env w v []" "answers_call env tc r v w'" shows "answers_call env tc r w w'"
proof -
  have o: "ok_step env w w'" using assms ok_trans appends_ok unfolding answers_call_def by blast
  have "(\<exists>c md. appends env v w' [tool_message c (tc_ID tc) md]) \<Longrightarrow> (\<exists>c md. appends env w w' [tool_message c (tc_ID tc) md])"
    using appends_trans [OF assms(1)] by (metis append_Nil)
  with o assms(2) show ?thesis by (cases r) (simp_all add: answers_call_def)
qed

lemma refused: "answers_call env tc Refused w (refuse_call env (tc_ID tc) n re co w)"
  using refuse_shape [of w env "tc_ID tc" n re co] answered [OF logs_appends [OF logs_refl]] by fastforce

lemma execute_answers:
  assumes "execute_call env tc name a w = (r, w')"
  shows "answers_call env tc r w w'"
proof -
  obtain d w1 where ap: "approve_stage env name a w = (d, w1)" by (rule prod.exhaust)
  note l1 = approve_logs [OF ap, of True]
  have a1: "appends env w w1 []" using l1 logs_appends by blast
  show ?thesis
  proof (cases "ad_Approved d")
    case False
    then show ?thesis
      using assms answers_after [OF a1 refused] by (auto simp: execute_call_def ap Let_def)
  next
    case True
    then have run: "approved_run env \<lparr>run_Tool = name, run_Arguments = a, run_Callback = True\<rparr>" using l1 by blast
    define w3 where "w3 = send_feedback env (tc_Name tc) a
      (emit_turn EventKindToolExecStart ''turn.tool.start'' (ToolExecStartPayload name) w1)"
    have "logs w1 w3" unfolding w3_def by (rule logs_trans [OF emit_logs send_feedback_logs])
    then have a3: "appends env w w3 []" using appends_trans [OF a1 logs_appends] by simp
    obtain res w4 where rt: "run_tool env name a w3 = (res, w4)" by (rule prod.exhaust)
    have a4: "appends env w3 w4 []"
    proof (rule appends_nothing)
      show "ok_step env w3 w4" using run_tool_still [OF rt run] by (simp add: still_def)
    qed (use rt in \<open>auto simp: run_tool_def next_call_def undisturbed_def\<close>)
    note b4 = appends_trans [OF a3 a4]
    obtain hard w5 where h: "read_hard w4 = (hard, w5)" by (rule prod.exhaust)
    then have "w5 = observe w4" by (auto simp: read_hard_def Let_def)
    then have a5: "appends env w w5 []" using appends_trans [OF b4 observe_appends] by simp
    note ok5 = appends_ok [OF a5]
    note e = assms [unfolded execute_call_def ap prod.case Let_def, folded w3_def, unfolded rt prod.case]
    show ?thesis
    proof (cases res)
      case None
      then show ?thesis using e True appends_ok [OF b4] by (auto intro: returned)
    next
      case (Some x)
      obtain s w6 where at: "after_tool_stage env name a x w5 = (s, w6)" by (rule prod.exhaust)
      have ok6: "ok_step env w w6" using ok_trans [OF ok5 still_ok [OF after_tool_still [OF at]]] .
      show ?thesis
      proof (cases hard)
        case True
        then have "r = CallReturn (fst (abortTurn env w5))" "w' = snd (abortTurn env w5)"
          using e \<open>ad_Approved d\<close> Some h by (auto simp: call_ret_def)
        then show ?thesis
          using returned [OF ok_trans [OF ok5 still_ok [OF abort_snd]] abort_snd_stopped] by simp
      next
        case False
        show ?thesis
        proof (cases s)
          case (Ret out)
          then have "r = CallReturn out" "w' = w6" using e \<open>ad_Approved d\<close> Some h False at by auto
          then show ?thesis using returned [OF ok6 after_tool_stopped] at Ret by simp
        next
          case (Go y)
          obtain name' r' where y: "y = (name', r')" by (rule prod.exhaust)
          obtain hd w7 where ft: "finish_tool env tc name' r' w6 = (hd, w7)" by (rule prod.exhaust)
          have rw: "r = Answered hd" "w' = w7" using e \<open>ad_Approved d\<close> Some h False at Go y ft by auto
          have "appends env w w6 []" using appends_trans [OF a5 logs_appends [OF after_tool_logs]] at Go by fastforce
          moreover obtain v c md where "logs w6 v" "w7 = add_message env (tool_message c (tc_ID tc) md) v"
            using finish_tool_shape [OF ft] .
          ultimately show ?thesis using answered rw by blast
        qed
      qed
    qed
  qed
qed

lemma hook_answers_call:
  assumes "hook_answers env tc name a r0 w = (r, w')" shows "answers_call env tc r w w'"
proof -
  define w2 where "w2 = send_feedback env name a
    (emit_turn EventKindToolExecStart ''turn.tool.start'' (ToolExecStartPayload name) w)"
  obtain h w3 where f: "finish_hook_result env tc name r0 w2 = (h, w3)" by (rule prod.exhaust)
  have "logs w w2" unfolding w2_def by (rule logs_trans [OF emit_logs send_feedback_logs])
  moreover obtain v c md where "logs w2 v" "w3 = add_message env (tool_message c (tc_ID tc) md) v"
    using finish_hook_shape [OF f] .
  moreover have "r = Answered h" "w' = w3" using assms f by (auto simp: hook_answers_def w2_def Let_def)
  ultimately show ?thesis using answered [OF logs_appends] by blast
qed

lemma call_returned:
  assumes "appends env w v []" "still env 0 v (snd x)" "stopped env (fst x) (snd x)" "call_ret x = (r, w')"
  shows "answers_call env tc r w w'"
  using assms ok_trans [OF appends_ok [OF assms(1)] still_ok [OF assms(2)]] returned by (auto simp: call_ret_def)

lemma tool_call_answers:
  assumes "tool_call_step env tc w = (r, w')" shows "answers_call env tc r w w'"
proof -
  obtain hard w1 where h: "read_hard w = (hard, w1)" by (rule prod.exhaust)
  then have "w1 = observe w" by (auto simp: read_hard_def Let_def)
  then have a1: "appends env w w1 []" using observe_appends by simp
  show ?thesis
  proof (cases hard)
    case True
    then show ?thesis
      using assms call_returned [OF a1 abort_snd abort_snd_stopped] by (simp add: tool_call_step_def h)
  next
    case False
    obtain n w2 where n: "next_call w1 = (n, w2)" by (rule prod.exhaust)
    have a2: "appends env w w2 []" using appends_trans [OF a1 logs_appends [OF next_call_logs [OF n]]] by simp
    have ex: "execute_call env tc nm a w2 = (r, w') \<Longrightarrow> ?thesis" for nm a
      using answers_after [OF a2 execute_answers] by blast
    have ha: "hook_answers env tc nm a r0 w2 = (r, w') \<Longrightarrow> ?thesis" for nm a r0
      using answers_after [OF a2 hook_answers_call] by blast
    have re: "(Refused, refuse_call env (tc_ID tc) nm c1 c2 w2) = (r, w') \<Longrightarrow> ?thesis" for nm c1 c2
      using answers_after [OF a2 refused] by auto
    have hh: "call_ret (hook_hard_abort env w2) = (r, w') \<Longrightarrow> ?thesis"
      by (rule call_returned [OF a2 hook_hard_snd hook_hard_stopped])
    have hb: "call_ret (hookAbortError st d w2) = (r, w') \<Longrightarrow> ?thesis" for st d
      by (rule call_returned [OF a2 hook_abort_snd hook_abort_stopped])
    show ?thesis
    proof (cases "env_hooks env n")
      case None
      then show ?thesis using assms False ex by (simp add: tool_call_step_def h n Let_def)
    next
      case (Some hm)
      define q where "q = \<lparr>tq_Meta = eventMeta (w_ts w2) ''runTurn'' ''turn.tool.before'', tq_Tool = tc_Name tc,
        tq_Arguments = call_args tc, tq_Channel = ts_channel (w_ts w2), tq_ChatID = ts_chatID (w_ts w2),
        tq_HookResult = None\<rparr>"
      obtain req d where b: "beforeTool hm q = (req, d)" by (rule prod.exhaust)
      note e = assms [unfolded tool_call_step_def h n Let_def prod.case, folded q_def]
      show ?thesis
      proof (cases "normalizedAction d")
        case HookActionRespond
        then show ?thesis
          using e False Some b q_def ex ha by (cases "Option.bind req tq_HookResult") (simp_all add: h n)
      next
        case HookActionDenyTool
        then have "(Refused, refuse_call env (tc_ID tc) (tc_Name tc)
            (hookDeniedToolContent ''Tool execution denied by hook'' (hd_Reason d))
            (hookDeniedToolContent ''Tool execution denied by hook'' (hd_Reason d)) w2) = (r, w')"
          using e False Some b q_def by (simp add: h n)
        then show ?thesis by (rule re)
      qed (use e False Some b q_def ex hh hb in \<open>simp_all add: h n\<close>)
    qed
  qed
qed

lemma tool_message_is [simp]: "is_tool (tool_message c i md)" "msg_ToolCallID (tool_message c i md) = i"
  by (simp_all add: tool_message_def is_tool_def plain_message_def)

lemma skip_rest_appends:
  "\<exists>ms. appends env w (skip_rest env reason rest w) ms \<and> map msg_ToolCallID ms = map tc_ID rest \<and> list_all is_tool ms"
  unfolding skip_rest_def
proof (induction rest arbitrary: w)
  case Nil
  show ?case using logs_appends [OF logs_refl] by (intro exI [of _ "[]"]) simp
next
  case (Cons tc rest)
  obtain v where v: "logs w v" and re: "refuse_call env (tc_ID tc) (tc_Name tc) (fst reason) (snd reason) w
      = add_message env (tool_message (snd reason) (tc_ID tc) []) v"
    using refuse_shape by blast
  have a: "appends env w (add_message env (tool_message (snd reason) (tc_ID tc) []) v)
      [tool_message (snd reason) (tc_ID tc) []]"
    using appends_trans [OF logs_appends [OF v] add_message_appends] by simp
  from Cons [of "add_message env (tool_message (snd reason) (tc_ID tc) []) v"] obtain ms where
    ms: "appends env (add_message env (tool_message (snd reason) (tc_ID tc) []) v)
      (fold (\<lambda>tc. refuse_call env (tc_ID tc) (tc_Name tc) (fst reason) (snd reason)) rest
        (add_message env (tool_message (snd reason) (tc_ID tc) []) v)) ms"
    "map msg_ToolCallID ms = map tc_ID rest" "list_all is_tool ms" by blast
  from appends_trans [OF a ms(1)] ms(2,3) show ?case
    by (intro exI [of _ "tool_message (snd reason) (tc_ID tc) [] # ms"])
      (simp add: re)
qed

text \<open>The messages of a run of the loop: the answers in the order of the calls, with the notes of
  sub-turns between them.\<close>

definition answers_in_order :: "tool_call list \<Rightarrow> message list \<Rightarrow> bool" where
  "answers_in_order calls ms \<longleftrightarrow>
     map msg_ToolCallID (filter is_tool ms) = map tc_ID calls \<and> list_all (\<lambda>m. is_tool m \<or> subturn_note m) ms"

lemma note_not_tool: "subturn_note m \<Longrightarrow> \<not> is_tool m"
  by (auto simp: subturn_note_def is_tool_def plain_message_def)

lemma answers_in_order_Cons:
  assumes "is_tool t" "msg_ToolCallID t = tc_ID tc" "list_all subturn_note ns" "answers_in_order calls ms"
  shows "answers_in_order (tc # calls) ([t] @ ns @ ms)"
proof -
  have "filter is_tool ns = []" using assms(3) note_not_tool by (induction ns) auto
  moreover have "list_all (\<lambda>m. is_tool m \<or> subturn_note m) ns" using assms(3) by (simp add: list_all_iff)
  ultimately show ?thesis using assms by (simp add: answers_in_order_def)
qed

lemma tool_loop_spec:
  "tool_loop env calls b w = (s, w') \<Longrightarrow>
   ok_step env w w'
   \<and> (case s of Ret out \<Rightarrow> stopped env out w' | Go _ \<Rightarrow> \<exists>ms. appends env w w' ms \<and> answers_in_order calls ms)"
proof (induction calls arbitrary: b w)
  case Nil
  then show ?case
    using logs_appends [OF logs_refl] by (auto simp: answers_in_order_def intro!: exI [of _ "[]"])
next
  case (Cons tc rest)
  obtain r w1 where t: "tool_call_step env tc w = (r, w1)" by (rule prod.exhaust)
  note an = tool_call_answers [OF t]
  have o1: "ok_step env w w1" using an by (simp add: answers_call_def)
  show ?case
  proof (cases r)
    case (CallReturn out)
    then show ?thesis using Cons.prems t an by (auto simp: answers_call_def)
  next
    case Refused
    then obtain c md where a: "appends env w w1 [tool_message c (tc_ID tc) md]"
      using an by (auto simp: answers_call_def)
    have "tool_loop env rest False w1 = (s, w')" using Cons.prems t Refused by simp
    from Cons.IH [OF this] have ih: "ok_step env w1 w'"
      "case s of Ret out \<Rightarrow> stopped env out w' | Go _ \<Rightarrow> \<exists>ms. appends env w1 w' ms \<and> answers_in_order rest ms" by blast+
    show ?thesis
    proof (cases s)
      case (Go x)
      then obtain ms where ms: "appends env w1 w' ms" "answers_in_order rest ms" using ih by auto
      have "answers_in_order (tc # rest) ([tool_message c (tc_ID tc) md] @ [] @ ms)"
        by (rule answers_in_order_Cons) (simp_all add: ms)
      with appends_trans [OF a ms(1)] show ?thesis using ok_trans [OF o1 ih(1)] Go by auto
    qed (use ih ok_trans [OF o1 ih(1)] in auto)
  next
    case (Answered h)
    then obtain c md where a: "appends env w w1 [tool_message c (tc_ID tc) md]"
      using an by (auto simp: answers_call_def)
    obtain reason w2 where c: "check_skip w1 = (reason, w2)" by (rule prod.exhaust)
    have a2: "appends env w w2 [tool_message c (tc_ID tc) md]"
      using appends_trans [OF a check_skip_appends [OF c]] by simp
    show ?thesis
    proof (cases reason)
      case (Some rs)
      obtain ms where ms: "appends env w2 (skip_rest env rs rest w2) ms" "map msg_ToolCallID ms = map tc_ID rest"
        "list_all is_tool ms" using skip_rest_appends by blast
      have "filter is_tool ms = ms" using ms(3) by (simp add: list_all_iff)
      then have "answers_in_order rest ms" using ms by (simp add: answers_in_order_def list_all_iff)
      then have "answers_in_order (tc # rest) ([tool_message c (tc_ID tc) md] @ [] @ ms)"
        by (intro answers_in_order_Cons) simp_all
      moreover have "s = Go (b \<and> h)" "w' = skip_rest env rs rest w2" using Cons.prems t Answered c Some by auto
      ultimately show ?thesis using appends_trans [OF a2 ms(1)] appends_ok [OF appends_trans [OF a2 ms(1)]] by auto
    next
      case None
      obtain ns where ns: "appends env w2 (poll_result_in_tools env w2) ns" "list_all subturn_note ns"
        using poll_in_tools_appends by blast
      note a3 = appends_trans [OF a2 ns(1)]
      have "tool_loop env rest (b \<and> h) (poll_result_in_tools env w2) = (s, w')"
        using Cons.prems t Answered c None by simp
      from Cons.IH [OF this] have ih: "ok_step env (poll_result_in_tools env w2) w'"
        "case s of Ret out \<Rightarrow> stopped env out w'
         | Go _ \<Rightarrow> \<exists>ms. appends env (poll_result_in_tools env w2) w' ms \<and> answers_in_order rest ms" by blast+
      show ?thesis
      proof (cases s)
        case (Go x)
        then obtain ms where ms: "appends env (poll_result_in_tools env w2) w' ms" "answers_in_order rest ms"
          using ih by auto
        have "answers_in_order (tc # rest) ([tool_message c (tc_ID tc) md] @ ns @ ms)"
          by (rule answers_in_order_Cons) (simp_all add: ms ns)
        with appends_trans [OF a3 ms(1)] show ?thesis
          using appends_ok [OF appends_trans [OF a3 ms(1)]] Go by auto
      qed (use ih ok_trans [OF appends_ok [OF a3] ih(1)] in auto)
    qed
  qed
qed

end
