(* ===== verification/TurnContract.thy ===== *)
theory TurnContract
  imports TurnProps
begin

text \<open>
  A turn as a whole, from the lemmas on its steps: it ends, it answers every tool call, it runs approved
  tools only, it loses no steering message, and what an aborted turn leaves in its session.
\<close>

section \<open>A pass of the loop\<close>

lemma tool_phase_spec:
  assumes "tool_phase env resp w = (s, w')"
  shows "ok_step env w w'
   \<and> (case s of Ret out \<Rightarrow> stopped env out w'
      | Go _ \<Rightarrow> \<exists>ms. appends env w w' (assistant_message env resp (map (normalizeToolCall env) (lr_ToolCalls resp)) # ms)
                 \<and> answers_in_order (map (normalizeToolCall env) (lr_ToolCalls resp)) ms)"
proof -
  define calls where "calls = map (normalizeToolCall env) (lr_ToolCalls resp)"
  define v where "v = upd_ts (setPhase TurnPhaseTools) (add_message env (assistant_message env resp calls) w)"
  have p: "appends env u (upd_ts (setPhase p) u) []" for u p
    by (rule appends_nothing [OF phase_ok]) (simp_all add: upd_ts_def undisturbed_def)
  have v: "appends env w v [assistant_message env resp calls]"
    using appends_trans [OF add_message_appends p] by (simp add: v_def)
  have "tool_loop env calls (calls \<noteq> []) v = (s, w')"
    using assms by (simp add: tool_phase_def calls_def v_def Let_def)
  note t = tool_loop_spec [OF this]
  show ?thesis
  proof (cases s)
    case (Go b)
    then obtain ms where "appends env v w' ms" "answers_in_order calls ms" using t by auto
    then show ?thesis using appends_trans [OF v] ok_trans [OF appends_ok [OF v]] t Go by (fastforce simp: calls_def)
  qed (use t ok_trans [OF appends_ok [OF v]] in auto)
qed

text \<open>A turn that returns: stopped, or completed with no pending message left.\<close>

definition finished :: "turn_env \<Rightarrow> turn_outcome \<Rightarrow> world \<Rightarrow> bool" where
  "finished env out w \<longleftrightarrow>
     stopped env out w \<or> ((\<exists>c. out = TurnDone c TurnEndStatusCompleted) \<and> w_pending w = [])"

lemma store_final_still: "store_final env c w = (r, w') \<Longrightarrow> still env 0 w w'"
  by (auto simp: store_final_def split: if_splits dest: save_session_still [where env = env]
      intro: still_trans [OF persist_still])

lemma summarize_after_still: "still env 0 w (summarize_after env w)"
  by (simp add: summarize_after_def)

lemma final_still: "still env 0 w (upd_ts (setFinalContent c \<circ> setPhase p) w)"
  by (auto simp: still_def upd_ts_def setFinalContent_def setPhase_def intro!: ok_same)

lemma save_failed_still: "save_failed e w = (r, w') \<Longrightarrow> still env 0 w w'"
  by (auto simp: save_failed_def)

lemma finish_handled_spec:
  assumes "finish_handled env w = (r, w')"
  shows "ok_step env w w' \<and> (case r of None \<Rightarrow> True | Some out \<Rightarrow> finished env out w')"
proof (cases "w_pending w = []")
  case True
  obtain b w1 where p: "poll_steering w = (b, w1)" by (rule prod.exhaust)
  obtain s w2 where s: "store_final env handledToolResponseSummary w1 = (s, w2)" by (rule prod.exhaust)
  have o1: "ok_step env w w1" using poll_steering_ok [OF p] by blast
  have p1: "\<not> b \<Longrightarrow> w_pending w1 = []" using poll_steering_pending [OF p] True by auto
  have s2: "still env 0 w1 w2" using store_final_still [OF s] .
  define w3 where "w3 = upd_ts (setFinalContent [] \<circ> setPhase TurnPhaseCompleted) (summarize_after env w2)"
  have s3: "still env 0 w1 w3" unfolding w3_def using s2 summarize_after_still final_still still_trans by meson
  show ?thesis
  proof (cases b)
    case True
    then show ?thesis using assms \<open>w_pending w = []\<close> p o1 by (auto simp: finish_handled_def)
  next
    case False
    show ?thesis
    proof (cases s)
      case None
      then have "r = Some (TurnDone [] TurnEndStatusCompleted)" "w' = w3"
        using assms \<open>w_pending w = []\<close> p False s by (auto simp: finish_handled_def w3_def)
      then show ?thesis using ok_trans [OF o1 still_ok [OF s3]] s3 p1 [OF False] by (auto simp: finished_def still_def)
    next
      case (Some e)
      obtain r4 w4 where f: "save_failed e w2 = (r4, w4)" by (rule prod.exhaust)
      then have "r = Some r4" "w' = w4" using assms \<open>w_pending w = []\<close> p False s Some by (auto simp: finish_handled_def)
      then show ?thesis
        using ok_trans [OF o1 still_ok [OF still_then [OF s2 save_failed_still [OF f]]]] save_failed_stopped [OF f]
        by (auto simp: finished_def)
    qed
  qed
qed (use assms in \<open>auto simp: finish_handled_def\<close>)

lemma finish_turn_spec:
  assumes "finish_turn env a w = (r, w')"
  shows "ok_step env w w'
     \<and> (case r of None \<Rightarrow> mass w' < mass w | Some out \<Rightarrow> w_pending w = [] \<longrightarrow> finished env out w')
     \<and> (\<forall>out. r = Some out \<longrightarrow> stopped env out w' \<or> (\<exists>c. out = TurnDone c TurnEndStatusCompleted))"
proof -
  obtain b w1 where p: "poll_steering w = (b, w1)" by (rule prod.exhaust)
  have o1: "ok_step env w w1" "b \<Longrightarrow> mass w1 < mass w" using poll_steering_ok [OF p] by blast+
  have p1: "\<not> b \<Longrightarrow> w_pending w1 = w_pending w" using poll_steering_pending [OF p] by auto
  obtain hard w2 where h: "read_hard w1 = (hard, w2)" by (rule prod.exhaust)
  have s2: "still env 0 w1 w2" using read_hard_still [OF h] .
  show ?thesis
  proof (cases "b \<or> hard")
    case True
    then show ?thesis
      using assms p h o1 ok_trans [OF o1(1) still_ok [OF still_then [OF s2 abort_snd [of env w2 env]]]] abort_snd_stopped [of env w2]
      by (auto simp: finish_turn_def finished_def split: prod.splits bool.splits)
  next
    case False
    define c where "c = (if a = [] then
        (if currentIteration (w_ts w2) \<ge> ag_MaxIterations (env_agent env) \<and> ag_MaxIterations (env_agent env) > 0
         then toolLimitResponse else po_DefaultResponse (ts_opts (w_ts w2))) else a)"
    define w3 where "w3 = upd_ts (setFinalContent c \<circ> setPhase TurnPhaseFinalizing) w2"
    obtain s w4 where s: "store_final env c w3 = (s, w4)" by (rule prod.exhaust)
    have s4: "still env 0 w1 w4"
      using still_then [OF still_then [OF s2 final_still] store_final_still [OF s [unfolded w3_def]]] .
    show ?thesis
    proof (cases s)
      case None
      define w5 where "w5 = upd_ts (setPhase TurnPhaseCompleted) (summarize_after env w4)"
      have "r = Some (TurnDone c TurnEndStatusCompleted)" "w' = w5"
        using assms p h False s None by (auto simp: finish_turn_def c_def w3_def w5_def Let_def)
      moreover have "still env 0 w1 w5"
        unfolding w5_def using s4 summarize_after_still phase_still still_then by meson
      ultimately show ?thesis
        using ok_trans [OF o1(1) still_ok, of 0 w5] p1 False by (auto simp: finished_def still_def)
    next
      case (Some e)
      obtain r5 w5 where f: "save_failed e w4 = (r5, w5)" by (rule prod.exhaust)
      then have "r = Some r5" "w' = w5"
        using assms p h False s Some by (auto simp: finish_turn_def c_def w3_def Let_def)
      then show ?thesis
        using ok_trans [OF o1(1) still_ok [OF still_then [OF s4 save_failed_still [OF f]]]] save_failed_stopped [OF f]
        by (auto simp: finished_def)
    qed
  qed
qed

lemma act_spec:
  assumes "act_on_response env g resp w = (r, w')"
  shows "ok_step env w w'
   \<and> (case r of LContinue \<Rightarrow> True | LBreak a \<Rightarrow> w_pending w' = w_pending w
      | LReturn out \<Rightarrow> finished env out w' | LGo _ \<Rightarrow> False)"
proof (cases "lr_ToolCalls resp = [] \<or> g")
  case True
  obtain b w1 where p: "poll_steering w = (b, w1)" by (rule prod.exhaust)
  have "\<not> b \<Longrightarrow> w_pending w1 = w_pending w" using poll_steering_pending [OF p] by auto
  with True show ?thesis using assms p poll_steering_ok [OF p, of env] by (cases b) (auto simp: act_on_response_def)
next
  case False
  obtain s w1 where t: "tool_phase env resp w = (s, w1)" by (rule prod.exhaust)
  note ts = tool_phase_spec [OF t]
  show ?thesis
  proof (cases s)
    case (Ret out)
    then show ?thesis using assms False t ts by (auto simp: act_on_response_def finished_def)
  next
    case (Go b)
    obtain h w2 where f: "finish_handled env w1 = (h, w2)" by (rule prod.exhaust)
    note fs = finish_handled_spec [OF f]
    have "ok_step env w w2" "ok_step env w (w1\<lparr>w_tools := tickTTL (w_tools w1)\<rparr>)"
      using ts fs ok_trans tools_ok by blast+
    then show ?thesis
      using assms False t ts Go f fs by (cases b; cases h) (auto simp: act_on_response_def)
  qed
qed

lemma iteration_spec:
  assumes "iteration env w = (r, w')"
  shows "(case r of
      LContinue \<Rightarrow> stepped env 3 w w' \<and> (w_pending w \<noteq> [] \<longrightarrow> mass w' < mass w)
        \<and> (ts_gracefulInterrupt (w_ts w) \<longrightarrow> ts_gracefulTerminalUsed (w_ts w'))
    | LBreak a \<Rightarrow> stepped env 3 w w' \<and> (ts_parentTurnState (w_ts w) = None \<longrightarrow> w_pending w' = [])
    | LReturn out \<Rightarrow> evolves env w w' \<and> w_calls w' \<le> w_calls w + 3 \<and> finished env out w'
    | LGo _ \<Rightarrow> False)"
proof -
  obtain r1 w1 where s: "start_iteration env w = (r1, w1)" by (rule prod.exhaust)
  note st = start_ok [OF s, of env]
  show ?thesis
  proof (cases r1)
    case (LGo u)
    obtain s2 w2 where l: "llm_phase env w1 = (s2, w2)" by (rule prod.exhaust)
    note ll = llm_phase_still [OF l, of env]
    have s1: "stepped env 0 w w1" "w_pending w1 = []" "w_pending w \<noteq> [] \<Longrightarrow> mass w1 < mass w" using st LGo by auto
    have s2: "stepped env 3 w w2" using stepped_then [OF s1(1) still_ok] ll by fastforce
    show ?thesis
    proof (cases s2)
      case (Ret out)
      then show ?thesis
        using assms s LGo l llm_phase_stopped [of env w1 out w2] s2 by (auto simp: iteration_def finished_def stepped_def)
    next
      case (Go gr)
      obtain g resp where gr: "gr = (g, resp)" by (rule prod.exhaust)
      have a: "act_on_response env g resp w2 = (r, w')" using assms s LGo l Go gr by (simp add: iteration_def)
      note ac = act_spec [OF a]
      have s3: "stepped env 3 w w'" using stepped_then [OF s2, of 0 w'] ac by simp
      have "mass w2 \<le> mass w1" "mass w' \<le> mass w2" "w_pending w2 = []"
        using ll ac s1(2) by (auto simp: still_def ok_steps_def calm_def)
      then have m: "w_pending w \<noteq> [] \<Longrightarrow> mass w' < mass w" using s1(3) by force
      have g: "ts_gracefulInterrupt (w_ts w) \<Longrightarrow> ts_gracefulTerminalUsed (w_ts w')"
        using s1(1) ll ac Go by (auto simp: stepped_def ok_steps_def evolves_def)
      show ?thesis
      proof (cases r)
        case (LReturn out)
        then show ?thesis using s3 ac by (auto simp: stepped_def)
      qed (use s3 m g ac \<open>w_pending w2 = []\<close> in auto)
    qed
  next
    case (LReturn out)
    then have r: "r = LReturn out" "w' = w1" using assms s by (auto simp: iteration_def)
    obtain hard v where h: "read_hard w = (hard, v)" by (rule prod.exhaust)
    have "stopped env out w1"
      using s LReturn by (auto simp: start_iteration_def h Let_def split: bool.splits prod.splits dest: abort_stopped)
    then show ?thesis using st LReturn r by (auto simp: finished_def ok_steps_def)
  qed (use assms s st in \<open>auto simp: iteration_def stepped_def\<close>)
qed

section \<open>The loop\<close>

text \<open>The passes that are left: the iterations below the limit, one for every steering message that is
  queued or will arrive (two, as it is first taken and then injected), and one for the final answer of
  a graceful interrupt.\<close>

definition potential :: "turn_env \<Rightarrow> world \<Rightarrow> nat" where
  "potential env w =
     nat (ag_MaxIterations (env_agent env) - ts_iteration (w_ts w)) + mass w
       + (if ts_gracefulTerminalUsed (w_ts w) then 0 else 1)"

lemma potential_ok: "ok_steps env k w w' \<Longrightarrow> potential env w' \<le> potential env w"
  by (auto simp: ok_steps_def calm_def evolves_def potential_def)

lemma potential_stepped: "stepped env k w w' \<Longrightarrow> potential env w' \<le> potential env w"
  by (auto simp: stepped_def evolves_def potential_def)

lemma potential_stepped_less:
  assumes "stepped env k w w'"
    and "currentIteration (w_ts w) < ag_MaxIterations (env_agent env) \<or> mass w' < mass w
         \<or> (\<not> ts_gracefulTerminalUsed (w_ts w) \<and> ts_gracefulTerminalUsed (w_ts w'))"
  shows "potential env w' < potential env w"
proof -
  have s: "ts_iteration (w_ts w') = ts_iteration (w_ts w) + 1" "mass w' \<le> mass w"
    "ts_gracefulTerminalUsed (w_ts w) \<Longrightarrow> ts_gracefulTerminalUsed (w_ts w')"
    using assms(1) by (auto simp: stepped_def evolves_def)
  show ?thesis
    using assms(2) s unfolding potential_def currentIteration_def by (elim disjE) (auto split: if_splits)
qed

lemma pass_spec:
  assumes "loop_condition env w = (enter, w1)"
    and "(if enter then iteration env w1 else (LBreak [], w1)) = (r, w2)"
  shows "evolves env w w2 \<and> w_calls w2 \<le> w_calls w + 3
   \<and> (case r of
        LContinue \<Rightarrow> potential env w2 < potential env w
      | LBreak a \<Rightarrow> potential env w2 \<le> potential env w \<and> (ts_parentTurnState (w_ts w) = None \<longrightarrow> w_pending w2 = [])
      | LReturn out \<Rightarrow> finished env out w2
      | LGo _ \<Rightarrow> False)"
proof -
  define fresh where "fresh \<longleftrightarrow> currentIteration (w_ts w) < ag_MaxIterations (env_agent env) \<or> w_pending w \<noteq> []"
  have lc: "(enter, w1) = (if fresh then (True, w) else read_graceful w)"
    using assms(1) by (simp add: loop_condition_def fresh_def)
  have s1: "still env 0 w w1" using lc read_graceful_still [of w enter w1 env] by (cases fresh) simp_all
  have e1: "evolves env w w1" "w_calls w1 \<le> w_calls w" "ts_parentTurnState (w_ts w1) = ts_parentTurnState (w_ts w)"
    using s1 by (auto simp: still_def ok_steps_def evolves_def)
  note p1 = potential_ok [OF still_ok [OF s1]]
  show ?thesis
  proof (cases enter)
    case False
    then have "\<not> fresh" using lc by (auto split: if_splits)
    then have "w_pending w1 = []" using s1 by (simp add: fresh_def still_def)
    then show ?thesis using assms(2) False e1 p1 by auto
  next
    case True
    then have it: "iteration env w1 = (r, w2)" using assms(2) by simp
    note its = iteration_spec [OF it]
    show ?thesis
    proof (cases r)
      case LContinue
      then have st: "stepped env 3 w1 w2" and pm: "w_pending w1 \<noteq> [] \<longrightarrow> mass w2 < mass w1"
        and g: "ts_gracefulInterrupt (w_ts w1) \<longrightarrow> ts_gracefulTerminalUsed (w_ts w2)" using its by auto
      have "potential env w2 < potential env w1"
      proof (cases fresh)
        case True
        then have "w1 = w" using lc by simp
        then show ?thesis using potential_stepped_less [OF st] True pm by (auto simp: fresh_def)
      next
        case False
        then have "read_graceful w = (True, w1)" using lc True by simp
        then have "ts_gracefulInterrupt (w_ts w1)" "\<not> ts_gracefulTerminalUsed (w_ts w1)"
          by (auto simp: read_graceful_def Let_def gracefulInterruptRequested_def)
        then show ?thesis using potential_stepped_less [OF st] g by blast
      qed
      then show ?thesis using st e1 p1 LContinue evolves_trans by (fastforce simp: stepped_def)
    next
      case (LBreak a)
      then have st: "stepped env 3 w1 w2" and pm: "ts_parentTurnState (w_ts w1) = None \<longrightarrow> w_pending w2 = []" using its by auto
      then show ?thesis using potential_stepped [OF st] e1 p1 LBreak evolves_trans by (fastforce simp: stepped_def)
    next
      case (LReturn out)
      then show ?thesis using its e1 evolves_trans by fastforce
    qed (use its in auto)
  qed
qed

lemma turn_loop_ends: "potential env w < fuel \<Longrightarrow> \<exists>r w'. turn_loop fuel env w = Some (r, w')"
proof (induction fuel arbitrary: w)
  case (Suc fuel)
  obtain enter w1 where l: "loop_condition env w = (enter, w1)" by (rule prod.exhaust)
  obtain r w2 where i: "(if enter then iteration env w1 else (LBreak [], w1)) = (r, w2)" by (rule prod.exhaust)
  note ps = pass_spec [OF l i]
  show ?case
  proof (cases r)
    case LContinue
    then show ?thesis using ps Suc by (simp add: l i)
  next
    case (LBreak a)
    obtain o3 w3 where f: "finish_turn env a w2 = (o3, w3)" by (rule prod.exhaust)
    note fs = finish_turn_spec [OF f]
    show ?thesis
    proof (cases o3)
      case None
      have "potential env w3 < potential env w2"
        using fs None by (auto simp: ok_steps_def calm_def evolves_def potential_def)
      then have "potential env w3 < fuel" using ps LBreak Suc.prems by auto
      then show ?thesis using Suc.IH f None LBreak by (simp add: l i)
    qed (simp add: l i LBreak f)
  qed (use ps in \<open>simp_all add: l i\<close>)
qed simp

lemma call_budget: "c \<le> b + 3 \<Longrightarrow> d \<le> c + 3 * (p + 1) \<Longrightarrow> p < q \<Longrightarrow> d \<le> b + 3 * (q + 1)" for b c d p q :: nat
  by presburger

lemma call_budget_mono: "c \<le> b + 3 * (p + 1) \<Longrightarrow> p \<le> q \<Longrightarrow> c \<le> b + 3 * (q + 1)" for b c p q :: nat
  by presburger

text \<open>What the loop as a whole does.\<close>

lemma turn_loop_spec:
  "turn_loop fuel env w = Some (r, w') \<Longrightarrow>
   evolves env w w' \<and> w_calls w' \<le> w_calls w + 3 * (potential env w + 1)
   \<and> (stopped env r w' \<or> (\<exists>c. r = TurnDone c TurnEndStatusCompleted))
   \<and> (ts_parentTurnState (w_ts w) = None \<longrightarrow> finished env r w')"
proof (induction fuel arbitrary: w)
  case (Suc fuel)
  obtain enter w1 where l: "loop_condition env w = (enter, w1)" by (rule prod.exhaust)
  obtain x w2 where i: "(if enter then iteration env w1 else (LBreak [], w1)) = (x, w2)" by (rule prod.exhaust)
  note ps = pass_spec [OF l i]
  have e2: "evolves env w w2" "w_calls w2 \<le> w_calls w + 3" using ps by blast+
  have again: "turn_loop fuel env v = Some (r, w') \<Longrightarrow> ok_step env w2 v \<Longrightarrow> potential env v < potential env w \<Longrightarrow> ?case" for v
  proof -
    assume t: "turn_loop fuel env v = Some (r, w')" and o: "ok_step env w2 v" and p: "potential env v < potential env w"
    note ih = Suc.IH [OF t]
    have v: "evolves env w v" using evolves_trans [OF e2(1)] o by (simp add: ok_steps_def)
    have e: "evolves env w w'" using evolves_trans [OF v] ih by blast
    have t: "ts_parentTurnState (w_ts v) = ts_parentTurnState (w_ts w)" using v by (simp add: evolves_def)
    have "w_calls v \<le> w_calls w + 3" using e2(2) o by (simp add: ok_steps_def)
    moreover have "w_calls w' \<le> w_calls v + 3 * (potential env v + 1)" using ih by blast
    ultimately have "w_calls w' \<le> w_calls w + 3 * (potential env w + 1)"
      using p by (rule call_budget)
    then show ?thesis using ih e unfolding t by blast
  qed
  show ?case
  proof (cases x)
    case LContinue
    then show ?thesis using ps Suc.prems again [of w2] by (simp add: l i)
  next
    case (LBreak a)
    obtain o3 w3 where f: "finish_turn env a w2 = (o3, w3)" by (rule prod.exhaust)
    note fs = finish_turn_spec [OF f]
    show ?thesis
    proof (cases o3)
      case None
      have "potential env w3 < potential env w2"
        using fs None by (auto simp: ok_steps_def calm_def evolves_def potential_def)
      then show ?thesis using Suc.prems f None LBreak ps fs again [of w3] by (simp add: l i)
    next
      case (Some out)
      then have rw: "r = out" "w' = w3" using Suc.prems f LBreak by (auto simp: l i)
      have "ok_step env w2 w3" "w_pending w2 = [] \<Longrightarrow> finished env out w3" 
        "stopped env out w3 \<or> (\<exists>c. out = TurnDone c TurnEndStatusCompleted)" using fs Some by auto
      moreover from this have "evolves env w w3" "w_calls w3 \<le> w_calls w + 3"
        using e2 evolves_trans by (auto simp: ok_steps_def)
      moreover have "ts_parentTurnState (w_ts w) = None \<longrightarrow> w_pending w2 = []" using ps LBreak by simp
      ultimately show ?thesis using rw by auto
    qed
  next
    case (LReturn out)
    then show ?thesis using Suc.prems ps by (auto simp: l i finished_def)
  qed (use ps in simp)
qed simp

section \<open>The beginning\<close>

text \<open>What the turn starts from: the history and summary of the context manager, empty if it fails.\<close>

definition assembled :: "turn_env \<Rightarrow> world \<Rightarrow> message list \<times> string" where
  "assembled env w =
     (if noHistory w then ([], [])
      else case cm_Assemble (env_cm env) (w_n w) (w_stores (observe w)) (ts_sessionKey (w_ts w)) of
             None \<Rightarrow> ([], []) | Some p \<Rightarrow> p)"

fun write_stores :: "interference \<Rightarrow> (string \<Rightarrow> sessions) \<Rightarrow> (string \<Rightarrow> sessions)" where
  "write_stores (IStores f) s = f s"
| "write_stores _ s = s"

lemma interfere_stores: "w_stores (interfere a w) = write_stores a (w_stores w)"
  by (cases a) (auto simp: upd_ts_def split: option.splits)

lemma observe_stores:
  "w_stores (observe w) = (case w_sched w of [] \<Rightarrow> w_stores w | acts # _ \<Rightarrow> fold write_stores acts (w_stores w))"
proof -
  have "w_stores (fold interfere acts v) = fold write_stores acts (w_stores v)" for acts v
    by (induction acts arbitrary: v) (simp_all add: interfere_stores)
  then show ?thesis by (simp add: observe_def split: list.splits)
qed

definition capacity :: "turn_env \<Rightarrow> world \<Rightarrow> nat" where
  "capacity env w =
     nat (ag_MaxIterations (env_agent env) - ts_iteration (w_ts w)) + 2 * awaited w
       + (if po_InitialSteeringMessages (ts_opts (w_ts w)) = [] then 1 else 2)"

lemma announce_ok: "ok_step env w (announce w)"
  by (rule ok_same) (simp_all add: announce_def emit_turn_def emit_def upd_ts_def setTurnCancel_def Let_def)

lemma announce_same:
  "w_stores (announce w) = w_stores w" "w_n (announce w) = w_n w" "w_sched (announce w) = w_sched w"
  "w_compactions (announce w) = w_compactions w" "w_runs (announce w) = w_runs w"
  "w_pending (announce w) = w_pending w" "awaited (announce w) = awaited w"
  by (simp_all add: announce_def emit_turn_def emit_def upd_ts_def Let_def awaited_def queued_def)

lemma observe_history: "w_history (observe w) = w_history w \<and> w_summary (observe w) = w_summary w"
proof -
  have i: "w_history (interfere a u) = w_history u \<and> w_summary (interfere a u) = w_summary u" for a u
    by (cases a) (auto simp: upd_ts_def split: option.splits)
  have "w_history (fold interfere acts u) = w_history u \<and> w_summary (fold interfere acts u) = w_summary u" for acts u
    by (induction acts arbitrary: u) (simp_all add: i)
  then show ?thesis by (simp add: observe_def split: list.splits)
qed

lemma assemble_result:
  "(w_history (assemble env w), w_summary (assemble env w))
   = (case cm_Assemble (env_cm env) (w_n w) (w_stores (observe w)) (ts_sessionKey (w_ts w)) of
        None \<Rightarrow> (w_history w, w_summary w) | Some p \<Rightarrow> p)"
  using observe_frame [of w] observe_history [of w]
  by (auto simp: assemble_def next_call_def same_frame_def split: option.splits)

lemma assemble_same:
  "w_compactions (assemble env w) = w_compactions w" "w_runs (assemble env w) = w_runs w"
  "w_pending (assemble env w) = w_pending w" "awaited (assemble env w) \<le> awaited w"
  using observe_frame [of w]
  by (auto simp: assemble_def next_call_def same_frame_def awaited_def queued_def split: option.splits prod.splits)

text \<open>The state in which the restore point has been captured.\<close>

lemma open_turn_spec:
  fixes env :: turn_env and w :: world
  defines "v \<equiv> open_turn env w"
  shows "w_compactions v = w_compactions w" "w_runs v = w_runs w" "ts_opts (w_ts v) = ts_opts (w_ts w)"
    "ts_sessionKey (w_ts v) = ts_sessionKey (w_ts w)" "ts_parentTurnState (w_ts v) = ts_parentTurnState (w_ts w)"
    "(ts_restorePointHistory (w_ts v), ts_restorePointSummary (w_ts v)) = assembled env w"
    "w_calls v \<le> w_calls w" "ts_iteration (w_ts v) = ts_iteration (w_ts w)" "awaited v \<le> awaited w"
proof -
  define w1 where "w1 = (announce w)\<lparr>w_history := [], w_summary := []\<rparr>"
  define w2 where "w2 = (if noHistory w1 then w1 else assemble env w1)"
  have v: "v = upd_ts (captureRestorePoint (w_history w2) (w_summary w2)) w2"
    by (simp add: v_def open_turn_def w1_def w2_def Let_def)
  have "ok_step env (announce w) w1" unfolding w1_def by (rule ok_same) simp_all
  then have o1: "ok_step env w w1" using announce_ok ok_trans by blast
  have o2: "ok_step env w w2" using o1 ok_trans [OF o1 assemble_ok] by (simp add: w2_def)
  have s1: "w_stores (observe w1) = w_stores (observe w)" "w_n w1 = w_n w"
    by (simp_all add: observe_stores w1_def announce_same split: list.splits)
  have a: "(w_history w2, w_summary w2) = assembled env w"
  proof (cases "noHistory w")
    case True
    then show ?thesis using noHistory_same [OF o1] by (simp add: w2_def assembled_def) (simp add: w1_def)
  next
    case False
    have "w_history w1 = []" "w_summary w1 = []" by (simp_all add: w1_def)
    with False show ?thesis
      using noHistory_same [OF o1] key_same [OF o1] assemble_result [of env w1] s1
      by (simp add: w2_def assembled_def split: option.splits)
  qed
  have c: "w_compactions w2 = w_compactions w" "w_runs w2 = w_runs w" "awaited w2 \<le> awaited w"
  proof -
    have "w_compactions w1 = w_compactions w" "w_runs w1 = w_runs w" "awaited w1 = awaited w"
      using announce_same [of w] by (simp_all add: w1_def awaited_def queued_def)
    then show "w_compactions w2 = w_compactions w" "w_runs w2 = w_runs w" "awaited w2 \<le> awaited w"
      using assemble_same [of env w1] by (auto simp: w2_def)
  qed
  have f: "ts_opts (w_ts w2) = ts_opts (w_ts w)" "ts_sessionKey (w_ts w2) = ts_sessionKey (w_ts w)"
    "ts_parentTurnState (w_ts w2) = ts_parentTurnState (w_ts w)" "w_calls w2 \<le> w_calls w"
    "ts_iteration (w_ts w2) = ts_iteration (w_ts w)"
    using o2 by (auto simp: ok_steps_def evolves_def calm_def)
  show "w_compactions v = w_compactions w" "w_runs v = w_runs w" "ts_opts (w_ts v) = ts_opts (w_ts w)"
    "ts_sessionKey (w_ts v) = ts_sessionKey (w_ts w)" "ts_parentTurnState (w_ts v) = ts_parentTurnState (w_ts w)"
    "(ts_restorePointHistory (w_ts v), ts_restorePointSummary (w_ts v)) = assembled env w"
    "w_calls v \<le> w_calls w" "ts_iteration (w_ts v) = ts_iteration (w_ts w)" "awaited v \<le> awaited w"
    using a c f by (simp_all add: v upd_ts_def captureRestorePoint_def awaited_def queued_def)
qed

lemma proactive_still: "still env 0 w (proactive_compaction e w)"
  unfolding proactive_compaction_def Let_def
  by (rule still_trans [OF refreshed_still], rule still_trans [OF assemble_still], rule still_trans [OF build_still],
      rule resolve_still)

lemma first_request_still: "still env 0 w (first_request e w)"
  unfolding first_request_def Let_def
  using still_trans [OF build_still resolve_still] still_trans [OF _ proactive_still] by auto

lemma save_user_still: "still env 0 w (save_user_message e w)"
  by (simp add: save_user_message_def)

text \<open>The rest of the beginning; the restore point stays unless the history is compacted.\<close>

lemma begin_spec:
  fixes env :: turn_env and w :: world
  defines "v \<equiv> open_turn env w"
  shows "evolves env v (begin_turn env w)" "conserved (begin_turn env w)"
    "w_calls (begin_turn env w) \<le> w_calls w" "potential env (begin_turn env w) \<le> capacity env w"
proof -
  define u where "u = save_user_message env (first_request env v)"
  define b where "b = begin_turn env w"
  have b: "b = u\<lparr>w_model := env_model env (ts_userMessage (w_ts u)) (w_messages u),
            w_pending := po_InitialSteeringMessages (ts_opts (w_ts u)),
            w_taken := po_InitialSteeringMessages (ts_opts (w_ts u)), w_injected := []\<rparr>"
    by (simp add: b_def begin_turn_def u_def v_def Let_def)
  have s: "still env 0 v u" unfolding u_def using first_request_still save_user_still still_trans by blast
  note o = still_ok [OF s]
  note vs = open_turn_spec [of env w, folded v_def]
  have c: "conserved b" by (simp add: b conserved_def)
  then show "conserved (begin_turn env w)" by (simp add: b_def)
  have "evolves env v u" using o by (simp add: ok_steps_def)
  then have "evolves env v b" using c by (simp add: evolves_def b)
  then show "evolves env v (begin_turn env w)" by (simp add: b_def)
  show "w_calls (begin_turn env w) \<le> w_calls w" using o vs(7) b by (simp add: b_def ok_steps_def)
  have i: "ts_iteration (w_ts u) = ts_iteration (w_ts w)" "ts_opts (w_ts u) = ts_opts (w_ts w)"
    using o vs by (auto simp: ok_steps_def evolves_def calm_def)
  have "awaited u \<le> awaited v"
    using s by (auto simp: still_def ok_steps_def calm_def mass_def split: if_splits)
  then have "awaited b \<le> awaited w" using vs(9) by (simp add: b awaited_def queued_def)
  moreover have "w_pending b = po_InitialSteeringMessages (ts_opts (w_ts w))" "ts_iteration (w_ts b) = ts_iteration (w_ts w)"
    using i by (simp_all add: b)
  ultimately show "potential env (begin_turn env w) \<le> capacity env w"
    unfolding b_def [symmetric] potential_def capacity_def mass_def by auto
qed

section \<open>A turn\<close>

lemma runTurn_spec:
  assumes "runTurn fuel env w = Some (r, w')"
  shows "evolves env (open_turn env w) w'"
    "stopped env r w' \<or> (\<exists>c. r = TurnDone c TurnEndStatusCompleted)"
    "ts_parentTurnState (w_ts w) = None \<Longrightarrow> finished env r w'"
    "conserved w'" "w_calls w' \<le> w_calls w + 3 * (capacity env w + 1)"
proof -
  obtain v where v: "turn_loop fuel env (begin_turn env w) = Some (r, v)" "w' = end_turn r v"
    using assms by (auto simp: runTurn_def split: option.splits)
  note t = turn_loop_spec [OF v(1)] and b = begin_spec [where env = env and w = w]
  have e: "w_ts w' = w_ts v" "w_stores w' = w_stores v" "w_pending w' = w_pending v" "w_taken w' = w_taken v"
    "w_injected w' = w_injected v" "w_runs w' = w_runs v" "w_compactions w' = w_compactions v" "w_calls w' = w_calls v"
    by (simp_all add: v(2) end_turn_def emit_turn_def emit_def Let_def)
  have ev: "evolves env (open_turn env w) v" using b(1) t evolves_trans by blast
  then show "evolves env (open_turn env w) w'" by (simp add: evolves_def conserved_def e)
  have st: "stopped env r w' = stopped env r v"
    by (simp add: stopped_def noHistory_def restored_def hist_def summ_def e)
  then show "stopped env r w' \<or> (\<exists>c. r = TurnDone c TurnEndStatusCompleted)" using t by blast
  have "ts_parentTurnState (w_ts (begin_turn env w)) = ts_parentTurnState (w_ts w)"
    using b(1) open_turn_spec(5) [of env w] by (simp add: evolves_def)
  then show "finished env r w'" if "ts_parentTurnState (w_ts w) = None"
    using that t st by (simp add: finished_def e)
  have "conserved v" using t b(2) by (simp add: evolves_def)
  then show "conserved w'" by (simp add: conserved_def e)
  have "w_calls v \<le> w_calls w + 3 * (potential env (begin_turn env w) + 1)" using t b(3) by linarith
  then show "w_calls w' \<le> w_calls w + 3 * (capacity env w + 1)" unfolding e using b(4) by (rule call_budget_mono)
qed

section \<open>An example\<close>

definition demo_options :: process_options where
  "demo_options = \<lparr>po_SessionKey = ''k'', po_Channel = ''c'', po_ChatID = ''1'', po_SenderID = [], po_SenderDisplayName = [],
     po_UserMessage = ''hi'', po_Media = [], po_InitialSteeringMessages = [], po_DefaultResponse = ''?'',
     po_EnableSummary = False, po_SendResponse = False, po_AllowInterimPicoPublish = False,
     po_SuppressToolFeedback = False, po_NoHistory = False, po_SkipInitialSteeringPoll = False\<rparr>"

definition demo_request_call :: tool_call where
  "demo_request_call = \<lparr>tc_ID = ''7'', tc_Type = ''function'', tc_Function = None, tc_Name = ''t'', tc_Arguments = None,
     tc_ThoughtSignature = [], tc_ExtraContent = None\<rparr>"

definition demo_llm :: "llm_request \<Rightarrow> llm_error + llm_response" where
  "demo_llm rq = Inr \<lparr>lr_Content = ''ok'', lr_ReasoningContent = [],
     lr_ToolCalls = (if list_ex is_tool (rq_Messages rq) then [] else [demo_request_call]),
     lr_FinishReason = [], lr_Usage = None, lr_Reasoning = []\<rparr>"

definition demo_registry_one :: tool_registry where
  "demo_registry_one = fst (register (demo_tool ''t'' []) newToolRegistry)"

definition own_store_manager :: context_manager where
  "own_store_manager = \<lparr>cm_Assemble = (\<lambda>n s k. Some (lcm_assemble (Some (s ''a'')) k)), cm_Compact = (\<lambda>n r k s. s)\<rparr>"

definition demo_env :: "context_manager \<Rightarrow> hook_manager option \<Rightarrow> turn_env" where
  "demo_env cm hooks = \<lparr>env_agent = \<lparr>ag_ID = ''a'', ag_Store = ''a'', ag_MaxIterations = 3, ag_MaxTokens = 0,
       ag_Temperature = 0, ag_ContextWindow = 100000, ag_ThinkingLevel = None\<rparr>,
     env_cm = cm, env_hooks = (\<lambda>n. hooks), env_prompt = (\<lambda>n. (''s'', ''d'', [])), env_resolve = (\<lambda>n ms. ms),
     env_marshal = (\<lambda>a. Some ''{}''), env_unmarshal = (\<lambda>s. None), env_filter = (\<lambda>s. s), env_filterEnabled = False,
     env_preferNative = False, env_supportsNative = False, env_supportsThinking = False, env_model = (\<lambda>u ms. ''m''),
     env_chat = (\<lambda>n rq. demo_llm rq), env_sleep = (\<lambda>n. None), env_run = (\<lambda>n t c a. Returns (Some (newToolResult ''r''))),
     env_fmtV = (\<lambda>v. []), env_normalise = (\<lambda>r a b c d. r), env_artifactTags = (\<lambda>n rs. []), env_channelManager = False,
     env_bus = True, env_sendMedia = (\<lambda>n rs. None), env_feedback = None, env_save = (\<lambda>n. None), env_ctxHasTurn = False\<rparr>"

definition demo_open :: hook_manager where
  "demo_open = fold hook_exec [OpMount (demo_approver ''b'' True)] newHookManager"

definition demo_scope :: turn_event_scope where
  "demo_scope = \<lparr>tes_agentID = ''a'', tes_sessionKey = ''k'', tes_turnID = ''t''\<rparr>"

definition old_sessions :: "string \<Rightarrow> sessions" where
  "old_sessions a = \<lparr>ss_history = (\<lambda>k. if a = ''a'' \<and> k = ''k'' then [plain_message ''user'' ''old''] else []), ss_summary = (\<lambda>k. [])\<rparr>"

definition demo_world :: "interference list list \<Rightarrow> world" where
  "demo_world sched = \<lparr>w_ts = newTurnState ''a'' (Some (old_sessions ''a'')) demo_options demo_scope,
     w_stores = old_sessions, w_steering = Some (newSteeringQueue SteeringOneAtATime), w_tools = demo_registry_one, w_messages = [],
     w_pending = [], w_history = [], w_summary = [], w_model = [], w_parentEnded = False, w_active = [], w_events = [],
     w_out = [], w_n = 0, w_sched = sched, w_taken = [], w_injected = [], w_runs = [], w_calls = 0, w_compactions = 0\<rparr>"

definition other_store_manager :: context_manager where
  "other_store_manager = \<lparr>cm_Assemble = (\<lambda>n s k. Some (lcm_assemble (Some (s ''b'')) k)), cm_Compact = (\<lambda>n r k s. s)\<rparr>"

section \<open>Properties\<close>

text \<open>
  Claim C2. A turn ends, whatever the model answers, the tools do and the hooks decide, and however
  other goroutines steer and interrupt it: the number of passes is at most the iterations below the
  limit, plus two for every steering message that is queued or arrives, plus one for the final answer
  of a graceful interrupt and one for the messages the turn was started with. Every pass makes at most
  three calls of the model.
\<close>

theorem turn_terminates:
  assumes "capacity env w < fuel"
  shows "\<exists>r w'. runTurn fuel env w = Some (r, w') \<and> w_calls w' \<le> w_calls w + 3 * (capacity env w + 1)"
proof -
  have "potential env (begin_turn env w) < fuel" using begin_spec(4) [of env w] assms by linarith
  from turn_loop_ends [OF this] obtain r v where "turn_loop fuel env (begin_turn env w) = Some (r, v)" by blast
  then have "runTurn fuel env w = Some (r, end_turn r v)" by (simp add: runTurn_def)
  then show ?thesis using runTurn_spec(5) by blast
qed

theorem turn_terminates_witness:
  "capacity (demo_env own_store_manager None) (demo_world []) = 4
   \<and> (\<exists>r w'. runTurn 5 (demo_env own_store_manager None) (demo_world []) = Some (r, w') \<and> w_calls w' \<le> 15)"
proof -
  have c: "capacity (demo_env own_store_manager None) (demo_world []) = 4"
    by (simp add: capacity_def demo_env_def demo_world_def awaited_def queued_def newSteeringQueue_def sq_len_def
        newTurnState_def demo_options_def)
  moreover have "w_calls (demo_world []) = 0" by (simp add: demo_world_def)
  ultimately show ?thesis
    using turn_terminates [of "demo_env own_store_manager None" "demo_world []" 5] by simp
qed

text \<open>
  Claim C1. No tool runs without approval. Every tool a turn runs has been approved by every approver
  that was mounted then, with exactly the name and the arguments it runs with, so a hook that rewrites
  a call cannot have another call approved than the one that is run. (A hook that answers a call itself
  runs no tool.)
\<close>

theorem turn_tools_approved:
  assumes "runTurn fuel env w = Some (r, w')" and "x \<in> set (w_runs w')" and "x \<notin> set (w_runs w)"
  shows "\<exists>n req. ta_Tool req = run_Tool x \<and> ta_Arguments req = run_Arguments x
     \<and> (\<forall>hm. env_hooks env n = Some hm \<longrightarrow>
          (\<forall>reg\<in>set (hm_ordered hm). \<forall>f. approver reg = Some f \<longrightarrow> (\<exists>d. f req = ApprovalReply d \<and> ad_Approved d)))"
proof -
  have "approved_run env x"
    using runTurn_spec(1) [OF assms(1)] assms(2,3) open_turn_spec(2) [of env w] by (auto simp: evolves_def)
  then obtain n req where "ta_Tool req = run_Tool x" "ta_Arguments req = run_Arguments x"
      "case env_hooks env n of None \<Rightarrow> True | Some hm \<Rightarrow> ad_Approved (approveTool hm req)"
    unfolding approved_run_def by blast
  then show ?thesis
    by (intro exI [of _ n] exI [of _ req]) (auto simp: approveTool_def approve_iff)
qed

lemma demo_approved_run:
  "map_option (\<lambda>(r, w). (r, w_runs w)) (runTurn 5 (demo_env own_store_manager (Some demo_open)) (demo_world []))
   = Some (TurnDone ''ok'' TurnEndStatusCompleted, [\<lparr>run_Tool = ''t'', run_Arguments = [], run_Callback = True\<rparr>])"
  by code_simp

theorem turn_tools_approved_witness:
  "\<exists>w'. runTurn 5 (demo_env own_store_manager (Some demo_open)) (demo_world []) = Some (TurnDone ''ok'' TurnEndStatusCompleted, w')
     \<and> length (w_runs w') = 1
     \<and> (\<forall>x\<in>set (w_runs w'). \<exists>req. ta_Tool req = run_Tool x
          \<and> (\<forall>reg\<in>set (hm_ordered demo_open). \<forall>f. approver reg = Some f \<longrightarrow> (\<exists>d. f req = ApprovalReply d \<and> ad_Approved d)))"
proof -
  obtain w' where w': "runTurn 5 (demo_env own_store_manager (Some demo_open)) (demo_world []) = Some (TurnDone ''ok'' TurnEndStatusCompleted, w')"
    and runs: "w_runs w' = [\<lparr>run_Tool = ''t'', run_Arguments = [], run_Callback = True\<rparr>]"
    using demo_approved_run by auto
  have n: "w_runs (demo_world []) = []" by (simp add: demo_world_def)
  have h: "env_hooks (demo_env own_store_manager (Some demo_open)) n = Some demo_open" for n by (simp add: demo_env_def)
  show ?thesis
    using w' runs turn_tools_approved [OF w', of "\<lparr>run_Tool = ''t'', run_Arguments = [], run_Callback = True\<rparr>"]
    by (auto simp: n h)
qed


definition demo_steered :: world where
  "demo_steered = demo_world [[], [], [], [], [ISteer ''k'' (plain_message ''user'' ''stop'')]]"

lemma demo_steered_run:
  "map_option (\<lambda>(r, w). (r, w_taken w)) (runTurn 7 (demo_env own_store_manager None) demo_steered)
   = Some (TurnDone ''ok'' TurnEndStatusCompleted, [plain_message ''user'' ''stop''])"
  by code_simp


text \<open>
  Claim C3. Every tool call is answered. If the calls of a response are processed without the turn
  returning, the request grows by the assistant's message and one tool message for each call, in the
  order of the calls and with their identifiers: an answer, a refusal or a note that the call was
  skipped. Between them there can be user messages with results of sub-turns. The session grows by the
  same messages, if the turn keeps one and no other goroutine writes it meanwhile.
\<close>

theorem tool_calls_answered:
  assumes "tool_phase env resp w = (Go handled, w')"
  shows "\<exists>ms. w_messages w' = w_messages w @ assistant_message env resp (map (normalizeToolCall env) (lr_ToolCalls resp)) # ms
     \<and> map msg_ToolCallID (filter is_tool ms) = map tc_ID (lr_ToolCalls resp)
     \<and> list_all (\<lambda>m. is_tool m \<or> subturn_note m) ms
     \<and> (undisturbed w \<and> \<not> noHistory w \<longrightarrow>
          hist env w' = hist env w @ assistant_message env resp (map (normalizeToolCall env) (lr_ToolCalls resp)) # ms)"
proof -
  have "map tc_ID (map (normalizeToolCall env) cs) = map tc_ID cs" for cs
    by (simp add: normalizeToolCall_def Let_def)
  then show ?thesis
    using tool_phase_spec [OF assms] by (auto simp: appends_def answers_in_order_def)
qed

definition two_calls :: llm_response where
  "two_calls = \<lparr>lr_Content = [], lr_ReasoningContent = [],
     lr_ToolCalls = [demo_request_call, demo_request_call\<lparr>tc_ID := ''8''\<rparr>], lr_FinishReason = [], lr_Usage = None, lr_Reasoning = []\<rparr>"

lemma two_calls_run:
  "(case tool_phase (demo_env own_store_manager None) two_calls (demo_world [[], [], [ISteer ''k'' (plain_message ''user'' ''stop'')]]) of
      (Go b, w) \<Rightarrow> b = False \<and> length (w_runs w) = 1 | _ \<Rightarrow> False)"
  by code_simp

theorem tool_calls_answered_witness:
  "\<exists>w' ms. tool_phase (demo_env own_store_manager None) two_calls (demo_world [[], [], [ISteer ''k'' (plain_message ''user'' ''stop'')]])
      = (Go False, w') \<and> length (w_runs w') = 1
     \<and> map msg_ToolCallID (filter is_tool ms) = [''7'', ''8'']
     \<and> hist (demo_env own_store_manager None) w' = plain_message ''user'' ''old''
         # assistant_message (demo_env own_store_manager None) two_calls
             (map (normalizeToolCall (demo_env own_store_manager None)) (lr_ToolCalls two_calls)) # ms"
proof -
  let ?e = "demo_env own_store_manager None"
  let ?w = "demo_world [[], [], [ISteer ''k'' (plain_message ''user'' ''stop'')]]"
  obtain w' where w': "tool_phase ?e two_calls ?w = (Go False, w')" "length (w_runs w') = 1"
    using two_calls_run by (auto split: prod.splits stage.splits)
  have "undisturbed ?w" "\<not> noHistory ?w" "hist ?e ?w = [plain_message ''user'' ''old'']"
    by (simp_all add: undisturbed_def demo_world_def writes_stores_def noHistory_def newTurnState_def demo_options_def
        hist_def demo_env_def old_sessions_def)
  moreover have "map tc_ID (lr_ToolCalls two_calls) = [''7'', ''8'']"
    by (simp add: two_calls_def demo_request_call_def)
  ultimately show ?thesis using tool_calls_answered [OF w'(1)] w' by auto
qed

text \<open>
  Claim C4. What an aborted turn leaves in its session. The history and the summary are those of the
  restore point. If nothing was compacted in the turn, they are what the context manager assembled when
  it began, and everything the turn had written is gone. So an abort empties the session when the
  assembly failed, and the legacy context manager, which reads the store of the registry's default
  agent, gives another agent's session the history that the default agent has under the same key.
\<close>

theorem aborted_turn_restores:
  assumes "runTurn fuel env w = Some (r, w')" and "outcome_status r = Some TurnEndStatusAborted" and "\<not> noHistory w"
  shows "hist env w' = ts_restorePointHistory (w_ts w') \<and> summ env w' = ts_restorePointSummary (w_ts w')
     \<and> (w_compactions w' = w_compactions w \<longrightarrow> (hist env w', summ env w') = assembled env w)
     \<and> (w_compactions w' = w_compactions w \<and> undisturbed w
          \<and> (\<forall>n s k. cm_Assemble (env_cm env) n s k = Some (lcm_assemble (Some (s default_agent)) k)) \<longrightarrow>
          hist env w' = ss_history (w_stores w default_agent) (ts_sessionKey (w_ts w)))"
proof -
  note e = runTurn_spec(1) [OF assms(1)] and o = open_turn_spec [where env = env and w = w]
  have st: "stopped env r w'" using runTurn_spec(2) [OF assms(1)] assms(2) by (auto simp: outcome_status_def)
  have "noHistory w' = noHistory w" using e o(3) by (simp add: evolves_def noHistory_def)
  then have h: "hist env w' = ts_restorePointHistory (w_ts w')" "summ env w' = ts_restorePointSummary (w_ts w')"
    using st assms(2,3) by (simp_all add: stopped_def restored_def)
  have a: "w_compactions w' = w_compactions w \<longrightarrow> (hist env w', summ env w') = assembled env w"
    using e o(1,6) h by (simp add: evolves_def)
  have "undisturbed w \<Longrightarrow> w_stores (observe w) = w_stores w" using observe_quiet by blast
  then show ?thesis using h a assms(3) by (auto simp: assembled_def lcm_assemble_def)
qed

definition demo_aborted :: world where
  "demo_aborted = demo_world [[], [], [], [], [], [IHard]]"

lemma demo_aborted_run:
  "map_option (\<lambda>(r, w). (r, w_compactions w, w_calls w)) (runTurn 5 (demo_env other_store_manager None) demo_aborted)
   = Some (TurnDone [] TurnEndStatusAborted, 0, 1)"
  by code_simp

theorem aborted_turn_restores_witness:
  "hist (demo_env other_store_manager None) demo_aborted = [plain_message ''user'' ''old'']
   \<and> (\<exists>w'. runTurn 5 (demo_env other_store_manager None) demo_aborted = Some (TurnDone [] TurnEndStatusAborted, w')
        \<and> hist (demo_env other_store_manager None) w' = [])"
proof -
  let ?e = "demo_env other_store_manager None"
  obtain w' where w': "runTurn 5 ?e demo_aborted = Some (TurnDone [] TurnEndStatusAborted, w')" "w_compactions w' = 0"
    using demo_aborted_run by auto
  have n: "\<not> noHistory demo_aborted" "undisturbed demo_aborted" "w_compactions demo_aborted = 0"
    "ss_history (w_stores demo_aborted ''b'') (ts_sessionKey (w_ts demo_aborted)) = []"
    "hist ?e demo_aborted = [plain_message ''user'' ''old'']"
    by (simp_all add: demo_aborted_def undisturbed_def demo_world_def writes_stores_def noHistory_def newTurnState_def
        demo_options_def hist_def demo_env_def old_sessions_def)
  have c: "\<forall>n s k. cm_Assemble (env_cm ?e) n s k = Some (lcm_assemble (Some (s ''b'')) k)"
    by (simp add: demo_env_def other_store_manager_def)
  have "hist ?e w' = []"
    using aborted_turn_restores [OF w'(1) _ n(1), of "''b''", THEN conjunct2, THEN conjunct2] w'(2) n c
    by (simp add: outcome_status_def)
  with w'(1) n(5) show ?thesis by blast
qed

end
