(* ===== verification/ActiveTurns.thy ===== *)
theory ActiveTurns
  imports TurnState Steering Route
begin

text \<open>
  The agent loop's view of its turns: the registry of agents (\<^verbatim>\<open>pkg/agent/registry.go\<close>), the map of active
  turns and the end of a turn (\<^verbatim>\<open>turn.go\<close>), and what users and other parts of the program do to a running
  turn (\<^verbatim>\<open>steering.go\<close>: steering, continuing, interrupting, aborting). Turns refer to each other, so they
  live in a heap; a map is an association list in the order its iteration happens to have.
\<close>

section \<open>The registry of agents\<close>

record agent_entry =
  ae_ID :: string
  ae_Subagents :: "subagents_config option"

type_synonym agent_registry = "(string \<times> agent_entry) list"

definition agent_of_config :: "agent_config \<Rightarrow> agent_entry" where
  "agent_of_config ac = \<lparr>ae_ID = normalizeAgentID (ac_ID ac), ae_Subagents = ac_Subagents ac\<rparr>"

definition newAgentRegistry :: "agent_config list \<Rightarrow> agent_registry" where
  "newAgentRegistry cfgs =
     (if cfgs = [] then [(''main'', \<lparr>ae_ID = ''main'', ae_Subagents = None\<rparr>)]
      else fold (\<lambda>ac r. AList.update (normalizeAgentID (ac_ID ac)) (agent_of_config ac) r) cfgs [])"

definition getAgent :: "string \<Rightarrow> agent_registry \<Rightarrow> agent_entry option" where
  "getAgent agentID r = map_of r (normalizeAgentID agentID)"

definition listAgentIDs :: "agent_registry \<Rightarrow> string list" where
  "listAgentIDs r = map fst r"

text \<open>The default agent is the one called \<^verbatim>\<open>main\<close>, else the first that the iteration meets.\<close>

definition getDefaultAgent :: "agent_registry \<Rightarrow> agent_entry option" where
  "getDefaultAgent r =
     (case map_of r ''main'' of
        Some a \<Rightarrow> Some a
      | None \<Rightarrow> (case r of [] \<Rightarrow> None | (_, a) # _ \<Rightarrow> Some a))"

definition canSpawnSubagent :: "string \<Rightarrow> string \<Rightarrow> agent_registry \<Rightarrow> bool" where
  "canSpawnSubagent parentAgentID targetAgentID r =
     (case getAgent parentAgentID r of
        None \<Rightarrow> False
      | Some parent \<Rightarrow>
          (case ae_Subagents parent of
             None \<Rightarrow> False
           | Some sub \<Rightarrow>
               list_ex (\<lambda>allowed. allowed = ''*'' \<or> normalizeAgentID allowed = normalizeAgentID targetAgentID)
                 (sac_AllowAgents sub)))"

section \<open>The loop\<close>

record loop_state =
  al_heap :: "nat \<Rightarrow> turn_state"
  al_active :: "(string \<times> nat) list"
  al_steering :: "steering_queue option"
  al_registry :: "agent_registry option"
  al_stores :: "nat \<Rightarrow> sessions"
  al_storeOf :: "nat \<Rightarrow> nat"
  al_events :: "(event_kind \<times> event_meta \<times> event_payload) list"

definition al_emit :: "event_kind \<Rightarrow> event_meta \<Rightarrow> event_payload \<Rightarrow> loop_state \<Rightarrow> loop_state" where
  "al_emit k m p s = s\<lparr>al_events := al_events s @ [(k, m, p)]\<rparr>"

definition upd_turn :: "nat \<Rightarrow> (turn_state \<Rightarrow> turn_state) \<Rightarrow> loop_state \<Rightarrow> loop_state" where
  "upd_turn r f s = s\<lparr>al_heap := (al_heap s)(r := f (al_heap s r))\<rparr>"

definition registerActiveTurn :: "nat \<Rightarrow> loop_state \<Rightarrow> loop_state" where
  "registerActiveTurn r s = s\<lparr>al_active := AList.update (ts_sessionKey (al_heap s r)) r (al_active s)\<rparr>"

definition clearActiveTurn :: "nat \<Rightarrow> loop_state \<Rightarrow> loop_state" where
  "clearActiveTurn r s = s\<lparr>al_active := AList.delete (ts_sessionKey (al_heap s r)) (al_active s)\<rparr>"

definition getActiveTurnState :: "string \<Rightarrow> loop_state \<Rightarrow> nat option" where
  "getActiveTurnState key s = map_of (al_active s) key"

definition getAnyActiveTurnState :: "loop_state \<Rightarrow> nat option" where
  "getAnyActiveTurnState s = (case al_active s of [] \<Rightarrow> None | (_, r) # _ \<Rightarrow> Some r)"

record active_turn_info =
  ati_TurnID :: string
  ati_AgentID :: string
  ati_SessionKey :: string
  ati_Channel :: string
  ati_ChatID :: string
  ati_UserMessage :: string
  ati_Phase :: turn_phase
  ati_Iteration :: int
  ati_Depth :: int
  ati_ParentTurnID :: string
  ati_ChildTurnIDs :: "string list"

definition snapshot :: "turn_state \<Rightarrow> active_turn_info" where
  "snapshot ts =
     \<lparr>ati_TurnID = ts_turnID ts, ati_AgentID = ts_agentID ts, ati_SessionKey = ts_sessionKey ts,
      ati_Channel = ts_channel ts, ati_ChatID = ts_chatID ts, ati_UserMessage = ts_userMessage ts,
      ati_Phase = ts_phase ts, ati_Iteration = ts_iteration ts, ati_Depth = ts_depth ts,
      ati_ParentTurnID = ts_parentTurnID ts, ati_ChildTurnIDs = ts_childTurnIDs ts\<rparr>"

definition getActiveTurn :: "loop_state \<Rightarrow> active_turn_info option" where
  "getActiveTurn s = map_option (\<lambda>r. snapshot (al_heap s r)) (getAnyActiveTurnState s)"

definition getActiveTurnBySession :: "string \<Rightarrow> loop_state \<Rightarrow> active_turn_info option" where
  "getActiveTurnBySession key s = map_option (\<lambda>r. snapshot (al_heap s r)) (getActiveTurnState key s)"

section \<open>The end of a turn\<close>

definition isParentEnded :: "nat \<Rightarrow> loop_state \<Rightarrow> bool" where
  "isParentEnded r s =
     (case ts_parentTurnState (al_heap s r) of None \<Rightarrow> False | Some p \<Rightarrow> ts_parentEnded (al_heap s p))"

definition close_turn :: "bool \<Rightarrow> turn_state \<Rightarrow> turn_state" where
  "close_turn isHardAbort ts =
     (let ts1 = ts\<lparr>ts_isFinished := True\<rparr>;
          ts2 = (if ts_closeOnce ts1 then ts1
                 else ts1\<lparr>ts_closeOnce := True,
                          ts_pendingResults := map_option (\<lambda>c. c\<lparr>rc_closed := True\<rparr>) (ts_pendingResults ts1),
                          ts_finishedChan := Some True\<rparr>);
          ts3 = (if \<not> isHardAbort \<and> ts_parentTurnState ts2 = None then ts2\<lparr>ts_parentEnded := True\<rparr> else ts2)
      in if ts_cancelFunc ts3 then ts3\<lparr>ts_cancelled := True\<rparr> else ts3)"

text \<open>\<^verbatim>\<open>Finish\<close>, with the depth of the recursion as fuel. The cascade goes through the map of active turns,
  and only from a turn that has a reference to the loop.\<close>

function (sequential) finish :: "nat \<Rightarrow> bool \<Rightarrow> nat \<Rightarrow> loop_state \<Rightarrow> loop_state option"
  and finish_children :: "nat \<Rightarrow> string list \<Rightarrow> loop_state \<Rightarrow> loop_state option" where
  "finish 0 isHardAbort r s = None"
| "finish (Suc n) isHardAbort r s =
     (let s1 = upd_turn r (close_turn isHardAbort) s
      in if isHardAbort \<and> ts_al (al_heap s1 r)
         then finish_children n (ts_childTurnIDs (al_heap s1 r)) s1
         else Some s1)"
| "finish_children n [] s = Some s"
| "finish_children n (childID # rest) s =
     (case map_of (al_active s) childID of
        None \<Rightarrow> finish_children n rest s
      | Some c \<Rightarrow> (case finish n True c s of None \<Rightarrow> None | Some s1 \<Rightarrow> finish_children n rest s1))"
  by pat_completeness auto
termination
  by (relation "measures [\<lambda>x. case x of Inl (n, b, r, s) \<Rightarrow> n | Inr (n, cs, s) \<Rightarrow> n,
                          \<lambda>x. case x of Inl (n, b, r, s) \<Rightarrow> 0 | Inr (n, cs, s) \<Rightarrow> Suc (length cs)]") auto

text \<open>\<^verbatim>\<open>HardAbort\<close>: the turn is finished, then the session cut back to its length when the turn began.\<close>

definition hardAbort :: "nat \<Rightarrow> string \<Rightarrow> loop_state \<Rightarrow> (string option \<times> loop_state) option" where
  "hardAbort fuel sessionKey s =
     (case map_of (al_active s) sessionKey of
        None \<Rightarrow> Some (Some (''no active turn state found for session '' @ sessionKey), s)
      | Some r \<Rightarrow>
          (case finish fuel True r s of
             None \<Rightarrow> None
           | Some s1 \<Rightarrow>
               (let ts = al_heap s1 r; a = al_storeOf s1 r; store = al_stores s1 a;
                    history = ss_history store sessionKey
                in Some (None,
                     if ts_session ts \<and> ts_initialHistoryLength ts < length history
                     then s1\<lparr>al_stores := (al_stores s1)(a :=
                               ss_setHistory sessionKey (take (ts_initialHistoryLength ts) history) store)\<rparr>
                     else s1))))"

section \<open>Steering a turn\<close>

definition enqueueSteeringMessage :: "string \<Rightarrow> string \<Rightarrow> message \<Rightarrow> loop_state \<Rightarrow> string option \<times> loop_state" where
  "enqueueSteeringMessage scope agentID m s =
     (case al_steering s of
        None \<Rightarrow> (Some ''steering queue is not initialized'', s)
      | Some q \<Rightarrow>
          (case pushScope q scope m of
             None \<Rightarrow> (Some ''steering queue is full'', s)
           | Some q' \<Rightarrow>
               (let s1 = s\<lparr>al_steering := Some q'\<rparr>;
                    normalizedScope = normalizeSteeringScope scope;
                    meta =
                      (case getAnyActiveTurnState s1 of
                         Some r \<Rightarrow> eventMeta (al_heap s1 r) ''Steer'' ''turn.interrupt.received''
                       | None \<Rightarrow>
                           \<lparr>em_AgentID =
                              (if trim_space agentID \<noteq> [] then agentID
                               else (case Option.bind (al_registry s1) getDefaultAgent of
                                       Some a \<Rightarrow> ae_ID a | None \<Rightarrow> [])),
                            em_TurnID = [],
                            em_SessionKey = (if normalizedScope \<noteq> manualSteeringScope then normalizedScope else []),
                            em_Iteration = 0, em_TracePath = ''turn.interrupt.received'', em_Source = ''Steer''\<rparr>)
                in (None, al_emit EventKindInterruptReceived meta
                      (InterruptReceivedPayload InterruptKindSteering (msg_Role m) (length (msg_Content m))
                         (lenScope q' scope) 0) s1))))"

text \<open>A message without a session goes to any turn that is active.\<close>

definition steer :: "message \<Rightarrow> loop_state \<Rightarrow> string option \<times> loop_state" where
  "steer m s =
     (case getAnyActiveTurnState s of
        Some r \<Rightarrow> enqueueSteeringMessage (ts_sessionKey (al_heap s r)) (ts_agentID (al_heap s r)) m s
      | None \<Rightarrow> enqueueSteeringMessage [] [] m s)"

definition injectFollowUp :: "message \<Rightarrow> loop_state \<Rightarrow> string option \<times> loop_state" where
  "injectFollowUp m s = steer m s"

definition injectSteering :: "message \<Rightarrow> loop_state \<Rightarrow> string option \<times> loop_state" where
  "injectSteering m s = steer m s"

definition loopSteeringMode :: "loop_state \<Rightarrow> steering_mode" where
  "loopSteeringMode s = (case al_steering s of None \<Rightarrow> SteeringOneAtATime | Some q \<Rightarrow> getMode q)"

definition setSteeringMode :: "steering_mode \<Rightarrow> loop_state \<Rightarrow> loop_state" where
  "setSteeringMode mode s = s\<lparr>al_steering := map_option (\<lambda>q. setMode q mode) (al_steering s)\<rparr>"

definition pendingSteeringCountForScope :: "string \<Rightarrow> loop_state \<Rightarrow> nat" where
  "pendingSteeringCountForScope scope s = (case al_steering s of None \<Rightarrow> 0 | Some q \<Rightarrow> lenScope q scope)"

definition dequeueForScopeWithFallback :: "string \<Rightarrow> loop_state \<Rightarrow> message list \<times> loop_state" where
  "dequeueForScopeWithFallback scope s =
     (case al_steering s of
        None \<Rightarrow> ([], s)
      | Some q \<Rightarrow> (case dequeueScopeWithFallback q scope of (msgs, q') \<Rightarrow> (msgs, s\<lparr>al_steering := Some q'\<rparr>)))"

definition agentForSession :: "string \<Rightarrow> loop_state \<Rightarrow> agent_entry option" where
  "agentForSession sessionKey s =
     (case al_registry s of
        None \<Rightarrow> None
      | Some reg \<Rightarrow>
          (case Option.bind (parseAgentSessionKey sessionKey) (\<lambda>p. getAgent (psk_AgentID p) reg) of
             Some a \<Rightarrow> Some a
           | None \<Rightarrow> getDefaultAgent reg))"

text \<open>\<^verbatim>\<open>Continue\<close>: an error, nothing to do, or the agent and the messages a turn is started with.
  Initialising the hooks and MCP servers may fail (\<open>init\<close>).\<close>

datatype continuation = ContinueErr string | NothingPending | RunTurn agent_entry "message list"

definition continue_session :: "string option \<Rightarrow> string \<Rightarrow> loop_state \<Rightarrow> continuation \<times> loop_state" where
  "continue_session init sessionKey s =
     (case getActiveTurn s of
        Some info \<Rightarrow> (ContinueErr (''turn '' @ ati_TurnID info @ '' is still active''), s)
      | None \<Rightarrow>
          (case init of
             Some err \<Rightarrow> (ContinueErr err, s)
           | None \<Rightarrow>
               (case dequeueForScopeWithFallback sessionKey s of
                  ([], s1) \<Rightarrow> (NothingPending, s1)
                | (msgs, s1) \<Rightarrow>
                    (case agentForSession sessionKey s1 of
                       None \<Rightarrow> (ContinueErr (''no agent available for session '' @ go_quote sessionKey), s1)
                     | Some a \<Rightarrow> (RunTurn a msgs, s1)))))"

definition interruptGraceful :: "string \<Rightarrow> loop_state \<Rightarrow> string option \<times> loop_state" where
  "interruptGraceful hint s =
     (case getAnyActiveTurnState s of
        None \<Rightarrow> (Some ''no active turn'', s)
      | Some r \<Rightarrow>
          (case requestGracefulInterrupt hint (al_heap s r) of
             (False, _) \<Rightarrow> (Some (''turn '' @ ts_turnID (al_heap s r) @ '' cannot accept graceful interrupt''), s)
           | (True, ts') \<Rightarrow>
               (None, al_emit EventKindInterruptReceived (eventMeta ts' ''InterruptGraceful'' ''turn.interrupt.received'')
                  (InterruptReceivedPayload InterruptKindGraceful [] 0 0 (length hint)) (upd_turn r (\<lambda>_. ts') s))))"

definition interruptHard :: "loop_state \<Rightarrow> string option \<times> loop_state" where
  "interruptHard s =
     (case getAnyActiveTurnState s of
        None \<Rightarrow> (Some ''no active turn'', s)
      | Some r \<Rightarrow>
          (case requestHardAbort (al_heap s r) of
             (False, _) \<Rightarrow> (Some (''turn '' @ ts_turnID (al_heap s r) @ '' is already aborting''), s)
           | (True, ts') \<Rightarrow>
               (None, al_emit EventKindInterruptReceived (eventMeta ts' ''InterruptHard'' ''turn.interrupt.received'')
                  (InterruptReceivedPayload InterruptKindHard [] 0 0 0) (upd_turn r (\<lambda>_. ts') s))))"

text \<open>Every result that waits in a turn's channel; what is nil is skipped.\<close>

definition dequeuePendingSubTurnResults :: "string \<Rightarrow> loop_state \<Rightarrow> tool_result list \<times> loop_state" where
  "dequeuePendingSubTurnResults sessionKey s =
     (case map_of (al_active s) sessionKey of
        None \<Rightarrow> ([], s)
      | Some r \<Rightarrow>
          (case ts_pendingResults (al_heap s r) of
             None \<Rightarrow> ([], s)
           | Some c \<Rightarrow>
               (List.map_filter (\<lambda>x. x) (rc_buf c),
                upd_turn r (\<lambda>ts. ts\<lparr>ts_pendingResults := Some (c\<lparr>rc_buf := []\<rparr>)\<rparr>) s)))"

section \<open>What a hard abort reaches\<close>

text \<open>The turns that the cascade from a turn gets to: through the children of turns that know the loop.\<close>

inductive reaches :: "loop_state \<Rightarrow> nat \<Rightarrow> nat \<Rightarrow> bool" for s where
  reaches_self: "reaches s r r"
| reaches_child: "ts_al (al_heap s r) \<Longrightarrow> childID \<in> set (ts_childTurnIDs (al_heap s r))
    \<Longrightarrow> map_of (al_active s) childID = Some c \<Longrightarrow> reaches s c q \<Longrightarrow> reaches s r q"

inductive_cases reachesE: "reaches s r q"

text \<open>A turn is one level below the turn that lists it as its child, and no deeper than the limit.\<close>

definition levelled :: "int \<Rightarrow> loop_state \<Rightarrow> bool" where
  "levelled maxDepth s \<longleftrightarrow>
     (\<forall>r childID c. childID \<in> set (ts_childTurnIDs (al_heap s r)) \<longrightarrow> map_of (al_active s) childID = Some c \<longrightarrow>
        ts_depth (al_heap s c) = ts_depth (al_heap s r) + 1 \<and> ts_depth (al_heap s c) \<le> maxDepth)"

definition close_all :: "nat set \<Rightarrow> loop_state \<Rightarrow> loop_state" where
  "close_all A s = s\<lparr>al_heap := (\<lambda>q. if q \<in> A then close_turn True (al_heap s q) else al_heap s q)\<rparr>"

lemma close_turn_fields: "close_turn b ts = ts\<lparr>ts_isFinished := True, ts_closeOnce := True,
    ts_pendingResults := (if ts_closeOnce ts then ts_pendingResults ts
                          else map_option (\<lambda>c. c\<lparr>rc_closed := True\<rparr>) (ts_pendingResults ts)),
    ts_finishedChan := (if ts_closeOnce ts then ts_finishedChan ts else Some True),
    ts_parentEnded := (ts_parentEnded ts \<or> \<not> b \<and> ts_parentTurnState ts = None),
    ts_cancelled := (ts_cancelled ts \<or> ts_cancelFunc ts)\<rparr>"
  by (cases "ts_closeOnce ts"; cases b; cases "ts_parentTurnState ts"; cases "ts_cancelFunc ts")
    (intro turn_state.equality; simp add: close_turn_def Let_def)+

lemma close_turn_again [simp]: "close_turn b (close_turn b ts) = close_turn b ts"
  by (rule turn_state.equality) (simp_all add: close_turn_fields)

lemma close_turn_keeps [simp]:
  "ts_al (close_turn b ts) = ts_al ts" "ts_childTurnIDs (close_turn b ts) = ts_childTurnIDs ts"
  "ts_session (close_turn b ts) = ts_session ts" "ts_initialHistoryLength (close_turn b ts) = ts_initialHistoryLength ts"
  "ts_cancelFunc (close_turn b ts) = ts_cancelFunc ts" "ts_hardAbort (close_turn b ts) = ts_hardAbort ts"
  "ts_depth (close_turn b ts) = ts_depth ts" "ts_isFinished (close_turn b ts)"
  by (simp_all add: close_turn_def Let_def)

lemma close_turn_cancels: "ts_cancelled (close_turn b ts) \<longleftrightarrow> ts_cancelled ts \<or> ts_cancelFunc ts"
  by (simp add: close_turn_def Let_def)

lemma close_all_sel [simp]:
  "al_active (close_all A s) = al_active s" "al_stores (close_all A s) = al_stores s"
  "al_storeOf (close_all A s) = al_storeOf s" "al_steering (close_all A s) = al_steering s"
  "al_registry (close_all A s) = al_registry s" "al_events (close_all A s) = al_events s"
  by (simp_all add: close_all_def)

lemma close_all_empty: "close_all {} s = s"
  by (simp add: close_all_def)

lemma close_all_insert: "upd_turn r (close_turn True) (close_all A s) = close_all (insert r A) s"
  by (auto simp: close_all_def upd_turn_def fun_eq_iff)

lemma close_all_turn:
  "ts_al (al_heap (close_all A s) q) = ts_al (al_heap s q)"
  "ts_childTurnIDs (al_heap (close_all A s) q) = ts_childTurnIDs (al_heap s q)"
  by (simp_all add: close_all_def)

definition live_children :: "loop_state \<Rightarrow> string list \<Rightarrow> nat set" where
  "live_children s ids = {c. \<exists>i\<in>set ids. map_of (al_active s) i = Some c}"

lemma reaches_Collect:
  "Collect (reaches s r) = insert r (if ts_al (al_heap s r)
     then (\<Union>c\<in>live_children s (ts_childTurnIDs (al_heap s r)). Collect (reaches s c)) else {})"
proof (intro set_eqI iffI)
  fix q
  assume "q \<in> Collect (reaches s r)"
  then have "reaches s r q" by simp
  then show "q \<in> insert r (if ts_al (al_heap s r)
     then (\<Union>c\<in>live_children s (ts_childTurnIDs (al_heap s r)). Collect (reaches s c)) else {})"
    by (rule reachesE) (auto simp: live_children_def)
qed (auto simp: live_children_def intro: reaches_self reaches_child split: if_splits)

lemma close_children_reach:
  assumes "\<And>c A. c \<in> live_children s ids \<Longrightarrow> finish n True c (close_all A s) = Some (close_all (A \<union> Collect (reaches s c)) s)"
  shows "finish_children n ids (close_all A s)
    = Some (close_all (A \<union> (\<Union>c\<in>live_children s ids. Collect (reaches s c))) s)"
  using assms
proof (induction ids arbitrary: A)
  case (Cons i ids)
  have sub: "live_children s ids \<subseteq> live_children s (i # ids)" by (auto simp: live_children_def)
  show ?case
  proof (cases "map_of (al_active s) i")
    case None
    then have "live_children s (i # ids) = live_children s ids" by (auto simp: live_children_def)
    then show ?thesis using None Cons by simp
  next
    case (Some c)
    then have "live_children s (i # ids) = insert c (live_children s ids)" by (auto simp: live_children_def)
    then show ?thesis using Some Cons sub by (simp add: Un_assoc subset_iff)
  qed
qed (simp add: live_children_def)

lemma finish_reaches:
  assumes "levelled maxDepth s"
  shows "max (maxDepth - ts_depth (al_heap s r)) 0 < int n \<Longrightarrow>
      finish n True r (close_all A s) = Some (close_all (A \<union> Collect (reaches s r)) s)"
proof (induction n arbitrary: r A)
  case (Suc n)
  define B where "B = insert r A"
  have step: "upd_turn r (close_turn True) (close_all A s) = close_all B s" by (simp add: close_all_insert B_def)
  show ?case
  proof (cases "ts_al (al_heap s r)")
    case True
    have "finish n True c (close_all A s) = Some (close_all (A \<union> Collect (reaches s c)) s)"
      if "c \<in> live_children s (ts_childTurnIDs (al_heap s r))" for c A
    proof (rule Suc.IH)
      have "ts_depth (al_heap s c) = ts_depth (al_heap s r) + 1 \<and> ts_depth (al_heap s c) \<le> maxDepth"
        using that assms by (auto simp: live_children_def levelled_def)
      then show "max (maxDepth - ts_depth (al_heap s c)) 0 < int n" using Suc.prems by simp
    qed
    from close_children_reach [of s "ts_childTurnIDs (al_heap s r)" n, OF this]
    show ?thesis using True by (simp add: step close_all_turn, simp add: B_def reaches_Collect [of s r])
  next
    case False
    then have "Collect (reaches s r) = {r}" using reaches_Collect [of s r] by simp
    then show ?thesis using False by (simp add: step close_all_turn, simp add: B_def)
  qed
qed simp

text \<open>
  Claim C9. A hard abort of an active turn ends: with the depth of sub-turns as fuel it returns no error. It finishes
  the turn and the live descendants that the cascade reaches, and no other turn; of those it cancels the context
  of each that has a cancel function, and requests the hard abort of none. The session is cut back to the length
  it had when the turn began, every other session, and every summary, is as before. For a root turn, which has
  neither a cancel function nor a reference to the loop, this means that no child is stopped and that the
  turn itself goes on: only the flag that it finished is set.
\<close>

theorem hard_abort_contract:
  assumes "levelled maxDepth s" "map_of (al_active s) key = Some r" "max (maxDepth - ts_depth (al_heap s r)) 0 < int n"
  shows "\<exists>s'. hardAbort n key s = Some (None, s')
    \<and> (\<forall>q. reaches s r q \<longrightarrow> ts_isFinished (al_heap s' q) \<and> ts_hardAbort (al_heap s' q) = ts_hardAbort (al_heap s q)
          \<and> ts_cancelled (al_heap s' q) = (ts_cancelled (al_heap s q) \<or> ts_cancelFunc (al_heap s q)))
    \<and> (\<forall>q. \<not> reaches s r q \<longrightarrow> al_heap s' q = al_heap s q)
    \<and> ss_history (al_stores s' (al_storeOf s r)) key
        = (if ts_session (al_heap s r)
           then take (ts_initialHistoryLength (al_heap s r)) (ss_history (al_stores s (al_storeOf s r)) key)
           else ss_history (al_stores s (al_storeOf s r)) key)
    \<and> (\<forall>a k. (a, k) \<noteq> (al_storeOf s r, key) \<longrightarrow> ss_history (al_stores s' a) k = ss_history (al_stores s a) k)
    \<and> (\<forall>a. ss_summary (al_stores s' a) = ss_summary (al_stores s a))
    \<and> (\<not> ts_al (al_heap s r) \<and> \<not> ts_cancelFunc (al_heap s r) \<longrightarrow>
         (\<forall>q. q \<noteq> r \<longrightarrow> al_heap s' q = al_heap s q) \<and> ts_cancelled (al_heap s' r) = ts_cancelled (al_heap s r))"
proof -
  define s1 where "s1 = close_all (Collect (reaches s r)) s"
  have f: "finish n True r s = Some s1"
    using finish_reaches [OF assms(1) assms(3), of "{}"] by (simp add: close_all_empty s1_def)
  define st where "st = al_stores s (al_storeOf s r)"
  define h where "h = take (ts_initialHistoryLength (al_heap s r)) (ss_history st key)"
  define cut where "cut \<longleftrightarrow> ts_session (al_heap s r) \<and> ts_initialHistoryLength (al_heap s r) < length (ss_history st key)"
  define s' where "s' = (if cut then s1\<lparr>al_stores := (al_stores s)(al_storeOf s r := ss_setHistory key h st)\<rparr> else s1)"
  have own: "ts_session (al_heap s1 r) = ts_session (al_heap s r)"
    "ts_initialHistoryLength (al_heap s1 r) = ts_initialHistoryLength (al_heap s r)"
    "al_storeOf s1 r = al_storeOf s r" "al_stores s1 = al_stores s"
    by (simp_all add: s1_def close_all_def)
  have e: "hardAbort n key s = Some (None, s')"
    by (simp add: hardAbort_def assms(2) f Let_def own s'_def cut_def st_def h_def)
  have heap: "al_heap s' = al_heap s1" by (simp add: s'_def)
  have stores: "al_stores s' = (if cut then (al_stores s)(al_storeOf s r := ss_setHistory key h st) else al_stores s)"
    by (simp add: s'_def own)
  have q: "al_heap s' q = (if reaches s r q then close_turn True (al_heap s q) else al_heap s q)" for q
    by (simp add: heap s1_def close_all_def)
  have root: "\<not> ts_al (al_heap s r) \<Longrightarrow> reaches s r q \<Longrightarrow> q = r" for q
    using reaches_Collect [of s r] by auto
  show ?thesis
    unfolding e
    by (intro exI [of _ s'] conjI allI impI)
      (use root in \<open>auto simp: q stores close_turn_cancels ss_setHistory_def cut_def st_def h_def\<close>)
qed

definition idle_turn :: "string \<Rightarrow> turn_state" where
  "idle_turn key =
     newTurnState ''main'' (Some \<lparr>ss_history = (\<lambda>_. [plain_message ''user'' ''a'']), ss_summary = (\<lambda>_. [])\<rparr>)
       \<lparr>po_SessionKey = key, po_Channel = [], po_ChatID = [], po_SenderID = [], po_SenderDisplayName = [],
        po_UserMessage = [], po_Media = [], po_InitialSteeringMessages = [], po_DefaultResponse = [],
        po_EnableSummary = False, po_SendResponse = False, po_AllowInterimPicoPublish = False,
        po_SuppressToolFeedback = False, po_NoHistory = False, po_SkipInitialSteeringPoll = True\<rparr>
       \<lparr>tes_agentID = ''main'', tes_sessionKey = key, tes_turnID = key\<rparr>"

text \<open>A root turn with a child that has a child of its own.\<close>

definition demo_loop :: loop_state where
  "demo_loop =
     \<lparr>al_heap = (\<lambda>q. if q = 0 then (idle_turn ''s'')\<lparr>ts_childTurnIDs := [''c'']\<rparr>
                    else if q = 1 then (idle_turn ''c'')\<lparr>ts_childTurnIDs := [''d''], ts_depth := 1, ts_al := True, ts_cancelFunc := True\<rparr>
                    else if q = 2 then (idle_turn ''d'')\<lparr>ts_depth := 2, ts_al := True, ts_cancelFunc := True\<rparr>
                    else idle_turn []),
      al_active = [(''s'', 0), (''c'', 1), (''d'', 2)], al_steering = None, al_registry = None,
      al_stores = (\<lambda>_. \<lparr>ss_history = (\<lambda>_. [plain_message ''user'' ''a'', plain_message ''user'' ''b'']), ss_summary = (\<lambda>_. [])\<rparr>),
      al_storeOf = (\<lambda>q. q), al_events = []\<rparr>"

theorem hard_abort_contract_witness:
  "\<exists>s'. hardAbort 3 ''c'' demo_loop = Some (None, s') \<and> ts_cancelled (al_heap s' 2) \<and> \<not> ts_isFinished (al_heap s' 0)
     \<and> length (ss_history (al_stores s' 1) ''c'') = 1"
proof -
  have l: "levelled 3 demo_loop"
    by (auto simp: levelled_def demo_loop_def idle_turn_def newTurnState_def)
  have c: "reaches demo_loop 1 2"
    by (rule reaches_child [of _ _ "''d''" 2 2]) (simp_all add: demo_loop_def idle_turn_def newTurnState_def reaches_self)
  have n: "\<not> reaches demo_loop 1 0"
    using reaches_Collect [of demo_loop 1] reaches_Collect [of demo_loop 2]
    by (auto simp: demo_loop_def idle_turn_def newTurnState_def live_children_def)
  have h: "ts_cancelFunc (al_heap demo_loop 2)" "\<not> ts_isFinished (al_heap demo_loop 0)" "ts_session (al_heap demo_loop 1)"
    "ts_initialHistoryLength (al_heap demo_loop 1) = 1" "al_storeOf demo_loop 1 = 1"
    "length (ss_history (al_stores demo_loop 1) ''c'') = 2"
    by (simp_all add: demo_loop_def idle_turn_def newTurnState_def)
  have "map_of (al_active demo_loop) ''c'' = Some 1"
    "max (3 - ts_depth (al_heap demo_loop 1)) 0 < int 3"
    by (simp_all add: demo_loop_def)
  from hard_abort_contract [OF l this] show ?thesis
    using c n h by (auto simp: min_def)
qed

end
