(* ===== verification/SubTurn.thy ===== *)
theory SubTurn
  imports ActiveTurns
begin

text \<open>
  \<^verbatim>\<open>pkg/agent/subturn.go\<close>: turns that a turn spawns for a task of their own. A spawn first takes a slot of
  its parent's semaphore, checks the depth and the configuration, builds and registers the child, runs it and,
  when it is asynchronous, sends the result to the parent. Spawns of several goroutines interleave with each
  other, with the parent that polls its results and with turns that finish: the model is a step function over the
  actions between which another goroutine may run. The run of the child itself (\<open>AgentTurn\<close>) is an action that
  ends with content, an error or a panic.
\<close>

section \<open>Configuration\<close>

record subturn_settings =
  st_MaxDepth :: int
  st_MaxConcurrent :: int
  st_DefaultTimeoutMinutes :: int
  st_DefaultTokenBudget :: int
  st_ConcurrencyTimeoutSec :: int

record subturn_runtime =
  rt_maxDepth :: int
  rt_maxConcurrent :: int
  rt_concurrencyTimeout :: int
  rt_defaultTimeout :: int
  rt_defaultTokenBudget :: int

definition defaultMaxSubTurnDepth :: int where "defaultMaxSubTurnDepth = 3"
definition defaultMaxConcurrentSubTurns :: int where "defaultMaxConcurrentSubTurns = 5"
definition defaultConcurrencyTimeout :: int where "defaultConcurrencyTimeout = 30 * 1000000000"
definition defaultSubTurnTimeout :: int where "defaultSubTurnTimeout = 5 * 60000000000"
definition maxEphemeralHistorySize :: nat where "maxEphemeralHistorySize = 50"

text \<open>Durations are \<open>int64\<close> nanoseconds; the multiplications wrap.\<close>

definition getSubTurnConfig :: "subturn_settings \<Rightarrow> subturn_runtime" where
  "getSubTurnConfig cfg =
     (let maxDepth = (if st_MaxDepth cfg \<le> 0 then defaultMaxSubTurnDepth else st_MaxDepth cfg);
          maxConcurrent = (if st_MaxConcurrent cfg \<le> 0 then defaultMaxConcurrentSubTurns else st_MaxConcurrent cfg);
          ct = wrap64 (st_ConcurrencyTimeoutSec cfg * 1000000000);
          concurrencyTimeout = (if ct \<le> 0 then defaultConcurrencyTimeout else ct);
          dt = wrap64 (st_DefaultTimeoutMinutes cfg * 60000000000);
          defaultTimeout = (if dt \<le> 0 then defaultSubTurnTimeout else dt)
      in \<lparr>rt_maxDepth = maxDepth, rt_maxConcurrent = maxConcurrent, rt_concurrencyTimeout = concurrencyTimeout,
          rt_defaultTimeout = defaultTimeout, rt_defaultTokenBudget = st_DefaultTokenBudget cfg\<rparr>)"

text \<open>What a caller asks for; a token budget is a reference to a shared counter.\<close>

record subturn_config =
  sc_Model :: string
  sc_Tools :: "string list"
  sc_SystemPrompt :: string
  sc_MaxTokens :: int
  sc_Async :: bool
  sc_Critical :: bool
  sc_Timeout :: int
  sc_MaxContextRunes :: int
  sc_ActualSystemPrompt :: string
  sc_InitialMessages :: "message list"
  sc_InitialTokenBudget :: "nat option"

section \<open>The session of a sub-turn\<close>

record ephemeral_store =
  es_history :: "message list"
  es_summary :: string

definition newEphemeralSession :: "message list \<Rightarrow> ephemeral_store" where
  "newEphemeralSession initial = \<lparr>es_history = initial, es_summary = []\<rparr>"

definition truncateLocked :: "ephemeral_store \<Rightarrow> ephemeral_store" where
  "truncateLocked e =
     (if maxEphemeralHistorySize < length (es_history e)
      then e\<lparr>es_history := drop (length (es_history e) - maxEphemeralHistorySize) (es_history e)\<rparr> else e)"

definition es_addFullMessage :: "string \<Rightarrow> message \<Rightarrow> ephemeral_store \<Rightarrow> ephemeral_store" where
  "es_addFullMessage key m e = truncateLocked (e\<lparr>es_history := es_history e @ [m]\<rparr>)"

definition es_addMessage :: "string \<Rightarrow> string \<Rightarrow> string \<Rightarrow> ephemeral_store \<Rightarrow> ephemeral_store" where
  "es_addMessage key role content e = truncateLocked (e\<lparr>es_history := es_history e @ [plain_message role content]\<rparr>)"

definition es_getHistory :: "string \<Rightarrow> ephemeral_store \<Rightarrow> message list" where
  "es_getHistory key e = es_history e"

definition es_getSummary :: "string \<Rightarrow> ephemeral_store \<Rightarrow> string" where
  "es_getSummary key e = es_summary e"

definition es_setSummary :: "string \<Rightarrow> string \<Rightarrow> ephemeral_store \<Rightarrow> ephemeral_store" where
  "es_setSummary key t e = e\<lparr>es_summary := t\<rparr>"

definition es_setHistory :: "string \<Rightarrow> message list \<Rightarrow> ephemeral_store \<Rightarrow> ephemeral_store" where
  "es_setHistory key h e = truncateLocked (e\<lparr>es_history := h\<rparr>)"

definition es_truncateHistory :: "string \<Rightarrow> int \<Rightarrow> ephemeral_store \<Rightarrow> ephemeral_store" where
  "es_truncateHistory key keepLast e =
     (if keepLast \<le> 0 then e\<lparr>es_history := []\<rparr>
      else if int (length (es_history e)) \<le> keepLast then e
      else e\<lparr>es_history := drop (length (es_history e) - nat keepLast) (es_history e)\<rparr>)"

definition es_save :: "string \<Rightarrow> ephemeral_store \<Rightarrow> string option" where
  "es_save key e = None"

definition es_listSessions :: "ephemeral_store \<Rightarrow> string list" where
  "es_listSessions e = []"

text \<open>As a store of sessions it has the same history under every key.\<close>

definition sessions_of :: "ephemeral_store \<Rightarrow> sessions" where
  "sessions_of e = \<lparr>ss_history = (\<lambda>_. es_history e), ss_summary = (\<lambda>_. es_summary e)\<rparr>"

section \<open>Spawns\<close>

datatype run_outcome = RunOk string | RunErr string | RunPanic string

text \<open>Where the goroutine of a spawn is; with what its run, and then its cleanup, returned.\<close>

datatype spawn_pc =
    SpWaiting
  | SpEntered
  | SpPrepared
  | SpStored
  | SpLinked
  | SpReady
  | SpRunning
  | SpRan run_outcome
  | SpCleanup "tool_result option" "string option"
  | SpSending "tool_result option" "string option"
  | SpDelivered "tool_result option" "string option"
  | SpLeaving "tool_result option" "string option"
  | SpDone "tool_result option" "string option"

datatype fate = FateSent | FateOrphan

record spawn =
  sp_parent :: nat
  sp_cfg :: subturn_config
  sp_sem :: bool
  sp_child :: "(string \<times> nat) option"
  sp_timeout :: int
  sp_pc :: spawn_pc
  sp_fate :: "fate option"

text \<open>\<open>su_fresh\<close> is the next unused address of turns, stores and budgets. What became of a result
  (\<open>sp_fate\<close>) and the results a parent has taken (\<open>su_taken\<close>) are history variables.\<close>

record sub_state =
  su_loop :: loop_state
  su_agentOf :: "nat \<Rightarrow> string option"
  su_counter :: nat
  su_turnSeq :: nat
  su_fresh :: nat
  su_budgets :: "nat \<Rightarrow> int"
  su_spawns :: "spawn list"
  su_taken :: "nat \<Rightarrow> tool_result option list"

definition generateSubTurnID :: "nat \<Rightarrow> string" where
  "generateSubTurnID n = ''subturn-'' @ decimal n"

abbreviation turn_of :: "sub_state \<Rightarrow> nat \<Rightarrow> turn_state" where
  "turn_of s \<equiv> al_heap (su_loop s)"

definition upd_loop :: "(loop_state \<Rightarrow> loop_state) \<Rightarrow> sub_state \<Rightarrow> sub_state" where
  "upd_loop f s = s\<lparr>su_loop := f (su_loop s)\<rparr>"

definition upd_spawn :: "nat \<Rightarrow> (spawn \<Rightarrow> spawn) \<Rightarrow> sub_state \<Rightarrow> sub_state" where
  "upd_spawn i f s = s\<lparr>su_spawns := (su_spawns s)[i := f (su_spawns s ! i)]\<rparr>"

definition goto_pc :: "nat \<Rightarrow> spawn_pc \<Rightarrow> sub_state \<Rightarrow> sub_state" where
  "goto_pc i pc s = upd_spawn i (\<lambda>sp. sp\<lparr>sp_pc := pc\<rparr>) s"

section \<open>The steps of a spawn\<close>

text \<open>The call. A parent without a semaphore lets every spawn in.\<close>

definition call_spawn :: "nat \<Rightarrow> subturn_config \<Rightarrow> sub_state \<Rightarrow> sub_state" where
  "call_spawn p cfg s =
     s\<lparr>su_spawns := su_spawns s @
         [\<lparr>sp_parent = p, sp_cfg = cfg, sp_sem = False, sp_child = None, sp_timeout = 0,
           sp_pc = (if ts_concurrencySem (turn_of s p) = None then SpEntered else SpWaiting), sp_fate = None\<rparr>]\<rparr>"

definition acquire_slot :: "nat \<Rightarrow> sub_state \<Rightarrow> sub_state option" where
  "acquire_slot i s =
     (let p = sp_parent (su_spawns s ! i)
      in case ts_concurrencySem (turn_of s p) of
           None \<Rightarrow> None
         | Some (used, slots) \<Rightarrow>
             if used < slots
             then Some (upd_spawn i (\<lambda>sp. sp\<lparr>sp_sem := True, sp_pc := SpEntered\<rparr>)
                    (upd_loop (upd_turn p (\<lambda>ts. ts\<lparr>ts_concurrencySem := Some (Suc used, slots)\<rparr>)) s))
             else None)"

definition release_slot :: "nat \<Rightarrow> sub_state \<Rightarrow> sub_state" where
  "release_slot i s =
     (if sp_sem (su_spawns s ! i)
      then upd_spawn i (\<lambda>sp. sp\<lparr>sp_sem := False\<rparr>)
             (upd_loop (upd_turn (sp_parent (su_spawns s ! i))
                (\<lambda>ts. ts\<lparr>ts_concurrencySem := map_option (\<lambda>(used, slots). (used - 1, slots)) (ts_concurrencySem ts)\<rparr>)) s)
      else s)"

text \<open>Waiting ends with the caller's context (its error) or with the timeout of the semaphore.\<close>

definition wait_error :: "(int \<Rightarrow> string) \<Rightarrow> subturn_runtime \<Rightarrow> string option \<Rightarrow> string" where
  "wait_error fmtD rt ctxErr =
     (case ctxErr of
        Some err \<Rightarrow> err
      | None \<Rightarrow> ''timeout waiting for concurrency slot: all '' @ decimal (nat (rt_maxConcurrent rt))
                @ '' slots occupied for '' @ fmtD (rt_concurrencyTimeout rt))"

definition spawn_refused :: "subturn_runtime \<Rightarrow> turn_state \<Rightarrow> subturn_config \<Rightarrow> string option" where
  "spawn_refused rt parent cfg =
     (if rt_maxDepth rt \<le> ts_depth parent then Some ''sub-turn depth limit exceeded''
      else if sc_Model cfg = [] then Some ''invalid sub-turn config''
      else None)"

text \<open>The agent of the parent, else the default agent.\<close>

definition base_agent :: "nat \<Rightarrow> sub_state \<Rightarrow> string option" where
  "base_agent p s =
     (case su_agentOf s p of
        Some a \<Rightarrow> Some a
      | None \<Rightarrow> map_option ae_ID (Option.bind (al_registry (su_loop s)) getDefaultAgent))"

definition child_options :: "turn_state \<Rightarrow> subturn_config \<Rightarrow> string \<Rightarrow> process_options" where
  "child_options parent cfg childID =
     \<lparr>po_SessionKey = childID, po_Channel = ts_channel parent, po_ChatID = ts_chatID parent,
      po_SenderID = po_SenderID (ts_opts parent), po_SenderDisplayName = po_SenderDisplayName (ts_opts parent),
      po_UserMessage = sc_SystemPrompt cfg, po_Media = [], po_InitialSteeringMessages = sc_InitialMessages cfg,
      po_DefaultResponse = [], po_EnableSummary = False, po_SendResponse = False, po_AllowInterimPicoPublish = False,
      po_SuppressToolFeedback = False, po_NoHistory = True, po_SkipInitialSteeringPoll = True\<rparr>"

definition child_turn :: "subturn_runtime \<Rightarrow> nat \<Rightarrow> turn_state \<Rightarrow> subturn_config \<Rightarrow> string \<Rightarrow> string \<Rightarrow> nat \<Rightarrow> nat \<Rightarrow> turn_state" where
  "child_turn rt p parent cfg childID agentID seq fresh =
     (let opts = child_options parent cfg childID;
          scope = \<lparr>tes_agentID = agentID, tes_sessionKey = childID, tes_turnID = agentID @ ''-turn-'' @ decimal seq\<rparr>;
          child = newTurnState agentID (Some (sessions_of (newEphemeralSession []))) opts scope
      in child\<lparr>ts_cancelFunc := True, ts_critical := sc_Critical cfg, ts_depth := ts_depth parent + 1,
               ts_parentTurnID := ts_turnID parent, ts_parentTurnState := Some p,
               ts_pendingResults := Some \<lparr>rc_cap = 16, rc_buf = [], rc_closed = False\<rparr>,
               ts_concurrencySem := Some (0, nat (rt_maxConcurrent rt)), ts_al := True, ts_session := True,
               ts_tokenBudget :=
                 (case sc_InitialTokenBudget cfg of
                    Some b \<Rightarrow> Some b
                  | None \<Rightarrow>
                      (case ts_tokenBudget parent of
                         Some b \<Rightarrow> Some b
                       | None \<Rightarrow> if rt_defaultTokenBudget rt > 0 then Some fresh else None))\<rparr>)"

text \<open>The checks, and the child that is built when they pass; only its own goroutine knows it so far.\<close>

definition prepare_child :: "subturn_runtime \<Rightarrow> nat \<Rightarrow> sub_state \<Rightarrow> sub_state" where
  "prepare_child rt i s =
     (let sp = su_spawns s ! i; p = sp_parent sp; parent = turn_of s p; cfg = sp_cfg sp
      in case spawn_refused rt parent cfg of
           Some err \<Rightarrow> goto_pc i (SpLeaving None (Some err)) s
         | None \<Rightarrow>
             (let childID = generateSubTurnID (Suc (su_counter s)); s1 = s\<lparr>su_counter := Suc (su_counter s)\<rparr>
              in case base_agent p s of
                   None \<Rightarrow> goto_pc i (SpLeaving None (Some ''parent turnState has no agent instance'')) s1
                 | Some agentID \<Rightarrow>
                     (let c = su_fresh s; seq = Suc (su_turnSeq s);
                          child = child_turn rt p parent cfg childID agentID seq c
                      in upd_spawn i (\<lambda>sp. sp\<lparr>sp_child := Some (childID, c), sp_pc := SpPrepared,
                             sp_timeout := (if sc_Timeout cfg \<le> 0 then rt_defaultTimeout rt else sc_Timeout cfg)\<rparr>)
                           (upd_loop (\<lambda>l. upd_turn c (\<lambda>_. child)
                                 (l\<lparr>al_stores := (al_stores l)(c := sessions_of (newEphemeralSession [])),
                                    al_storeOf := (al_storeOf l)(c := c)\<rparr>))
                             (s1\<lparr>su_turnSeq := seq, su_fresh := Suc c, su_agentOf := (su_agentOf s)(c := Some agentID),
                                 su_budgets := (su_budgets s)(c := rt_defaultTokenBudget rt)\<rparr>)))))"

definition store_child :: "nat \<Rightarrow> sub_state \<Rightarrow> sub_state option" where
  "store_child i s =
     (case sp_child (su_spawns s ! i) of
        None \<Rightarrow> None
      | Some (childID, c) \<Rightarrow>
          Some (goto_pc i SpStored (upd_loop (\<lambda>l. l\<lparr>al_active := AList.update childID c (al_active l)\<rparr>) s)))"

definition link_child :: "nat \<Rightarrow> sub_state \<Rightarrow> sub_state option" where
  "link_child i s =
     (let sp = su_spawns s ! i
      in case sp_child sp of
           None \<Rightarrow> None
         | Some (childID, c) \<Rightarrow>
             Some (goto_pc i SpLinked
               (upd_loop (upd_turn (sp_parent sp) (\<lambda>ts. ts\<lparr>ts_childTurnIDs := ts_childTurnIDs ts @ [childID]\<rparr>)) s)))"

definition announce_child :: "nat \<Rightarrow> sub_state \<Rightarrow> sub_state option" where
  "announce_child i s =
     (let sp = su_spawns s ! i
      in case sp_child sp of
           None \<Rightarrow> None
         | Some (childID, c) \<Rightarrow>
             (let child = turn_of s c
              in Some (goto_pc i SpReady
                   (upd_loop (al_emit EventKindSubTurnSpawn (eventMeta child ''spawnSubTurn'' ''subturn.spawn'')
                      (SubTurnSpawnPayload (ts_agentID child) childID (ts_turnID (turn_of s (sp_parent sp))))) s))))"

text \<open>\<^verbatim>\<open>runTurn\<close> registers the turn on its way in and clears it on its way out.\<close>

definition start_run :: "nat \<Rightarrow> sub_state \<Rightarrow> sub_state option" where
  "start_run i s =
     (case sp_child (su_spawns s ! i) of
        None \<Rightarrow> None
      | Some (childID, c) \<Rightarrow> Some (goto_pc i SpRunning (upd_loop (registerActiveTurn c) s)))"

definition end_run :: "nat \<Rightarrow> run_outcome \<Rightarrow> sub_state \<Rightarrow> sub_state option" where
  "end_run i out s =
     (case sp_child (su_spawns s ! i) of
        None \<Rightarrow> None
      | Some (childID, c) \<Rightarrow> Some (goto_pc i (SpRan out) (upd_loop (clearActiveTurn c) s)))"

text \<open>The slot is given back right after the run, before the cleanup; a panic goes to the cleanup with its slot.\<close>

definition after_run :: "nat \<Rightarrow> run_outcome \<Rightarrow> sub_state \<Rightarrow> sub_state" where
  "after_run i out s =
     (case out of
        RunPanic r \<Rightarrow> goto_pc i (SpCleanup None (Some (''subturn panicked: '' @ r))) s
      | RunErr err \<Rightarrow>
          goto_pc i (SpCleanup (Some ((newToolResult (''SubTurn failed: '' @ err))\<lparr>tr_Err := Some err\<rparr>)) (Some err))
            (release_slot i s)
      | RunOk content \<Rightarrow>
          goto_pc i (SpCleanup (Some ((newToolResult content)\<lparr>tr_ForUser := content\<rparr>)) None) (release_slot i s))"

section \<open>Delivery\<close>

text \<open>An orphan is reported when there is a result to report.\<close>

definition report_orphan :: "nat \<Rightarrow> string \<Rightarrow> sub_state \<Rightarrow> sub_state" where
  "report_orphan i reason s =
     (let sp = su_spawns s ! i; parent = turn_of s (sp_parent sp)
      in upd_loop (al_emit EventKindSubTurnOrphan (eventMeta parent ''deliverSubTurnResult'' ''subturn.orphan'')
           (SubTurnOrphanPayload (ts_turnID parent) (case sp_child sp of None \<Rightarrow> [] | Some (childID, _) \<Rightarrow> childID) reason)) s)"

definition orphan :: "nat \<Rightarrow> string \<Rightarrow> tool_result option \<Rightarrow> string option \<Rightarrow> sub_state \<Rightarrow> sub_state" where
  "orphan i reason res err s =
     upd_spawn i (\<lambda>sp. sp\<lparr>sp_fate := Some FateOrphan, sp_pc := SpDelivered res err\<rparr>)
       (if res \<noteq> None then report_orphan i reason s else s)"

text \<open>First look at the parent, under its lock; a synchronous spawn delivers nothing.\<close>

definition look_at_parent :: "nat \<Rightarrow> tool_result option \<Rightarrow> string option \<Rightarrow> sub_state \<Rightarrow> sub_state" where
  "look_at_parent i res err s =
     (let sp = su_spawns s ! i; parent = turn_of s (sp_parent sp)
      in if \<not> sc_Async (sp_cfg sp) then goto_pc i (SpDelivered res err) s
         else if ts_isFinished parent \<or> ts_pendingResults parent = None then orphan i ''parent_finished'' res err s
         else goto_pc i (SpSending res err) s)"

text \<open>Room in the channel: the result goes in. Reporting a nil result panics, which the cleanup recovers.\<close>

definition send_result :: "nat \<Rightarrow> tool_result option \<Rightarrow> string option \<Rightarrow> sub_state \<Rightarrow> sub_state option" where
  "send_result i res err s =
     (let p = sp_parent (su_spawns s ! i); parent = turn_of s p
      in case ts_pendingResults parent of
           None \<Rightarrow> None
         | Some ch \<Rightarrow>
             if rc_closed ch then Some (orphan i ''panic'' res err s)
             else if length (rc_buf ch) < rc_cap ch
             then Some (upd_spawn i (\<lambda>sp. sp\<lparr>sp_fate := Some FateSent, sp_pc := SpDelivered res err\<rparr>)
                    (upd_loop (\<lambda>l. case res of
                          None \<Rightarrow> l
                        | Some r \<Rightarrow> al_emit EventKindSubTurnResultDelivered
                            (eventMeta parent ''deliverSubTurnResult'' ''subturn.result_delivered'')
                            (SubTurnResultDeliveredPayload (length (tr_ForLLM r))) l)
                      (upd_loop (upd_turn p (\<lambda>ts. ts\<lparr>ts_pendingResults := Some (ch\<lparr>rc_buf := rc_buf ch @ [res]\<rparr>)\<rparr>)) s)))
             else None)"

definition parent_gone :: "nat \<Rightarrow> tool_result option \<Rightarrow> string option \<Rightarrow> sub_state \<Rightarrow> sub_state option" where
  "parent_gone i res err s =
     (if ts_finishedChan (turn_of s (sp_parent (su_spawns s ! i))) = Some True
      then Some (orphan i ''parent_finished_waiting'' res err s) else None)"

text \<open>The rest of the cleanup: the event, the child leaves the map of active turns, its context is cancelled.\<close>

definition end_spawn :: "nat \<Rightarrow> tool_result option \<Rightarrow> string option \<Rightarrow> sub_state \<Rightarrow> sub_state option" where
  "end_spawn i res err s =
     (case sp_child (su_spawns s ! i) of
        None \<Rightarrow> None
      | Some (childID, c) \<Rightarrow>
          (let child = turn_of s c; status = (if err = None then ''completed'' else ''error'')
           in Some (goto_pc i (SpLeaving res err)
                (upd_loop (upd_turn c (\<lambda>ts. ts\<lparr>ts_cancelled := True\<rparr>))
                  (upd_loop (\<lambda>l. l\<lparr>al_active := AList.delete childID (al_active l)\<rparr>)
                    (upd_loop (al_emit EventKindSubTurnEnd (eventMeta child ''spawnSubTurn'' ''subturn.end'')
                       (SubTurnEndPayload (ts_agentID child) status)) s))))))"

definition leave_spawn :: "nat \<Rightarrow> tool_result option \<Rightarrow> string option \<Rightarrow> sub_state \<Rightarrow> sub_state" where
  "leave_spawn i res err s = goto_pc i (SpDone res err) (release_slot i s)"

text \<open>The parent takes one result from its channel, as a turn does when it polls.\<close>

definition take_result :: "nat \<Rightarrow> sub_state \<Rightarrow> sub_state option" where
  "take_result p s =
     (case ts_pendingResults (turn_of s p) of
        Some ch \<Rightarrow>
          (case rc_buf ch of
             [] \<Rightarrow> None
           | r # rest \<Rightarrow>
               Some (upd_loop (upd_turn p (\<lambda>ts. ts\<lparr>ts_pendingResults := Some (ch\<lparr>rc_buf := rest\<rparr>)\<rparr>))
                 (s\<lparr>su_taken := (su_taken s)(p := su_taken s p @ [r])\<rparr>)))
      | None \<Rightarrow> None)"

section \<open>All the steps\<close>

datatype sub_action =
    ActCall nat subturn_config
  | ActStep nat
  | ActGiveUp nat "string option"
  | ActEndRun nat run_outcome
  | ActParentGone nat
  | ActTake nat
  | ActClose nat bool

text \<open>\<open>ActStep\<close> is the next statement of a spawn; the other actions on a spawn are the choices of the environment.
  A turn that finishes (\<open>ActClose\<close>) and the turns its cascade reaches close one by one, in any order.\<close>

definition spawn_step :: "subturn_runtime \<Rightarrow> nat \<Rightarrow> sub_state \<Rightarrow> sub_state option" where
  "spawn_step rt i s =
     (case sp_pc (su_spawns s ! i) of
        SpWaiting \<Rightarrow> acquire_slot i s
      | SpEntered \<Rightarrow> Some (prepare_child rt i s)
      | SpPrepared \<Rightarrow> store_child i s
      | SpStored \<Rightarrow> link_child i s
      | SpLinked \<Rightarrow> announce_child i s
      | SpReady \<Rightarrow> start_run i s
      | SpRunning \<Rightarrow> None
      | SpRan out \<Rightarrow> Some (after_run i out s)
      | SpCleanup res err \<Rightarrow> Some (look_at_parent i res err s)
      | SpSending res err \<Rightarrow> send_result i res err s
      | SpDelivered res err \<Rightarrow> end_spawn i res err s
      | SpLeaving res err \<Rightarrow> Some (leave_spawn i res err s)
      | SpDone res err \<Rightarrow> None)"

fun sub_step :: "(int \<Rightarrow> string) \<Rightarrow> subturn_runtime \<Rightarrow> sub_action \<Rightarrow> sub_state \<Rightarrow> sub_state option" where
  "sub_step fmtD rt (ActCall p cfg) s = (if p < su_fresh s then Some (call_spawn p cfg s) else None)"
| "sub_step fmtD rt (ActStep i) s = (if i < length (su_spawns s) then spawn_step rt i s else None)"
| "sub_step fmtD rt (ActGiveUp i ctxErr) s =
     (if i < length (su_spawns s) \<and> sp_pc (su_spawns s ! i) = SpWaiting
      then Some (goto_pc i (SpLeaving None (Some (wait_error fmtD rt ctxErr))) s) else None)"
| "sub_step fmtD rt (ActEndRun i out) s =
     (if i < length (su_spawns s) \<and> sp_pc (su_spawns s ! i) = SpRunning then end_run i out s else None)"
| "sub_step fmtD rt (ActParentGone i) s =
     (if i < length (su_spawns s)
      then (case sp_pc (su_spawns s ! i) of SpSending res err \<Rightarrow> parent_gone i res err s | _ \<Rightarrow> None) else None)"
| "sub_step fmtD rt (ActTake p) s = take_result p s"
| "sub_step fmtD rt (ActClose p hard) s = Some (upd_loop (upd_turn p (close_turn hard)) s)"

inductive sub_reachable :: "(int \<Rightarrow> string) \<Rightarrow> subturn_runtime \<Rightarrow> sub_state \<Rightarrow> sub_state \<Rightarrow> bool" for fmtD rt s0 where
  sub_init: "sub_reachable fmtD rt s0 s0"
| sub_next: "sub_reachable fmtD rt s0 s \<Longrightarrow> sub_step fmtD rt a s = Some s' \<Longrightarrow> sub_reachable fmtD rt s0 s'"

end
