(* ===== verification/SubTurnInv.thy ===== *)
theory SubTurnInv
  imports SubTurn "HOL-Library.Multiset"
begin

text \<open>
  The invariants of the sub-turns: the semaphore of a turn counts the spawns that hold a slot, the life of
  one spawn, the tree of parents and children, and the fate of every result. Each invariant looks at a view of the
  state; a step that leaves the view alone keeps the invariant. At the end, what holds in every reachable state.
\<close>

section \<open>Slots\<close>

lemma upd_sel [simp]:
  "su_spawns (upd_loop f s) = su_spawns s" "su_loop (upd_loop f s) = f (su_loop s)"
  "su_spawns (upd_spawn i g s) = (su_spawns s)[i := g (su_spawns s ! i)]" "su_loop (upd_spawn i g s) = su_loop s"
  "su_fresh (upd_loop f s) = su_fresh s" "su_fresh (upd_spawn i g s) = su_fresh s"
  "su_counter (upd_loop f s) = su_counter s" "su_counter (upd_spawn i g s) = su_counter s"
  "su_taken (upd_loop f s) = su_taken s" "su_taken (upd_spawn i g s) = su_taken s"
  by (simp_all add: upd_loop_def upd_spawn_def)

lemma al_sel [simp]:
  "al_heap (al_emit k m p l) = al_heap l" "al_active (al_emit k m p l) = al_active l"
  "al_active (upd_turn q h l) = al_active l"
  "al_heap (upd_turn q h l) r = (if r = q then h (al_heap l q) else al_heap l r)"
  "al_heap (registerActiveTurn c l) = al_heap l" "al_heap (clearActiveTurn c l) = al_heap l"
  by (simp_all add: al_emit_def upd_turn_def registerActiveTurn_def clearActiveTurn_def)

lemma map_same_update: "g x = g (xs ! i) \<Longrightarrow> map g (xs[i := x]) = map g xs"
  by (metis list_update_id map_update)

text \<open>What the invariant of the slots looks at, so that a step that leaves it alone keeps the invariant.\<close>

definition slot_spawns :: "sub_state \<Rightarrow> (nat \<times> bool) list" where
  "slot_spawns s = map (\<lambda>sp. (sp_parent sp, sp_sem sp)) (su_spawns s)"

definition slot_sems :: "sub_state \<Rightarrow> nat \<Rightarrow> (nat \<times> nat) option" where
  "slot_sems s = (\<lambda>p. ts_concurrencySem (turn_of s p))"

definition holders :: "nat \<Rightarrow> (nat \<times> bool) list \<Rightarrow> nat" where
  "holders p xs = length (filter (\<lambda>x. x = (p, True)) xs)"

definition slots_fit :: "(nat \<times> bool) list \<Rightarrow> (nat \<Rightarrow> (nat \<times> nat) option) \<Rightarrow> bool" where
  "slots_fit xs f \<longleftrightarrow>
     (\<forall>p. case f p of None \<Rightarrow> holders p xs = 0 | Some (used, slots) \<Rightarrow> used = holders p xs \<and> used \<le> slots \<and> 0 < slots)"

definition slots_ok :: "sub_state \<Rightarrow> bool" where
  "slots_ok s \<longleftrightarrow> slots_fit (slot_spawns s) (slot_sems s)"

lemma length_filter_update: "i < length xs \<Longrightarrow>
    length (filter P (xs[i := x])) + (if P (xs ! i) then 1 else 0) = length (filter P xs) + (if P x then 1 else 0)"
proof (induction xs arbitrary: i)
  case (Cons a xs)
  then show ?case by (cases i) auto
qed simp

lemma holders_update: "i < length xs \<Longrightarrow>
    holders p (xs[i := x]) + (if xs ! i = (p, True) then 1 else 0) = holders p xs + (if x = (p, True) then 1 else 0)"
  unfolding holders_def by (rule length_filter_update)

lemma holders_pos: "i < length xs \<Longrightarrow> xs ! i = (p, True) \<Longrightarrow> 0 < holders p xs"
  using nth_mem [of i xs] by (auto simp: holders_def filter_empty_conv)

lemma slots_take:
  assumes "slots_fit xs f" "i < length xs" "xs ! i = (p, False)" "f p = Some (used, slots)" "used < slots"
  shows "slots_fit (xs[i := (p, True)]) (f(p := Some (Suc used, slots)))"
proof -
  have "holders q (xs[i := (p, True)]) = (if q = p then Suc (holders p xs) else holders q xs)" for q
    using holders_update [OF assms(2), of q "(p, True)"] assms(3) by (auto split: if_splits)
  then show ?thesis using assms(1,4,5) unfolding slots_fit_def by (force split: option.splits)
qed

lemma slots_release:
  assumes "slots_fit xs f" "i < length xs" "xs ! i = (p, True)"
  shows "slots_fit (xs[i := (p, False)]) (f(p := map_option (\<lambda>(used, slots). (used - 1, slots)) (f p)))"
proof -
  have h: "holders q (xs[i := (p, False)]) = (if q = p then holders p xs - 1 else holders q xs)" for q
    using holders_update [OF assms(2), of q "(p, False)"] assms(3) by (auto split: if_splits)
  show ?thesis
    unfolding slots_fit_def
  proof
    fix q
    show "case (f(p := map_option (\<lambda>(used, slots). (used - 1, slots)) (f p))) q of
        None \<Rightarrow> holders q (xs[i := (p, False)]) = 0
      | Some (used, slots) \<Rightarrow> used = holders q (xs[i := (p, False)]) \<and> used \<le> slots \<and> 0 < slots"
      using assms(1) [unfolded slots_fit_def, rule_format, of q] unfolding h by (auto split: option.splits prod.splits)
  qed
qed

lemma slots_new_turn: "slots_fit xs f \<Longrightarrow> holders c xs = 0 \<Longrightarrow> 0 < n \<Longrightarrow> slots_fit xs (f(c := Some (0, n)))"
  by (auto simp: slots_fit_def)

lemma slots_call: "slots_fit xs f \<Longrightarrow> slots_fit (xs @ [(p, False)]) f"
proof -
  have h: "holders q (xs @ [(p, False)]) = holders q xs" for q by (simp add: holders_def)
  show "slots_fit xs f \<Longrightarrow> slots_fit (xs @ [(p, False)]) f" unfolding slots_fit_def h .
qed

lemma slots_acquire_slot:
  assumes "slots_ok s" "acquire_slot i s = Some s'" "i < length (su_spawns s)" "\<not> sp_sem (su_spawns s ! i)"
  shows "slots_ok s'"
proof -
  define p where "p = sp_parent (su_spawns s ! i)"
  obtain used slots where u: "ts_concurrencySem (turn_of s p) = Some (used, slots)" "used < slots"
    and s': "s' = upd_spawn i (\<lambda>sp. sp\<lparr>sp_sem := True, sp_pc := SpEntered\<rparr>)
                    (upd_loop (upd_turn p (\<lambda>ts. ts\<lparr>ts_concurrencySem := Some (Suc used, slots)\<rparr>)) s)"
    using assms(2) by (auto simp: acquire_slot_def Let_def p_def split: option.splits if_splits)
  have "slot_spawns s' = (slot_spawns s)[i := (p, True)]" "slot_sems s' = (slot_sems s)(p := Some (Suc used, slots))"
    by (auto simp: s' slot_spawns_def slot_sems_def map_update fun_eq_iff p_def)
  then show ?thesis
    using slots_take [of "slot_spawns s" "slot_sems s" i p used slots] assms u
    by (simp add: slots_ok_def) (simp add: slot_spawns_def slot_sems_def p_def)
qed

lemma slots_release_slot:
  assumes "slots_ok s" "i < length (su_spawns s)"
  shows "slots_ok (release_slot i s)"
proof (cases "sp_sem (su_spawns s ! i)")
  case True
  define p where "p = sp_parent (su_spawns s ! i)"
  have "slot_spawns (release_slot i s) = (slot_spawns s)[i := (p, False)]"
    "slot_sems (release_slot i s) = (slot_sems s)(p := map_option (\<lambda>(used, slots). (used - 1, slots)) (slot_sems s p))"
    using True by (auto simp: release_slot_def slot_spawns_def slot_sems_def map_update fun_eq_iff p_def)
  then show ?thesis
    using slots_release [of "slot_spawns s" "slot_sems s" i p] assms True
    by (simp add: slots_ok_def) (simp add: slot_spawns_def p_def)
qed (use assms in \<open>simp add: release_slot_def\<close>)

lemma slots_frame: "slots_ok s \<Longrightarrow> slot_spawns s' = slot_spawns s \<Longrightarrow> slot_sems s' = slot_sems s \<Longrightarrow> slots_ok s'"
  by (simp add: slots_ok_def)

lemma slots_goto [simp]: "slots_ok (goto_pc i pc s) = slots_ok s"
  by (simp add: slots_ok_def goto_pc_def slot_spawns_def slot_sems_def map_same_update)

section \<open>The life of a spawn\<close>

text \<open>A slot is held from the acquisition to the end of the run, and to the very end only after a panic, which
  leaves no result.\<close>

definition spawn_ok :: "nat \<Rightarrow> spawn \<Rightarrow> bool" where
  "spawn_ok fresh sp \<longleftrightarrow>
     sp_parent sp < fresh \<and>
     (case sp_pc sp of
        SpWaiting \<Rightarrow> sp_child sp = None \<and> sp_fate sp = None \<and> \<not> sp_sem sp
      | SpEntered \<Rightarrow> sp_child sp = None \<and> sp_fate sp = None
      | SpCleanup res err \<Rightarrow> sp_child sp \<noteq> None \<and> sp_fate sp = None \<and> (sp_sem sp \<longrightarrow> res = None) \<and> (res = None \<longrightarrow> err \<noteq> None)
      | SpSending res err \<Rightarrow>
          sp_child sp \<noteq> None \<and> sp_fate sp = None \<and> sc_Async (sp_cfg sp) \<and> (sp_sem sp \<longrightarrow> res = None) \<and> (res = None \<longrightarrow> err \<noteq> None)
      | SpDelivered res err \<Rightarrow>
          sp_child sp \<noteq> None \<and> (sp_fate sp \<noteq> None \<longleftrightarrow> sc_Async (sp_cfg sp)) \<and> (sp_sem sp \<longrightarrow> res = None) \<and> (res = None \<longrightarrow> err \<noteq> None)
      | SpLeaving res err \<Rightarrow>
          (sp_fate sp \<noteq> None \<longleftrightarrow> sp_child sp \<noteq> None \<and> sc_Async (sp_cfg sp)) \<and> (sp_sem sp \<longrightarrow> res = None) \<and> (res = None \<longrightarrow> err \<noteq> None)
      | SpDone res err \<Rightarrow>
          (sp_fate sp \<noteq> None \<longleftrightarrow> sp_child sp \<noteq> None \<and> sc_Async (sp_cfg sp)) \<and> \<not> sp_sem sp \<and> (res = None \<longrightarrow> err \<noteq> None)
      | _ \<Rightarrow> sp_child sp \<noteq> None \<and> sp_fate sp = None)"

definition spawns_ok :: "sub_state \<Rightarrow> bool" where
  "spawns_ok s \<longleftrightarrow> list_all (spawn_ok (su_fresh s)) (su_spawns s)"

lemma list_all_update: "list_all P xs \<Longrightarrow> P x \<Longrightarrow> list_all P (xs[i := x])"
  using set_update_subset_insert [of xs i x] by (auto simp: list_all_iff)

lemma spawn_ok_grow: "spawn_ok n sp \<Longrightarrow> n \<le> m \<Longrightarrow> spawn_ok m sp"
  by (auto simp: spawn_ok_def)

lemma spawns_ok_nth: "spawns_ok s \<Longrightarrow> i < length (su_spawns s) \<Longrightarrow> spawn_ok (su_fresh s) (su_spawns s ! i)"
  by (simp add: spawns_ok_def list_all_length)

lemma release_spawn: "i < length (su_spawns s) \<Longrightarrow>
    su_spawns (release_slot i s) = (su_spawns s)[i := (su_spawns s ! i)\<lparr>sp_sem := False\<rparr>]"
  by (rule sym, cases "su_spawns s ! i") (auto simp: release_slot_def list_update_same_conv)

lemma release_sel [simp]:
  "su_fresh (release_slot i s) = su_fresh s" "su_counter (release_slot i s) = su_counter s"
  "su_taken (release_slot i s) = su_taken s" "al_active (su_loop (release_slot i s)) = al_active (su_loop s)"
  by (simp_all add: release_slot_def)

lemma orphan_spawn:
  "su_spawns (orphan i reason res err s) = (su_spawns s)[i := (su_spawns s ! i)\<lparr>sp_fate := Some FateOrphan, sp_pc := SpDelivered res err\<rparr>]"
  "su_fresh (orphan i reason res err s) = su_fresh s"
  by (simp_all add: orphan_def report_orphan_def Let_def)

lemmas step_defs = prepare_child_def store_child_def link_child_def announce_child_def start_run_def end_run_def after_run_def
  look_at_parent_def send_result_def parent_gone_def end_spawn_def leave_spawn_def take_result_def acquire_slot_def
  goto_pc_def Let_def

lemma prepare_spawn:
  "\<exists>sp. su_spawns (prepare_child rt i s) = (su_spawns s)[i := sp] \<and> sp_parent sp = sp_parent (su_spawns s ! i)
     \<and> sp_cfg sp = sp_cfg (su_spawns s ! i) \<and> sp_sem sp = sp_sem (su_spawns s ! i) \<and> sp_fate sp = sp_fate (su_spawns s ! i)
     \<and> (sp_pc sp = SpPrepared \<and> sp_child sp = Some (generateSubTurnID (Suc (su_counter s)), su_fresh s)
        \<or> sp_child sp = sp_child (su_spawns s ! i) \<and> (\<exists>err. sp_pc sp = SpLeaving None (Some err)))"
  by (auto simp: prepare_child_def Let_def goto_pc_def split: option.splits)

lemma prepare_fresh: "su_fresh s \<le> su_fresh (prepare_child rt i s)"
  by (auto simp: prepare_child_def Let_def goto_pc_def split: option.splits)

lemma spawns_ok_prepare: "spawns_ok s \<Longrightarrow> i < length (su_spawns s) \<Longrightarrow> sp_pc (su_spawns s ! i) = SpEntered \<Longrightarrow>
    spawns_ok (prepare_child rt i s)"
  using spawns_ok_nth [of s i] prepare_spawn [of rt i s] prepare_fresh [of s rt i]
  by (auto simp: spawns_ok_def intro!: list_all_update elim!: list.pred_mono_strong intro: spawn_ok_grow)
    (auto simp: spawn_ok_def)

lemma spawns_ok_step:
  assumes "spawns_ok s" "i < length (su_spawns s)" "spawn_step rt i s = Some s'"
  shows "spawns_ok s'"
proof -
  note o = spawns_ok_nth [OF assms(1,2)]
  show ?thesis
  proof (cases "sp_pc (su_spawns s ! i)")
    case SpEntered
    then show ?thesis using assms spawns_ok_prepare [OF assms(1,2)] by (auto simp: spawn_step_def)
  next
    case (SpRan out)
    then show ?thesis
      using assms o by (cases out) (auto simp: spawn_step_def step_defs spawns_ok_def release_spawn spawn_ok_def intro!: list_all_update)
  next
    case (SpCleanup res err)
    then show ?thesis
      using assms o by (auto simp: spawn_step_def step_defs spawns_ok_def orphan_spawn spawn_ok_def intro!: list_all_update)
  next
    case (SpSending res err)
    then show ?thesis
      using assms o by (auto simp: spawn_step_def step_defs spawns_ok_def orphan_spawn spawn_ok_def intro!: list_all_update
          split: option.splits if_splits)
  qed (use assms o in \<open>auto simp: spawn_step_def step_defs spawns_ok_def spawn_ok_def release_spawn intro!: list_all_update
          split: option.splits if_splits\<close>)
qed

lemma spawn_same: "g (f (su_spawns s ! i)) = g (su_spawns s ! i) \<Longrightarrow> map g (su_spawns (upd_spawn i f s)) = map g (su_spawns s)"
  by (simp add: map_same_update)

lemma slots_ok_loop: "slots_ok s \<Longrightarrow> (\<And>q. ts_concurrencySem (al_heap (f (su_loop s)) q) = ts_concurrencySem (turn_of s q)) \<Longrightarrow>
    slots_ok (upd_loop f s)"
  by (simp add: slots_ok_def slot_spawns_def slot_sems_def)

lemma slots_ok_spawn: "slots_ok s \<Longrightarrow> sp_parent (f (su_spawns s ! i)) = sp_parent (su_spawns s ! i) \<Longrightarrow>
    sp_sem (f (su_spawns s ! i)) = sp_sem (su_spawns s ! i) \<Longrightarrow> slots_ok (upd_spawn i f s)"
  by (simp add: slots_ok_def slot_spawns_def slot_sems_def map_same_update)

lemma no_holder: "spawns_ok s \<Longrightarrow> su_fresh s \<le> c \<Longrightarrow> holders c (slot_spawns s) = 0"
  by (auto simp: spawns_ok_def spawn_ok_def list_all_iff holders_def slot_spawns_def filter_empty_conv)

lemma child_turn_fields [simp]:
  "ts_concurrencySem (child_turn rt p parent cfg childID agentID seq fresh) = Some (0, nat (rt_maxConcurrent rt))"
  "ts_depth (child_turn rt p parent cfg childID agentID seq fresh) = ts_depth parent + 1"
  "ts_childTurnIDs (child_turn rt p parent cfg childID agentID seq fresh) = []"
  "ts_sessionKey (child_turn rt p parent cfg childID agentID seq fresh) = childID"
  "ts_parentTurnState (child_turn rt p parent cfg childID agentID seq fresh) = Some p"
  "ts_al (child_turn rt p parent cfg childID agentID seq fresh)"
  "ts_cancelFunc (child_turn rt p parent cfg childID agentID seq fresh)"
  "ts_pendingResults (child_turn rt p parent cfg childID agentID seq fresh) = Some \<lparr>rc_cap = 16, rc_buf = [], rc_closed = False\<rparr>"
  by (simp_all add: child_turn_def Let_def newTurnState_def child_options_def)

text \<open>What preparing a child does to the state: nothing but the counter, or the whole child.\<close>

lemma prepare_cases:
  assumes "i < length (su_spawns s)"
  obtains (refused) err where "su_spawns (prepare_child rt i s) = (su_spawns s)[i := (su_spawns s ! i)\<lparr>sp_pc := SpLeaving None (Some err)\<rparr>]"
      "su_loop (prepare_child rt i s) = su_loop s" "su_fresh (prepare_child rt i s) = su_fresh s"
      "su_counter s \<le> su_counter (prepare_child rt i s)" "su_taken (prepare_child rt i s) = su_taken s"
  | (built) agentID t where "su_spawns (prepare_child rt i s) = (su_spawns s)[i := (su_spawns s ! i)\<lparr>
        sp_child := Some (generateSubTurnID (Suc (su_counter s)), su_fresh s), sp_pc := SpPrepared, sp_timeout := t\<rparr>]"
      "al_heap (su_loop (prepare_child rt i s)) = (turn_of s)(su_fresh s :=
          child_turn rt (sp_parent (su_spawns s ! i)) (turn_of s (sp_parent (su_spawns s ! i))) (sp_cfg (su_spawns s ! i))
            (generateSubTurnID (Suc (su_counter s))) agentID (Suc (su_turnSeq s)) (su_fresh s))"
      "al_active (su_loop (prepare_child rt i s)) = al_active (su_loop s)"
      "ts_depth (turn_of s (sp_parent (su_spawns s ! i))) < rt_maxDepth rt"
      "su_fresh (prepare_child rt i s) = Suc (su_fresh s)" "su_counter (prepare_child rt i s) = Suc (su_counter s)"
      "su_taken (prepare_child rt i s) = su_taken s"
proof (cases "spawn_refused rt (turn_of s (sp_parent (su_spawns s ! i))) (sp_cfg (su_spawns s ! i))")
  case (Some err)
  show ?thesis by (rule refused) (simp_all add: Some prepare_child_def Let_def goto_pc_def)
next
  case None
  show ?thesis
  proof (cases "base_agent (sp_parent (su_spawns s ! i)) s")
    case None': None
    show ?thesis by (rule refused) (simp_all add: None None' prepare_child_def Let_def goto_pc_def)
  next
    case (Some agentID)
    have "ts_depth (turn_of s (sp_parent (su_spawns s ! i))) < rt_maxDepth rt"
      using None by (simp add: spawn_refused_def split: if_splits)
    then show ?thesis
      by (intro built) (simp_all add: None Some prepare_child_def Let_def upd_turn_def fun_eq_iff)
  qed
qed

lemma slots_ok_prepare:
  assumes "slots_ok s" "spawns_ok s" "i < length (su_spawns s)" "0 < rt_maxConcurrent rt"
  shows "slots_ok (prepare_child rt i s)"
  using assms(3)
proof (cases rule: prepare_cases [of i s rt])
  case (refused err)
  then show ?thesis using assms(1) by (simp add: slots_ok_def slot_spawns_def slot_sems_def map_same_update)
next
  case (built agentID t)
  have "slot_spawns (prepare_child rt i s) = slot_spawns s" by (simp add: slot_spawns_def built map_same_update)
  moreover have "slot_sems (prepare_child rt i s) = (slot_sems s)(su_fresh s := Some (0, nat (rt_maxConcurrent rt)))"
    by (auto simp: slot_sems_def built)
  ultimately show ?thesis
    using slots_new_turn [of "slot_spawns s" "slot_sems s"] assms(1,4) no_holder [OF assms(2)] by (simp add: slots_ok_def)
qed

lemma slots_ok_orphan: "slots_ok s \<Longrightarrow> slots_ok (orphan i reason res err s)"
  by (simp add: orphan_def report_orphan_def Let_def slots_ok_spawn slots_ok_loop)

lemma slots_ok_step:
  assumes "slots_ok s" "spawns_ok s" "i < length (su_spawns s)" "spawn_step rt i s = Some s'" "0 < rt_maxConcurrent rt"
  shows "slots_ok s'"
proof -
  note o = spawns_ok_nth [OF assms(2,3)]
  show ?thesis
  proof (cases "sp_pc (su_spawns s ! i)")
    case SpWaiting
    then show ?thesis using assms slots_acquire_slot [OF assms(1) _ assms(3)] o by (auto simp: spawn_step_def spawn_ok_def)
  next
    case SpEntered
    then show ?thesis using assms slots_ok_prepare [OF assms(1-3,5)] by (auto simp: spawn_step_def)
  next
    case (SpRan out)
    then show ?thesis using assms by (cases out) (auto simp: spawn_step_def after_run_def slots_release_slot)
  next
    case (SpSending res err)
    then show ?thesis
      using assms by (auto simp: spawn_step_def send_result_def Let_def split: option.splits if_splits
          intro!: slots_ok_orphan slots_ok_spawn slots_ok_loop)
  qed (use assms in \<open>auto simp: spawn_step_def store_child_def link_child_def announce_child_def start_run_def
        look_at_parent_def end_spawn_def leave_spawn_def slots_release_slot Let_def split: option.splits if_splits
        intro!: slots_ok_orphan slots_ok_loop\<close>)
qed

section \<open>Parents and children\<close>

definition children :: "sub_state \<Rightarrow> (nat \<times> string \<times> nat) set" where
  "children s = {(p, i, c). \<exists>sp\<in>set (su_spawns s). sp_parent sp = p \<and> sp_child sp = Some (i, c)}"

text \<open>Each child is one level below its parent and registered under a name that no other turn has.\<close>

definition kids_ok :: "int \<Rightarrow> sub_state \<Rightarrow> bool" where
  "kids_ok maxDepth s \<longleftrightarrow>
     (\<forall>p i c. (p, i, c) \<in> children s \<longrightarrow>
        p < su_fresh s \<and> c < su_fresh s \<and> (\<exists>n\<le>su_counter s. i = generateSubTurnID n) \<and> ts_sessionKey (turn_of s c) = i
        \<and> ts_depth (turn_of s c) = ts_depth (turn_of s p) + 1 \<and> ts_depth (turn_of s c) \<le> maxDepth)
     \<and> (\<forall>p i c p' c'. (p, i, c) \<in> children s \<longrightarrow> (p', i, c') \<in> children s \<longrightarrow> p' = p \<and> c' = c)
     \<and> (\<forall>r i. i \<in> set (ts_childTurnIDs (turn_of s r)) \<longrightarrow> (\<exists>c. (r, i, c) \<in> children s))
     \<and> (\<forall>n c. map_of (al_active (su_loop s)) (generateSubTurnID n) = Some c \<longrightarrow> (\<exists>p. (p, generateSubTurnID n, c) \<in> children s))"

lemma kids_levelled: "kids_ok maxDepth s \<Longrightarrow> levelled maxDepth (su_loop s)"
  unfolding levelled_def
proof (intro allI impI)
  fix r i c
  assume k: "kids_ok maxDepth s" and i: "i \<in> set (ts_childTurnIDs (turn_of s r))" and c: "map_of (al_active (su_loop s)) i = Some c"
  obtain c' where c': "(r, i, c') \<in> children s" using k i unfolding kids_ok_def by blast
  then obtain n where n: "i = generateSubTurnID n" using k unfolding kids_ok_def by blast
  then obtain p where "(p, i, c) \<in> children s" using k c unfolding kids_ok_def by blast
  then have "(r, i, c) \<in> children s" using k c' unfolding kids_ok_def by blast
  then show "ts_depth (turn_of s c) = ts_depth (turn_of s r) + 1 \<and> ts_depth (turn_of s c) \<le> maxDepth"
    using k unfolding kids_ok_def by blast
qed

text \<open>A step that builds no child may register a child, forget one, or link one to its parent.\<close>

lemma kids_frame:
  assumes "kids_ok maxDepth s" "children s' = children s" "su_fresh s \<le> su_fresh s'" "su_counter s \<le> su_counter s'"
    "\<And>q. ts_sessionKey (turn_of s' q) = ts_sessionKey (turn_of s q) \<and> ts_depth (turn_of s' q) = ts_depth (turn_of s q)"
    "\<And>q i. i \<in> set (ts_childTurnIDs (turn_of s' q)) \<Longrightarrow> i \<in> set (ts_childTurnIDs (turn_of s q)) \<or> (\<exists>c. (q, i, c) \<in> children s)"
    "\<And>i c. map_of (al_active (su_loop s')) i = Some c \<Longrightarrow>
        map_of (al_active (su_loop s)) i = Some c \<or> (\<exists>p. (p, i, c) \<in> children s)"
  shows "kids_ok maxDepth s'"
proof -
  note k = assms(1) [unfolded kids_ok_def]
  show ?thesis
    unfolding kids_ok_def assms(2)
  proof (intro conjI allI impI)
    fix p i c
    assume c: "(p, i, c) \<in> children s"
    then have k1: "p < su_fresh s \<and> c < su_fresh s \<and> (\<exists>n\<le>su_counter s. i = generateSubTurnID n) \<and> ts_sessionKey (turn_of s c) = i
        \<and> ts_depth (turn_of s c) = ts_depth (turn_of s p) + 1 \<and> ts_depth (turn_of s c) \<le> maxDepth" using k by blast
    then show "p < su_fresh s'" "c < su_fresh s'" using assms(3) by simp_all
    show "ts_sessionKey (turn_of s' c) = i" "ts_depth (turn_of s' c) = ts_depth (turn_of s' p) + 1" "ts_depth (turn_of s' c) \<le> maxDepth"
      using k1 assms(5) by simp_all
    show "\<exists>n\<le>su_counter s'. i = generateSubTurnID n" using k1 assms(4) le_trans by blast
    fix p' c'
    assume "(p', i, c') \<in> children s"
    then show "p' = p" "c' = c" using k c by blast+
  next
    fix r i
    assume "i \<in> set (ts_childTurnIDs (turn_of s' r))"
    then show "\<exists>c. (r, i, c) \<in> children s" using assms(6) [of i r] k by blast
  next
    fix n c
    assume "map_of (al_active (su_loop s')) (generateSubTurnID n) = Some c"
    then show "\<exists>p. (p, generateSubTurnID n, c) \<in> children s" using assms(7) k by blast
  qed
qed

lemma children_map: "map (\<lambda>sp. (sp_parent sp, sp_child sp)) (su_spawns s') = map (\<lambda>sp. (sp_parent sp, sp_child sp)) (su_spawns s)
    \<Longrightarrow> children s' = children s"
proof -
  have e: "children s = {(p, i, c). (p, Some (i, c)) \<in> set (map (\<lambda>sp. (sp_parent sp, sp_child sp)) (su_spawns s))}" for s
    by (auto simp: children_def)
  show "map (\<lambda>sp. (sp_parent sp, sp_child sp)) (su_spawns s') = map (\<lambda>sp. (sp_parent sp, sp_child sp)) (su_spawns s)
    \<Longrightarrow> children s' = children s"
    unfolding e by simp
qed

lemma children_loop [simp]: "children (upd_loop f s) = children s"
  by (simp add: children_def)

lemma children_spawn: "sp_parent (f (su_spawns s ! i)) = sp_parent (su_spawns s ! i) \<Longrightarrow>
    sp_child (f (su_spawns s ! i)) = sp_child (su_spawns s ! i) \<Longrightarrow> children (upd_spawn i f s) = children s"
  by (rule children_map) (simp add: map_same_update)

lemma kids_spawn: "kids_ok maxDepth s \<Longrightarrow> sp_parent (f (su_spawns s ! i)) = sp_parent (su_spawns s ! i) \<Longrightarrow>
    sp_child (f (su_spawns s ! i)) = sp_child (su_spawns s ! i) \<Longrightarrow> kids_ok maxDepth (upd_spawn i f s)"
  by (erule kids_frame) (auto simp: children_spawn)

lemma kids_goto [simp]: "kids_ok maxDepth s \<Longrightarrow> kids_ok maxDepth (goto_pc i pc s)"
  by (simp add: goto_pc_def kids_spawn)

lemma kids_loop: "kids_ok maxDepth s \<Longrightarrow>
    (\<And>q. ts_sessionKey (al_heap (f (su_loop s)) q) = ts_sessionKey (turn_of s q) \<and> ts_depth (al_heap (f (su_loop s)) q) = ts_depth (turn_of s q)
       \<and> ts_childTurnIDs (al_heap (f (su_loop s)) q) = ts_childTurnIDs (turn_of s q)) \<Longrightarrow>
    al_active (f (su_loop s)) = al_active (su_loop s) \<Longrightarrow> kids_ok maxDepth (upd_loop f s)"
  by (erule kids_frame) auto

lemma children_nth: "i < length (su_spawns s) \<Longrightarrow> sp_child (su_spawns s ! i) = Some (childID, c) \<Longrightarrow>
    (sp_parent (su_spawns s ! i), childID, c) \<in> children s"
  by (auto simp: children_def intro: nth_mem)

lemma kids_release: "kids_ok maxDepth s \<Longrightarrow> kids_ok maxDepth (release_slot i s)"
  by (auto simp: release_slot_def intro!: kids_spawn kids_loop)

lemma kids_orphan: "kids_ok maxDepth s \<Longrightarrow> kids_ok maxDepth (orphan i reason res err s)"
  by (auto simp: orphan_def report_orphan_def Let_def intro!: kids_spawn kids_loop)

lemma kids_prepare:
  assumes "kids_ok (rt_maxDepth rt) s" "spawns_ok s" "i < length (su_spawns s)" "sp_child (su_spawns s ! i) = None"
  shows "kids_ok (rt_maxDepth rt) (prepare_child rt i s)"
  using assms(3)
proof (cases rule: prepare_cases [of i s rt])
  case (refused err)
  show ?thesis
    using assms(1)
  proof (rule kids_frame)
    show "children (prepare_child rt i s) = children s" by (rule children_map) (simp add: refused map_same_update)
  qed (simp_all add: refused)
next
  case (built agentID t)
  define s' where "s' = prepare_child rt i s"
  define p where "p = sp_parent (su_spawns s ! i)"
  define new where "new = (p, generateSubTurnID (Suc (su_counter s)), su_fresh s)"
  note k = assms(1) [unfolded kids_ok_def]
  have p: "p < su_fresh s" using spawns_ok_nth [OF assms(2,3)] by (simp add: spawn_ok_def p_def)
  have new': "children s' = insert new (children s)"
  proof
    show "children s' \<subseteq> insert new (children s)"
      using set_update_subset_insert [of "su_spawns s" i] by (fastforce simp: children_def s'_def built new_def p_def)
    have "sp \<in> set (su_spawns s') \<or> sp = su_spawns s ! i" if "sp \<in> set (su_spawns s)" for sp
      using that by (auto simp: s'_def built in_set_conv_nth) (metis length_list_update nth_list_update_neq)
    moreover have "i < length (su_spawns s')" using assms(3) by (simp add: s'_def built)
    ultimately show "insert new (children s) \<subseteq> children s'"
      using assms(4) children_nth [of i s' "generateSubTurnID (Suc (su_counter s))" "su_fresh s"] assms(3)
      by (fastforce simp: children_def new_def p_def s'_def built)
  qed
  have fresh_name: "(q, generateSubTurnID (Suc (su_counter s)), c) \<notin> children s" for q c
    using k by (force simp: generateSubTurnID_def decimal_inj)
  have old: "turn_of s' q = turn_of s q" if "q < su_fresh s" for q using that by (simp add: s'_def built)
  show ?thesis
    unfolding kids_ok_def s'_def [symmetric] new'
  proof (intro conjI allI impI)
    fix q j c
    assume a: "(q, j, c) \<in> insert new (children s)"
    have "q < su_fresh s' \<and> c < su_fresh s' \<and> (\<exists>n\<le>su_counter s'. j = generateSubTurnID n) \<and> ts_sessionKey (turn_of s' c) = j
        \<and> ts_depth (turn_of s' c) = ts_depth (turn_of s' q) + 1 \<and> ts_depth (turn_of s' c) \<le> rt_maxDepth rt"
    proof (cases "(q, j, c) = new")
      case True
      then have "q = p" "j = generateSubTurnID (Suc (su_counter s))" "c = su_fresh s" by (simp_all add: new_def)
      then show ?thesis using p built(4) by (auto simp: s'_def built(2,5,6) p_def)
    next
      case False
      then have "q < su_fresh s \<and> c < su_fresh s \<and> (\<exists>n\<le>su_counter s. j = generateSubTurnID n) \<and> ts_sessionKey (turn_of s c) = j
          \<and> ts_depth (turn_of s c) = ts_depth (turn_of s q) + 1 \<and> ts_depth (turn_of s c) \<le> rt_maxDepth rt" using a k by blast
      then show ?thesis using old by (auto simp: s'_def built(5,6) intro: le_SucI)
    qed
    then show "q < su_fresh s'" "c < su_fresh s'" "\<exists>n\<le>su_counter s'. j = generateSubTurnID n"
      "ts_sessionKey (turn_of s' c) = j" "ts_depth (turn_of s' c) = ts_depth (turn_of s' q) + 1" "ts_depth (turn_of s' c) \<le> rt_maxDepth rt"
      by blast+
    fix q' c'
    assume "(q', j, c') \<in> insert new (children s)"
    then show "q' = q" "c' = c" using a k fresh_name by (auto simp: new_def)
  next
    fix r j
    assume "j \<in> set (ts_childTurnIDs (turn_of s' r))"
    then have "j \<in> set (ts_childTurnIDs (turn_of s r))" by (simp add: s'_def built(2) split: if_splits)
    then show "\<exists>c. (r, j, c) \<in> insert new (children s)" using k by blast
  next
    fix n c
    assume "map_of (al_active (su_loop s')) (generateSubTurnID n) = Some c"
    then have "map_of (al_active (su_loop s)) (generateSubTurnID n) = Some c" by (simp add: s'_def built(3))
    then show "\<exists>q. (q, generateSubTurnID n, c) \<in> insert new (children s)" using k by blast
  qed
qed

lemma kids_ok_step:
  assumes "kids_ok (rt_maxDepth rt) s" "spawns_ok s" "i < length (su_spawns s)" "spawn_step rt i s = Some s'"
  shows "kids_ok (rt_maxDepth rt) s'"
proof -
  note o = spawns_ok_nth [OF assms(2,3)]
  have new: "\<exists>p. (p, childID, c) \<in> children s" "(sp_parent (su_spawns s ! i), childID, c) \<in> children s"
    "ts_sessionKey (turn_of s c) = childID" if "sp_child (su_spawns s ! i) = Some (childID, c)" for childID c
    using children_nth [OF assms(3) that] assms(1) unfolding kids_ok_def by blast+
  show ?thesis
  proof (cases "sp_pc (su_spawns s ! i)")
    case SpWaiting
    then show ?thesis using assms(1,4)
      by (auto simp: spawn_step_def acquire_slot_def Let_def split: option.splits if_splits intro!: kids_spawn kids_loop)
  next
    case SpEntered
    then show ?thesis using assms kids_prepare [OF assms(1-3)] o by (auto simp: spawn_step_def spawn_ok_def)
  next
    case SpPrepared
    then show ?thesis using assms(1,4) new
      by (auto simp: spawn_step_def store_child_def split: option.splits if_splits intro!: kids_goto elim!: kids_frame)
        (auto simp: update_conv' split: if_splits)
  next
    case SpStored
    then show ?thesis using assms(1,4) new
      by (auto simp: spawn_step_def link_child_def Let_def split: option.splits if_splits intro!: kids_goto elim!: kids_frame)
  next
    case SpReady
    then show ?thesis using assms(1,4) new
      by (auto simp: spawn_step_def start_run_def split: option.splits if_splits intro!: kids_goto elim!: kids_frame)
        (auto simp: registerActiveTurn_def update_conv' split: if_splits)
  next
    case (SpRan out)
    then show ?thesis using assms(1,4) by (cases out) (auto simp: spawn_step_def after_run_def kids_release)
  next
    case (SpSending res err)
    then show ?thesis
      using assms(1,4) by (auto simp: spawn_step_def send_result_def Let_def split: option.splits if_splits
          intro!: kids_orphan kids_spawn kids_loop)
  next
    case (SpDelivered res err)
    then show ?thesis using assms(1,4)
      by (auto simp: spawn_step_def end_spawn_def Let_def split: option.splits if_splits intro!: kids_goto elim!: kids_frame)
        (auto simp: delete_conv' split: if_splits)
  qed (use assms(1,4) in \<open>auto simp: spawn_step_def announce_child_def look_at_parent_def leave_spawn_def kids_release Let_def
        split: option.splits if_splits intro!: kids_orphan kids_goto kids_loop\<close>)
qed

section \<open>Every result once\<close>

definition spawn_result :: "spawn \<Rightarrow> tool_result option" where
  "spawn_result sp =
     (if sp_fate sp = None then None
      else case sp_pc sp of SpDelivered res _ \<Rightarrow> res | SpLeaving res _ \<Rightarrow> res | SpDone res _ \<Rightarrow> res | _ \<Rightarrow> None)"

definition fates :: "sub_state \<Rightarrow> (nat \<times> fate option \<times> tool_result option) list" where
  "fates s = map (\<lambda>sp. (sp_parent sp, sp_fate sp, spawn_result sp)) (su_spawns s)"

text \<open>The results that were sent to a turn, those in its channel, and the reports of a result's fate.\<close>

definition sent_in :: "nat \<Rightarrow> (nat \<times> fate option \<times> tool_result option) list \<Rightarrow> tool_result option multiset" where
  "sent_in p fs = image_mset (snd \<circ> snd) (filter_mset (\<lambda>(q, f, r). q = p \<and> f = Some FateSent) (mset fs))"

definition sent_to :: "sub_state \<Rightarrow> nat \<Rightarrow> tool_result option multiset" where
  "sent_to s p = sent_in p (fates s)"

definition channel_of :: "turn_state \<Rightarrow> tool_result option list" where
  "channel_of ts = (case ts_pendingResults ts of None \<Rightarrow> [] | Some ch \<Rightarrow> rc_buf ch)"

definition is_report :: "event_kind \<times> event_meta \<times> event_payload \<Rightarrow> bool" where
  "is_report e \<longleftrightarrow> fst e = EventKindSubTurnResultDelivered \<or> fst e = EventKindSubTurnOrphan"

definition reports :: "loop_state \<Rightarrow> nat" where
  "reports l = length (filter is_report (al_events l))"

definition reported :: "nat \<times> fate option \<times> tool_result option \<Rightarrow> bool" where
  "reported x \<longleftrightarrow> fst (snd x) \<noteq> None \<and> snd (snd x) \<noteq> None"

definition delivery_ok :: "sub_state \<Rightarrow> bool" where
  "delivery_ok s \<longleftrightarrow>
     (\<forall>p. mset (su_taken s p @ channel_of (turn_of s p)) = sent_to s p
        \<and> (case ts_pendingResults (turn_of s p) of None \<Rightarrow> True | Some ch \<Rightarrow> length (rc_buf ch) \<le> rc_cap ch))
     \<and> reports (su_loop s) = length (filter reported (fates s))"

lemma sent_in_update:
  assumes "i < length fs" "fst (snd (fs ! i)) = None"
  shows "sent_in p (fs[i := (q, f, r)]) = (if q = p \<and> f = Some FateSent then add_mset r (sent_in p fs) else sent_in p fs)"
  using assms by (cases "fs ! i") (auto simp: sent_in_def mset_update filter_diff_mset)

lemma reported_update:
  assumes "i < length fs" "fst (snd (fs ! i)) = None"
  shows "length (filter reported (fs[i := x])) = length (filter reported fs) + (if reported x then 1 else 0)"
  using length_filter_update [OF assms(1), of reported x] assms(2) by (simp add: reported_def)

lemma delivery_frame:
  assumes "delivery_ok s" "fates s' = fates s" "su_taken s' = su_taken s"
    "\<And>q. ts_pendingResults (turn_of s' q) = ts_pendingResults (turn_of s q)" "reports (su_loop s') = reports (su_loop s)"
  shows "delivery_ok s'"
  using assms by (simp add: delivery_ok_def sent_to_def channel_of_def)

lemma fates_loop [simp]: "fates (upd_loop f s) = fates s"
  by (simp add: fates_def)

lemma fates_spawn: "sp_parent (f (su_spawns s ! i)) = sp_parent (su_spawns s ! i) \<Longrightarrow> sp_fate (f (su_spawns s ! i)) = sp_fate (su_spawns s ! i) \<Longrightarrow>
    spawn_result (f (su_spawns s ! i)) = spawn_result (su_spawns s ! i) \<Longrightarrow> fates (upd_spawn i f s) = fates s"
  by (simp add: fates_def map_same_update)

lemma delivery_spawn: "delivery_ok s \<Longrightarrow> sp_parent (f (su_spawns s ! i)) = sp_parent (su_spawns s ! i) \<Longrightarrow>
    sp_fate (f (su_spawns s ! i)) = sp_fate (su_spawns s ! i) \<Longrightarrow>
    spawn_result (f (su_spawns s ! i)) = spawn_result (su_spawns s ! i) \<Longrightarrow> delivery_ok (upd_spawn i f s)"
  by (erule delivery_frame) (simp_all add: fates_spawn)

lemma delivery_loop: "delivery_ok s \<Longrightarrow> (\<And>q. ts_pendingResults (al_heap (f (su_loop s)) q) = ts_pendingResults (turn_of s q)) \<Longrightarrow>
    reports (f (su_loop s)) = reports (su_loop s) \<Longrightarrow> delivery_ok (upd_loop f s)"
  by (erule delivery_frame) simp_all

lemma reports_sel [simp]:
  "reports (upd_turn q h l) = reports l" "reports (registerActiveTurn c l) = reports l" "reports (clearActiveTurn c l) = reports l"
  "reports (al_emit k m pl l) = (if k = EventKindSubTurnResultDelivered \<or> k = EventKindSubTurnOrphan then Suc (reports l) else reports l)"
  "reports (l\<lparr>al_active := a\<rparr>) = reports l"
  by (simp_all add: reports_def upd_turn_def registerActiveTurn_def clearActiveTurn_def al_emit_def is_report_def)

text \<open>A spawn gets its fate: reported if there is a result, in the channel if it was sent.\<close>

lemma delivery_fate:
  assumes "delivery_ok s" "i < length (su_spawns s)" "sp_fate (su_spawns s ! i) = None"
    "fates s' = (fates s)[i := (sp_parent (su_spawns s ! i), Some f, res)]" "su_taken s' = su_taken s"
    "reports (su_loop s') = reports (su_loop s) + (if res \<noteq> None then 1 else 0)"
    "\<And>q. channel_of (turn_of s' q) = channel_of (turn_of s q) @ (if q = sp_parent (su_spawns s ! i) \<and> f = FateSent then [res] else [])"
    "\<And>q. case ts_pendingResults (turn_of s' q) of None \<Rightarrow> True | Some ch \<Rightarrow> length (rc_buf ch) \<le> rc_cap ch"
  shows "delivery_ok s'"
proof -
  have i: "i < length (fates s)" "fst (snd (fates s ! i)) = None" using assms(2,3) by (simp_all add: fates_def)
  have "mset (su_taken s' p @ channel_of (turn_of s' p)) = sent_to s' p" for p
  proof -
    have "mset (su_taken s' p @ channel_of (turn_of s' p)) = mset (su_taken s p @ channel_of (turn_of s p))
        + (if p = sp_parent (su_spawns s ! i) \<and> f = FateSent then {#res#} else {#})" by (simp add: assms(5,7))
    also have "mset (su_taken s p @ channel_of (turn_of s p)) = sent_in p (fates s)"
      using assms(1) by (simp add: delivery_ok_def sent_to_def)
    finally show ?thesis using sent_in_update [OF i, of p] by (auto simp: sent_to_def assms(4))
  qed
  moreover have "reports (su_loop s') = length (filter reported (fates s'))"
    using assms(1,6) reported_update [OF i] by (simp add: assms(4) delivery_ok_def reported_def)
  ultimately show ?thesis using assms(8) by (simp add: delivery_ok_def)
qed

lemma delivery_orphan:
  assumes "delivery_ok s" "i < length (su_spawns s)" "sp_fate (su_spawns s ! i) = None"
  shows "delivery_ok (orphan i reason res err s)"
  using assms
proof (rule delivery_fate)
  show "fates (orphan i reason res err s) = (fates s)[i := (sp_parent (su_spawns s ! i), Some FateOrphan, res)]"
    by (simp add: fates_def orphan_spawn map_update spawn_result_def)
  show "case ts_pendingResults (turn_of (orphan i reason res err s) q) of None \<Rightarrow> True | Some ch \<Rightarrow> length (rc_buf ch) \<le> rc_cap ch" for q
    using assms(1) by (simp add: delivery_ok_def orphan_def report_orphan_def Let_def split: if_splits)
qed (simp_all add: orphan_def report_orphan_def Let_def)

lemma delivery_goto: "delivery_ok s \<Longrightarrow> spawn_result ((su_spawns s ! i)\<lparr>sp_pc := pc\<rparr>) = spawn_result (su_spawns s ! i) \<Longrightarrow>
    delivery_ok (goto_pc i pc s)"
  by (simp add: goto_pc_def delivery_spawn)

lemma delivery_release: "delivery_ok s \<Longrightarrow> delivery_ok (release_slot i s)"
  by (auto simp: release_slot_def spawn_result_def intro!: delivery_spawn delivery_loop)

lemma release_pc: "sp_pc (su_spawns (release_slot i s) ! j) = sp_pc (su_spawns s ! j)"
  by (cases "i < length (su_spawns s)"; cases "j = i") (simp_all add: release_spawn release_slot_def list_update_beyond)

lemma delivery_send:
  assumes "delivery_ok s" "i < length (su_spawns s)" "sp_fate (su_spawns s ! i) = None" "send_result i res err s = Some s'"
  shows "delivery_ok s'"
proof -
  define p where "p = sp_parent (su_spawns s ! i)"
  obtain ch where ch: "ts_pendingResults (turn_of s p) = Some ch"
    using assms(4) by (auto simp: send_result_def Let_def p_def split: option.splits)
  show ?thesis
  proof (cases "rc_closed ch")
    case True
    then have "s' = orphan i ''panic'' res err s" using assms(4) ch by (simp add: send_result_def Let_def p_def)
    then show ?thesis using delivery_orphan [OF assms(1-3)] by simp
  next
    case False
    then have room: "length (rc_buf ch) < rc_cap ch"
      using assms(4) ch by (simp add: send_result_def Let_def p_def split: if_splits)
    have s': "su_spawns s' = (su_spawns s)[i := (su_spawns s ! i)\<lparr>sp_fate := Some FateSent, sp_pc := SpDelivered res err\<rparr>]"
      "su_taken s' = su_taken s" "reports (su_loop s') = reports (su_loop s) + (if res \<noteq> None then 1 else 0)"
      "ts_pendingResults (turn_of s' q) = (if q = p then Some (ch\<lparr>rc_buf := rc_buf ch @ [res]\<rparr>) else ts_pendingResults (turn_of s q))" for q
      using assms(4) ch False room
      by (auto simp: send_result_def Let_def p_def split: option.splits if_splits)
    from assms(1-3) show ?thesis
    proof (rule delivery_fate)
      show "fates s' = (fates s)[i := (sp_parent (su_spawns s ! i), Some FateSent, res)]"
        by (simp add: fates_def s' map_update spawn_result_def)
      show "channel_of (turn_of s' q) = channel_of (turn_of s q) @ (if q = sp_parent (su_spawns s ! i) \<and> FateSent = FateSent then [res] else [])" for q
        using ch by (simp add: channel_of_def s' p_def)
      show "case ts_pendingResults (turn_of s' q) of None \<Rightarrow> True | Some ch \<Rightarrow> length (rc_buf ch) \<le> rc_cap ch" for q
        using assms(1) room by (simp add: delivery_ok_def s')
    qed (simp_all add: s')
  qed
qed

lemma delivery_prepare:
  assumes "delivery_ok s" "spawns_ok s" "i < length (su_spawns s)" "sp_pc (su_spawns s ! i) = SpEntered"
  shows "delivery_ok (prepare_child rt i s)"
  using assms(3)
proof (cases rule: prepare_cases [of i s rt])
  case (refused err)
  have "fates (prepare_child rt i s) = fates s" using assms(4) by (simp add: fates_def refused map_same_update spawn_result_def)
  then show ?thesis by (rule delivery_frame [OF assms(1)]) (simp_all add: refused)
next
  case (built agentID t)
  define c where "c = su_fresh s"
  have f: "fates (prepare_child rt i s) = fates s" using assms(4) by (simp add: fates_def built map_same_update spawn_result_def)
  have "sent_to s c = {#}"
    using assms(2) by (auto simp: sent_to_def sent_in_def fates_def spawns_ok_def spawn_ok_def list_all_iff c_def filter_empty_conv
        simp flip: mset_filter)
  then have none: "su_taken s c = []" "sent_to s c = {#}" using assms(1) unfolding delivery_ok_def by (metis append_is_Nil_conv mset_zero_iff)+
  have r: "reports (su_loop (prepare_child rt i s)) = reports (su_loop s)"
    using assms(4) by (auto simp: prepare_child_def Let_def goto_pc_def reports_def upd_turn_def split: option.splits)
  show ?thesis
    using assms(1) none by (auto simp: delivery_ok_def sent_to_def f r built(2) built(7) channel_of_def c_def)
qed

lemma delivery_ok_step:
  assumes "delivery_ok s" "spawns_ok s" "i < length (su_spawns s)" "spawn_step rt i s = Some s'"
  shows "delivery_ok s'"
proof -
  note o = spawns_ok_nth [OF assms(2,3)]
  show ?thesis
  proof (cases "sp_pc (su_spawns s ! i)")
    case SpEntered
    then show ?thesis using assms delivery_prepare [OF assms(1-3)] by (auto simp: spawn_step_def)
  next
    case (SpRan out)
    then show ?thesis using assms(1,4)
      by (cases out) (auto simp: spawn_step_def after_run_def spawn_result_def release_pc intro!: delivery_goto delivery_release)
  next
    case (SpCleanup res err)
    then show ?thesis using assms(1,3,4) o
      by (auto simp: spawn_step_def look_at_parent_def Let_def spawn_ok_def spawn_result_def split: if_splits
          intro!: delivery_goto delivery_orphan)
  next
    case (SpSending res err)
    then show ?thesis using assms(1,3,4) o delivery_send [of s i res err s'] by (auto simp: spawn_step_def spawn_ok_def)
  next
    case (SpLeaving res err)
    then show ?thesis using assms(1,4)
      by (auto simp: spawn_step_def leave_spawn_def spawn_result_def release_pc intro!: delivery_goto delivery_release)
  qed (use assms(1,4) in \<open>auto simp: spawn_step_def acquire_slot_def store_child_def link_child_def announce_child_def start_run_def end_spawn_def
        Let_def spawn_result_def split: option.splits if_splits intro!: delivery_goto delivery_spawn delivery_loop\<close>)
qed

section \<open>What a spawn may wait for\<close>

text \<open>Only a parent with a semaphore makes a spawn wait, and only one with a channel is sent a result.\<close>

definition wait_ok :: "sub_state \<Rightarrow> bool" where
  "wait_ok s \<longleftrightarrow>
     (\<forall>sp\<in>set (su_spawns s). (sp_pc sp = SpWaiting \<longrightarrow> ts_concurrencySem (turn_of s (sp_parent sp)) \<noteq> None)
        \<and> ((\<exists>res err. sp_pc sp = SpSending res err) \<longrightarrow> ts_pendingResults (turn_of s (sp_parent sp)) \<noteq> None))"

definition keeps_waits :: "sub_state \<Rightarrow> sub_state \<Rightarrow> bool" where
  "keeps_waits s s' \<longleftrightarrow>
     (\<forall>q. (ts_concurrencySem (turn_of s q) \<noteq> None \<longrightarrow> ts_concurrencySem (turn_of s' q) \<noteq> None)
        \<and> (ts_pendingResults (turn_of s q) \<noteq> None \<longrightarrow> ts_pendingResults (turn_of s' q) \<noteq> None))"

lemma wait_frame:
  assumes "wait_ok s" "keeps_waits s s'" "su_spawns s' = (su_spawns s)[i := sp]" "sp_pc sp \<noteq> SpWaiting"
    "\<And>res err. sp_pc sp = SpSending res err \<Longrightarrow> ts_pendingResults (turn_of s' (sp_parent sp)) \<noteq> None"
  shows "wait_ok s'"
  using assms set_update_subset_insert [of "su_spawns s" i sp] unfolding wait_ok_def keeps_waits_def by (metis insert_iff subsetD)

lemma wait_same: "wait_ok s \<Longrightarrow> keeps_waits s s' \<Longrightarrow> su_spawns s' = su_spawns s \<Longrightarrow> wait_ok s'"
  unfolding wait_ok_def keeps_waits_def by metis

lemma keeps_release: "keeps_waits s (release_slot i s)"
  by (auto simp: keeps_waits_def release_slot_def)

lemma wait_goto: "wait_ok s \<Longrightarrow> keeps_waits s s' \<Longrightarrow> su_spawns s' = (su_spawns s)[i := sp] \<Longrightarrow> pc \<noteq> SpWaiting \<Longrightarrow>
    (\<And>res err. pc \<noteq> SpSending res err) \<Longrightarrow> wait_ok (goto_pc i pc s')"
  by (rule wait_frame [of s _ i "sp\<lparr>sp_pc := pc\<rparr>"])
    (cases "i < length (su_spawns s)"; auto simp: goto_pc_def keeps_waits_def list_update_beyond)+

lemma keeps_orphan: "keeps_waits s (orphan i reason res err s)"
  by (simp add: keeps_waits_def orphan_def report_orphan_def Let_def)

lemma wait_orphan: "wait_ok s \<Longrightarrow> wait_ok (orphan i reason res err s)"
  by (rule wait_frame [OF _ keeps_orphan orphan_spawn(1)]) simp_all

lemma keeps_prepare: "i < length (su_spawns s) \<Longrightarrow> keeps_waits s (prepare_child rt i s)"
  by (erule prepare_cases [of i s rt]) (simp_all add: keeps_waits_def)

lemma wait_ok_step:
  assumes "wait_ok s" "i < length (su_spawns s)" "spawn_step rt i s = Some s'"
  shows "wait_ok s'"
proof (cases "sp_pc (su_spawns s ! i)")
  case SpWaiting
  then show ?thesis using assms(1,3)
    by (auto simp: spawn_step_def acquire_slot_def Let_def keeps_waits_def elim!: wait_frame split: option.splits if_splits)
next
  case SpEntered
  obtain sp where "su_spawns (prepare_child rt i s) = (su_spawns s)[i := sp]"
    "sp_pc sp = SpPrepared \<or> (\<exists>err. sp_pc sp = SpLeaving None (Some err))"
    using prepare_spawn [of rt i s] by blast
  then have "wait_ok (prepare_child rt i s)"
    using wait_frame [OF assms(1) keeps_prepare [OF assms(2)], of rt i sp] by auto
  then show ?thesis using assms(3) SpEntered by (auto simp: spawn_step_def)
next
  case (SpRan out)
  have r: "wait_ok (goto_pc i (SpCleanup res err) (release_slot i s))" for res err
    using wait_goto [OF assms(1) keeps_release release_spawn [OF assms(2)]] by simp
  have "wait_ok (goto_pc i (SpCleanup res err) s)" for res err
    using wait_goto [OF assms(1), of s i "su_spawns s ! i"] by (simp add: keeps_waits_def)
  then show ?thesis using assms(3) SpRan r by (cases out) (auto simp: spawn_step_def after_run_def)
next
  case (SpCleanup res err)
  have d: "wait_ok (goto_pc i (SpDelivered res err) s)"
    using wait_goto [OF assms(1), of s i "su_spawns s ! i"] by (simp add: keeps_waits_def)
  have "wait_ok (goto_pc i (SpSending res err) s)" if "ts_pendingResults (turn_of s (sp_parent (su_spawns s ! i))) \<noteq> None"
    by (rule wait_frame [OF assms(1), of _ i "(su_spawns s ! i)\<lparr>sp_pc := SpSending res err\<rparr>"])
      (use that in \<open>simp_all add: goto_pc_def keeps_waits_def\<close>)
  then show ?thesis using assms(3) wait_orphan [OF assms(1)] d SpCleanup
    by (simp add: spawn_step_def look_at_parent_def Let_def split: if_splits) blast+
next
  case (SpSending res err)
  obtain ch where ch: "ts_pendingResults (turn_of s (sp_parent (su_spawns s ! i))) = Some ch"
    using assms(3) SpSending by (auto simp: spawn_step_def send_result_def Let_def split: option.splits)
  show ?thesis
  proof (cases "rc_closed ch")
    case True
    then show ?thesis using assms(3) SpSending ch wait_orphan [OF assms(1)] by (auto simp: spawn_step_def send_result_def Let_def)
  next
    case False
    then show ?thesis using assms(1,3) SpSending ch
      by (auto simp: spawn_step_def send_result_def Let_def keeps_waits_def elim!: wait_frame split: option.splits if_splits)
  qed
next
  case (SpLeaving res err)
  then show ?thesis
    using assms(3) wait_goto [OF assms(1) keeps_release release_spawn [OF assms(2)], of "SpDone res err"]
    by (auto simp: spawn_step_def leave_spawn_def)
qed (use assms(1,3) in \<open>auto simp: spawn_step_def store_child_def link_child_def announce_child_def start_run_def end_spawn_def
      goto_pc_def keeps_waits_def Let_def elim!: wait_frame split: option.splits if_splits\<close>)

section \<open>The invariant\<close>

definition sub_inv :: "subturn_runtime \<Rightarrow> sub_state \<Rightarrow> bool" where
  "sub_inv rt s \<longleftrightarrow> slots_ok s \<and> spawns_ok s \<and> kids_ok (rt_maxDepth rt) s \<and> delivery_ok s \<and> wait_ok s"

text \<open>A loop before its first spawn.\<close>

definition sub_start :: "sub_state \<Rightarrow> bool" where
  "sub_start s \<longleftrightarrow>
     su_spawns s = [] \<and> reports (su_loop s) = 0
     \<and> (\<forall>p. su_taken s p = [] \<and> channel_of (turn_of s p) = [] \<and> ts_childTurnIDs (turn_of s p) = []
          \<and> (case ts_concurrencySem (turn_of s p) of None \<Rightarrow> True | Some (used, slots) \<Rightarrow> used = 0 \<and> 0 < slots))
     \<and> (\<forall>n. map_of (al_active (su_loop s)) (generateSubTurnID n) = None)"

lemma sub_inv_start: "sub_start s \<Longrightarrow> sub_inv rt s"
  unfolding sub_inv_def
proof (intro conjI)
  assume s: "sub_start s"
  then have h: "holders p (slot_spawns s) = 0" for p by (simp add: holders_def slot_spawns_def sub_start_def)
  show "slots_ok s"
    using s unfolding slots_ok_def slots_fit_def h slot_sems_def sub_start_def by (auto split: option.splits)
  show "spawns_ok s" "kids_ok (rt_maxDepth rt) s" "wait_ok s"
    using s by (simp_all add: sub_start_def spawns_ok_def kids_ok_def children_def wait_ok_def)
  have c: "channel_of (turn_of s p) = []" "su_taken s p = []" for p using s by (simp_all add: sub_start_def)
  have "case ts_pendingResults (turn_of s p) of None \<Rightarrow> True | Some ch \<Rightarrow> length (rc_buf ch) \<le> rc_cap ch" for p
    using c(1) [of p] by (simp add: channel_of_def split: option.splits)
  then show "delivery_ok s"
    using s c by (simp add: sub_start_def delivery_ok_def sent_to_def sent_in_def fates_def)
qed

lemma close_turn_more [simp]:
  "ts_sessionKey (close_turn b ts) = ts_sessionKey ts" "ts_concurrencySem (close_turn b ts) = ts_concurrencySem ts"
  "channel_of (close_turn b ts) = channel_of ts"
  "(case ts_pendingResults (close_turn b ts) of None \<Rightarrow> True | Some ch \<Rightarrow> length (rc_buf ch) \<le> rc_cap ch)
     \<longleftrightarrow> (case ts_pendingResults ts of None \<Rightarrow> True | Some ch \<Rightarrow> length (rc_buf ch) \<le> rc_cap ch)"
  by (simp_all add: close_turn_fields channel_of_def split: option.splits)

lemma inv_close: "sub_inv rt s \<Longrightarrow> sub_inv rt (upd_loop (upd_turn p (close_turn hard)) s)"
  unfolding sub_inv_def
proof (elim conjE, intro conjI)
  assume "slots_ok s"
  then show "slots_ok (upd_loop (upd_turn p (close_turn hard)) s)" by (rule slots_ok_loop) simp
next
  assume "spawns_ok s"
  then show "spawns_ok (upd_loop (upd_turn p (close_turn hard)) s)" by (simp add: spawns_ok_def)
next
  assume "kids_ok (rt_maxDepth rt) s"
  then show "kids_ok (rt_maxDepth rt) (upd_loop (upd_turn p (close_turn hard)) s)" by (rule kids_loop) auto
next
  assume "delivery_ok s"
  then show "delivery_ok (upd_loop (upd_turn p (close_turn hard)) s)" by (simp add: delivery_ok_def sent_to_def)
next
  assume "wait_ok s"
  then show "wait_ok (upd_loop (upd_turn p (close_turn hard)) s)" by (rule wait_same) (simp_all add: keeps_waits_def close_turn_fields)
qed

lemma inv_take: "sub_inv rt s \<Longrightarrow> take_result p s = Some s' \<Longrightarrow> sub_inv rt s'"
proof -
  assume i: "sub_inv rt s" and t: "take_result p s = Some s'"
  then obtain ch r rest where ch: "ts_pendingResults (turn_of s p) = Some ch" "rc_buf ch = r # rest"
    and s': "s' = upd_loop (upd_turn p (\<lambda>ts. ts\<lparr>ts_pendingResults := Some (ch\<lparr>rc_buf := rest\<rparr>)\<rparr>))
       (s\<lparr>su_taken := (su_taken s)(p := su_taken s p @ [r])\<rparr>)"
    by (auto simp: take_result_def split: option.splits list.splits)
  have v: "su_spawns s' = su_spawns s" "su_fresh s' = su_fresh s" "su_counter s' = su_counter s"
    "al_active (su_loop s') = al_active (su_loop s)" "reports (su_loop s') = reports (su_loop s)"
    "turn_of s' q = (if q = p then (turn_of s p)\<lparr>ts_pendingResults := Some (ch\<lparr>rc_buf := rest\<rparr>)\<rparr> else turn_of s q)"
    "su_taken s' q = (if q = p then su_taken s p @ [r] else su_taken s q)" for q
    by (simp_all add: s')
  have "slot_sems s' = slot_sems s" by (rule ext) (simp add: slot_sems_def v)
  then have "slots_ok s'" using i by (simp add: sub_inv_def slots_ok_def slot_spawns_def v)
  moreover have "spawns_ok s'" using i by (simp add: sub_inv_def spawns_ok_def v)
  moreover have "kids_ok (rt_maxDepth rt) s'"
  proof (rule kids_frame)
    show "kids_ok (rt_maxDepth rt) s" using i by (simp add: sub_inv_def)
    show "children s' = children s" by (simp add: children_def v)
  qed (auto simp: v split: if_splits)
  moreover have "delivery_ok s'"
  proof -
    have "mset (su_taken s' q @ channel_of (turn_of s' q)) = mset (su_taken s q @ channel_of (turn_of s q))" for q
      using ch by (simp add: v channel_of_def)
    moreover have "case ts_pendingResults (turn_of s' q) of None \<Rightarrow> True | Some ch \<Rightarrow> length (rc_buf ch) \<le> rc_cap ch" for q
    proof -
      have "case ts_pendingResults (turn_of s q) of None \<Rightarrow> True | Some ch \<Rightarrow> length (rc_buf ch) \<le> rc_cap ch" for q
        using i by (simp add: sub_inv_def delivery_ok_def)
      from this [of p] this [of q] show ?thesis using ch by (auto simp: v split: option.splits)
    qed
    ultimately show ?thesis using i by (simp add: sub_inv_def delivery_ok_def sent_to_def fates_def v)
  qed
  moreover have "wait_ok s'"
    using i wait_same [of s s'] by (simp add: sub_inv_def keeps_waits_def v)
  ultimately show "sub_inv rt s'" by (simp add: sub_inv_def)
qed

lemma inv_goto:
  "sub_inv rt s \<Longrightarrow> wait_ok (goto_pc i pc s) \<Longrightarrow> spawns_ok (goto_pc i pc s) \<Longrightarrow> spawn_result ((su_spawns s ! i)\<lparr>sp_pc := pc\<rparr>) = spawn_result (su_spawns s ! i) \<Longrightarrow>
    sub_inv rt (goto_pc i pc s)"
  by (simp add: sub_inv_def delivery_goto)

lemma inv_call: "sub_inv rt s \<Longrightarrow> p < su_fresh s \<Longrightarrow> sub_inv rt (call_spawn p cfg s)"
proof -
  assume i: "sub_inv rt s" and p: "p < su_fresh s"
  define s' where "s' = call_spawn p cfg s"
  obtain sp where sp: "su_spawns s' = su_spawns s @ [sp]" "sp_parent sp = p" "\<not> sp_sem sp" "sp_child sp = None" "sp_fate sp = None"
    "sp_pc sp = SpEntered \<or> sp_pc sp = SpWaiting \<and> ts_concurrencySem (turn_of s p) \<noteq> None"
    and v: "su_loop s' = su_loop s" "su_fresh s' = su_fresh s" "su_counter s' = su_counter s" "su_taken s' = su_taken s"
    by (simp add: s'_def call_spawn_def)
  have "slot_spawns s' = slot_spawns s @ [(p, False)]" "slot_sems s' = slot_sems s"
    by (simp_all add: slot_spawns_def slot_sems_def sp v)
  then have "slots_ok s'" using i by (simp add: sub_inv_def slots_ok_def slots_call)
  moreover have "spawns_ok s'"
    using i p sp(2-6) by (auto simp: sub_inv_def spawns_ok_def sp(1) v) (auto simp: spawn_ok_def)
  moreover have "children s' = children s" by (simp add: children_def sp)
  then have "kids_ok (rt_maxDepth rt) s'"
    using i kids_frame [of "rt_maxDepth rt" s s'] by (simp add: sub_inv_def v)
  moreover have "fates s' = fates s @ [(p, None, None)]" by (simp add: fates_def sp spawn_result_def)
  then have "sent_to s' q = sent_to s q" "length (filter reported (fates s')) = length (filter reported (fates s))" for q
    by (simp_all add: sent_to_def sent_in_def reported_def)
  then have "delivery_ok s'" using i by (simp add: sub_inv_def delivery_ok_def v)
  moreover have "wait_ok s'" using i sp(2-6) by (auto simp: sub_inv_def wait_ok_def sp(1) v)
  ultimately show ?thesis by (simp add: sub_inv_def s'_def)
qed

lemma inv_end_run:
  assumes "sub_inv rt s" "i < length (su_spawns s)" "sp_pc (su_spawns s ! i) = SpRunning" "end_run i out s = Some s'"
  shows "sub_inv rt s'"
proof -
  obtain childID c where sp: "sp_child (su_spawns s ! i) = Some (childID, c)"
    and s': "s' = goto_pc i (SpRan out) (upd_loop (clearActiveTurn c) s)"
    using assms(4) by (auto simp: end_run_def split: option.splits)
  have o: "spawn_ok (su_fresh s) (su_spawns s ! i)" using assms(1,2) by (simp add: sub_inv_def spawns_ok_nth)
  have "spawns_ok s'"
    using assms(1,3) o by (auto simp: sub_inv_def spawns_ok_def s' goto_pc_def intro!: list_all_update) (auto simp: spawn_ok_def)
  moreover have "slots_ok s'" using assms(1) by (simp add: sub_inv_def s' slots_ok_loop)
  moreover have "kids_ok (rt_maxDepth rt) s'"
    unfolding s'
  proof (rule kids_goto, rule kids_frame)
    show "kids_ok (rt_maxDepth rt) s" using assms(1) by (simp add: sub_inv_def)
  qed (auto simp: clearActiveTurn_def delete_conv' split: if_splits)
  moreover have "delivery_ok s'"
    using assms(1,3) by (auto simp: sub_inv_def s' spawn_result_def intro!: delivery_goto delivery_loop)
  moreover have "wait_ok s'"
    using assms(1) wait_goto [of s "upd_loop (clearActiveTurn c) s" i "su_spawns s ! i" "SpRan out"]
    by (simp add: sub_inv_def s' keeps_waits_def)
  ultimately show ?thesis by (simp add: sub_inv_def)
qed

lemma inv_gone:
  assumes "sub_inv rt s" "i < length (su_spawns s)" "sp_pc (su_spawns s ! i) = SpSending res err" "parent_gone i res err s = Some s'"
  shows "sub_inv rt s'"
proof -
  have o: "spawn_ok (su_fresh s) (su_spawns s ! i)" using assms(1,2) by (simp add: sub_inv_def spawns_ok_nth)
  have s': "s' = orphan i ''parent_finished_waiting'' res err s" using assms(4) by (simp add: parent_gone_def split: if_splits)
  have "spawns_ok s'"
    using assms(1,3) o by (auto simp: sub_inv_def spawns_ok_def s' orphan_spawn intro!: list_all_update) (auto simp: spawn_ok_def)
  then show ?thesis
    using assms(1-3) o by (simp add: sub_inv_def s' slots_ok_orphan kids_orphan delivery_orphan wait_orphan spawn_ok_def)
qed

lemma inv_give_up:
  assumes "sub_inv rt s" "i < length (su_spawns s)" "sp_pc (su_spawns s ! i) = SpWaiting"
  shows "sub_inv rt (goto_pc i (SpLeaving None (Some err)) s)"
proof (rule inv_goto [OF assms(1)])
  have o: "spawn_ok (su_fresh s) (su_spawns s ! i)" using assms(1,2) by (simp add: sub_inv_def spawns_ok_nth)
  show "wait_ok (goto_pc i (SpLeaving None (Some err)) s)"
    using assms(1) wait_goto [of s s i "su_spawns s ! i"] by (simp add: sub_inv_def keeps_waits_def)
  show "spawns_ok (goto_pc i (SpLeaving None (Some err)) s)"
    using assms(1,3) o by (auto simp: sub_inv_def spawns_ok_def goto_pc_def intro!: list_all_update) (auto simp: spawn_ok_def)
  show "spawn_result ((su_spawns s ! i)\<lparr>sp_pc := SpLeaving None (Some err)\<rparr>) = spawn_result (su_spawns s ! i)"
    using o assms(3) by (simp add: spawn_result_def spawn_ok_def)
qed

lemma sub_inv_step:
  assumes "0 < rt_maxConcurrent rt" "sub_inv rt s" "sub_step fmtD rt a s = Some s'"
  shows "sub_inv rt s'"
proof (cases a)
  case (ActStep i)
  then have "i < length (su_spawns s)" "spawn_step rt i s = Some s'" using assms(3) by (auto split: if_splits)
  then show ?thesis
    using assms(1,2) slots_ok_step spawns_ok_step kids_ok_step delivery_ok_step wait_ok_step unfolding sub_inv_def by metis
next
  case (ActGiveUp i ctxErr)
  then have "i < length (su_spawns s)" "sp_pc (su_spawns s ! i) = SpWaiting"
    "s' = goto_pc i (SpLeaving None (Some (wait_error fmtD rt ctxErr))) s" using assms(3) by (simp_all split: if_splits)
  then show ?thesis using inv_give_up [OF assms(2)] by simp
next
  case (ActEndRun i out)
  then have "i < length (su_spawns s)" "sp_pc (su_spawns s ! i) = SpRunning" "end_run i out s = Some s'"
    using assms(3) by (simp_all split: if_splits)
  then show ?thesis by (rule inv_end_run [OF assms(2)])
next
  case (ActParentGone i)
  then obtain res err where "i < length (su_spawns s)" "sp_pc (su_spawns s ! i) = SpSending res err" "parent_gone i res err s = Some s'"
    using assms(3) by (simp split: if_splits spawn_pc.splits)
  then show ?thesis by (rule inv_gone [OF assms(2)])
next
  case (ActCall p cfg)
  then show ?thesis using assms(3) inv_call [OF assms(2), of p cfg] by (simp split: if_splits)
next
  case (ActTake p)
  then show ?thesis using assms(3) inv_take [OF assms(2)] by simp
next
  case (ActClose p hard)
  then show ?thesis using assms(3) inv_close [OF assms(2), of p hard] by simp
qed

lemma sub_inv_reachable:
  "sub_reachable fmtD rt s0 s \<Longrightarrow> 0 < rt_maxConcurrent rt \<Longrightarrow> sub_start s0 \<Longrightarrow> sub_inv rt s"
  by (induction rule: sub_reachable.induct) (auto intro: sub_inv_start sub_inv_step)

lemma config_positive: "0 < rt_maxConcurrent (getSubTurnConfig cfg)" "0 < rt_maxDepth (getSubTurnConfig cfg)"
  "0 < rt_concurrencyTimeout (getSubTurnConfig cfg)" "0 < rt_defaultTimeout (getSubTurnConfig cfg)"
  by (simp_all add: getSubTurnConfig_def Let_def defaultMaxConcurrentSubTurns_def defaultMaxSubTurnDepth_def
      defaultConcurrencyTimeout_def defaultSubTurnTimeout_def)

section \<open>Progress\<close>

definition spawn_rank :: "spawn_pc \<Rightarrow> nat" where
  "spawn_rank pc =
     (case pc of SpWaiting \<Rightarrow> 0 | SpEntered \<Rightarrow> 1 | SpPrepared \<Rightarrow> 2 | SpStored \<Rightarrow> 3 | SpLinked \<Rightarrow> 4 | SpReady \<Rightarrow> 5
      | SpRunning \<Rightarrow> 6 | SpRan _ \<Rightarrow> 7 | SpCleanup _ _ \<Rightarrow> 8 | SpSending _ _ \<Rightarrow> 9 | SpDelivered _ _ \<Rightarrow> 10
      | SpLeaving _ _ \<Rightarrow> 11 | SpDone _ _ \<Rightarrow> 12)"

definition rank_of :: "nat \<Rightarrow> sub_state \<Rightarrow> nat" where
  "rank_of i s = spawn_rank (sp_pc (su_spawns s ! i))"

text \<open>A spawn that could go on: its next statement does not block.\<close>

definition can_step :: "subturn_runtime \<Rightarrow> nat \<Rightarrow> sub_state \<Rightarrow> bool" where
  "can_step rt i s \<longleftrightarrow> spawn_step rt i s \<noteq> None"

definition sends_to_full :: "nat \<Rightarrow> sub_state \<Rightarrow> bool" where
  "sends_to_full i s \<longleftrightarrow>
     (\<exists>res err ch. sp_pc (su_spawns s ! i) = SpSending res err \<and> ts_pendingResults (turn_of s (sp_parent (su_spawns s ! i))) = Some ch
        \<and> \<not> rc_closed ch \<and> rc_cap ch \<le> length (rc_buf ch))"

lemma rank_other: "i \<noteq> j \<Longrightarrow> rank_of i (upd_spawn j f s) = rank_of i s" "rank_of i (upd_loop g s) = rank_of i s"
  "i \<noteq> j \<Longrightarrow> rank_of i (goto_pc j pc s) = rank_of i s"
  by (simp_all add: rank_of_def goto_pc_def)

lemma rank_release: "rank_of i (release_slot j s) = rank_of i s"
  by (simp add: rank_of_def release_pc)

lemma rank_goto: "i < length (su_spawns s) \<Longrightarrow> rank_of i (goto_pc i pc s) = spawn_rank pc"
  by (simp add: rank_of_def goto_pc_def)

lemma rank_upd: "i < length (su_spawns s) \<Longrightarrow> rank_of i (upd_spawn i f s) = spawn_rank (sp_pc (f (su_spawns s ! i)))"
  by (simp add: rank_of_def)

lemma release_length [simp]: "length (su_spawns (release_slot i s)) = length (su_spawns s)"
  by (simp add: release_slot_def)

lemma rank_orphan: "i < length (su_spawns s) \<Longrightarrow> rank_of i (orphan i reason res err s) = 10"
  by (simp add: rank_of_def orphan_spawn spawn_rank_def)

text \<open>Every statement brings a spawn closer to its end.\<close>

lemma rank_step:
  assumes "i < length (su_spawns s)" "spawn_step rt i s = Some s'"
  shows "rank_of i s < rank_of i s'"
proof (cases "sp_pc (su_spawns s ! i)")
  case SpEntered
  obtain sp where "su_spawns (prepare_child rt i s) = (su_spawns s)[i := sp]"
    "sp_pc sp = SpPrepared \<or> (\<exists>err. sp_pc sp = SpLeaving None (Some err))"
    using prepare_spawn [of rt i s] by blast
  then show ?thesis using assms SpEntered by (auto simp: spawn_step_def rank_of_def spawn_rank_def)
next
  case (SpRan out)
  then show ?thesis using assms
    by (cases out) (auto simp: spawn_step_def after_run_def rank_goto rank_of_def [of i s] spawn_rank_def)
next
  case (SpCleanup res err)
  then show ?thesis using assms
    by (auto simp: spawn_step_def look_at_parent_def Let_def rank_goto rank_orphan rank_of_def [of i s] spawn_rank_def split: if_splits)
next
  case (SpSending res err)
  then show ?thesis using assms
    by (auto simp: spawn_step_def send_result_def Let_def rank_upd rank_orphan rank_of_def [of i s] spawn_rank_def
        split: option.splits if_splits)
qed (use assms in \<open>auto simp: spawn_step_def acquire_slot_def store_child_def link_child_def announce_child_def start_run_def
      end_spawn_def leave_spawn_def Let_def rank_goto rank_upd rank_of_def [of i s] spawn_rank_def split: option.splits if_splits\<close>)

text \<open>What a spawn waits for: its run, a slot, or room in a channel.\<close>

lemma spawn_blocked:
  assumes "sub_inv rt s" "i < length (su_spawns s)" "\<not> can_step rt i s" "\<forall>res err. sp_pc (su_spawns s ! i) \<noteq> SpDone res err"
  shows "sp_pc (su_spawns s ! i) = SpRunning \<or> sends_to_full i s
    \<or> sp_pc (su_spawns s ! i) = SpWaiting
      \<and> (\<exists>slots. ts_concurrencySem (turn_of s (sp_parent (su_spawns s ! i))) = Some (slots, slots) \<and> 0 < slots)"
proof -
  have o: "spawn_ok (su_fresh s) (su_spawns s ! i)" using assms(1,2) by (simp add: sub_inv_def spawns_ok_nth)
  have w: "sp_pc (su_spawns s ! i) = SpWaiting \<Longrightarrow> ts_concurrencySem (turn_of s (sp_parent (su_spawns s ! i))) \<noteq> None"
    "\<exists>res err. sp_pc (su_spawns s ! i) = SpSending res err \<Longrightarrow> ts_pendingResults (turn_of s (sp_parent (su_spawns s ! i))) \<noteq> None"
    using assms(1,2) unfolding sub_inv_def wait_ok_def by auto
  have sem: "used \<le> slots \<and> 0 < slots" if "ts_concurrencySem (turn_of s p) = Some (used, slots)" for p used slots
  proof -
    have "case ts_concurrencySem (turn_of s p) of None \<Rightarrow> holders p (slot_spawns s) = 0
      | Some (used, slots) \<Rightarrow> used = holders p (slot_spawns s) \<and> used \<le> slots \<and> 0 < slots"
      using assms(1) by (simp add: sub_inv_def slots_ok_def slots_fit_def slot_sems_def)
    then show ?thesis using that by simp
  qed
  show ?thesis
  proof (cases "sp_pc (su_spawns s ! i)")
    case SpWaiting
    then show ?thesis
      using assms(3) sem w(1) by (fastforce simp: can_step_def spawn_step_def acquire_slot_def Let_def split: option.splits if_splits)
  next
    case (SpSending res err)
    then show ?thesis
      using assms(3) w(2) by (auto simp: can_step_def spawn_step_def send_result_def sends_to_full_def Let_def split: option.splits if_splits)
  qed (use assms(3,4) o in \<open>auto simp: can_step_def spawn_step_def store_child_def link_child_def announce_child_def start_run_def
        end_spawn_def spawn_ok_def Let_def split: option.splits prod.splits\<close>)
qed

end
