(* ===== verification/SubTurnProps.thy ===== *)
theory SubTurnProps
  imports SubTurnInv
begin

text \<open>
  What holds of sub-turns in every reachable state, whatever the interleaving: the limits, the fate of
  the results, and progress; and the contract of the ephemeral session.
\<close>

section \<open>A run\<close>

text \<open>Actions in a row, for concrete runs.\<close>

fun sub_run :: "(int \<Rightarrow> string) \<Rightarrow> subturn_runtime \<Rightarrow> sub_action list \<Rightarrow> sub_state \<Rightarrow> sub_state option" where
  "sub_run fmtD rt [] s = Some s"
| "sub_run fmtD rt (a # as) s = (case sub_step fmtD rt a s of None \<Rightarrow> None | Some s' \<Rightarrow> sub_run fmtD rt as s')"

lemma sub_run_from: "sub_run fmtD rt as s = Some s' \<Longrightarrow> sub_reachable fmtD rt s0 s \<Longrightarrow> sub_reachable fmtD rt s0 s'"
  by (induction as arbitrary: s) (auto split: option.splits intro: sub_next)

lemmas sub_run_reachable = sub_run_from [OF _ sub_init]

text \<open>One turn with a single slot, as the fallback of a tool outside a turn builds it; two asynchronous spawns.\<close>

definition demo_sub :: sub_state where
  "demo_sub =
     \<lparr>su_loop =
        \<lparr>al_heap = (\<lambda>_. (idle_turn ''adhoc-root'')\<lparr>ts_pendingResults := Some \<lparr>rc_cap = 16, rc_buf = [], rc_closed = False\<rparr>,
                                              ts_concurrencySem := Some (0, 1)\<rparr>),
         al_active = [], al_steering = None, al_registry = None, al_stores = (\<lambda>_. \<lparr>ss_history = (\<lambda>_. []), ss_summary = (\<lambda>_. [])\<rparr>),
         al_storeOf = (\<lambda>q. q), al_events = []\<rparr>,
      su_agentOf = (\<lambda>_. Some ''main''), su_counter = 0, su_turnSeq = 0, su_fresh = 1, su_budgets = (\<lambda>_. 0), su_spawns = [],
      su_taken = (\<lambda>_. [])\<rparr>"

definition demo_settings :: subturn_settings where
  "demo_settings = \<lparr>st_MaxDepth = 0, st_MaxConcurrent = 0, st_DefaultTimeoutMinutes = 0, st_DefaultTokenBudget = 0, st_ConcurrencyTimeoutSec = 0\<rparr>"

definition demo_subconfig :: subturn_config where
  "demo_subconfig =
     \<lparr>sc_Model = ''m'', sc_Tools = [], sc_SystemPrompt = ''task'', sc_MaxTokens = 0, sc_Async = True, sc_Critical = False, sc_Timeout = 0,
      sc_MaxContextRunes = 0, sc_ActualSystemPrompt = [], sc_InitialMessages = [], sc_InitialTokenBudget = None\<rparr>"

definition demo_actions :: "sub_action list" where
  "demo_actions =
     [ActCall 0 demo_subconfig, ActCall 0 demo_subconfig, ActStep 0] @ replicate 5 (ActStep 0)
     @ [ActEndRun 0 (RunOk ''done'')] @ replicate 5 (ActStep 0) @ [ActStep 1, ActTake 0]"

definition demo_end :: sub_state where
  "demo_end = the (sub_run (\<lambda>_. []) (getSubTurnConfig demo_settings) demo_actions demo_sub)"

lemma demo_start: "sub_start demo_sub"
  by (simp add: sub_start_def demo_sub_def reports_def channel_of_def idle_turn_def newTurnState_def)

lemma demo_reachable: "sub_reachable (\<lambda>_. []) (getSubTurnConfig demo_settings) demo_sub demo_end"
proof -
  have "sub_run (\<lambda>_. []) (getSubTurnConfig demo_settings) demo_actions demo_sub \<noteq> None" by code_simp
  then show ?thesis unfolding demo_end_def by (auto intro: sub_run_reachable)
qed

section \<open>Limits\<close>

text \<open>
  Claim C6. In every reachable state, for any interleaving of spawns, runs, deliveries and turns that finish: a
  turn's semaphore counts exactly the spawns that hold one of its slots, and never more than it has; a child is
  one level below its parent and no deeper than the configured depth (the defaults apply to values that are not
  positive, so the limit is never zero); and a hard abort of any turn ends, with the remaining depth as fuel,
  having closed exactly the turns it reaches.
\<close>

theorem subturn_limits:
  assumes "sub_reachable fmtD (getSubTurnConfig st) s0 s" "sub_start s0"
  shows "(\<forall>p used slots. ts_concurrencySem (turn_of s p) = Some (used, slots) \<longrightarrow>
            used = length (filter (\<lambda>sp. sp_parent sp = p \<and> sp_sem sp) (su_spawns s)) \<and> used \<le> slots)
    \<and> (\<forall>sp\<in>set (su_spawns s). \<forall>childID c. sp_child sp = Some (childID, c) \<longrightarrow>
            ts_depth (turn_of s c) = ts_depth (turn_of s (sp_parent sp)) + 1 \<and> ts_depth (turn_of s c) \<le> rt_maxDepth (getSubTurnConfig st))
    \<and> (\<forall>r n. max (rt_maxDepth (getSubTurnConfig st) - ts_depth (turn_of s r)) 0 < int n \<longrightarrow>
            finish n True r (su_loop s) = Some (close_all (Collect (reaches (su_loop s) r)) (su_loop s)))"
proof -
  have i: "sub_inv (getSubTurnConfig st) s" using sub_inv_reachable [OF assms(1) config_positive(1) assms(2)] .
  have "used = length (filter (\<lambda>sp. sp_parent sp = p \<and> sp_sem sp) (su_spawns s)) \<and> used \<le> slots"
    if "ts_concurrencySem (turn_of s p) = Some (used, slots)" for p used slots
  proof -
    have "holders p (slot_spawns s) = length (filter (\<lambda>sp. sp_parent sp = p \<and> sp_sem sp) (su_spawns s))"
      by (simp add: holders_def slot_spawns_def filter_map comp_def)
    moreover have "case slot_sems s p of None \<Rightarrow> holders p (slot_spawns s) = 0
        | Some (used, slots) \<Rightarrow> used = holders p (slot_spawns s) \<and> used \<le> slots \<and> 0 < slots"
      using i by (simp add: sub_inv_def slots_ok_def slots_fit_def)
    ultimately show ?thesis using that by (simp add: slot_sems_def)
  qed
  moreover have "ts_depth (turn_of s c) = ts_depth (turn_of s (sp_parent sp)) + 1 \<and> ts_depth (turn_of s c) \<le> rt_maxDepth (getSubTurnConfig st)"
    if "sp \<in> set (su_spawns s)" "sp_child sp = Some (childID, c)" for sp childID c
  proof -
    have "(sp_parent sp, childID, c) \<in> children s" using that by (auto simp: children_def)
    then show ?thesis using i unfolding sub_inv_def kids_ok_def by blast
  qed
  moreover have "levelled (rt_maxDepth (getSubTurnConfig st)) (su_loop s)" using i kids_levelled by (simp add: sub_inv_def)
  then have "finish n True r (su_loop s) = Some (close_all (Collect (reaches (su_loop s) r)) (su_loop s))"
    if "max (rt_maxDepth (getSubTurnConfig st) - ts_depth (turn_of s r)) 0 < int n" for r n
    using finish_reaches [OF _ that, of "{}"] by (simp add: close_all_empty)
  ultimately show ?thesis by blast
qed

theorem subturn_limits_witness:
  "finish 4 True 0 (su_loop demo_end) = Some (close_all (Collect (reaches (su_loop demo_end) 0)) (su_loop demo_end))
   \<and> length (filter (\<lambda>sp. sp_parent sp = 0 \<and> sp_sem sp) (su_spawns demo_end)) = 1"
proof -
  have d: "max (rt_maxDepth (getSubTurnConfig demo_settings) - ts_depth (turn_of demo_end 0)) 0 < int 4" by code_simp
  have s: "ts_concurrencySem (turn_of demo_end 0) = Some (1, 1)" by code_simp
  note l = subturn_limits [OF demo_reachable demo_start]
  have "finish 4 True 0 (su_loop demo_end) = Some (close_all (Collect (reaches (su_loop demo_end) 0)) (su_loop demo_end))"
    using l d by blast
  moreover have "1 = length (filter (\<lambda>sp. sp_parent sp = 0 \<and> sp_sem sp) (su_spawns demo_end))"
    using l s by blast
  ultimately show ?thesis by simp
qed

section \<open>Results\<close>

text \<open>
  Claim C7. Each result of an asynchronous sub-turn meets exactly one fate. What a turn has taken from its channel,
  together with what is still in the channel, is exactly the results that its spawns sent, each once; every
  fate of a result that is not nil was announced by one event, delivered or orphan, and there are no other
  such events; a spawn that is done delivered or orphaned its result if and only if it was asynchronous and
  had a child, so a synchronous one never does both; and it has a result or an error.
\<close>

theorem subturn_results_once:
  assumes "sub_reachable fmtD (getSubTurnConfig st) s0 s" "sub_start s0"
  shows "(\<forall>p. mset (su_taken s p @ channel_of (turn_of s p))
            = image_mset spawn_result (filter_mset (\<lambda>sp. sp_parent sp = p \<and> sp_fate sp = Some FateSent) (mset (su_spawns s))))
    \<and> reports (su_loop s) = length (filter (\<lambda>sp. sp_fate sp \<noteq> None \<and> spawn_result sp \<noteq> None) (su_spawns s))
    \<and> (\<forall>sp\<in>set (su_spawns s). \<forall>res err. sp_pc sp = SpDone res err \<longrightarrow>
          (sp_fate sp \<noteq> None \<longleftrightarrow> sp_child sp \<noteq> None \<and> sc_Async (sp_cfg sp)) \<and> (res = None \<longrightarrow> err \<noteq> None))"
proof -
  have i: "sub_inv (getSubTurnConfig st) s" using sub_inv_reachable [OF assms(1) config_positive(1) assms(2)] .
  have "sent_to s p = image_mset spawn_result (filter_mset (\<lambda>sp. sp_parent sp = p \<and> sp_fate sp = Some FateSent) (mset (su_spawns s)))" for p
    by (simp add: sent_to_def sent_in_def fates_def filter_mset_image_mset multiset.map_comp comp_def)
  moreover have "length (filter reported (fates s)) = length (filter (\<lambda>sp. sp_fate sp \<noteq> None \<and> spawn_result sp \<noteq> None) (su_spawns s))"
    by (simp add: fates_def filter_map reported_def comp_def)
  moreover have "(sp_fate sp \<noteq> None \<longleftrightarrow> sp_child sp \<noteq> None \<and> sc_Async (sp_cfg sp)) \<and> (res = None \<longrightarrow> err \<noteq> None)"
    if "sp \<in> set (su_spawns s)" "sp_pc sp = SpDone res err" for sp res err
  proof -
    have "spawn_ok (su_fresh s) sp" using i that(1) by (simp add: sub_inv_def spawns_ok_def list_all_iff)
    then show ?thesis using that(2) by (simp add: spawn_ok_def)
  qed
  ultimately show ?thesis using i by (auto simp: sub_inv_def delivery_ok_def)
qed

theorem subturn_results_once_witness:
  "mset (su_taken demo_end 0 @ channel_of (turn_of demo_end 0))
     = image_mset spawn_result (filter_mset (\<lambda>sp. sp_parent sp = 0 \<and> sp_fate sp = Some FateSent) (mset (su_spawns demo_end)))
   \<and> length (su_taken demo_end 0) = 1 \<and> reports (su_loop demo_end) = 1
   \<and> length (filter (\<lambda>sp. sp_fate sp \<noteq> None \<and> spawn_result sp \<noteq> None) (su_spawns demo_end)) = 1"
proof -
  have "length (su_taken demo_end 0) = 1" "reports (su_loop demo_end) = 1" by code_simp+
  then show ?thesis using subturn_results_once [OF demo_reachable demo_start] by metis
qed

section \<open>Progress\<close>

text \<open>
  Claim C8. A spawn that is not done can take its next step, or it waits for its own run, or for a slot while all
  slots of its parent are held, or for room in the full channel of a parent that has not finished. Whoever holds a
  slot is on the way to the end of its run, and never waits for room in a channel unless its run
  panicked, so releasing the slot before the delivery rules out the deadlock of full semaphore and full
  channel except after a panic. Every step of a spawn raises its rank, so a spawn takes at most twelve steps.
\<close>

theorem subturn_progress:
  assumes "sub_reachable fmtD (getSubTurnConfig st) s0 s" "sub_start s0" "i < length (su_spawns s)"
    "\<forall>res err. sp_pc (su_spawns s ! i) \<noteq> SpDone res err"
  shows "(can_step (getSubTurnConfig st) i s \<or> sp_pc (su_spawns s ! i) = SpRunning \<or> sends_to_full i s
      \<or> sp_pc (su_spawns s ! i) = SpWaiting
        \<and> (\<exists>j<length (su_spawns s). sp_parent (su_spawns s ! j) = sp_parent (su_spawns s ! i) \<and> sp_sem (su_spawns s ! j)
             \<and> (can_step (getSubTurnConfig st) j s \<or> sp_pc (su_spawns s ! j) = SpRunning
                \<or> (\<exists>err. sends_to_full j s \<and> sp_pc (su_spawns s ! j) = SpSending None err))))
    \<and> (\<forall>s'. spawn_step (getSubTurnConfig st) i s = Some s' \<longrightarrow> rank_of i s < rank_of i s' \<and> rank_of i s' \<le> 12)"
proof -
  have i: "sub_inv (getSubTurnConfig st) s" using sub_inv_reachable [OF assms(1) config_positive(1) assms(2)] .
  have rank: "spawn_rank pc \<le> 12" for pc by (cases pc) (simp_all add: spawn_rank_def)
  have step: "\<forall>s'. spawn_step (getSubTurnConfig st) i s = Some s' \<longrightarrow> rank_of i s < rank_of i s' \<and> rank_of i s' \<le> 12"
    using rank_step [OF assms(3)] rank by (simp add: rank_of_def)
  have holder: "can_step (getSubTurnConfig st) j s \<or> sp_pc (su_spawns s ! j) = SpRunning
      \<or> (\<exists>err. sends_to_full j s \<and> sp_pc (su_spawns s ! j) = SpSending None err)"
    if "j < length (su_spawns s)" "sp_sem (su_spawns s ! j)" for j
  proof (cases "can_step (getSubTurnConfig st) j s")
    case False
    have o: "spawn_ok (su_fresh s) (su_spawns s ! j)" using i that(1) by (simp add: sub_inv_def spawns_ok_nth)
    then have "\<forall>res err. sp_pc (su_spawns s ! j) \<noteq> SpDone res err" "sp_pc (su_spawns s ! j) \<noteq> SpWaiting"
      using that(2) by (auto simp: spawn_ok_def)
    from spawn_blocked [OF i that(1) False this(1)] this(2) show ?thesis
      using o that(2) by (auto simp: sends_to_full_def spawn_ok_def)
  qed simp
  have "\<exists>j<length (su_spawns s). sp_parent (su_spawns s ! j) = p \<and> sp_sem (su_spawns s ! j)"
    if "ts_concurrencySem (turn_of s p) = Some (slots, slots)" "0 < slots" for p slots
  proof -
    have "case slot_sems s p of None \<Rightarrow> holders p (slot_spawns s) = 0
        | Some (used, slots) \<Rightarrow> used = holders p (slot_spawns s) \<and> used \<le> slots \<and> 0 < slots"
      using i by (simp add: sub_inv_def slots_ok_def slots_fit_def)
    then have "0 < holders p (slot_spawns s)" using that by (simp add: slot_sems_def)
    then obtain x where "x \<in> set (slot_spawns s)" "x = (p, True)" by (auto simp: holders_def filter_empty_conv)
    then show ?thesis by (auto simp: slot_spawns_def in_set_conv_nth)
  qed
  then show ?thesis using spawn_blocked [OF i assms(3) _ assms(4)] holder step by blast
qed

theorem subturn_progress_witness:
  "can_step (getSubTurnConfig demo_settings) 1 demo_end \<or> sp_pc (su_spawns demo_end ! 1) = SpRunning \<or> sends_to_full 1 demo_end
   \<or> sp_pc (su_spawns demo_end ! 1) = SpWaiting"
proof -
  have "sp_pc (su_spawns demo_end ! 1) = SpEntered" "length (su_spawns demo_end) = 2" by code_simp+
  then have "1 < length (su_spawns demo_end)" "\<forall>res err. sp_pc (su_spawns demo_end ! 1) \<noteq> SpDone res err" by simp_all
  from subturn_progress [OF demo_reachable demo_start this] show ?thesis by blast
qed

section \<open>The ephemeral session\<close>

datatype eph_op = EphAdd message | EphSet "message list" | EphTruncate int | EphSummary string

fun eph_step :: "string \<Rightarrow> eph_op \<Rightarrow> ephemeral_store \<Rightarrow> ephemeral_store" where
  "eph_step key (EphAdd m) e = es_addFullMessage key m e"
| "eph_step key (EphSet h) e = es_setHistory key h e"
| "eph_step key (EphTruncate n) e = es_truncateHistory key n e"
| "eph_step key (EphSummary t) e = es_setSummary key t e"

text \<open>What the store would hold without its limit.\<close>

fun eph_spec :: "eph_op \<Rightarrow> message list \<Rightarrow> message list" where
  "eph_spec (EphAdd m) h = h @ [m]"
| "eph_spec (EphSet h') h = h'"
| "eph_spec (EphTruncate n) h = keep_last n h"
| "eph_spec (EphSummary t) h = h"

lemma eph_trunc: "es_history (truncateLocked e) = keep_last 50 (es_history e)"
  by (simp add: truncateLocked_def keep_last_def maxEphemeralHistorySize_def)

text \<open>
  The session of a sub-turn, whatever the keys of the calls, holds at every moment the last fifty messages of
  what an unlimited session would hold, so never more than fifty; a truncation to fewer keeps the
  last ones of those, and one to nothing empties it.
\<close>

theorem ephemeral_keeps_last:
  "es_history (fold (\<lambda>(k, op). eph_step k op) ops (newEphemeralSession []))
     = keep_last 50 (fold (\<lambda>(k, op). eph_spec op) ops [])"
proof (induction ops rule: rev_induct)
  case Nil
  show ?case by (simp add: newEphemeralSession_def keep_last_def)
next
  case (snoc x ops)
  define h where "h = fold (\<lambda>(k, op). eph_spec op) ops []"
  obtain k op where x: "x = (k, op)" by (rule prod.exhaust)
  show ?case
  proof (cases op)
    case (EphAdd m)
    have "50 < length h \<Longrightarrow> Suc (length h - 50) = length h - 49" by simp
    then show ?thesis using snoc EphAdd
      by (simp add: x es_addFullMessage_def eph_trunc h_def [symmetric]) (auto simp: keep_last_def)
  next
    case (EphTruncate n)
    have "50 \<le> n \<Longrightarrow> nat n \<le> 50 \<Longrightarrow> nat n = 50" by simp
    then show ?thesis using snoc EphTruncate
      by (auto simp: x es_truncateHistory_def h_def [symmetric] keep_last_def min_def)
  qed (use snoc in \<open>simp_all add: x es_setHistory_def es_setSummary_def eph_trunc\<close>)
qed

end
