(* ===== verification/Bus.thy ===== *)
theory Bus
  imports Ebi_Prelude "HOL-Library.Multiset"
begin

text \<open>
  \<^verbatim>\<open>pkg/bus\<close>: the messages between channels and agent, the bounded Go channels they go through, the observers,
  and the protocol of \<^verbatim>\<open>publish\<close> against \<^verbatim>\<open>Close\<close>. Publishers and the closing goroutine interleave between
  the statements that touch shared state; where a \<^verbatim>\<open>select\<close> has several ready cases the action says which one
  is taken.
\<close>

section \<open>Messages\<close>

record bus_peer =
  bp_Kind :: string
  bp_ID :: string

record sender_info =
  si_Platform :: string
  si_PlatformID :: string
  si_CanonicalID :: string
  si_Username :: string
  si_DisplayName :: string

record inbound_message =
  in_Channel :: string
  in_SenderID :: string
  in_Sender :: sender_info
  in_ChatID :: string
  in_Content :: string
  in_Media :: "string list"
  in_Peer :: bus_peer
  in_MessageID :: string
  in_MediaScope :: string
  in_SessionKey :: string
  in_Metadata :: "(string \<times> string) list"

record outbound_message =
  out_Channel :: string
  out_ChatID :: string
  out_Content :: string
  out_ReplyToMessageID :: string
  out_Metadata :: "(string \<times> string) list"

record media_part =
  mp_Type :: string
  mp_Ref :: string
  mp_Caption :: string
  mp_Filename :: string
  mp_ContentType :: string

record outbound_media_message =
  om_Channel :: string
  om_ChatID :: string
  om_Parts :: "media_part list"

record audio_chunk =
  ac_SessionID :: string
  ac_SpeakerID :: string
  ac_ChatID :: string
  ac_Channel :: string
  ac_Sequence :: nat
  ac_Timestamp :: nat
  ac_SampleRate :: int
  ac_Channels :: int
  ac_Format :: string
  ac_Data :: string

record voice_control =
  vc_SessionID :: string
  vc_ChatID :: string
  vc_Type :: string
  vc_Action :: string

section \<open>The bus\<close>

datatype bus_item =
    BusInbound inbound_message
  | BusOutbound outbound_message
  | BusMedia outbound_media_message
  | BusAudio audio_chunk
  | BusVoice voice_control

datatype bus_chan = ChanInbound | ChanOutbound | ChanMedia | ChanAudio | ChanVoice

fun chan_of :: "bus_item \<Rightarrow> bus_chan" where
  "chan_of (BusInbound _) = ChanInbound"
| "chan_of (BusOutbound _) = ChanOutbound"
| "chan_of (BusMedia _) = ChanMedia"
| "chan_of (BusAudio _) = ChanAudio"
| "chan_of (BusVoice _) = ChanVoice"

definition defaultBusBufferSize :: nat where "defaultBusBufferSize = 64"

definition chan_cap :: "bus_chan \<Rightarrow> nat" where
  "chan_cap c = (if c = ChanAudio then defaultBusBufferSize * 4 else defaultBusBufferSize)"

datatype publish_error = PublishClosed | PublishContext

text \<open>Where a publisher is; \<open>PubPanicked\<close> is a send on a closed channel.\<close>

datatype pub_pc = PubStart | PubChecked | PubPassed | PubWaiting | PubSent | PubReturned | PubFailed publish_error | PubPanicked

record publisher =
  pb_item :: bus_item
  pb_pc :: pub_pc

datatype close_pc = CloseIdle | CloseSignalled | CloseFlagged | CloseWaited | CloseClosed | CloseDrained

text \<open>The last three fields are history: what the channels accepted, what was received, what observers were told.\<close>

record message_bus =
  mb_buf :: "bus_chan \<Rightarrow> bus_item list"
  mb_observers :: "(nat \<times> nat) list"
  mb_nextID :: nat
  mb_done :: bool
  mb_closed :: bool
  mb_wg :: nat
  mb_chClosed :: bool
  mb_closing :: close_pc
  mb_pubs :: "publisher list"
  mb_sent :: "bus_chan \<Rightarrow> bus_item list"
  mb_received :: "bus_chan \<Rightarrow> bus_item list"
  mb_told :: "(nat \<times> bus_item) list"

definition newMessageBus :: message_bus where
  "newMessageBus =
     \<lparr>mb_buf = (\<lambda>_. []), mb_observers = [], mb_nextID = 0, mb_done = False, mb_closed = False, mb_wg = 0, mb_chClosed = False,
      mb_closing = CloseIdle, mb_pubs = [], mb_sent = (\<lambda>_. []), mb_received = (\<lambda>_. []), mb_told = []\<rparr>"

section \<open>Observers\<close>

definition add_observer :: "nat \<Rightarrow> message_bus \<Rightarrow> nat \<times> message_bus" where
  "add_observer ob b = (let oid = Suc (mb_nextID b) in (oid, b\<lparr>mb_nextID := oid, mb_observers := mb_observers b @ [(oid, ob)]\<rparr>))"

fun remove_first :: "nat \<Rightarrow> (nat \<times> nat) list \<Rightarrow> (nat \<times> nat) list" where
  "remove_first oid [] = []"
| "remove_first oid (e # es) = (if fst e = oid then es else e # remove_first oid es)"

definition cancel_observer :: "nat \<Rightarrow> message_bus \<Rightarrow> message_bus" where
  "cancel_observer oid b = b\<lparr>mb_observers := remove_first oid (mb_observers b)\<rparr>"

definition observer_snapshot :: "message_bus \<Rightarrow> nat list" where
  "observer_snapshot b = map snd (mb_observers b)"

text \<open>Only inbound and outbound messages are shown to observers.\<close>

definition dispatch :: "bus_item \<Rightarrow> message_bus \<Rightarrow> message_bus" where
  "dispatch x b =
     (if chan_of x = ChanInbound \<or> chan_of x = ChanOutbound
      then b\<lparr>mb_told := mb_told b @ map (\<lambda>ob. (ob, x)) (observer_snapshot b)\<rparr> else b)"

section \<open>Publishing\<close>

definition set_pub :: "nat \<Rightarrow> pub_pc \<Rightarrow> message_bus \<Rightarrow> message_bus" where
  "set_pub i pc b = b\<lparr>mb_pubs := (mb_pubs b)[i := (mb_pubs b ! i)\<lparr>pb_pc := pc\<rparr>]\<rparr>"

definition start_publish :: "bus_item \<Rightarrow> message_bus \<Rightarrow> message_bus" where
  "start_publish x b = b\<lparr>mb_pubs := mb_pubs b @ [\<lparr>pb_item = x, pb_pc = PubStart\<rparr>]\<rparr>"

definition check_closed :: "nat \<Rightarrow> message_bus \<Rightarrow> message_bus" where
  "check_closed i b = set_pub i (if mb_closed b then PubFailed PublishClosed else PubChecked) b"

text \<open>The first \<^verbatim>\<open>select\<close> has a default, taken when neither the context nor the bus is done.\<close>

definition check_done :: "bool \<Rightarrow> bool \<Rightarrow> nat \<Rightarrow> message_bus \<Rightarrow> message_bus" where
  "check_done ctxDone takeCtx i b =
     (if ctxDone \<and> (takeCtx \<or> \<not> mb_done b) then set_pub i (PubFailed PublishContext) b
      else if mb_done b then set_pub i (PubFailed PublishClosed) b
      else set_pub i PubPassed b)"

definition join_wg :: "nat \<Rightarrow> message_bus \<Rightarrow> message_bus" where
  "join_wg i b = set_pub i PubWaiting (b\<lparr>mb_wg := Suc (mb_wg b)\<rparr>)"

definition leave_wg :: "nat \<Rightarrow> pub_pc \<Rightarrow> message_bus \<Rightarrow> message_bus" where
  "leave_wg i pc b = set_pub i pc (b\<lparr>mb_wg := mb_wg b - 1\<rparr>)"

text \<open>The second \<^verbatim>\<open>select\<close>, with the deferred \<^verbatim>\<open>wg.Done\<close>: the send, the context, or the bus.\<close>

definition try_send :: "nat \<Rightarrow> message_bus \<Rightarrow> message_bus option" where
  "try_send i b =
     (let x = pb_item (mb_pubs b ! i); c = chan_of x
      in if mb_chClosed b then Some (leave_wg i PubPanicked b)
         else if length (mb_buf b c) < chan_cap c
         then Some (leave_wg i PubSent (b\<lparr>mb_buf := (mb_buf b)(c := mb_buf b c @ [x]), mb_sent := (mb_sent b)(c := mb_sent b c @ [x])\<rparr>))
         else None)"

definition give_up_done :: "nat \<Rightarrow> message_bus \<Rightarrow> message_bus option" where
  "give_up_done i b = (if mb_done b then Some (leave_wg i (PubFailed PublishClosed) b) else None)"

definition finish_publish :: "nat \<Rightarrow> message_bus \<Rightarrow> message_bus" where
  "finish_publish i b = set_pub i PubReturned (dispatch (pb_item (mb_pubs b ! i)) b)"

section \<open>Closing\<close>

fun close_step :: "message_bus \<Rightarrow> message_bus option" where
  "close_step b =
     (case mb_closing b of
        CloseIdle \<Rightarrow> Some (b\<lparr>mb_done := True, mb_closing := CloseSignalled\<rparr>)
      | CloseSignalled \<Rightarrow> Some (b\<lparr>mb_closed := True, mb_closing := CloseFlagged\<rparr>)
      | CloseFlagged \<Rightarrow> if mb_wg b = 0 then Some (b\<lparr>mb_closing := CloseWaited\<rparr>) else None
      | CloseWaited \<Rightarrow> Some (b\<lparr>mb_chClosed := True, mb_closing := CloseClosed\<rparr>)
      | CloseClosed \<Rightarrow> Some (b\<lparr>mb_buf := (\<lambda>_. []), mb_closing := CloseDrained\<rparr>)
      | CloseDrained \<Rightarrow> None)"

section \<open>All the steps\<close>

datatype bus_act =
    BaPublish bus_item
  | BaStep nat
  | BaCheckDone nat bool bool
  | BaContext nat
  | BaDone nat
  | BaReceive bus_chan
  | BaClose
  | BaObserve nat
  | BaCancel nat

definition publish_step :: "nat \<Rightarrow> message_bus \<Rightarrow> message_bus option" where
  "publish_step i b =
     (case pb_pc (mb_pubs b ! i) of
        PubStart \<Rightarrow> Some (check_closed i b)
      | PubPassed \<Rightarrow> Some (join_wg i b)
      | PubWaiting \<Rightarrow> try_send i b
      | PubSent \<Rightarrow> Some (finish_publish i b)
      | _ \<Rightarrow> None)"

fun bus_action :: "bus_act \<Rightarrow> message_bus \<Rightarrow> message_bus option" where
  "bus_action (BaPublish x) b = Some (start_publish x b)"
| "bus_action (BaStep i) b = (if i < length (mb_pubs b) then publish_step i b else None)"
| "bus_action (BaCheckDone i ctxDone takeCtx) b =
     (if i < length (mb_pubs b) \<and> pb_pc (mb_pubs b ! i) = PubChecked then Some (check_done ctxDone takeCtx i b) else None)"
| "bus_action (BaContext i) b =
     (if i < length (mb_pubs b) \<and> pb_pc (mb_pubs b ! i) = PubWaiting then Some (leave_wg i (PubFailed PublishContext) b) else None)"
| "bus_action (BaDone i) b =
     (if i < length (mb_pubs b) \<and> pb_pc (mb_pubs b ! i) = PubWaiting then give_up_done i b else None)"
| "bus_action (BaReceive c) b =
     (case mb_buf b c of
        [] \<Rightarrow> None
      | x # xs \<Rightarrow> Some (b\<lparr>mb_buf := (mb_buf b)(c := xs), mb_received := (mb_received b)(c := mb_received b c @ [x])\<rparr>))"
| "bus_action BaClose b = close_step b"
| "bus_action (BaObserve ob) b = Some (snd (add_observer ob b))"
| "bus_action (BaCancel oid) b = Some (cancel_observer oid b)"

fun bus_run :: "bus_act list \<Rightarrow> message_bus \<Rightarrow> message_bus option" where
  "bus_run [] b = Some b"
| "bus_run (a # as) b = (case bus_action a b of None \<Rightarrow> None | Some b' \<Rightarrow> bus_run as b')"

section \<open>What the bus promises\<close>

definition accepted_by :: "bus_chan \<Rightarrow> publisher list \<Rightarrow> bus_item multiset" where
  "accepted_by c ps = image_mset pb_item
     (filter_mset (\<lambda>p. (pb_pc p = PubSent \<or> pb_pc p = PubReturned) \<and> chan_of (pb_item p) = c) (mset ps))"

definition waiting_pubs :: "publisher list \<Rightarrow> nat" where
  "waiting_pubs ps = length (filter (\<lambda>p. pb_pc p = PubWaiting) ps)"

definition chan_inv :: "message_bus \<Rightarrow> bool" where
  "chan_inv b \<longleftrightarrow>
     (\<forall>c. length (mb_buf b c) \<le> chan_cap c \<and> prefix (mb_received b c @ mb_buf b c) (mb_sent b c)
        \<and> (mb_closing b \<noteq> CloseDrained \<longrightarrow> mb_sent b c = mb_received b c @ mb_buf b c)
        \<and> (mb_closing b = CloseDrained \<longrightarrow> mb_buf b c = []))"

definition phase_inv :: "message_bus \<Rightarrow> bool" where
  "phase_inv b \<longleftrightarrow>
     (mb_done b \<longleftrightarrow> mb_closing b \<noteq> CloseIdle)
     \<and> (mb_closed b \<longleftrightarrow> mb_closing b \<notin> {CloseIdle, CloseSignalled})
     \<and> (mb_chClosed b \<longleftrightarrow> mb_closing b \<in> {CloseClosed, CloseDrained})"

definition pub_inv :: "message_bus \<Rightarrow> bool" where
  "pub_inv b \<longleftrightarrow>
     (\<forall>c. mset (mb_sent b c) = accepted_by c (mb_pubs b))
     \<and> mb_wg b = waiting_pubs (mb_pubs b)
     \<and> (\<forall>p\<in>set (mb_pubs b). (pb_pc p = PubPanicked \<longrightarrow> mb_chClosed b) \<and> (pb_pc p = PubFailed PublishClosed \<longrightarrow> mb_done b))"

lemma accepted_update:
  assumes "i < length ps" "pb_pc (ps ! i) \<noteq> PubSent" "pb_pc (ps ! i) \<noteq> PubReturned"
  shows "accepted_by c (ps[i := (ps ! i)\<lparr>pb_pc := pc\<rparr>])
    = (if (pc = PubSent \<or> pc = PubReturned) \<and> chan_of (pb_item (ps ! i)) = c then add_mset (pb_item (ps ! i)) (accepted_by c ps) else accepted_by c ps)"
  using assms by (auto simp: accepted_by_def mset_update filter_diff_mset)

lemma accepted_return:
  assumes "i < length ps" "pb_pc (ps ! i) = PubSent"
  shows "accepted_by c (ps[i := (ps ! i)\<lparr>pb_pc := PubReturned\<rparr>]) = accepted_by c ps"
proof -
  obtain M where "mset ps = add_mset (ps ! i) M" using assms(1) by (metis insert_DiffM nth_mem_mset)
  then show ?thesis using assms by (simp add: accepted_by_def mset_update)
qed

lemma waiting_update:
  assumes "i < length ps"
  shows "waiting_pubs (ps[i := p]) + (if pb_pc (ps ! i) = PubWaiting then 1 else 0) = waiting_pubs ps + (if pb_pc p = PubWaiting then 1 else 0)"
  unfolding waiting_pubs_def using assms
proof (induction ps arbitrary: i)
  case (Cons a ps)
  then show ?case by (cases i) auto
qed simp

lemma accepted_new: "accepted_by c (ps @ [\<lparr>pb_item = x, pb_pc = PubStart\<rparr>]) = accepted_by c ps"
  by (simp add: accepted_by_def)

lemma waiting_new: "waiting_pubs (ps @ [\<lparr>pb_item = x, pb_pc = PubStart\<rparr>]) = waiting_pubs ps"
  by (simp add: waiting_pubs_def)

lemma mem_update: "p \<in> set (xs[i := y]) \<Longrightarrow> p \<in> set xs \<or> p = y"
  using set_update_subset_insert [of xs i y] by blast

lemma set_pub_sel [simp]:
  "mb_pubs (set_pub i pc b) = (mb_pubs b)[i := (mb_pubs b ! i)\<lparr>pb_pc := pc\<rparr>]" "mb_buf (set_pub i pc b) = mb_buf b"
  "mb_sent (set_pub i pc b) = mb_sent b" "mb_received (set_pub i pc b) = mb_received b" "mb_wg (set_pub i pc b) = mb_wg b"
  "mb_done (set_pub i pc b) = mb_done b" "mb_closed (set_pub i pc b) = mb_closed b" "mb_chClosed (set_pub i pc b) = mb_chClosed b"
  "mb_closing (set_pub i pc b) = mb_closing b"
  by (simp_all add: set_pub_def)

text \<open>A publisher moves on: neither a send nor a panic.\<close>

lemma pub_move:
  assumes "pub_inv b" "i < length (mb_pubs b)" "pb_pc (mb_pubs b ! i) \<notin> {PubSent, PubReturned}" "pc \<notin> {PubSent, PubReturned, PubPanicked}"
    "mb_sent b' = mb_sent b" "mb_pubs b' = (mb_pubs b)[i := (mb_pubs b ! i)\<lparr>pb_pc := pc\<rparr>]" "mb_chClosed b' = mb_chClosed b"
    "mb_done b' = mb_done b" "pc = PubFailed PublishClosed \<Longrightarrow> mb_done b"
    "mb_wg b' + (if pb_pc (mb_pubs b ! i) = PubWaiting then 1 else 0) = mb_wg b + (if pc = PubWaiting then 1 else 0)"
  shows "pub_inv b'"
proof -
  have "mset (mb_sent b' c) = accepted_by c (mb_pubs b')" for c
    using assms(1-4) accepted_update [OF assms(2), of c pc] by (simp add: pub_inv_def assms(5,6))
  moreover have "mb_wg b' = waiting_pubs (mb_pubs b')"
    using assms(1,10) waiting_update [OF assms(2), of "(mb_pubs b ! i)\<lparr>pb_pc := pc\<rparr>"] by (simp add: pub_inv_def assms(6))
  moreover have "\<forall>p\<in>set (mb_pubs b'). (pb_pc p = PubPanicked \<longrightarrow> mb_chClosed b') \<and> (pb_pc p = PubFailed PublishClosed \<longrightarrow> mb_done b')"
    using assms(1,4,9) by (auto simp: assms(6-8) pub_inv_def dest!: mem_update)
  ultimately show ?thesis unfolding pub_inv_def by blast
qed

definition bus_ok :: "message_bus \<Rightarrow> bool" where
  "bus_ok b \<longleftrightarrow> chan_inv b \<and> phase_inv b \<and> pub_inv b"

lemma bus_ok_new: "bus_ok newMessageBus"
  by (simp add: bus_ok_def chan_inv_def phase_inv_def pub_inv_def newMessageBus_def accepted_by_def waiting_pubs_def)

lemma still_waiting: "pub_inv b \<Longrightarrow> i < length (mb_pubs b) \<Longrightarrow> pb_pc (mb_pubs b ! i) = PubWaiting \<Longrightarrow> 0 < mb_wg b"
  using waiting_update [of i "mb_pubs b" "(mb_pubs b ! i)\<lparr>pb_pc := PubStart\<rparr>"] by (simp add: pub_inv_def)

lemma ok_send:
  assumes "bus_ok b" "i < length (mb_pubs b)" "pb_pc (mb_pubs b ! i) = PubWaiting" "try_send i b = Some b'"
  shows "bus_ok b'"
proof -
  define x where "x = pb_item (mb_pubs b ! i)"
  have w: "0 < mb_wg b" using still_waiting assms(1-3) by (simp add: bus_ok_def)
  have p: "pub_inv b" using assms(1) by (simp add: bus_ok_def)
  show ?thesis
  proof (cases "mb_chClosed b")
    case True
    then have b': "b' = leave_wg i PubPanicked b" using assms(4) by (simp add: try_send_def Let_def)
    have "pub_inv b'"
      using p assms(2,3) w True accepted_update [OF assms(2), of _ PubPanicked] waiting_update [OF assms(2), of "(mb_pubs b ! i)\<lparr>pb_pc := PubPanicked\<rparr>"]
      by (auto simp: pub_inv_def b' leave_wg_def dest!: mem_update)
    then show ?thesis using assms(1) by (simp add: bus_ok_def b' leave_wg_def chan_inv_def phase_inv_def)
  next
    case False
    then have room: "length (mb_buf b (chan_of x)) < chan_cap (chan_of x)"
      and b': "b' = leave_wg i PubSent (b\<lparr>mb_buf := (mb_buf b)(chan_of x := mb_buf b (chan_of x) @ [x]),
         mb_sent := (mb_sent b)(chan_of x := mb_sent b (chan_of x) @ [x])\<rparr>)"
      using assms(4) by (simp_all add: try_send_def Let_def x_def split: if_splits)
    have nd: "mb_closing b \<noteq> CloseDrained" using assms(1) False by (auto simp: bus_ok_def phase_inv_def)
    have "chan_inv b'" using assms(1) nd room by (simp add: bus_ok_def chan_inv_def b' leave_wg_def)
    moreover have "pub_inv b'"
    proof -
      have "mset (mb_sent b' c) = accepted_by c (mb_pubs b')" for c
        using p assms(2,3) accepted_update [OF assms(2), of c PubSent] by (simp add: pub_inv_def b' leave_wg_def x_def)
      moreover have "mb_wg b' = waiting_pubs (mb_pubs b')"
        using p assms(3) waiting_update [OF assms(2), of "(mb_pubs b ! i)\<lparr>pb_pc := PubSent\<rparr>"] by (simp add: pub_inv_def b' leave_wg_def)
      moreover have "\<forall>q\<in>set (mb_pubs b'). (pb_pc q = PubPanicked \<longrightarrow> mb_chClosed b') \<and> (pb_pc q = PubFailed PublishClosed \<longrightarrow> mb_done b')"
        using p by (auto simp: b' leave_wg_def pub_inv_def dest!: mem_update)
      ultimately show ?thesis unfolding pub_inv_def by blast
    qed
    ultimately show ?thesis using assms(1) by (simp add: bus_ok_def b' leave_wg_def phase_inv_def)
  qed
qed

lemma dispatch_sel [simp]:
  "mb_pubs (dispatch x b) = mb_pubs b" "mb_buf (dispatch x b) = mb_buf b" "mb_sent (dispatch x b) = mb_sent b"
  "mb_received (dispatch x b) = mb_received b" "mb_wg (dispatch x b) = mb_wg b" "mb_done (dispatch x b) = mb_done b"
  "mb_closed (dispatch x b) = mb_closed b" "mb_chClosed (dispatch x b) = mb_chClosed b" "mb_closing (dispatch x b) = mb_closing b"
  by (simp_all add: dispatch_def)

lemma inv_frames [simp]:
  "chan_inv (set_pub i pc b) = chan_inv b" "phase_inv (set_pub i pc b) = phase_inv b"
  "chan_inv (dispatch x b) = chan_inv b" "phase_inv (dispatch x b) = phase_inv b"
  "chan_inv (b\<lparr>mb_wg := n\<rparr>) = chan_inv b" "phase_inv (b\<lparr>mb_wg := n\<rparr>) = phase_inv b"
  "chan_inv (b\<lparr>mb_pubs := ps\<rparr>) = chan_inv b" "phase_inv (b\<lparr>mb_pubs := ps\<rparr>) = phase_inv b"
  "chan_inv (b\<lparr>mb_nextID := n\<rparr>) = chan_inv b" "phase_inv (b\<lparr>mb_nextID := n\<rparr>) = phase_inv b"
  "chan_inv (b\<lparr>mb_observers := os\<rparr>) = chan_inv b" "phase_inv (b\<lparr>mb_observers := os\<rparr>) = phase_inv b"
  "pub_inv (b\<lparr>mb_nextID := n\<rparr>) = pub_inv b" "pub_inv (b\<lparr>mb_observers := os\<rparr>) = pub_inv b"
  by (simp_all add: chan_inv_def phase_inv_def pub_inv_def)

lemma ok_publish_step:
  assumes "bus_ok b" "i < length (mb_pubs b)" "publish_step i b = Some b'"
  shows "bus_ok b'"
proof -
  have p: "pub_inv b" "chan_inv b" "phase_inv b" using assms(1) by (simp_all add: bus_ok_def)
  show ?thesis
  proof (cases "pb_pc (mb_pubs b ! i)")
    case PubStart
    have "pub_inv (check_closed i b)"
      by (rule pub_move [OF p(1) assms(2), of "if mb_closed b then PubFailed PublishClosed else PubChecked"])
        (use PubStart p(3) in \<open>auto simp: check_closed_def phase_inv_def\<close>)
    then show ?thesis
      using assms(3) PubStart p by (auto simp: publish_step_def bus_ok_def check_closed_def)
  next
    case PubPassed
    have "pub_inv (join_wg i b)"
      by (rule pub_move [OF p(1) assms(2), of PubWaiting]) (use PubPassed in \<open>auto simp: join_wg_def\<close>)
    then show ?thesis
      using assms(3) PubPassed p by (auto simp: publish_step_def bus_ok_def join_wg_def)
  next
    case PubWaiting
    then show ?thesis using ok_send [OF assms(1,2)] assms(3) by (simp add: publish_step_def)
  next
    case PubSent
    have "pub_inv (finish_publish i b)"
      using p(1) accepted_return [OF assms(2) PubSent] waiting_update [OF assms(2), of "(mb_pubs b ! i)\<lparr>pb_pc := PubReturned\<rparr>"] PubSent
      by (auto simp: pub_inv_def finish_publish_def dest!: mem_update)
    then show ?thesis
      using assms(3) PubSent p
      by (auto simp: publish_step_def bus_ok_def finish_publish_def)
  qed (use assms(3) in \<open>auto simp: publish_step_def\<close>)
qed

lemma ok_close:
  assumes "bus_ok b" "close_step b = Some b'"
  shows "bus_ok b'"
proof -
  have p: "pub_inv b" "chan_inv b" "phase_inv b" using assms(1) by (simp_all add: bus_ok_def)
  have "prefix (mb_received b c) (mb_sent b c)" for c
    using p(2) append_prefixD unfolding chan_inv_def by blast
  moreover have "pub_inv b'"
    using p(1) assms(2) by (auto simp: pub_inv_def split: close_pc.splits if_splits)
  ultimately show ?thesis
    using p(2,3) assms(2) by (auto simp: bus_ok_def phase_inv_def chan_inv_def split: close_pc.splits if_splits)
qed

lemma bus_ok_action:
  assumes "bus_ok b" "bus_action a b = Some b'"
  shows "bus_ok b'"
proof -
  have p: "pub_inv b" "chan_inv b" "phase_inv b" using assms(1) by (simp_all add: bus_ok_def)
  show ?thesis
  proof (cases a)
    case (BaPublish x)
    then show ?thesis
      using assms(2) p by (auto simp: bus_ok_def start_publish_def) (auto simp: pub_inv_def accepted_new waiting_new)
  next
    case (BaStep i)
    then show ?thesis using assms ok_publish_step by (simp split: if_splits)
  next
    case (BaCheckDone i ctxDone takeCtx)
    then have i: "i < length (mb_pubs b)" "pb_pc (mb_pubs b ! i) = PubChecked" "b' = check_done ctxDone takeCtx i b"
      using assms(2) by (simp_all split: if_splits)
    define pc where "pc = (if ctxDone \<and> (takeCtx \<or> \<not> mb_done b) then PubFailed PublishContext
        else if mb_done b then PubFailed PublishClosed else PubPassed)"
    have b': "b' = set_pub i pc b" by (simp add: i(3) check_done_def pc_def)
    have "pub_inv b'"
      by (rule pub_move [OF p(1) i(1), of pc]) (use i(2) in \<open>auto simp: b' pc_def split: if_splits\<close>)
    then show ?thesis using p by (simp add: bus_ok_def b')
  next
    case (BaContext i)
    then have i: "i < length (mb_pubs b)" "pb_pc (mb_pubs b ! i) = PubWaiting" "b' = leave_wg i (PubFailed PublishContext) b"
      using assms(2) by (simp_all split: if_splits)
    have "pub_inv b'"
      by (rule pub_move [OF p(1) i(1), of "PubFailed PublishContext"]) (use i still_waiting [OF p(1)] in \<open>auto simp: leave_wg_def\<close>)
    then show ?thesis using p by (simp add: bus_ok_def i(3) leave_wg_def)
  next
    case (BaDone i)
    then have i: "i < length (mb_pubs b)" "pb_pc (mb_pubs b ! i) = PubWaiting" "b' = leave_wg i (PubFailed PublishClosed) b" "mb_done b"
      using assms(2) by (simp_all add: give_up_done_def split: if_splits)
    have "pub_inv b'"
      by (rule pub_move [OF p(1) i(1), of "PubFailed PublishClosed"]) (use i still_waiting [OF p(1)] in \<open>auto simp: leave_wg_def\<close>)
    then show ?thesis using p by (simp add: bus_ok_def i(3) leave_wg_def)
  next
    case (BaReceive c)
    then obtain x xs where x: "mb_buf b c = x # xs"
      and b': "b' = b\<lparr>mb_buf := (mb_buf b)(c := xs), mb_received := (mb_received b)(c := mb_received b c @ [x])\<rparr>"
      using assms(2) by (auto split: list.splits)
    have "length (mb_buf b c) \<le> chan_cap c" "prefix (mb_received b c @ mb_buf b c) (mb_sent b c)"
      "mb_closing b = CloseDrained \<longrightarrow> mb_buf b c = []"
      using p(2) by (simp_all add: chan_inv_def)
    then have "chan_inv b'" using p(2) x by (simp add: chan_inv_def b')
    then show ?thesis using p by (simp add: bus_ok_def b' phase_inv_def pub_inv_def)
  next
    case BaClose
    then show ?thesis using assms ok_close by simp
  qed (use assms p in \<open>auto simp: bus_ok_def add_observer_def cancel_observer_def Let_def\<close>)
qed

lemma bus_ok_run: "bus_run as b = Some b' \<Longrightarrow> bus_ok b \<Longrightarrow> bus_ok b'"
  by (induction as arbitrary: b) (auto split: option.splits dest: bus_ok_action)

text \<open>Every channel is a bounded queue between publishers and receiver.\<close>

definition demo_in :: bus_item where
  "demo_in = BusInbound \<lparr>in_Channel = ''cli'', in_SenderID = ''u'', in_Sender = \<lparr>si_Platform = [], si_PlatformID = [], si_CanonicalID = [],
     si_Username = [], si_DisplayName = []\<rparr>, in_ChatID = ''c'', in_Content = ''hi'', in_Media = [], in_Peer = \<lparr>bp_Kind = [], bp_ID = []\<rparr>,
     in_MessageID = [], in_MediaScope = [], in_SessionKey = [], in_Metadata = []\<rparr>"

text \<open>
  Claim C14. Under any interleaving of publishers, receiver and \<^verbatim>\<open>Close\<close>, for each of the five channels: what was received,
  followed by what is buffered, is a prefix of what the channel accepted, in that order, and all of it until
  \<^verbatim>\<open>Close\<close> has drained the channel, so no message is lost, duplicated or reordered before that; the buffer stays
  within its size; what the channel accepted is exactly the messages whose publish was successful; a publish fails
  with the error of a closed bus only once closing has begun, and panics only once the channels are closed.
\<close>

theorem bus_delivery:
  assumes "bus_run as newMessageBus = Some b"
  shows "(\<forall>c. prefix (mb_received b c @ mb_buf b c) (mb_sent b c) \<and> length (mb_buf b c) \<le> chan_cap c
            \<and> (mb_closing b \<noteq> CloseDrained \<longrightarrow> mb_sent b c = mb_received b c @ mb_buf b c)
            \<and> mset (mb_sent b c) = image_mset pb_item (filter_mset
                (\<lambda>p. (pb_pc p = PubSent \<or> pb_pc p = PubReturned) \<and> chan_of (pb_item p) = c) (mset (mb_pubs b))))
    \<and> (\<forall>p\<in>set (mb_pubs b). (pb_pc p = PubFailed PublishClosed \<longrightarrow> mb_closing b \<noteq> CloseIdle)
         \<and> (pb_pc p = PubPanicked \<longrightarrow> mb_closing b \<in> {CloseClosed, CloseDrained}))"
proof -
  have "bus_ok b" using bus_ok_run [OF assms bus_ok_new] .
  then have c: "chan_inv b" "phase_inv b" "pub_inv b" by (simp_all add: bus_ok_def)
  have "\<forall>p\<in>set (mb_pubs b). (pb_pc p = PubFailed PublishClosed \<longrightarrow> mb_closing b \<noteq> CloseIdle)
         \<and> (pb_pc p = PubPanicked \<longrightarrow> mb_closing b \<in> {CloseClosed, CloseDrained})"
    using c(2,3) unfolding phase_inv_def pub_inv_def by metis
  then show ?thesis using c by (simp add: chan_inv_def pub_inv_def accepted_by_def)
qed

theorem bus_delivery_witness:
  "\<exists>b. bus_run [BaPublish demo_in, BaStep 0, BaCheckDone 0 False False, BaStep 0, BaStep 0, BaStep 0] newMessageBus = Some b
     \<and> mb_sent b ChanInbound = [demo_in] \<and> mb_sent b ChanInbound = mb_received b ChanInbound @ mb_buf b ChanInbound"
proof -
  let ?as = "[BaPublish demo_in, BaStep 0, BaCheckDone 0 False False, BaStep 0, BaStep 0, BaStep 0]"
  have "case bus_run ?as newMessageBus of None \<Rightarrow> False | Some b \<Rightarrow> mb_sent b ChanInbound = [demo_in] \<and> mb_closing b = CloseIdle" by code_simp
  then obtain b where b: "bus_run ?as newMessageBus = Some b" "mb_sent b ChanInbound = [demo_in]" "mb_closing b = CloseIdle"
    by (auto split: option.splits)
  show ?thesis using bus_delivery [OF b(1)] b by auto
qed

section \<open>Closing\<close>

lemma some_result: "(case x of None \<Rightarrow> False | Some y \<Rightarrow> True) \<Longrightarrow> (\<And>y. x = Some y \<Longrightarrow> P) \<Longrightarrow> P"
  by (cases x) simp_all

definition late_pub :: "publisher \<Rightarrow> bool" where
  "late_pub p \<longleftrightarrow> pb_pc p = PubPassed \<or> pb_pc p = PubWaiting \<or> pb_pc p = PubPanicked"

lemma no_late_action:
  assumes "bus_action a b = Some b'" "mb_done b" "mb_closed b" "\<forall>p\<in>set (mb_pubs b). \<not> late_pub p"
  shows "mb_done b' \<and> mb_closed b' \<and> (\<forall>p\<in>set (mb_pubs b'). \<not> late_pub p)"
proof (cases a)
  case (BaStep i)
  then have i: "i < length (mb_pubs b)" "publish_step i b = Some b'" using assms(1) by (simp_all split: if_splits)
  then have "\<not> late_pub (mb_pubs b ! i)" using assms(4) by simp
  then show ?thesis
    using i assms(2-4) by (auto simp: publish_step_def check_closed_def finish_publish_def late_pub_def
        split: pub_pc.splits dest!: mem_update)
next
  case (BaCheckDone i ctxDone takeCtx)
  then show ?thesis using assms by (auto simp: check_done_def late_pub_def split: if_splits dest!: mem_update)
next
  case (BaContext i)
  then have "i < length (mb_pubs b)" "late_pub (mb_pubs b ! i)" using assms(1) by (simp_all add: late_pub_def split: if_splits)
  then show ?thesis using assms(4) by simp
next
  case (BaDone i)
  then have "i < length (mb_pubs b)" "late_pub (mb_pubs b ! i)" using assms(1) by (simp_all add: late_pub_def split: if_splits)
  then show ?thesis using assms(4) by simp
next
  case BaClose
  then show ?thesis using assms by (auto split: close_pc.splits if_splits)
qed (use assms in \<open>auto simp: start_publish_def late_pub_def add_observer_def cancel_observer_def Let_def split: list.splits\<close>)

lemma no_late_run: "bus_run as b = Some b' \<Longrightarrow> mb_done b \<Longrightarrow> mb_closed b \<Longrightarrow> \<forall>p\<in>set (mb_pubs b). \<not> late_pub p \<Longrightarrow>
    \<forall>p\<in>set (mb_pubs b'). \<not> late_pub p"
proof (induction as arbitrary: b)
  case (Cons a as)
  then obtain b1 where "bus_action a b = Some b1" "bus_run as b1 = Some b'" by (auto split: option.splits)
  then show ?case using no_late_action [of a b b1] Cons by blast
qed simp

definition close_race :: "bus_act list" where
  "close_race = [BaPublish demo_in, BaStep 0, BaCheckDone 0 False False, BaClose, BaClose, BaClose, BaClose, BaStep 0, BaStep 0]"

text \<open>
  Claim C15. Whether closing the bus can crash a publisher: if, at the moment the bus is marked closed, no publisher is between
  its checks and the end of its send, then no publisher ever panics, whatever happens later. Otherwise it
  can: a publisher that passed both checks but has not yet joined the wait group is not waited for, the channels are
  closed under it, and its send panics.
\<close>

theorem bus_close_race:
  "(mb_done b \<longrightarrow> mb_closed b \<longrightarrow> (\<forall>p\<in>set (mb_pubs b). \<not> late_pub p) \<longrightarrow> bus_run as b = Some b' \<longrightarrow>
      (\<forall>p\<in>set (mb_pubs b'). pb_pc p \<noteq> PubPanicked))
   \<and> map pb_pc (mb_pubs (the (bus_run close_race newMessageBus))) = [PubPanicked]"
proof
  show "map pb_pc (mb_pubs (the (bus_run close_race newMessageBus))) = [PubPanicked]" by code_simp
  show "mb_done b \<longrightarrow> mb_closed b \<longrightarrow> (\<forall>p\<in>set (mb_pubs b). \<not> late_pub p) \<longrightarrow> bus_run as b = Some b' \<longrightarrow>
      (\<forall>p\<in>set (mb_pubs b'). pb_pc p \<noteq> PubPanicked)"
    using no_late_run [of as b b'] unfolding late_pub_def by blast
qed

theorem bus_close_race_witness:
  "list_all (\<lambda>p. pb_pc p \<noteq> PubPanicked) (mb_pubs (the (bus_run [BaPublish demo_in, BaStep 0, BaClose] (newMessageBus\<lparr>mb_done := True, mb_closed := True,
     mb_closing := CloseFlagged\<rparr>))))"
proof -
  let ?b = "newMessageBus\<lparr>mb_done := True, mb_closed := True, mb_closing := CloseFlagged\<rparr>"
  have n: "mb_done ?b" "mb_closed ?b" "\<forall>p\<in>set (mb_pubs ?b). \<not> late_pub p" by (simp_all add: newMessageBus_def)
  have "case bus_run [BaPublish demo_in, BaStep 0, BaClose] ?b of None \<Rightarrow> False | Some b' \<Rightarrow> True" by code_simp
  then obtain b' where b': "bus_run [BaPublish demo_in, BaStep 0, BaClose] ?b = Some b'" by (rule some_result)
  then have "\<forall>p\<in>set (mb_pubs b'). pb_pc p \<noteq> PubPanicked"
    using bus_close_race [of ?b "[BaPublish demo_in, BaStep 0, BaClose]" b'] n by blast
  then show ?thesis unfolding b' option.sel list_all_iff .
qed

end
