(* ===== verification/ChannelGate.thy ===== *)
theory ChannelGate
  imports Bus
begin

text \<open>
  Who may talk to the agent: \<^verbatim>\<open>pkg/identity/identity.go\<close> (canonical identifiers, entries of an allow-list) and the gate
  in \<^verbatim>\<open>pkg/channels/base.go\<close> (allow-lists, triggers in groups, the message that is published). Strings are
  sequences of ASCII characters; \<^verbatim>\<open>strings.EqualFold\<close> is equality of the lower-case forms.
\<close>

section \<open>Identifiers\<close>

definition equal_fold :: "string \<Rightarrow> string \<Rightarrow> bool" where
  "equal_fold a b \<longleftrightarrow> to_lower a = to_lower b"

definition trim_prefix :: "string \<Rightarrow> string \<Rightarrow> string" where
  "trim_prefix s p = (if prefix p s then drop (length p) s else s)"

definition buildCanonicalID :: "string \<Rightarrow> string \<Rightarrow> string" where
  "buildCanonicalID platform platformID =
     (let p = to_lower (trim_space platform); i = trim_space platformID
      in if p = [] \<or> i = [] then [] else p @ '':'' @ i)"

definition parseCanonicalID :: "string \<Rightarrow> (string \<times> string) option" where
  "parseCanonicalID canonical0 =
     (let canonical = trim_space canonical0
      in case index_char (CHR '':'') canonical of
           None \<Rightarrow> None
         | Some idx \<Rightarrow>
             if idx = 0 \<or> idx = length canonical - 1 then None
             else Some (take idx canonical, drop (Suc idx) canonical))"

definition is_digit_char :: "char \<Rightarrow> bool" where
  "is_digit_char c \<longleftrightarrow> (48 :: nat) \<le> of_char c \<and> (of_char c :: nat) \<le> 57"

definition isNumeric :: "string \<Rightarrow> bool" where
  "isNumeric s =
     (if s = [] then False
      else list_all is_digit_char (if hd s = CHR ''-'' \<and> 1 < length s then tl s else s))"

text \<open>An entry \<^verbatim>\<open>id|user\<close>; a bar at the front does not count.\<close>

definition split_compound :: "string \<Rightarrow> string \<times> string" where
  "split_compound s =
     (case index_char (CHR ''|'') s of
        None \<Rightarrow> (s, [])
      | Some idx \<Rightarrow> if idx > 0 then (take idx s, drop (Suc idx) s) else (s, []))"

definition match_legacy :: "sender_info \<Rightarrow> string \<Rightarrow> bool" where
  "match_legacy sender allowed =
     (let isAtUsername = prefix ''@'' allowed;
          trimmed = trim_prefix allowed ''@'';
          (allowedID, allowedUser) = split_compound trimmed
      in si_PlatformID sender \<noteq> [] \<and> si_PlatformID sender = allowedID
         \<or> isAtUsername \<and> si_Username sender \<noteq> [] \<and> si_Username sender = trimmed
         \<or> allowedUser \<noteq> [] \<and> si_PlatformID sender \<noteq> [] \<and> si_PlatformID sender = allowedID
         \<or> allowedUser \<noteq> [] \<and> si_Username sender \<noteq> [] \<and> si_Username sender = allowedUser)"

definition matchAllowed :: "sender_info \<Rightarrow> string \<Rightarrow> bool" where
  "matchAllowed sender allowed0 =
     (let allowed = trim_space allowed0
      in if allowed = [] then False
         else case parseCanonicalID allowed of
                Some (platform, i) \<Rightarrow>
                  if \<not> isNumeric platform then
                    (let candidate = buildCanonicalID platform i
                     in if candidate \<noteq> [] \<and> si_CanonicalID sender \<noteq> [] then equal_fold (si_CanonicalID sender) candidate
                        else equal_fold platform (si_Platform sender) \<and> si_PlatformID sender = i)
                  else match_legacy sender allowed
              | None \<Rightarrow> match_legacy sender allowed)"

section \<open>The channel\<close>

record group_trigger =
  gt_MentionOnly :: bool
  gt_Prefixes :: "string list"

record base_channel =
  bc_name :: string
  bc_allowList :: "string list"
  bc_maxMessageLength :: int
  bc_groupTrigger :: group_trigger
  bc_reasoningChannelID :: string

fun first_prefix :: "string list \<Rightarrow> string \<Rightarrow> string option" where
  "first_prefix [] content = None"
| "first_prefix (p # ps) content = (if p \<noteq> [] \<and> prefix p content then Some p else first_prefix ps content)"

definition shouldRespondInGroup :: "base_channel \<Rightarrow> bool \<Rightarrow> string \<Rightarrow> bool \<times> string" where
  "shouldRespondInGroup c isMentioned content =
     (let gt = bc_groupTrigger c
      in if isMentioned then (True, trim_space content)
         else if gt_MentionOnly gt then (False, content)
         else if gt_Prefixes gt \<noteq> [] then
           (case first_prefix (gt_Prefixes gt) content of
              Some p \<Rightarrow> (True, trim_space (trim_prefix content p))
            | None \<Rightarrow> (False, content))
         else (True, trim_space content))"

definition allow_entry :: "string \<Rightarrow> string \<Rightarrow> bool" where
  "allow_entry senderID allowed =
     (let (idPart, userPart) = split_compound senderID;
          trimmed = trim_prefix allowed ''@'';
          (allowedID, allowedUser) = split_compound trimmed
      in senderID = allowed \<or> idPart = allowed \<or> senderID = trimmed \<or> idPart = trimmed \<or> idPart = allowedID
         \<or> allowedUser \<noteq> [] \<and> senderID = allowedUser
         \<or> userPart \<noteq> [] \<and> (userPart = allowed \<or> userPart = trimmed \<or> userPart = allowedUser))"

definition isAllowed :: "base_channel \<Rightarrow> string \<Rightarrow> bool" where
  "isAllowed c senderID \<longleftrightarrow>
     bc_allowList c = [] \<or> list_ex (\<lambda>allowed. allowed = ''*'' \<or> allow_entry senderID allowed) (bc_allowList c)"

definition isAllowedSender :: "base_channel \<Rightarrow> sender_info \<Rightarrow> bool" where
  "isAllowedSender c sender \<longleftrightarrow>
     bc_allowList c = [] \<or> list_ex (\<lambda>allowed. allowed = ''*'' \<or> matchAllowed sender allowed) (bc_allowList c)"

text \<open>The regular expression \<^verbatim>\<open>\[(voice|audio)(?::[^\]]*)?\]\<close>.\<close>

definition annotation_here :: "string \<Rightarrow> bool" where
  "annotation_here s \<longleftrightarrow>
     (prefix ''[voice'' s \<or> prefix ''[audio'' s)
     \<and> (case drop 6 s of [] \<Rightarrow> False | c # rest \<Rightarrow> c = CHR '']'' \<or> c = CHR '':'' \<and> CHR '']'' \<in> set rest)"

fun has_annotation :: "string \<Rightarrow> bool" where
  "has_annotation [] = False"
| "has_annotation (c # s) = (annotation_here (c # s) \<or> has_annotation s)"

definition buildMediaScope :: "string \<Rightarrow> string \<Rightarrow> string \<Rightarrow> string \<Rightarrow> string" where
  "buildMediaScope uid channel chatID messageID =
     channel @ '':'' @ chatID @ '':'' @ (if messageID = [] then uid else messageID)"

text \<open>What the platform can do, and what came of it: no capability, an error, or what is to be recorded.\<close>

record channel_caps =
  cc_owner :: bool
  cc_recorder :: bool
  cc_typing :: "nat option option"
  cc_reaction :: "nat option option"
  cc_placeholder :: "string option option"

datatype gate_effect = RecordTypingStop string string nat | RecordReactionUndo string string nat | RecordPlaceholder string string string

definition gate_effects :: "channel_caps \<Rightarrow> string \<Rightarrow> string \<Rightarrow> string \<Rightarrow> string \<Rightarrow> gate_effect list" where
  "gate_effects caps name chatID messageID content =
     (if cc_owner caps \<and> cc_recorder caps
      then (case cc_typing caps of Some (Some stop) \<Rightarrow> [RecordTypingStop name chatID stop] | _ \<Rightarrow> [])
         @ (if messageID \<noteq> [] then (case cc_reaction caps of Some (Some undo) \<Rightarrow> [RecordReactionUndo name chatID undo] | _ \<Rightarrow> []) else [])
         @ (if \<not> has_annotation content
            then (case cc_placeholder caps of Some (Some phID) \<Rightarrow> if phID \<noteq> [] then [RecordPlaceholder name chatID phID] else [] | _ \<Rightarrow> [])
            else [])
      else [])"

text \<open>The sender is empty when the channel passes none. The result is what is recorded and the message that is published.\<close>

definition handleMessage :: "base_channel \<Rightarrow> channel_caps \<Rightarrow> string \<Rightarrow> bus_peer \<Rightarrow> string \<Rightarrow> string \<Rightarrow> string \<Rightarrow> string \<Rightarrow> string list
    \<Rightarrow> (string \<times> string) list \<Rightarrow> sender_info \<Rightarrow> gate_effect list \<times> inbound_message option" where
  "handleMessage c caps uid peer messageID senderID chatID content media metadata sender =
     (if (if si_CanonicalID sender \<noteq> [] \<or> si_PlatformID sender \<noteq> [] then \<not> isAllowedSender c sender else \<not> isAllowed c senderID)
      then ([], None)
      else
        let resolvedSenderID = (if si_CanonicalID sender \<noteq> [] then si_CanonicalID sender else senderID)
        in (gate_effects caps (bc_name c) chatID messageID content,
            Some \<lparr>in_Channel = bc_name c, in_SenderID = resolvedSenderID, in_Sender = sender, in_ChatID = chatID, in_Content = content,
                  in_Media = media, in_Peer = peer, in_MessageID = messageID,
                  in_MediaScope = buildMediaScope uid (bc_name c) chatID messageID, in_SessionKey = [], in_Metadata = metadata\<rparr>))"

section \<open>What the gate lets through\<close>

lemma split_plain: "CHR ''|'' \<notin> set s \<Longrightarrow> split_compound s = (s, [])"
  by (simp add: split_compound_def split: option.splits)
    (metis index_char_None option.distinct(1))

lemma split_pair: "CHR ''|'' \<notin> set i \<Longrightarrow> i \<noteq> [] \<Longrightarrow> split_compound (i @ ''|'' @ u) = (i, u)"
  by (simp add: split_compound_def index_char_append)

lemma parse_none: "CHR '':'' \<notin> set s \<Longrightarrow> parseCanonicalID s = None"
proof -
  assume "CHR '':'' \<notin> set s"
  then have e: "index_char (CHR '':'') (trim_space s) = None" using set_trim_space [of s] by auto
  show ?thesis by (simp only: parseCanonicalID_def Let_def e option.case)
qed

lemma parse_build:
  assumes "CHR '':'' \<notin> set (trim_space p)" "trim_space p \<noteq> []" "trim_space i \<noteq> []"
  shows "parseCanonicalID (buildCanonicalID p i) = Some (to_lower (trim_space p), trim_space i)"
proof -
  define q where "q = to_lower (trim_space p)"
  define j where "j = trim_space i"
  have "trim_space (q @ '':'' @ j) = q @ '':'' @ j"
  proof (rule trim_space_id)
    have "trim_space q = q" "q \<noteq> []" using assms(2) by (simp_all add: q_def trim_space_lower)
    then have "\<not> is_space (hd q)" by (rule trim_space_ends)
    moreover have "\<not> is_space (last j)" using trim_space_ends [of j] assms(3) by (simp add: j_def)
    ultimately show "q @ '':'' @ j = [] \<or> \<not> is_space (hd (q @ '':'' @ j)) \<and> \<not> is_space (last (q @ '':'' @ j))"
      using \<open>q \<noteq> []\<close> assms(3) by (simp add: j_def)
  qed
  moreover have "CHR '':'' \<notin> set q"
  proof
    assume "CHR '':'' \<in> set q"
    then obtain c where "c \<in> set (trim_space p)" "lower_char c = CHR '':''" by (auto simp: q_def to_lower_def)
    moreover have "c = CHR '':''" using calculation(2) by (simp add: lower_char_eq_iff)
    ultimately show False using assms(1) by blast
  qed
  ultimately show ?thesis
    using assms(2,3) index_char_append [of "CHR '':''" q j]
    by (simp add: parseCanonicalID_def buildCanonicalID_def q_def [symmetric] j_def [symmetric]) (simp add: q_def j_def)
qed

text \<open>
  What each form of an entry of the allow-list matches, for entries without blanks around them. A canonical entry
  \<^verbatim>\<open>platform:id\<close> whose platform is not a number matches by the canonical identifier, ignoring case, or, for a
  sender without one, by platform and identifier; a plain entry matches exactly the platform identifier, so never a
  username; \<^verbatim>\<open>@name\<close> matches the username, and a platform identifier of that text; \<^verbatim>\<open>id|user\<close> matches either
  part. An empty entry matches nobody, and the canonical form that is built parses back into its parts.
\<close>

theorem allow_entry_formats:
  assumes "trim_space p = p" "trim_space i = i" "trim_space u = u" "p \<noteq> []" "i \<noteq> []" "u \<noteq> []"
    "CHR '':'' \<notin> set p" "CHR '':'' \<notin> set i" "CHR '':'' \<notin> set u" "CHR ''|'' \<notin> set i" "\<not> prefix ''@'' i"
    "\<not> isNumeric p"
  shows "matchAllowed s (p @ '':'' @ i) =
      (if si_CanonicalID s \<noteq> [] then equal_fold (si_CanonicalID s) (to_lower p @ '':'' @ i)
       else equal_fold p (si_Platform s) \<and> si_PlatformID s = i)
    \<and> matchAllowed s i = (si_PlatformID s = i)
    \<and> matchAllowed s (''@'' @ i) = (si_PlatformID s = i \<or> si_Username s = i)
    \<and> matchAllowed s (i @ ''|'' @ u) = (si_PlatformID s = i \<or> si_Username s = u)
    \<and> \<not> matchAllowed s []
    \<and> parseCanonicalID (buildCanonicalID p i) = Some (to_lower p, i)"
proof (intro conjI)
  have ends: "\<not> is_space (hd p)" "\<not> is_space (hd i)" "\<not> is_space (last i)" "\<not> is_space (last u)"
    using trim_space_ends assms(1-6) by blast+
  show "matchAllowed s (p @ '':'' @ i) =
      (if si_CanonicalID s \<noteq> [] then equal_fold (si_CanonicalID s) (to_lower p @ '':'' @ i)
       else equal_fold p (si_Platform s) \<and> si_PlatformID s = i)"
  proof -
    have t: "trim_space (p @ '':'' @ i) = p @ '':'' @ i"
      by (rule trim_space_id) (use ends assms(4,5) in simp)
    have "parseCanonicalID (p @ '':'' @ i) = Some (p, i)"
      using index_char_append [OF assms(7), of i] assms(4,5) t by (simp add: parseCanonicalID_def Let_def)
    moreover have "buildCanonicalID p i = to_lower p @ '':'' @ i"
      using assms(1,2,4,5) by (simp add: buildCanonicalID_def Let_def)
    ultimately show ?thesis using assms(12) t by (simp add: matchAllowed_def Let_def)
  qed
  show "matchAllowed s i = (si_PlatformID s = i)"
    using parse_none [OF assms(8)] assms(2,5,10,11)
    by (auto simp: matchAllowed_def match_legacy_def trim_prefix_def split_plain Let_def)
  have t: "trim_space (''@'' @ i) = ''@'' @ i"
    by (rule trim_space_id) (use ends assms(5) in \<open>simp add: is_space_def\<close>)
  have "parseCanonicalID (''@'' @ i) = None" by (rule parse_none) (use assms(8) in simp)
  then show "matchAllowed s (''@'' @ i) = (si_PlatformID s = i \<or> si_Username s = i)"
    using t assms(5,10) by (auto simp: matchAllowed_def match_legacy_def trim_prefix_def split_plain Let_def)
  have t: "trim_space (i @ ''|'' @ u) = i @ ''|'' @ u"
    by (rule trim_space_id) (use ends assms(5,6) in simp)
  have "parseCanonicalID (i @ ''|'' @ u) = None" by (rule parse_none) (use assms(8,9) in simp)
  moreover have "\<not> prefix ''@'' (i @ ''|'' @ u)" using assms(5,11) by (cases i) auto
  ultimately show "matchAllowed s (i @ ''|'' @ u) = (si_PlatformID s = i \<or> si_Username s = u)"
    using t assms(5,6) split_pair [OF assms(10,5), of u] by (auto simp: matchAllowed_def match_legacy_def trim_prefix_def Let_def)
  show "\<not> matchAllowed s []" by (simp add: matchAllowed_def)
  show "parseCanonicalID (buildCanonicalID p i) = Some (to_lower p, i)"
    using parse_build [of p i] assms(1,2,4,5,7) by simp
qed

definition demo_sender :: sender_info where
  "demo_sender = \<lparr>si_Platform = ''telegram'', si_PlatformID = ''123'', si_CanonicalID = [], si_Username = ''alice'', si_DisplayName = []\<rparr>"

theorem allow_entry_formats_witness:
  "matchAllowed demo_sender ''123'' \<and> \<not> matchAllowed demo_sender ''alice'' \<and> matchAllowed demo_sender ''@alice''
   \<and> matchAllowed demo_sender ''999|alice'' \<and> matchAllowed demo_sender ''Telegram:123''"
proof -
  have c: "trim_space ''Telegram'' = ''Telegram''" "trim_space ''123'' = ''123''" "trim_space ''alice'' = ''alice''"
    "trim_space ''999'' = ''999''" "\<not> isNumeric ''Telegram''" "equal_fold ''Telegram'' ''telegram''" by code_simp+
  note f = allow_entry_formats [of "''Telegram''" _ "''alice''" demo_sender]
  have "matchAllowed demo_sender ''123''" "matchAllowed demo_sender (''Telegram'' @ '':'' @ ''123'')"
    using f [of "''123''"] c by (simp_all add: demo_sender_def)
  moreover have "\<not> matchAllowed demo_sender ''alice''" "matchAllowed demo_sender (''@'' @ ''alice'')"
    using f [of "''alice''"] c by (simp_all add: demo_sender_def)
  moreover have "matchAllowed demo_sender (''999'' @ ''|'' @ ''alice'')"
    using f [of "''999''"] c by (simp add: demo_sender_def)
  ultimately show ?thesis by simp
qed

lemma first_prefix_some: "first_prefix ps s = None \<longleftrightarrow> (\<forall>p\<in>set ps. p = [] \<or> \<not> prefix p s)"
  by (induction ps) auto


definition guarded_channel :: base_channel where
  "guarded_channel = \<lparr>bc_name = ''telegram'', bc_allowList = [''telegram:7'', ''@alice''], bc_maxMessageLength = 4096,
     bc_groupTrigger = \<lparr>gt_MentionOnly = False, gt_Prefixes = [[], ''/ebi'']\<rparr>, bc_reasoningChannelID = []\<rparr>"

definition typing_caps :: channel_caps where
  "typing_caps = \<lparr>cc_owner = True, cc_recorder = True, cc_typing = Some (Some 1), cc_reaction = None, cc_placeholder = Some (Some ''p1'')\<rparr>"


end
