(* ===== verification/Commands.thy ===== *)
theory Commands
  imports Ebi_Prelude
begin

text \<open>
  Slash commands: \<^verbatim>\<open>pkg/commands\<close>. \<open>'s\<close> is the state the callbacks of a request act on; a handler returns the error
  of its reply and the new state, or \<open>None\<close> for a panic. An error is its text.
\<close>

section \<open>Tokens and names (request.go)\<close>

text \<open>\<^verbatim>\<open>strings.Fields\<close>, with the word read so far.\<close>

fun fields_acc :: "string \<Rightarrow> string \<Rightarrow> string list" where
  "fields_acc w [] = (if w = [] then [] else [w])"
| "fields_acc w (c # s) = (if is_space c then (if w = [] then [] else [w]) @ fields_acc [] s else fields_acc (w @ [c]) s)"

abbreviation str_fields :: "string \<Rightarrow> string list" where "str_fields \<equiv> fields_acc []"

fun str_join :: "string \<Rightarrow> string list \<Rightarrow> string" where
  "str_join sep [] = []"
| "str_join sep [x] = x"
| "str_join sep (x # xs) = x @ sep @ str_join sep xs"

definition normalizeCommandName :: "string \<Rightarrow> string" where
  "normalizeCommandName name = to_lower (trim_space name)"

definition nthToken :: "string \<Rightarrow> nat \<Rightarrow> string" where
  "nthToken input n = (let parts = str_fields (trim_space input) in if n \<ge> length parts then [] else parts ! n)"

definition commandPrefixes :: "string list" where "commandPrefixes = [''/'', ''!'']"

fun cut_prefixes :: "string list \<Rightarrow> string \<Rightarrow> string option" where
  "cut_prefixes [] token = None"
| "cut_prefixes (p # ps) token = (if take (length p) token = p then Some (drop (length p) token) else cut_prefixes ps token)"

definition trimCommandPrefix :: "string \<Rightarrow> string option" where
  "trimCommandPrefix token = cut_prefixes commandPrefixes token"

definition parseCommandName :: "string \<Rightarrow> string option" where
  "parseCommandName input =
     (let token = nthToken input 0 in
      if token = [] then None
      else case trimCommandPrefix token of
        None \<Rightarrow> None
      | Some n \<Rightarrow>
          (let cut = (case index_char (CHR ''@'') n of Some i \<Rightarrow> take i n | None \<Rightarrow> n);
               name = normalizeCommandName cut
           in if name = [] then None else Some name))"

definition HasCommandPrefix :: "string \<Rightarrow> bool" where
  "HasCommandPrefix input = (let token = nthToken input 0 in token \<noteq> [] \<and> trimCommandPrefix token \<noteq> None)"

section \<open>Definitions and the registry (definition.go, registry.go)\<close>

text \<open>\<open>'h\<close> is the type of handlers; \<open>unit\<close> where only the description of the commands matters.\<close>

record 'h sub_command =
  sc_Name :: string
  sc_Description :: string
  sc_ArgsUsage :: string
  sc_Handler :: "'h option"

record 'h command_def =
  cd_Name :: string
  cd_Description :: string
  cd_Usage :: string
  cd_Aliases :: "string list"
  cd_SubCommands :: "'h sub_command list"
  cd_Handler :: "'h option"

definition EffectiveUsage :: "'h command_def \<Rightarrow> string" where
  "EffectiveUsage d =
     (if cd_SubCommands d = [] then cd_Usage d
      else let names = map (\<lambda>sc. sc_Name sc @ (if sc_ArgsUsage sc \<noteq> [] then '' '' @ sc_ArgsUsage sc else [])) (cd_SubCommands d)
           in ''/'' @ cd_Name d @ '' ['' @ str_join ''|'' names @ '']'')"

record 'h command_registry =
  cr_defs :: "'h command_def list"
  cr_index :: "string \<rightharpoonup> nat"

definition registerCommandName :: "nat \<Rightarrow> string \<Rightarrow> (string \<rightharpoonup> nat) \<Rightarrow> (string \<rightharpoonup> nat)" where
  "registerCommandName i name index =
     (let key = normalizeCommandName name in
      if key = [] then index else if index key \<noteq> None then index else index(key \<mapsto> i))"

fun index_defs :: "nat \<Rightarrow> 'h command_def list \<Rightarrow> (string \<rightharpoonup> nat) \<Rightarrow> (string \<rightharpoonup> nat)" where
  "index_defs i [] index = index"
| "index_defs i (d # ds) index = index_defs (Suc i) ds (fold (registerCommandName i) (cd_Name d # cd_Aliases d) index)"

definition NewRegistry :: "'h command_def list \<Rightarrow> 'h command_registry" where
  "NewRegistry defs = \<lparr>cr_defs = defs, cr_index = index_defs 0 defs Map.empty\<rparr>"

definition Definitions :: "'h command_registry \<Rightarrow> 'h command_def list" where
  "Definitions r = cr_defs r"

definition Lookup :: "'h command_registry \<Rightarrow> string \<Rightarrow> 'h command_def option" where
  "Lookup r name =
     (let key = normalizeCommandName name in
      if key = [] then None
      else case cr_index r key of None \<Rightarrow> None | Some idx \<Rightarrow> Some (cr_defs r ! idx))"

section \<open>Requests, runtime, executor (runtime.go, executor.go)\<close>

record 's command_request =
  cq_Channel :: string
  cq_ChatID :: string
  cq_SenderID :: string
  cq_Text :: string
  cq_Reply :: "(string \<Rightarrow> 's \<Rightarrow> string option \<times> 's) option"

text \<open>What \<^verbatim>\<open>GetActiveTurn\<close> returns: nil, a string, or another value, given by the text \<^verbatim>\<open>%+v\<close> prints for it.\<close>

datatype turn_query = NoTurn | TurnTree string | TurnValue string

record 's command_runtime =
  rt_GetModelInfo :: "('s \<Rightarrow> string \<times> string) option"
  rt_ListAgentIDs :: "('s \<Rightarrow> string list) option"
  rt_ListDefinitions :: "('s \<Rightarrow> unit command_def list) option"
  rt_ListSkillNames :: "('s \<Rightarrow> string list) option"
  rt_GetEnabledChannels :: "('s \<Rightarrow> string list) option"
  rt_GetActiveTurn :: "('s \<Rightarrow> turn_query) option"
  rt_SwitchModel :: "(string \<Rightarrow> 's \<Rightarrow> (string + string) \<times> 's) option"
  rt_SwitchChannel :: "(string \<Rightarrow> 's \<Rightarrow> string option \<times> 's) option"
  rt_ClearHistory :: "('s \<Rightarrow> string option \<times> 's) option"
  rt_ReloadConfig :: "('s \<Rightarrow> string option \<times> 's) option"

type_synonym 's handler = "'s command_request \<Rightarrow> 's command_runtime option \<Rightarrow> 's \<Rightarrow> (string option \<times> 's) option"

datatype outcome = OutcomePassthrough | OutcomeHandled

record execute_result =
  er_Outcome :: outcome
  er_Command :: string
  er_Err :: "string option"

definition passthrough :: "string \<Rightarrow> execute_result" where
  "passthrough name = \<lparr>er_Outcome = OutcomePassthrough, er_Command = name, er_Err = None\<rparr>"

definition handled_cmd :: "string \<Rightarrow> string option \<times> 's \<Rightarrow> execute_result \<times> 's" where
  "handled_cmd name r = (\<lparr>er_Outcome = OutcomeHandled, er_Command = name, er_Err = fst r\<rparr>, snd r)"

text \<open>Calling a nil function panics.\<close>

definition do_reply :: "'s command_request \<Rightarrow> string \<Rightarrow> 's \<Rightarrow> (string option \<times> 's) option" where
  "do_reply req t s = (case cq_Reply req of None \<Rightarrow> None | Some f \<Rightarrow> Some (f t s))"

definition with_reply :: "'s command_request \<Rightarrow> 's command_request" where
  "with_reply req = (case cq_Reply req of None \<Rightarrow> req\<lparr>cq_Reply := Some (\<lambda>t s. (None, s))\<rparr> | Some _ \<Rightarrow> req)"

fun find_sub :: "string \<Rightarrow> 'h sub_command list \<Rightarrow> 'h sub_command option" where
  "find_sub n [] = None"
| "find_sub n (sc # scs) = (if normalizeCommandName (sc_Name sc) = n then Some sc else find_sub n scs)"

definition executeDefinition ::
  "'s command_runtime option \<Rightarrow> 's command_request \<Rightarrow> 's handler command_def \<Rightarrow> 's \<Rightarrow> (execute_result \<times> 's) option" where
  "executeDefinition rt req0 d s =
     (let req = with_reply req0 in
      if cd_SubCommands d = [] then
        (case cd_Handler d of
           None \<Rightarrow> Some (passthrough (cd_Name d), s)
         | Some h \<Rightarrow> map_option (handled_cmd (cd_Name d)) (h req rt s))
      else
        let subName = nthToken (cq_Text req) 1 in
        if subName = [] then map_option (handled_cmd (cd_Name d)) (do_reply req (''Usage: '' @ EffectiveUsage d) s)
        else case find_sub (normalizeCommandName subName) (cd_SubCommands d) of
          Some sc \<Rightarrow>
            (case sc_Handler sc of
               None \<Rightarrow> Some (passthrough (cd_Name d), s)
             | Some h \<Rightarrow> map_option (handled_cmd (cd_Name d)) (h req rt s))
        | None \<Rightarrow> map_option (handled_cmd (cd_Name d))
            (do_reply req (''Unknown option: '' @ subName @ ''. Usage: '' @ EffectiveUsage d) s))"

text \<open>A nil executor or registry is \<open>None\<close>.\<close>

definition Execute ::
  "'s handler command_registry option \<Rightarrow> 's command_runtime option \<Rightarrow> 's command_request \<Rightarrow> 's \<Rightarrow> (execute_result \<times> 's) option" where
  "Execute reg rt req s =
     (case parseCommandName (cq_Text req) of
        None \<Rightarrow> Some (passthrough [], s)
      | Some cmdName \<Rightarrow>
          (case reg of
             None \<Rightarrow> Some (passthrough cmdName, s)
           | Some r \<Rightarrow>
               (case Lookup r cmdName of
                  None \<Rightarrow> Some (passthrough cmdName, s)
                | Some d \<Rightarrow> executeDefinition rt req d s)))"

section \<open>The built-in commands (cmd_*.go)\<close>

definition unavailableMsg :: string where "unavailableMsg = ''Command unavailable in current context.''"

definition nl :: string where "nl = [CHR 0x0A]"

text \<open>\<^verbatim>\<open>rt == nil || rt.F == nil\<close> answers that the command is unavailable.\<close>

definition need_callback ::
  "('s command_runtime \<Rightarrow> 'f option) \<Rightarrow> 's command_runtime option \<Rightarrow> 's command_request \<Rightarrow> 's \<Rightarrow>
   ('f \<Rightarrow> (string option \<times> 's) option) \<Rightarrow> (string option \<times> 's) option" where
  "need_callback sel rt req s k =
     (case rt of None \<Rightarrow> do_reply req unavailableMsg s
      | Some r \<Rightarrow> (case sel r of None \<Rightarrow> do_reply req unavailableMsg s | Some f \<Rightarrow> k f))"

definition check_channel_handler :: "'s handler" where
  "check_channel_handler req rt s =
     need_callback rt_SwitchChannel rt req s (\<lambda>f.
       let value = nthToken (cq_Text req) 2 in
       if value = [] then do_reply req ''Usage: /check channel <name>'' s
       else case f value s of
         (Some err, s') \<Rightarrow> do_reply req err s'
       | (None, s') \<Rightarrow> do_reply req (''Channel '' @ [CHR 0x27] @ value @ [CHR 0x27] @ '' is available and enabled'') s')"

definition clear_handler :: "'s handler" where
  "clear_handler req rt s =
     need_callback rt_ClearHistory rt req s (\<lambda>f.
       case f s of
         (Some err, s') \<Rightarrow> do_reply req (''Failed to clear chat history: '' @ err) s'
       | (None, s') \<Rightarrow> do_reply req ''Chat history cleared!'' s')"

definition reload_handler :: "'s handler" where
  "reload_handler req rt s =
     need_callback rt_ReloadConfig rt req s (\<lambda>f.
       case f s of
         (Some err, s') \<Rightarrow> do_reply req (''Failed to reload configuration: '' @ err) s'
       | (None, s') \<Rightarrow> do_reply req ''Config reload triggered!'' s')"

definition agentsHandler :: "'s handler" where
  "agentsHandler req rt s =
     need_callback rt_ListAgentIDs rt req s (\<lambda>f.
       let ids = f s in
       if ids = [] then do_reply req ''No agents registered'' s
       else do_reply req (''Registered agents: '' @ str_join '', '' ids) s)"

definition list_models_handler :: "'s handler" where
  "list_models_handler req rt s =
     need_callback rt_GetModelInfo rt req s (\<lambda>f.
       case f s of (name, provider) \<Rightarrow>
         do_reply req (''Configured Model: '' @ name @ nl @ ''Provider: '' @ (if provider = [] then ''configured default'' else provider)
           @ nl @ nl @ ''To change models, update config.json'') s)"

definition list_channels_handler :: "'s handler" where
  "list_channels_handler req rt s =
     need_callback rt_GetEnabledChannels rt req s (\<lambda>f.
       let enabled = f s in
       if enabled = [] then do_reply req ''No channels enabled'' s
       else do_reply req (''Enabled Channels:'' @ nl @ ''- '' @ str_join (nl @ ''- '') enabled) s)"

definition list_skills_handler :: "'s handler" where
  "list_skills_handler req rt s =
     need_callback rt_ListSkillNames rt req s (\<lambda>f.
       let names = f s in
       if names = [] then do_reply req ''No installed skills'' s
       else do_reply req (''Installed Skills:'' @ nl @ ''- '' @ str_join (nl @ ''- '') names @ nl @ nl
         @ ''Use /use <skill> <message> to force one for a single request, or /use <skill> to apply it to your next message.'') s)"

definition show_model_handler :: "'s handler" where
  "show_model_handler req rt s =
     need_callback rt_GetModelInfo rt req s (\<lambda>f.
       case f s of (name, provider) \<Rightarrow> do_reply req (''Current Model: '' @ name @ '' (Provider: '' @ provider @ '')'') s)"

definition show_channel_handler :: "'s handler" where
  "show_channel_handler req rt s = do_reply req (''Current Channel: '' @ cq_Channel req) s"

text \<open>The shrimp after the greeting and the robot before the list are their UTF-8 bytes.\<close>

definition start_handler :: "'s handler" where
  "start_handler req rt s = do_reply req (''Hello! I am EbiClaw '' @ [CHR 0xF0, CHR 0x9F, CHR 0xA6, CHR 0x9E]) s"

definition robot_list :: "string \<Rightarrow> string \<Rightarrow> string" where
  "robot_list kind body =
     [CHR 0xF0, CHR 0x9F, CHR 0xA4, CHR 0x96] @ '' **Active Subagents '' @ kind @ ''**'' @ nl
     @ [CHR 0x60, CHR 0x60, CHR 0x60] @ ''text'' @ nl @ body @ nl @ [CHR 0x60, CHR 0x60, CHR 0x60]"

text \<open>This handler reads its runtime without asking whether there is one.\<close>

definition subagents_handler :: "'s handler" where
  "subagents_handler req rt s =
     (case rt of None \<Rightarrow> None
      | Some r \<Rightarrow>
        (case rt_GetActiveTurn r of
           None \<Rightarrow> do_reply req ''Runtime does not support querying active turns.'' s
         | Some f \<Rightarrow>
             (case f s of
                NoTurn \<Rightarrow> do_reply req ''No active tasks running in this session.'' s
              | TurnTree t \<Rightarrow>
                  if t = [] then do_reply req ''No active tasks running in this session.'' s
                  else do_reply req (robot_list ''Tree'' t) s
              | TurnValue t \<Rightarrow> do_reply req (robot_list ''List'' t) s)))"

definition switch_model_handler :: "'s handler" where
  "switch_model_handler req rt s =
     need_callback rt_SwitchModel rt req s (\<lambda>f.
       let value = nthToken (cq_Text req) 3 in
       if nthToken (cq_Text req) 2 \<noteq> ''to'' \<or> value = [] then do_reply req ''Usage: /switch model to <name>'' s
       else case f value s of
         (Inl err, s') \<Rightarrow> do_reply req err s'
       | (Inr oldModel, s') \<Rightarrow> do_reply req (''Switched model from '' @ oldModel @ '' to '' @ value) s')"

definition switch_channel_handler :: "'s handler" where
  "switch_channel_handler req rt s = do_reply req ''This command has moved. Please use: /check channel <name>'' s"

text \<open>What the help needs of a command: everything but the handlers.\<close>

definition sub_shape :: "'h sub_command \<Rightarrow> unit sub_command" where
  "sub_shape sc = \<lparr>sc_Name = sc_Name sc, sc_Description = sc_Description sc, sc_ArgsUsage = sc_ArgsUsage sc, sc_Handler = None\<rparr>"

definition shape :: "'h command_def \<Rightarrow> unit command_def" where
  "shape d = \<lparr>cd_Name = cd_Name d, cd_Description = cd_Description d, cd_Usage = cd_Usage d, cd_Aliases = cd_Aliases d,
     cd_SubCommands = map sub_shape (cd_SubCommands d), cd_Handler = None\<rparr>"

definition help_line :: "'h command_def \<Rightarrow> string" where
  "help_line d =
     (let usage = EffectiveUsage d; usage' = (if usage = [] then ''/'' @ cd_Name d else usage);
          desc = (if cd_Description d = [] then ''No description'' else cd_Description d)
      in usage' @ '' - '' @ desc)"

definition formatHelpMessage :: "'h command_def list \<Rightarrow> string" where
  "formatHelpMessage defs = (if defs = [] then ''No commands available.'' else str_join nl (map help_line defs))"

text \<open>\<^verbatim>\<open>BuiltinDefinitions\<close> without the handlers comes first, since the handler of \<^verbatim>\<open>help\<close> lists it.\<close>

definition simple_shape :: "string \<Rightarrow> string \<Rightarrow> string \<Rightarrow> unit command_def" where
  "simple_shape name desc usage = \<lparr>cd_Name = name, cd_Description = desc, cd_Usage = usage, cd_Aliases = [], cd_SubCommands = [], cd_Handler = None\<rparr>"

definition group_shape :: "string \<Rightarrow> string \<Rightarrow> (string \<times> string \<times> string) list \<Rightarrow> unit command_def" where
  "group_shape name desc subs = \<lparr>cd_Name = name, cd_Description = desc, cd_Usage = [], cd_Aliases = [],
     cd_SubCommands = map (\<lambda>(n, d, a). \<lparr>sc_Name = n, sc_Description = d, sc_ArgsUsage = a, sc_Handler = None\<rparr>) subs, cd_Handler = None\<rparr>"

definition builtin_shapes :: "unit command_def list" where
  "builtin_shapes =
     [simple_shape ''start'' ''Start the bot'' ''/start'',
      simple_shape ''help'' ''Show this help message'' ''/help'',
      group_shape ''show'' ''Show current configuration''
        [(''model'', ''Current model and provider'', []), (''channel'', ''Current channel'', []), (''agents'', ''Registered agents'', [])],
      group_shape ''list'' ''List available options''
        [(''models'', ''Configured models'', []), (''channels'', ''Enabled channels'', []), (''agents'', ''Registered agents'', []),
         (''skills'', ''Installed skills'', [])],
      simple_shape ''use'' ''Force a specific installed skill for one request'' ''/use <skill> [message]'',
      group_shape ''switch'' ''Switch model''
        [(''model'', ''Switch to a different model'', ''to <name>''), (''channel'', ''Moved to /check channel'', [])],
      group_shape ''check'' ''Check channel availability'' [(''channel'', ''Check if a channel is available'', ''<name>'')],
      simple_shape ''clear'' ''Clear the chat history'' ''/clear'',
      simple_shape ''subagents'' ''Show running subagents and task tree'' [],
      simple_shape ''reload'' ''Reload the configuration file'' ''/reload'']"

definition help_handler :: "'s handler" where
  "help_handler req rt s =
     do_reply req
       (case rt of
          None \<Rightarrow> formatHelpMessage builtin_shapes
        | Some r \<Rightarrow> (case rt_ListDefinitions r of None \<Rightarrow> formatHelpMessage builtin_shapes | Some f \<Rightarrow> formatHelpMessage (f s))) s"

definition simple_command :: "string \<Rightarrow> string \<Rightarrow> string \<Rightarrow> 'h option \<Rightarrow> 'h command_def" where
  "simple_command name desc usage h = \<lparr>cd_Name = name, cd_Description = desc, cd_Usage = usage, cd_Aliases = [], cd_SubCommands = [], cd_Handler = h\<rparr>"

definition group_command :: "string \<Rightarrow> string \<Rightarrow> (string \<times> string \<times> string \<times> 'h) list \<Rightarrow> 'h command_def" where
  "group_command name desc subs = \<lparr>cd_Name = name, cd_Description = desc, cd_Usage = [], cd_Aliases = [],
     cd_SubCommands = map (\<lambda>(n, d, a, h). \<lparr>sc_Name = n, sc_Description = d, sc_ArgsUsage = a, sc_Handler = Some h\<rparr>) subs, cd_Handler = None\<rparr>"

definition startCommand :: "'s handler command_def" where
  "startCommand = simple_command ''start'' ''Start the bot'' ''/start'' (Some start_handler)"

definition helpCommand :: "'s handler command_def" where
  "helpCommand = simple_command ''help'' ''Show this help message'' ''/help'' (Some help_handler)"

definition showCommand :: "'s handler command_def" where
  "showCommand = group_command ''show'' ''Show current configuration''
     [(''model'', ''Current model and provider'', [], show_model_handler), (''channel'', ''Current channel'', [], show_channel_handler),
      (''agents'', ''Registered agents'', [], agentsHandler)]"

definition listCommand :: "'s handler command_def" where
  "listCommand = group_command ''list'' ''List available options''
     [(''models'', ''Configured models'', [], list_models_handler), (''channels'', ''Enabled channels'', [], list_channels_handler),
      (''agents'', ''Registered agents'', [], agentsHandler), (''skills'', ''Installed skills'', [], list_skills_handler)]"

definition useCommand :: "'s handler command_def" where
  "useCommand = simple_command ''use'' ''Force a specific installed skill for one request'' ''/use <skill> [message]'' None"

definition switchCommand :: "'s handler command_def" where
  "switchCommand = group_command ''switch'' ''Switch model''
     [(''model'', ''Switch to a different model'', ''to <name>'', switch_model_handler),
      (''channel'', ''Moved to /check channel'', [], switch_channel_handler)]"

definition checkCommand :: "'s handler command_def" where
  "checkCommand = group_command ''check'' ''Check channel availability''
     [(''channel'', ''Check if a channel is available'', ''<name>'', check_channel_handler)]"

definition clearCommand :: "'s handler command_def" where
  "clearCommand = simple_command ''clear'' ''Clear the chat history'' ''/clear'' (Some clear_handler)"

definition subagentsCommand :: "'s handler command_def" where
  "subagentsCommand = simple_command ''subagents'' ''Show running subagents and task tree'' [] (Some subagents_handler)"

definition reloadCommand :: "'s handler command_def" where
  "reloadCommand = simple_command ''reload'' ''Reload the configuration file'' ''/reload'' (Some reload_handler)"

definition BuiltinDefinitions :: "'s handler command_def list" where
  "BuiltinDefinitions =
     [startCommand, helpCommand, showCommand, listCommand, useCommand, switchCommand, checkCommand, clearCommand,
      subagentsCommand, reloadCommand]"

lemmas builtin_defs = BuiltinDefinitions_def startCommand_def helpCommand_def showCommand_def listCommand_def useCommand_def
  switchCommand_def checkCommand_def clearCommand_def subagentsCommand_def reloadCommand_def simple_command_def group_command_def

lemma shapes_builtin: "map shape BuiltinDefinitions = builtin_shapes"
  by (simp add: builtin_defs builtin_shapes_def simple_shape_def group_shape_def shape_def sub_shape_def)

section \<open>The registry finds the first match\<close>

definition answers_to :: "string \<Rightarrow> 'h command_def \<Rightarrow> bool" where
  "answers_to key d = (key \<in> set (map normalizeCommandName (cd_Name d # cd_Aliases d)))"

lemma register_index:
  assumes "key \<noteq> []"
  shows "fold (registerCommandName i) names index key =
    (case index key of Some j \<Rightarrow> Some j | None \<Rightarrow> if key \<in> set (map normalizeCommandName names) then Some i else None)"
  using assms
  by (induction names arbitrary: index) (auto simp: registerCommandName_def Let_def split: option.splits)

lemma index_defs_lookup:
  assumes "key \<noteq> []"
  shows "index_defs i ds index key =
    (case index key of Some j \<Rightarrow> Some j
     | None \<Rightarrow> if \<exists>d\<in>set ds. answers_to key d then Some (i + length (takeWhile (Not \<circ> answers_to key) ds)) else None)"
proof (induction ds arbitrary: i index)
  case (Cons d ds)
  show ?case
    unfolding index_defs.simps Cons register_index [OF assms]
    by (cases "index key") (auto simp: answers_to_def)
qed (auto split: option.splits)

lemma nth_takeWhile: "\<exists>x\<in>set xs. P x \<Longrightarrow> Some (xs ! length (takeWhile (Not \<circ> P) xs)) = find P xs"
  by (induction xs) auto

lemma find_none_iff: "find P xs = None \<longleftrightarrow> \<not> (\<exists>x\<in>set xs. P x)"
  by (induction xs) auto

lemma lookup_first:
  assumes "normalizeCommandName name = key" "key \<noteq> []"
  shows "Lookup (NewRegistry defs) name = find (answers_to key) defs"
proof (cases "\<exists>d\<in>set defs. answers_to key d")
  case True
  then show ?thesis
    using assms nth_takeWhile [OF True] by (simp add: Lookup_def NewRegistry_def index_defs_lookup Let_def)
next
  case False
  then show ?thesis
    using assms find_none_iff [of "answers_to key" defs] by (simp add: Lookup_def NewRegistry_def index_defs_lookup Let_def)
qed

lemma command_normal_idem [simp]: "normalizeCommandName (normalizeCommandName n) = normalizeCommandName n"
  by (simp add: normalizeCommandName_def trim_space_lower)

lemma parse_normal: "parseCommandName t = Some n \<Longrightarrow> n \<noteq> [] \<and> normalizeCommandName n = n"
  by (auto simp: parseCommandName_def Let_def split: option.splits if_splits)

lemma index_char_Some: "a \<in> set xs \<Longrightarrow> \<exists>i. index_char a xs = Some i"
  using index_char_None [of a xs] by (cases "index_char a xs") auto

lemma fields_word: "\<forall>c\<in>set w. \<not> is_space c \<Longrightarrow> fields_acc v (w @ r) = fields_acc (v @ w) r"
  by (induction w arbitrary: v) auto

lemma fields_blank: "v \<noteq> [] \<Longrightarrow> r = [] \<or> is_space (hd r) \<Longrightarrow> fields_acc v r = v # str_fields (tl r)"
  by (cases r) auto

lemma nth_token_first:
  assumes "\<forall>c\<in>set w. \<not> is_space c" "w \<noteq> []" "r = [] \<or> is_space (hd r)"
  shows "nthToken (w @ r) 0 = w"
proof -
  have "\<exists>q. trim_space (w @ r) = w @ q \<and> (q = [] \<or> is_space (hd q))"
  proof -
    have l: "trim_left (w @ r) = w @ r" by (rule trim_left_id) (use assms(1,2) in \<open>cases w; simp\<close>)
    have "w = [] \<or> \<not> is_space (last w)" using assms(1,2) by simp
    then have lw: "trim_right w = w" by (rule trim_right_id)
    have "prefix (trim_right (w @ r)) (w @ r)" by (rule trim_right_prefix)
    moreover have "prefix w (trim_right (w @ r))"
      using lw by (auto simp: trim_right_def dropWhile_append suffix_def prefix_def)
    ultimately obtain q z where "trim_right (w @ r) = w @ q" "r = q @ z" by (auto simp: prefix_def)
    moreover have "q = [] \<or> is_space (hd q)" using assms(3) calculation(2) by (cases q) auto
    ultimately show ?thesis using l by (auto simp: trim_space_def)
  qed
  then obtain q where "trim_space (w @ r) = w @ q" "q = [] \<or> is_space (hd q)" by blast
  then show ?thesis
    using fields_word [OF assms(1), of "[]" q] fields_blank [OF assms(2)] by (simp add: nthToken_def)
qed

text \<open>
  The syntax of a command. A text whose first word is a slash or an exclamation mark and a word without blanks is the
  command of that word in lower case, whatever follows an \<^verbatim>\<open>@\<close> in it (the name of the bot) and whatever follows the first
  word; both prefixes mean the same, and a text has a command prefix exactly if its first character is one of the two.
\<close>

theorem command_syntax:
  assumes "\<forall>x\<in>set (w @ b). \<not> is_space x" "w \<noteq> []" "CHR ''@'' \<notin> set w" "b = [] \<or> hd b = CHR ''@''" "rest = [] \<or> is_space (hd rest)"
  shows "parseCommandName (''/'' @ w @ b @ rest) = Some (to_lower w)
     \<and> parseCommandName (''!'' @ w @ b @ rest) = Some (to_lower w)
     \<and> HasCommandPrefix (w @ b @ rest) = (hd w = CHR ''/'' \<or> hd w = CHR ''!'')"
proof -
  have cut: "(case index_char (CHR ''@'') (w @ b) of Some i \<Rightarrow> take i (w @ b) | None \<Rightarrow> w @ b) = w"
  proof (cases b)
    case Nil
    have "index_char (CHR ''@'') w = None" using assms(3) by simp
    then show ?thesis by (simp only: Nil append_Nil2 option.case)
  next
    case (Cons x xs)
    then show ?thesis using assms(3,4) index_char_append [of "CHR ''@''" w "tl b"] by simp
  qed
  have n: "normalizeCommandName w = to_lower w"
    using assms(1) by (simp add: normalizeCommandName_def trim_space_no_blank)
  have t: "nthToken (c # w @ b @ rest) 0 = c # w @ b" if "\<not> is_space c" for c
    using nth_token_first [of "c # w @ b" rest] that assms(1,5) by auto
  have "nthToken (w @ b @ rest) 0 = w @ b"
    using nth_token_first [of "w @ b" rest] assms(1,2,5) by auto
  moreover have "hd w # tl w = w" using assms(2) by simp
  ultimately have "HasCommandPrefix (w @ b @ rest) = (hd w = CHR ''/'' \<or> hd w = CHR ''!'')"
    using assms(2) by (cases w) (auto simp: HasCommandPrefix_def trimCommandPrefix_def commandPrefixes_def Let_def)
  then show ?thesis
    using t [of "CHR ''/''"] t [of "CHR ''!''"] cut n assms(2)
    by (simp add: parseCommandName_def trimCommandPrefix_def commandPrefixes_def is_space_def Let_def)
qed

theorem command_syntax_witness: "parseCommandName ''/Switch@my_bot model'' = Some ''switch''"
proof -
  have "to_lower ''Switch'' = ''switch''" by code_simp
  then show ?thesis using command_syntax [of "''Switch''" "''@my_bot''" "'' model''"] by (simp add: is_space_def)
qed

text \<open>
  Claim C22. How a text is dispatched. A registry finds, for a command name, the first definition that has it as its name or as
  an alias, ignoring case and blanks around it, so a later definition never takes a name from an earlier one. A text that is
  no command and a command that nothing answers to are passed through without a reply or a change of the state; any other is executed.
  Every built-in command is found under its own name.
\<close>

theorem command_dispatch:
  "Execute (Some (NewRegistry defs)) rt req s =
     (case parseCommandName (cq_Text req) of
        None \<Rightarrow> Some (passthrough [], s)
      | Some name \<Rightarrow>
          (case find (\<lambda>d. name \<in> set (map normalizeCommandName (cd_Name d # cd_Aliases d))) defs of
             None \<Rightarrow> Some (passthrough name, s)
           | Some d \<Rightarrow> executeDefinition rt req d s))
   \<and> map (Lookup (NewRegistry builtin_shapes)) (map cd_Name builtin_shapes) = map Some builtin_shapes"
proof
  show "Execute (Some (NewRegistry defs)) rt req s =
     (case parseCommandName (cq_Text req) of
        None \<Rightarrow> Some (passthrough [], s)
      | Some name \<Rightarrow>
          (case find (\<lambda>d. name \<in> set (map normalizeCommandName (cd_Name d # cd_Aliases d))) defs of
             None \<Rightarrow> Some (passthrough name, s)
           | Some d \<Rightarrow> executeDefinition rt req d s))"
  proof (cases "parseCommandName (cq_Text req)")
    case (Some name)
    then have "Lookup (NewRegistry defs) name = find (\<lambda>d. name \<in> set (map normalizeCommandName (cd_Name d # cd_Aliases d))) defs"
      using parse_normal [OF Some] lookup_first [of name name defs] by (simp only: answers_to_def [abs_def] not_False_eq_True simp_thms)
    then show ?thesis by (simp only: Execute_def Some option.case)
  qed (simp add: Execute_def)
  show "map (Lookup (NewRegistry builtin_shapes)) (map cd_Name builtin_shapes) = map Some builtin_shapes"
    by code_simp
qed

section \<open>What the built-in commands may change\<close>

text \<open>The states a built-in command may have reached when it replies: only four of them call a callback that changes anything.\<close>

definition callback_effects :: "string \<Rightarrow> 's command_runtime \<Rightarrow> 's command_request \<Rightarrow> 's \<Rightarrow> 's set" where
  "callback_effects name r req s =
     (if name = ''switch'' then (case rt_SwitchModel r of None \<Rightarrow> {s} | Some f \<Rightarrow> {s, snd (f (nthToken (cq_Text req) 3) s)})
      else if name = ''check'' then (case rt_SwitchChannel r of None \<Rightarrow> {s} | Some f \<Rightarrow> {s, snd (f (nthToken (cq_Text req) 2) s)})
      else if name = ''clear'' then (case rt_ClearHistory r of None \<Rightarrow> {s} | Some f \<Rightarrow> {snd (f s)})
      else if name = ''reload'' then (case rt_ReloadConfig r of None \<Rightarrow> {s} | Some f \<Rightarrow> {snd (f s)})
      else {s})"

definition reply_of :: "'s command_request \<Rightarrow> string \<Rightarrow> 's \<Rightarrow> string option \<times> 's" where
  "reply_of req t s = (case cq_Reply req of None \<Rightarrow> (None, s) | Some f \<Rightarrow> f t s)"

lemma do_reply_with [simp]: "do_reply (with_reply req) t s = Some (reply_of req t s)"
  by (simp add: do_reply_def with_reply_def reply_of_def split: option.splits)

lemma with_reply_text [simp]: "cq_Text (with_reply req) = cq_Text req"
  by (simp add: with_reply_def split: option.splits)

definition one_reply :: "string \<Rightarrow> 's command_runtime \<Rightarrow> 's command_request \<Rightarrow> 's \<Rightarrow> (string option \<times> 's) option \<Rightarrow> bool" where
  "one_reply name r req s x = (\<exists>t s1. s1 \<in> callback_effects name r req s \<and> x = Some (reply_of req t s1))"

lemma one_replyI [intro]: "s1 \<in> callback_effects name r req s \<Longrightarrow> one_reply name r req s (Some (reply_of req t s1))"
  by (auto simp: one_reply_def)

lemma simple_handlers [simp]:
  "one_reply ''start'' r req s (start_handler (with_reply req) (Some r) s)"
  "one_reply ''help'' r req s (help_handler (with_reply req) (Some r) s)"
  "one_reply ''clear'' r req s (clear_handler (with_reply req) (Some r) s)"
  "one_reply ''reload'' r req s (reload_handler (with_reply req) (Some r) s)"
  "one_reply ''subagents'' r req s (subagents_handler (with_reply req) (Some r) s)"
  by (auto simp: start_handler_def help_handler_def clear_handler_def reload_handler_def subagents_handler_def need_callback_def
      callback_effects_def intro!: one_replyI split: option.splits prod.splits turn_query.splits)

lemma read_handlers [simp]:
  assumes "name = ''show'' \<or> name = ''list''"
  shows "one_reply name r req s (show_model_handler (with_reply req) (Some r) s)"
    and "one_reply name r req s (show_channel_handler (with_reply req) (Some r) s)"
    and "one_reply name r req s (agentsHandler (with_reply req) (Some r) s)"
    and "one_reply name r req s (list_models_handler (with_reply req) (Some r) s)"
    and "one_reply name r req s (list_channels_handler (with_reply req) (Some r) s)"
    and "one_reply name r req s (list_skills_handler (with_reply req) (Some r) s)"
  using assms
  by (auto simp: show_model_handler_def show_channel_handler_def agentsHandler_def list_models_handler_def list_channels_handler_def
      list_skills_handler_def need_callback_def callback_effects_def Let_def intro!: one_replyI split: option.splits prod.splits)

lemma switch_handlers [simp]:
  "one_reply ''switch'' r req s (switch_model_handler (with_reply req) (Some r) s)"
  "one_reply ''switch'' r req s (switch_channel_handler (with_reply req) (Some r) s)"
  "one_reply ''check'' r req s (check_channel_handler (with_reply req) (Some r) s)"
  by (auto simp: switch_model_handler_def switch_channel_handler_def check_channel_handler_def need_callback_def callback_effects_def
      Let_def intro!: one_replyI split: option.splits prod.splits sum.splits)

lemma group_one_reply:
  assumes "\<And>sc h. sc \<in> set scs \<Longrightarrow> sc_Handler sc = Some h \<Longrightarrow> one_reply name r req s (h (with_reply req) (Some r) s)"
    "\<And>sc. sc \<in> set scs \<Longrightarrow> sc_Handler sc \<noteq> None" "scs \<noteq> []" "s \<in> callback_effects name r req s" "cd_Name d = name" "cd_SubCommands d = scs"
  shows "\<exists>t s1. s1 \<in> callback_effects name r req s \<and> executeDefinition (Some r) req d s = Some (handled_cmd name (reply_of req t s1))"
proof -
  have found: "sc \<in> set scs" if "find_sub n scs = Some sc" for n sc
    using that by (induction scs) (auto split: if_splits)
  show ?thesis
  proof (cases "nthToken (cq_Text req) 1 = []")
    case False
    then show ?thesis
    proof (cases "find_sub (normalizeCommandName (nthToken (cq_Text req) 1)) scs")
      case (Some sc)
      then obtain h where h: "sc_Handler sc = Some h" using assms(2) found by blast
      then have "one_reply name r req s (h (with_reply req) (Some r) s)" using assms(1) found Some by blast
      then obtain t s1 where "s1 \<in> callback_effects name r req s" "h (with_reply req) (Some r) s = Some (reply_of req t s1)"
        by (auto simp: one_reply_def)
      then show ?thesis using False Some h assms(3,5,6) by (auto simp: executeDefinition_def Let_def)
    qed (use assms(3-6) in \<open>auto simp: executeDefinition_def Let_def\<close>)
  qed (use assms(3-6) in \<open>auto simp: executeDefinition_def Let_def\<close>)
qed

lemma simple_one_reply:
  assumes "cd_SubCommands d = []" "cd_Handler d = Some h" "cd_Name d = name" "one_reply name r req s (h (with_reply req) (Some r) s)"
  shows "\<exists>t s1. s1 \<in> callback_effects name r req s \<and> executeDefinition (Some r) req d s = Some (handled_cmd name (reply_of req t s1))"
proof -
  obtain t s1 where "s1 \<in> callback_effects name r req s" "h (with_reply req) (Some r) s = Some (reply_of req t s1)"
    using assms(4) by (auto simp: one_reply_def)
  then show ?thesis using assms(1-3) by (intro exI [of _ t] exI [of _ s1]) (simp add: executeDefinition_def Let_def)
qed

text \<open>
  What a built-in command does, for any callbacks. With a runtime each of them but \<^verbatim>\<open>use\<close> is handled,
  replies exactly once, as its last action, and reports the error of that reply only, never a failure of the callback; the state
  it replies in is the one it started in, but for \<^verbatim>\<open>switch\<close>, \<^verbatim>\<open>check\<close>, \<^verbatim>\<open>clear\<close> and
  \<^verbatim>\<open>reload\<close>, which may have called their callback once. \<^verbatim>\<open>use\<close> is left to the agent, and
  \<^verbatim>\<open>subagents\<close> panics where there is no runtime.
\<close>

theorem builtin_commands_reply_once:
  assumes "d \<in> set BuiltinDefinitions" "cd_Name d \<noteq> ''use''"
  shows "(\<exists>t s1. s1 \<in> callback_effects (cd_Name d) r req s
           \<and> executeDefinition (Some r) req d s = Some (handled_cmd (cd_Name d) (reply_of req t s1)))
       \<and> executeDefinition rt req useCommand s = Some (passthrough ''use'', s)
       \<and> executeDefinition None req subagentsCommand s = None"
proof (intro conjI)
  have "d = startCommand \<or> d = helpCommand \<or> d = clearCommand \<or> d = subagentsCommand \<or> d = reloadCommand
      \<or> d = showCommand \<or> d = listCommand \<or> d = switchCommand \<or> d = checkCommand"
    using assms by (auto simp: BuiltinDefinitions_def useCommand_def simple_command_def)
  then show "\<exists>t s1. s1 \<in> callback_effects (cd_Name d) r req s
      \<and> executeDefinition (Some r) req d s = Some (handled_cmd (cd_Name d) (reply_of req t s1))"
  proof (elim disjE)
    assume "d = showCommand"
    then show ?thesis by (intro group_one_reply) (auto simp: builtin_defs callback_effects_def)
  next
    assume "d = listCommand"
    then show ?thesis by (intro group_one_reply) (auto simp: builtin_defs callback_effects_def)
  next
    assume "d = switchCommand"
    then show ?thesis by (intro group_one_reply) (auto simp: builtin_defs callback_effects_def split: option.splits)
  next
    assume "d = checkCommand"
    then show ?thesis by (intro group_one_reply) (auto simp: builtin_defs callback_effects_def split: option.splits)
  next
    assume "d = startCommand"
    then show ?thesis by (intro simple_one_reply [where h = start_handler]) (simp_all add: builtin_defs)
  next
    assume "d = helpCommand"
    then show ?thesis by (intro simple_one_reply [where h = help_handler]) (simp_all add: builtin_defs)
  next
    assume "d = clearCommand"
    then show ?thesis by (intro simple_one_reply [where h = clear_handler]) (simp_all add: builtin_defs)
  next
    assume "d = subagentsCommand"
    then show ?thesis by (intro simple_one_reply [where h = subagents_handler]) (simp_all add: builtin_defs)
  next
    assume "d = reloadCommand"
    then show ?thesis by (intro simple_one_reply [where h = reload_handler]) (simp_all add: builtin_defs)
  qed
  show "executeDefinition rt req useCommand s = Some (passthrough ''use'', s)"
    by (simp add: executeDefinition_def builtin_defs Let_def)
  show "executeDefinition None req subagentsCommand s = None"
    by (simp add: executeDefinition_def builtin_defs subagents_handler_def Let_def)
qed

definition demo_runtime :: "nat command_runtime" where
  "demo_runtime = \<lparr>rt_GetModelInfo = None, rt_ListAgentIDs = None, rt_ListDefinitions = None, rt_ListSkillNames = None,
     rt_GetEnabledChannels = None, rt_GetActiveTurn = None, rt_SwitchModel = None, rt_SwitchChannel = None,
     rt_ClearHistory = Some (\<lambda>n. (if n = 0 then Some ''empty'' else None, 0)), rt_ReloadConfig = None\<rparr>"

definition demo_request :: "nat command_request" where
  "demo_request = \<lparr>cq_Channel = ''telegram'', cq_ChatID = ''7'', cq_SenderID = ''1'', cq_Text = ''/clear'', cq_Reply = None\<rparr>"

theorem builtin_commands_reply_once_witness:
  "\<exists>t. executeDefinition (Some demo_runtime) demo_request clearCommand 5 = Some (handled_cmd ''clear'' (reply_of demo_request t 0))"
proof -
  have m: "clearCommand \<in> set BuiltinDefinitions" and n: "cd_Name (clearCommand :: nat handler command_def) = ''clear''"
    by (simp_all add: builtin_defs)
  then have "cd_Name (clearCommand :: nat handler command_def) \<noteq> ''use''" by simp
  moreover have "callback_effects ''clear'' demo_runtime demo_request 5 = {0}" by (simp add: callback_effects_def demo_runtime_def)
  ultimately show ?thesis
    using builtin_commands_reply_once [OF m, of demo_runtime demo_request 5 None] n by simp
qed

end
