(* ===== verification/ModelResolve.thy ===== *)
theory ModelResolve
  imports Fallback GoValue "HOL-Library.Word" "HOL-Library.Multiset" "HOL-Library.Sublist"
begin

text \<open>
  From the configured models to the candidates of an agent: the list of models with its round-robin selection, the
  expansion of models with several keys and what is saved of them (\<^verbatim>\<open>pkg/config/config.go\<close>), the resolution of
  references (\<^verbatim>\<open>pkg/agent/model_resolution.go\<close>, \<^verbatim>\<open>thinking.go\<close>) and the providers an agent gets for its
  fallbacks (\<^verbatim>\<open>instance.go\<close>). The counter of the round robin is a \<^verbatim>\<open>uint64\<close> all lookups share; every
  operation that looks a model up takes it and returns it. Entries of the list are not nil.
\<close>

section \<open>The list of models\<close>

record configured_model =
  mdl_ModelName :: string
  mdl_Model :: string
  mdl_APIBase :: string
  mdl_Proxy :: string
  mdl_Fallbacks :: "string list"
  mdl_AuthMethod :: string
  mdl_ConnectMode :: string
  mdl_Workspace :: string
  mdl_RPM :: int
  mdl_MaxTokensField :: string
  mdl_RequestTimeout :: int
  mdl_ThinkingLevel :: string
  mdl_ExtraBody :: object
  mdl_CustomHeaders :: "(string \<times> string) list"
  mdl_APIKeys :: "string list"
  mdl_Enabled :: bool
  mdl_UserAgent :: string
  mdl_isVirtual :: bool

type_synonym rr_counter = "64 word"

definition findMatches :: "configured_model list \<Rightarrow> string \<Rightarrow> configured_model list" where
  "findMatches ms name = filter (\<lambda>m. mdl_ModelName m = name) ms"

definition getModelConfig :: "configured_model list \<Rightarrow> string \<Rightarrow> rr_counter \<Rightarrow> configured_model option \<times> rr_counter" where
  "getModelConfig ms name c =
     (let matches = findMatches ms name
      in if matches = [] then (None, c)
         else if length matches = 1 then (Some (matches ! 0), c)
         else (Some (matches ! (unat c mod length matches)), c + 1))"

definition validate_model :: "configured_model \<Rightarrow> string option" where
  "validate_model m =
     (if mdl_ModelName m = [] then Some ''model_name is required''
      else if mdl_Model m = [] then Some ''model is required'' else None)"

fun validate_from :: "nat \<Rightarrow> configured_model list \<Rightarrow> string option" where
  "validate_from i [] = None"
| "validate_from i (m # ms) =
     (case validate_model m of
        Some err \<Rightarrow> Some (''model_list['' @ decimal i @ '']: '' @ err)
      | None \<Rightarrow> validate_from (Suc i) ms)"

definition validateModelList :: "configured_model list \<Rightarrow> string option" where
  "validateModelList ms = validate_from 0 ms"

section \<open>Models with several keys\<close>

text \<open>\<^verbatim>\<open>unique\<close> of \<^verbatim>\<open>config_struct.go\<close>: repetitions go.\<close>

fun unique_from :: "string list \<Rightarrow> string list \<Rightarrow> string list" where
  "unique_from seen [] = []"
| "unique_from seen (x # xs) = (if x \<in> set seen then unique_from seen xs else x # unique_from (x # seen) xs)"

definition key_values :: "configured_model \<Rightarrow> string list" where
  "key_values m = unique_from [] (mdl_APIKeys m)"

definition expanded_name :: "string \<Rightarrow> nat \<Rightarrow> string" where
  "expanded_name name i = name @ ''__key_'' @ decimal i"

text \<open>The copies name the fields they take over.\<close>

definition copy_model :: "configured_model \<Rightarrow> string \<Rightarrow> string \<Rightarrow> bool \<Rightarrow> string list \<Rightarrow> configured_model" where
  "copy_model m name key virtual fallbacks =
     \<lparr>mdl_ModelName = name, mdl_Model = mdl_Model m, mdl_APIBase = mdl_APIBase m, mdl_Proxy = mdl_Proxy m, mdl_Fallbacks = fallbacks,
      mdl_AuthMethod = mdl_AuthMethod m, mdl_ConnectMode = mdl_ConnectMode m, mdl_Workspace = mdl_Workspace m, mdl_RPM = mdl_RPM m,
      mdl_MaxTokensField = mdl_MaxTokensField m, mdl_RequestTimeout = mdl_RequestTimeout m, mdl_ThinkingLevel = mdl_ThinkingLevel m,
      mdl_ExtraBody = mdl_ExtraBody m, mdl_CustomHeaders = mdl_CustomHeaders m, mdl_APIKeys = [key], mdl_Enabled = False,
      mdl_UserAgent = [], mdl_isVirtual = virtual\<rparr>"

definition expand_model :: "configured_model \<Rightarrow> configured_model list" where
  "expand_model m =
     (let keys = key_values m
      in if length keys \<le> 1 then [m]
         else
           let extra = map (\<lambda>i. copy_model m (expanded_name (mdl_ModelName m) i) (keys ! i) True []) [1..<length keys];
               fallbackNames = map (expanded_name (mdl_ModelName m)) [1..<length keys]
           in extra @ [copy_model m (mdl_ModelName m) (keys ! 0) False
                (if fallbackNames \<noteq> [] then fallbackNames @ mdl_Fallbacks m else mdl_Fallbacks m)])"

definition expandMultiKeyModels :: "configured_model list \<Rightarrow> configured_model list" where
  "expandMultiKeyModels ms = concat (map expand_model ms)"

text \<open>The models \<^verbatim>\<open>SaveConfig\<close> writes.\<close>

definition savedModels :: "configured_model list \<Rightarrow> configured_model list" where
  "savedModels ms = filter (\<lambda>m. \<not> mdl_isVirtual m) ms"

section \<open>References to models\<close>

definition extractProtocol :: "string \<Rightarrow> string \<times> string" where
  "extractProtocol model0 =
     (let model = trim_space model0
      in case index_char (CHR ''/'') model of
           None \<Rightarrow> (''openai'', model)
         | Some i \<Rightarrow> (take i model, drop (Suc i) model))"

definition ensureProtocolModel :: "string \<Rightarrow> string" where
  "ensureProtocolModel model0 =
     (let model = trim_space model0
      in if model = [] then [] else if index_char (CHR ''/'') model \<noteq> None then model else ''openai/'' @ model)"

definition modelConfigIdentityKey :: "configured_model \<Rightarrow> string" where
  "modelConfigIdentityKey mc = (let name = trim_space (mdl_ModelName mc) in if name \<noteq> [] then ''model_name:'' @ name else [])"

definition candidateFromModelConfig :: "string \<Rightarrow> configured_model \<Rightarrow> fallback_candidate option" where
  "candidateFromModelConfig defaultProvider mc =
     (case parseModelRef (ensureProtocolModel (mdl_Model mc)) defaultProvider of
        None \<Rightarrow> None
      | Some ref \<Rightarrow> Some \<lparr>fc_Provider = mr_Provider ref, fc_Model = mr_Model ref, fc_RPM = mdl_RPM mc,
          fc_IdentityKey = modelConfigIdentityKey mc\<rparr>)"

fun find_by_ref :: "string \<Rightarrow> configured_model list \<Rightarrow> configured_model option" where
  "find_by_ref raw [] = None"
| "find_by_ref raw (mc # ms) =
     (let fullModel = trim_space (mdl_Model mc)
      in if fullModel = [] then find_by_ref raw ms
         else if fullModel = raw then Some mc
         else if snd (extractProtocol fullModel) = raw then Some mc
         else find_by_ref raw ms)"

definition lookupModelConfigByRef :: "configured_model list \<Rightarrow> string \<Rightarrow> rr_counter \<Rightarrow> configured_model option \<times> rr_counter" where
  "lookupModelConfigByRef ms raw0 c =
     (let raw = trim_space raw0
      in if raw = [] then (None, c)
         else case getModelConfig ms raw c of
           (Some mc, c') \<Rightarrow> if trim_space (mdl_Model mc) \<noteq> [] then (Some mc, c') else (find_by_ref raw ms, c')
         | (None, c') \<Rightarrow> (find_by_ref raw ms, c'))"

definition resolveModelCandidate ::
  "configured_model list \<Rightarrow> string \<Rightarrow> string \<Rightarrow> rr_counter \<Rightarrow> fallback_candidate option \<times> rr_counter" where
  "resolveModelCandidate ms defaultProvider raw0 c =
     (let raw = trim_space raw0
      in if raw = [] then (None, c)
         else case lookupModelConfigByRef ms raw c of
           (Some mc, c') \<Rightarrow> (candidateFromModelConfig defaultProvider mc, c')
         | (None, c') \<Rightarrow>
             (case parseModelRef raw defaultProvider of
                None \<Rightarrow> (None, c')
              | Some ref \<Rightarrow> (Some \<lparr>fc_Provider = mr_Provider ref, fc_Model = mr_Model ref, fc_RPM = 0, fc_IdentityKey = []\<rparr>, c')))"

text \<open>\<open>addCandidate\<close> of \<^verbatim>\<open>resolveModelCandidates\<close>: the keys seen, the candidates, the counter.\<close>

definition add_model_candidate ::
  "configured_model list \<Rightarrow> string \<Rightarrow> string \<Rightarrow> string list \<times> fallback_candidate list \<times> rr_counter
     \<Rightarrow> string list \<times> fallback_candidate list \<times> rr_counter" where
  "add_model_candidate ms defaultProvider raw acc =
     (case acc of (seen, cands, c) \<Rightarrow>
        (case resolveModelCandidate ms defaultProvider raw c of
           (None, c') \<Rightarrow> (seen, cands, c')
         | (Some cand, c') \<Rightarrow>
             if stableKey cand \<in> set seen then (seen, cands, c')
             else (stableKey cand # seen, cands @ [cand], c')))"

definition resolveModelCandidates ::
  "configured_model list \<Rightarrow> string \<Rightarrow> string \<Rightarrow> string list \<Rightarrow> rr_counter \<Rightarrow> fallback_candidate list \<times> rr_counter" where
  "resolveModelCandidates ms defaultProvider primary fallbacks c =
     snd (fold (add_model_candidate ms defaultProvider) fallbacks (add_model_candidate ms defaultProvider primary ([], [], c)))"

definition resolvedCandidateModel :: "fallback_candidate list \<Rightarrow> string \<Rightarrow> string" where
  "resolvedCandidateModel cands fallback =
     (case cands of [] \<Rightarrow> fallback | x # _ \<Rightarrow> if trim_space (fc_Model x) \<noteq> [] then fc_Model x else fallback)"

definition resolvedCandidateProvider :: "fallback_candidate list \<Rightarrow> string \<Rightarrow> string" where
  "resolvedCandidateProvider cands fallback =
     (case cands of [] \<Rightarrow> fallback | x # _ \<Rightarrow> if trim_space (fc_Provider x) \<noteq> [] then fc_Provider x else fallback)"

definition resolvedModelConfig :: "configured_model list \<Rightarrow> string \<Rightarrow> string \<Rightarrow> rr_counter \<Rightarrow> configured_model option \<times> rr_counter" where
  "resolvedModelConfig ms name workspace c =
     (case getModelConfig ms (trim_space name) c of
        (None, c') \<Rightarrow> (None, c')
      | (Some mc, c') \<Rightarrow> (Some (if mdl_Workspace mc = [] then mc\<lparr>mdl_Workspace := workspace\<rparr> else mc), c'))"

datatype thinking_level = ThinkingOff | ThinkingLow | ThinkingMedium | ThinkingHigh | ThinkingXHigh | ThinkingAdaptive

definition parseThinkingLevel :: "string \<Rightarrow> thinking_level" where
  "parseThinkingLevel level =
     (let l = to_lower (trim_space level)
      in if l = ''adaptive'' then ThinkingAdaptive
         else if l = ''low'' then ThinkingLow
         else if l = ''medium'' then ThinkingMedium
         else if l = ''high'' then ThinkingHigh
         else if l = ''xhigh'' then ThinkingXHigh
         else ThinkingOff)"

text \<open>The providers for the names of an agent's fallbacks, by the key a candidate has: each is given by the model it was
  created from; creating one may fail.\<close>

fun populateCandidateProviders ::
  "configured_model list \<Rightarrow> string \<Rightarrow> (configured_model \<Rightarrow> bool) \<Rightarrow> string list \<Rightarrow> (string \<rightharpoonup> configured_model) \<Rightarrow> rr_counter
     \<Rightarrow> (string \<rightharpoonup> configured_model) \<times> rr_counter" where
  "populateCandidateProviders ms workspace creates [] out c = (out, c)"
| "populateCandidateProviders ms workspace creates (name # names) out c =
     (case resolvedModelConfig ms (trim_space name) workspace c of
        (None, c') \<Rightarrow> populateCandidateProviders ms workspace creates names out c'
      | (Some mc, c') \<Rightarrow>
          (case extractProtocol (trim_space (mdl_Model mc)) of
             (protocol, modelID) \<Rightarrow>
               (let key = modelKey (normalizeProvider protocol) modelID
                in if out key \<noteq> None then populateCandidateProviders ms workspace creates names out c'
                   else if \<not> creates mc then populateCandidateProviders ms workspace creates names out c'
                   else populateCandidateProviders ms workspace creates names (out(key \<mapsto> mc)) c')))"

section \<open>What is resolved\<close>

text \<open>Each reference resolved on its own, with the counter handed on; what is left of it when repeated keys go.\<close>

fun resolve_each :: "configured_model list \<Rightarrow> string \<Rightarrow> string list \<Rightarrow> rr_counter \<Rightarrow> fallback_candidate list \<times> rr_counter" where
  "resolve_each ms dp [] c = ([], c)"
| "resolve_each ms dp (raw # raws) c =
     (case resolveModelCandidate ms dp raw c of
        (x, c1) \<Rightarrow> (case resolve_each ms dp raws c1 of (xs, c2) \<Rightarrow> ((case x of None \<Rightarrow> xs | Some y \<Rightarrow> y # xs), c2)))"

fun first_by :: "('a \<Rightarrow> 'b) \<Rightarrow> 'b list \<Rightarrow> 'a list \<Rightarrow> 'a list" where
  "first_by f seen [] = []"
| "first_by f seen (x # xs) = (if f x \<in> set seen then first_by f seen xs else x # first_by f (f x # seen) xs)"

lemma first_by_props:
  "distinct (map f (first_by f seen xs))" "subseq (first_by f seen xs) xs"
  "f ` set (first_by f seen xs) = f ` set xs - set seen"
proof -
  have s: "f ` set (first_by f sn ys) = f ` set ys - set sn" for sn ys
    by (induction ys arbitrary: sn) auto
  then show "f ` set (first_by f seen xs) = f ` set xs - set seen" .
  show "distinct (map f (first_by f seen xs))"
  proof (induction xs arbitrary: seen)
    case (Cons x xs)
    have "f x \<notin> f ` set (first_by f (f x # seen) xs)" by (simp add: s)
    then show ?case using Cons by auto
  qed simp
  show "subseq (first_by f seen xs) xs" by (induction xs arbitrary: seen) auto
qed

lemma resolve_each_fold:
  "fold (add_model_candidate ms dp) raws (seen, cands, c) =
     (rev (map stableKey (first_by stableKey seen (fst (resolve_each ms dp raws c)))) @ seen,
      cands @ first_by stableKey seen (fst (resolve_each ms dp raws c)), snd (resolve_each ms dp raws c))"
proof (induction raws arbitrary: seen cands c)
  case (Cons r rs)
  have step: "add_model_candidate ms dp r (seen, cands, c) =
      (case resolveModelCandidate ms dp r c of
         (None, c') \<Rightarrow> (seen, cands, c')
       | (Some cand, c') \<Rightarrow> if stableKey cand \<in> set seen then (seen, cands, c') else (stableKey cand # seen, cands @ [cand], c'))"
    by (simp add: add_model_candidate_def)
  show ?case
    by (cases "resolveModelCandidate ms dp r c") (auto simp: step Cons split: option.splits prod.splits)
qed simp

lemma resolve_spec:
  "resolveModelCandidates ms dp primary fallbacks c =
     (first_by stableKey [] (fst (resolve_each ms dp (primary # fallbacks) c)), snd (resolve_each ms dp (primary # fallbacks) c))"
  using resolve_each_fold [of ms dp "primary # fallbacks" "[]" "[]" c] by (simp add: resolveModelCandidates_def)

lemma resolve_each_length: "length (fst (resolve_each ms dp raws c)) \<le> length raws"
proof (induction raws arbitrary: c)
  case (Cons r rs)
  obtain x c1 where x: "resolveModelCandidate ms dp r c = (x, c1)" by (cases "resolveModelCandidate ms dp r c")
  obtain xs c2 where xs: "resolve_each ms dp rs c1 = (xs, c2)" by (cases "resolve_each ms dp rs c1")
  have "length xs \<le> length rs" using Cons [of c1] xs by simp
  then show ?case using x xs by (simp split: option.splits)
qed simp

text \<open>The fallbacks a model lists itself.\<close>

definition with_fallbacks :: "(configured_model \<Rightarrow> string list) \<Rightarrow> configured_model \<Rightarrow> configured_model" where
  "with_fallbacks f m = m\<lparr>mdl_Fallbacks := f m\<rparr>"

lemma with_fallbacks_sel [simp]:
  "mdl_ModelName (with_fallbacks f m) = mdl_ModelName m" "mdl_Model (with_fallbacks f m) = mdl_Model m"
  "mdl_RPM (with_fallbacks f m) = mdl_RPM m"
  by (simp_all add: with_fallbacks_def)

lemma matches_with_fallbacks [simp]: "findMatches (map (with_fallbacks f) ms) name = map (with_fallbacks f) (findMatches ms name)"
  by (induction ms) (auto simp: findMatches_def)

lemma get_with_fallbacks:
  "getModelConfig (map (with_fallbacks f) ms) name c = map_prod (map_option (with_fallbacks f)) id (getModelConfig ms name c)"
proof -
  have "findMatches ms name ! (unat c mod length (findMatches ms name)) = findMatches ms name ! (unat c mod length (findMatches ms name))" ..
  moreover have "unat c mod length (findMatches ms name) < length (findMatches ms name)" if "findMatches ms name \<noteq> []"
    using that by simp
  ultimately show ?thesis by (auto simp: getModelConfig_def Let_def)
qed

lemma find_with_fallbacks: "find_by_ref raw (map (with_fallbacks f) ms) = map_option (with_fallbacks f) (find_by_ref raw ms)"
  by (induction ms) (auto simp: Let_def)

lemma lookup_with_fallbacks:
  "lookupModelConfigByRef (map (with_fallbacks f) ms) raw c = map_prod (map_option (with_fallbacks f)) id (lookupModelConfigByRef ms raw c)"
  by (cases "getModelConfig ms (trim_space raw) c")
     (auto simp: lookupModelConfigByRef_def get_with_fallbacks find_with_fallbacks Let_def split: option.splits)

lemma candidate_with_fallbacks [simp]: "candidateFromModelConfig dp (with_fallbacks f mc) = candidateFromModelConfig dp mc"
  by (simp add: candidateFromModelConfig_def modelConfigIdentityKey_def split: option.split)

lemma resolve_one_with_fallbacks: "resolveModelCandidate (map (with_fallbacks f) ms) dp raw c = resolveModelCandidate ms dp raw c"
  by (cases "lookupModelConfigByRef ms (trim_space raw) c")
     (auto simp: resolveModelCandidate_def lookup_with_fallbacks Let_def split: option.splits)

lemma resolve_with_fallbacks: "resolve_each (map (with_fallbacks f) ms) dp raws c = resolve_each ms dp raws c"
  by (induction raws arbitrary: c) (simp_all add: resolve_one_with_fallbacks)

text \<open>
  The candidates of an agent. They are what the references, the primary one first, resolve to, in order, without the
  later ones that have the stable key of an earlier one: their keys are distinct, no key is lost, and there are at most as many as
  references. The fallbacks a model of the list names itself, which the expansion of its keys writes, play no part.
\<close>

theorem candidate_resolution:
  "distinct (map stableKey (fst (resolveModelCandidates ms dp primary fallbacks c)))
   \<and> subseq (fst (resolveModelCandidates ms dp primary fallbacks c)) (fst (resolve_each ms dp (primary # fallbacks) c))
   \<and> stableKey ` set (fst (resolveModelCandidates ms dp primary fallbacks c)) = stableKey ` set (fst (resolve_each ms dp (primary # fallbacks) c))
   \<and> length (fst (resolveModelCandidates ms dp primary fallbacks c)) \<le> Suc (length fallbacks)
   \<and> resolveModelCandidates (map (with_fallbacks f) ms) dp primary fallbacks c = resolveModelCandidates ms dp primary fallbacks c"
proof (intro conjI)
  let ?xs = "fst (resolve_each ms dp (primary # fallbacks) c)"
  have "subseq (first_by stableKey [] ?xs) ?xs" by (rule first_by_props)
  then have "length (first_by stableKey [] ?xs) \<le> length ?xs" by (rule list_emb_length)
  also have "\<dots> \<le> Suc (length fallbacks)" using resolve_each_length [of ms dp "primary # fallbacks" c] by simp
  finally show "length (fst (resolveModelCandidates ms dp primary fallbacks c)) \<le> Suc (length fallbacks)"
    by (simp only: resolve_spec fst_conv)
  show "resolveModelCandidates (map (with_fallbacks f) ms) dp primary fallbacks c = resolveModelCandidates ms dp primary fallbacks c"
    by (simp only: resolve_spec resolve_with_fallbacks)
  show "distinct (map stableKey (fst (resolveModelCandidates ms dp primary fallbacks c)))"
    and "subseq (fst (resolveModelCandidates ms dp primary fallbacks c)) ?xs"
    and "stableKey ` set (fst (resolveModelCandidates ms dp primary fallbacks c)) = stableKey ` set ?xs"
    using first_by_props [of stableKey "[]" ?xs] by (simp_all only: resolve_spec fst_conv list.set Diff_empty)
qed

section \<open>The expansion of the keys\<close>

text \<open>Which key is used for which model at which endpoint.\<close>

definition key_uses :: "configured_model list \<Rightarrow> (string \<times> string \<times> string) set" where
  "key_uses ms = set (concat (map (\<lambda>m. map (\<lambda>k. (mdl_Model m, mdl_APIBase m, k)) (mdl_APIKeys m)) ms))"

lemma unique_props: "distinct (unique_from seen xs)" "set (unique_from seen xs) = set xs - set seen"
proof -
  have s: "set (unique_from sn xs) = set xs - set sn" for sn by (induction xs arbitrary: sn) auto
  then show "set (unique_from seen xs) = set xs - set seen" .
  show "distinct (unique_from seen xs)"
  proof (induction xs arbitrary: seen)
    case (Cons x xs)
    have "set (unique_from sn xs) = set xs - set sn" for sn by (induction xs arbitrary: sn) auto
    with Cons show ?case by simp
  qed simp
qed

lemma key_values_props: "distinct (key_values m)" "set (key_values m) = set (mdl_APIKeys m)"
  by (simp_all add: key_values_def unique_props)

lemma key_values_hd: "key_values m \<noteq> [] \<Longrightarrow> [key_values m ! 0] = take 1 (mdl_APIKeys m)"
  by (cases "mdl_APIKeys m") (simp_all add: key_values_def)

lemma set_nth_range: "xs \<noteq> [] \<Longrightarrow> insert (xs ! 0) ((!) xs ` {Suc 0..<length xs}) = set xs"
proof (cases xs)
  case (Cons a l)
  have "(!) xs ` {Suc 0..<length xs} = (\<lambda>i. xs ! Suc i) ` {0..<length l}"
    unfolding Cons list.size(4) One_nat_def add_0_right add_Suc_right image_Suc_atLeastLessThan [symmetric] image_image ..
  also have "\<dots> = set l" by (auto simp: Cons set_conv_nth)
  finally show ?thesis by (simp add: Cons)
qed simp

lemma expand_one:
  "key_uses (expand_model m) = key_uses [m]" "list_all (\<lambda>e. length (key_values e) \<le> 1) (expand_model m)"
  "\<not> mdl_isVirtual m \<Longrightarrow> savedModels (expand_model m) =
     [if length (key_values m) \<le> 1 then m
      else copy_model m (mdl_ModelName m) (key_values m ! 0) False (map (expanded_name (mdl_ModelName m)) [1..<length (key_values m)] @ mdl_Fallbacks m)]"
proof -
  have one: "length (key_values (copy_model m n k v f)) \<le> 1" for n k v f
    by (simp add: key_values_def copy_model_def)
  then show "list_all (\<lambda>e. length (key_values e) \<le> 1) (expand_model m)"
    by (auto simp: expand_model_def Let_def list_all_iff)
  show "\<not> mdl_isVirtual m \<Longrightarrow> savedModels (expand_model m) =
     [if length (key_values m) \<le> 1 then m
      else copy_model m (mdl_ModelName m) (key_values m ! 0) False (map (expanded_name (mdl_ModelName m)) [1..<length (key_values m)] @ mdl_Fallbacks m)]"
    by (auto simp: expand_model_def Let_def savedModels_def copy_model_def)
  show "key_uses (expand_model m) = key_uses [m]"
  proof (cases "length (key_values m) \<le> 1")
    case False
    then have "key_values m \<noteq> []" by auto
    with False have "key_uses (expand_model m) = (\<lambda>k. (mdl_Model m, mdl_APIBase m, k)) ` set (key_values m)"
      by (simp add: expand_model_def Let_def key_uses_def copy_model_def image_image UNION_singleton_eq_range flip: set_nth_range)
    then show ?thesis by (simp add: key_values_props key_uses_def)
  qed (simp add: expand_model_def Let_def)
qed

lemma key_uses_Cons: "key_uses (m # ms) = key_uses [m] \<union> key_uses ms" "key_uses (xs @ ms) = key_uses xs \<union> key_uses ms"
  by (auto simp: key_uses_def)

lemma expand_Cons: "expandMultiKeyModels (m # ms) = expand_model m @ expandMultiKeyModels ms" "expandMultiKeyModels [] = []"
  by (simp_all add: expandMultiKeyModels_def)

lemma saved_Cons: "savedModels (xs @ ys) = savedModels xs @ savedModels ys"
  by (simp add: savedModels_def)

text \<open>
  Claim C23. The expansion of models with several keys. Every key stays in use for its model and endpoint and no other comes up, and no
  entry has more than one key; but what is saved afterwards of a list without virtual entries are the models under their names with their
  first key only: a configuration that is loaded and saved has lost the other keys.
\<close>

theorem multi_key_expansion:
  assumes "list_all (\<lambda>m. \<not> mdl_isVirtual m) ms"
  shows "key_uses (expandMultiKeyModels ms) = key_uses ms
     \<and> list_all (\<lambda>e. length (key_values e) \<le> 1) (expandMultiKeyModels ms)
     \<and> map mdl_ModelName (savedModels (expandMultiKeyModels ms)) = map mdl_ModelName ms
     \<and> map mdl_APIKeys (savedModels (expandMultiKeyModels ms))
         = map (\<lambda>m. if length (key_values m) \<le> 1 then mdl_APIKeys m else take 1 (mdl_APIKeys m)) ms"
proof (intro conjI)
  show "key_uses (expandMultiKeyModels ms) = key_uses ms"
  proof (induction ms)
    case (Cons m ms)
    have "key_uses (expandMultiKeyModels (m # ms)) = key_uses (expand_model m) \<union> key_uses (expandMultiKeyModels ms)"
      by (simp only: expand_Cons key_uses_Cons(2))
    then show ?case by (simp only: expand_one Cons key_uses_Cons(1) [of m ms])
  qed (simp add: expand_Cons)
  show "list_all (\<lambda>e. length (key_values e) \<le> 1) (expandMultiKeyModels ms)"
    by (induction ms) (simp_all add: expand_Cons expand_one del: One_nat_def)
  show "map mdl_ModelName (savedModels (expandMultiKeyModels ms)) = map mdl_ModelName ms"
    using assms by (induction ms) (auto simp: expand_Cons savedModels_def [of "[]"] saved_Cons expand_one copy_model_def)
  have k: "[key_values m ! 0] = take 1 (mdl_APIKeys m)" if "\<not> length (key_values m) \<le> 1" for m
    by (rule key_values_hd) (use that in auto)
  show "map mdl_APIKeys (savedModels (expandMultiKeyModels ms))
      = map (\<lambda>m. if length (key_values m) \<le> 1 then mdl_APIKeys m else take 1 (mdl_APIKeys m)) ms"
    using assms by (induction ms) (simp_all add: expand_Cons savedModels_def [of "[]"] saved_Cons expand_one k copy_model_def)
qed

definition demo_model :: configured_model where
  "demo_model = \<lparr>mdl_ModelName = ''gpt-4'', mdl_Model = ''openai/gpt-4o'', mdl_APIBase = [], mdl_Proxy = [], mdl_Fallbacks = [],
     mdl_AuthMethod = [], mdl_ConnectMode = [], mdl_Workspace = [], mdl_RPM = 0, mdl_MaxTokensField = [], mdl_RequestTimeout = 0,
     mdl_ThinkingLevel = [], mdl_ExtraBody = [], mdl_CustomHeaders = [], mdl_APIKeys = [''k1'', ''k2'', ''k3''], mdl_Enabled = True,
     mdl_UserAgent = [], mdl_isVirtual = False\<rparr>"

theorem multi_key_expansion_witness: "map mdl_APIKeys (savedModels (expandMultiKeyModels [demo_model])) = [[''k1'']]"
proof -
  have "list_all (\<lambda>m. \<not> mdl_isVirtual m) [demo_model]" "\<not> length (key_values demo_model) \<le> 1" by code_simp+
  moreover have "take 1 (mdl_APIKeys demo_model) = [''k1'']" by code_simp
  ultimately show ?thesis using multi_key_expansion [of "[demo_model]"] by simp
qed

section \<open>Round robin\<close>

fun get_configs :: "nat \<Rightarrow> configured_model list \<Rightarrow> string \<Rightarrow> rr_counter \<Rightarrow> configured_model option list \<times> rr_counter" where
  "get_configs 0 ms name c = ([], c)"
| "get_configs (Suc n) ms name c =
     (case getModelConfig ms name c of (x, c1) \<Rightarrow> (case get_configs n ms name c1 of (xs, c2) \<Rightarrow> (x # xs, c2)))"

lemma get_configs_many:
  assumes "findMatches ms name = xs" "length xs > 1" "unat c + n < 2 ^ 64"
  shows "get_configs n ms name c = (map (\<lambda>i. Some (xs ! ((unat c + i) mod length xs))) [0..<n], c + of_nat n)"
  using assms(3)
proof (induction n arbitrary: c)
  case (Suc n)
  have u: "unat (c + 1) = Suc (unat c)" using Suc.prems by (simp add: unat_word_ariths)
  have "get_configs n ms name (c + 1) = (map (\<lambda>i. Some (xs ! ((unat (c + 1) + i) mod length xs))) [0..<n], c + 1 + of_nat n)"
    by (rule Suc.IH) (use Suc.prems u in simp)
  moreover have "getModelConfig ms name c = (Some (xs ! (unat c mod length xs)), c + 1)"
    using assms(1,2) by (auto simp: getModelConfig_def)
  moreover have "[0..<Suc n] = 0 # map Suc [0..<n]" by (simp add: map_Suc_upt upt_conv_Cons del: upt_Suc)
  ultimately show ?case by (simp add: u o_def add.assoc del: upt_Suc)
qed simp

lemma mod_shift_inj: "i < m \<Longrightarrow> j < m \<Longrightarrow> j \<le> i \<Longrightarrow> (c + i) mod m = (c + j) mod (m :: nat) \<Longrightarrow> i = j"
  using mod_eq_dvd_iff_nat [of "c + j" "c + i" m] by (auto dest: dvd_imp_le)

lemma mset_window: "0 < m \<Longrightarrow> image_mset (\<lambda>i. (c + i) mod m) (mset_set {0..<m}) = mset_set {0..<m :: nat}"
proof -
  assume m: "0 < m"
  have "inj_on (\<lambda>i. (c + i) mod m) {0..<m}"
  proof (rule inj_onI)
    fix i j assume "i \<in> {0..<m}" "j \<in> {0..<m}" "(c + i) mod m = (c + j) mod m"
    then show "i = j" using mod_shift_inj [of i m j c] mod_shift_inj [of j m i c] by (cases "j \<le> i") auto
  qed
  moreover have "(\<lambda>i. (c + i) mod m) ` {0..<m} = {0..<m}"
    by (rule endo_inj_surj) (use m calculation in auto)
  ultimately show ?thesis by (simp add: image_mset_mset_set)
qed

text \<open>
  Round robin. As many lookups of a name as it has entries, one after the other, give each entry exactly once, whatever
  the counter stands at, as long as it does not wrap around meanwhile.
\<close>

theorem round_robin_fair:
  assumes "length (findMatches ms name) > 1" "unat c + length (findMatches ms name) < 2 ^ 64"
  shows "mset (fst (get_configs (length (findMatches ms name)) ms name c)) = mset (map Some (findMatches ms name))"
proof -
  let ?xs = "findMatches ms name"
  have "mset (fst (get_configs (length ?xs) ms name c)) = image_mset (\<lambda>i. Some (?xs ! ((unat c + i) mod length ?xs))) (mset_set {0..<length ?xs})"
    using get_configs_many [OF refl assms] by simp
  also have "\<dots> = image_mset (\<lambda>i. Some (?xs ! i)) (image_mset (\<lambda>i. (unat c + i) mod length ?xs) (mset_set {0..<length ?xs}))"
    by (simp add: multiset.map_comp o_def)
  also have "\<dots> = image_mset (\<lambda>i. Some (?xs ! i)) (mset_set {0..<length ?xs})"
    using assms(1) by (subst mset_window) auto
  also have "\<dots> = mset (map (\<lambda>i. Some (?xs ! i)) [0..<length ?xs])" by simp
  also have "map (\<lambda>i. Some (?xs ! i)) [0..<length ?xs] = map Some ?xs"
    by (rule nth_equalityI) simp_all
  finally show ?thesis .
qed

theorem round_robin_fair_witness:
  "mset (fst (get_configs 2 [demo_model, demo_model\<lparr>mdl_Model := ''x/y''\<rparr>] ''gpt-4'' 7))
     = mset [Some demo_model, Some (demo_model\<lparr>mdl_Model := ''x/y''\<rparr>)]"
proof -
  have "findMatches [demo_model, demo_model\<lparr>mdl_Model := ''x/y''\<rparr>] ''gpt-4'' = [demo_model, demo_model\<lparr>mdl_Model := ''x/y''\<rparr>]"
    by (simp add: findMatches_def demo_model_def)
  moreover have "length [demo_model, demo_model\<lparr>mdl_Model := ''x/y''\<rparr>] = 2" "unat (7 :: rr_counter) + 2 < 2 ^ 64" by simp_all
  ultimately show ?thesis
    using round_robin_fair [of "[demo_model, demo_model\<lparr>mdl_Model := ''x/y''\<rparr>]" "''gpt-4''" 7] by (simp only: list.map)
qed

section \<open>Several keys as fallbacks of each other\<close>

text \<open>The provider a candidate is called with (\<^verbatim>\<open>loop.go\<close>, the callback of the fallback chain): the one for its
  provider and model, else the agent's own.\<close>

definition candidate_provider :: "(string \<rightharpoonup> configured_model) \<Rightarrow> configured_model \<Rightarrow> fallback_candidate \<Rightarrow> configured_model" where
  "candidate_provider out activeProvider cand =
     (case out (modelKey (fc_Provider cand) (fc_Model cand)) of Some mc \<Rightarrow> mc | None \<Rightarrow> activeProvider)"

lemma decimal_end: "decimal n \<noteq> [] \<and> \<not> is_space (last (decimal n))"
proof -
  have "\<not> is_space (char_of (48 + k :: nat))" if "k < 10" for k
    using that by (simp add: is_space_code)
  then show ?thesis using decimal.simps [of n] by (cases "n < 10") simp_all
qed

lemma expanded_name_inj [simp]: "expanded_name n i = expanded_name n j \<longleftrightarrow> i = j" "expanded_name n i \<noteq> n" "n \<noteq> expanded_name n i"
  by (auto simp: expanded_name_def decimal_inj dest: arg_cong [of _ _ length])

lemma trim_expanded: "trim_space n = n \<Longrightarrow> n \<noteq> [] \<Longrightarrow> trim_space (expanded_name n i) = expanded_name n i"
  using trim_space_ends [of n] decimal_end [of i] by (intro trim_space_id) (simp add: expanded_name_def)

lemma filter_one: "a \<le> j \<Longrightarrow> j < b \<Longrightarrow> filter (\<lambda>i. i = j) [a..<b] = [j]"
  by (induction b) (auto simp: less_Suc_eq filter_empty_conv)

definition key_entry :: "configured_model \<Rightarrow> nat \<Rightarrow> configured_model" where
  "key_entry m i = (if i = 0 then copy_model m (mdl_ModelName m) (key_values m ! 0) False
       (map (expanded_name (mdl_ModelName m)) [1..<length (key_values m)] @ mdl_Fallbacks m)
     else copy_model m (expanded_name (mdl_ModelName m) i) (key_values m ! i) True [])"

definition key_name :: "configured_model \<Rightarrow> nat \<Rightarrow> string" where
  "key_name m i = (if i = 0 then mdl_ModelName m else expanded_name (mdl_ModelName m) i)"

lemma key_name_inj [simp]: "key_name m i = key_name m j \<longleftrightarrow> i = j"
  by (auto simp: key_name_def)

lemma expand_entries: "length (key_values m) > 1 \<Longrightarrow> expand_model m = map (key_entry m) ([1..<length (key_values m)] @ [0])"
  by (auto simp: expand_model_def key_entry_def Let_def)

lemma entry_name [simp]: "mdl_ModelName (key_entry m i) = key_name m i" "mdl_Model (key_entry m i) = mdl_Model m"
    "mdl_APIKeys (key_entry m i) = [key_values m ! i]"
  by (simp_all add: key_entry_def key_name_def copy_model_def)

lemma entry_matches:
  assumes "length (key_values m) > 1" "i < length (key_values m)"
  shows "findMatches (expand_model m) (key_name m i) = [key_entry m i]"
  using assms filter_one [of 1 i "length (key_values m)"]
  by (auto simp: expand_entries findMatches_def filter_map o_def filter_empty_conv)

lemma entry_get:
  assumes "length (key_values m) > 1" "i < length (key_values m)"
  shows "getModelConfig (expand_model m) (key_name m i) c = (Some (key_entry m i), c)"
  by (simp add: getModelConfig_def entry_matches [OF assms])

lemma trim_key_name: "trim_space (mdl_ModelName m) = mdl_ModelName m \<Longrightarrow> mdl_ModelName m \<noteq> [] \<Longrightarrow>
    trim_space (key_name m i) = key_name m i \<and> key_name m i \<noteq> []"
  by (simp add: key_name_def trim_expanded) (simp add: expanded_name_def)

lemma first_by_distinct: "distinct (map f xs) \<Longrightarrow> f ` set xs \<inter> set seen = {} \<Longrightarrow> first_by f seen xs = xs"
  by (induction xs arbitrary: seen) auto

lemma populate_present:
  assumes "\<And>i. i \<in> set ixs \<Longrightarrow> \<exists>mc. resolvedModelConfig ms (trim_space (f i)) ws c = (Some mc, c) \<and> extractProtocol (trim_space (mdl_Model mc)) = (p, q)"
    "out (modelKey (normalizeProvider p) q) \<noteq> None"
  shows "populateCandidateProviders ms ws creates (map f ixs) out c = (out, c)"
  using assms
proof (induction ixs)
  case (Cons i ixs)
  then obtain mc where "resolvedModelConfig ms (trim_space (f i)) ws c = (Some mc, c)" "extractProtocol (trim_space (mdl_Model mc)) = (p, q)"
    by (meson list.set_intros(1))
  then show ?case using Cons by simp
qed simp

text \<open>
  Claim C24. Keys that are to fail over to each other do not. Take a model with several keys, expanded, and an agent with it as its primary
  model and all the entries of its other keys as fallbacks: the candidates are as many as the keys, with distinct stable keys, so the
  chain cools them down and counts them apart, but every one of them, the primary one included, is called with the provider
  of the second key.
\<close>

theorem multi_key_failover:
  assumes "length (key_values m) > 1" "trim_space (mdl_ModelName m) = mdl_ModelName m" "mdl_ModelName m \<noteq> []"
    "mdl_Model m = p @ ''/'' @ q" "trim_space p = p" "trim_space q = q" "p \<noteq> []" "q \<noteq> []" "CHR ''/'' \<notin> set p"
  shows "length (fst (resolveModelCandidates (expand_model m) dp (key_name m 0) (map (key_name m) [1..<length (key_values m)]) c)) = length (key_values m)
     \<and> distinct (map stableKey (fst (resolveModelCandidates (expand_model m) dp (key_name m 0) (map (key_name m) [1..<length (key_values m)]) c)))
     \<and> map (\<lambda>x. mdl_APIKeys (candidate_provider (fst (populateCandidateProviders (expand_model m) ws (\<lambda>_. True)
              (map (key_name m) [1..<length (key_values m)]) Map.empty c')) active x))
          (fst (resolveModelCandidates (expand_model m) dp (key_name m 0) (map (key_name m) [1..<length (key_values m)]) c))
        = replicate (length (key_values m)) [key_values m ! 1]"
proof -
  let ?L = "length (key_values m)" and ?ms = "expand_model m"
  define cand where "cand i = \<lparr>fc_Provider = normalizeProvider p, fc_Model = q, fc_RPM = mdl_RPM (key_entry m i),
     fc_IdentityKey = ''model_name:'' @ key_name m i\<rparr>" for i
  have tk: "trim_space (key_name m i) = key_name m i" "key_name m i \<noteq> []" for i using trim_key_name [OF assms(2,3)] by auto
  have tm: "trim_space (p @ ''/'' @ q) = p @ ''/'' @ q"
    by (rule trim_space_id) (use trim_space_ends [of p] trim_space_ends [of q] assms(5-8) in simp)
  have idx: "index_char (CHR ''/'') (p @ ''/'' @ q) = Some (length p)" using index_char_append [OF assms(9), of q] by simp
  have one: "resolveModelCandidate ?ms dp (key_name m i) c = (Some (cand i), c)" if "i < ?L" for i c
  proof -
    have "lookupModelConfigByRef ?ms (key_name m i) c = (Some (key_entry m i), c)"
      using assms(4,7) tm by (simp add: lookupModelConfigByRef_def tk entry_get [OF assms(1) that] Let_def)
    moreover have "candidateFromModelConfig dp (key_entry m i) = Some (cand i)"
      using assms(4,6-8) tm idx
      by (simp add: candidateFromModelConfig_def ensureProtocolModel_def parseModelRef_def modelConfigIdentityKey_def cand_def tk Let_def)
    ultimately show ?thesis by (simp add: resolveModelCandidate_def tk Let_def)
  qed
  have each: "resolve_each ?ms dp (map (key_name m) is') c = (map cand is', c)" if "\<forall>i\<in>set is'. i < ?L" for is'
    using that by (induction is') (simp_all add: one)
  have stable: "stableKey (cand i) = ''model_name:'' @ key_name m i" for i
  proof -
    have "trim_space (''model_name:'' @ key_name m i) = ''model_name:'' @ key_name m i"
      by (rule trim_space_id) (use trim_space_ends [of "key_name m i"] tk in \<open>simp add: is_space_def\<close>)
    then show ?thesis by (simp add: stableKey_def cand_def)
  qed
  have names: "key_name m 0 # map (key_name m) [1..<?L] = map (key_name m) [0..<?L]"
  proof -
    have "[0..<?L] = 0 # [1..<?L]" using assms(1) upt_conv_Cons [of 0 ?L] by (simp del: upt.simps length_greater_0_conv)
    then show ?thesis by simp
  qed
  have "distinct (map stableKey (map cand [0..<?L]))" by (simp add: stable o_def distinct_map inj_on_def)
  then have cands: "fst (resolveModelCandidates ?ms dp (key_name m 0) (map (key_name m) [1..<?L]) c) = map cand [0..<?L]"
    unfolding resolve_spec fst_conv names using each [of "[0..<?L]"] first_by_distinct [of stableKey "map cand [0..<?L]" "[]"] by simp
  define mc where "mc i = (if mdl_Workspace (key_entry m i) = [] then (key_entry m i)\<lparr>mdl_Workspace := ws\<rparr> else key_entry m i)" for i
  have res: "resolvedModelConfig ?ms (trim_space (key_name m i)) ws c' = (Some (mc i), c')" if "i < ?L" for i
    by (simp add: resolvedModelConfig_def tk entry_get [OF assms(1) that] mc_def)
  have prot: "extractProtocol (trim_space (mdl_Model (mc i))) = (p, q)" for i
    using tm idx assms(4) by (simp add: extractProtocol_def mc_def)
  have "[1..<?L] = 1 # [2..<?L]" using assms(1) by (simp add: upt_conv_Cons numeral_2_eq_2)
  then have "fst (populateCandidateProviders ?ms ws (\<lambda>_. True) (map (key_name m) [1..<?L]) Map.empty c')
      = fst (populateCandidateProviders ?ms ws (\<lambda>_. True) (map (key_name m) [2..<?L]) [modelKey (normalizeProvider p) q \<mapsto> mc 1] c')"
    using res [of 1] prot [of 1] assms(1) by simp
  also have "\<dots> = [modelKey (normalizeProvider p) q \<mapsto> mc 1]"
    by (subst populate_present [where p = p and q = q]) (use res prot in auto)
  finally have "mdl_APIKeys (candidate_provider (fst (populateCandidateProviders ?ms ws (\<lambda>_. True) (map (key_name m) [1..<?L]) Map.empty c'))
      active (cand i)) = [key_values m ! 1]" for i
    by (simp add: candidate_provider_def cand_def mc_def)
  then show ?thesis
    using \<open>distinct (map stableKey (map cand [0..<?L]))\<close> by (simp add: cands o_def map_replicate_const del: One_nat_def)
qed

theorem multi_key_failover_witness:
  "map (\<lambda>x. mdl_APIKeys (candidate_provider (fst (populateCandidateProviders (expand_model demo_model) [] (\<lambda>_. True)
       (map (key_name demo_model) [1..<3]) Map.empty 0)) demo_model x))
     (fst (resolveModelCandidates (expand_model demo_model) ''openai'' (key_name demo_model 0) (map (key_name demo_model) [1..<3]) 0))
   = [[''k2''], [''k2''], [''k2'']]"
proof -
  have "trim_space (mdl_ModelName demo_model) = mdl_ModelName demo_model" "trim_space ''openai'' = ''openai''" "trim_space ''gpt-4o'' = ''gpt-4o''"
    "mdl_ModelName demo_model \<noteq> []" "mdl_Model demo_model = ''openai'' @ ''/'' @ ''gpt-4o''" "CHR ''/'' \<notin> set ''openai''"
    "length (key_values demo_model) = 3" "key_values demo_model ! 1 = ''k2''" by code_simp+
  then show ?thesis
    using multi_key_failover [of demo_model "''openai''" "''gpt-4o''" "''openai''" 0 "[]" 0 demo_model]
    by (simp add: numeral_3_eq_3)
qed

end
