(* ===== verification/AgentLoop.thy ===== *)
theory AgentLoop
  imports ActiveTurns AgentTurn ChannelGate Commands ModelResolve
begin

text \<open>
  The loop around the turns, \<^verbatim>\<open>pkg/agent/loop.go\<close>: what \<^verbatim>\<open>Run\<close> does with an inbound message, from its
  route and its commands to the published answer, and the goroutine that steers messages into a running turn. The turn is an
  argument \<open>run\<close> (\<open>AgentTurn\<close> models it): what it returns, and the state after it, which has also whatever other
  goroutines did meanwhile. \<open>None\<close> is a panic. Logging, closing of providers and the transcription of audio, which
  does nothing in this version, are left out.
\<close>

section \<open>The state\<close>

record loop_options = process_options +
  po_MessageID :: string
  po_ReplyToMessageID :: string
  po_ForcedSkills :: "string list"

text \<open>What of an agent \<^verbatim>\<open>/switch model\<close> changes; a provider is the configuration it was created from.\<close>

record agent_model =
  am_Model :: string
  am_Fallbacks :: "string list"
  am_Workspace :: string
  am_Candidates :: "fallback_candidate list"
  am_Provider :: configured_model
  am_Thinking :: thinking_level

text \<open>Message tools and their targets of the round are by agent; the outbound messages and the typing stops are logs.\<close>

record gateway =
  gw_al :: loop_state
  gw_pendingSkills :: "string \<rightharpoonup> string list"
  gw_lastChannel :: string
  gw_messageTool :: "string \<rightharpoonup> (string \<times> string) list"
  gw_inbound :: "inbound_message list"
  gw_closed :: bool
  gw_outbound :: "outbound_message list"
  gw_typingStops :: "(string \<times> string) list"
  gw_models :: "string \<Rightarrow> agent_model"
  gw_rr :: rr_counter

text \<open>What the loop is given: the configuration, an error of the lazy initialisation, whether there is a state manager, the
  skills, the skill filter and the session store of an agent (absent when it has no context builder or no store), the command registry, the names of the channels (absent without a
  channel manager), the reload function, the errors of creating a provider, and the print of a turn.\<close>

record loop_env =
  lv_route :: route_config
  lv_init :: "string option"
  lv_state :: bool
  lv_skills :: "string \<Rightarrow> string list option"
  lv_skillsFilter :: "string \<Rightarrow> string list"
  lv_store :: "string \<Rightarrow> nat option"
  lv_commands :: "(gateway \<times> string) handler command_registry option"
  lv_channels :: "string list option"
  lv_reload :: "(gateway \<Rightarrow> string option \<times> gateway) option"
  lv_models :: "configured_model list"
  lv_provider :: string
  lv_createError :: "configured_model \<Rightarrow> string option"
  lv_turnText :: "active_turn_info \<Rightarrow> string"

datatype turn_result = ResErr string | ResAborted | ResDone string "inbound_message list"

type_synonym turn_runner = "agent_entry \<Rightarrow> loop_options \<Rightarrow> gateway \<Rightarrow> (turn_result \<times> gateway) option"

type_synonym reply = "(string + string) \<times> gateway"

definition defaultResponse :: string where
  "defaultResponse = ''The model returned an empty response. This may indicate a provider error or token limit.''"

definition sessionKeyAgentPrefix :: string where "sessionKeyAgentPrefix = ''agent:''"

definition upd_al :: "(loop_state \<Rightarrow> loop_state) \<Rightarrow> gateway \<Rightarrow> gateway" where
  "upd_al f s = s\<lparr>gw_al := f (gw_al s)\<rparr>"

section \<open>Routing a message\<close>

definition inboundMetadata :: "inbound_message \<Rightarrow> string \<Rightarrow> string" where
  "inboundMetadata msg key = (case map_of (in_Metadata msg) key of None \<Rightarrow> [] | Some v \<Rightarrow> v)"

definition extractPeer :: "inbound_message \<Rightarrow> route_peer option" where
  "extractPeer msg =
     (let kind = bp_Kind (in_Peer msg); pid = bp_ID (in_Peer msg)
      in if kind = [] then None
         else Some \<lparr>peer_Kind = kind,
           peer_ID = (if pid = [] then (if kind = ''direct'' then in_SenderID msg else in_ChatID msg) else pid)\<rparr>)"

definition extractParentPeer :: "inbound_message \<Rightarrow> route_peer option" where
  "extractParentPeer msg =
     (let parentKind = inboundMetadata msg ''parent_peer_kind''; parentID = inboundMetadata msg ''parent_peer_id''
      in if parentKind = [] \<or> parentID = [] then None else Some \<lparr>peer_Kind = parentKind, peer_ID = parentID\<rparr>)"

text \<open>The loop always has a registry; without one, as with an empty one, no agent is found.\<close>

definition registry_of :: "gateway \<Rightarrow> agent_registry" where
  "registry_of s = (case al_registry (gw_al s) of None \<Rightarrow> [] | Some r \<Rightarrow> r)"

definition route_input_of :: "inbound_message \<Rightarrow> route_input" where
  "route_input_of msg =
     \<lparr>ri_Channel = in_Channel msg, ri_AccountID = inboundMetadata msg ''account_id'', ri_Peer = extractPeer msg,
      ri_ParentPeer = extractParentPeer msg, ri_GuildID = inboundMetadata msg ''guild_id'', ri_TeamID = inboundMetadata msg ''team_id''\<rparr>"

definition resolveMessageRoute :: "loop_env \<Rightarrow> inbound_message \<Rightarrow> gateway \<Rightarrow> string + resolved_route \<times> agent_entry" where
  "resolveMessageRoute env msg s =
     (let route = resolveRoute (lv_route env) (route_input_of msg);
          agent = (case getAgent (rr_AgentID route) (registry_of s) of Some a \<Rightarrow> Some a | None \<Rightarrow> getDefaultAgent (registry_of s))
      in case agent of
           None \<Rightarrow> Inl (''no agent available for route (agent_id='' @ rr_AgentID route @ '')'')
         | Some a \<Rightarrow> Inr (route, a))"

definition resolveScopeKey :: "resolved_route \<Rightarrow> string \<Rightarrow> string" where
  "resolveScopeKey route msgSessionKey =
     (if msgSessionKey \<noteq> [] \<and> prefix sessionKeyAgentPrefix msgSessionKey then msgSessionKey else rr_SessionKey route)"

definition resolveSteeringTarget :: "loop_env \<Rightarrow> inbound_message \<Rightarrow> gateway \<Rightarrow> (string \<times> string) option" where
  "resolveSteeringTarget env msg s =
     (if in_Channel msg = ''system'' then None
      else if inboundMetadata msg ''observe_only'' = ''true'' then None
      else case resolveMessageRoute env msg s of
        Inl _ \<Rightarrow> None
      | Inr (route, agent) \<Rightarrow> Some (resolveScopeKey route (in_SessionKey msg), ae_ID agent))"

record continuation_target =
  ct_SessionKey :: string
  ct_Channel :: string
  ct_ChatID :: string

definition buildContinuationTarget :: "loop_env \<Rightarrow> inbound_message \<Rightarrow> gateway \<Rightarrow> string + continuation_target option" where
  "buildContinuationTarget env msg s =
     (if in_Channel msg = ''system'' then Inr None
      else case resolveMessageRoute env msg s of
        Inl err \<Rightarrow> Inl err
      | Inr (route, _) \<Rightarrow>
          Inr (Some \<lparr>ct_SessionKey = resolveScopeKey route (in_SessionKey msg), ct_Channel = in_Channel msg, ct_ChatID = in_ChatID msg\<rparr>))"

section \<open>Publishing\<close>

definition publish_inbound :: "inbound_message \<Rightarrow> gateway \<Rightarrow> gateway" where
  "publish_inbound msg s = (if gw_closed s then s else s\<lparr>gw_inbound := gw_inbound s @ [msg]\<rparr>)"

definition publish_outbound :: "outbound_message \<Rightarrow> gateway \<Rightarrow> gateway" where
  "publish_outbound msg s = (if gw_closed s then s else s\<lparr>gw_outbound := gw_outbound s @ [msg]\<rparr>)"

definition resetSentInRound :: "agent_entry \<Rightarrow> gateway \<Rightarrow> gateway" where
  "resetSentInRound agent s =
     (case gw_messageTool s (ae_ID agent) of
        None \<Rightarrow> s
      | Some _ \<Rightarrow> s\<lparr>gw_messageTool := (gw_messageTool s)(ae_ID agent \<mapsto> [])\<rparr>)"

definition hasSentTo :: "agent_entry \<Rightarrow> string \<Rightarrow> string \<Rightarrow> gateway \<Rightarrow> bool" where
  "hasSentTo agent channel chatID s =
     (case gw_messageTool s (ae_ID agent) of None \<Rightarrow> False | Some sent \<Rightarrow> (channel, chatID) \<in> set sent)"

text \<open>Only the message tool of the default agent is asked.\<close>

definition publishResponseIfNeeded :: "string \<Rightarrow> string \<Rightarrow> string \<Rightarrow> gateway \<Rightarrow> gateway" where
  "publishResponseIfNeeded channel chatID response s =
     (if response = [] then s
      else
        let alreadySentToSameChat =
              (case getDefaultAgent (registry_of s) of None \<Rightarrow> False | Some a \<Rightarrow> hasSentTo a channel chatID s)
        in if alreadySentToSameChat then s
           else publish_outbound \<lparr>out_Channel = channel, out_ChatID = chatID, out_Content = response, out_ReplyToMessageID = [],
                  out_Metadata = []\<rparr> s)"

section \<open>A turn and what follows it\<close>

definition recordLastChannel :: "loop_env \<Rightarrow> string \<Rightarrow> gateway \<Rightarrow> gateway" where
  "recordLastChannel env channel s = (if lv_state env then s\<lparr>gw_lastChannel := channel\<rparr> else s)"

definition runAgentLoop :: "loop_env \<Rightarrow> turn_runner \<Rightarrow> agent_entry \<Rightarrow> loop_options \<Rightarrow> gateway \<Rightarrow> reply option" where
  "runAgentLoop env run agent opts s =
     (let s1 = (if po_Channel opts \<noteq> [] \<and> po_ChatID opts \<noteq> [] \<and> \<not> isInternalChannel (po_Channel opts)
                then recordLastChannel env (po_Channel opts @ '':'' @ po_ChatID opts) s else s)
      in case run agent opts s1 of
           None \<Rightarrow> None
         | Some (ResErr err, s2) \<Rightarrow> Some (Inl err, s2)
         | Some (ResAborted, s2) \<Rightarrow> Some (Inr [], s2)
         | Some (ResDone content followUps, s2) \<Rightarrow>
             (let s3 = fold publish_inbound followUps s2;
                  s4 = (if po_SendResponse opts \<and> content \<noteq> []
                        then publish_outbound \<lparr>out_Channel = po_Channel opts, out_ChatID = po_ChatID opts, out_Content = content,
                               out_ReplyToMessageID = po_ReplyToMessageID opts, out_Metadata = []\<rparr> s3
                        else s3)
              in Some (Inr content, s4)))"

definition options_for :: "string \<Rightarrow> string \<Rightarrow> string \<Rightarrow> string \<Rightarrow> string \<Rightarrow> bool \<Rightarrow> loop_options" where
  "options_for sessionKey channel chatID userMessage response enableSummary =
     \<lparr>po_SessionKey = sessionKey, po_Channel = channel, po_ChatID = chatID, po_SenderID = [], po_SenderDisplayName = [],
      po_UserMessage = userMessage, po_Media = [], po_InitialSteeringMessages = [], po_DefaultResponse = response,
      po_EnableSummary = enableSummary, po_SendResponse = False, po_AllowInterimPicoPublish = False, po_SuppressToolFeedback = False,
      po_NoHistory = False, po_SkipInitialSteeringPoll = False, po_MessageID = [], po_ReplyToMessageID = [], po_ForcedSkills = []\<rparr>"

text \<open>\<^verbatim>\<open>Continue\<close> and \<^verbatim>\<open>continueWithSteeringMessages\<close>.\<close>

definition continueTurn :: "loop_env \<Rightarrow> turn_runner \<Rightarrow> continuation_target \<Rightarrow> gateway \<Rightarrow> reply option" where
  "continueTurn env run t s =
     (case continue_session (lv_init env) (ct_SessionKey t) (gw_al s) of
        (ContinueErr err, al') \<Rightarrow> Some (Inl err, s\<lparr>gw_al := al'\<rparr>)
      | (NothingPending, al') \<Rightarrow> Some (Inr [], s\<lparr>gw_al := al'\<rparr>)
      | (RunTurn agent msgs, al') \<Rightarrow>
          runAgentLoop env run agent
            ((options_for (ct_SessionKey t) (ct_Channel t) (ct_ChatID t) [] defaultResponse True)
               \<lparr>po_InitialSteeringMessages := msgs, po_SkipInitialSteeringPoll := True\<rparr>)
            (resetSentInRound agent (s\<lparr>gw_al := al'\<rparr>)))"

section \<open>Skills for a message\<close>

fun resolve_skill :: "string \<Rightarrow> string list \<Rightarrow> string option" where
  "resolve_skill name [] = None"
| "resolve_skill name (k # ks) = (if equal_fold k name then Some k else resolve_skill name ks)"

definition resolveSkillName :: "string \<Rightarrow> string list \<Rightarrow> string option" where
  "resolveSkillName name0 skills = (let name = trim_space name0 in if name = [] then None else resolve_skill name skills)"

definition setPendingSkills :: "string \<Rightarrow> string list \<Rightarrow> gateway \<Rightarrow> gateway" where
  "setPendingSkills sessionKey skillNames s =
     (let key = trim_space sessionKey; filtered = filter (\<lambda>n. n \<noteq> []) (map trim_space skillNames)
      in if key = [] \<or> skillNames = [] then s
         else if filtered = [] then s
         else s\<lparr>gw_pendingSkills := (gw_pendingSkills s)(key \<mapsto> filtered)\<rparr>)"

definition takePendingSkills :: "string \<Rightarrow> gateway \<Rightarrow> string list \<times> gateway" where
  "takePendingSkills sessionKey s =
     (let key = trim_space sessionKey
      in if key = [] then ([], s)
         else case gw_pendingSkills s key of
           None \<Rightarrow> ([], s)
         | Some skills \<Rightarrow> (skills, s\<lparr>gw_pendingSkills := (gw_pendingSkills s)(key := None)\<rparr>))"

definition clearPendingSkills :: "string \<Rightarrow> gateway \<Rightarrow> gateway" where
  "clearPendingSkills sessionKey s =
     (let key = trim_space sessionKey
      in if key = [] then s else s\<lparr>gw_pendingSkills := (gw_pendingSkills s)(key := None)\<rparr>)"

text \<open>The names of the filter and of the message, resolved where they can be, the first of those that differ in case only.\<close>

fun active_names :: "string list option \<Rightarrow> string list \<Rightarrow> string list \<Rightarrow> string list" where
  "active_names skills seen [] = []"
| "active_names skills seen (raw # raws) =
     (let name0 = trim_space raw
      in if name0 = [] then active_names skills seen raws
         else
           let name = (case Option.bind skills (resolveSkillName name0) of Some canonical \<Rightarrow> canonical | None \<Rightarrow> name0);
               key = to_lower name
           in if key \<in> set seen then active_names skills seen raws else name # active_names skills (key # seen) raws)"

definition activeSkillNames :: "loop_env \<Rightarrow> agent_entry \<Rightarrow> loop_options \<Rightarrow> string list" where
  "activeSkillNames env agent opts = active_names (lv_skills env (ae_ID agent)) [] (lv_skillsFilter env (ae_ID agent) @ po_ForcedSkills opts)"

definition commandsUnavailableSkillMessage :: string where
  "commandsUnavailableSkillMessage = ''Skill selection is unavailable in the current context.''"

definition buildUseCommandHelp :: "string list option \<Rightarrow> string" where
  "buildUseCommandHelp skills =
     (case skills of
        None \<Rightarrow> ''Usage: /use <skill> [message]''
      | Some names \<Rightarrow>
          if names = [] then ''Usage: /use <skill> [message]'' @ nl @ ''No installed skills found.''
          else ''Usage: /use <skill> [message]'' @ nl @ nl @ ''Installed Skills:'' @ nl @ ''- '' @ str_join (nl @ ''- '') names @ nl @ nl
            @ ''Use /use <skill> to apply a skill to your next message, or /use <skill> <message> to force it immediately.'')"

text \<open>The outcome of \<^verbatim>\<open>/use\<close>: not this command, an answer, or a message that goes on with other options.\<close>

datatype use_outcome = NotUse | UseReply string | UseMessage loop_options

definition applyExplicitSkillCommand ::
  "string \<Rightarrow> string list option \<Rightarrow> loop_options \<Rightarrow> gateway \<Rightarrow> use_outcome \<times> gateway" where
  "applyExplicitSkillCommand raw skills opts s =
     (if parseCommandName raw \<noteq> Some ''use'' then (NotUse, s)
      else case skills of
        None \<Rightarrow> (UseReply commandsUnavailableSkillMessage, s)
      | Some names \<Rightarrow>
          (let parts = str_fields (trim_space raw)
           in if length parts < 2 then (UseReply (buildUseCommandHelp skills), s)
              else
                let arg = trim_space (parts ! 1)
                in if equal_fold arg ''clear'' \<or> equal_fold arg ''off''
                   then (UseReply ''Cleared pending skill override.'', clearPendingSkills (po_SessionKey opts) s)
                   else case resolveSkillName arg names of
                     None \<Rightarrow> (UseReply (''Unknown skill: '' @ arg @ nl @ ''Use /list skills to see installed skills.''), s)
                   | Some skillName \<Rightarrow>
                       if length parts < 3 then
                         (if trim_space (po_SessionKey opts) = [] then (UseReply commandsUnavailableSkillMessage, s)
                          else (UseReply (''Skill '' @ go_quote skillName
                                  @ '' is armed for your next message. Send your next prompt normally, or use /use clear to cancel.''),
                                setPendingSkills (po_SessionKey opts) [skillName] s))
                       else
                         let message = trim_space (str_join '' '' (drop 2 parts))
                         in if message = [] then (UseReply (buildUseCommandHelp skills), s)
                            else (UseMessage (opts\<lparr>po_ForcedSkills := po_ForcedSkills opts @ [skillName], po_UserMessage := message\<rparr>), s)))"

section \<open>The runtime of a command\<close>

text \<open>The state of a command is the gateway and the reply it has set.\<close>

definition on_gateway :: "(gateway \<Rightarrow> 'r \<times> gateway) \<Rightarrow> gateway \<times> string \<Rightarrow> 'r \<times> gateway \<times> string" where
  "on_gateway f s = (case f (fst s) of (r, g) \<Rightarrow> (r, g, snd s))"

definition switch_model :: "loop_env \<Rightarrow> agent_entry \<Rightarrow> string \<Rightarrow> gateway \<Rightarrow> (string + string) \<times> gateway" where
  "switch_model env agent value0 s =
     (let value = trim_space value0; am = gw_models s (ae_ID agent)
      in case resolvedModelConfig (lv_models env) value (am_Workspace am) (gw_rr s) of
           (None, c) \<Rightarrow> (Inl (''model '' @ go_quote value @ '' not found in model_list or providers''), s\<lparr>gw_rr := c\<rparr>)
         | (Some mc, c) \<Rightarrow>
             (case lv_createError env mc of
                Some err \<Rightarrow> (Inl (''failed to initialize model '' @ go_quote value @ '': '' @ err), s\<lparr>gw_rr := c\<rparr>)
              | None \<Rightarrow>
                  (case resolveModelCandidates (lv_models env) (lv_provider env) value (am_Fallbacks am) c of
                     ([], c') \<Rightarrow> (Inl (''model '' @ go_quote value @ '' did not resolve to any provider candidates''), s\<lparr>gw_rr := c'\<rparr>)
                   | (cands, c') \<Rightarrow>
                       (Inr (am_Model am),
                        s\<lparr>gw_rr := c',
                          gw_models := (gw_models s)(ae_ID agent := am\<lparr>am_Model := value, am_Provider := mc, am_Candidates := cands,
                            am_Thinking := parseThinkingLevel (mdl_ThinkingLevel mc)\<rparr>)\<rparr>))))"

definition switch_channel :: "loop_env \<Rightarrow> string \<Rightarrow> gateway \<Rightarrow> string option \<times> gateway" where
  "switch_channel env value s =
     (case lv_channels env of
        None \<Rightarrow> (Some ''channel manager not initialized'', s)
      | Some names \<Rightarrow>
          if value \<notin> set names \<and> value \<noteq> ''cli''
          then (Some (''channel '' @ [CHR 0x27] @ value @ [CHR 0x27] @ '' not found or not enabled''), s)
          else (None, s))"

definition clear_history :: "loop_env \<Rightarrow> agent_entry \<Rightarrow> string \<Rightarrow> gateway \<Rightarrow> string option \<times> gateway" where
  "clear_history env agent sessionKey s =
     (case lv_store env (ae_ID agent) of
        None \<Rightarrow> (Some ''sessions not initialized for agent'', s)
      | Some a \<Rightarrow>
          (None, upd_al (\<lambda>al. al\<lparr>al_stores := (al_stores al)(a := ss_setSummary sessionKey [] (ss_setHistory sessionKey [] (al_stores al a)))\<rparr>) s))"

definition buildCommandsRuntime :: "loop_env \<Rightarrow> agent_entry \<Rightarrow> loop_options \<Rightarrow> (gateway \<times> string) command_runtime" where
  "buildCommandsRuntime env agent opts =
     \<lparr>rt_GetModelInfo = Some (\<lambda>s. let am = gw_models (fst s) (ae_ID agent)
        in (am_Model am, resolvedCandidateProvider (am_Candidates am) (lv_provider env))),
      rt_ListAgentIDs = Some (\<lambda>s. listAgentIDs (registry_of (fst s))),
      rt_ListDefinitions = map_option (\<lambda>r s. map shape (Definitions r)) (lv_commands env),
      rt_ListSkillNames = map_option (\<lambda>names s. names) (lv_skills env (ae_ID agent)),
      rt_GetEnabledChannels = Some (\<lambda>s. case lv_channels env of None \<Rightarrow> [] | Some names \<Rightarrow> names),
      rt_GetActiveTurn = Some (\<lambda>s. case getActiveTurn (gw_al (fst s)) of None \<Rightarrow> NoTurn | Some info \<Rightarrow> TurnValue (lv_turnText env info)),
      rt_SwitchModel = Some (\<lambda>value. on_gateway (switch_model env agent value)),
      rt_SwitchChannel = Some (\<lambda>value. on_gateway (switch_channel env value)),
      rt_ClearHistory = Some (on_gateway (clear_history env agent (po_SessionKey opts))),
      rt_ReloadConfig = Some (on_gateway (\<lambda>g. case lv_reload env of None \<Rightarrow> (Some ''reload not configured'', g) | Some f \<Rightarrow> f g))\<rparr>"

definition mapCommandError :: "string \<Rightarrow> string \<Rightarrow> string" where
  "mapCommandError command err =
     (if command = [] then ''Failed to execute command: '' @ err else ''Failed to execute /'' @ command @ '': '' @ err)"

section \<open>Commands of a message\<close>

datatype command_outcome = CmdReply string | CmdGoOn loop_options

definition handleCommand :: "loop_env \<Rightarrow> inbound_message \<Rightarrow> agent_entry \<Rightarrow> loop_options \<Rightarrow> gateway \<Rightarrow> (command_outcome \<times> gateway) option" where
  "handleCommand env msg agent opts s =
     (if \<not> HasCommandPrefix (in_Content msg) then Some (CmdGoOn opts, s)
      else case applyExplicitSkillCommand (in_Content msg) (lv_skills env (ae_ID agent)) opts s of
        (UseReply r, s1) \<Rightarrow> Some (CmdReply r, s1)
      | (UseMessage opts', s1) \<Rightarrow> Some (CmdGoOn opts', s1)
      | (NotUse, s1) \<Rightarrow>
          (case lv_commands env of
             None \<Rightarrow> Some (CmdGoOn opts, s1)
           | Some reg \<Rightarrow>
               (case Execute (Some reg) (Some (buildCommandsRuntime env agent opts))
                       \<lparr>cq_Channel = in_Channel msg, cq_ChatID = in_ChatID msg, cq_SenderID = in_SenderID msg, cq_Text = in_Content msg,
                        cq_Reply = Some (\<lambda>t (g, _). (None, g, t))\<rparr> (s1, []) of
                  None \<Rightarrow> None
                | Some (res, g, commandReply) \<Rightarrow>
                    (if er_Outcome res = OutcomePassthrough then Some (CmdGoOn opts, g)
                     else case er_Err res of
                       Some err \<Rightarrow> Some (CmdReply (mapCommandError (er_Command res) err), g)
                     | None \<Rightarrow> Some (CmdReply commandReply, g)))))"

section \<open>Processing a message\<close>

fun index_of :: "string \<Rightarrow> string \<Rightarrow> nat option" where
  "index_of pat [] = (if pat = [] then Some 0 else None)"
| "index_of pat (c # s) = (if prefix pat (c # s) then Some 0 else map_option Suc (index_of pat s))"

text \<open>Where a system message came from; the part after \<^verbatim>\<open>Result:\<close> that the code cuts out is only logged.\<close>

definition system_origin :: "string \<Rightarrow> string \<times> string" where
  "system_origin chatID =
     (case index_char (CHR '':'') chatID of
        Some i \<Rightarrow> if i > 0 then (take i chatID, drop (Suc i) chatID) else (''cli'', chatID)
      | None \<Rightarrow> (''cli'', chatID))"

definition processSystemMessage :: "loop_env \<Rightarrow> turn_runner \<Rightarrow> inbound_message \<Rightarrow> gateway \<Rightarrow> reply option" where
  "processSystemMessage env run msg s =
     (if in_Channel msg \<noteq> ''system''
      then Some (Inl (''processSystemMessage called with non-system message channel: '' @ in_Channel msg), s)
      else case system_origin (in_ChatID msg) of
        (originChannel, originChatID) \<Rightarrow>
          if isInternalChannel originChannel then Some (Inr [], s)
          else case getDefaultAgent (registry_of s) of
            None \<Rightarrow> Some (Inl ''no default agent for system message'', s)
          | Some agent \<Rightarrow>
              runAgentLoop env run agent
                ((options_for (buildAgentMainSessionKey (ae_ID agent)) originChannel originChatID
                    (''[System: '' @ in_SenderID msg @ ''] '' @ in_Content msg) ''Background task completed.'' False)\<lparr>po_SendResponse := True\<rparr>) s)"

definition message_options :: "string \<Rightarrow> inbound_message \<Rightarrow> loop_options" where
  "message_options sessionKey msg =
     (options_for sessionKey (in_Channel msg) (in_ChatID msg) (in_Content msg) defaultResponse True)
       \<lparr>po_SenderID := in_SenderID msg, po_SenderDisplayName := si_DisplayName (in_Sender msg), po_Media := in_Media msg,
        po_AllowInterimPicoPublish := True, po_MessageID := in_MessageID msg,
        po_ReplyToMessageID := inboundMetadata msg ''reply_to_message_id''\<rparr>"

definition processMessage :: "loop_env \<Rightarrow> turn_runner \<Rightarrow> inbound_message \<Rightarrow> gateway \<Rightarrow> reply option" where
  "processMessage env run msg s =
     (if inboundMetadata msg ''observe_only'' = ''true'' then Some (Inr [], s)
      else if in_Channel msg = ''system'' then processSystemMessage env run msg s
      else case resolveMessageRoute env msg s of
        Inl err \<Rightarrow> Some (Inl err, s)
      | Inr (route, agent) \<Rightarrow>
          (let opts = message_options (resolveScopeKey route (in_SessionKey msg)) msg
           in case handleCommand env msg agent opts (resetSentInRound agent s) of
                None \<Rightarrow> None
              | Some (CmdReply response, s1) \<Rightarrow> Some (Inr response, s1)
              | Some (CmdGoOn opts', s1) \<Rightarrow>
                  (case takePendingSkills (po_SessionKey opts') s1 of
                     (pending, s2) \<Rightarrow>
                       runAgentLoop env run agent (opts'\<lparr>po_ForcedSkills := po_ForcedSkills opts' @ pending\<rparr>) s2)))"

definition direct_message :: "string \<Rightarrow> string \<Rightarrow> string \<Rightarrow> string \<Rightarrow> inbound_message" where
  "direct_message content sessionKey channel chatID =
     \<lparr>in_Channel = channel, in_SenderID = ''cron'',
      in_Sender = \<lparr>si_Platform = [], si_PlatformID = [], si_CanonicalID = [], si_Username = [], si_DisplayName = []\<rparr>,
      in_ChatID = chatID, in_Content = content, in_Media = [], in_Peer = \<lparr>bp_Kind = [], bp_ID = []\<rparr>, in_MessageID = [],
      in_MediaScope = [], in_SessionKey = sessionKey, in_Metadata = []\<rparr>"

definition processDirectWithChannel ::
  "loop_env \<Rightarrow> turn_runner \<Rightarrow> string \<Rightarrow> string \<Rightarrow> string \<Rightarrow> string \<Rightarrow> gateway \<Rightarrow> reply option" where
  "processDirectWithChannel env run content sessionKey channel chatID s =
     (case lv_init env of
        Some err \<Rightarrow> Some (Inl err, s)
      | None \<Rightarrow> processMessage env run (direct_message content sessionKey channel chatID) s)"

definition processDirect :: "loop_env \<Rightarrow> turn_runner \<Rightarrow> string \<Rightarrow> string \<Rightarrow> gateway \<Rightarrow> reply option" where
  "processDirect env run content sessionKey s = processDirectWithChannel env run content sessionKey ''cli'' ''direct'' s"

definition processHeartbeat :: "loop_env \<Rightarrow> turn_runner \<Rightarrow> string \<Rightarrow> string \<Rightarrow> string \<Rightarrow> gateway \<Rightarrow> reply option" where
  "processHeartbeat env run content channel chatID s =
     (case lv_init env of
        Some err \<Rightarrow> Some (Inl err, s)
      | None \<Rightarrow>
          (case getDefaultAgent (registry_of s) of
             None \<Rightarrow> Some (Inl ''no default agent for heartbeat'', s)
           | Some agent \<Rightarrow>
               runAgentLoop env run agent
                 ((options_for ''heartbeat'' channel chatID content defaultResponse False)
                    \<lparr>po_SuppressToolFeedback := True, po_NoHistory := True\<rparr>) s))"

section \<open>Run\<close>

datatype loop_result = LoopDone string gateway | LoopStop gateway | LoopPanic | LoopFuel

text \<open>The two loops that continue with what was steered: the first stops handling the message when a turn answers nothing, the second
  only leaves the loop.\<close>

fun continue_loop :: "bool \<Rightarrow> nat \<Rightarrow> loop_env \<Rightarrow> turn_runner \<Rightarrow> continuation_target \<Rightarrow> string \<Rightarrow> gateway \<Rightarrow> loop_result" where
  "continue_loop shutdown n env run t final s =
     (if pendingSteeringCountForScope (ct_SessionKey t) (gw_al s) = 0 then LoopDone final s
      else case n of
        0 \<Rightarrow> LoopFuel
      | Suc m \<Rightarrow>
          (case continueTurn env run t s of
             None \<Rightarrow> LoopPanic
           | Some (Inl err, s1) \<Rightarrow> LoopStop s1
           | Some (Inr continued, s1) \<Rightarrow>
               if continued = [] then (if shutdown then LoopDone final s1 else LoopStop s1)
               else continue_loop shutdown m env run t continued s1))"

declare continue_loop.simps [simp del]

definition stop_typing :: "inbound_message \<Rightarrow> gateway \<Rightarrow> gateway" where
  "stop_typing msg s = s\<lparr>gw_typingStops := gw_typingStops s @ [(in_Channel msg, in_ChatID msg)]\<rparr>"

definition finish_message ::
  "nat \<Rightarrow> loop_env \<Rightarrow> turn_runner \<Rightarrow> inbound_message \<Rightarrow> string \<Rightarrow> gateway \<Rightarrow> loop_result" where
  "finish_message n env run msg response s =
     (case buildContinuationTarget env msg s of
        Inl err \<Rightarrow> LoopStop s
      | Inr None \<Rightarrow> LoopStop (publishResponseIfNeeded (in_Channel msg) (in_ChatID msg) response s)
      | Inr (Some t) \<Rightarrow>
          (case continue_loop False n env run t response s of
             LoopDone final1 s1 \<Rightarrow>
               (case continue_loop True n env run t final1 s1 of
                  LoopDone final2 s2 \<Rightarrow> LoopStop (publishResponseIfNeeded (ct_Channel t) (ct_ChatID t) final2 s2)
                | r \<Rightarrow> r)
           | r \<Rightarrow> r))"

definition response_text :: "string + string \<Rightarrow> string" where
  "response_text r = (case r of Inl err \<Rightarrow> ''Error processing message: '' @ err | Inr content \<Rightarrow> content)"

text \<open>\<open>after\<close> is what a drain that gets to run only then does when the message has been processed. Cancelling the drain has no effect of its
  own: one that waits ends, one that has received a message goes on until the channel is empty.\<close>

definition handleInbound :: "nat \<Rightarrow> (gateway \<Rightarrow> gateway) \<Rightarrow> loop_env \<Rightarrow> turn_runner \<Rightarrow> inbound_message \<Rightarrow> gateway \<Rightarrow> loop_result" where
  "handleInbound n after env run msg s =
     (case processMessage env run msg s of
        None \<Rightarrow> LoopPanic
      | Some (r, s1) \<Rightarrow>
          (case finish_message n env run msg (response_text r) (after s1) of
             LoopStop s2 \<Rightarrow> LoopStop (if lv_channels env = None then s2 else stop_typing msg s2)
           | x \<Rightarrow> x))"

section \<open>Steering messages out of the bus\<close>

definition as_steering :: "inbound_message \<Rightarrow> message" where
  "as_steering msg = (plain_message ''user'' (in_Content msg))\<lparr>msg_Media := in_Media msg\<rparr>"

definition steers_to :: "loop_env \<Rightarrow> gateway \<Rightarrow> string \<Rightarrow> string \<Rightarrow> inbound_message \<Rightarrow> bool" where
  "steers_to env s scope chatID msg =
     (case resolveSteeringTarget env msg s of None \<Rightarrow> False | Some (msgScope, _) \<Rightarrow> msgScope = scope \<and> in_ChatID msg = chatID)"

text \<open>Each message that was received: the delayed ones so far, and the state. A message that finds the queue full is lost.\<close>

fun drain_messages ::
  "loop_env \<Rightarrow> string \<Rightarrow> string \<Rightarrow> string \<Rightarrow> inbound_message list \<Rightarrow> inbound_message list \<Rightarrow> gateway \<Rightarrow> inbound_message list \<times> gateway" where
  "drain_messages env scope agentID chatID [] delayed s = (delayed, s)"
| "drain_messages env scope agentID chatID (msg # msgs) delayed s =
     (if \<not> steers_to env s scope chatID msg then drain_messages env scope agentID chatID msgs (delayed @ [msg]) s
      else drain_messages env scope agentID chatID msgs delayed
        (upd_al (\<lambda>al. snd (enqueueSteeringMessage scope agentID (as_steering msg) al)) s))"

text \<open>Publishing back waits a second for room when the channel is full; \<open>room\<close> says whether it comes up in that time.\<close>

definition requeueInboundMessage :: "bool \<Rightarrow> inbound_message \<Rightarrow> gateway \<Rightarrow> publish_error option \<times> gateway" where
  "requeueInboundMessage room msg s =
     (if gw_closed s then (Some PublishClosed, s)
      else if length (gw_inbound s) \<ge> chan_cap ChanInbound \<and> \<not> room then (Some PublishContext, s)
      else (None, s\<lparr>gw_inbound := gw_inbound s @ [msg]\<rparr>))"

fun requeue_all :: "(nat \<Rightarrow> bool) \<Rightarrow> inbound_message list \<Rightarrow> gateway \<Rightarrow> gateway" where
  "requeue_all room [] s = s"
| "requeue_all room (msg # msgs) s = requeue_all (\<lambda>i. room (Suc i)) msgs (snd (requeueInboundMessage (room 0) msg s))"

text \<open>The goroutine receives what is in the channel until it finds it empty, then publishes the delayed messages again, behind those that
  arrived in between, and is over; when nothing arrives before it is cancelled it does nothing.\<close>

definition drainBusToSteering ::
  "loop_env \<Rightarrow> string \<Rightarrow> string \<Rightarrow> string \<Rightarrow> inbound_message list \<Rightarrow> (nat \<Rightarrow> bool) \<Rightarrow> gateway \<Rightarrow> gateway" where
  "drainBusToSteering env scope agentID chatID arrived room s =
     (case drain_messages env scope agentID chatID (gw_inbound s) [] (s\<lparr>gw_inbound := []\<rparr>) of
        (delayed, s1) \<Rightarrow> requeue_all room delayed (s1\<lparr>gw_inbound := gw_inbound s1 @ arrived\<rparr>))"

section \<open>The select loop\<close>

text \<open>When the drain of a message runs, if it receives anything: before the message is processed or after, with the messages that arrive
  before it publishes and the room it finds.\<close>

datatype drain_point =
    NoDrain
  | DrainBefore "inbound_message list" "nat \<Rightarrow> bool"
  | DrainAfter "inbound_message list" "nat \<Rightarrow> bool"

datatype run_event = EvCtxDone | EvTick bool | EvMessage drain_point

datatype run_outcome = RunReturned gateway | RunFailed string | RunPanicked | RunOutOfFuel | RunGoing gateway

definition drain_of :: "loop_env \<Rightarrow> inbound_message \<Rightarrow> gateway \<Rightarrow> inbound_message list \<Rightarrow> (nat \<Rightarrow> bool) \<Rightarrow> gateway \<Rightarrow> gateway" where
  "drain_of env msg s0 arrived room s =
     (case resolveSteeringTarget env msg s0 of
        None \<Rightarrow> s
      | Some (scope, agentID) \<Rightarrow> drainBusToSteering env scope agentID (in_ChatID msg) arrived room s)"

fun runEvents :: "nat \<Rightarrow> loop_env \<Rightarrow> turn_runner \<Rightarrow> run_event list \<Rightarrow> gateway \<Rightarrow> run_outcome" where
  "runEvents n env run [] s = RunGoing s"
| "runEvents n env run (EvCtxDone # evs) s = RunReturned s"
| "runEvents n env run (EvTick running # evs) s = (if \<not> running then RunReturned s else runEvents n env run evs s)"
| "runEvents n env run (EvMessage d # evs) s =
     (case gw_inbound s of
        [] \<Rightarrow> if gw_closed s then RunReturned s else runEvents n env run evs s
      | msg # rest \<Rightarrow>
          (let s1 = s\<lparr>gw_inbound := rest\<rparr>;
               s2 = (case d of DrainBefore arrived room \<Rightarrow> drain_of env msg s1 arrived room s1 | _ \<Rightarrow> s1);
               after = (case d of DrainAfter arrived room \<Rightarrow> drain_of env msg s1 arrived room | _ \<Rightarrow> (\<lambda>g. g))
           in case handleInbound n after env run msg s2 of
                LoopStop s3 \<Rightarrow> runEvents n env run evs s3
              | LoopDone _ s3 \<Rightarrow> runEvents n env run evs s3
              | LoopPanic \<Rightarrow> RunPanicked
              | LoopFuel \<Rightarrow> RunOutOfFuel))"

definition runLoop :: "nat \<Rightarrow> loop_env \<Rightarrow> turn_runner \<Rightarrow> run_event list \<Rightarrow> gateway \<Rightarrow> run_outcome" where
  "runLoop n env run evs s = (case lv_init env of Some err \<Rightarrow> RunFailed err | None \<Rightarrow> runEvents n env run evs s)"

section \<open>What the drain does\<close>

lemma enqueue_frame:
  "al_registry (snd (enqueueSteeringMessage scope a m al)) = al_registry al"
  "al_active (snd (enqueueSteeringMessage scope a m al)) = al_active al"
  "al_steering al = Some q \<Longrightarrow> al_steering (snd (enqueueSteeringMessage scope a m al)) =
     Some (case push_key q (normalizeSteeringScope scope) m of None \<Rightarrow> q | Some q' \<Rightarrow> q')"
  by (auto simp: enqueueSteeringMessage_def pushScope_key al_emit_def Let_def split: option.splits)

lemma push_lookup:
  assumes "sq_inv q"
  shows "sq_lookup (case push_key q k m of None \<Rightarrow> q | Some q' \<Rightarrow> q') = (sq_lookup q)(k := take maxQueueSize (sq_lookup q k @ [m]))"
    and "sq_inv (case push_key q k m of None \<Rightarrow> q | Some q' \<Rightarrow> q')"
proof -
  have len: "length (sq_lookup q k) \<le> maxQueueSize" using assms by (rule inv_lookup)
  show "sq_lookup (case push_key q k m of None \<Rightarrow> q | Some q' \<Rightarrow> q') = (sq_lookup q)(k := take maxQueueSize (sq_lookup q k @ [m]))"
    using len by (auto simp: push_key_def Let_def lookup_update fun_eq_iff)
  show "sq_inv (case push_key q k m of None \<Rightarrow> q | Some q' \<Rightarrow> q')"
    using len assms by (auto simp: push_key_def Let_def intro!: inv_update)
qed

lemma route_registry: "registry_of s' = registry_of s \<Longrightarrow> resolveMessageRoute env msg s' = resolveMessageRoute env msg s"
  by (simp only: resolveMessageRoute_def)

lemma steers_registry:
  assumes "registry_of s' = registry_of s"
  shows "resolveSteeringTarget env msg s' = resolveSteeringTarget env msg s" "steers_to env s' scope chatID = steers_to env s scope chatID"
proof -
  have "resolveMessageRoute env m s' = resolveMessageRoute env m s" for m by (rule route_registry) (rule assms)
  then show r: "resolveSteeringTarget env m s' = resolveSteeringTarget env m s" for m by (simp only: resolveSteeringTarget_def)
  show "steers_to env s' scope chatID = steers_to env s scope chatID" by (rule ext) (simp only: steers_to_def r)
qed

lemma take_take_append: "take n (take n xs @ ys) = take n (xs @ ys)"
  by (cases "n \<le> length xs") simp_all

lemma drain_result:
  assumes "al_steering (gw_al s) = Some q" "sq_inv q"
  shows "\<exists>al' q'. drain_messages env scope a chatID msgs delayed s =
      (delayed @ filter (\<lambda>m. \<not> steers_to env s scope chatID m) msgs, s\<lparr>gw_al := al'\<rparr>)
    \<and> al_steering al' = Some q'
    \<and> sq_lookup q' = (sq_lookup q)(normalizeSteeringScope scope := take maxQueueSize
        (sq_lookup q (normalizeSteeringScope scope) @ map as_steering (filter (steers_to env s scope chatID) msgs)))"
  using assms
proof (induction msgs arbitrary: delayed s q)
  case Nil
  have "length (sq_lookup q (normalizeSteeringScope scope)) \<le> maxQueueSize" using Nil(2) by (rule inv_lookup)
  then have "sq_lookup q = (sq_lookup q)(normalizeSteeringScope scope := take maxQueueSize
        (sq_lookup q (normalizeSteeringScope scope) @ map as_steering (filter (steers_to env s scope chatID) [])))"
    by (simp add: fun_eq_iff)
  then show ?case using Nil(1) by (intro exI [of _ "gw_al s"] exI [of _ q]) simp
next
  case (Cons m msgs)
  show ?case
  proof (cases "steers_to env s scope chatID m")
    case False
    then show ?thesis using Cons.IH [OF Cons.prems, of "delayed @ [m]"] by simp
  next
    case True
    let ?k = "normalizeSteeringScope scope"
    let ?s = "upd_al (\<lambda>al. snd (enqueueSteeringMessage scope a (as_steering m) al)) s"
    let ?q = "case push_key q ?k (as_steering m) of None \<Rightarrow> q | Some q' \<Rightarrow> q'"
    have q: "al_steering (gw_al ?s) = Some ?q" using enqueue_frame(3) [OF Cons.prems(1)] by (simp add: upd_al_def)
    have "registry_of ?s = registry_of s" by (simp add: registry_of_def upd_al_def enqueue_frame)
    then have st: "steers_to env ?s scope chatID = steers_to env s scope chatID" by (rule steers_registry(2))
    obtain al' q' where r: "drain_messages env scope a chatID msgs delayed ?s =
        (delayed @ filter (\<lambda>m. \<not> steers_to env s scope chatID m) msgs, ?s\<lparr>gw_al := al'\<rparr>)" "al_steering al' = Some q'"
        "sq_lookup q' = (sq_lookup ?q)(?k := take maxQueueSize (sq_lookup ?q ?k @ map as_steering (filter (steers_to env s scope chatID) msgs)))"
      using Cons.IH [OF q push_lookup(2) [OF Cons.prems(2)], of delayed] unfolding st by blast
    have "?s\<lparr>gw_al := al'\<rparr> = s\<lparr>gw_al := al'\<rparr>" by (simp add: upd_al_def)
    moreover have "sq_lookup q' = (sq_lookup q)(?k := take maxQueueSize
        (sq_lookup q ?k @ map as_steering (filter (steers_to env s scope chatID) (m # msgs))))"
      using True take_take_append [of maxQueueSize "sq_lookup q ?k @ [as_steering m]"]
      by (simp add: r(3) push_lookup(1) [OF Cons.prems(2)] del: take_append)
    ultimately show ?thesis using True r(1,2) by (intro exI [of _ al'] exI [of _ q']) (simp del: take_append)
  qed
qed

lemma requeue_room:
  "gw_closed s \<Longrightarrow> requeue_all room msgs s = s"
  "\<not> gw_closed s \<Longrightarrow> length (gw_inbound s) + length msgs \<le> chan_cap ChanInbound \<Longrightarrow>
     requeue_all room msgs s = s\<lparr>gw_inbound := gw_inbound s @ msgs\<rparr>"
  by (induction msgs arbitrary: room s) (auto simp: requeueInboundMessage_def)

text \<open>
  Claim C10. The drain of a running turn, when there is room in the channel for what it publishes again. The messages of the turn's scope
  and chat go to the scope's queue in their order, each with its text and media, until the queue is full; the rest of them are lost. No
  other queue changes. All the others are published again, in their order but behind what arrived in between; when the bus has been closed they are
  lost.
\<close>

theorem drain_contract:
  assumes "al_steering (gw_al s) = Some q" "sq_inv q" "length arrived + length (gw_inbound s) \<le> chan_cap ChanInbound"
  shows "\<exists>q'. al_steering (gw_al (drainBusToSteering env scope a chatID arrived room s)) = Some q'
     \<and> sq_lookup q' = (sq_lookup q)(normalizeSteeringScope scope := take maxQueueSize
         (sq_lookup q (normalizeSteeringScope scope) @ map as_steering (filter (steers_to env s scope chatID) (gw_inbound s))))
     \<and> gw_inbound (drainBusToSteering env scope a chatID arrived room s) =
         arrived @ (if gw_closed s then [] else filter (\<lambda>m. \<not> steers_to env s scope chatID m) (gw_inbound s))"
proof -
  let ?s = "s\<lparr>gw_inbound := []\<rparr>"
  have "registry_of ?s = registry_of s" by (simp add: registry_of_def)
  then have st: "steers_to env ?s scope chatID = steers_to env s scope chatID" by (rule steers_registry(2))
  obtain al' q' where r: "drain_messages env scope a chatID (gw_inbound s) [] ?s =
      (filter (\<lambda>m. \<not> steers_to env s scope chatID m) (gw_inbound s), ?s\<lparr>gw_al := al'\<rparr>)" "al_steering al' = Some q'"
      "sq_lookup q' = (sq_lookup q)(normalizeSteeringScope scope := take maxQueueSize
         (sq_lookup q (normalizeSteeringScope scope) @ map as_steering (filter (steers_to env s scope chatID) (gw_inbound s))))"
    using drain_result [of ?s q env scope a chatID "gw_inbound s" "[]"] assms(1,2) unfolding st by auto
  have "length arrived + length (filter (\<lambda>m. \<not> steers_to env s scope chatID m) (gw_inbound s)) \<le> chan_cap ChanInbound"
    using assms(3) length_filter_le [of "\<lambda>m. \<not> steers_to env s scope chatID m" "gw_inbound s"] by linarith
  then show ?thesis
    using r requeue_room by (cases "gw_closed s") (simp_all add: drainBusToSteering_def)
qed

section \<open>Continuing ends\<close>

definition steering_ok :: "gateway \<Rightarrow> bool" where
  "steering_ok s = (case al_steering (gw_al s) of None \<Rightarrow> True | Some q \<Rightarrow> sq_inv q)"

text \<open>A turn that returns, publishes no answer of its own, and leaves no more messages waiting for the session than there were.\<close>

definition quiet_runner :: "string \<Rightarrow> turn_runner \<Rightarrow> bool" where
  "quiet_runner key run \<longleftrightarrow>
     (\<forall>a opts s. steering_ok s \<longrightarrow> (\<exists>r s'. run a opts s = Some (r, s') \<and> steering_ok s' \<and> gw_outbound s' = gw_outbound s
        \<and> pendingSteeringCountForScope key (gw_al s') \<le> pendingSteeringCountForScope key (gw_al s)))"

lemma dequeue_fewer:
  assumes "sq_inv q" "lenScope q scope > 0" "dequeueScopeWithFallback q scope = (msgs, q')"
  shows "msgs \<noteq> []" "lenScope q' scope < lenScope q scope" "sq_inv q'"
proof -
  let ?k = "normalizeSteeringScope scope"
  have ne: "sq_lookup q ?k \<noteq> []" using assms(2) by (simp add: lenScope_def)
  obtain ms q1 where d: "dequeueLocked q ?k = (ms, q1)" by (cases "dequeueLocked q ?k")
  have "ms \<noteq> []" using ne d by (auto simp: dequeueLocked_def Let_def split: list.splits steering_mode.splits)
  then have "(msgs, q') = (ms, q1)"
    using assms(3) d by (auto simp: dequeueScopeWithFallback_def normalizeSteeringScope_def Let_def split: if_splits)
  moreover have "sq_lookup q ?k = ms @ sq_lookup q1 ?k \<and> sq_inv q1" using sq.pop_content [OF assms(1) d] by blast
  ultimately show "msgs \<noteq> []" "lenScope q' scope < lenScope q scope" "sq_inv q'"
    using \<open>ms \<noteq> []\<close> by (auto simp: lenScope_def)
qed

lemma continue_cases:
  assumes "steering_ok s" "pendingSteeringCountForScope key (gw_al s) > 0" "continue_session init key (gw_al s) = (c, al')"
  shows "steering_ok (s\<lparr>gw_al := al'\<rparr>) \<and> c \<noteq> NothingPending \<and> pendingSteeringCountForScope key al' \<le> pendingSteeringCountForScope key (gw_al s)
     \<and> (case c of RunTurn a msgs \<Rightarrow> pendingSteeringCountForScope key al' < pendingSteeringCountForScope key (gw_al s) | _ \<Rightarrow> True)"
proof -
  obtain q where q: "al_steering (gw_al s) = Some q" "lenScope q key > 0" "sq_inv q"
    using assms(1,2) by (auto simp: pendingSteeringCountForScope_def steering_ok_def split: option.splits)
  obtain msgs q' where d: "dequeueScopeWithFallback q key = (msgs, q')" by (cases "dequeueScopeWithFallback q key")
  note few = dequeue_fewer [OF q(3,2) d]
  have "dequeueForScopeWithFallback key (gw_al s) = (msgs, (gw_al s)\<lparr>al_steering := Some q'\<rparr>)"
    by (simp add: dequeueForScopeWithFallback_def q d)
  then show ?thesis
    using assms(3) few q
    by (auto simp: continue_session_def pendingSteeringCountForScope_def steering_ok_def split: option.splits list.splits)
qed

lemma publish_frame [simp]:
  "gw_al (fold publish_inbound ms s) = gw_al s" "gw_outbound (fold publish_inbound ms s) = gw_outbound s"
  "gw_al (publishResponseIfNeeded ch chat r s) = gw_al s" "gw_al (resetSentInRound a s) = gw_al s" "gw_outbound (resetSentInRound a s) = gw_outbound s"
  "gw_al (recordLastChannel env c s) = gw_al s" "gw_outbound (recordLastChannel env c s) = gw_outbound s"
  by (induction ms arbitrary: s) (auto simp: publish_inbound_def publishResponseIfNeeded_def publish_outbound_def resetSentInRound_def
      recordLastChannel_def Let_def split: option.splits)

lemma steering_ok_al: "gw_al s = gw_al s' \<Longrightarrow> steering_ok s = steering_ok s'"
  by (simp add: steering_ok_def)

lemma run_quiet:
  assumes "quiet_runner key run" "steering_ok s" "\<not> po_SendResponse opts"
  obtains r s' where "runAgentLoop env run a opts s = Some (r, s')" "steering_ok s'" "gw_outbound s' = gw_outbound s"
    "pendingSteeringCountForScope key (gw_al s') \<le> pendingSteeringCountForScope key (gw_al s)"
proof -
  define s1 where "s1 = (if po_Channel opts \<noteq> [] \<and> po_ChatID opts \<noteq> [] \<and> \<not> isInternalChannel (po_Channel opts)
                then recordLastChannel env (po_Channel opts @ '':'' @ po_ChatID opts) s else s)"
  have s1: "gw_al s1 = gw_al s" "gw_outbound s1 = gw_outbound s" by (simp_all add: s1_def)
  then have "steering_ok s1" using assms(2) steering_ok_al by blast
  then obtain r s2 where r: "run a opts s1 = Some (r, s2)" "steering_ok s2" "gw_outbound s2 = gw_outbound s1"
      "pendingSteeringCountForScope key (gw_al s2) \<le> pendingSteeringCountForScope key (gw_al s1)"
    using assms(1) unfolding quiet_runner_def by blast
  show thesis
  proof (cases r)
    case (ResDone content fs)
    let ?s = "fold publish_inbound fs s2"
    have "runAgentLoop env run a opts s = Some (Inr content, ?s)"
      using r(1) assms(3) ResDone by (simp add: runAgentLoop_def s1_def [symmetric] Let_def)
    moreover have "steering_ok ?s" using r(2) steering_ok_al [of ?s s2] by simp
    ultimately show ?thesis using r(3,4) s1 by (intro that [of "Inr content" ?s]) simp_all
  qed (use r s1 that in \<open>auto simp: runAgentLoop_def s1_def [symmetric] Let_def\<close>)
qed

lemma continue_quiet:
  assumes "quiet_runner (ct_SessionKey t) run" "steering_ok s" "pendingSteeringCountForScope (ct_SessionKey t) (gw_al s) > 0"
  obtains r s' where "continueTurn env run t s = Some (r, s')" "steering_ok s'" "gw_outbound s' = gw_outbound s"
    "pendingSteeringCountForScope (ct_SessionKey t) (gw_al s') \<le> pendingSteeringCountForScope (ct_SessionKey t) (gw_al s)"
    "case r of Inl _ \<Rightarrow> True | Inr _ \<Rightarrow> pendingSteeringCountForScope (ct_SessionKey t) (gw_al s') < pendingSteeringCountForScope (ct_SessionKey t) (gw_al s)"
proof -
  let ?k = "ct_SessionKey t"
  obtain c al' where c: "continue_session (lv_init env) ?k (gw_al s) = (c, al')" by (cases "continue_session (lv_init env) ?k (gw_al s)")
  note cc = continue_cases [OF assms(2,3) c]
  show thesis
  proof (cases c)
    case (ContinueErr e)
    then show ?thesis using c cc by (intro that [of "Inl e" "s\<lparr>gw_al := al'\<rparr>"]) (simp_all add: continueTurn_def)
  next
    case NothingPending
    then show ?thesis using cc by simp
  next
    case (RunTurn a msgs)
    let ?s = "resetSentInRound a (s\<lparr>gw_al := al'\<rparr>)"
    let ?o = "(options_for ?k (ct_Channel t) (ct_ChatID t) [] defaultResponse True)\<lparr>po_InitialSteeringMessages := msgs, po_SkipInitialSteeringPoll := True\<rparr>"
    have "steering_ok ?s" using cc steering_ok_al [of ?s "s\<lparr>gw_al := al'\<rparr>"] by simp
    moreover have "\<not> po_SendResponse ?o" by (simp add: options_for_def)
    ultimately obtain r s' where r: "runAgentLoop env run a ?o ?s = Some (r, s')" "steering_ok s'" "gw_outbound s' = gw_outbound ?s"
        "pendingSteeringCountForScope ?k (gw_al s') \<le> pendingSteeringCountForScope ?k (gw_al ?s)"
      using run_quiet [OF assms(1)] by metis
    then show ?thesis using c cc RunTurn
      by (intro that [of r s']) (auto simp: continueTurn_def split: sum.splits)
  qed
qed

lemma loop_quiet:
  assumes "quiet_runner (ct_SessionKey t) run" "steering_ok s" "pendingSteeringCountForScope (ct_SessionKey t) (gw_al s) \<le> n"
  shows "\<exists>s'. steering_ok s' \<and> gw_outbound s' = gw_outbound s \<and> pendingSteeringCountForScope (ct_SessionKey t) (gw_al s') \<le> n
    \<and> (continue_loop shutdown n env run t final s = LoopStop s' \<or> (\<exists>final'. continue_loop shutdown n env run t final s = LoopDone final' s'))"
  using assms(2,3)
proof (induction n arbitrary: s final)
  case 0
  then show ?case by (subst (1 2) continue_loop.simps) auto
next
  case (Suc n)
  show ?case
  proof (cases "pendingSteeringCountForScope (ct_SessionKey t) (gw_al s) = 0")
    case True
    then show ?thesis using Suc.prems by (subst (1 2) continue_loop.simps) auto
  next
    case False
    then obtain r s1 where r: "continueTurn env run t s = Some (r, s1)" "steering_ok s1" "gw_outbound s1 = gw_outbound s"
        "pendingSteeringCountForScope (ct_SessionKey t) (gw_al s1) \<le> pendingSteeringCountForScope (ct_SessionKey t) (gw_al s)"
        "case r of Inl _ \<Rightarrow> True | Inr _ \<Rightarrow> pendingSteeringCountForScope (ct_SessionKey t) (gw_al s1) < pendingSteeringCountForScope (ct_SessionKey t) (gw_al s)"
      using continue_quiet [OF assms(1) Suc.prems(1)] by (metis gr0I)
    show ?thesis
    proof (cases r)
      case (Inl e)
      then have "continue_loop shutdown (Suc n) env run t final s = LoopStop s1"
        using False r(1) by (subst continue_loop.simps) simp
      then show ?thesis using r(2-4) Suc.prems(2) by (intro exI [of _ s1]) simp
    next
      case (Inr content)
      then have le: "pendingSteeringCountForScope (ct_SessionKey t) (gw_al s1) \<le> n" using r(5) Suc.prems(2) by simp
      show ?thesis
      proof (cases "content = []")
        case True
        then have "continue_loop shutdown (Suc n) env run t final s = (if shutdown then LoopDone final s1 else LoopStop s1)"
          using False r(1) Inr by (subst continue_loop.simps) simp
        then show ?thesis using r(2,3) le by (intro exI [of _ s1]) simp
      next
        case ne: False
        then have "continue_loop shutdown (Suc n) env run t final s = continue_loop shutdown n env run t content s1"
          using False r(1) Inr by (subst continue_loop.simps) simp
        then show ?thesis using Suc.IH [OF r(2) le, of content] r(3) by fastforce
      qed
    qed
  qed
qed

section \<open>What becomes of a message\<close>

lemma published_once:
  "gw_outbound (publishResponseIfNeeded ch chat r s) = gw_outbound s
   \<or> r \<noteq> [] \<and> gw_outbound (publishResponseIfNeeded ch chat r s) = gw_outbound s
       @ [\<lparr>out_Channel = ch, out_ChatID = chat, out_Content = r, out_ReplyToMessageID = [], out_Metadata = []\<rparr>]"
  by (auto simp: publishResponseIfNeeded_def publish_outbound_def Let_def split: option.splits)

lemma pending_bound: "steering_ok s \<Longrightarrow> pendingSteeringCountForScope key (gw_al s) \<le> maxQueueSize"
  by (auto simp: steering_ok_def pendingSteeringCountForScope_def lenScope_def intro: inv_lookup split: option.splits)


text \<open>
  The answer of a turn is lost when a message is waiting at its end and the turn that continues with it fails or answers
  nothing: the loop stops handling the message, and nothing is published of what the first turn answered.
\<close>

theorem answer_lost_on_continuation:
  assumes "buildContinuationTarget env msg s = Inr (Some t)" "pendingSteeringCountForScope (ct_SessionKey t) (gw_al s) > 0"
    "continueTurn env run t s = Some (r, s1)" "r = Inr [] \<or> (\<exists>err. r = Inl err)"
  shows "finish_message (Suc n) env run msg response s = LoopStop s1"
proof -
  have "continue_loop False (Suc n) env run t response s = LoopStop s1"
    using assms(2-4) by (subst continue_loop.simps) auto
  then show ?thesis using assms(1) by (simp add: finish_message_def)
qed

lemma steering_scope_agrees_lemma:
  assumes "resolveSteeringTarget env msg s = Some (scope, agentID)" "\<not> HasCommandPrefix (in_Content msg)"
  shows "\<exists>route agent s'. resolveMessageRoute env msg s = Inr (route, agent) \<and> ae_ID agent = agentID
     \<and> scope = (if prefix ''agent:'' (in_SessionKey msg) then in_SessionKey msg else rr_SessionKey route)
     \<and> processMessage env run msg s = runAgentLoop env run agent
         ((message_options scope msg)\<lparr>po_ForcedSkills := fst (takePendingSkills scope (resetSentInRound agent s))\<rparr>) s'
     \<and> s' = snd (takePendingSkills scope (resetSentInRound agent s))
     \<and> buildContinuationTarget env msg s = Inr (Some \<lparr>ct_SessionKey = scope, ct_Channel = in_Channel msg, ct_ChatID = in_ChatID msg\<rparr>)"
proof -
  obtain route agent where r: "resolveMessageRoute env msg s = Inr (route, agent)" "scope = resolveScopeKey route (in_SessionKey msg)"
      "agentID = ae_ID agent" "in_Channel msg \<noteq> ''system''" "inboundMetadata msg ''observe_only'' \<noteq> ''true''"
    using assms(1) by (auto simp: resolveSteeringTarget_def split: if_splits sum.splits prod.splits)
  have "scope = (if prefix ''agent:'' (in_SessionKey msg) then in_SessionKey msg else rr_SessionKey route)"
    using r(2) by (auto simp: resolveScopeKey_def sessionKeyAgentPrefix_def)
  moreover have "processMessage env run msg s = runAgentLoop env run agent
      ((message_options scope msg)\<lparr>po_ForcedSkills := fst (takePendingSkills scope (resetSentInRound agent s))\<rparr>)
      (snd (takePendingSkills scope (resetSentInRound agent s)))"
    using r assms(2)
    by (simp add: processMessage_def handleCommand_def message_options_def options_for_def Let_def split: prod.splits)
  moreover have "buildContinuationTarget env msg s = Inr (Some \<lparr>ct_SessionKey = scope, ct_Channel = in_Channel msg, ct_ChatID = in_ChatID msg\<rparr>)"
    using r by (simp add: buildContinuationTarget_def)
  ultimately show ?thesis using r(1,3) by blast
qed


text \<open>
  A skill that is armed is applied to exactly the next message of the session that starts a turn. \<^verbatim>\<open>/use\<close> with the name of an
  installed skill, in any case, is answered without a turn; the next message that is no command runs with that skill, as it is
  installed, forced, whatever was pending before, and takes it off the list.
\<close>

theorem armed_skill_applies_once:
  assumes "resolveMessageRoute env cmd s = Inr (route, agent)" "in_Channel cmd \<noteq> ''system''" "inboundMetadata cmd ''observe_only'' \<noteq> ''true''"
    "parseCommandName (in_Content cmd) = Some ''use''" "str_fields (trim_space (in_Content cmd)) = [t, k]" "HasCommandPrefix (in_Content cmd)"
    "lv_skills env (ae_ID agent) = Some names" "\<not> equal_fold (trim_space k) ''clear''" "\<not> equal_fold (trim_space k) ''off''"
    "resolveSkillName (trim_space k) names = Some skill" "trim_space skill = skill" "skill \<noteq> []"
    "key = resolveScopeKey route (in_SessionKey cmd)" "trim_space key \<noteq> []"
    "resolveSteeringTarget env msg s = Some (key, agentID)" "\<not> HasCommandPrefix (in_Content msg)"
  shows "\<exists>reply s1. processMessage env run cmd s = Some (Inr reply, s1)
     \<and> gw_pendingSkills s1 = (gw_pendingSkills s)(trim_space key \<mapsto> [skill]) \<and> gw_outbound s1 = gw_outbound s
     \<and> (\<exists>agent2 s2. processMessage env run msg s1 = runAgentLoop env run agent2 ((message_options key msg)\<lparr>po_ForcedSkills := [skill]\<rparr>) s2
          \<and> gw_pendingSkills s2 = (gw_pendingSkills s)(trim_space key := None))"
proof -
  let ?s0 = "resetSentInRound agent s"
  let ?s1 = "?s0\<lparr>gw_pendingSkills := (gw_pendingSkills s)(trim_space key \<mapsto> [skill])\<rparr>"
  have p0: "gw_pendingSkills (resetSentInRound a g) = gw_pendingSkills g" for a g by (simp add: resetSentInRound_def split: option.splits)
  have key: "po_SessionKey (message_options key cmd) = key" by (simp add: message_options_def options_for_def)
  have "setPendingSkills key [skill] ?s0 = ?s1" using assms(11,12,14) by (simp add: setPendingSkills_def p0 Let_def)
  then obtain reply where "applyExplicitSkillCommand (in_Content cmd) (Some names) (message_options key cmd) ?s0 = (UseReply reply, ?s1)"
    using assms(4,5,8-10,14) key by (simp add: applyExplicitSkillCommand_def Let_def)
  then have "handleCommand env cmd agent (message_options key cmd) ?s0 = Some (CmdReply reply, ?s1)"
    using assms(6,7) by (simp add: handleCommand_def)
  then have one: "processMessage env run cmd s = Some (Inr reply, ?s1)"
    using assms(1-3,13) by (simp add: processMessage_def Let_def)
  have "registry_of ?s1 = registry_of s" by (simp add: registry_of_def)
  then have "resolveSteeringTarget env msg ?s1 = Some (key, agentID)" using assms(15) steers_registry(1) by metis
  then obtain agent2 s2 where two: "processMessage env run msg ?s1 = runAgentLoop env run agent2
         ((message_options key msg)\<lparr>po_ForcedSkills := fst (takePendingSkills key (resetSentInRound agent2 ?s1))\<rparr>) s2"
      "s2 = snd (takePendingSkills key (resetSentInRound agent2 ?s1))"
    using steering_scope_agrees_lemma [OF _ assms(16)] by blast
  have "takePendingSkills key (resetSentInRound agent2 ?s1) =
      ([skill], (resetSentInRound agent2 ?s1)\<lparr>gw_pendingSkills := (gw_pendingSkills ?s1)(trim_space key := None)\<rparr>)"
    using assms(14) by (simp add: takePendingSkills_def p0 Let_def)
  then have "processMessage env run msg ?s1 = runAgentLoop env run agent2 ((message_options key msg)\<lparr>po_ForcedSkills := [skill]\<rparr>) s2"
    "gw_pendingSkills s2 = (gw_pendingSkills s)(trim_space key := None)"
    using two by simp_all
  then have "\<exists>agent2 s2. processMessage env run msg ?s1 = runAgentLoop env run agent2 ((message_options key msg)\<lparr>po_ForcedSkills := [skill]\<rparr>) s2
          \<and> gw_pendingSkills s2 = (gw_pendingSkills s)(trim_space key := None)" by blast
  then show ?thesis using one by (intro exI [of _ reply] exI [of _ ?s1] conjI) simp_all
qed

text \<open>
  Claim C13. An answer that is suppressed by another agent's messages. When a message goes to an agent that is not the default one, only the targets of
  its own message tool are forgotten, but only the default agent's tool is asked before the answer is published: if that one
  has sent to the chat in some earlier round, the answer is not published.
\<close>

theorem stale_targets_suppress_answer:
  assumes "resolveSteeringTarget env msg s = Some (scope, agentID)" "\<not> HasCommandPrefix (in_Content msg)"
    "getDefaultAgent (registry_of s) = Some d" "ae_ID d \<noteq> agentID"
    "gw_messageTool s (ae_ID d) = Some sent" "(in_Channel msg, in_ChatID msg) \<in> set sent"
    "\<And>a opts g. run a opts g = Some (ResDone answer [], g)"
    "pendingSteeringCountForScope scope (gw_al s) = 0"
  shows "\<exists>s'. handleInbound n (\<lambda>g. g) env run msg s = LoopStop s' \<and> gw_outbound s' = gw_outbound s"
proof -
  obtain agent s2 where p: "processMessage env run msg s = runAgentLoop env run agent
         ((message_options scope msg)\<lparr>po_ForcedSkills := fst (takePendingSkills scope (resetSentInRound agent s))\<rparr>) s2"
      "s2 = snd (takePendingSkills scope (resetSentInRound agent s))" "ae_ID agent = agentID"
    using steering_scope_agrees_lemma [OF assms(1,2)] by blast
  have take: "gw_al (snd (takePendingSkills k g)) = gw_al g" "gw_messageTool (snd (takePendingSkills k g)) = gw_messageTool g"
      "gw_outbound (snd (takePendingSkills k g)) = gw_outbound g" for k g
    by (simp_all add: takePendingSkills_def Let_def split: option.splits)
  have "gw_messageTool (resetSentInRound agent s) (ae_ID d) = Some sent"
    using assms(4,5) p(3) by (simp add: resetSentInRound_def split: option.splits)
  then have s2: "gw_al s2 = gw_al s" "gw_messageTool s2 (ae_ID d) = Some sent" "gw_outbound s2 = gw_outbound s" by (simp_all add: p(2) take)
  obtain s3 where s3: "processMessage env run msg s = Some (Inr answer, s3)" "gw_al s3 = gw_al s" "gw_messageTool s3 (ae_ID d) = Some sent"
      "gw_outbound s3 = gw_outbound s"
    using s2 by (simp add: p(1) runAgentLoop_def assms(7) message_options_def options_for_def recordLastChannel_def Let_def)
  have reg: "registry_of s3 = registry_of s" using s3(2) by (simp add: registry_of_def)
  then have "publishResponseIfNeeded (in_Channel msg) (in_ChatID msg) answer s3 = s3"
    using assms(3,6) s3(3) by (simp add: publishResponseIfNeeded_def hasSentTo_def Let_def)
  moreover have "buildContinuationTarget env msg s3 = Inr (Some \<lparr>ct_SessionKey = scope, ct_Channel = in_Channel msg, ct_ChatID = in_ChatID msg\<rparr>)"
    using steering_scope_agrees_lemma [of env msg s3, OF _ assms(2)] assms(1) steers_registry(1) [OF reg] by metis
  ultimately have "finish_message n env run msg answer s3 = LoopStop s3"
    using assms(8) s3(2) by (simp add: finish_message_def continue_loop.simps [of _ n])
  then show ?thesis using s3 by (auto simp: handleInbound_def response_text_def stop_typing_def)
qed

section \<open>Examples\<close>

definition demo_env :: loop_env where
  "demo_env =
     \<lparr>lv_route = \<lparr>rc_Agents = [], rc_Bindings = [], rc_Session = \<lparr>sc_DMScope = [], sc_IdentityLinks = []\<rparr>\<rparr>, lv_init = None, lv_state = False,
      lv_skills = (\<lambda>_. Some [''Weather'']), lv_skillsFilter = (\<lambda>_. []), lv_store = (\<lambda>_. None),
      lv_commands = Some (NewRegistry BuiltinDefinitions), lv_channels = None, lv_reload = None, lv_models = [], lv_provider = [],
      lv_createError = (\<lambda>_. None), lv_turnText = (\<lambda>_. [])\<rparr>"

definition demo_gateway :: "agent_registry \<Rightarrow> steering_queue \<Rightarrow> gateway" where
  "demo_gateway reg q =
     \<lparr>gw_al = \<lparr>al_heap = (\<lambda>_. idle_turn []), al_active = [], al_steering = Some q, al_registry = Some reg,
        al_stores = (\<lambda>_. \<lparr>ss_history = (\<lambda>_. []), ss_summary = (\<lambda>_. [])\<rparr>), al_storeOf = (\<lambda>_. 0), al_events = []\<rparr>,
      gw_pendingSkills = Map.empty, gw_lastChannel = [], gw_messageTool = Map.empty, gw_inbound = [], gw_closed = False,
      gw_outbound = [], gw_typingStops = [],
      gw_models = (\<lambda>_. \<lparr>am_Model = [], am_Fallbacks = [], am_Workspace = [], am_Candidates = [], am_Provider = demo_model,
        am_Thinking = ThinkingOff\<rparr>), gw_rr = 0\<rparr>"

definition main_entry :: agent_entry where "main_entry = \<lparr>ae_ID = ''main'', ae_Subagents = None\<rparr>"

definition demo_message :: "string \<Rightarrow> inbound_message" where
  "demo_message content = direct_message content [] ''telegram'' ''7''"

lemma demo_message_sel [simp]:
  "in_Channel (demo_message c) = ''telegram''" "in_ChatID (demo_message c) = ''7''" "in_Content (demo_message c) = c"
  "in_SessionKey (demo_message c) = []" "in_Metadata (demo_message c) = []" "in_Media (demo_message c) = []"
  by (simp_all add: demo_message_def direct_message_def)

definition echo_runner :: turn_runner where
  "echo_runner a opts s = Some (ResDone (po_UserMessage opts) [], s)"

lemma demo_loop_route:
  "resolveRoute (lv_route demo_env) (route_input_of (demo_message content)) =
     \<lparr>rr_AgentID = ''main'', rr_Channel = ''telegram'', rr_AccountID = ''default'', rr_SessionKey = ''agent:main:main'',
      rr_MainSessionKey = ''agent:main:main'', rr_MatchedBy = ''default''\<rparr>"
proof -
  have "route_input_of (demo_message content) = route_input_of (demo_message [])"
    by (simp add: route_input_of_def demo_message_def direct_message_def inboundMetadata_def extractPeer_def extractParentPeer_def)
  moreover have "resolveRoute (lv_route demo_env) (route_input_of (demo_message [])) =
     \<lparr>rr_AgentID = ''main'', rr_Channel = ''telegram'', rr_AccountID = ''default'', rr_SessionKey = ''agent:main:main'',
      rr_MainSessionKey = ''agent:main:main'', rr_MatchedBy = ''default''\<rparr>"
    unfolding demo_env_def loop_env.simps by code_simp
  ultimately show ?thesis by simp
qed

lemma demo_resolve:
  assumes "map_of reg ''main'' = Some main_entry" "registry_of s = reg"
  shows "resolveMessageRoute demo_env (demo_message content) s =
      Inr (\<lparr>rr_AgentID = ''main'', rr_Channel = ''telegram'', rr_AccountID = ''default'', rr_SessionKey = ''agent:main:main'',
        rr_MainSessionKey = ''agent:main:main'', rr_MatchedBy = ''default''\<rparr>, main_entry)"
    "resolveSteeringTarget demo_env (demo_message content) s = Some (''agent:main:main'', ''main'')"
proof -
  have n: "normalizeAgentID ''main'' = ''main''" by code_simp
  show r: "resolveMessageRoute demo_env (demo_message content) s =
      Inr (\<lparr>rr_AgentID = ''main'', rr_Channel = ''telegram'', rr_AccountID = ''default'', rr_SessionKey = ''agent:main:main'',
        rr_MainSessionKey = ''agent:main:main'', rr_MatchedBy = ''default''\<rparr>, main_entry)"
    using assms by (simp add: resolveMessageRoute_def demo_loop_route getAgent_def n Let_def)
  show "resolveSteeringTarget demo_env (demo_message content) s = Some (''agent:main:main'', ''main'')"
    by (simp add: resolveSteeringTarget_def r inboundMetadata_def resolveScopeKey_def main_entry_def)
qed

definition demo_state :: gateway where
  "demo_state = demo_gateway [(''main'', main_entry)] (newSteeringQueue SteeringOneAtATime)"

lemma demo_state_sel [simp]:
  "registry_of demo_state = [(''main'', main_entry)]" "gw_closed demo_state = False" "gw_outbound demo_state = []"
  "al_steering (gw_al demo_state) = Some (newSteeringQueue SteeringOneAtATime)" "gw_messageTool demo_state = Map.empty"
  "gw_pendingSkills demo_state = Map.empty" "gw_inbound demo_state = []"
  by (simp_all add: demo_state_def demo_gateway_def registry_of_def)

lemma demo_target: "registry_of s = [(''main'', main_entry)] \<Longrightarrow> resolveSteeringTarget demo_env (demo_message c) s = Some (''agent:main:main'', ''main'')"
  by (rule demo_resolve(2)) simp_all

lemma demo_continuation: "registry_of s = [(''main'', main_entry)] \<Longrightarrow> buildContinuationTarget demo_env (demo_message c) s =
    Inr (Some \<lparr>ct_SessionKey = ''agent:main:main'', ct_Channel = ''telegram'', ct_ChatID = ''7''\<rparr>)"
  using demo_resolve(1) [of "[(''main'', main_entry)]" s c] by (simp add: buildContinuationTarget_def resolveScopeKey_def)

lemma new_lookup: "sq_lookup (newSteeringQueue m) k = []"
  by (simp add: sq_lookup_def newSteeringQueue_def)

theorem drain_contract_witness:
  "\<exists>q'. al_steering (gw_al (drainBusToSteering demo_env ''agent:main:main'' ''main'' ''7'' [demo_message ''new''] (\<lambda>_. True)
        (demo_state\<lparr>gw_inbound := [demo_message ''x'', (demo_message ''y'')\<lparr>in_Channel := ''system''\<rparr>, demo_message ''z'']\<rparr>))) = Some q'
     \<and> sq_lookup q' ''agent:main:main'' = [as_steering (demo_message ''x''), as_steering (demo_message ''z'')]"
proof -
  let ?s = "demo_state\<lparr>gw_inbound := [demo_message ''x'', (demo_message ''y'')\<lparr>in_Channel := ''system''\<rparr>, demo_message ''z'']\<rparr>"
  have reg: "registry_of ?s = [(''main'', main_entry)]" by (simp add: registry_of_def demo_state_def demo_gateway_def)
  then have "steers_to demo_env ?s ''agent:main:main'' ''7'' (demo_message c)" for c by (simp add: steers_to_def demo_target)
  moreover have "\<not> steers_to demo_env ?s ''agent:main:main'' ''7'' ((demo_message c)\<lparr>in_Channel := ''system''\<rparr>)" for c
    by (simp add: steers_to_def resolveSteeringTarget_def)
  moreover have "normalizeSteeringScope ''agent:main:main'' = ''agent:main:main''" by code_simp
  moreover have "length [demo_message ''new''] + length (gw_inbound ?s) \<le> chan_cap ChanInbound" by (simp add: chan_cap_def defaultBusBufferSize_def)
  ultimately show ?thesis
    using drain_contract [of ?s "newSteeringQueue SteeringOneAtATime" "[demo_message ''new'']" demo_env "''agent:main:main''" "''main''" "''7''" "\<lambda>_. True"]
    by (auto simp: inv_new new_lookup maxQueueSize_def)
qed

lemma quiet_echo: "quiet_runner key echo_runner"
  by (simp add: quiet_runner_def echo_runner_def)


theorem answer_lost_on_continuation_witness:
  "\<exists>s1. finish_message 1 demo_env (\<lambda>a opts s. Some (ResAborted, s)) (demo_message ''hi'') ''hello''
      (demo_gateway [(''main'', main_entry)] \<lparr>sq_queues = [(''agent:main:main'', [plain_message ''user'' ''wait''])], sq_mode = SteeringOneAtATime\<rparr>)
    = LoopStop s1 \<and> gw_outbound s1 = []"
proof -
  let ?q = "\<lparr>sq_queues = [(''agent:main:main'', [plain_message ''user'' ''wait''])], sq_mode = SteeringOneAtATime\<rparr>"
  let ?s = "demo_gateway [(''main'', main_entry)] ?q" and ?run = "\<lambda>(a :: agent_entry) (opts :: loop_options) (s :: gateway). Some (ResAborted, s)"
  have reg: "registry_of ?s = [(''main'', main_entry)]" by (simp add: registry_of_def demo_gateway_def)
  have n: "normalizeSteeringScope ''agent:main:main'' = ''agent:main:main''" "trim_space ''agent:main:main'' = ''agent:main:main''" by code_simp+
  have p: "pendingSteeringCountForScope ''agent:main:main'' (gw_al ?s) > 0"
    by (simp add: pendingSteeringCountForScope_def lenScope_def n sq_lookup_def demo_gateway_def)
  have ps: "map_option psk_AgentID (parseAgentSessionKey ''agent:main:main'') = Some ''main''" and na: "normalizeAgentID ''main'' = ''main''" by code_simp+
  have ag: "agentForSession ''agent:main:main'' al = Some main_entry" if "al_registry al = Some [(''main'', main_entry)]" for al
    using that ps by (auto simp: agentForSession_def getAgent_def na)
  obtain s1 where "continueTurn demo_env ?run \<lparr>ct_SessionKey = ''agent:main:main'', ct_Channel = ''telegram'', ct_ChatID = ''7''\<rparr> ?s = Some (Inr [], s1)"
      "gw_outbound s1 = []"
    by (simp add: continueTurn_def continue_session_def getActiveTurn_def getAnyActiveTurnState_def demo_gateway_def demo_env_def
        dequeueForScopeWithFallback_def dequeueScopeWithFallback_def dequeueLocked_def n sq_lookup_def runAgentLoop_def Let_def ag)
  then show ?thesis
    using answer_lost_on_continuation [OF demo_continuation [OF reg, of "''hi''"], of ?run "Inr []" s1 0 "''hello''"] p by auto
qed


theorem armed_skill_applies_once_witness:
  "\<exists>reply s1 agent2 s2. processMessage demo_env echo_runner (demo_message ''/use weather'') demo_state = Some (Inr reply, s1)
     \<and> processMessage demo_env echo_runner (demo_message ''rain'') s1 =
         runAgentLoop demo_env echo_runner agent2 ((message_options ''agent:main:main'' (demo_message ''rain''))\<lparr>po_ForcedSkills := [''Weather'']\<rparr>) s2"
proof -
  have c: "parseCommandName ''/use weather'' = Some ''use''" "str_fields (trim_space ''/use weather'') = [''/use'', ''weather'']"
    "HasCommandPrefix ''/use weather''" "\<not> equal_fold (trim_space ''weather'') ''clear''" "\<not> equal_fold (trim_space ''weather'') ''off''"
    "resolveSkillName (trim_space ''weather'') [''Weather''] = Some ''Weather''" "trim_space ''Weather'' = ''Weather''"
    "trim_space ''agent:main:main'' \<noteq> []" "\<not> HasCommandPrefix ''rain''" by code_simp+
  have sk: "lv_skills demo_env x = Some [''Weather'']" for x by (simp add: demo_env_def)
  have r: "resolveMessageRoute demo_env (demo_message c) demo_state =
      Inr (\<lparr>rr_AgentID = ''main'', rr_Channel = ''telegram'', rr_AccountID = ''default'', rr_SessionKey = ''agent:main:main'',
        rr_MainSessionKey = ''agent:main:main'', rr_MatchedBy = ''default''\<rparr>, main_entry)" for c
    by (rule demo_resolve(1)) simp_all
  show ?thesis
    using armed_skill_applies_once [OF r [of "''/use weather''"], of "''/use''" "''weather''" "[''Weather'']" "''Weather''" "''agent:main:main''"
        "demo_message ''rain''" "''main''" echo_runner] c sk demo_target [of demo_state "''rain''"]
    by (auto simp: inboundMetadata_def resolveScopeKey_def)
qed

definition two_agents :: loop_env where
  "two_agents = demo_env\<lparr>lv_route := \<lparr>rc_Agents =
      [\<lparr>ac_ID = ''main'', ac_Default = False, ac_Name = [], ac_Workspace = [], ac_Model = None, ac_Skills = [], ac_Subagents = None\<rparr>,
       \<lparr>ac_ID = ''work'', ac_Default = True, ac_Name = [], ac_Workspace = [], ac_Model = None, ac_Skills = [], ac_Subagents = None\<rparr>],
     rc_Bindings = [], rc_Session = \<lparr>sc_DMScope = [], sc_IdentityLinks = []\<rparr>\<rparr>\<rparr>"

definition work_entry :: agent_entry where "work_entry = \<lparr>ae_ID = ''work'', ae_Subagents = None\<rparr>"

theorem stale_targets_suppress_answer_witness:
  "\<exists>s'. handleInbound 10 (\<lambda>g. g) two_agents (\<lambda>a opts g. Some (ResDone ''hello'' [], g)) (demo_message ''hi'')
      ((demo_gateway [(''main'', main_entry), (''work'', work_entry)] (newSteeringQueue SteeringOneAtATime))
         \<lparr>gw_messageTool := [''main'' \<mapsto> [(''telegram'', ''7'')]]\<rparr>) = LoopStop s' \<and> gw_outbound s' = []"
proof -
  let ?s = "(demo_gateway [(''main'', main_entry), (''work'', work_entry)] (newSteeringQueue SteeringOneAtATime))
         \<lparr>gw_messageTool := [''main'' \<mapsto> [(''telegram'', ''7'')]]\<rparr>"
  have ri: "route_input_of (demo_message c) = \<lparr>ri_Channel = ''telegram'', ri_AccountID = [], ri_Peer = None, ri_ParentPeer = None,
      ri_GuildID = [], ri_TeamID = []\<rparr>" for c
    by (simp add: route_input_of_def demo_message_def direct_message_def inboundMetadata_def extractPeer_def extractParentPeer_def)
  have rt: "rr_AgentID (resolveRoute (lv_route two_agents) \<lparr>ri_Channel = ''telegram'', ri_AccountID = [], ri_Peer = None, ri_ParentPeer = None,
      ri_GuildID = [], ri_TeamID = []\<rparr>) = ''work'' \<and> rr_SessionKey (resolveRoute (lv_route two_agents)
      \<lparr>ri_Channel = ''telegram'', ri_AccountID = [], ri_Peer = None, ri_ParentPeer = None, ri_GuildID = [], ri_TeamID = []\<rparr>) = ''agent:work:main''"
    unfolding two_agents_def loop_env.simps by code_simp
  have n: "normalizeAgentID ''work'' = ''work''" by code_simp
  have reg: "registry_of ?s = [(''main'', main_entry), (''work'', work_entry)]" by (simp add: registry_of_def demo_gateway_def)
  have mr: "resolveMessageRoute two_agents (demo_message ''hi'') ?s = Inr (resolveRoute (lv_route two_agents) (route_input_of (demo_message ''hi'')), work_entry)"
    unfolding resolveMessageRoute_def reg using rt by (simp add: ri getAgent_def n Let_def)
  note mr = mr [unfolded ri]
  have t: "resolveSteeringTarget two_agents (demo_message ''hi'') ?s = Some (''agent:work:main'', ''work'')"
    using mr rt by (simp add: resolveSteeringTarget_def inboundMetadata_def resolveScopeKey_def work_entry_def)
  have c: "\<not> HasCommandPrefix (in_Content (demo_message ''hi''))" by (simp, code_simp)
  have p: "pendingSteeringCountForScope ''agent:work:main'' (gw_al ?s) = 0"
    by (simp add: pendingSteeringCountForScope_def lenScope_def new_lookup demo_gateway_def)
  have "getDefaultAgent (registry_of ?s) = Some main_entry" by (simp add: reg getDefaultAgent_def)
  from stale_targets_suppress_answer [OF t c this, of "[(''telegram'', ''7'')]" "\<lambda>a opts g. Some (ResDone ''hello'' [], g)" "''hello''" 10] p
  show ?thesis by (simp add: main_entry_def) (simp add: demo_gateway_def)
qed

end
