(* ===== verification/ChannelSend.thy ===== *)
theory ChannelSend
  imports ChannelGate MessageSplit "HOL-Library.AList" "HOL-Library.Multiset"
begin

text \<open>
  How a message leaves through a channel: the per-chat indicators of \<^verbatim>\<open>pkg/channels/manager.go\<close> (typing, reaction,
  placeholder, finished stream) and what \<^verbatim>\<open>preSend\<close> does with them, sending with retries, splitting at markers
  (\<^verbatim>\<open>marker.go\<close>) and the classes of send errors (\<^verbatim>\<open>errors.go\<close>, \<^verbatim>\<open>errutil.go\<close>). What the platform answers to the
  \<open>n\<close>-th call is an argument; the calls made are logged in order. A function that is recorded (stop typing, undo a
  reaction) is named by a number and is not nil.
\<close>

section \<open>Maps of the indicators\<close>

text \<open>\<^verbatim>\<open>sync.Map\<close>: an association list without duplicate keys, in the order \<^verbatim>\<open>Range\<close> visits it.\<close>

type_synonym 'v sync_map = "(string \<times> 'v) list"

definition sync_store :: "string \<Rightarrow> 'v \<Rightarrow> 'v sync_map \<Rightarrow> 'v sync_map" where
  "sync_store k v m = (k, v) # AList.delete k m"

definition sync_swap :: "string \<Rightarrow> 'v \<Rightarrow> 'v sync_map \<Rightarrow> 'v option \<times> 'v sync_map" where
  "sync_swap k v m = (map_of m k, sync_store k v m)"

definition loadAndDelete :: "string \<Rightarrow> 'v sync_map \<Rightarrow> 'v option \<times> 'v sync_map" where
  "loadAndDelete k m = (map_of m k, AList.delete k m)"

section \<open>Channels and platforms\<close>

datatype send_error = ErrNotRunning | ErrRateLimit | ErrTemporary | ErrSendFailed | ErrRaw

definition classifySendError :: "int \<Rightarrow> send_error" where
  "classifySendError statusCode =
     (if statusCode = 429 then ErrRateLimit
      else if statusCode \<ge> 500 then ErrTemporary
      else if statusCode \<ge> 400 then ErrSendFailed
      else ErrRaw)"

definition classifyNetError :: "string option \<Rightarrow> send_error option" where
  "classifyNetError err = (case err of None \<Rightarrow> None | Some _ \<Rightarrow> Some ErrTemporary)"

text \<open>What a channel object can do: each field stands for an interface the code asserts.\<close>

record channel_obj =
  co_ref :: nat
  co_maxLen :: "int option"
  co_editor :: bool
  co_deleter :: bool
  co_media :: bool
  co_placeholder :: bool
  co_streaming :: bool
  co_webhook :: "string option"
  co_health :: "string option"

datatype platform_call =
    PcSend nat outbound_message
  | PcSendMedia nat outbound_media_message
  | PcEdit nat string string string
  | PcDelete nat string string
  | PcStopTyping nat
  | PcUndoReaction nat
  | PcPlaceholder nat string
  | PcSleep duration

text \<open>Answers, by the number of calls made before: whether \<^verbatim>\<open>limiter.Wait\<close> returned a token, what a send or an edit returned,
  whether a pause ran to its end (else the context was cancelled).\<close>

record platform =
  pf_wait :: "nat \<Rightarrow> bool"
  pf_send :: "nat \<Rightarrow> send_error + string list"
  pf_edit :: "nat \<Rightarrow> bool"
  pf_placeholder :: "nat \<Rightarrow> string option"
  pf_sleep :: "nat \<Rightarrow> bool"

record outbox =
  dl_placeholders :: "(string \<times> time) sync_map"
  dl_typing :: "(nat \<times> time) sync_map"
  dl_reactions :: "(nat \<times> time) sync_map"
  dl_stream :: "bool sync_map"
  dl_calls :: "platform_call list"

definition newOutbox :: outbox where
  "newOutbox = \<lparr>dl_placeholders = [], dl_typing = [], dl_reactions = [], dl_stream = [], dl_calls = []\<rparr>"

definition log_call :: "platform_call \<Rightarrow> outbox \<Rightarrow> outbox" where
  "log_call c s = s\<lparr>dl_calls := dl_calls s @ [c]\<rparr>"

definition chat_key :: "string \<Rightarrow> string \<Rightarrow> string" where
  "chat_key channel chatID = channel @ '':'' @ chatID"

section \<open>Recording indicators\<close>

definition recordPlaceholder :: "time \<Rightarrow> string \<Rightarrow> string \<Rightarrow> string \<Rightarrow> outbox \<Rightarrow> outbox" where
  "recordPlaceholder now channel chatID placeholderID s =
     s\<lparr>dl_placeholders := sync_store (chat_key channel chatID) (placeholderID, now) (dl_placeholders s)\<rparr>"

definition recordTypingStop :: "time \<Rightarrow> string \<Rightarrow> string \<Rightarrow> nat \<Rightarrow> outbox \<Rightarrow> outbox" where
  "recordTypingStop now channel chatID stop s =
     (case sync_swap (chat_key channel chatID) (stop, now) (dl_typing s) of
        (previous, m) \<Rightarrow>
          (case previous of
             None \<Rightarrow> s\<lparr>dl_typing := m\<rparr>
           | Some (oldStop, _) \<Rightarrow> log_call (PcStopTyping oldStop) (s\<lparr>dl_typing := m\<rparr>)))"

definition take_typing_stop :: "string \<Rightarrow> outbox \<Rightarrow> outbox" where
  "take_typing_stop key s =
     (case loadAndDelete key (dl_typing s) of
        (None, m) \<Rightarrow> s
      | (Some (stop, _), m) \<Rightarrow> log_call (PcStopTyping stop) (s\<lparr>dl_typing := m\<rparr>))"

definition invokeTypingStop :: "string \<Rightarrow> string \<Rightarrow> outbox \<Rightarrow> outbox" where
  "invokeTypingStop channel chatID s = take_typing_stop (chat_key channel chatID) s"

definition recordReactionUndo :: "time \<Rightarrow> string \<Rightarrow> string \<Rightarrow> nat \<Rightarrow> outbox \<Rightarrow> outbox" where
  "recordReactionUndo now channel chatID undo s =
     s\<lparr>dl_reactions := sync_store (chat_key channel chatID) (undo, now) (dl_reactions s)\<rparr>"

definition take_reaction_undo :: "string \<Rightarrow> outbox \<Rightarrow> outbox" where
  "take_reaction_undo key s =
     (case loadAndDelete key (dl_reactions s) of
        (None, m) \<Rightarrow> s
      | (Some (undo, _), m) \<Rightarrow> log_call (PcUndoReaction undo) (s\<lparr>dl_reactions := m\<rparr>))"

text \<open>What the gate of a channel records when a message is let in.\<close>

fun record_effect :: "time \<Rightarrow> gate_effect \<Rightarrow> outbox \<Rightarrow> outbox" where
  "record_effect now (RecordTypingStop channel chatID stop) s = recordTypingStop now channel chatID stop s"
| "record_effect now (RecordReactionUndo channel chatID undo) s = recordReactionUndo now channel chatID undo s"
| "record_effect now (RecordPlaceholder channel chatID phID) s = recordPlaceholder now channel chatID phID s"

text \<open>\<^verbatim>\<open>Finalize\<close> of the streamer that \<^verbatim>\<open>GetStreamer\<close> hands out: the hook runs when the stream itself was finalized.\<close>

definition finalize_stream :: "bool \<Rightarrow> string \<Rightarrow> string \<Rightarrow> outbox \<Rightarrow> outbox" where
  "finalize_stream ok channelName chatID s =
     (if ok then s\<lparr>dl_stream := sync_store (chat_key channelName chatID) True (dl_stream s)\<rparr> else s)"

definition getStreamer :: "(string \<rightharpoonup> channel_obj) \<Rightarrow> bool \<Rightarrow> string \<Rightarrow> string \<Rightarrow> (bool \<Rightarrow> outbox \<Rightarrow> outbox) option" where
  "getStreamer channels begins channelName chatID =
     (case channels channelName of
        None \<Rightarrow> None
      | Some ch \<Rightarrow> if co_streaming ch \<and> begins then Some (\<lambda>ok. finalize_stream ok channelName chatID) else None)"

definition sendPlaceholder :: "platform \<Rightarrow> time \<Rightarrow> (string \<rightharpoonup> channel_obj) \<Rightarrow> string \<Rightarrow> string \<Rightarrow> outbox \<Rightarrow> bool \<times> outbox" where
  "sendPlaceholder pf now channels channel chatID s =
     (case channels channel of
        None \<Rightarrow> (False, s)
      | Some ch \<Rightarrow>
          if \<not> co_placeholder ch then (False, s)
          else
            let s1 = log_call (PcPlaceholder (co_ref ch) chatID) s in
            (case pf_placeholder pf (length (dl_calls s)) of
               None \<Rightarrow> (False, s1)
             | Some phID \<Rightarrow> if phID = [] then (False, s1) else (True, recordPlaceholder now channel chatID phID s1)))"

section \<open>Before a message is sent\<close>

definition take_placeholder :: "string \<Rightarrow> outbox \<Rightarrow> (string \<times> time) option \<times> outbox" where
  "take_placeholder key s =
     (case loadAndDelete key (dl_placeholders s) of (v, m) \<Rightarrow> (v, s\<lparr>dl_placeholders := m\<rparr>))"

definition take_stream :: "string \<Rightarrow> outbox \<Rightarrow> bool \<times> outbox" where
  "take_stream key s = (case loadAndDelete key (dl_stream s) of (v, m) \<Rightarrow> (v \<noteq> None, s\<lparr>dl_stream := m\<rparr>))"

definition drop_streamed_placeholder :: "string \<Rightarrow> outbound_message \<Rightarrow> channel_obj \<Rightarrow> outbox \<Rightarrow> outbox" where
  "drop_streamed_placeholder key msg ch s =
     (case take_placeholder key s of
        (None, s1) \<Rightarrow> s1
      | (Some (phID, _), s1) \<Rightarrow>
          if phID = [] then s1
          else if co_deleter ch then log_call (PcDelete (co_ref ch) (out_ChatID msg) phID) s1
          else if co_editor ch then log_call (PcEdit (co_ref ch) (out_ChatID msg) phID (out_Content msg)) s1
          else s1)"

definition edit_placeholder :: "platform \<Rightarrow> string \<Rightarrow> outbound_message \<Rightarrow> channel_obj \<Rightarrow> outbox \<Rightarrow> (string list \<times> bool) \<times> outbox" where
  "edit_placeholder pf key msg ch s =
     (case take_placeholder key s of
        (None, s1) \<Rightarrow> (([], False), s1)
      | (Some (phID, _), s1) \<Rightarrow>
          if phID \<noteq> [] \<and> co_editor ch
          then (if pf_edit pf (length (dl_calls s1)) then ([phID], True) else ([], False),
                log_call (PcEdit (co_ref ch) (out_ChatID msg) phID (out_Content msg)) s1)
          else (([], False), s1))"

definition preSend :: "platform \<Rightarrow> string \<Rightarrow> outbound_message \<Rightarrow> channel_obj \<Rightarrow> outbox \<Rightarrow> (string list \<times> bool) \<times> outbox" where
  "preSend pf name msg ch s =
     (let key = chat_key name (out_ChatID msg);
          s1 = take_reaction_undo key (take_typing_stop key s)
      in case take_stream key s1 of
           (True, s2) \<Rightarrow> (([], True), drop_streamed_placeholder key msg ch s2)
         | (False, s2) \<Rightarrow> edit_placeholder pf key msg ch s2)"

definition preSendMedia :: "string \<Rightarrow> outbound_media_message \<Rightarrow> channel_obj \<Rightarrow> outbox \<Rightarrow> outbox" where
  "preSendMedia name msg ch s =
     (let key = chat_key name (om_ChatID msg);
          s1 = snd (take_stream key (take_reaction_undo key (take_typing_stop key s)))
      in case take_placeholder key s1 of
           (None, s2) \<Rightarrow> s2
         | (Some (phID, _), s2) \<Rightarrow>
             if phID \<noteq> [] \<and> co_deleter ch then log_call (PcDelete (co_ref ch) (om_ChatID msg) phID) s2 else s2)"

section \<open>Sending with retries\<close>

definition maxRetries :: nat where "maxRetries = 3"
definition rateLimitDelay :: duration where "rateLimitDelay = 1 * second"
definition baseBackoff :: duration where "baseBackoff = 500 * millisecond"
definition maxBackoff :: duration where "maxBackoff = 8 * second"

definition backoff :: "nat \<Rightarrow> duration" where
  "backoff attempt = min (baseBackoff * 2 ^ attempt) maxBackoff"

datatype attempt_result = Sent "string list" | GaveUp send_error | SendCancelled

definition permanent :: "send_error \<Rightarrow> bool" where
  "permanent err \<longleftrightarrow> err = ErrNotRunning \<or> err = ErrSendFailed"

definition retry_delay :: "send_error \<Rightarrow> nat \<Rightarrow> duration" where
  "retry_delay err attempt = (if err = ErrRateLimit then rateLimitDelay else backoff attempt)"

text \<open>The loop over the attempts, with \<open>left\<close> of them to come after this one. Text and media share it.\<close>

fun send_attempts :: "platform \<Rightarrow> platform_call \<Rightarrow> nat \<Rightarrow> nat \<Rightarrow> outbox \<Rightarrow> attempt_result \<times> outbox" where
  "send_attempts pf call attempt left s =
     (let s1 = log_call call s in
      case pf_send pf (length (dl_calls s)) of
        Inr msgIDs \<Rightarrow> (Sent msgIDs, s1)
      | Inl err \<Rightarrow>
          if permanent err then (GaveUp err, s1)
          else (case left of
              0 \<Rightarrow> (GaveUp err, s1)
            | Suc n \<Rightarrow>
                let s2 = log_call (PcSleep (retry_delay err attempt)) s1 in
                if pf_sleep pf (length (dl_calls s1)) then send_attempts pf call (Suc attempt) n s2
                else (SendCancelled, s2)))"

declare send_attempts.simps [simp del]

definition sendWithRetry :: "platform \<Rightarrow> string \<Rightarrow> channel_obj \<Rightarrow> outbound_message \<Rightarrow> outbox \<Rightarrow> (string list \<times> bool) \<times> outbox" where
  "sendWithRetry pf name ch msg s =
     (if \<not> pf_wait pf (length (dl_calls s)) then (([], False), s)
      else case preSend pf name msg ch s of
        ((msgIDs, True), s1) \<Rightarrow> ((msgIDs, True), s1)
      | ((_, False), s1) \<Rightarrow>
          (case send_attempts pf (PcSend (co_ref ch) msg) 0 maxRetries s1 of
             (Sent msgIDs, s2) \<Rightarrow> ((msgIDs, True), s2)
           | (_, s2) \<Rightarrow> (([], False), s2)))"

datatype media_error = MediaUnsupported | MediaContext | MediaSend send_error

definition sendMediaWithRetry :: "platform \<Rightarrow> string \<Rightarrow> channel_obj \<Rightarrow> outbound_media_message \<Rightarrow> outbox
    \<Rightarrow> (media_error + string list) \<times> outbox" where
  "sendMediaWithRetry pf name ch msg s =
     (if \<not> co_media ch then (Inl MediaUnsupported, s)
      else if \<not> pf_wait pf (length (dl_calls s)) then (Inl MediaContext, s)
      else case send_attempts pf (PcSendMedia (co_ref ch) msg) 0 maxRetries (preSendMedia name msg ch s) of
        (Sent msgIDs, s1) \<Rightarrow> (Inr msgIDs, s1)
      | (GaveUp err, s1) \<Rightarrow> (Inl (MediaSend err), s1)
      | (SendCancelled, s1) \<Rightarrow> (Inl MediaContext, s1))"

section \<open>Splitting and the worker of a channel\<close>

definition messageSplitMarker :: string where "messageSplitMarker = ''<|[SPLIT]|>''"

text \<open>\<^verbatim>\<open>strings.Split\<close> with a separator that is not empty; \<open>acc\<close> is the part read so far.\<close>

function split_on :: "string \<Rightarrow> string \<Rightarrow> string \<Rightarrow> string list" where
  "split_on sep acc [] = [acc]"
| "split_on sep acc (c # s) =
     (if sep \<noteq> [] \<and> prefix sep (c # s) then acc # split_on sep [] (drop (length sep) (c # s))
      else split_on sep (acc @ [c]) s)"
  by pat_completeness auto
termination by (relation "measure (\<lambda>(sep, acc, s). length s)") (auto simp: neq_Nil_conv)

definition splitByMarker :: "string \<Rightarrow> string list" where
  "splitByMarker content =
     (if content = [] then []
      else
        let result = filter (\<lambda>part. part \<noteq> []) (map trim_space (split_on messageSplitMarker [] content))
        in if result = [] then [content] else result)"

text \<open>The outer option is that splitting returns, the inner one that it does not panic.\<close>

fun split_each :: "int \<Rightarrow> string list \<Rightarrow> string list option option" where
  "split_each maxLen [] = Some (Some [])"
| "split_each maxLen (c # cs) =
     (case splitByLength c maxLen of
        None \<Rightarrow> None
      | Some None \<Rightarrow> Some None
      | Some (Some xs) \<Rightarrow> map_option (map_option (\<lambda>ys. xs @ ys)) (split_each maxLen cs))"

definition max_length_of :: "channel_obj \<Rightarrow> int" where
  "max_length_of ch = (case co_maxLen ch of None \<Rightarrow> 0 | Some n \<Rightarrow> n)"

definition message_chunks :: "bool \<Rightarrow> int \<Rightarrow> string \<Rightarrow> string list option option" where
  "message_chunks splitOnMarker maxLen content =
     (let markerChunks = splitByMarker content;
          chunks = (if splitOnMarker \<and> length markerChunks > 1 then split_each maxLen markerChunks else Some (Some []))
      in if chunks = Some (Some []) then splitByLength content maxLen else chunks)"

fun send_chunks :: "platform \<Rightarrow> string \<Rightarrow> channel_obj \<Rightarrow> outbound_message \<Rightarrow> string list \<Rightarrow> outbox \<Rightarrow> outbox" where
  "send_chunks pf name ch msg [] s = s"
| "send_chunks pf name ch msg (c # cs) s =
     send_chunks pf name ch msg cs (snd (sendWithRetry pf name ch (msg\<lparr>out_Content := c\<rparr>) s))"

text \<open>One message taken from the queue of a worker, and one sent synchronously by \<^verbatim>\<open>SendMessage\<close>, which does not look for markers.\<close>

definition worker_message :: "bool \<Rightarrow> platform \<Rightarrow> string \<Rightarrow> channel_obj \<Rightarrow> outbound_message \<Rightarrow> outbox \<Rightarrow> outbox option option" where
  "worker_message splitOnMarker pf name ch msg s =
     map_option (map_option (\<lambda>chunks. send_chunks pf name ch msg chunks s))
       (message_chunks splitOnMarker (max_length_of ch) (out_Content msg))"

definition send_synchronously :: "platform \<Rightarrow> channel_obj \<Rightarrow> outbound_message \<Rightarrow> outbox \<Rightarrow> outbox option option" where
  "send_synchronously pf ch msg s =
     (let maxLen = max_length_of ch
      in if maxLen > 0 \<and> int (rune_count (out_Content msg)) > maxLen
         then map_option (map_option (\<lambda>chunks. send_chunks pf (out_Channel msg) ch msg chunks s)) (splitMessage (out_Content msg) maxLen)
         else Some (Some (snd (sendWithRetry pf (out_Channel msg) ch msg s))))"

section \<open>The janitor\<close>

definition typingStopTTL :: duration where "typingStopTTL = 5 * minute"
definition placeholderTTL :: duration where "placeholderTTL = 10 * minute"

definition expired :: "duration \<Rightarrow> time \<Rightarrow> 'v \<times> time \<Rightarrow> bool" where
  "expired ttl now v \<longleftrightarrow> time_sub now (snd v) > ttl"

text \<open>One tick, taken as one section: \<^verbatim>\<open>Range\<close> visits the entries, and the expired ones are taken out one after the other.\<close>

definition runTTLJanitor :: "time \<Rightarrow> outbox \<Rightarrow> outbox" where
  "runTTLJanitor now s =
     (let s1 = fold (\<lambda>(key, v). if expired typingStopTTL now v then take_typing_stop key else (\<lambda>s. s)) (dl_typing s) s;
          s2 = fold (\<lambda>(key, v). if expired typingStopTTL now v then take_reaction_undo key else (\<lambda>s. s)) (dl_reactions s1) s1
      in s2\<lparr>dl_placeholders := filter (\<lambda>(key, v). \<not> expired placeholderTTL now v) (dl_placeholders s2)\<rparr>)"

section \<open>The slots of a map\<close>

definition opt_mset :: "'v option \<Rightarrow> 'v multiset" where
  "opt_mset x = (case x of None \<Rightarrow> {#} | Some v \<Rightarrow> {#v#})"

lemma opt_mset_simps [simp]: "opt_mset None = {#}" "opt_mset (Some v) = {#v#}"
  by (simp_all add: opt_mset_def)

text \<open>What the manager relies on when it swaps a value in or takes one out: none is lost and none is made up.\<close>

locale keyed_slots =
  fixes swap_in :: "string \<Rightarrow> 'v \<Rightarrow> 'm \<Rightarrow> 'v option \<times> 'm"
    and take_out :: "string \<Rightarrow> 'm \<Rightarrow> 'v option \<times> 'm"
    and held :: "'m \<Rightarrow> 'v multiset"
    and slots_ok :: "'m \<Rightarrow> bool"
  assumes swap_ok: "slots_ok m \<Longrightarrow> slots_ok (snd (swap_in k v m))"
    and swap_held: "slots_ok m \<Longrightarrow> opt_mset (fst (swap_in k v m)) + held (snd (swap_in k v m)) = held m + {#v#}"
    and take_ok: "slots_ok m \<Longrightarrow> slots_ok (snd (take_out k m))"
    and take_held: "slots_ok m \<Longrightarrow> opt_mset (fst (take_out k m)) + held (snd (take_out k m)) = held m"
    and take_swapped: "fst (take_out k (snd (swap_in k v m))) = Some v"
    and take_taken: "fst (take_out k (snd (take_out k m))) = None"
begin

lemma swap_subset: "slots_ok m \<Longrightarrow> held (snd (swap_in k v m)) \<subseteq># held m + {#v#}"
  using swap_held by (metis mset_subset_eq_add_right)

lemma taken_once:
  assumes "slots_ok m"
  shows "held (snd (take_out k (snd (swap_in k v m)))) + opt_mset (fst (swap_in k v m)) = held m"
proof -
  have "opt_mset (fst (swap_in k v m)) + ({#v#} + held (snd (take_out k (snd (swap_in k v m))))) = held m + {#v#}"
    using swap_held [OF assms, of k v] take_held [OF swap_ok [OF assms], of k k v] unfolding take_swapped by simp
  then show ?thesis by (simp add: add.commute)
qed

end

lemma mset_delete:
  "distinct (map fst m) \<Longrightarrow> mset (map snd m) = opt_mset (map_of m k) + mset (map snd (AList.delete k m))"
proof (induction m)
  case (Cons e m)
  show ?case
  proof (cases "fst e = k")
    case True
    then have "AList.delete k m = m" using Cons.prems
      by (induction m) (auto simp: AList.delete_eq)
    then show ?thesis using True by (simp add: AList.delete_eq map_of_Cons_code split: prod.split) (cases e, simp)
  next
    case False
    then show ?thesis using Cons by (cases e) simp
  qed
qed simp

interpretation slots: keyed_slots sync_swap loadAndDelete "\<lambda>m. mset (map snd m)" "\<lambda>m. distinct (map fst m)"
proof
  fix m :: "'a sync_map" and k v
  assume d: "distinct (map fst m)"
  show "distinct (map fst (snd (sync_swap k v m)))" using d by (simp add: sync_swap_def sync_store_def delete_keys distinct_removeAll)
  show "opt_mset (fst (sync_swap k v m)) + mset (map snd (snd (sync_swap k v m))) = mset (map snd m) + {#v#}"
    using mset_delete [OF d, of k] by (simp add: sync_swap_def sync_store_def)
  show "distinct (map fst (snd (loadAndDelete k m)))" using d by (simp add: loadAndDelete_def distinct_delete)
  show "opt_mset (fst (loadAndDelete k m)) + mset (map snd (snd (loadAndDelete k m))) = mset (map snd m)"
    using mset_delete [OF d, of k] by (simp add: loadAndDelete_def)
next
  fix m :: "'a sync_map" and k v
  show "fst (loadAndDelete k (snd (sync_swap k v m))) = Some v" by (simp add: loadAndDelete_def sync_swap_def sync_store_def)
  show "fst (loadAndDelete k (snd (loadAndDelete k m))) = None" by (simp add: loadAndDelete_def delete_conv)
qed

section \<open>What becomes of the indicators\<close>

text \<open>What other goroutines do, in the order of their atomic sections; \<open>ActStopTyping\<close> and \<open>ActUndoReaction\<close> are single
  sections of \<^verbatim>\<open>preSend\<close>, so that a sequence may interleave the sections of several sends.\<close>

datatype chat_act =
    ActTyping time string string nat
  | ActReaction time string string nat
  | ActPlaceholder time string string string
  | ActInvokeStop string string
  | ActFinalize bool string string
  | ActSend platform string channel_obj outbound_message
  | ActSendMedia platform string channel_obj outbound_media_message
  | ActStopTyping string
  | ActUndoReaction string
  | ActJanitor time

fun chat_step :: "chat_act \<Rightarrow> outbox \<Rightarrow> outbox" where
  "chat_step (ActTyping now ch chat stop) s = recordTypingStop now ch chat stop s"
| "chat_step (ActReaction now ch chat undo) s = recordReactionUndo now ch chat undo s"
| "chat_step (ActPlaceholder now ch chat phID) s = recordPlaceholder now ch chat phID s"
| "chat_step (ActInvokeStop ch chat) s = invokeTypingStop ch chat s"
| "chat_step (ActFinalize ok ch chat) s = finalize_stream ok ch chat s"
| "chat_step (ActSend pf name ch msg) s = snd (sendWithRetry pf name ch msg s)"
| "chat_step (ActSendMedia pf name ch msg) s = snd (sendMediaWithRetry pf name ch msg s)"
| "chat_step (ActStopTyping key) s = take_typing_stop key s"
| "chat_step (ActUndoReaction key) s = take_reaction_undo key s"
| "chat_step (ActJanitor now) s = runTTLJanitor now s"

definition chat_run :: "chat_act list \<Rightarrow> outbox" where
  "chat_run acts = fold chat_step acts newOutbox"

fun typing_recorded :: "chat_act \<Rightarrow> nat multiset" where
  "typing_recorded (ActTyping now ch chat stop) = {#stop#}"
| "typing_recorded _ = {#}"

fun reaction_recorded :: "chat_act \<Rightarrow> nat multiset" where
  "reaction_recorded (ActReaction now ch chat undo) = {#undo#}"
| "reaction_recorded _ = {#}"

fun stop_called :: "platform_call \<Rightarrow> nat multiset" where
  "stop_called (PcStopTyping n) = {#n#}"
| "stop_called _ = {#}"

fun undo_called :: "platform_call \<Rightarrow> nat multiset" where
  "undo_called (PcUndoReaction n) = {#n#}"
| "undo_called _ = {#}"

definition stops_called :: "outbox \<Rightarrow> nat multiset" where
  "stops_called s = sum_list (map stop_called (dl_calls s))"

definition undos_called :: "outbox \<Rightarrow> nat multiset" where
  "undos_called s = sum_list (map undo_called (dl_calls s))"

definition registered :: "(nat \<times> time) sync_map \<Rightarrow> nat multiset" where
  "registered m = image_mset fst (mset (map snd m))"

definition typing_account :: "outbox \<Rightarrow> nat multiset" where
  "typing_account s = stops_called s + registered (dl_typing s)"

definition reaction_account :: "outbox \<Rightarrow> nat multiset" where
  "reaction_account s = undos_called s + registered (dl_reactions s)"

definition indicators_ok :: "outbox \<Rightarrow> bool" where
  "indicators_ok s \<longleftrightarrow> distinct (map fst (dl_typing s)) \<and> distinct (map fst (dl_reactions s))"

text \<open>A step that keeps both accounts.\<close>

definition keeps_accounts :: "outbox \<Rightarrow> outbox \<Rightarrow> bool" where
  "keeps_accounts s s' \<longleftrightarrow>
     (indicators_ok s \<longrightarrow> indicators_ok s' \<and> typing_account s' = typing_account s \<and> reaction_account s' = reaction_account s)"

lemma keeps_refl [simp, intro]: "keeps_accounts s s"
  by (simp add: keeps_accounts_def)

lemma keeps_trans: "keeps_accounts s s1 \<Longrightarrow> keeps_accounts s1 s2 \<Longrightarrow> keeps_accounts s s2"
  by (simp add: keeps_accounts_def)

lemma keeps_log: "stop_called c = {#} \<Longrightarrow> undo_called c = {#} \<Longrightarrow> keeps_accounts s (log_call c s)"
  by (simp add: keeps_accounts_def indicators_ok_def typing_account_def reaction_account_def stops_called_def undos_called_def log_call_def)

lemma keeps_frame:
  "dl_typing s' = dl_typing s \<Longrightarrow> dl_reactions s' = dl_reactions s \<Longrightarrow> dl_calls s' = dl_calls s \<Longrightarrow> keeps_accounts s s'"
  by (simp add: keeps_accounts_def indicators_ok_def typing_account_def reaction_account_def stops_called_def undos_called_def)

lemma registered_take:
  assumes "distinct (map fst m)" "loadAndDelete k m = (v, m')"
  shows "distinct (map fst m') \<and> registered m = image_mset fst (opt_mset v) + registered m'"
  using slots.take_ok [OF assms(1), of k] slots.take_held [OF assms(1), of k] assms(2)
  by (metis fst_conv image_mset_union registered_def snd_conv)

lemma registered_swap:
  assumes "distinct (map fst m)" "sync_swap k v m = (w, m')"
  shows "distinct (map fst m') \<and> image_mset fst (opt_mset w) + registered m' = registered m + {#fst v#}"
  using slots.swap_ok [OF assms(1), of k v] arg_cong [OF slots.swap_held [OF assms(1), of k v], of "image_mset fst"] assms(2)
  by (simp add: registered_def)

lemma keeps_stop: "keeps_accounts s (take_typing_stop key s)"
proof (cases "loadAndDelete key (dl_typing s)")
  case (Pair v m)
  show ?thesis
  proof (cases v)
    case None
    then show ?thesis using Pair by (simp add: take_typing_stop_def)
  next
    case (Some x)
    then show ?thesis using Pair registered_take [OF _ Pair]
      by (cases x) (auto simp: take_typing_stop_def keeps_accounts_def indicators_ok_def typing_account_def reaction_account_def stops_called_def undos_called_def log_call_def)
  qed
qed

lemma keeps_undo: "keeps_accounts s (take_reaction_undo key s)"
proof (cases "loadAndDelete key (dl_reactions s)")
  case (Pair v m)
  show ?thesis
  proof (cases v)
    case None
    then show ?thesis using Pair by (simp add: take_reaction_undo_def)
  next
    case (Some x)
    then show ?thesis using Pair registered_take [OF _ Pair]
      by (cases x) (auto simp: take_reaction_undo_def keeps_accounts_def indicators_ok_def typing_account_def reaction_account_def stops_called_def undos_called_def log_call_def)
  qed
qed

lemma keeps_placeholder: "keeps_accounts s (snd (take_placeholder key s))"
  by (rule keeps_frame) (simp_all add: take_placeholder_def split: prod.split)

lemma keeps_stream: "keeps_accounts s (snd (take_stream key s))"
  by (rule keeps_frame) (simp_all add: take_stream_def split: prod.split)

text \<open>The calls of attempts that failed with these errors, each followed by its pause.\<close>

fun failed_attempts :: "platform_call \<Rightarrow> nat \<Rightarrow> send_error list \<Rightarrow> platform_call list" where
  "failed_attempts call attempt [] = []"
| "failed_attempts call attempt (e # es) = call # PcSleep (retry_delay e attempt) # failed_attempts call (Suc attempt) es"

lemma length_failed [simp]: "length (failed_attempts call attempt es) = 2 * length es"
  by (induction es arbitrary: attempt) auto

definition attempts_outcome :: "platform \<Rightarrow> nat \<Rightarrow> nat \<Rightarrow> send_error list \<Rightarrow> attempt_result \<Rightarrow> bool" where
  "attempts_outcome pf n left errs r \<longleftrightarrow>
     (case r of
        Sent ids \<Rightarrow> pf_send pf (n + 2 * length errs) = Inr ids
      | GaveUp e \<Rightarrow> pf_send pf (n + 2 * length errs) = Inl e \<and> (permanent e \<or> length errs = left)
      | SendCancelled \<Rightarrow> errs \<noteq> [] \<and> \<not> pf_sleep pf (n + 2 * length errs - 1))"

lemma send_attempts_log:
  "send_attempts pf call attempt left s = (r, s') \<Longrightarrow>
     \<exists>errs. length errs \<le> left \<and> list_all (\<lambda>e. \<not> permanent e) errs
       \<and> (\<forall>i<length errs. pf_send pf (length (dl_calls s) + 2 * i) = Inl (errs ! i))
       \<and> s' = s\<lparr>dl_calls := dl_calls s @ failed_attempts call attempt errs @ (if r = SendCancelled then [] else [call])\<rparr>
       \<and> attempts_outcome pf (length (dl_calls s)) left errs r"
proof (induction left arbitrary: attempt s)
  case 0
  then show ?case
    by (intro exI [of _ "[]"])
      (auto simp: send_attempts.simps [of _ _ _ 0] Let_def log_call_def attempts_outcome_def split: sum.splits if_splits)
next
  case (Suc n)
  let ?k = "length (dl_calls s)"
  show ?case
  proof (cases "pf_send pf ?k")
    case (Inr ids)
    then show ?thesis using Suc.prems
      by (intro exI [of _ "[]"]) (auto simp: send_attempts.simps [of _ _ _ "Suc n"] Let_def log_call_def attempts_outcome_def)
  next
    case (Inl err)
    consider (perm) "permanent err" | (stop) "\<not> permanent err" "\<not> pf_sleep pf (Suc ?k)" | (go) "\<not> permanent err" "pf_sleep pf (Suc ?k)" by blast
    then show ?thesis
    proof cases
      case perm
      then show ?thesis using Suc.prems Inl
        by (intro exI [of _ "[]"]) (auto simp: send_attempts.simps [of _ _ _ "Suc n"] Let_def log_call_def attempts_outcome_def)
    next
      case stop
      then show ?thesis using Suc.prems Inl
        by (intro exI [of _ "[err]"]) (auto simp: send_attempts.simps [of _ _ _ "Suc n"] Let_def log_call_def attempts_outcome_def)
    next
      case go
      let ?s = "log_call (PcSleep (retry_delay err attempt)) (log_call call s)"
      have "send_attempts pf call (Suc attempt) n ?s = (r, s')"
        using Suc.prems Inl go by (simp add: send_attempts.simps [of _ _ _ "Suc n"] Let_def log_call_def)
      from Suc.IH [OF this] obtain errs where e: "length errs \<le> n" "list_all (\<lambda>e. \<not> permanent e) errs"
        "\<forall>i<length errs. pf_send pf (length (dl_calls ?s) + 2 * i) = Inl (errs ! i)"
        "s' = ?s\<lparr>dl_calls := dl_calls ?s @ failed_attempts call (Suc attempt) errs @ (if r = SendCancelled then [] else [call])\<rparr>"
        "attempts_outcome pf (length (dl_calls ?s)) n errs r" by blast
      have "pf_send pf (?k + 2 * i) = Inl ((err # errs) ! i)" if "i < length (err # errs)" for i
        using e(3) Inl that by (cases i) (simp_all add: log_call_def)
      moreover have "attempts_outcome pf ?k (Suc n) (err # errs) r"
        using e(5) by (cases r) (auto simp: attempts_outcome_def log_call_def)
      ultimately show ?thesis using e(1,2,4) go(1)
        by (intro exI [of _ "err # errs"]) (simp add: log_call_def)
    qed
  qed
qed

fun pause_of :: "platform_call \<Rightarrow> duration" where
  "pause_of (PcSleep d) = d"
| "pause_of _ = 0"

definition total_pause :: "platform_call list \<Rightarrow> duration" where
  "total_pause calls = sum_list (map pause_of calls)"

lemma retry_delay_bound: "retry_delay e 0 \<le> second" "retry_delay e 1 \<le> second" "retry_delay e 2 \<le> 2 * second" "retry_delay e 2 < maxBackoff"
  by (simp_all add: retry_delay_def backoff_def rateLimitDelay_def baseBackoff_def maxBackoff_def second_def millisecond_def)

lemma failed_pause:
  assumes "length errs \<le> 3" "pause_of call = 0"
  shows "total_pause (failed_attempts call 0 errs) \<le> 4 * second"
proof -
  consider "errs = []" | a where "errs = [a]" | a b where "errs = [a, b]" | a b c where "errs = [a, b, c]"
    using assms(1) by (auto simp: numeral_eq_Suc le_Suc_eq length_Suc_conv)
  then show ?thesis
  proof cases
    case 2
    then show ?thesis using assms(2) retry_delay_bound(1) [of a] by (simp add: total_pause_def second_def)
  next
    case 3
    then show ?thesis using assms(2) retry_delay_bound(1) [of a] retry_delay_bound(2) [of b] by (simp add: total_pause_def second_def)
  next
    case 4
    then show ?thesis using assms(2) retry_delay_bound(1) [of a] retry_delay_bound(2) [of b] retry_delay_bound(3) [of c]
      by (simp add: total_pause_def second_def numeral_2_eq_2)
  qed (simp add: total_pause_def second_def)
qed

text \<open>
  Claim C19. Sending a message that was not already delivered by editing a placeholder. It is tried at most four times, and the first
  success ends it: the calls made are one failed attempt and its pause for each error before, none of them permanent (a
  permanent error is never retried), and then the attempt that succeeds, the one whose error is permanent or the
  fourth, or nothing if the context was cancelled in the last pause. The result is true if and only if the last attempt succeeded,
  and carries its identifiers. The pauses last four seconds at most in all.
\<close>

theorem send_retry_contract:
  assumes "pf_wait pf (length (dl_calls s))" "preSend pf name msg ch s = ((ids0, False), s1)"
    "sendWithRetry pf name ch msg s = ((ids, ok), s')"
  shows "\<exists>errs. length errs \<le> 3 \<and> list_all (\<lambda>e. \<not> permanent e) errs
     \<and> (\<forall>i<length errs. pf_send pf (length (dl_calls s1) + 2 * i) = Inl (errs ! i))
     \<and> total_pause (failed_attempts (PcSend (co_ref ch) msg) 0 errs) \<le> 4 * second
     \<and> (if ok then pf_send pf (length (dl_calls s1) + 2 * length errs) = Inr ids
            \<and> dl_calls s' = dl_calls s1 @ failed_attempts (PcSend (co_ref ch) msg) 0 errs @ [PcSend (co_ref ch) msg]
        else ids = [] \<and>
          ((\<exists>e. pf_send pf (length (dl_calls s1) + 2 * length errs) = Inl e \<and> (permanent e \<or> length errs = 3)
              \<and> dl_calls s' = dl_calls s1 @ failed_attempts (PcSend (co_ref ch) msg) 0 errs @ [PcSend (co_ref ch) msg])
           \<or> errs \<noteq> [] \<and> \<not> pf_sleep pf (length (dl_calls s1) + 2 * length errs - 1)
              \<and> dl_calls s' = dl_calls s1 @ failed_attempts (PcSend (co_ref ch) msg) 0 errs))"
proof -
  obtain r s2 where r: "send_attempts pf (PcSend (co_ref ch) msg) 0 maxRetries s1 = (r, s2)" by fastforce
  have res: "s' = s2" "ok = (case r of Sent _ \<Rightarrow> True | _ \<Rightarrow> False)" "ids = (case r of Sent i \<Rightarrow> i | _ \<Rightarrow> [])"
    using assms r by (auto simp: sendWithRetry_def split: attempt_result.splits)
  obtain errs where e: "length errs \<le> 3" "list_all (\<lambda>e. \<not> permanent e) errs"
      "\<forall>i<length errs. pf_send pf (length (dl_calls s1) + 2 * i) = Inl (errs ! i)"
      "s2 = s1\<lparr>dl_calls := dl_calls s1 @ failed_attempts (PcSend (co_ref ch) msg) 0 errs
         @ (if r = SendCancelled then [] else [PcSend (co_ref ch) msg])\<rparr>"
      "attempts_outcome pf (length (dl_calls s1)) 3 errs r"
    using send_attempts_log [OF r] unfolding maxRetries_def by blast
  have p: "total_pause (failed_attempts (PcSend (co_ref ch) msg) 0 errs) \<le> 4 * second" by (rule failed_pause [OF e(1)]) simp
  show ?thesis
    by (rule exI [of _ errs], use e(1-3) p in \<open>intro conjI\<close>)
      (use e(4,5) res in \<open>auto simp: attempts_outcome_def split: attempt_result.splits\<close>)
qed

lemma called_failed:
  "stop_called call = {#} \<Longrightarrow> sum_list (map stop_called (failed_attempts call a errs)) = {#}"
  "undo_called call = {#} \<Longrightarrow> sum_list (map undo_called (failed_attempts call a errs)) = {#}"
  by (induction errs arbitrary: a) auto

lemma keeps_attempts:
  assumes "stop_called call = {#}" "undo_called call = {#}"
  shows "keeps_accounts s (snd (send_attempts pf call attempt left s))"
proof (cases "send_attempts pf call attempt left s")
  case (Pair r s')
  then show ?thesis using send_attempts_log [OF Pair] assms called_failed
    by (auto simp: keeps_accounts_def indicators_ok_def typing_account_def reaction_account_def stops_called_def undos_called_def)
qed

lemma keeps_drop: "keeps_accounts s (drop_streamed_placeholder key msg ch s)"
  unfolding drop_streamed_placeholder_def
  using keeps_placeholder [of s key] keeps_log [of "PcDelete (co_ref ch) (out_ChatID msg) p" for p] keeps_log [of "PcEdit (co_ref ch) (out_ChatID msg) p (out_Content msg)" for p]
  by (auto split: prod.split option.split intro: keeps_trans)

lemma keeps_edit: "keeps_accounts s (snd (edit_placeholder pf key msg ch s))"
  unfolding edit_placeholder_def
  using keeps_placeholder [of s key] keeps_log [of "PcEdit (co_ref ch) (out_ChatID msg) p (out_Content msg)" for p]
  by (auto split: prod.split option.split intro: keeps_trans)

lemma keeps_preSend: "keeps_accounts s (snd (preSend pf name msg ch s))"
proof -
  let ?k = "chat_key name (out_ChatID msg)"
  let ?s1 = "take_reaction_undo ?k (take_typing_stop ?k s)"
  have "keeps_accounts s (snd (take_stream ?k ?s1))"
    using keeps_trans keeps_stop keeps_undo keeps_stream by meson
  then show ?thesis
    using keeps_drop [of "snd (take_stream ?k ?s1)" ?k msg ch] keeps_edit [of "snd (take_stream ?k ?s1)" pf ?k msg ch]
    by (auto simp: preSend_def Let_def split: prod.split bool.split elim: keeps_trans)
qed

lemma keeps_preSendMedia: "keeps_accounts s (preSendMedia name msg ch s)"
proof -
  let ?k = "chat_key name (om_ChatID msg)"
  let ?s1 = "snd (take_stream ?k (take_reaction_undo ?k (take_typing_stop ?k s)))"
  have "keeps_accounts s (snd (take_placeholder ?k ?s1))"
    using keeps_trans keeps_stop keeps_undo keeps_stream keeps_placeholder by meson
  then show ?thesis
    using keeps_log [of "PcDelete (co_ref ch) (om_ChatID msg) p" for p]
    by (auto simp: preSendMedia_def Let_def split: prod.split option.split elim: keeps_trans)
qed

lemma keeps_send: "keeps_accounts s (snd (sendWithRetry pf name ch msg s))"
  unfolding sendWithRetry_def
  using keeps_preSend [of s pf name msg ch] keeps_attempts [of "PcSend (co_ref ch) msg" _ pf 0 maxRetries]
  by (fastforce split: prod.split bool.split attempt_result.split elim: keeps_trans)

lemma keeps_send_media: "keeps_accounts s (snd (sendMediaWithRetry pf name ch msg s))"
  unfolding sendMediaWithRetry_def
  using keeps_preSendMedia [of s name msg ch] keeps_attempts [of "PcSendMedia (co_ref ch) msg" "preSendMedia name msg ch s" pf 0 maxRetries]
  by (auto split: prod.split attempt_result.split elim: keeps_trans)

lemma keeps_fold:
  assumes "\<And>x s. keeps_accounts s (f x s)"
  shows "keeps_accounts s (fold f xs s)"
proof (induction xs arbitrary: s)
  case (Cons x xs)
  show ?case using keeps_trans [OF assms Cons.IH] by simp
qed simp

lemma keeps_janitor: "keeps_accounts s (runTTLJanitor now s)"
proof -
  let ?f = "\<lambda>(key, v). if expired typingStopTTL now v then take_typing_stop key else (\<lambda>s. s)"
  let ?g = "\<lambda>(key, v). if expired typingStopTTL now v then take_reaction_undo key else (\<lambda>s. s)"
  let ?s1 = "fold ?f (dl_typing s) s"
  have "keeps_accounts s ?s1" by (rule keeps_fold) (auto intro: keeps_stop)
  moreover have "keeps_accounts ?s1 (fold ?g (dl_reactions ?s1) ?s1)" by (rule keeps_fold) (auto intro: keeps_undo)
  ultimately have "keeps_accounts s (fold ?g (dl_reactions ?s1) ?s1)" by (rule keeps_trans)
  then show ?thesis unfolding runTTLJanitor_def Let_def
    by (rule keeps_trans) (rule keeps_frame, simp_all)
qed

lemma step_account:
  assumes "indicators_ok s"
  shows "indicators_ok (chat_step a s) \<and> typing_account (chat_step a s) = typing_account s + typing_recorded a
     \<and> reaction_account (chat_step a s) \<subseteq># reaction_account s + reaction_recorded a"
proof -
  have keep: ?thesis if "keeps_accounts s (chat_step a s)" "typing_recorded a = {#}" "reaction_recorded a = {#}"
    using that assms by (simp add: keeps_accounts_def)
  show ?thesis
  proof (cases a)
    case (ActTyping now ch chat stop)
    obtain w m where m: "sync_swap (chat_key ch chat) (stop, now) (dl_typing s) = (w, m)" by fastforce
    then show ?thesis using registered_swap [OF _ m] assms ActTyping
      by (cases w) (auto simp: recordTypingStop_def indicators_ok_def typing_account_def reaction_account_def stops_called_def
          undos_called_def log_call_def)
  next
    case (ActReaction now ch chat undo)
    let ?v = "(undo, now)"
    have d: "distinct (map fst (dl_reactions s))" using assms by (simp add: indicators_ok_def)
    have m: "sync_swap (chat_key ch chat) ?v (dl_reactions s)
        = (map_of (dl_reactions s) (chat_key ch chat), sync_store (chat_key ch chat) ?v (dl_reactions s))" by (simp add: sync_swap_def)
    from registered_swap [OF d m] have "registered (sync_store (chat_key ch chat) ?v (dl_reactions s)) \<subseteq># registered (dl_reactions s) + {#undo#}"
      by (metis fst_conv mset_subset_eq_add_right)
    then show ?thesis using registered_swap [OF d m] assms ActReaction
      by (auto simp: recordReactionUndo_def indicators_ok_def typing_account_def reaction_account_def stops_called_def undos_called_def)
  qed (intro keep; simp add: invokeTypingStop_def recordPlaceholder_def finalize_stream_def keeps_stop keeps_undo keeps_send keeps_send_media
      keeps_janitor keeps_frame)+
qed

lemma run_account:
  assumes "indicators_ok s"
  shows "indicators_ok (fold chat_step acts s) \<and> typing_account (fold chat_step acts s) = typing_account s + sum_list (map typing_recorded acts)
     \<and> reaction_account (fold chat_step acts s) \<subseteq># reaction_account s + sum_list (map reaction_recorded acts)"
  using assms
proof (induction acts arbitrary: s)
  case (Cons a acts)
  have s: "indicators_ok (chat_step a s)" "typing_account (chat_step a s) = typing_account s + typing_recorded a"
    "reaction_account (chat_step a s) \<subseteq># reaction_account s + reaction_recorded a"
    using step_account [OF Cons.prems, of a] by blast+
  have "reaction_account (fold chat_step (a # acts) s) \<subseteq># reaction_account (chat_step a s) + sum_list (map reaction_recorded acts)"
    using Cons.IH [OF s(1)] by simp
  also have "\<dots> \<subseteq># reaction_account s + reaction_recorded a + sum_list (map reaction_recorded acts)"
    using s(3) by simp
  finally show ?case using Cons.IH [OF s(1)] s(2) by (simp add: add.assoc)
qed simp


section \<open>What the chat sees of a message\<close>

fun shown_text :: "platform_call \<Rightarrow> string list" where
  "shown_text (PcSend _ msg) = [out_Content msg]"
| "shown_text (PcEdit _ _ _ content) = [content]"
| "shown_text _ = []"

definition texts :: "outbox \<Rightarrow> string list" where
  "texts s = concat (map shown_text (dl_calls s))"

text \<open>A platform on which everything works, and at once.\<close>

definition cooperative :: "platform \<Rightarrow> bool" where
  "cooperative pf \<longleftrightarrow> (\<forall>n. pf_wait pf n \<and> pf_edit pf n \<and> (\<exists>ids. pf_send pf n = Inr ids))"

lemma texts_log: "texts (log_call c s) = texts s @ shown_text c" "dl_stream (log_call c s) = dl_stream s"
  by (simp_all add: texts_def log_call_def)

lemma indicators_texts:
  "texts (take_typing_stop key s) = texts s" "dl_stream (take_typing_stop key s) = dl_stream s" "dl_placeholders (take_typing_stop key s) = dl_placeholders s"
  "texts (take_reaction_undo key s) = texts s" "dl_stream (take_reaction_undo key s) = dl_stream s" "dl_placeholders (take_reaction_undo key s) = dl_placeholders s"
  by (auto simp: take_typing_stop_def take_reaction_undo_def texts_def log_call_def split: prod.split option.split)

lemma attempts_cooperative:
  assumes "cooperative pf"
  shows "\<exists>ids. send_attempts pf call a left s = (Sent ids, log_call call s)"
proof -
  obtain ids where "pf_send pf (length (dl_calls s)) = Inr ids" using assms by (auto simp: cooperative_def)
  then show ?thesis by (simp add: send_attempts.simps [of pf call a left s] Let_def)
qed

lemma send_plain:
  assumes "cooperative pf" "map_of (dl_stream s) (chat_key name (out_ChatID msg)) = None"
  shows "texts (snd (sendWithRetry pf name ch msg s)) = texts s @ [out_Content msg]
     \<and> map_of (dl_stream (snd (sendWithRetry pf name ch msg s))) (chat_key name (out_ChatID msg)) = None"
proof -
  let ?k = "chat_key name (out_ChatID msg)"
  let ?s1 = "take_reaction_undo ?k (take_typing_stop ?k s)"
  let ?s2 = "?s1\<lparr>dl_stream := AList.delete ?k (dl_stream s)\<rparr>"
  have w: "pf_wait pf n" "pf_edit pf n" for n using assms(1) by (auto simp: cooperative_def)
  have t: "take_stream ?k ?s1 = (False, ?s2)" using assms(2) by (simp add: take_stream_def loadAndDelete_def indicators_texts)
  have s2: "texts ?s2 = texts s" "map_of (dl_stream ?s2) ?k = None"
    using indicators_texts by (simp_all add: texts_def delete_conv)
  have "texts (snd (sendWithRetry pf name ch msg s)) = texts ?s2 @ [out_Content msg]
     \<and> dl_stream (snd (sendWithRetry pf name ch msg s)) = dl_stream ?s2"
  proof (cases "map_of (dl_placeholders s) ?k")
    case None
    then have e: "edit_placeholder pf ?k msg ch ?s2 = (([], False), ?s2\<lparr>dl_placeholders := AList.delete ?k (dl_placeholders s)\<rparr>)"
      by (simp add: edit_placeholder_def take_placeholder_def loadAndDelete_def indicators_texts)
    obtain ids where "send_attempts pf (PcSend (co_ref ch) msg) 0 maxRetries (?s2\<lparr>dl_placeholders := AList.delete ?k (dl_placeholders s)\<rparr>)
        = (Sent ids, log_call (PcSend (co_ref ch) msg) (?s2\<lparr>dl_placeholders := AList.delete ?k (dl_placeholders s)\<rparr>))"
      using attempts_cooperative [OF assms(1)] by blast
    then show ?thesis using e t w by (simp add: sendWithRetry_def preSend_def Let_def texts_def log_call_def)
  next
    case (Some v)
    let ?s3 = "?s2\<lparr>dl_placeholders := AList.delete ?k (dl_placeholders s)\<rparr>"
    have p: "take_placeholder ?k ?s2 = (Some v, ?s3)" using Some by (simp add: take_placeholder_def loadAndDelete_def indicators_texts)
    obtain ids where a: "send_attempts pf (PcSend (co_ref ch) msg) 0 maxRetries ?s3 = (Sent ids, log_call (PcSend (co_ref ch) msg) ?s3)"
      using attempts_cooperative [OF assms(1)] by blast
    show ?thesis using p t w a
      by (cases v) (auto simp: sendWithRetry_def preSend_def Let_def edit_placeholder_def texts_def log_call_def)
  qed
  then show ?thesis using s2 by simp
qed

lemma send_streamed:
  assumes "cooperative pf" "map_of (dl_stream s) (chat_key name (out_ChatID msg)) = Some b"
  shows "texts (snd (sendWithRetry pf name ch msg s)) = texts s @
       (case map_of (dl_placeholders s) (chat_key name (out_ChatID msg)) of
          Some (phID, _) \<Rightarrow> if phID \<noteq> [] \<and> \<not> co_deleter ch \<and> co_editor ch then [out_Content msg] else []
        | None \<Rightarrow> [])
     \<and> map_of (dl_stream (snd (sendWithRetry pf name ch msg s))) (chat_key name (out_ChatID msg)) = None"
proof -
  let ?k = "chat_key name (out_ChatID msg)"
  let ?s1 = "take_reaction_undo ?k (take_typing_stop ?k s)"
  let ?s2 = "?s1\<lparr>dl_stream := AList.delete ?k (dl_stream s)\<rparr>"
  let ?s3 = "?s2\<lparr>dl_placeholders := AList.delete ?k (dl_placeholders s)\<rparr>"
  have w: "pf_wait pf n" for n using assms(1) by (auto simp: cooperative_def)
  have t: "take_stream ?k ?s1 = (True, ?s2)" using assms(2) by (simp add: take_stream_def loadAndDelete_def indicators_texts)
  have p: "take_placeholder ?k ?s2 = (map_of (dl_placeholders s) ?k, ?s3)"
    by (simp add: take_placeholder_def loadAndDelete_def indicators_texts)
  have s3: "texts ?s3 = texts s" "map_of (dl_stream ?s3) ?k = None" using indicators_texts by (simp_all add: texts_def delete_conv)
  have "snd (sendWithRetry pf name ch msg s) = drop_streamed_placeholder ?k msg ch ?s2"
    using t w by (simp add: sendWithRetry_def preSend_def Let_def)
  then show ?thesis using p s3 by (cases "map_of (dl_placeholders s) ?k") (auto simp: drop_streamed_placeholder_def texts_log)
qed

lemma chunks_plain:
  assumes "cooperative pf" "map_of (dl_stream s) (chat_key name (out_ChatID msg)) = None"
  shows "texts (send_chunks pf name ch msg chunks s) = texts s @ chunks"
  using assms(2)
proof (induction chunks arbitrary: s)
  case (Cons c cs)
  show ?case using Cons.IH [of "snd (sendWithRetry pf name ch (msg\<lparr>out_Content := c\<rparr>) s)"]
      send_plain [OF assms(1), of s name "msg\<lparr>out_Content := c\<rparr>" ch] Cons.prems by simp
qed simp

text \<open>
  Claim C20. What a chat sees of an answer when the platform does what it is asked: the chunks of the message, in order, each
  once, the first perhaps in place of the placeholder. But when a stream has already shown the whole answer, only its first chunk is
  held back (or put in place of a placeholder that cannot be deleted): every further chunk of a long
  answer is sent again after the stream.
\<close>

theorem answer_shown_once:
  assumes "cooperative pf" "message_chunks marker (max_length_of ch) (out_Content msg) = Some (Some chunks)"
  shows "\<exists>s'. worker_message marker pf name ch msg s = Some (Some s')
     \<and> texts s' = texts s @
        (if map_of (dl_stream s) (chat_key name (out_ChatID msg)) = None then chunks
         else (case map_of (dl_placeholders s) (chat_key name (out_ChatID msg)) of
                 Some (phID, _) \<Rightarrow> if phID \<noteq> [] \<and> \<not> co_deleter ch \<and> co_editor ch then take 1 chunks else []
               | None \<Rightarrow> []) @ drop 1 chunks)"
proof -
  have w: "worker_message marker pf name ch msg s = Some (Some (send_chunks pf name ch msg chunks s))"
    using assms(2) by (simp add: worker_message_def)
  show ?thesis
  proof (cases "map_of (dl_stream s) (chat_key name (out_ChatID msg))")
    case None
    then show ?thesis using w chunks_plain [OF assms(1) None] by simp
  next
    case (Some b)
    show ?thesis
    proof (cases chunks)
      case Nil
      then show ?thesis using w Some by (auto split: option.split)
    next
      case (Cons c cs)
      let ?s1 = "snd (sendWithRetry pf name ch (msg\<lparr>out_Content := c\<rparr>) s)"
      have f: "texts ?s1 = texts s @
          (case map_of (dl_placeholders s) (chat_key name (out_ChatID msg)) of
             Some (phID, _) \<Rightarrow> if phID \<noteq> [] \<and> \<not> co_deleter ch \<and> co_editor ch then [c] else [] | None \<Rightarrow> [])"
        "map_of (dl_stream ?s1) (chat_key name (out_ChatID msg)) = None"
        using send_streamed [OF assms(1), of s name "msg\<lparr>out_Content := c\<rparr>" b ch] Some by (auto split: option.split)
      show ?thesis using w Cons Some f(1) chunks_plain [OF assms(1) f(2), of ch cs] by (auto split: option.split)
    qed
  qed
qed

section \<open>Examples\<close>

definition slack_channel :: channel_obj where
  "slack_channel = \<lparr>co_ref = 1, co_maxLen = None, co_editor = True, co_deleter = True, co_media = True, co_placeholder = True,
     co_streaming = True, co_webhook = Some ''/hook'', co_health = None\<rparr>"

definition demo_out :: outbound_message where
  "demo_out = \<lparr>out_Channel = ''slack'', out_ChatID = ''7'', out_Content = ''one<|[SPLIT]|>two'', out_ReplyToMessageID = [], out_Metadata = []\<rparr>"

definition flaky_platform :: platform where
  "flaky_platform = \<lparr>pf_wait = (\<lambda>n. True), pf_send = (\<lambda>n. if n = 0 then Inl ErrRateLimit else if n = 2 then Inl ErrTemporary else Inr [''m1'']),
     pf_edit = (\<lambda>n. True), pf_placeholder = (\<lambda>n. None), pf_sleep = (\<lambda>n. True)\<rparr>"

definition good_platform :: platform where
  "good_platform = flaky_platform\<lparr>pf_send := (\<lambda>n. Inr [''m1''])\<rparr>"

theorem send_retry_contract_witness:
  "\<exists>errs. length errs \<le> 3 \<and> list_all (\<lambda>e. \<not> permanent e) errs
     \<and> pf_send flaky_platform (2 * length errs) = Inr [''m1'']
     \<and> dl_calls (snd (sendWithRetry flaky_platform ''slack'' slack_channel demo_out newOutbox))
         = failed_attempts (PcSend 1 demo_out) 0 errs @ [PcSend 1 demo_out]"
proof -
  have p: "preSend flaky_platform ''slack'' demo_out slack_channel newOutbox = (([], False), newOutbox)"
    by (simp add: preSend_def newOutbox_def take_typing_stop_def take_reaction_undo_def take_stream_def edit_placeholder_def take_placeholder_def
        loadAndDelete_def Let_def)
  obtain s' where s': "sendWithRetry flaky_platform ''slack'' slack_channel demo_out newOutbox = (([''m1''], True), s')"
  proof -
    have "fst (sendWithRetry flaky_platform ''slack'' slack_channel demo_out newOutbox) = ([''m1''], True)"
      using p by (simp add: sendWithRetry_def send_attempts.simps flaky_platform_def newOutbox_def log_call_def Let_def permanent_def
          maxRetries_def numeral_3_eq_3)
    then show ?thesis using that by (cases "sendWithRetry flaky_platform ''slack'' slack_channel demo_out newOutbox") simp
  qed
  have "co_ref slack_channel = 1" "dl_calls newOutbox = []" "pf_wait flaky_platform 0"
    by (simp_all add: slack_channel_def newOutbox_def flaky_platform_def)
  then show ?thesis using send_retry_contract [OF _ p s'] s' by auto
qed

theorem answer_shown_once_witness:
  "\<exists>s'. worker_message True good_platform ''slack'' slack_channel demo_out (finalize_stream True ''slack'' ''7'' newOutbox) = Some (Some s')
     \<and> texts s' = [''two'']"
proof -
  let ?s = "finalize_stream True ''slack'' ''7'' newOutbox"
  have c: "cooperative good_platform" by (simp add: cooperative_def good_platform_def flaky_platform_def)
  have m: "message_chunks True (max_length_of slack_channel) (out_Content demo_out) = Some (Some [''one'', ''two''])" by code_simp
  have "map_of (dl_stream ?s) (chat_key ''slack'' (out_ChatID demo_out)) = Some True" "dl_placeholders ?s = []" "texts ?s = []"
    by (simp_all add: finalize_stream_def newOutbox_def sync_store_def chat_key_def demo_out_def texts_def)
  then show ?thesis using answer_shown_once [OF c m, of "''slack''" ?s] by simp
qed

end
