(* ===== verification/ChannelManager.thy ===== *)
theory ChannelManager
  imports ChannelSend AgentTurn
begin

text \<open>
  The manager of the channels, \<^verbatim>\<open>pkg/channels/manager.go\<close>: which channels a configuration starts, their workers and queues,
  the dispatcher from the bus, reloading a configuration (\<^verbatim>\<open>manager_channel.go\<close>) and the handlers of the shared HTTP
  server (\<^verbatim>\<open>dynamic_mux.go\<close>). A Go map is an association list in its iteration order. What a factory makes
  and whether a channel starts are arguments; so is the digest of a section of the configuration. A call on a channel that is missing
  from the map (a nil interface) and closing a queue twice are panics, \<open>None\<close> as the result.
\<close>

section \<open>Handlers of the HTTP server\<close>

text \<open>\<^verbatim>\<open>ServeHTTP\<close>: the pattern that serves a path.\<close>

definition mux_better :: "string \<Rightarrow> string \<Rightarrow> nat \<times> nat option \<Rightarrow> bool" where
  "mux_better path pattern best \<longleftrightarrow>
     pattern \<noteq> [] \<and> last pattern = CHR ''/'' \<and> prefix pattern path \<and> length pattern > fst best"

definition serveHTTP :: "(string \<times> nat) list \<Rightarrow> string \<Rightarrow> nat option" where
  "serveHTTP handlers path =
     (case map_of handlers path of
        Some h \<Rightarrow> Some h
      | None \<Rightarrow>
          snd (fold (\<lambda>(pattern, h) best. if mux_better path pattern best then (length pattern, Some h) else best)
            handlers (0, None)))"

section \<open>The part of the configuration the manager reads\<close>

record channels_config =
  tg_Enabled :: bool
  tg_Token :: string
  wa_Enabled :: bool
  wa_UseNative :: bool
  wa_BridgeURL :: string
  fs_Enabled :: bool
  mc_Enabled :: bool
  qq_Enabled :: bool
  dt_Enabled :: bool
  dt_ClientID :: string
  sl_Enabled :: bool
  sl_BotToken :: string
  mx_Enabled :: bool
  mx_Homeserver :: string
  mx_UserID :: string
  mx_AccessToken :: string
  ln_Enabled :: bool
  ln_ChannelAccessToken :: string
  ob_Enabled :: bool
  ob_WSUrl :: string
  wc_Enabled :: bool
  wc_BotID :: string
  wc_Secret :: string
  wx_Enabled :: bool
  wx_Token :: string
  pc_Enabled :: bool
  pc_Token :: string
  pl_Enabled :: bool
  pl_URL :: string
  irc_Enabled :: bool
  irc_Server :: string
  vk_Enabled :: bool
  vk_Token :: string
  vk_GroupID :: int
  tw_Enabled :: bool
  tw_Webhooks :: "(string \<times> string) list"

text \<open>The names \<^verbatim>\<open>initChannels\<close> makes channels for, in its order; Matrix is read from the manager's own configuration.\<close>

definition init_names :: "channels_config \<Rightarrow> channels_config \<Rightarrow> string list" where
  "init_names own c =
     (if tg_Enabled c \<and> tg_Token c \<noteq> [] then [''telegram''] else [])
   @ (if wa_Enabled c then (if wa_UseNative c then [''whatsapp_native''] else if wa_BridgeURL c \<noteq> [] then [''whatsapp''] else []) else [])
   @ (if fs_Enabled c then [''feishu''] else [])
   @ (if mc_Enabled c then [''maixcam''] else [])
   @ (if qq_Enabled c then [''qq''] else [])
   @ (if dt_Enabled c \<and> dt_ClientID c \<noteq> [] then [''dingtalk''] else [])
   @ (if sl_Enabled c \<and> sl_BotToken c \<noteq> [] then [''slack''] else [])
   @ (if mx_Enabled c \<and> mx_Homeserver own \<noteq> [] \<and> mx_UserID own \<noteq> [] \<and> mx_AccessToken own \<noteq> [] then [''matrix''] else [])
   @ (if ln_Enabled c \<and> ln_ChannelAccessToken c \<noteq> [] then [''line''] else [])
   @ (if ob_Enabled c \<and> ob_WSUrl c \<noteq> [] then [''onebot''] else [])
   @ (if wc_Enabled c \<and> wc_BotID c \<noteq> [] \<and> wc_Secret c \<noteq> [] then [''wecom''] else [])
   @ (if wx_Enabled c \<and> wx_Token c \<noteq> [] then [''weixin''] else [])
   @ (if pc_Enabled c \<and> pc_Token c \<noteq> [] then [''pico''] else [])
   @ (if pl_Enabled c \<and> pl_URL c \<noteq> [] then [''pico_client''] else [])
   @ (if irc_Enabled c \<and> irc_Server c \<noteq> [] then [''irc''] else [])
   @ (if vk_Enabled c \<and> vk_Token c \<noteq> [] \<and> vk_GroupID c \<noteq> 0 then [''vk''] else [])
   @ (if tw_Enabled c \<and> tw_Webhooks c \<noteq> [] \<and> list_ex (\<lambda>(name, url). url \<noteq> []) (tw_Webhooks c) then [''teams_webhook''] else [])"

text \<open>The enabled sections by their JSON names, and their hashes; \<^verbatim>\<open>discord\<close> is left out.\<close>

definition enabled_sections :: "channels_config \<Rightarrow> string list" where
  "enabled_sections c =
     map fst (filter snd
       [(''whatsapp'', wa_Enabled c), (''telegram'', tg_Enabled c), (''feishu'', fs_Enabled c), (''maixcam'', mc_Enabled c),
        (''qq'', qq_Enabled c), (''dingtalk'', dt_Enabled c), (''slack'', sl_Enabled c), (''matrix'', mx_Enabled c),
        (''line'', ln_Enabled c), (''onebot'', ob_Enabled c), (''wecom'', wc_Enabled c), (''weixin'', wx_Enabled c),
        (''pico'', pc_Enabled c), (''pico_client'', pl_Enabled c), (''irc'', irc_Enabled c), (''vk'', vk_Enabled c),
        (''teams_webhook'', tw_Enabled c)])"

definition toChannelHashes :: "(channels_config \<Rightarrow> string \<Rightarrow> string) \<Rightarrow> channels_config \<Rightarrow> (string \<times> string) list" where
  "toChannelHashes digest c = map (\<lambda>key. (key, digest c key)) (enabled_sections c)"

definition compareChannels :: "(string \<times> string) list \<Rightarrow> (string \<times> string) list \<Rightarrow> string list \<times> string list" where
  "compareChannels old news =
     (map fst (filter (\<lambda>(key, newHash). case map_of old key of Some oldHash \<Rightarrow> newHash \<noteq> oldHash | None \<Rightarrow> True) news),
      map fst (filter (\<lambda>(key, newHash). case map_of old key of Some oldHash \<Rightarrow> newHash \<noteq> oldHash | None \<Rightarrow> False) news)
      @ filter (\<lambda>key. map_of news key = None) (map fst old))"

text \<open>The sections of a list that are enabled, through JSON, which hides every secret: only those \<^verbatim>\<open>updateKeys\<close> copies come
  back. The other sections are zero.\<close>

definition toChannelConfig :: "channels_config \<Rightarrow> string list \<Rightarrow> channels_config" where
  "toChannelConfig c names =
     (let keep = (\<lambda>key enabled. key \<in> set names \<and> enabled);
          str = (\<lambda>key enabled v. if keep key enabled then v else [])
      in \<lparr>tg_Enabled = keep ''telegram'' (tg_Enabled c), tg_Token = str ''telegram'' (tg_Enabled c) (tg_Token c),
          wa_Enabled = keep ''whatsapp'' (wa_Enabled c), wa_UseNative = (keep ''whatsapp'' (wa_Enabled c) \<and> wa_UseNative c),
          wa_BridgeURL = str ''whatsapp'' (wa_Enabled c) (wa_BridgeURL c),
          fs_Enabled = keep ''feishu'' (fs_Enabled c), mc_Enabled = keep ''maixcam'' (mc_Enabled c), qq_Enabled = keep ''qq'' (qq_Enabled c),
          dt_Enabled = keep ''dingtalk'' (dt_Enabled c), dt_ClientID = str ''dingtalk'' (dt_Enabled c) (dt_ClientID c),
          sl_Enabled = keep ''slack'' (sl_Enabled c), sl_BotToken = str ''slack'' (sl_Enabled c) (sl_BotToken c),
          mx_Enabled = keep ''matrix'' (mx_Enabled c), mx_Homeserver = str ''matrix'' (mx_Enabled c) (mx_Homeserver c),
          mx_UserID = str ''matrix'' (mx_Enabled c) (mx_UserID c), mx_AccessToken = str ''matrix'' (mx_Enabled c) (mx_AccessToken c),
          ln_Enabled = keep ''line'' (ln_Enabled c), ln_ChannelAccessToken = str ''line'' (ln_Enabled c) (ln_ChannelAccessToken c),
          ob_Enabled = keep ''onebot'' (ob_Enabled c), ob_WSUrl = str ''onebot'' (ob_Enabled c) (ob_WSUrl c),
          wc_Enabled = keep ''wecom'' (wc_Enabled c), wc_BotID = str ''wecom'' (wc_Enabled c) (wc_BotID c),
          wc_Secret = str ''wecom'' (wc_Enabled c) (wc_Secret c),
          wx_Enabled = keep ''weixin'' (wx_Enabled c), wx_Token = [],
          pc_Enabled = keep ''pico'' (pc_Enabled c), pc_Token = str ''pico'' (pc_Enabled c) (pc_Token c),
          pl_Enabled = keep ''pico_client'' (pl_Enabled c), pl_URL = str ''pico_client'' (pl_Enabled c) (pl_URL c),
          irc_Enabled = keep ''irc'' (irc_Enabled c), irc_Server = str ''irc'' (irc_Enabled c) (irc_Server c),
          vk_Enabled = keep ''vk'' (vk_Enabled c), vk_Token = [],
          vk_GroupID = (if keep ''vk'' (vk_Enabled c) then vk_GroupID c else 0),
          tw_Enabled = keep ''teams_webhook'' (tw_Enabled c),
          tw_Webhooks = (if keep ''teams_webhook'' (tw_Enabled c) then tw_Webhooks c else [])\<rparr>)"

section \<open>The manager\<close>

definition defaultChannelQueueSize :: nat where "defaultChannelQueueSize = 16"
definition defaultRateLimit :: nat where "defaultRateLimit = 10"

definition channelRateConfig :: "(string \<times> nat) list" where
  "channelRateConfig = [(''telegram'', 20), (''slack'', 1), (''matrix'', 2), (''line'', 10), (''qq'', 5), (''irc'', 2)]"

record channel_worker =
  wk_id :: nat
  wk_ch :: channel_obj
  wk_task :: nat
  wk_rate :: nat
  wk_burst :: nat

datatype lifecycle = StartCalled nat | StopCalled nat

text \<open>Workers and dispatch contexts have numbers. The queues are those of the worker's number, and stay when the manager forgets the
  worker; the list of closed ones names both its queues.\<close>

record manager =
  mg_channels :: "(string \<times> channel_obj) list"
  mg_workers :: "(string \<times> channel_worker) list"
  mg_hashes :: "(string \<times> string) list"
  mg_config :: channels_config
  mg_dispatchTask :: "nat option"
  mg_mux :: "(string \<times> nat) list option"
  mg_next :: nat
  mg_cancelled :: "nat list"
  mg_queue :: "nat \<Rightarrow> outbound_message list"
  mg_mediaQueue :: "nat \<Rightarrow> outbound_media_message list"
  mg_closed :: "nat list"
  mg_calls :: "lifecycle list"

definition newChannelWorker :: "nat \<Rightarrow> nat \<Rightarrow> string \<Rightarrow> channel_obj \<Rightarrow> channel_worker" where
  "newChannelWorker n task name ch =
     (let rateVal = (case map_of channelRateConfig name of None \<Rightarrow> defaultRateLimit | Some r \<Rightarrow> r)
      in \<lparr>wk_id = n, wk_ch = ch, wk_task = task, wk_rate = rateVal, wk_burst = max 1 ((rateVal + 1) div 2)\<rparr>)"

definition initChannel :: "(string \<Rightarrow> channel_obj option) \<Rightarrow> string \<Rightarrow> manager \<Rightarrow> manager" where
  "initChannel factory name m =
     (case factory name of None \<Rightarrow> m | Some ch \<Rightarrow> m\<lparr>mg_channels := AList.update name ch (mg_channels m)\<rparr>)"

definition initChannels :: "(string \<Rightarrow> channel_obj option) \<Rightarrow> channels_config \<Rightarrow> manager \<Rightarrow> manager" where
  "initChannels factory c m = fold (initChannel factory) (init_names (mg_config m) c) m"

definition newManager :: "(channels_config \<Rightarrow> string \<Rightarrow> string) \<Rightarrow> (string \<Rightarrow> channel_obj option) \<Rightarrow> channels_config \<Rightarrow> manager" where
  "newManager digest factory c =
     (let m = \<lparr>mg_channels = [], mg_workers = [], mg_hashes = [], mg_config = c, mg_dispatchTask = None, mg_mux = None, mg_next = 0,
               mg_cancelled = [], mg_queue = (\<lambda>_. []), mg_mediaQueue = (\<lambda>_. []), mg_closed = [], mg_calls = []\<rparr>
      in (initChannels factory c m)\<lparr>mg_hashes := toChannelHashes digest c\<rparr>)"

definition registerChannelHTTPHandler :: "channel_obj \<Rightarrow> (string \<times> nat) list \<Rightarrow> (string \<times> nat) list" where
  "registerChannelHTTPHandler ch handlers =
     (let h1 = (case co_webhook ch of None \<Rightarrow> handlers | Some p \<Rightarrow> AList.update p (co_ref ch) handlers)
      in case co_health ch of None \<Rightarrow> h1 | Some p \<Rightarrow> AList.update p (co_ref ch) h1)"

definition unregisterChannelHTTPHandler :: "channel_obj \<Rightarrow> (string \<times> nat) list \<Rightarrow> (string \<times> nat) list" where
  "unregisterChannelHTTPHandler ch handlers =
     (let h1 = (case co_webhook ch of None \<Rightarrow> handlers | Some p \<Rightarrow> AList.delete p handlers)
      in case co_health ch of None \<Rightarrow> h1 | Some p \<Rightarrow> AList.delete p h1)"

definition setupHTTPServer :: "(string \<times> nat) list \<Rightarrow> manager \<Rightarrow> manager" where
  "setupHTTPServer health m =
     m\<lparr>mg_mux := Some (fold (\<lambda>(name, ch). registerChannelHTTPHandler ch) (mg_channels m) health)\<rparr>"

definition log_lifecycle :: "lifecycle \<Rightarrow> manager \<Rightarrow> manager" where
  "log_lifecycle e m = m\<lparr>mg_calls := mg_calls m @ [e]\<rparr>"

text \<open>A worker for a channel that started, with its two goroutines.\<close>

definition add_worker :: "nat \<Rightarrow> string \<Rightarrow> channel_obj \<Rightarrow> manager \<Rightarrow> manager" where
  "add_worker task name ch m =
     m\<lparr>mg_workers := AList.update name (newChannelWorker (mg_next m) task name ch) (mg_workers m), mg_next := Suc (mg_next m)\<rparr>"

definition start_one :: "(channel_obj \<Rightarrow> bool) \<Rightarrow> nat \<Rightarrow> string \<times> channel_obj \<Rightarrow> manager \<Rightarrow> manager" where
  "start_one starts task e m =
     (let m1 = log_lifecycle (StartCalled (co_ref (snd e))) m
      in if starts (snd e) then add_worker task (fst e) (snd e) m1 else m1)"

text \<open>\<^verbatim>\<open>StartAll\<close>: whether it succeeded. The number of the dispatch context is fresh.\<close>

definition startAll :: "(channel_obj \<Rightarrow> bool) \<Rightarrow> manager \<Rightarrow> bool \<times> manager" where
  "startAll starts m =
     (let task = mg_next m;
          m1 = fold (start_one starts task) (mg_channels m) (m\<lparr>mg_dispatchTask := Some task, mg_next := Suc (mg_next m)\<rparr>)
      in if mg_channels m \<noteq> [] \<and> mg_workers m1 = []
         then (False, m1\<lparr>mg_dispatchTask := None, mg_cancelled := mg_cancelled m1 @ [task]\<rparr>)
         else (True, m1))"

text \<open>Closing the queues of a worker and waiting for its goroutines.\<close>

definition close_worker :: "channel_worker \<Rightarrow> manager \<Rightarrow> manager option" where
  "close_worker w m = (if wk_id w \<in> set (mg_closed m) then None else Some (m\<lparr>mg_closed := wk_id w # mg_closed m\<rparr>))"

fun close_workers :: "channel_worker list \<Rightarrow> manager \<Rightarrow> manager option" where
  "close_workers [] m = Some m"
| "close_workers (w # ws) m = Option.bind (close_worker w m) (close_workers ws)"

definition cancel_dispatch :: "manager \<Rightarrow> manager" where
  "cancel_dispatch m =
     (case mg_dispatchTask m of None \<Rightarrow> m | Some task \<Rightarrow> m\<lparr>mg_dispatchTask := None, mg_cancelled := mg_cancelled m @ [task]\<rparr>)"

definition stopAll :: "manager \<Rightarrow> manager option" where
  "stopAll m =
     map_option (\<lambda>m1. fold (\<lambda>(name, ch). log_lifecycle (StopCalled (co_ref ch))) (mg_channels m1) m1)
       (close_workers (map snd (mg_workers m)) (cancel_dispatch m))"

definition getChannel :: "string \<Rightarrow> manager \<Rightarrow> channel_obj option" where
  "getChannel name m = map_of (mg_channels m) name"

definition getStatus :: "(channel_obj \<Rightarrow> bool) \<Rightarrow> manager \<Rightarrow> (string \<times> bool \<times> bool) list" where
  "getStatus running m = map (\<lambda>(name, ch). (name, True, running ch)) (mg_channels m)"

definition getEnabledChannels :: "manager \<Rightarrow> string list" where
  "getEnabledChannels m = map fst (mg_channels m)"

definition registerChannel :: "string \<Rightarrow> channel_obj \<Rightarrow> manager \<Rightarrow> manager" where
  "registerChannel name ch m =
     m\<lparr>mg_channels := AList.update name ch (mg_channels m), mg_mux := map_option (registerChannelHTTPHandler ch) (mg_mux m)\<rparr>"

definition unregisterChannel :: "string \<Rightarrow> manager \<Rightarrow> manager option" where
  "unregisterChannel name m =
     (let m1 = (case map_of (mg_channels m) name of
                  None \<Rightarrow> m
                | Some ch \<Rightarrow> m\<lparr>mg_mux := map_option (unregisterChannelHTTPHandler ch) (mg_mux m)\<rparr>);
          m2 = (case map_of (mg_workers m1) name of None \<Rightarrow> Some m1 | Some w \<Rightarrow> close_worker w m1)
      in map_option (\<lambda>m. m\<lparr>mg_workers := AList.delete name (mg_workers m), mg_channels := AList.delete name (mg_channels m)\<rparr>) m2)"

section \<open>Dispatching\<close>

datatype dispatched = DispatchSkipped | DispatchQueued nat | DispatchBlocked | DispatchPanicked

text \<open>One turn of \<^verbatim>\<open>dispatchLoop\<close>: \<open>enqueue\<close> puts the message into the queue of a worker. A full queue blocks until there is room
  or the context is cancelled.\<close>

definition dispatch_to :: "(nat \<Rightarrow> manager \<Rightarrow> dispatched \<times> manager) \<Rightarrow> string \<Rightarrow> manager \<Rightarrow> dispatched \<times> manager" where
  "dispatch_to enqueue channel m =
     (if isInternalChannel channel then (DispatchSkipped, m)
      else case map_of (mg_channels m) channel of
        None \<Rightarrow> (DispatchSkipped, m)
      | Some _ \<Rightarrow>
          (case map_of (mg_workers m) channel of
             None \<Rightarrow> (DispatchSkipped, m)
           | Some w \<Rightarrow> enqueue (wk_id w) m))"

definition enqueue_outbound :: "outbound_message \<Rightarrow> nat \<Rightarrow> manager \<Rightarrow> dispatched \<times> manager" where
  "enqueue_outbound msg i m =
     (if i \<in> set (mg_closed m) then (DispatchPanicked, m)
      else if length (mg_queue m i) \<ge> defaultChannelQueueSize then (DispatchBlocked, m)
      else (DispatchQueued i, m\<lparr>mg_queue := (mg_queue m)(i := mg_queue m i @ [msg])\<rparr>))"

definition enqueue_media :: "outbound_media_message \<Rightarrow> nat \<Rightarrow> manager \<Rightarrow> dispatched \<times> manager" where
  "enqueue_media msg i m =
     (if i \<in> set (mg_closed m) then (DispatchPanicked, m)
      else if length (mg_mediaQueue m i) \<ge> defaultChannelQueueSize then (DispatchBlocked, m)
      else (DispatchQueued i, m\<lparr>mg_mediaQueue := (mg_mediaQueue m)(i := mg_mediaQueue m i @ [msg])\<rparr>))"

definition dispatchOutbound :: "outbound_message \<Rightarrow> manager \<Rightarrow> dispatched \<times> manager" where
  "dispatchOutbound msg m = dispatch_to (enqueue_outbound msg) (out_Channel msg) m"

definition dispatchOutboundMedia :: "outbound_media_message \<Rightarrow> manager \<Rightarrow> dispatched \<times> manager" where
  "dispatchOutboundMedia msg m = dispatch_to (enqueue_media msg) (om_Channel msg) m"

section \<open>Sending without the queue\<close>

datatype send_fault = ChannelNotFound | NoActiveWorker | MediaFault media_error | SendFault send_error

definition find_worker :: "string \<Rightarrow> manager \<Rightarrow> send_fault + channel_worker" where
  "find_worker channel m =
     (case map_of (mg_channels m) channel of
        None \<Rightarrow> Inl ChannelNotFound
      | Some _ \<Rightarrow> (case map_of (mg_workers m) channel of None \<Rightarrow> Inl NoActiveWorker | Some w \<Rightarrow> Inr w))"

text \<open>\<^verbatim>\<open>SendMessage\<close> and \<^verbatim>\<open>SendMedia\<close>: the first succeeds whether or not the message was delivered.\<close>

definition sendMessage :: "platform \<Rightarrow> outbound_message \<Rightarrow> manager \<Rightarrow> outbox \<Rightarrow> (send_fault option \<times> outbox) option option" where
  "sendMessage pf msg m s =
     (case find_worker (out_Channel msg) m of
        Inl err \<Rightarrow> Some (Some (Some err, s))
      | Inr w \<Rightarrow> map_option (map_option (Pair None)) (send_synchronously pf (wk_ch w) msg s))"

definition sendMedia :: "platform \<Rightarrow> outbound_media_message \<Rightarrow> manager \<Rightarrow> outbox \<Rightarrow> send_fault option \<times> outbox" where
  "sendMedia pf msg m s =
     (case find_worker (om_Channel msg) m of
        Inl err \<Rightarrow> (Some err, s)
      | Inr w \<Rightarrow>
          (case sendMediaWithRetry pf (om_Channel msg) (wk_ch w) msg s of
             (Inl err, s1) \<Rightarrow> (Some (MediaFault err), s1)
           | (Inr _, s1) \<Rightarrow> (None, s1)))"

definition sendToChannel :: "platform \<Rightarrow> string \<Rightarrow> string \<Rightarrow> string \<Rightarrow> manager \<Rightarrow> outbox \<Rightarrow> (send_fault option + dispatched) \<times> manager \<times> outbox" where
  "sendToChannel pf channelName chatID content m s =
     (case map_of (mg_channels m) channelName of
        None \<Rightarrow> (Inl (Some ChannelNotFound), m, s)
      | Some ch \<Rightarrow>
          (let msg = \<lparr>out_Channel = channelName, out_ChatID = chatID, out_Content = content, out_ReplyToMessageID = [], out_Metadata = []\<rparr>
           in case map_of (mg_workers m) channelName of
                Some w \<Rightarrow> (case enqueue_outbound msg (wk_id w) m of (d, m1) \<Rightarrow> (Inr d, m1, s))
              | None \<Rightarrow>
                  (case pf_send pf (length (dl_calls s)) of
                     Inl err \<Rightarrow> (Inl (Some (SendFault err)), m, log_call (PcSend (co_ref ch) msg) s)
                   | Inr _ \<Rightarrow> (Inl None, m, log_call (PcSend (co_ref ch) msg) s))))"

section \<open>Reloading\<close>

datatype deferred = DeferUnregister string | DeferRegister string channel_obj

fun stop_each :: "string list \<Rightarrow> manager \<Rightarrow> manager option" where
  "stop_each [] m = Some m"
| "stop_each (name # names) m =
     (case map_of (mg_channels m) name of
        None \<Rightarrow> None
      | Some ch \<Rightarrow> stop_each names (log_lifecycle (StopCalled (co_ref ch)) m))"

fun start_each :: "(channel_obj \<Rightarrow> bool) \<Rightarrow> nat \<Rightarrow> string list \<Rightarrow> manager \<Rightarrow> (deferred list \<times> manager) option" where
  "start_each starts task [] m = Some ([], m)"
| "start_each starts task (name # names) m =
     (case map_of (mg_channels m) name of
        None \<Rightarrow> None
      | Some ch \<Rightarrow>
          map_option (\<lambda>(ds, m1). ((if starts ch then [DeferRegister name ch] else []) @ ds, m1))
            (start_each starts task names (start_one starts task (name, ch) m)))"

text \<open>\<^verbatim>\<open>Reload\<close>: what it leaves for the goroutine it starts last, and the manager. \<open>news\<close> are the hashes of the new configuration.\<close>

definition reload :: "(channel_obj \<Rightarrow> bool) \<Rightarrow> (string \<Rightarrow> channel_obj option) \<Rightarrow> (string \<times> string) list \<Rightarrow> channels_config \<Rightarrow> manager
    \<Rightarrow> (deferred list \<times> manager) option" where
  "reload starts factory news cfg m =
     (case compareChannels (mg_hashes m) news of
        (added, removed) \<Rightarrow>
          Option.bind (stop_each removed (m\<lparr>mg_config := cfg\<rparr>)) (\<lambda>m1.
            let task = mg_next m1;
                m2 = initChannels factory (toChannelConfig cfg added) (m1\<lparr>mg_dispatchTask := Some task, mg_next := Suc task\<rparr>)
            in map_option (\<lambda>(ds, m3). (map DeferUnregister removed @ ds, m3\<lparr>mg_hashes := news\<rparr>))
                 (start_each starts task added m2)))"

fun run_deferred :: "deferred list \<Rightarrow> manager \<Rightarrow> manager option" where
  "run_deferred [] m = Some m"
| "run_deferred (DeferUnregister name # ds) m = Option.bind (unregisterChannel name m) (run_deferred ds)"
| "run_deferred (DeferRegister name ch # ds) m = run_deferred ds (registerChannel name ch m)"

section \<open>What reloading does\<close>

lemma init_fold:
  "\<exists>cs. fold (initChannel factory) names m = m\<lparr>mg_channels := cs\<rparr>
     \<and> map_of cs = (\<lambda>n. if n \<in> set names \<and> factory n \<noteq> None then factory n else map_of (mg_channels m) n)"
proof (induction names arbitrary: m)
  case Nil
  show ?case by (intro exI [of _ "mg_channels m"]) simp
next
  case (Cons name names)
  let ?m = "initChannel factory name m"
  obtain cs0 where m0: "?m = m\<lparr>mg_channels := cs0\<rparr>"
      "map_of cs0 = (\<lambda>n. if n = name \<and> factory n \<noteq> None then factory n else map_of (mg_channels m) n)"
    by (cases "factory name") (auto simp: initChannel_def update_conv' fun_eq_iff intro: that [of "mg_channels m"])
  from Cons.IH [of ?m] obtain cs where "fold (initChannel factory) names ?m = ?m\<lparr>mg_channels := cs\<rparr>"
      "map_of cs = (\<lambda>n. if n \<in> set names \<and> factory n \<noteq> None then factory n else map_of (mg_channels ?m) n)" by blast
  then show ?case using m0 by (intro exI [of _ cs]) (auto simp: fun_eq_iff)
qed

lemma stop_each_eq:
  "stop_each names m =
     (if list_all (\<lambda>n. map_of (mg_channels m) n \<noteq> None) names
      then Some (m\<lparr>mg_calls := mg_calls m @ map (\<lambda>n. StopCalled (co_ref (the (map_of (mg_channels m) n)))) names\<rparr>) else None)"
  by (induction names arbitrary: m) (auto simp: log_lifecycle_def split: option.splits)

lemma start_one_eq:
  "start_one starts task (name, ch) m =
     m\<lparr>mg_calls := mg_calls m @ [StartCalled (co_ref ch)],
       mg_workers := (if starts ch then AList.update name (newChannelWorker (mg_next m) task name ch) (mg_workers m) else mg_workers m),
       mg_next := (if starts ch then Suc (mg_next m) else mg_next m)\<rparr>"
  by (simp add: start_one_def log_lifecycle_def add_worker_def Let_def)

lemma worker_sel [simp]: "wk_id (newChannelWorker n task name ch) = n" "wk_ch (newChannelWorker n task name ch) = ch"
  by (simp_all add: newChannelWorker_def Let_def)

text \<open>Every worker in the map is open, and no two names share one.\<close>

definition manager_ok :: "manager \<Rightarrow> bool" where
  "manager_ok m \<longleftrightarrow>
     (\<forall>n w. map_of (mg_workers m) n = Some w \<longrightarrow> wk_id w \<notin> set (mg_closed m) \<and> wk_id w < mg_next m)
   \<and> (\<forall>n n' w w'. map_of (mg_workers m) n = Some w \<longrightarrow> map_of (mg_workers m) n' = Some w' \<longrightarrow> wk_id w = wk_id w' \<longrightarrow> n = n')
   \<and> (\<forall>i\<in>set (mg_closed m). i < mg_next m)"

lemma manager_okD:
  "manager_ok m \<Longrightarrow> map_of (mg_workers m) n = Some w \<Longrightarrow> wk_id w \<notin> set (mg_closed m) \<and> wk_id w < mg_next m"
  "manager_ok m \<Longrightarrow> map_of (mg_workers m) n = Some w \<Longrightarrow> map_of (mg_workers m) n' = Some w' \<Longrightarrow> wk_id w = wk_id w' \<Longrightarrow> n = n'"
  "manager_ok m \<Longrightarrow> i \<in> set (mg_closed m) \<Longrightarrow> i < mg_next m"
  unfolding manager_ok_def by blast+

lemma ok_start_one:
  assumes "manager_ok m"
  shows "manager_ok (start_one starts task (name, ch) m)"
proof (cases "starts ch")
  case True
  have fresh: "wk_id w \<noteq> mg_next m" if "map_of (mg_workers m) n = Some w" for n w using manager_okD(1) [OF assms that] by simp
  show ?thesis using True assms fresh manager_okD [OF assms]
    by (auto simp: start_one_eq manager_ok_def update_conv' less_Suc_eq) (metis less_irrefl)+
qed (use assms in \<open>simp add: start_one_eq manager_ok_def\<close>)

lemma start_one_channels: "mg_channels (start_one starts task e m) = mg_channels m"
  by (cases e) (simp add: start_one_eq)

lemma start_each_eq:
  "start_each starts task names m =
     (if list_all (\<lambda>n. map_of (mg_channels m) n \<noteq> None) names
      then Some (map (\<lambda>n. DeferRegister n (the (map_of (mg_channels m) n))) (filter (\<lambda>n. starts (the (map_of (mg_channels m) n))) names),
         fold (\<lambda>n. start_one starts task (n, the (map_of (mg_channels m) n))) names m)
      else None)"
  by (induction names arbitrary: m) (auto simp: start_one_channels split: option.splits)

lemma start_fold:
  assumes "manager_ok m"
  shows "\<exists>ws nx cl. fold (\<lambda>n. start_one starts task (n, g n)) names m = m\<lparr>mg_workers := ws, mg_next := nx, mg_calls := cl\<rparr>
     \<and> manager_ok (m\<lparr>mg_workers := ws, mg_next := nx, mg_calls := cl\<rparr>)
     \<and> (\<forall>n. if n \<in> set names \<and> starts (g n) then \<exists>w. map_of ws n = Some w \<and> wk_ch w = g n
             else map_of ws n = map_of (mg_workers m) n)"
  using assms
proof (induction names arbitrary: m)
  case Nil
  then show ?case by (intro exI [of _ "mg_workers m"] exI [of _ "mg_next m"] exI [of _ "mg_calls m"]) simp
next
  case (Cons name names)
  let ?m = "start_one starts task (name, g name) m"
  from Cons.IH [OF ok_start_one [OF Cons.prems], of starts task name "g name"] obtain ws nx cl where
    f: "fold (\<lambda>n. start_one starts task (n, g n)) names ?m = ?m\<lparr>mg_workers := ws, mg_next := nx, mg_calls := cl\<rparr>"
      "manager_ok (?m\<lparr>mg_workers := ws, mg_next := nx, mg_calls := cl\<rparr>)"
    and w: "\<forall>n. if n \<in> set names \<and> starts (g n) then \<exists>w. map_of ws n = Some w \<and> wk_ch w = g n
             else map_of ws n = map_of (mg_workers ?m) n" by blast
  have m: "?m\<lparr>mg_workers := ws, mg_next := nx, mg_calls := cl\<rparr> = m\<lparr>mg_workers := ws, mg_next := nx, mg_calls := cl\<rparr>"
    by (simp add: start_one_eq)
  have "if n \<in> set (name # names) \<and> starts (g n) then \<exists>w. map_of ws n = Some w \<and> wk_ch w = g n
             else map_of ws n = map_of (mg_workers m) n" for n
    using w [rule_format, of n] by (auto simp: start_one_eq update_conv' split: if_splits)
  then show ?case using f m by (intro exI [of _ ws] exI [of _ nx] exI [of _ cl]) simp
qed

lemma unregister_ok:
  assumes "manager_ok m"
  shows "\<exists>m'. unregisterChannel name m = Some m' \<and> manager_ok m'
     \<and> map_of (mg_channels m') = (map_of (mg_channels m))(name := None) \<and> map_of (mg_workers m') = (map_of (mg_workers m))(name := None)"
proof -
  define m1 where "m1 = (case map_of (mg_channels m) name of None \<Rightarrow> m
      | Some ch \<Rightarrow> m\<lparr>mg_mux := map_option (unregisterChannelHTTPHandler ch) (mg_mux m)\<rparr>)"
  have m1: "mg_channels m1 = mg_channels m" "mg_workers m1 = mg_workers m" "mg_closed m1 = mg_closed m" "mg_next m1 = mg_next m"
    by (simp_all add: m1_def split: option.split)
  show ?thesis
  proof (cases "map_of (mg_workers m) name")
    case None
    then have "unregisterChannel name m
        = Some (m1\<lparr>mg_workers := AList.delete name (mg_workers m), mg_channels := AList.delete name (mg_channels m)\<rparr>)"
      by (simp add: unregisterChannel_def Let_def m1_def [symmetric] m1)
    then show ?thesis using assms None m1 by (auto simp: manager_ok_def delete_conv')
  next
    case (Some w)
    then have "unregisterChannel name m
        = Some (m1\<lparr>mg_closed := wk_id w # mg_closed m, mg_workers := AList.delete name (mg_workers m), mg_channels := AList.delete name (mg_channels m)\<rparr>)"
      using manager_okD(1) [OF assms Some] by (simp add: unregisterChannel_def Let_def m1_def [symmetric] m1 close_worker_def)
    moreover have "manager_ok (m1\<lparr>mg_closed := wk_id w # mg_closed m, mg_workers := AList.delete name (mg_workers m),
        mg_channels := AList.delete name (mg_channels m)\<rparr>)"
      using manager_okD [OF assms] Some m1 unfolding manager_ok_def by (auto simp: delete_conv' split: if_splits)
    ultimately show ?thesis by (simp add: delete_conv')
  qed
qed

lemma unregister_each:
  assumes "manager_ok m"
  shows "\<exists>m'. run_deferred (map DeferUnregister names @ ds) m = run_deferred ds m' \<and> manager_ok m'
     \<and> (\<forall>n. map_of (mg_channels m') n = (if n \<in> set names then None else map_of (mg_channels m) n))
     \<and> (\<forall>n. map_of (mg_workers m') n = (if n \<in> set names then None else map_of (mg_workers m) n))"
  using assms
proof (induction names arbitrary: m)
  case Nil
  then show ?case by (intro exI [of _ m]) simp
next
  case (Cons name names)
  obtain m1 where m1: "unregisterChannel name m = Some m1" "manager_ok m1" "map_of (mg_channels m1) = (map_of (mg_channels m))(name := None)"
      "map_of (mg_workers m1) = (map_of (mg_workers m))(name := None)" using unregister_ok [OF Cons.prems] by blast
  from Cons.IH [OF m1(2)] obtain m2 where "run_deferred (map DeferUnregister names @ ds) m1 = run_deferred ds m2" "manager_ok m2"
      "\<forall>n. map_of (mg_channels m2) n = (if n \<in> set names then None else map_of (mg_channels m1) n)"
      "\<forall>n. map_of (mg_workers m2) n = (if n \<in> set names then None else map_of (mg_workers m1) n)" by blast
  then show ?case using m1 by (intro exI [of _ m2]) simp
qed

lemma register_each:
  "manager_ok m \<Longrightarrow> \<exists>m'. run_deferred (map (\<lambda>n. DeferRegister n (g n)) names) m = Some m' \<and> manager_ok m'
     \<and> (\<forall>n. map_of (mg_channels m') n = (if n \<in> set names then Some (g n) else map_of (mg_channels m) n))
     \<and> mg_workers m' = mg_workers m"
proof (induction names arbitrary: m)
  case (Cons name names)
  let ?m = "registerChannel name (g name) m"
  have "manager_ok ?m" using Cons.prems by (simp add: manager_ok_def registerChannel_def)
  from Cons.IH [OF this] obtain m' where "run_deferred (map (\<lambda>n. DeferRegister n (g n)) names) ?m = Some m'" "manager_ok m'"
     "\<forall>n. map_of (mg_channels m') n = (if n \<in> set names then Some (g n) else map_of (mg_channels ?m) n)"
     "mg_workers m' = mg_workers ?m" by blast
  then show ?case by (intro exI [of _ m']) (simp add: registerChannel_def update_conv')
qed simp

lemma compare_added:
  assumes "distinct (map fst news)"
  shows "name \<in> set (fst (compareChannels old news)) \<longleftrightarrow> map_of news name \<noteq> None \<and> map_of news name \<noteq> map_of old name"
proof -
  have "(name, h) \<in> set news \<longleftrightarrow> map_of news name = Some h" for h using assms by simp
  then show ?thesis by (force simp: compareChannels_def image_iff split: option.splits)
qed

lemma compare_removed:
  assumes "distinct (map fst news)"
  shows "name \<in> set (snd (compareChannels old news)) \<longleftrightarrow> map_of old name \<noteq> None \<and> map_of news name \<noteq> map_of old name"
proof -
  have "(name, h) \<in> set news \<longleftrightarrow> map_of news name = Some h" for h using assms by simp
  moreover have "name \<in> fst ` set old \<longleftrightarrow> map_of old name \<noteq> None" by (simp add: map_of_eq_None_iff)
  ultimately show ?thesis by (cases "map_of news name"; cases "map_of old name") (force simp: compareChannels_def image_iff split: option.splits)+
qed

text \<open>The channels a reload has before it starts the new ones.\<close>

definition reloaded_channel :: "(string \<Rightarrow> channel_obj option) \<Rightarrow> (string \<times> string) list \<Rightarrow> channels_config \<Rightarrow> manager \<Rightarrow> string \<Rightarrow> channel_obj option" where
  "reloaded_channel factory news cfg m name =
     (if name \<in> set (init_names cfg (toChannelConfig cfg (fst (compareChannels (mg_hashes m) news)))) \<and> factory name \<noteq> None
      then factory name else map_of (mg_channels m) name)"

lemma reload_steps:
  "\<exists>cs cl. map_of cs = reloaded_channel factory news cfg m
     \<and> reload starts factory news cfg m =
         (if list_all (\<lambda>n. map_of (mg_channels m) n \<noteq> None) (snd (compareChannels (mg_hashes m) news))
          then map_option (\<lambda>(ds, m3). (map DeferUnregister (snd (compareChannels (mg_hashes m) news)) @ ds, m3\<lparr>mg_hashes := news\<rparr>))
            (start_each starts (mg_next m) (fst (compareChannels (mg_hashes m) news))
               (m\<lparr>mg_config := cfg, mg_calls := cl, mg_dispatchTask := Some (mg_next m), mg_next := Suc (mg_next m), mg_channels := cs\<rparr>))
          else None)"
proof -
  let ?added = "fst (compareChannels (mg_hashes m) news)"
  let ?removed = "snd (compareChannels (mg_hashes m) news)"
  define cl where "cl = mg_calls m @ map (\<lambda>n. StopCalled (co_ref (the (map_of (mg_channels m) n)))) ?removed"
  let ?m1 = "m\<lparr>mg_config := cfg, mg_calls := cl, mg_dispatchTask := Some (mg_next m), mg_next := Suc (mg_next m)\<rparr>"
  obtain cs where a: "fold (initChannel factory) (init_names cfg (toChannelConfig cfg ?added)) ?m1 = ?m1\<lparr>mg_channels := cs\<rparr>"
      and b: "map_of cs = (\<lambda>n. if n \<in> set (init_names cfg (toChannelConfig cfg ?added)) \<and> factory n \<noteq> None then factory n
        else map_of (mg_channels ?m1) n)" using init_fold by blast
  have cs: "map_of cs = reloaded_channel factory news cfg m" unfolding b by (auto simp: reloaded_channel_def fun_eq_iff)
  have init: "initChannels factory (toChannelConfig cfg ?added) ?m1 = ?m1\<lparr>mg_channels := cs\<rparr>" using a by (simp add: initChannels_def)
  have stop: "stop_each ?removed (m\<lparr>mg_config := cfg\<rparr>) =
      (if list_all (\<lambda>n. map_of (mg_channels m) n \<noteq> None) ?removed then Some (m\<lparr>mg_config := cfg, mg_calls := cl\<rparr>) else None)"
    by (simp add: stop_each_eq cl_def)
  have cmp: "compareChannels (mg_hashes m) news = (?added, ?removed)" by simp
  show ?thesis
    by (rule exI [of _ cs], rule exI [of _ cl], rule conjI, rule cs, unfold reload_def, subst cmp, unfold prod.case stop)
      (use init in \<open>simp add: Let_def\<close>)
qed

lemma reload_none:
  "reload starts factory news cfg m = None \<longleftrightarrow>
     (\<exists>n\<in>set (snd (compareChannels (mg_hashes m) news)). map_of (mg_channels m) n = None)
   \<or> (\<exists>n\<in>set (fst (compareChannels (mg_hashes m) news)). reloaded_channel factory news cfg m n = None)"
proof -
  obtain cs cl where cs: "map_of cs = reloaded_channel factory news cfg m"
    and r: "reload starts factory news cfg m =
         (if list_all (\<lambda>n. map_of (mg_channels m) n \<noteq> None) (snd (compareChannels (mg_hashes m) news))
          then map_option (\<lambda>(ds, m3). (map DeferUnregister (snd (compareChannels (mg_hashes m) news)) @ ds, m3\<lparr>mg_hashes := news\<rparr>))
            (start_each starts (mg_next m) (fst (compareChannels (mg_hashes m) news))
               (m\<lparr>mg_config := cfg, mg_calls := cl, mg_dispatchTask := Some (mg_next m), mg_next := Suc (mg_next m), mg_channels := cs\<rparr>))
          else None)" using reload_steps [of factory news cfg m starts] by blast
  show ?thesis unfolding r by (simp add: start_each_eq cs list_all_iff)
qed

lemma reload_some:
  assumes "reload starts factory news cfg m = Some (ds, m1)"
  shows "\<exists>cs cl. map_of cs = reloaded_channel factory news cfg m
     \<and> ds = map DeferUnregister (snd (compareChannels (mg_hashes m) news))
         @ map (\<lambda>n. DeferRegister n (the (reloaded_channel factory news cfg m n)))
             (filter (\<lambda>n. starts (the (reloaded_channel factory news cfg m n))) (fst (compareChannels (mg_hashes m) news)))
     \<and> m1 = (fold (\<lambda>n. start_one starts (mg_next m) (n, the (reloaded_channel factory news cfg m n))) (fst (compareChannels (mg_hashes m) news))
          (m\<lparr>mg_config := cfg, mg_calls := cl, mg_dispatchTask := Some (mg_next m), mg_next := Suc (mg_next m), mg_channels := cs\<rparr>))
          \<lparr>mg_hashes := news\<rparr>"
proof -
  obtain cs cl where cs: "map_of cs = reloaded_channel factory news cfg m"
    and r: "reload starts factory news cfg m =
         (if list_all (\<lambda>n. map_of (mg_channels m) n \<noteq> None) (snd (compareChannels (mg_hashes m) news))
          then map_option (\<lambda>(ds, m3). (map DeferUnregister (snd (compareChannels (mg_hashes m) news)) @ ds, m3\<lparr>mg_hashes := news\<rparr>))
            (start_each starts (mg_next m) (fst (compareChannels (mg_hashes m) news))
               (m\<lparr>mg_config := cfg, mg_calls := cl, mg_dispatchTask := Some (mg_next m), mg_next := Suc (mg_next m), mg_channels := cs\<rparr>))
          else None)" using reload_steps [of factory news cfg m starts] by blast
  show ?thesis
    by (rule exI [of _ cs], rule exI [of _ cl]) (use assms r cs in \<open>auto simp: start_each_eq split: if_splits\<close>)
qed

text \<open>Whose secrets \<^verbatim>\<open>updateKeys\<close> does not copy.\<close>

lemma forgotten_tokens:
  "''weixin'' \<notin> set (init_names own (toChannelConfig c names))" "''vk'' \<notin> set (init_names own (toChannelConfig c names))"
  by (simp_all add: init_names_def toChannelConfig_def Let_def)

lemma reload_effect:
  assumes "manager_ok m" "distinct (map fst news)" "reload starts factory news cfg m = Some (ds, m1)"
  shows "\<exists>m2. run_deferred ds m1 = Some m2 \<and> manager_ok m2 \<and> mg_hashes m1 = news
     \<and> (\<forall>n. map_of (mg_channels m2) n =
          (if n \<in> set (fst (compareChannels (mg_hashes m) news)) \<and> starts (the (reloaded_channel factory news cfg m n))
           then Some (the (reloaded_channel factory news cfg m n))
           else if n \<in> set (snd (compareChannels (mg_hashes m) news)) then None else reloaded_channel factory news cfg m n))
     \<and> (\<forall>n. if n \<in> set (snd (compareChannels (mg_hashes m) news)) then map_of (mg_workers m2) n = None
          else if n \<in> set (fst (compareChannels (mg_hashes m) news)) \<and> starts (the (reloaded_channel factory news cfg m n))
          then \<exists>w. map_of (mg_workers m2) n = Some w \<and> wk_ch w = the (reloaded_channel factory news cfg m n)
          else map_of (mg_workers m2) n = map_of (mg_workers m) n)"
proof -
  let ?added = "fst (compareChannels (mg_hashes m) news)"
  let ?removed = "snd (compareChannels (mg_hashes m) news)"
  let ?ch = "reloaded_channel factory news cfg m"
  let ?g = "\<lambda>n. the (?ch n)"
  obtain cs cl where cs: "map_of cs = ?ch"
    and ds: "ds = map DeferUnregister ?removed @ map (\<lambda>n. DeferRegister n (?g n)) (filter (\<lambda>n. starts (?g n)) ?added)"
    and m1: "m1 = (fold (\<lambda>n. start_one starts (mg_next m) (n, ?g n)) ?added
          (m\<lparr>mg_config := cfg, mg_calls := cl, mg_dispatchTask := Some (mg_next m), mg_next := Suc (mg_next m), mg_channels := cs\<rparr>))
          \<lparr>mg_hashes := news\<rparr>" using reload_some [OF assms(3)] by blast
  let ?m0 = "m\<lparr>mg_config := cfg, mg_calls := cl, mg_dispatchTask := Some (mg_next m), mg_next := Suc (mg_next m), mg_channels := cs\<rparr>"
  have "manager_ok ?m0" using manager_okD [OF assms(1)] unfolding manager_ok_def by (auto intro: less_SucI)
  from start_fold [OF this, of starts "mg_next m" ?g ?added] obtain ws nx cl' where
    f: "m1 = ?m0\<lparr>mg_workers := ws, mg_next := nx, mg_calls := cl'\<rparr>\<lparr>mg_hashes := news\<rparr>"
      "manager_ok (?m0\<lparr>mg_workers := ws, mg_next := nx, mg_calls := cl'\<rparr>)"
    and w: "\<forall>n. if n \<in> set ?added \<and> starts (?g n) then \<exists>w. map_of ws n = Some w \<and> wk_ch w = ?g n
        else map_of ws n = map_of (mg_workers m) n" unfolding m1 by auto
  have ok1: "manager_ok m1" using f(2) unfolding f(1) by (simp add: manager_ok_def)
  obtain ma where ma: "run_deferred ds m1 = run_deferred (map (\<lambda>n. DeferRegister n (?g n)) (filter (\<lambda>n. starts (?g n)) ?added)) ma" "manager_ok ma"
      "\<And>n. map_of (mg_channels ma) n = (if n \<in> set ?removed then None else map_of (mg_channels m1) n)"
      "\<And>n. map_of (mg_workers ma) n = (if n \<in> set ?removed then None else map_of (mg_workers m1) n)"
    using unregister_each [OF ok1] unfolding ds by blast
  obtain m2 where m2: "run_deferred ds m1 = Some m2" "manager_ok m2" "mg_workers m2 = mg_workers ma"
      "\<And>n. map_of (mg_channels m2) n = (if n \<in> set (filter (\<lambda>n. starts (?g n)) ?added) then Some (?g n) else map_of (mg_channels ma) n)"
    using register_each [OF ma(2), of ?g "filter (\<lambda>n. starts (?g n)) ?added"] unfolding ma(1) by blast
  have chan: "map_of (mg_channels m2) n = (if n \<in> set ?added \<and> starts (?g n) then Some (?g n) else if n \<in> set ?removed then None else ?ch n)" for n
    using m2(4) ma(3) by (simp add: f(1) cs)
  have work: "map_of (mg_workers m2) n = (if n \<in> set ?removed then None else map_of ws n)" for n
    using m2(3) ma(4) by (simp add: f(1))
  have "if n \<in> set ?removed then map_of (mg_workers m2) n = None
      else if n \<in> set ?added \<and> starts (?g n) then \<exists>w. map_of (mg_workers m2) n = Some w \<and> wk_ch w = ?g n
      else map_of (mg_workers m2) n = map_of (mg_workers m) n" for n
    using work [of n] w [rule_format, of n] by (simp split: if_splits)
  then show ?thesis using m2(1,2) chan by (intro exI [of _ m2]) (simp add: f(1))
qed


text \<open>
  Claim C17. When reloading a configuration panics: exactly when a channel to stop, or one to start, is not in the manager. A channel
  is missing when its section was enabled and nothing was made for it (its secret is empty, or its kind is not compiled in),
  so that disabling such a section crashes the gateway. Enabling \<^verbatim>\<open>weixin\<close> or \<^verbatim>\<open>vk\<close> always does: the secrets of
  these two are lost on the way, so that no channel is made, and \<^verbatim>\<open>Start\<close> is called on nothing.
\<close>

theorem reload_panics:
  "(reload starts factory news cfg m = None) =
     ((\<exists>n\<in>set (snd (compareChannels (mg_hashes m) news)). map_of (mg_channels m) n = None)
      \<or> (\<exists>n\<in>set (fst (compareChannels (mg_hashes m) news)). reloaded_channel factory news cfg m n = None))
   \<and> (distinct (map fst news) \<and> n \<in> {''weixin'', ''vk''} \<and> map_of news n \<noteq> None \<and> map_of (mg_hashes m) n = None \<and> map_of (mg_channels m) n = None
      \<longrightarrow> reload starts factory news cfg m = None)"
proof
  show "(reload starts factory news cfg m = None) =
     ((\<exists>n\<in>set (snd (compareChannels (mg_hashes m) news)). map_of (mg_channels m) n = None)
      \<or> (\<exists>n\<in>set (fst (compareChannels (mg_hashes m) news)). reloaded_channel factory news cfg m n = None))"
    by (rule reload_none)
  show "distinct (map fst news) \<and> n \<in> {''weixin'', ''vk''} \<and> map_of news n \<noteq> None \<and> map_of (mg_hashes m) n = None \<and> map_of (mg_channels m) n = None
      \<longrightarrow> reload starts factory news cfg m = None"
  proof
    assume a: "distinct (map fst news) \<and> n \<in> {''weixin'', ''vk''} \<and> map_of news n \<noteq> None \<and> map_of (mg_hashes m) n = None \<and> map_of (mg_channels m) n = None"
    then have "n \<in> set (fst (compareChannels (mg_hashes m) news))" using compare_added [of news n "mg_hashes m"] by auto
    moreover have "reloaded_channel factory news cfg m n = None" using a forgotten_tokens by (auto simp: reloaded_channel_def)
    ultimately show "reload starts factory news cfg m = None" by (auto simp: reload_none)
  qed
qed

section \<open>Starting and stopping\<close>

lemma ok_init: "manager_ok m \<Longrightarrow> manager_ok (initChannels factory c m)"
  using init_fold [of factory "init_names (mg_config m) c" m] by (auto simp: initChannels_def manager_ok_def)

lemma ok_new: "manager_ok (newManager digest factory c)"
proof -
  let ?m = "\<lparr>mg_channels = [], mg_workers = [], mg_hashes = [], mg_config = c, mg_dispatchTask = None, mg_mux = None, mg_next = 0,
               mg_cancelled = [], mg_queue = (\<lambda>_. []), mg_mediaQueue = (\<lambda>_. []), mg_closed = [], mg_calls = []\<rparr>"
  have "manager_ok (initChannels factory c ?m)" by (rule ok_init) (simp add: manager_ok_def)
  then show ?thesis by (simp add: newManager_def manager_ok_def)
qed

lemma start_list:
  assumes "distinct (map fst chs)"
  shows "fold (start_one starts task) chs m = fold (\<lambda>n. start_one starts task (n, the (map_of chs n))) (map fst chs) m"
proof -
  have "fold (start_one starts task) cs m = fold (\<lambda>n. start_one starts task (n, the (map_of chs n))) (map fst cs) m" if "set cs \<subseteq> set chs" for cs
    using that
  proof (induction cs arbitrary: m)
    case (Cons e cs)
    then have "map_of chs (fst e) = Some (snd e)" using assms by auto
    then show ?case using Cons by simp
  qed simp
  then show ?thesis by simp
qed

text \<open>
  Starting all channels gives a worker with open queues to exactly those that start, and fails if and only if there are channels and
  none of them does (and none had a worker before); the dispatch context is then cancelled.
\<close>

theorem start_all_contract:
  assumes "manager_ok m" "distinct (map fst (mg_channels m))" "mg_workers m = []" "startAll starts m = (ok, m')"
  shows "manager_ok m' \<and> mg_channels m' = mg_channels m
     \<and> (\<forall>name. case map_of (mg_channels m) name of
          None \<Rightarrow> map_of (mg_workers m') name = None
        | Some ch \<Rightarrow> if starts ch then \<exists>w. map_of (mg_workers m') name = Some w \<and> wk_ch w = ch else map_of (mg_workers m') name = None)
     \<and> ok = (mg_channels m = [] \<or> list_ex (\<lambda>(name, ch). starts ch) (mg_channels m))
     \<and> mg_dispatchTask m' = (if ok then Some (mg_next m) else None)"
proof -
  let ?m0 = "m\<lparr>mg_dispatchTask := Some (mg_next m), mg_next := Suc (mg_next m)\<rparr>"
  let ?g = "\<lambda>n. the (map_of (mg_channels m) n)"
  have "manager_ok ?m0" using manager_okD [OF assms(1)] unfolding manager_ok_def by (auto intro: less_SucI)
  from start_fold [OF this, of starts "mg_next m" ?g "map fst (mg_channels m)"] obtain ws nx cl where
    f: "fold (start_one starts (mg_next m)) (mg_channels m) ?m0 = ?m0\<lparr>mg_workers := ws, mg_next := nx, mg_calls := cl\<rparr>"
      "manager_ok (?m0\<lparr>mg_workers := ws, mg_next := nx, mg_calls := cl\<rparr>)"
    and w: "\<forall>n. if n \<in> set (map fst (mg_channels m)) \<and> starts (?g n) then \<exists>w. map_of ws n = Some w \<and> wk_ch w = ?g n
        else map_of ws n = map_of (mg_workers ?m0) n" unfolding start_list [OF assms(2)] by blast
  have m': "m' = ?m0\<lparr>mg_workers := ws, mg_next := nx, mg_calls := cl\<rparr> \<and> ok \<and> (mg_channels m = [] \<or> ws \<noteq> [])
      \<or> m' = ?m0\<lparr>mg_workers := ws, mg_next := nx, mg_calls := cl, mg_dispatchTask := None, mg_cancelled := mg_cancelled m @ [mg_next m]\<rparr>
        \<and> \<not> ok \<and> mg_channels m \<noteq> [] \<and> ws = []"
    using assms(4) f(1) by (auto simp: startAll_def Let_def split: if_splits)
  have ok': "manager_ok m'" using m' f(2) by (auto simp: manager_ok_def)
  have each: "case map_of (mg_channels m) n of None \<Rightarrow> map_of ws n = None
      | Some ch \<Rightarrow> if starts ch then \<exists>w. map_of ws n = Some w \<and> wk_ch w = ch else map_of ws n = None" for n
  proof (cases "map_of (mg_channels m) n")
    case None
    then have "n \<notin> set (map fst (mg_channels m))" by (simp add: map_of_eq_None_iff)
    then show ?thesis using w [rule_format, of n] assms(3) None by simp
  next
    case (Some ch)
    then have "n \<in> set (map fst (mg_channels m))" using map_of_SomeD [OF Some] by force
    then show ?thesis using w [rule_format, of n] assms(3) Some by (simp split: if_splits)
  qed
  have "ws = [] \<longleftrightarrow> \<not> list_ex (\<lambda>(name, ch). starts ch) (mg_channels m)"
  proof
    assume e: "ws = []"
    have "\<not> starts ch" if "(n, ch) \<in> set (mg_channels m)" for n ch
      using each [of n] that assms(2) e by (auto split: if_splits)
    then show "\<not> list_ex (\<lambda>(name, ch). starts ch) (mg_channels m)" by (auto simp: list_ex_iff)
  next
    assume n: "\<not> list_ex (\<lambda>(name, ch). starts ch) (mg_channels m)"
    have "map_of ws x = None" for x
    proof (cases "map_of (mg_channels m) x")
      case None
      then show ?thesis using each [of x] by simp
    next
      case (Some ch)
      then have "\<not> starts ch" using n map_of_SomeD [OF Some] by (auto simp: list_ex_iff)
      then show ?thesis using each [of x] Some by simp
    qed
    then show "ws = []" using map_of_eq_empty_iff [of ws] by (simp add: fun_eq_iff)
  qed
  then have m'_sel: "mg_workers m' = ws" "mg_channels m' = mg_channels m" "mg_dispatchTask m' = (if ok then Some (mg_next m) else None)"
      "ok = (mg_channels m = [] \<or> list_ex (\<lambda>(name, ch). starts ch) (mg_channels m))" using m' by auto
  show ?thesis
  proof (intro conjI allI)
    fix name
    show "case map_of (mg_channels m) name of None \<Rightarrow> map_of (mg_workers m') name = None
        | Some ch \<Rightarrow> if starts ch then \<exists>w. map_of (mg_workers m') name = Some w \<and> wk_ch w = ch else map_of (mg_workers m') name = None"
      unfolding m'_sel(1) by (rule each)
  qed (rule ok' m'_sel)+
qed

lemma close_workers_ok:
  assumes "distinct (map wk_id ws)" "\<forall>w\<in>set ws. wk_id w \<notin> set (mg_closed m)"
  shows "close_workers ws m = Some (m\<lparr>mg_closed := rev (map wk_id ws) @ mg_closed m\<rparr>)"
  using assms
proof (induction ws arbitrary: m)
  case (Cons w ws)
  have "\<forall>v\<in>set ws. wk_id v \<notin> set (mg_closed (m\<lparr>mg_closed := wk_id w # mg_closed m\<rparr>))"
  proof
    fix v assume v: "v \<in> set ws"
    then have "wk_id v \<noteq> wk_id w" using Cons.prems(1) by (metis distinct.simps(2) imageI list.map(2) list.set_map)
    then show "wk_id v \<notin> set (mg_closed (m\<lparr>mg_closed := wk_id w # mg_closed m\<rparr>))" using Cons.prems(2) v by simp
  qed
  then show ?case using Cons.IH [of "m\<lparr>mg_closed := wk_id w # mg_closed m\<rparr>"] Cons.prems by (simp add: close_worker_def)
qed simp

lemma close_workers_again: "ws \<noteq> [] \<Longrightarrow> \<forall>w\<in>set ws. wk_id w \<in> set (mg_closed m) \<Longrightarrow> close_workers ws m = None"
  by (cases ws) (simp_all add: close_worker_def)

lemma stop_calls: "fold (\<lambda>(name, ch). log_lifecycle (StopCalled (co_ref ch))) chs m = m\<lparr>mg_calls := mg_calls m @ map (\<lambda>(name, ch). StopCalled (co_ref ch)) chs\<rparr>"
  by (induction chs arbitrary: m) (auto simp: log_lifecycle_def)

lemma cancel_sel [simp]:
  "mg_closed (cancel_dispatch m) = mg_closed m" "mg_workers (cancel_dispatch m) = mg_workers m" "mg_channels (cancel_dispatch m) = mg_channels m"
  by (simp_all add: cancel_dispatch_def split: option.split)

text \<open>
  Stopping ends and stops every channel, with the queues of every worker closed, but the workers stay in the map: a second
  stop closes a closed queue, and a dispatcher that still runs sends on one. Only the last dispatch context is cancelled, so that
  the dispatcher started before a reload does still run.
\<close>

theorem stop_all_contract:
  assumes "manager_ok m" "distinct (map fst (mg_workers m))"
  shows "\<exists>m'. stopAll m = Some m'
     \<and> mg_calls m' = mg_calls m @ map (\<lambda>(name, ch). StopCalled (co_ref ch)) (mg_channels m)
     \<and> mg_cancelled m' = mg_cancelled m @ (case mg_dispatchTask m of None \<Rightarrow> [] | Some task \<Rightarrow> [task])
     \<and> (\<forall>w\<in>snd ` set (mg_workers m'). wk_id w \<in> set (mg_closed m'))
     \<and> (mg_workers m \<noteq> [] \<longrightarrow> stopAll m' = None)
     \<and> (\<forall>msg w. \<not> isInternalChannel (out_Channel msg) \<and> map_of (mg_channels m) (out_Channel msg) \<noteq> None
          \<and> map_of (mg_workers m) (out_Channel msg) = Some w \<longrightarrow> fst (dispatchOutbound msg m') = DispatchPanicked)"
proof -
  let ?ws = "map snd (mg_workers m)"
  let ?m1 = "(cancel_dispatch m)\<lparr>mg_closed := rev (map wk_id ?ws) @ mg_closed m\<rparr>"
  have sel: "map_of (mg_workers m) n = Some w" if "(n, w) \<in> set (mg_workers m)" for n w using that assms(2) by simp
  have "inj_on (wk_id \<circ> snd) (set (mg_workers m))"
  proof (rule inj_onI, clarify)
    fix a v b w assume v: "(a, v) \<in> set (mg_workers m)" and w: "(b, w) \<in> set (mg_workers m)" and e: "(wk_id \<circ> snd) (a, v) = (wk_id \<circ> snd) (b, w)"
    then have "a = b" using manager_okD(2) [OF assms(1) sel [OF v] sel [OF w]] by simp
    then show "a = b \<and> v = w" using sel [OF v] sel [OF w] by simp
  qed
  moreover have "distinct (mg_workers m)" using assms(2) by (simp add: distinct_map)
  ultimately have "distinct (map wk_id ?ws)" unfolding map_map distinct_map by blast
  moreover have "\<forall>w\<in>set ?ws. wk_id w \<notin> set (mg_closed m)" using manager_okD(1) [OF assms(1) sel] by auto
  ultimately have c: "close_workers ?ws (cancel_dispatch m) = Some ?m1" using close_workers_ok [of ?ws "cancel_dispatch m"] by simp
  define m' where "m' = ?m1\<lparr>mg_calls := mg_calls ?m1 @ map (\<lambda>(name, ch). StopCalled (co_ref ch)) (mg_channels m)\<rparr>"
  have s: "stopAll m = Some m'" using c by (simp add: stopAll_def stop_calls m'_def)
  have m': "mg_workers m' = mg_workers m" "mg_channels m' = mg_channels m" "mg_closed m' = rev (map wk_id ?ws) @ mg_closed m"
    by (simp_all add: m'_def)
  have closed: "\<forall>w\<in>set ?ws. wk_id w \<in> set (mg_closed m')" by (auto simp: m')
  show ?thesis
  proof (rule exI [of _ m'], intro conjI allI impI)
    show "stopAll m = Some m'" by (rule s)
    show "mg_calls m' = mg_calls m @ map (\<lambda>(name, ch). StopCalled (co_ref ch)) (mg_channels m)"
      "mg_cancelled m' = mg_cancelled m @ (case mg_dispatchTask m of None \<Rightarrow> [] | Some task \<Rightarrow> [task])"
      by (simp_all add: m'_def cancel_dispatch_def split: option.split)
    show "\<forall>w\<in>snd ` set (mg_workers m'). wk_id w \<in> set (mg_closed m')" using closed by (simp add: m')
    assume "mg_workers m \<noteq> []"
    then have "close_workers (map snd (mg_workers m')) (cancel_dispatch m') = None"
      by (intro close_workers_again) (use closed in \<open>auto simp: m'(1)\<close>)
    then show "stopAll m' = None" by (simp add: stopAll_def)
  next
    fix msg :: outbound_message and w
    assume a: "\<not> isInternalChannel (out_Channel msg) \<and> map_of (mg_channels m) (out_Channel msg) \<noteq> None
          \<and> map_of (mg_workers m) (out_Channel msg) = Some w"
    then have "w \<in> set ?ws" using map_of_SomeD by force
    then show "fst (dispatchOutbound msg m') = DispatchPanicked"
      using a closed by (auto simp: dispatchOutbound_def dispatch_to_def m' enqueue_outbound_def split: option.split)
  qed
qed

section \<open>Which handler serves a path\<close>

definition subtree :: "string \<Rightarrow> string \<Rightarrow> bool" where
  "subtree path pattern \<longleftrightarrow> pattern \<noteq> [] \<and> last pattern = CHR ''/'' \<and> prefix pattern path"

lemma mux_fold:
  assumes "snd best = None \<longrightarrow> fst best = 0"
  shows "case fold (\<lambda>(pattern, h) best. if mux_better path pattern best then (length pattern, Some h) else best) hs best of
     (n, r) \<Rightarrow> (\<forall>(p, h)\<in>set hs. subtree path p \<longrightarrow> length p \<le> n) \<and> fst best \<le> n
       \<and> ((n, r) = best \<or> (\<exists>p h. (p, h) \<in> set hs \<and> subtree path p \<and> length p = n \<and> r = Some h))
       \<and> (r = None \<longrightarrow> n = 0)"
  using assms
proof (induction hs arbitrary: best)
  case Nil
  then show ?case by (cases best) auto
next
  case (Cons e hs)
  obtain p h where e: "e = (p, h)" by fastforce
  let ?b = "if mux_better path p best then (length p, Some h) else best"
  have "snd ?b = None \<longrightarrow> fst ?b = 0" using Cons.prems by simp
  from Cons.IH [OF this] obtain n r where
    f: "fold (\<lambda>(pattern, h) best. if mux_better path pattern best then (length pattern, Some h) else best) hs ?b = (n, r)"
    and i: "\<forall>(p, h)\<in>set hs. subtree path p \<longrightarrow> length p \<le> n" "fst ?b \<le> n"
      "(n, r) = ?b \<or> (\<exists>p h. (p, h) \<in> set hs \<and> subtree path p \<and> length p = n \<and> r = Some h)" "r = None \<longrightarrow> n = 0"
    by (cases "fold (\<lambda>(pattern, h) best. if mux_better path pattern best then (length pattern, Some h) else best) hs ?b") auto
  have "subtree path p \<longrightarrow> length p \<le> n" "fst best \<le> n" using i(2) by (auto simp: mux_better_def subtree_def split: if_splits)
  moreover have "(n, r) = best \<or> (\<exists>p h. (p, h) \<in> set (e # hs) \<and> subtree path p \<and> length p = n \<and> r = Some h)"
    using i(3) e by (auto simp: mux_better_def subtree_def split: if_splits)
  ultimately show ?case using f i(1,4) e by simp
qed

text \<open>
  The handler that serves a path is that of the path itself if it is a pattern, else that of the longest pattern ending in a slash that is a
  prefix of the path; without one the answer is not found. The order in which the patterns are visited does not matter.
\<close>

theorem mux_longest_prefix:
  assumes "distinct (map fst handlers)"
  shows "serveHTTP handlers path = Some h \<longleftrightarrow>
     map_of handlers path = Some h
     \<or> map_of handlers path = None \<and> (\<exists>p. map_of handlers p = Some h \<and> subtree path p
          \<and> (\<forall>q. map_of handlers q \<noteq> None \<and> subtree path q \<longrightarrow> length q \<le> length p))"
proof (cases "map_of handlers path")
  case None
  obtain n r where f: "fold (\<lambda>(pattern, h) best. if mux_better path pattern best then (length pattern, Some h) else best) handlers (0, None) = (n, r)"
    by fastforce
  have "(\<forall>(p, h)\<in>set handlers. subtree path p \<longrightarrow> length p \<le> n)
      \<and> ((n, r) = (0, None) \<or> (\<exists>p h. (p, h) \<in> set handlers \<and> subtree path p \<and> length p = n \<and> r = Some h))"
    using mux_fold [of "(0, None)" handlers path] unfolding f by simp
  then have best: "\<And>p h. map_of handlers p = Some h \<Longrightarrow> subtree path p \<Longrightarrow> length p \<le> n"
      "r = None \<and> n = 0 \<or> (\<exists>p h. map_of handlers p = Some h \<and> subtree path p \<and> length p = n \<and> r = Some h)"
    using assms by auto
  have same: "p = q" if "subtree path p" "subtree path q" "length p = length q" for p q
    using that unfolding subtree_def prefix_def by (metis append_eq_append_conv)
  have serve: "serveHTTP handlers path = r" using None f by (simp add: serveHTTP_def)
  show ?thesis
  proof
    assume "serveHTTP handlers path = Some h"
    then obtain p where "map_of handlers p = Some h" "subtree path p" "length p = n" using best(2) serve by auto
    then show "map_of handlers path = Some h
     \<or> map_of handlers path = None \<and> (\<exists>p. map_of handlers p = Some h \<and> subtree path p
          \<and> (\<forall>q. map_of handlers q \<noteq> None \<and> subtree path q \<longrightarrow> length q \<le> length p))" using best(1) None by blast
  next
    assume "map_of handlers path = Some h
     \<or> map_of handlers path = None \<and> (\<exists>p. map_of handlers p = Some h \<and> subtree path p
          \<and> (\<forall>q. map_of handlers q \<noteq> None \<and> subtree path q \<longrightarrow> length q \<le> length p))"
    then obtain p where p: "map_of handlers p = Some h" "subtree path p" "\<forall>q. map_of handlers q \<noteq> None \<and> subtree path q \<longrightarrow> length q \<le> length p"
      using None by auto
    have "n \<noteq> 0" using best(1) [OF p(1,2)] p(2) by (cases p) (auto simp: subtree_def)
    then obtain q h' where q: "map_of handlers q = Some h'" "subtree path q" "length q = n" "r = Some h'" using best(2) by auto
    have "length q \<le> length p" using p(3) [rule_format, of q] q by simp
    then have "length p = length q" using best(1) [OF p(1,2)] q(3) by simp
    then show "serveHTTP handlers path = Some h" using same [OF p(2) q(2)] p(1) q(1,4) serve by simp
  qed
qed (auto simp: serveHTTP_def)

section \<open>Examples\<close>

definition no_sections :: channels_config where
  "no_sections = \<lparr>tg_Enabled = False, tg_Token = [], wa_Enabled = False, wa_UseNative = False, wa_BridgeURL = [], fs_Enabled = False,
     mc_Enabled = False, qq_Enabled = False, dt_Enabled = False, dt_ClientID = [], sl_Enabled = False, sl_BotToken = [],
     mx_Enabled = False, mx_Homeserver = [], mx_UserID = [], mx_AccessToken = [], ln_Enabled = False, ln_ChannelAccessToken = [],
     ob_Enabled = False, ob_WSUrl = [], wc_Enabled = False, wc_BotID = [], wc_Secret = [], wx_Enabled = False, wx_Token = [],
     pc_Enabled = False, pc_Token = [], pl_Enabled = False, pl_URL = [], irc_Enabled = False, irc_Server = [], vk_Enabled = False,
     vk_Token = [], vk_GroupID = 0, tw_Enabled = False, tw_Webhooks = []\<rparr>"

definition slack_section :: channels_config where
  "slack_section = no_sections\<lparr>sl_Enabled := True, sl_BotToken := ''xoxb''\<rparr>"

definition slack_factory :: "string \<Rightarrow> channel_obj option" where
  "slack_factory name = (if name = ''slack'' then Some slack_channel else None)"

definition slack_manager :: manager where
  "slack_manager = snd (startAll (\<lambda>ch. True) (newManager (\<lambda>c key. ''h1'') slack_factory slack_section))"

lemma slack_manager_hashes:
  "mg_hashes slack_manager = [(''slack'', ''h1'')]" "map_of (mg_channels slack_manager) ''slack'' = Some slack_channel"
  "map_of (mg_channels slack_manager) ''weixin'' = None"
  by code_simp+

lemma ok_slack_manager: "manager_ok slack_manager"
proof -
  let ?m = "newManager (\<lambda>c key. ''h1'') slack_factory slack_section"
  obtain ok m' where m': "startAll (\<lambda>ch. True) ?m = (ok, m')" by fastforce
  have "distinct (map fst (mg_channels ?m))" "mg_workers ?m = []" by code_simp+
  then show ?thesis using start_all_contract [OF ok_new _ _ m'] m' by (simp add: slack_manager_def)
qed


theorem reload_panics_witness:
  "reload (\<lambda>ch. True) slack_factory [(''slack'', ''h1''), (''weixin'', ''h2'')] (slack_section\<lparr>wx_Enabled := True, wx_Token := ''t''\<rparr>) slack_manager = None"
  using reload_panics [of "\<lambda>ch. True" slack_factory "[(''slack'', ''h1''), (''weixin'', ''h2'')]"
      "slack_section\<lparr>wx_Enabled := True, wx_Token := ''t''\<rparr>" slack_manager "''weixin''"] slack_manager_hashes by simp

theorem mux_longest_prefix_witness: "serveHTTP [(''/a/'', 1), (''/a/b/'', 2), (''/a'', 3)] ''/a/b/c'' = Some 2"
proof -
  have "\<forall>q. map_of [(''/a/'', 1::nat), (''/a/b/'', 2), (''/a'', 3)] q \<noteq> None \<and> subtree ''/a/b/c'' q \<longrightarrow> length q \<le> length ''/a/b/''"
    by (auto split: if_splits)
  moreover have "subtree ''/a/b/c'' ''/a/b/''" by (simp add: subtree_def)
  ultimately show ?thesis
    using mux_longest_prefix [of "[(''/a/'', 1), (''/a/b/'', 2), (''/a'', 3)]" "''/a/b/c''" 2]
    by (auto intro: exI [of _ "''/a/b/''"])
qed

end
